(* ===== verification/Prelude.thy ===== *)
theory Prelude
  imports Main "HOL-Library.AList" "HOL-Library.While_Combinator"
begin

section \<open>Shared vocabulary of the model\<close>

text \<open>
  What every component shares: Python's insertion-ordered dictionaries as association lists,
  its sets of small integers, decimal printing, the status values of a unified job
  (\<^verbatim>\<open>forail/main/models/unified_jobs.py\<close>), folds that may fail, and the
  collections of simplification rules the component theories extend.
\<close>

named_theorems dict_simps \<open>lookup in and update of Python dictionaries\<close>
named_theorems status_simps \<open>membership of job statuses in the status tuples\<close>

subsection \<open>Dictionaries\<close>

text \<open>
  A Python dictionary keeps its insertion order, and assigning to a key that is present keeps
  the key's place: this is \<^const>\<open>AList.update\<close> on an association list.
\<close>

type_synonym ('k, 'v) pydict = "('k \<times> 'v) list"

abbreviation dict_get :: "('k, 'v) pydict \<Rightarrow> 'k \<Rightarrow> 'v option" where
  "dict_get \<equiv> map_of"

abbreviation dict_set :: "'k \<Rightarrow> 'v \<Rightarrow> ('k, 'v) pydict \<Rightarrow> ('k, 'v) pydict" where
  "dict_set \<equiv> AList.update"

abbreviation dict_keys :: "('k, 'v) pydict \<Rightarrow> 'k list" where
  "dict_keys d \<equiv> map fst d"

text \<open>\<open>d.get(k, default)\<close>\<close>

definition dict_get_default :: "('k, 'v) pydict \<Rightarrow> 'k \<Rightarrow> 'v \<Rightarrow> 'v" where
  "dict_get_default d k v = (case dict_get d k of None \<Rightarrow> v | Some w \<Rightarrow> w)"

text \<open>\<open>s.add(x)\<close> and \<open>s.discard(x)\<close> on a set kept as the list of its elements.\<close>

definition set_add :: "'a \<Rightarrow> 'a list \<Rightarrow> 'a list" where
  "set_add x xs = (if x \<in> set xs then xs else xs @ [x])"

definition set_discard :: "'a \<Rightarrow> 'a list \<Rightarrow> 'a list" where
  "set_discard x xs = filter (\<lambda>y. y \<noteq> x) xs"

subsection \<open>The contract of a dictionary\<close>

text \<open>
  What the components rely on when they keep state in a dictionary: a lookup after a store,
  and that a store keeps every other key.
\<close>

locale keyed_store =
  fixes lookup :: "'m \<Rightarrow> 'k \<Rightarrow> 'v option"
    and store :: "'k \<Rightarrow> 'v \<Rightarrow> 'm \<Rightarrow> 'm"
  assumes lookup_store_same: "lookup (store k v m) k = Some v"
    and lookup_store_other: "k' \<noteq> k \<Longrightarrow> lookup (store k v m) k' = lookup m k'"
begin

lemma lookup_store: "lookup (store k v m) k' = (if k' = k then Some v else lookup m k')"
  by (simp add: lookup_store_same lookup_store_other)

lemma lookup_fold_store_other:
  "k \<notin> fst ` set kvs \<Longrightarrow> lookup (fold (\<lambda>(k, v). store k v) kvs m) k = lookup m k"
  by (induction kvs arbitrary: m) (auto simp: lookup_store)

lemma lookup_fold_store:
  "distinct (map fst kvs) \<Longrightarrow> (k, v) \<in> set kvs \<Longrightarrow>
     lookup (fold (\<lambda>(k, v). store k v) kvs m) k = Some v"
proof (induction kvs arbitrary: m)
  case Nil
  then show ?case by simp
next
  case (Cons kv kvs)
  show ?case
  proof (cases "kv = (k, v)")
    case True
    with Cons.prems have "k \<notin> fst ` set kvs" by auto
    with True show ?thesis by (simp add: lookup_fold_store_other lookup_store_same)
  next
    case False
    with Cons show ?thesis by (cases kv) auto
  qed
qed

end

interpretation alist_store: keyed_store map_of AList.update
  by unfold_locales (simp_all add: update_conv')

lemmas [dict_simps] = alist_store.lookup_store dict_get_default_def

lemma set_set_add [simp]: "set (set_add x xs) = insert x (set xs)"
  by (auto simp: set_add_def)

lemma set_set_discard [simp]: "set (set_discard x xs) = set xs - {x}"
  by (auto simp: set_discard_def)

lemma set_fold_set_add [simp]: "set (fold set_add xs ys) = set xs \<union> set ys"
  by (induction xs arbitrary: ys) auto

lemma distinct_set_add [simp]: "distinct (set_add x xs) = distinct xs"
  by (auto simp: set_add_def)

lemma distinct_set_discard [simp]: "distinct xs \<Longrightarrow> distinct (set_discard x xs)"
  by (simp add: set_discard_def)

lemma sorted_set_discard: "sorted xs \<Longrightarrow> sorted (set_discard x xs)"
  using sorted_filter [of "\<lambda>y. y" xs] by (simp add: set_discard_def)

lemma dict_keys_update [dict_simps]:
  "set (dict_keys (dict_set k v d)) = insert k (set (dict_keys d))"
  using dom_update [of k v d] by (simp add: dom_map_of_conv_image_fst)

subsection \<open>Folds that may fail\<close>

lemma find_SomeD: "find P xs = Some x \<Longrightarrow> x \<in> set xs \<and> P x"
  by (induction xs) (auto split: if_splits)

text \<open>Steps and loops whose first error is their result.\<close>

definition then_ok :: "'e + 'a \<Rightarrow> ('a \<Rightarrow> 'e + 'b) \<Rightarrow> 'e + 'b" where
  "then_ok r f = (case r of Inl e \<Rightarrow> Inl e | Inr x \<Rightarrow> f x)"

lemma then_ok_simps [simp]: "then_ok (Inl e) f = Inl e" "then_ok (Inr x) f = f x"
  by (simp_all add: then_ok_def)

lemma then_ok_Inr: "then_ok r f = Inr y \<longleftrightarrow> (\<exists>x. r = Inr x \<and> f x = Inr y)"
  by (cases r) (auto simp: then_ok_def)

fun fold_ok :: "('a \<Rightarrow> 's \<Rightarrow> 'e + 's) \<Rightarrow> 'a list \<Rightarrow> 's \<Rightarrow> 'e + 's" where
  "fold_ok f [] s = Inr s"
| "fold_ok f (x # xs) s = then_ok (f x s) (fold_ok f xs)"

text \<open>A loop whose body may not return (or raise): the first failure ends it.\<close>

fun fold_opt :: "('a \<Rightarrow> 's \<Rightarrow> 's option) \<Rightarrow> 'a list \<Rightarrow> 's \<Rightarrow> 's option" where
  "fold_opt f [] s = Some s"
| "fold_opt f (x # xs) s = (case f x s of None \<Rightarrow> None | Some t \<Rightarrow> fold_opt f xs t)"

lemma fold_opt_invariant:
  assumes "fold_opt f xs s = Some t" and "I s"
    and "\<And>x s t. x \<in> set xs \<Longrightarrow> I s \<Longrightarrow> f x s = Some t \<Longrightarrow> I t"
  shows "I t"
  using assms
proof (induction xs arbitrary: s)
  case Nil
  then show ?case by simp
next
  case (Cons x xs)
  from Cons.prems(1) obtain u where u: "f x s = Some u" "fold_opt f xs u = Some t"
    by (auto split: option.splits)
  from Cons.prems(2,3) u(1) have "I u" by auto
  with u(2) show ?case using Cons.IH Cons.prems(3) by (metis list.set_intros(2))
qed

lemma fold_opt_defined:
  assumes "I s"
    and "\<And>x s. x \<in> set xs \<Longrightarrow> I s \<Longrightarrow> \<exists>t. f x s = Some t \<and> I t"
  shows "\<exists>t. fold_opt f xs s = Some t \<and> I t"
  using assms
proof (induction xs arbitrary: s)
  case Nil
  then show ?case by simp
next
  case (Cons x xs)
  from Cons.prems obtain u where u: "f x s = Some u" "I u" by auto
  from Cons.IH [OF u(2)] Cons.prems(2) obtain t where "fold_opt f xs u = Some t \<and> I t"
    by auto
  with u show ?case by auto
qed

text \<open>
  A loop that establishes \<open>Q x\<close> at \<open>x\<close> and never undoes it holds it for every element at
  the end.
\<close>

lemma fold_opt_all:
  assumes "I s"
    and step: "\<And>x s. x \<in> set xs \<Longrightarrow> I s \<Longrightarrow> \<exists>t. f x s = Some t \<and> I t \<and> Q x t \<and> (\<forall>y. Q y s \<longrightarrow> Q y t)"
  shows "\<exists>t. fold_opt f xs s = Some t \<and> I t \<and> (\<forall>x \<in> set xs. Q x t) \<and> (\<forall>y. Q y s \<longrightarrow> Q y t)"
  using assms
proof (induction xs arbitrary: s)
  case Nil
  then show ?case by simp
next
  case (Cons x xs)
  have "x \<in> set (x # xs)" by simp
  from Cons.prems(2) [OF this Cons.prems(1)] obtain u where
    u: "f x s = Some u" "I u" "Q x u" "\<forall>y. Q y s \<longrightarrow> Q y u" by blast
  have "\<exists>t. fold_opt f xs u = Some t \<and> I t \<and> (\<forall>x \<in> set xs. Q x t) \<and> (\<forall>y. Q y u \<longrightarrow> Q y t)"
    using u(2) Cons.prems(2) by (intro Cons.IH) simp_all
  then obtain t where "fold_opt f xs u = Some t" "I t" "\<forall>x \<in> set xs. Q x t" "\<forall>y. Q y u \<longrightarrow> Q y t"
    by blast
  with u show ?case by (intro exI [of _ t]) simp
qed

lemma fold_ok_append: "fold_ok f (xs @ ys) s = then_ok (fold_ok f xs s) (fold_ok f ys)"
  by (induction xs arbitrary: s) (auto simp: then_ok_def split: sum.splits)

lemma fold_ok_invariant:
  assumes "fold_ok f xs s = Inr t" "I s" "\<And>x s t. x \<in> set xs \<Longrightarrow> f x s = Inr t \<Longrightarrow> I s \<Longrightarrow> I t"
  shows "I t"
  using assms
proof (induction xs arbitrary: s)
  case (Cons x xs)
  then obtain u where "f x s = Inr u" "fold_ok f xs u = Inr t" by (auto simp: then_ok_Inr)
  with Cons show ?case by (metis list.set_intros)
qed simp

subsection \<open>Batches\<close>

text \<open>The slices of a list, each of at most the given length.\<close>

function split_ids :: "nat \<Rightarrow> 'a list \<Rightarrow> 'a list list" where
  "split_ids n xs = (if xs = [] \<or> n = 0 then [] else take n xs # split_ids n (drop n xs))"
  by pat_completeness auto
termination by (relation "measure (length \<circ> snd)") auto

declare split_ids.simps [simp del]

lemma concat_split_ids: "n \<noteq> 0 \<Longrightarrow> concat (split_ids n xs) = xs"
  by (induction n xs rule: split_ids.induct) (subst split_ids.simps, simp)

lemma set_split_ids: "n \<noteq> 0 \<Longrightarrow> (\<Union>ks \<in> set (split_ids n xs). set ks) = set xs"
  by (metis concat_split_ids set_concat)

subsection \<open>Loops that collect a verdict\<close>

text \<open>
  The contract of the gates that ask a list of rules one after the other: a turn keeps the verdict
  unless its rule denies, and no later turn takes a denial back.
\<close>

locale verdict_loop =
  fixes turn :: "'x \<Rightarrow> 's \<Rightarrow> 's"
    and ok :: "'s \<Rightarrow> bool"
    and denies :: "'x \<Rightarrow> bool"
  assumes turn_ok: "ok (turn x s) \<longleftrightarrow> ok s \<and> \<not> denies x"
begin

lemma loop_ok: "ok (fold turn xs s) \<longleftrightarrow> ok s \<and> \<not> list_ex denies xs"
  by (induction xs arbitrary: s) (auto simp: turn_ok)

lemma loop_ok_append: "ok (fold turn (xs @ ys) s) \<longleftrightarrow> ok (fold turn xs s) \<and> \<not> list_ex denies ys"
  by (simp add: loop_ok)

lemma loop_ok_order: "set xs = set ys \<Longrightarrow> ok (fold turn xs s) = ok (fold turn ys s)"
  by (auto simp: loop_ok list_ex_iff)

end

subsection \<open>Printing numbers and joining strings\<close>

definition digit_char :: "nat \<Rightarrow> char" where
  "digit_char d = char_of (48 + d)"

fun nat_str :: "nat \<Rightarrow> string" where
  "nat_str n = (if n < 10 then [digit_char n] else nat_str (n div 10) @ [digit_char (n mod 10)])"

declare nat_str.simps [simp del]

definition int_str :: "int \<Rightarrow> string" where
  "int_str i = (if i < 0 then ''-'' @ nat_str (nat (- i)) else nat_str (nat i))"

definition dec_value :: "string \<Rightarrow> nat" where
  "dec_value s = foldl (\<lambda>a c. 10 * a + (of_char c - 48)) 0 s"

fun join :: "string \<Rightarrow> string list \<Rightarrow> string" where
  "join sep [] = []"
| "join sep [s] = s"
| "join sep (s # t # ts) = s @ sep @ join sep (t # ts)"

lemma digit_char_value: "d < 10 \<Longrightarrow> of_char (digit_char d) = 48 + d"
  by (simp add: digit_char_def of_char_of)

lemma dec_value_nat_str: "dec_value (nat_str n) = n"
proof (induction n rule: nat_str.induct)
  case (1 n)
  show ?case
  proof (cases "n < 10")
    case True
    then show ?thesis
      by (subst nat_str.simps) (simp add: dec_value_def digit_char_value)
  next
    case False
    with 1 have IH: "dec_value (nat_str (n div 10)) = n div 10" by simp
    from False show ?thesis
      using IH by (subst nat_str.simps) (simp add: dec_value_def digit_char_value)
  qed
qed

lemma nat_str_inject: "nat_str m = nat_str n \<longleftrightarrow> m = n"
  by (metis dec_value_nat_str)

lemma nat_str_digits: "c \<in> set (nat_str n) \<Longrightarrow> 48 \<le> (of_char c :: nat) \<and> (of_char c :: nat) < 58"
proof (induction n rule: nat_str.induct)
  case (1 n)
  show ?case
  proof (cases "n < 10")
    case True
    with "1.prems" show ?thesis
      by (subst (asm) nat_str.simps) (simp add: digit_char_value)
  next
    case False
    with 1 show ?thesis
      by (subst (asm) (2) nat_str.simps) (auto simp: digit_char_value)
  qed
qed

lemma nat_str_nonempty: "nat_str n \<noteq> []"
  by (subst nat_str.simps) simp

lemma int_str_inject: "int_str i = int_str j \<longleftrightarrow> i = j"
proof -
  have dash: "nat_str n \<noteq> CHR ''-'' # s" for n s
  proof
    assume "nat_str n = CHR ''-'' # s"
    then have "CHR ''-'' \<in> set (nat_str n)" by simp
    from nat_str_digits [OF this] show False by simp
  qed
  have flip: "(CHR ''-'' # s = nat_str n) = False" for n s
    using dash [of n s] by (simp add: eq_commute)
  show ?thesis
    by (cases "i < 0"; cases "j < 0") (auto simp: int_str_def nat_str_inject dash flip)
qed

subsection \<open>Statuses of unified jobs\<close>

text \<open>\<open>UnifiedJobTemplate.JOB_STATUS_CHOICES\<close>, the values of \<open>UnifiedJob.status\<close>.\<close>

datatype job_status = New | Pending | Waiting | Running | Successful | Failed | Error | Canceled

fun status_str :: "job_status \<Rightarrow> string" where
  "status_str New = ''new''"
| "status_str Pending = ''pending''"
| "status_str Waiting = ''waiting''"
| "status_str Running = ''running''"
| "status_str Successful = ''successful''"
| "status_str Failed = ''failed''"
| "status_str Error = ''error''"
| "status_str Canceled = ''canceled''"

text \<open>\<open>CAN_CANCEL\<close> and \<open>ACTIVE_STATES\<close> of \<^verbatim>\<open>forail/main/constants.py\<close>.\<close>

definition active_states :: "job_status list" where
  "active_states = [New, Pending, Waiting, Running]"

definition job_finished :: "job_status \<Rightarrow> bool" where
  "job_finished s \<longleftrightarrow> s \<in> {Successful, Failed, Error, Canceled}"

lemma job_finished_iff [status_simps]: "job_finished s \<longleftrightarrow> s \<notin> set active_states"
  by (cases s) (auto simp: job_finished_def active_states_def)

end
