(* ===== verification/SimpleDag.thy ===== *)
theory SimpleDag
  imports Prelude
begin

section \<open>The graph of \<^verbatim>\<open>forail/main/scheduler/dag_simple.py\<close>\<close>

text \<open>
  \<open>SimpleDAG\<close> keeps its nodes in a list, a dictionary from a node object to its index, the set of
  the indices with no incoming edge, and the edges twice, by label: from an index to the indices
  it points to, and back. Node objects are compared and hashed by their primary key, so a node
  object is its key here and what the workflow code reads from the object is looked up in a
  store (theory \<open>WorkflowDag\<close>); \<open>obj.id\<close> is the key too.

  The set of root indices is kept as a list in ascending order: indices are added in ascending
  order, and CPython iterates over a set of the integers below its length in that order.
  Python's stack in \<open>has_cycle\<close> ends at the right; the list here starts with its top.
\<close>

subsection \<open>State\<close>

record ('o, 'm) dag_entry =
  node_object :: 'o
  metadata :: "'m option"

type_synonym edge_table = "(string, (nat, nat list) pydict) pydict"

record ('o, 'm) simple_dag =
  dag_nodes :: "('o, 'm) dag_entry list"
  root_nodes :: "nat list"
  node_obj_to_node_index :: "('o, nat) pydict"
  node_from_edges_by_label :: edge_table
  node_to_edges_by_label :: edge_table

definition empty_dag :: "('o, 'm) simple_dag" where
  "empty_dag = \<lparr>dag_nodes = [], root_nodes = [], node_obj_to_node_index = [],
     node_from_edges_by_label = [], node_to_edges_by_label = []\<rparr>"

text \<open>The three messages of \<open>LookupError\<close>.\<close>

datatype 'o lookup_error = FromAndToNotFound 'o 'o | FromNotFound 'o | ToNotFound 'o

subsection \<open>Operations\<close>

definition find_ord :: "('o, 'm) simple_dag \<Rightarrow> 'o \<Rightarrow> nat option" where
  "find_ord d obj = dict_get (node_obj_to_node_index d) obj"

definition add_node :: "'o \<Rightarrow> 'm option \<Rightarrow> ('o, 'm) simple_dag \<Rightarrow> ('o, 'm) simple_dag" where
  "add_node obj md d =
     (if find_ord d obj = None then
        (let node_index = length (dag_nodes d) in
         d\<lparr>root_nodes := set_add node_index (root_nodes d),
           node_obj_to_node_index := dict_set obj node_index (node_obj_to_node_index d),
           dag_nodes := dag_nodes d @ [\<lparr>node_object = obj, metadata = md\<rparr>]\<rparr>)
      else d)"

text \<open>\<open>table.get(label, {}).get(index, [])\<close>; no key of the inner dictionary is \<open>None\<close>.\<close>

definition edges_at :: "edge_table \<Rightarrow> string \<Rightarrow> nat option \<Rightarrow> nat list" where
  "edges_at tab label idx =
     (case idx of None \<Rightarrow> []
      | Some i \<Rightarrow> dict_get_default (dict_get_default tab label []) i [])"

text \<open>
  \<open>table.setdefault(label, dict()).setdefault(i, [])\<close> followed by
  \<open>table[label][i].append(j)\<close>.
\<close>

definition push_edge :: "string \<Rightarrow> nat \<Rightarrow> nat \<Rightarrow> edge_table \<Rightarrow> edge_table" where
  "push_edge label i j tab =
     (let inner = dict_get_default tab label []
      in dict_set label (dict_set i (dict_get_default inner i [] @ [j]) inner) tab)"

text \<open>
  The target stops being a root before the two lookups are checked, so the error branches
  return a changed graph.
\<close>

definition add_edge ::
  "'o \<Rightarrow> 'o \<Rightarrow> string \<Rightarrow> ('o, 'm) simple_dag \<Rightarrow> 'o lookup_error option \<times> ('o, 'm) simple_dag" where
  "add_edge from_obj to_obj label d =
     (let from_obj_ord = find_ord d from_obj; to_obj_ord = find_ord d to_obj;
          d1 = (case to_obj_ord of None \<Rightarrow> d
                | Some j \<Rightarrow> d\<lparr>root_nodes := set_discard j (root_nodes d)\<rparr>)
      in case (from_obj_ord, to_obj_ord) of
           (None, None) \<Rightarrow> (Some (FromAndToNotFound from_obj to_obj), d1)
         | (None, Some _) \<Rightarrow> (Some (FromNotFound from_obj), d1)
         | (Some _, None) \<Rightarrow> (Some (ToNotFound to_obj), d1)
         | (Some i, Some j) \<Rightarrow>
             (None, d1\<lparr>node_from_edges_by_label := push_edge label i j (node_from_edges_by_label d1),
                       node_to_edges_by_label := push_edge label j i (node_to_edges_by_label d1)\<rparr>))"

definition nodes_at :: "('o, 'm) simple_dag \<Rightarrow> nat list \<Rightarrow> ('o, 'm) dag_entry list" where
  "nodes_at d idxs = map (\<lambda>i. dag_nodes d ! i) idxs"

definition get_children_by_label ::
  "('o, 'm) simple_dag \<Rightarrow> nat option \<Rightarrow> string \<Rightarrow> ('o, 'm) dag_entry list" where
  "get_children_by_label d node_index label =
     nodes_at d (edges_at (node_from_edges_by_label d) label node_index)"

definition get_parents_by_label ::
  "('o, 'm) simple_dag \<Rightarrow> nat option \<Rightarrow> string \<Rightarrow> ('o, 'm) dag_entry list" where
  "get_parents_by_label d node_index label =
     nodes_at d (edges_at (node_to_edges_by_label d) label node_index)"

definition get_children ::
  "('o, 'm) simple_dag \<Rightarrow> 'o \<Rightarrow> string option \<Rightarrow> ('o, 'm) dag_entry list" where
  "get_children d obj label =
     (let this_ord = find_ord d obj in
      if label \<noteq> None \<and> label \<noteq> Some '''' then get_children_by_label d this_ord (the label)
      else concat (map (get_children_by_label d this_ord)
                     (dict_keys (node_from_edges_by_label d))))"

definition get_parents ::
  "('o, 'm) simple_dag \<Rightarrow> 'o \<Rightarrow> string option \<Rightarrow> ('o, 'm) dag_entry list" where
  "get_parents d obj label =
     (let this_ord = find_ord d obj in
      if label \<noteq> None \<and> label \<noteq> Some '''' then get_parents_by_label d this_ord (the label)
      else concat (map (get_parents_by_label d this_ord)
                     (dict_keys (node_to_edges_by_label d))))"

definition get_root_nodes :: "('o, 'm) simple_dag \<Rightarrow> ('o, 'm) dag_entry list" where
  "get_root_nodes d = nodes_at d (root_nodes d)"

subsection \<open>Cycle detection\<close>

text \<open>The state of the loop: the stack (top first), the visited objects, the path, \<open>res\<close>.\<close>

type_synonym 'o cycle_state = "'o list \<times> 'o set \<times> 'o set \<times> bool"

definition child_objects :: "('o, 'm) simple_dag \<Rightarrow> 'o \<Rightarrow> 'o list" where
  "child_objects d obj = map node_object (get_children d obj None)"

fun has_cycle_step :: "('o, 'm) simple_dag \<Rightarrow> 'o cycle_state \<Rightarrow> 'o cycle_state" where
  "has_cycle_step d ([], visited, path, res) = ([], visited, path, res)"
| "has_cycle_step d (node_obj # stack, visited, path, res) =
     (let children_to_add = filter (\<lambda>c. c \<notin> visited) (child_objects d node_obj) in
      if children_to_add \<noteq> [] then
        (if node_obj \<in> path then (stack, visited, path, True)
         else (rev children_to_add @ node_obj # stack, visited, insert node_obj path, res))
      else (stack, insert node_obj visited, path - {node_obj}, res))"

definition has_cycle_running :: "'o cycle_state \<Rightarrow> bool" where
  "has_cycle_running s \<longleftrightarrow> (case s of (stack, _, _, res) \<Rightarrow> stack \<noteq> [] \<and> \<not> res)"

definition root_objects :: "('o, 'm) simple_dag \<Rightarrow> 'o list" where
  "root_objects d = map node_object (get_root_nodes d)"

text \<open>\<^const>\<open>None\<close>: the loop does not end.\<close>

definition has_cycle :: "('o, 'm) simple_dag \<Rightarrow> bool option" where
  "has_cycle d =
     (if dag_nodes d \<noteq> [] \<and> root_objects d = [] then Some True
      else map_option (\<lambda>(_, _, _, res). res)
        (while_option has_cycle_running (has_cycle_step d)
           (rev (root_objects d), {}, {}, False)))"

subsection \<open>Topological order\<close>

text \<open>
  \<open>visit\<close> recurses into the children before it marks its own node as processed, so on a cycle it
  recurses for ever. The first argument is Python's recursion limit; \<^const>\<open>None\<close> is
  \<open>RecursionError\<close>. The state is the processed keys and the deque, its left end first.
\<close>

type_synonym ('o, 'm) topo_state = "'o set \<times> ('o, 'm) dag_entry list"

fun visit ::
  "nat \<Rightarrow> ('o, 'm) simple_dag \<Rightarrow> ('o, 'm) dag_entry \<Rightarrow> ('o, 'm) topo_state \<Rightarrow> ('o, 'm) topo_state option"
where
  "visit 0 d node s = None"
| "visit (Suc limit) d node (processed, nodes_sorted) =
     (let obj = node_object node in
      if obj \<in> processed then Some (processed, nodes_sorted)
      else case fold_opt (visit limit d) (get_children d obj None) (processed, nodes_sorted) of
             None \<Rightarrow> None
           | Some (processed', nodes_sorted') \<Rightarrow>
               Some (insert obj processed', node # nodes_sorted'))"

definition sort_nodes_topological ::
  "nat \<Rightarrow> ('o, 'm) simple_dag \<Rightarrow> ('o, 'm) dag_entry list option" where
  "sort_nodes_topological limit d =
     map_option snd
       (fold_opt (\<lambda>node s. if node_object node \<in> fst s then Some s else visit limit d node s)
          (dag_nodes d) ({}, []))"

subsection \<open>Well-formed graphs\<close>

text \<open>
  What every sequence of successful calls establishes: the dictionary is the inverse of the node
  list, the two edge tables mirror each other and stay in range, and the roots are the indices
  with no incoming edge, in ascending order.
\<close>

definition dag_objs :: "('o, 'm) simple_dag \<Rightarrow> 'o list" where
  "dag_objs d = map node_object (dag_nodes d)"

definition dag_wf :: "('o, 'm) simple_dag \<Rightarrow> bool" where
  "dag_wf d \<longleftrightarrow>
     distinct (dag_objs d) \<and>
     (\<forall>obj i. find_ord d obj = Some i \<longleftrightarrow> i < length (dag_nodes d) \<and> dag_objs d ! i = obj) \<and>
     (\<forall>l i j. j \<in> set (edges_at (node_from_edges_by_label d) l (Some i)) \<longrightarrow>
        i < length (dag_nodes d) \<and> j < length (dag_nodes d)) \<and>
     (\<forall>l i j. j \<in> set (edges_at (node_from_edges_by_label d) l (Some i)) \<longleftrightarrow>
        i \<in> set (edges_at (node_to_edges_by_label d) l (Some j))) \<and>
     set (root_nodes d) = {j. j < length (dag_nodes d) \<and>
        (\<forall>l. edges_at (node_to_edges_by_label d) l (Some j) = [])} \<and>
     sorted (root_nodes d) \<and> distinct (root_nodes d)"

text \<open>The abstract graph: an edge with label \<open>l\<close> from one object to another.\<close>

definition has_edge :: "('o, 'm) simple_dag \<Rightarrow> string \<Rightarrow> 'o \<Rightarrow> 'o \<Rightarrow> bool" where
  "has_edge d l u v \<longleftrightarrow>
     (\<exists>i j. find_ord d u = Some i \<and> find_ord d v = Some j \<and>
        j \<in> set (edges_at (node_from_edges_by_label d) l (Some i)))"

definition succ_rel :: "('o, 'm) simple_dag \<Rightarrow> ('o \<times> 'o) set" where
  "succ_rel d = {(u, v). v \<in> set (child_objects d u)}"

lemma edges_at_None [simp]: "edges_at tab l None = []"
  by (simp add: edges_at_def)

lemma edges_at_push_edge:
  "edges_at (push_edge l i j tab) l' (Some i') =
     edges_at tab l' (Some i') @ (if l' = l \<and> i' = i then [j] else [])"
  by (auto simp: edges_at_def push_edge_def Let_def dict_simps)

lemma keys_push_edge:
  "set (dict_keys (push_edge l i j tab)) = insert l (set (dict_keys tab))"
  unfolding push_edge_def Let_def by (rule dict_keys_update)

lemma edges_at_key: "edges_at tab l idx \<noteq> [] \<Longrightarrow> l \<in> set (dict_keys tab)"
  by (auto simp: edges_at_def dict_get_default_def map_of_eq_None_iff image_iff
      split: option.splits) (metis fst_conv map_of_SomeD)

lemma dag_wf_empty: "dag_wf empty_dag"
  by (auto simp: dag_wf_def empty_dag_def dag_objs_def find_ord_def edges_at_def dict_simps)

lemma wf_find_ord:
  "dag_wf d \<Longrightarrow> find_ord d obj = Some i \<longleftrightarrow> i < length (dag_nodes d) \<and> dag_objs d ! i = obj"
  by (simp add: dag_wf_def)

lemma wf_find_ord_None: "dag_wf d \<Longrightarrow> find_ord d obj = None \<longleftrightarrow> obj \<notin> set (dag_objs d)"
proof -
  assume wf: "dag_wf d"
  have len: "length (dag_nodes d) = length (dag_objs d)" by (simp add: dag_objs_def)
  have "(\<exists>i. find_ord d obj = Some i) \<longleftrightarrow> obj \<in> set (dag_objs d)"
    unfolding wf_find_ord [OF wf] by (auto simp: in_set_conv_nth len)
  then show ?thesis by (cases "find_ord d obj") auto
qed

lemma wf_entry:
  "dag_wf d \<Longrightarrow> j < length (dag_nodes d) \<Longrightarrow> find_ord d (node_object (dag_nodes d ! j)) = Some j"
  by (simp add: wf_find_ord dag_objs_def)

lemma wf_edge_range:
  "dag_wf d \<Longrightarrow> j \<in> set (edges_at (node_from_edges_by_label d) l (Some i)) \<Longrightarrow>
     i < length (dag_nodes d) \<and> j < length (dag_nodes d)"
  by (auto simp: dag_wf_def)

lemma wf_mirror:
  "dag_wf d \<Longrightarrow> i \<in> set (edges_at (node_to_edges_by_label d) l (Some j)) \<longleftrightarrow>
     j \<in> set (edges_at (node_from_edges_by_label d) l (Some i))"
  by (auto simp: dag_wf_def)

lemma wf_roots:
  "dag_wf d \<Longrightarrow> j \<in> set (root_nodes d) \<longleftrightarrow>
     j < length (dag_nodes d) \<and> (\<forall>l. edges_at (node_to_edges_by_label d) l (Some j) = [])"
  by (auto simp: dag_wf_def)

lemma entry_eq:
  "dag_wf d \<Longrightarrow> e \<in> set (dag_nodes d) \<Longrightarrow> e' \<in> set (dag_nodes d) \<Longrightarrow>
     node_object e = node_object e' \<longleftrightarrow> e = e'"
  by (auto simp: dag_wf_def dag_objs_def distinct_map dest: inj_onD)

subsection \<open>The queries read on the abstract graph\<close>

lemma set_nodes_at_edges:
  assumes wf: "dag_wf d"
    and range: "\<And>i j. j \<in> set (edges_at tab l (Some i)) \<Longrightarrow> j < length (dag_nodes d)"
  shows "e \<in> set (nodes_at d (edges_at tab l (find_ord d u))) \<longleftrightarrow>
      e \<in> set (dag_nodes d) \<and> (\<exists>i j. find_ord d u = Some i \<and>
        find_ord d (node_object e) = Some j \<and> j \<in> set (edges_at tab l (Some i)))"
    (is "?lhs \<longleftrightarrow> ?rhs")
proof
  assume ?lhs
  then obtain i j where ij: "find_ord d u = Some i"
    "j \<in> set (edges_at tab l (Some i))" "e = dag_nodes d ! j"
    by (cases "find_ord d u") (auto simp: nodes_at_def)
  from range [OF ij(2)] have "j < length (dag_nodes d)" .
  with wf_entry [OF wf this] ij show ?rhs by auto
next
  assume ?rhs
  then obtain i j where ij: "find_ord d u = Some i" "find_ord d (node_object e) = Some j"
    "j \<in> set (edges_at tab l (Some i))" and e: "e \<in> set (dag_nodes d)" by blast
  from e obtain k where k: "k < length (dag_nodes d)" "e = dag_nodes d ! k"
    by (auto simp: in_set_conv_nth)
  with wf_entry [OF wf k(1)] ij show ?lhs by (auto simp: nodes_at_def)
qed

lemma set_get_children_by_label:
  assumes "dag_wf d"
  shows "e \<in> set (get_children_by_label d (find_ord d u) l) \<longleftrightarrow>
           e \<in> set (dag_nodes d) \<and> has_edge d l u (node_object e)"
  unfolding get_children_by_label_def has_edge_def
  using set_nodes_at_edges [OF assms, of "node_from_edges_by_label d" l e u]
    wf_edge_range [OF assms] by blast

lemma set_get_parents_by_label:
  assumes "dag_wf d"
  shows "e \<in> set (get_parents_by_label d (find_ord d v) l) \<longleftrightarrow>
           e \<in> set (dag_nodes d) \<and> has_edge d l (node_object e) v"
  unfolding get_parents_by_label_def has_edge_def
  using set_nodes_at_edges [OF assms, of "node_to_edges_by_label d" l e v]
    wf_edge_range [OF assms] wf_mirror [OF assms] by blast

lemma set_get_children_label:
  "dag_wf d \<Longrightarrow> l \<noteq> '''' \<Longrightarrow> e \<in> set (get_children d u (Some l)) \<longleftrightarrow>
     e \<in> set (dag_nodes d) \<and> has_edge d l u (node_object e)"
  by (simp add: get_children_def set_get_children_by_label)

lemma set_get_parents_label:
  "dag_wf d \<Longrightarrow> l \<noteq> '''' \<Longrightarrow> e \<in> set (get_parents d v (Some l)) \<longleftrightarrow>
     e \<in> set (dag_nodes d) \<and> has_edge d l (node_object e) v"
  by (simp add: get_parents_def set_get_parents_by_label)

lemma set_get_children_all:
  assumes "dag_wf d"
  shows "e \<in> set (get_children d u None) \<longleftrightarrow>
           e \<in> set (dag_nodes d) \<and> (\<exists>l. has_edge d l u (node_object e))"
proof -
  have key: "has_edge d l u v \<Longrightarrow> l \<in> set (dict_keys (node_from_edges_by_label d))" for l v
    unfolding has_edge_def by (metis edges_at_key empty_iff empty_set)
  show ?thesis
    using key by (auto simp: get_children_def set_get_children_by_label [OF assms] image_iff)
qed

lemma set_get_parents_all:
  assumes "dag_wf d"
  shows "e \<in> set (get_parents d v None) \<longleftrightarrow>
           e \<in> set (dag_nodes d) \<and> (\<exists>l. has_edge d l (node_object e) v)"
proof -
  have key: "has_edge d l u v \<Longrightarrow> l \<in> set (dict_keys (node_to_edges_by_label d))" for l u
  proof (rule edges_at_key)
    assume "has_edge d l u v"
    then obtain i j where "find_ord d v = Some j"
      "j \<in> set (edges_at (node_from_edges_by_label d) l (Some i))"
      by (auto simp: has_edge_def)
    with wf_mirror [OF assms] show "edges_at (node_to_edges_by_label d) l (find_ord d v) \<noteq> []"
      by force
  qed
  show ?thesis
    using key by (auto simp: get_parents_def set_get_parents_by_label [OF assms] image_iff)
qed

lemma child_objects_iff: "dag_wf d \<Longrightarrow> v \<in> set (child_objects d u) \<longleftrightarrow> (\<exists>l. has_edge d l u v)"
proof -
  assume wf: "dag_wf d"
  have "v \<in> set (dag_objs d)" if "has_edge d l u v" for l
    using that wf_find_ord_None [OF wf, of v] by (auto simp: has_edge_def)
  then show ?thesis
    by (force simp: child_objects_def set_get_children_all [OF wf] dag_objs_def)
qed

lemma has_edge_objs:
  assumes "dag_wf d" and "has_edge d l u v"
  shows "u \<in> set (dag_objs d) \<and> v \<in> set (dag_objs d)"
  using assms wf_find_ord_None [OF assms(1), of u] wf_find_ord_None [OF assms(1), of v]
  by (auto simp: has_edge_def)

lemma child_objects_objs:
  "dag_wf d \<Longrightarrow> v \<in> set (child_objects d u) \<Longrightarrow> u \<in> set (dag_objs d) \<and> v \<in> set (dag_objs d)"
  by (auto simp: child_objects_iff dest: has_edge_objs)

lemma no_incoming_iff:
  assumes wf: "dag_wf d" and j: "j < length (dag_nodes d)"
  shows "(\<forall>l. edges_at (node_to_edges_by_label d) l (Some j) = []) \<longleftrightarrow>
      (\<forall>l u. \<not> has_edge d l u (node_object (dag_nodes d ! j)))"
proof
  assume none: "\<forall>l. edges_at (node_to_edges_by_label d) l (Some j) = []"
  show "\<forall>l u. \<not> has_edge d l u (node_object (dag_nodes d ! j))"
  proof (intro allI notI)
    fix l u assume "has_edge d l u (node_object (dag_nodes d ! j))"
    then obtain i where "j \<in> set (edges_at (node_from_edges_by_label d) l (Some i))"
      using wf_entry [OF wf j] by (auto simp: has_edge_def)
    with wf_mirror [OF wf, of i l j] none show False by simp
  qed
next
  assume none: "\<forall>l u. \<not> has_edge d l u (node_object (dag_nodes d ! j))"
  show "\<forall>l. edges_at (node_to_edges_by_label d) l (Some j) = []"
  proof (intro allI, rule ccontr)
    fix l assume "edges_at (node_to_edges_by_label d) l (Some j) \<noteq> []"
    then obtain i where i: "i \<in> set (edges_at (node_to_edges_by_label d) l (Some j))"
      by (meson last_in_set)
    then have e: "j \<in> set (edges_at (node_from_edges_by_label d) l (Some i))"
      by (simp add: wf_mirror [OF wf])
    from wf_edge_range [OF wf e] have "i < length (dag_nodes d)" by simp
    with wf_entry [OF wf this] wf_entry [OF wf j] e
    have "has_edge d l (node_object (dag_nodes d ! i)) (node_object (dag_nodes d ! j))"
      by (auto simp: has_edge_def)
    with none show False by blast
  qed
qed

lemma get_parents_Nil_iff:
  assumes wf: "dag_wf d"
  shows "get_parents d r None = [] \<longleftrightarrow> (\<forall>l u. \<not> has_edge d l u r)"
proof -
  have "get_parents d r None = [] \<longleftrightarrow> (\<forall>e. e \<notin> set (get_parents d r None))"
    by (cases "get_parents d r None") auto
  then show ?thesis
    using has_edge_objs [OF wf]
    by (auto simp: set_get_parents_all [OF wf] dag_objs_def) blast
qed

lemma root_objects_iff:
  assumes wf: "dag_wf d"
  shows "r \<in> set (root_objects d) \<longleftrightarrow> r \<in> set (dag_objs d) \<and> get_parents d r None = []"
proof -
  have "r \<in> set (root_objects d) \<longleftrightarrow>
      (\<exists>j < length (dag_nodes d). r = node_object (dag_nodes d ! j) \<and> get_parents d r None = [])"
  proof -
    have "r \<in> set (root_objects d) \<longleftrightarrow> (\<exists>j \<in> set (root_nodes d). r = node_object (dag_nodes d ! j))"
      by (auto simp: root_objects_def get_root_nodes_def nodes_at_def)
    then show ?thesis
      using no_incoming_iff [OF wf] unfolding Bex_def wf_roots [OF wf] get_parents_Nil_iff [OF wf]
      by blast
  qed
  moreover have "r \<in> set (dag_objs d) \<longleftrightarrow> (\<exists>j < length (dag_nodes d). r = node_object (dag_nodes d ! j))"
    by (force simp: dag_objs_def in_set_conv_nth)
  ultimately show ?thesis by blast
qed

definition parent_objects :: "('o, 'm) simple_dag \<Rightarrow> 'o \<Rightarrow> 'o list" where
  "parent_objects d obj = map node_object (get_parents d obj None)"

lemma parent_objects_iff: "dag_wf d \<Longrightarrow> u \<in> set (parent_objects d v) \<longleftrightarrow> (\<exists>l. has_edge d l u v)"
  using has_edge_objs [of d] by (force simp: parent_objects_def set_get_parents_all dag_objs_def)

subsection \<open>The interface of a rooted graph\<close>

text \<open>
  What the workflow code relies on: parents and children mirror each other, and the roots are the
  nodes without parents. From this alone, on a finite acyclic graph every node is reachable from
  a root.
\<close>

locale rooted_digraph =
  fixes wf :: "'d \<Rightarrow> bool"
    and nodes roots :: "'d \<Rightarrow> 'o list"
    and succs preds :: "'d \<Rightarrow> 'o \<Rightarrow> 'o list"
  assumes preds_iff: "wf d \<Longrightarrow> u \<in> set (preds d v) \<longleftrightarrow> v \<in> set (succs d u)"
    and succs_nodes: "wf d \<Longrightarrow> v \<in> set (succs d u) \<Longrightarrow> u \<in> set (nodes d) \<and> v \<in> set (nodes d)"
    and roots_iff: "wf d \<Longrightarrow> r \<in> set (roots d) \<longleftrightarrow> r \<in> set (nodes d) \<and> preds d r = []"
begin

lemma finite_edges: "wf d \<Longrightarrow> finite {(u, v). v \<in> set (succs d u)}"
  by (rule finite_subset [of _ "set (nodes d) \<times> set (nodes d)"]) (auto dest: succs_nodes)

lemma preds_nodes: "wf d \<Longrightarrow> u \<in> set (preds d v) \<Longrightarrow> u \<in> set (nodes d) \<and> v \<in> set (nodes d)"
  by (auto simp: preds_iff dest: succs_nodes)

lemma acyclic_wf: "wf d \<Longrightarrow> acyclic {(u, v). v \<in> set (succs d u)} \<Longrightarrow> Wellfounded.wf {(u, v). v \<in> set (succs d u)}"
  by (rule finite_acyclic_wf) (rule finite_edges)

lemma reachable_from_root:
  assumes d: "wf d" and "acyclic {(u, v). v \<in> set (succs d u)}" and "v \<in> set (nodes d)"
  shows "\<exists>r \<in> set (roots d). (r, v) \<in> {(u, v). v \<in> set (succs d u)}\<^sup>*"
  using assms(3)
proof (induction v rule: wf_induct_rule [OF acyclic_wf [OF assms(1,2)]])
  case (1 v)
  show ?case
  proof (cases "preds d v")
    case Nil
    with 1(2) d show ?thesis by (auto simp: roots_iff)
  next
    case (Cons u us)
    then have u: "v \<in> set (succs d u)" using preds_iff [OF d, of u v] by simp
    with succs_nodes [OF d u] 1(1) [of u] obtain r where
      "r \<in> set (roots d)" "(r, u) \<in> {(u, v). v \<in> set (succs d u)}\<^sup>*" by blast
    with u show ?thesis by (meson case_prodI mem_Collect_eq rtrancl.rtrancl_into_rtrancl)
  qed
qed

lemma root_exists:
  "wf d \<Longrightarrow> acyclic {(u, v). v \<in> set (succs d u)} \<Longrightarrow> nodes d \<noteq> [] \<Longrightarrow> roots d \<noteq> []"
  using reachable_from_root [of d "hd (nodes d)"] by auto

end

interpretation sdag: rooted_digraph dag_wf dag_objs root_objects child_objects parent_objects
proof unfold_locales
  fix d :: "('o, 'm) simple_dag" and u v
  assume d: "dag_wf d"
  show "u \<in> set (parent_objects d v) \<longleftrightarrow> v \<in> set (child_objects d u)"
    by (simp add: parent_objects_iff [OF d] child_objects_iff [OF d])
  show "v \<in> set (child_objects d u) \<Longrightarrow> u \<in> set (dag_objs d) \<and> v \<in> set (dag_objs d)"
    by (rule child_objects_objs [OF d])
  show "u \<in> set (root_objects d) \<longleftrightarrow> u \<in> set (dag_objs d) \<and> parent_objects d u = []"
    by (simp add: root_objects_iff [OF d] parent_objects_def)
qed

subsection \<open>Construction keeps the graph well-formed\<close>

lemma dag_wf_no_edge_beyond:
  "dag_wf d \<Longrightarrow> length (dag_nodes d) \<le> j \<Longrightarrow> edges_at (node_to_edges_by_label d) l (Some j) = []"
proof (rule ccontr)
  assume wf: "dag_wf d" and j: "length (dag_nodes d) \<le> j"
    and "edges_at (node_to_edges_by_label d) l (Some j) \<noteq> []"
  then obtain i where "i \<in> set (edges_at (node_to_edges_by_label d) l (Some j))"
    by (meson last_in_set)
  with wf_mirror [OF wf] wf_edge_range [OF wf] j show False by fastforce
qed

lemma find_ord_add_node:
  "find_ord (add_node obj md d) x =
     (if x = obj \<and> find_ord d obj = None then Some (length (dag_nodes d)) else find_ord d x)"
  by (auto simp: add_node_def find_ord_def Let_def dict_simps)

lemma add_node_dag_objs:
  "dag_objs (add_node obj md d) = (if find_ord d obj = None then dag_objs d @ [obj] else dag_objs d)"
  by (simp add: add_node_def dag_objs_def Let_def)

lemma dag_wf_add_node:
  assumes wf: "dag_wf d"
  shows "dag_wf (add_node obj md d)"
proof (cases "find_ord d obj")
  case None
  let ?d = "add_node obj md d" and ?n = "length (dag_nodes d)"
  have new: "obj \<notin> set (dag_objs d)" using None wf_find_ord_None [OF wf] by simp
  have nodes: "length (dag_nodes ?d) = Suc ?n" and tabs:
    "node_from_edges_by_label ?d = node_from_edges_by_label d"
    "node_to_edges_by_label ?d = node_to_edges_by_label d"
    using None by (simp_all add: add_node_def Let_def)
  have len: "length (dag_objs d) = ?n" by (simp add: dag_objs_def)
  have ord: "find_ord ?d x = Some i \<longleftrightarrow> i < Suc ?n \<and> dag_objs ?d ! i = x" for x i
    using new None wf_find_ord [OF wf, of x i] nth_mem [of i "dag_objs d"]
    by (auto simp: find_ord_add_node add_node_dag_objs nth_append len less_Suc_eq)
  have "?n \<notin> set (root_nodes d)" using wf_roots [OF wf] by simp
  then have roots: "root_nodes ?d = root_nodes d @ [?n]"
    using None by (simp add: add_node_def Let_def set_add_def)
  have set_roots: "set (root_nodes ?d) = {j. j < Suc ?n \<and>
      (\<forall>l. edges_at (node_to_edges_by_label d) l (Some j) = [])}"
    using wf_roots [OF wf] dag_wf_no_edge_beyond [OF wf, of ?n]
    by (auto simp: roots less_Suc_eq)
  have sorted: "sorted (root_nodes ?d) \<and> distinct (root_nodes ?d)"
    using wf by (auto simp: roots dag_wf_def sorted_append)
  have distinct: "distinct (dag_objs ?d)"
    using wf new None by (simp add: dag_wf_def add_node_dag_objs)
  have range: "i < Suc ?n \<and> j < Suc ?n"
    if "j \<in> set (edges_at (node_from_edges_by_label d) l (Some i))" for l i j
    using wf_edge_range [OF wf that] by simp
  show ?thesis
    unfolding dag_wf_def nodes tabs ord set_roots
    by (intro conjI allI impI distinct sorted [THEN conjunct1] sorted [THEN conjunct2]
        refl range [THEN conjunct1] range [THEN conjunct2] wf_mirror [OF wf, symmetric])
next
  case (Some i)
  with wf show ?thesis by (simp add: add_node_def)
qed

lemma add_edge_ok_iff:
  "fst (add_edge u v label d) = None \<longleftrightarrow> find_ord d u \<noteq> None \<and> find_ord d v \<noteq> None"
  by (auto simp: add_edge_def Let_def split: option.splits)

lemma add_edge_ok:
  assumes "find_ord d u = Some i" and "find_ord d v = Some j"
  shows "add_edge u v label d =
    (None, d\<lparr>root_nodes := set_discard j (root_nodes d),
             node_from_edges_by_label := push_edge label i j (node_from_edges_by_label d),
             node_to_edges_by_label := push_edge label j i (node_to_edges_by_label d)\<rparr>)"
  using assms by (simp add: add_edge_def)

lemma dag_wf_add_edge:
  assumes wf: "dag_wf d" and u: "find_ord d u = Some i" and v: "find_ord d v = Some j"
  shows "dag_wf (snd (add_edge u v label d))"
proof -
  have ij: "i < length (dag_nodes d)" "j < length (dag_nodes d)"
    using u v by (simp_all add: wf_find_ord [OF wf])
  have roots: "set (root_nodes d) - {j} = {j'. j' < length (dag_nodes d) \<and>
      (\<forall>l. edges_at (push_edge label j i (node_to_edges_by_label d)) l (Some j') = [])}"
    by (auto simp: edges_at_push_edge wf_roots [OF wf])
  show ?thesis
    using wf wf_edge_range [OF wf] wf_mirror [OF wf] ij
    by (auto simp: add_edge_ok [OF u v] dag_wf_def dag_objs_def find_ord_def edges_at_push_edge
        roots sorted_set_discard)
qed

lemma has_edge_add_edge:
  assumes "dag_wf d" and "find_ord d u = Some i" and "find_ord d v = Some j"
  shows "has_edge (snd (add_edge u v label d)) l x y \<longleftrightarrow>
           has_edge d l x y \<or> (l, x, y) = (label, u, v)"
proof -
  have inj: "find_ord d x = Some k \<Longrightarrow> find_ord d y = Some k \<Longrightarrow> x = y" for x y k
    using wf_find_ord [OF assms(1)] by auto
  have "has_edge (snd (add_edge u v label d)) l x y \<longleftrightarrow>
      has_edge d l x y \<or> (l = label \<and> find_ord d x = Some i \<and> find_ord d y = Some j)"
    by (auto simp: add_edge_ok [OF assms(2,3)] has_edge_def find_ord_def edges_at_push_edge
        split: if_splits)
  then show ?thesis using inj assms(2,3) by auto
qed

text \<open>
  The error branches: the exception leaves the edges as they were, but the target, when it is
  in the graph, has stopped being a root.
\<close>

lemma add_edge_error:
  assumes "find_ord d u = None" and "find_ord d v = Some j"
  shows "add_edge u v label d =
           (Some (FromNotFound u), d\<lparr>root_nodes := set_discard j (root_nodes d)\<rparr>)"
  using assms by (simp add: add_edge_def)

subsection \<open>Cycle detection: the loop ends and decides\<close>

text \<open>
  The invariant of the loop. Every path object has an occurrence in the stack below which nothing
  of it is pending: the objects above that occurrence are reachable from it, and its children
  are visited or above it.
\<close>

definition path_marked :: "('o \<times> 'o) set \<Rightarrow> 'o list \<Rightarrow> 'o set \<Rightarrow> 'o \<Rightarrow> bool" where
  "path_marked E stack visited p \<longleftrightarrow>
     (\<exists>a b. stack = a @ p # b \<and> (\<forall>y \<in> set a. (p, y) \<in> E\<^sup>+) \<and> E `` {p} \<subseteq> visited \<union> set a)"

definition has_cycle_inv :: "('o \<times> 'o) set \<Rightarrow> 'o set \<Rightarrow> 'o list \<Rightarrow> 'o cycle_state \<Rightarrow> bool" where
  "has_cycle_inv E U roots s \<longleftrightarrow> (case s of (stack, visited, path, res) \<Rightarrow>
     set stack \<subseteq> {x. \<exists>r \<in> set roots. (r, x) \<in> E\<^sup>*} \<inter> U \<and> path \<subseteq> U \<and> visited \<subseteq> U \<and>
     visited \<inter> path = {} \<and> E `` visited \<subseteq> visited \<and> (\<forall>x \<in> visited. (x, x) \<notin> E\<^sup>+) \<and>
     (if res then \<exists>r \<in> set roots. \<exists>x. (r, x) \<in> E\<^sup>* \<and> (x, x) \<in> E\<^sup>+
      else set roots \<subseteq> visited \<union> set stack \<and> (\<forall>p \<in> path. path_marked E stack visited p)))"

lemma closed_trancl: "E `` V \<subseteq> V \<Longrightarrow> x \<in> V \<Longrightarrow> (x, y) \<in> E\<^sup>+ \<Longrightarrow> y \<in> V"
  by (rotate_tac 2, induction y rule: trancl_induct) auto

lemma path_marked_push:
  assumes "path_marked E (x # s) V p" and "p \<noteq> x" and "set cs \<subseteq> E `` {x}"
  shows "path_marked E (cs @ x # s) V p"
proof -
  from assms(1) obtain a b where ab: "x # s = a @ p # b"
    "\<forall>y \<in> set a. (p, y) \<in> E\<^sup>+" "E `` {p} \<subseteq> V \<union> set a" by (auto simp: path_marked_def)
  with assms(2) obtain a' where a: "a = x # a'" by (cases a) auto
  with ab(2) have "(p, x) \<in> E\<^sup>+" by simp
  with assms(3) have "\<forall>y \<in> set cs. (p, y) \<in> E\<^sup>+" by (auto intro: trancl_into_trancl)
  with ab show ?thesis unfolding path_marked_def
    by (intro exI [of _ "cs @ a"] exI [of _ b]) auto
qed

lemma path_marked_done:
  assumes "path_marked E (x # s) V p" and "p \<noteq> x"
  shows "path_marked E s (insert x V) p"
proof -
  from assms(1) obtain a b where ab: "x # s = a @ p # b"
    "\<forall>y \<in> set a. (p, y) \<in> E\<^sup>+" "E `` {p} \<subseteq> V \<union> set a" by (auto simp: path_marked_def)
  with assms(2) obtain a' where "a = x # a'" by (cases a) auto
  with ab show ?thesis unfolding path_marked_def
    by (intro exI [of _ a'] exI [of _ b]) auto
qed

lemma path_marked_cycle:
  assumes "path_marked E (x # s) V x" and "\<not> E `` {x} \<subseteq> V"
  shows "(x, x) \<in> E\<^sup>+"
proof -
  from assms(1) obtain a b where ab: "x # s = a @ x # b"
    "\<forall>y \<in> set a. (x, y) \<in> E\<^sup>+" "E `` {x} \<subseteq> V \<union> set a" by (auto simp: path_marked_def)
  with assms(2) have "a \<noteq> []" by auto
  with ab(1) have "x \<in> set a" by (cases a) auto
  with ab(2) show ?thesis by blast
qed

lemma visited_acyclic:
  assumes "E `` V \<subseteq> V" and "\<forall>x \<in> V. (x, x) \<notin> E\<^sup>+" and "E `` {y} \<subseteq> V"
  shows "(y, y) \<notin> E\<^sup>+"
proof
  assume "(y, y) \<in> E\<^sup>+"
  then obtain z where z: "(y, z) \<in> E" "(z, y) \<in> E\<^sup>*" by (meson tranclD)
  with assms(3) have "z \<in> V" by auto
  with z(2) closed_trancl [OF assms(1)] have "y \<in> V" by (auto simp: rtrancl_eq_or_trancl)
  with assms(2) \<open>(y, y) \<in> E\<^sup>+\<close> show False by blast
qed

lemma child_objects_succ: "set (child_objects d x) = succ_rel d `` {x}"
  by (auto simp: succ_rel_def)

text \<open>One turn of the loop keeps the invariant.\<close>

lemma has_cycle_step_inv:
  assumes wf: "dag_wf d"
    and inv: "has_cycle_inv (succ_rel d) (set (dag_objs d)) roots s" and run: "has_cycle_running s"
  shows "has_cycle_inv (succ_rel d) (set (dag_objs d)) roots (has_cycle_step d s)"
proof -
  let ?E = "succ_rel d" and ?U = "set (dag_objs d)"
  obtain x st V P where s: "s = (x # st, V, P, False)"
    using run by (cases s; cases "fst s") (auto simp: has_cycle_running_def)
  define cs where "cs = filter (\<lambda>c. c \<notin> V) (child_objects d x)"
  have EU: "?E `` {x} \<subseteq> ?U" using child_objects_objs [OF wf] by (auto simp: succ_rel_def)
  have cs: "set cs = ?E `` {x} - V" by (auto simp: cs_def succ_rel_def)
  have I: "set (x # st) \<subseteq> {y. \<exists>r \<in> set roots. (r, y) \<in> ?E\<^sup>*} \<inter> ?U" "P \<subseteq> ?U" "V \<subseteq> ?U"
    "V \<inter> P = {}" "?E `` V \<subseteq> V" "\<forall>y \<in> V. (y, y) \<notin> ?E\<^sup>+"
    "set roots \<subseteq> V \<union> set (x # st)" "\<forall>p \<in> P. path_marked ?E (x # st) V p"
    using inv by (simp_all add: s has_cycle_inv_def)
  have cs_reach: "y \<in> set cs \<Longrightarrow> \<exists>r \<in> set roots. (r, y) \<in> ?E\<^sup>*" for y
    using I(1) cs by (auto intro: rtrancl.rtrancl_into_rtrancl)
  consider (cycle) "cs \<noteq> []" "x \<in> P" | (push) "cs \<noteq> []" "x \<notin> P" | (finish) "cs = []" by blast
  then show ?thesis
  proof cases
    case cycle
    then have "\<not> ?E `` {x} \<subseteq> V" using cs by (metis Diff_eq_empty_iff set_empty)
    with I(8) cycle(2) have "(x, x) \<in> ?E\<^sup>+" by (blast intro: path_marked_cycle)
    with I cycle show ?thesis by (auto simp: s has_cycle_inv_def Let_def cs_def [symmetric])
  next
    case push
    have "x \<notin> V"
    proof
      assume "x \<in> V"
      then have "?E `` {x} \<subseteq> V" using I(5) by auto
      with cs push(1) show False by (metis Diff_eq_empty_iff set_empty)
    qed
    moreover have "path_marked ?E (rev cs @ x # st) V x"
      unfolding path_marked_def
      by (rule exI [of _ "rev cs"], rule exI [of _ st]) (auto simp: cs)
    moreover have "\<forall>p \<in> P. path_marked ?E (rev cs @ x # st) V p"
      using I(8) push(2) cs by (auto intro!: path_marked_push)
    ultimately show ?thesis
      using I push cs_reach cs EU
      by (auto simp: s has_cycle_inv_def Let_def cs_def [symmetric])
  next
    case finish
    with cs have "?E `` {x} \<subseteq> V" by auto
    moreover from this have "(x, x) \<notin> ?E\<^sup>+" by (rule visited_acyclic [OF I(5,6)])
    moreover have "\<forall>p \<in> P - {x}. path_marked ?E st (insert x V) p"
      using I(8) by (auto intro: path_marked_done)
    ultimately show ?thesis
      using I finish by (auto simp: s has_cycle_inv_def Let_def cs_def [symmetric])
  qed
qed

lemma has_cycle_init_inv:
  "dag_wf d \<Longrightarrow> has_cycle_inv (succ_rel d) (set (dag_objs d)) (root_objects d)
     (rev (root_objects d), {}, {}, False)"
  by (auto simp: has_cycle_inv_def root_objects_iff)

definition has_cycle_measure :: "'o set \<Rightarrow> ('o cycle_state \<times> 'o cycle_state) set" where
  "has_cycle_measure U =
     measures [\<lambda>(stack, V, P, res). card (U - V), \<lambda>(stack, V, P, res). card (U - P),
               \<lambda>(stack, V, P, res). length stack]"

lemma has_cycle_step_decreases:
  assumes inv: "has_cycle_inv E U roots s" and U: "finite U" and run: "has_cycle_running s"
  shows "(has_cycle_step d s, s) \<in> has_cycle_measure U"
proof -
  obtain x st V P where s: "s = (x # st, V, P, False)"
    using run by (cases s; cases "fst s") (auto simp: has_cycle_running_def)
  have x: "x \<in> U" and VP: "V \<inter> P = {}" using inv by (auto simp: s has_cycle_inv_def)
  have shrink: "card (U - insert x W) < card (U - W)" if "x \<notin> W" for W
    using that x U by (intro psubset_card_mono) auto
  define cs where "cs = filter (\<lambda>c. c \<notin> V) (child_objects d x)"
  consider (cycle) "cs \<noteq> []" "x \<in> P" | (push) "cs \<noteq> []" "x \<notin> P"
    | (new) "cs = []" "x \<notin> V" | (again) "cs = []" "x \<in> V" by blast
  then show ?thesis
  proof cases
    case again
    with VP have "P - {x} = P" by auto
    with again show ?thesis
      by (simp add: s has_cycle_measure_def Let_def cs_def [symmetric] insert_absorb)
  qed (simp_all add: s has_cycle_measure_def Let_def cs_def [symmetric] shrink)
qed

lemma has_cycle_returns:
  assumes wf: "dag_wf d"
  shows "\<exists>t. while_option has_cycle_running (has_cycle_step d)
           (rev (root_objects d), {}, {}, False) = Some t"
proof -
  let ?I = "has_cycle_inv (succ_rel d) (set (dag_objs d)) (root_objects d)"
  have "wf {(t, s). (?I s \<and> has_cycle_running s) \<and> t = has_cycle_step d s}"
  proof (rule wf_subset)
    show "wf (has_cycle_measure (set (dag_objs d)))" unfolding has_cycle_measure_def by simp
    show "{(t, s). (?I s \<and> has_cycle_running s) \<and> t = has_cycle_step d s}
        \<subseteq> has_cycle_measure (set (dag_objs d))"
      using has_cycle_step_decreases [where U = "set (dag_objs d)" and d = d] by blast
  qed
  then show ?thesis
    by (rule wf_while_option_Some) (auto intro: has_cycle_step_inv [OF wf] has_cycle_init_inv [OF wf])
qed

lemma has_cycle_loop_result:
  assumes wf: "dag_wf d"
    and t: "while_option has_cycle_running (has_cycle_step d)
              (rev (root_objects d), {}, {}, False) = Some (stack, V, P, res)"
  shows "res \<longleftrightarrow> (\<exists>r \<in> set (root_objects d). \<exists>x. (r, x) \<in> (succ_rel d)\<^sup>* \<and> (x, x) \<in> (succ_rel d)\<^sup>+)"
proof -
  let ?E = "succ_rel d"
  have I: "has_cycle_inv ?E (set (dag_objs d)) (root_objects d) (stack, V, P, res)"
    using has_cycle_step_inv [OF wf] t has_cycle_init_inv [OF wf] by (rule while_option_rule)
  show ?thesis
  proof (cases res)
    case True
    with I show ?thesis by (simp add: has_cycle_inv_def)
  next
    case False
    with while_option_stop [OF t] have "stack = []" by (simp add: has_cycle_running_def)
    with I False have roots: "set (root_objects d) \<subseteq> V" and closed: "?E `` V \<subseteq> V"
      and acyc: "\<forall>x \<in> V. (x, x) \<notin> ?E\<^sup>+" by (auto simp: has_cycle_inv_def)
    have "x \<in> V" if "r \<in> set (root_objects d)" "(r, x) \<in> ?E\<^sup>*" for r x
      using that(2) roots that(1) closed_trancl [OF closed] by (auto simp: rtrancl_eq_or_trancl)
    with acyc False show ?thesis by blast
  qed
qed

subsection \<open>Topological order: it returns and orders\<close>

text \<open>Every edge leads to a later element, and no element occurs twice.\<close>

fun topo_sorted :: "('o \<times> 'o) set \<Rightarrow> 'o list \<Rightarrow> bool" where
  "topo_sorted E [] \<longleftrightarrow> True"
| "topo_sorted E (x # xs) \<longleftrightarrow> x \<notin> set xs \<and> E `` {x} \<subseteq> set xs \<and> topo_sorted E xs"

lemma topo_sorted_distinct: "topo_sorted E xs \<Longrightarrow> distinct xs"
  by (induction xs) auto

lemma topo_sorted_append: "topo_sorted E (xs @ ys) \<Longrightarrow> topo_sorted E ys"
  by (induction xs) auto

lemma topo_sorted_later:
  assumes "topo_sorted E xs" and "i < length xs" and "(xs ! i, y) \<in> E"
  shows "\<exists>j. i < j \<and> j < length xs \<and> xs ! j = y"
proof -
  have split: "xs = take i xs @ xs ! i # drop (Suc i) xs"
    using assms(2) by (rule id_take_nth_drop)
  then have "topo_sorted E (xs ! i # drop (Suc i) xs)"
    using assms(1) topo_sorted_append by metis
  with assms(3) have "y \<in> set (drop (Suc i) xs)" by auto
  then obtain k where "k < length xs - Suc i" "y = xs ! (Suc i + k)"
    by (auto simp: in_set_conv_nth)
  then show ?thesis by (intro exI [of _ "Suc i + k"]) simp
qed

definition topo_inv :: "('o, 'm) simple_dag \<Rightarrow> ('o, 'm) topo_state \<Rightarrow> bool" where
  "topo_inv d s \<longleftrightarrow> fst s = node_object ` set (snd s) \<and> set (snd s) \<subseteq> set (dag_nodes d) \<and>
     topo_sorted (succ_rel d) (map node_object (snd s))"

definition topo_grown ::
  "('o, 'm) simple_dag \<Rightarrow> 'o \<Rightarrow> ('o, 'm) topo_state \<Rightarrow> ('o, 'm) topo_state \<Rightarrow> bool" where
  "topo_grown d obj s t \<longleftrightarrow> set (snd s) \<subseteq> set (snd t) \<and>
     node_object ` (set (snd t) - set (snd s)) \<subseteq> (succ_rel d)\<^sup>* `` {obj}"

lemma finite_succ: "dag_wf d \<Longrightarrow> finite (succ_rel d)"
  using sdag.finite_edges by (simp add: succ_rel_def)

lemma descendants_decrease:
  assumes "finite E" and "acyclic E" and "(u, c) \<in> E"
  shows "card (E\<^sup>+ `` {c}) < card (E\<^sup>+ `` {u})"
proof (rule psubset_card_mono)
  have "finite (E\<^sup>+)" using assms(1) by (simp add: finite_trancl)
  then show "finite (E\<^sup>+ `` {u})" by (rule finite_Image)
  have "E\<^sup>+ `` {c} \<subseteq> E\<^sup>+ `` {u}" using assms(3) by (auto intro: trancl_trans)
  moreover have "c \<in> E\<^sup>+ `` {u}" "c \<notin> E\<^sup>+ `` {c}" using assms(2,3) by (auto simp: acyclic_def)
  ultimately show "E\<^sup>+ `` {c} \<subset> E\<^sup>+ `` {u}" by blast
qed

lemma processed_entry:
  assumes "dag_wf d" and "topo_inv d s" and "node \<in> set (dag_nodes d)"
  shows "node_object node \<in> fst s \<longleftrightarrow> node \<in> set (snd s)"
  using assms by (auto simp: topo_inv_def image_iff dest: entry_eq)

definition topo_below ::
  "('o, 'm) simple_dag \<Rightarrow> 'o \<Rightarrow> ('o, 'm) topo_state \<Rightarrow> ('o, 'm) topo_state \<Rightarrow> bool" where
  "topo_below d obj s t \<longleftrightarrow> set (snd s) \<subseteq> set (snd t) \<and>
     node_object ` (set (snd t) - set (snd s)) \<subseteq> (succ_rel d)\<^sup>+ `` {obj}"

lemma topo_below_refl: "topo_below d obj s s"
  by (simp add: topo_below_def)

lemma topo_below_step:
  assumes "(obj, c) \<in> succ_rel d" and "topo_below d obj s t" and "topo_grown d c t t'"
  shows "topo_below d obj s t'"
proof -
  have sub: "(succ_rel d)\<^sup>* `` {c} \<subseteq> (succ_rel d)\<^sup>+ `` {obj}"
    using assms(1) by (auto intro: rtrancl_into_trancl2)
  have "set (snd t') - set (snd s) \<subseteq> (set (snd t') - set (snd t)) \<union> (set (snd t) - set (snd s))"
    by blast
  with sub assms(2,3) show ?thesis
    unfolding topo_below_def topo_grown_def by blast
qed

text \<open>The node is pushed after its children, on top of everything below it.\<close>

lemma topo_push:
  assumes acyc: "acyclic (succ_rel d)" and t: "topo_inv d (processed, out)"
    and node: "node \<in> set (dag_nodes d)" and below: "topo_below d (node_object node) s (processed, out)"
    and new: "node_object node \<notin> node_object ` set (snd s)"
    and children: "set (get_children d (node_object node) None) \<subseteq> set out"
  shows "topo_inv d (insert (node_object node) processed, node # out) \<and>
     topo_grown d (node_object node) s (insert (node_object node) processed, node # out)"
proof -
  have "node_object node \<notin> node_object ` (set out - set (snd s))"
    using below acyc by (auto simp: topo_below_def acyclic_def)
  with new have "node_object node \<notin> node_object ` set out" by blast
  moreover have "succ_rel d `` {node_object node} \<subseteq> node_object ` set out"
    using children by (auto simp: succ_rel_def child_objects_def)
  moreover have "(succ_rel d)\<^sup>+ `` {node_object node} \<subseteq> (succ_rel d)\<^sup>* `` {node_object node}"
    by (auto intro: trancl_into_rtrancl)
  ultimately show ?thesis
    using t node below by (auto simp: topo_inv_def topo_grown_def topo_below_def)
qed

lemma visit_returns:
  assumes wf: "dag_wf d" and acyc: "acyclic (succ_rel d)"
  shows "card ((succ_rel d)\<^sup>+ `` {node_object node}) < limit \<Longrightarrow> node \<in> set (dag_nodes d) \<Longrightarrow>
     topo_inv d s \<Longrightarrow> \<exists>t. visit limit d node s = Some t \<and> topo_inv d t \<and>
       topo_grown d (node_object node) s t \<and> node \<in> set (snd t)"
proof (induction limit arbitrary: node s)
  case 0
  then show ?case by simp
next
  case (Suc limit)
  let ?obj = "node_object node"
  obtain processed out where s: "s = (processed, out)" by fastforce
  show ?case
  proof (cases "?obj \<in> processed")
    case True
    with processed_entry [OF wf Suc.prems(3,2)] s Suc.prems show ?thesis
      by (auto simp: topo_grown_def)
  next
    case False
    let ?I = "\<lambda>t. topo_inv d t \<and> topo_below d ?obj s t"
    have child: "\<exists>t'. visit limit d c t = Some t' \<and> ?I t' \<and> c \<in> set (snd t') \<and>
        (\<forall>y. y \<in> set (snd t) \<longrightarrow> y \<in> set (snd t'))"
      if c: "c \<in> set (get_children d ?obj None)" and t: "?I t" for c t
    proof -
      have e: "(?obj, node_object c) \<in> succ_rel d" and cn: "c \<in> set (dag_nodes d)"
        using c set_get_children_all [OF wf] by (auto simp: succ_rel_def child_objects_def)
      have lt: "card ((succ_rel d)\<^sup>+ `` {node_object c}) < limit"
        using descendants_decrease [OF finite_succ [OF wf] acyc e] Suc.prems(1) by linarith
      obtain t' where t': "visit limit d c t = Some t'"
        "topo_inv d t'" "topo_grown d (node_object c) t t'" "c \<in> set (snd t')"
        using Suc.IH [OF lt cn conjunct1 [OF t]] by blast
      with topo_below_step [OF e conjunct2 [OF t] t'(3)] show ?thesis
        unfolding topo_grown_def by blast
    qed
    have "?I s" using Suc.prems(3) by (simp add: topo_below_refl)
    from fold_opt_all [of ?I s "get_children d ?obj None" "visit limit d"
        "\<lambda>c t. c \<in> set (snd t)", OF this child] obtain processed' out' where
      t: "fold_opt (visit limit d) (get_children d ?obj None) s = Some (processed', out')"
      "?I (processed', out')" "set (get_children d ?obj None) \<subseteq> set out'" by auto
    have "?obj \<notin> node_object ` set (snd s)"
      using False Suc.prems(3) s by (simp add: topo_inv_def)
    from topo_push [OF acyc conjunct1 [OF t(2)] Suc.prems(2) conjunct2 [OF t(2)] this t(3)]
    show ?thesis using t(1) False s by (simp add: Let_def)
  qed
qed

lemma descendants_bound:
  assumes wf: "dag_wf d" and acyc: "acyclic (succ_rel d)" and u: "u \<in> set (dag_objs d)"
  shows "card ((succ_rel d)\<^sup>+ `` {u}) < length (dag_nodes d)"
proof -
  have "(succ_rel d)\<^sup>+ `` {u} \<subset> set (dag_objs d)"
  proof
    have "succ_rel d \<subseteq> set (dag_objs d) \<times> set (dag_objs d)"
      using child_objects_objs [OF wf] by (auto simp: succ_rel_def)
    then show "(succ_rel d)\<^sup>+ `` {u} \<subseteq> set (dag_objs d)"
      by (blast dest: trancl_subset_Sigma [THEN subsetD])
    show "(succ_rel d)\<^sup>+ `` {u} \<noteq> set (dag_objs d)" using acyc u by (auto simp: acyclic_def)
  qed
  then have "card ((succ_rel d)\<^sup>+ `` {u}) < card (set (dag_objs d))"
    by (rule psubset_card_mono [rotated]) simp
  also have "\<dots> \<le> length (dag_nodes d)" using card_length [of "dag_objs d"] by (simp add: dag_objs_def)
  finally show ?thesis .
qed

lemma sort_nodes_topological_returns:
  assumes wf: "dag_wf d" and acyc: "acyclic (succ_rel d)" and limit: "length (dag_nodes d) \<le> limit"
  shows "\<exists>ns. sort_nodes_topological limit d = Some ns \<and> set ns = set (dag_nodes d) \<and>
           topo_sorted (succ_rel d) (map node_object ns)"
proof -
  let ?f = "\<lambda>node s. if node_object node \<in> fst s then Some s else visit limit d node s"
  have step: "\<exists>t. ?f node s = Some t \<and> topo_inv d t \<and> node \<in> set (snd t) \<and>
      (\<forall>y. y \<in> set (snd s) \<longrightarrow> y \<in> set (snd t))"
    if n: "node \<in> set (dag_nodes d)" and s: "topo_inv d s" for node s
  proof (cases "node_object node \<in> fst s")
    case True
    with s processed_entry [OF wf s n] show ?thesis by simp
  next
    case False
    have "card ((succ_rel d)\<^sup>+ `` {node_object node}) < limit"
      using descendants_bound [OF wf acyc, of "node_object node"] n limit by (simp add: dag_objs_def)
    from visit_returns [OF wf acyc this n s] False show ?thesis by (auto simp: topo_grown_def)
  qed
  have "topo_inv d ({}, [])" by (simp add: topo_inv_def)
  from fold_opt_all [of "topo_inv d" "({}, [])" "dag_nodes d" ?f
      "\<lambda>node t. node \<in> set (snd t)", OF this step] obtain t where
    "fold_opt ?f (dag_nodes d) ({}, []) = Some t" "topo_inv d t" "set (dag_nodes d) \<subseteq> set (snd t)"
    by blast
  then show ?thesis by (auto simp: sort_nodes_topological_def topo_inv_def)
qed

subsection \<open>Properties\<close>

text \<open>
  C33: On a well-formed graph the depth-first search of \<open>has_cycle\<close> always ends, and it answers
  true exactly when the graph has nodes but no root, or a cycle is reachable from a root.
\<close>

theorem has_cycle_decides:
  assumes "dag_wf d"
  shows "\<exists>b. has_cycle d = Some b \<and>
    (b \<longleftrightarrow> dag_nodes d \<noteq> [] \<and> root_objects d = [] \<or>
       (\<exists>r \<in> set (root_objects d). \<exists>x. (r, x) \<in> (succ_rel d)\<^sup>* \<and> (x, x) \<in> (succ_rel d)\<^sup>+))"
proof (cases "dag_nodes d \<noteq> [] \<and> root_objects d = []")
  case True
  then show ?thesis by (intro exI [of _ True]) (simp add: has_cycle_def)
next
  case False
  obtain stack V P res where t: "while_option has_cycle_running (has_cycle_step d)
      (rev (root_objects d), {}, {}, False) = Some (stack, V, P, res)"
    using has_cycle_returns [OF assms] by auto
  from has_cycle_loop_result [OF assms t] False t show ?thesis by (auto simp: has_cycle_def)
qed

text \<open>
  C34: On a well-formed acyclic graph, with a recursion limit of at least the number of nodes,
  \<open>sort_nodes_topological\<close> returns every node exactly once, and every edge leads from a node to a
  later one.
\<close>

theorem sort_nodes_topological_correct:
  assumes "dag_wf d" and "acyclic (succ_rel d)" and "length (dag_nodes d) \<le> limit"
  shows "\<exists>ns. sort_nodes_topological limit d = Some ns \<and> distinct ns \<and> set ns = set (dag_nodes d) \<and>
    (\<forall>i < length ns. \<forall>v. (node_object (ns ! i), v) \<in> succ_rel d \<longrightarrow>
       (\<exists>j. i < j \<and> j < length ns \<and> node_object (ns ! j) = v))"
proof -
  obtain ns where ns: "sort_nodes_topological limit d = Some ns" "set ns = set (dag_nodes d)"
    "topo_sorted (succ_rel d) (map node_object ns)"
    using sort_nodes_topological_returns [OF assms] by blast
  have "distinct ns" using topo_sorted_distinct [OF ns(3)] by (simp add: distinct_map)
  moreover have "\<exists>j. i < j \<and> j < length ns \<and> node_object (ns ! j) = v"
    if "i < length ns" "(node_object (ns ! i), v) \<in> succ_rel d" for i v
    using topo_sorted_later [OF ns(3), of i v] that by auto
  ultimately show ?thesis using ns by blast
qed

text \<open>A graph of three nodes: one stands alone, the other two point at each other.\<close>

definition detached_cycle :: "(int, unit) simple_dag" where
  "detached_cycle =
     snd (add_edge 3 2 ''success_nodes'' (snd (add_edge 2 3 ''success_nodes''
       (add_node 3 None (add_node 2 None (add_node 1 None empty_dag))))))"

definition chain3 :: "(int, unit) simple_dag" where
  "chain3 =
     snd (add_edge 1 3 ''failure_nodes'' (snd (add_edge 1 2 ''success_nodes''
       (add_node 3 None (add_node 2 None (add_node 1 None empty_dag))))))"

lemmas dag_eval = add_node_def add_edge_def empty_dag_def find_ord_def push_edge_def
  dict_get_default_def set_add_def set_discard_def Let_def

lemma detached_cycle_eq:
  "detached_cycle = \<lparr>dag_nodes = [\<lparr>node_object = 1, metadata = None\<rparr>,
      \<lparr>node_object = 2, metadata = None\<rparr>, \<lparr>node_object = 3, metadata = None\<rparr>],
     root_nodes = [0], node_obj_to_node_index = [(1, 0), (2, 1), (3, 2)],
     node_from_edges_by_label = [(''success_nodes'', [(1, [2]), (2, [1])])],
     node_to_edges_by_label = [(''success_nodes'', [(2, [1]), (1, [2])])]\<rparr>"
  by (simp add: detached_cycle_def dag_eval)

lemma detached_cycle_children:
  "get_children detached_cycle 1 None = []"
  "get_children detached_cycle 2 None = [\<lparr>node_object = 3, metadata = None\<rparr>]"
  "get_children detached_cycle 3 None = [\<lparr>node_object = 2, metadata = None\<rparr>]"
  by (simp_all add: detached_cycle_eq get_children_def get_children_by_label_def edges_at_def
      nodes_at_def find_ord_def dict_get_default_def)

lemma detached_cycle_wf: "dag_wf detached_cycle"
  unfolding detached_cycle_def
  by (rule dag_wf_add_edge [where i = 2 and j = 1] dag_wf_add_edge [where i = 1 and j = 2]
      dag_wf_add_node dag_wf_empty)+ (simp_all add: dag_eval)

lemma visit_detached_cycle:
  "2 \<notin> P \<Longrightarrow> 3 \<notin> P \<Longrightarrow>
     visit limit detached_cycle \<lparr>node_object = 2, metadata = None\<rparr> (P, ns) = None \<and>
     visit limit detached_cycle \<lparr>node_object = 3, metadata = None\<rparr> (P, ns) = None"
  by (induction limit) (simp_all add: detached_cycle_children)

text \<open>
  A cycle that no root reaches is missed: on the well-formed graph \<open>detached_cycle\<close> the
  search answers false although nodes 2 and 3 form a cycle, and then the topological sort that
  the workflow manager runs on such a graph exceeds every recursion limit.
\<close>

theorem has_cycle_misses_detached_cycle:
  "dag_wf detached_cycle \<and> (2, 2) \<in> (succ_rel detached_cycle)\<^sup>+ \<and>
     has_cycle detached_cycle = Some False \<and> sort_nodes_topological limit detached_cycle = None"
proof -
  have "(2, 3) \<in> succ_rel detached_cycle" "(3, 2) \<in> succ_rel detached_cycle"
    by (simp_all add: succ_rel_def child_objects_def detached_cycle_children)
  then have "(2, 2) \<in> (succ_rel detached_cycle)\<^sup>+" by (meson r_into_trancl trancl_trans)
  moreover have "root_objects detached_cycle = [1]"
    by (simp add: root_objects_def get_root_nodes_def nodes_at_def detached_cycle_eq)
  then have "has_cycle detached_cycle = Some False"
    by (simp add: has_cycle_def while_option_unfold has_cycle_running_def child_objects_def
        detached_cycle_children)
  moreover have "dag_nodes detached_cycle = [\<lparr>node_object = 1, metadata = None\<rparr>,
      \<lparr>node_object = 2, metadata = None\<rparr>, \<lparr>node_object = 3, metadata = None\<rparr>]"
    by (simp add: detached_cycle_eq)
  then have "sort_nodes_topological limit detached_cycle = None"
    using visit_detached_cycle by (cases limit)
      (simp_all add: sort_nodes_topological_def detached_cycle_children)
  ultimately show ?thesis using detached_cycle_wf by blast
qed

subsection \<open>Witnesses\<close>

lemma chain3_eq:
  "chain3 = \<lparr>dag_nodes = [\<lparr>node_object = 1, metadata = None\<rparr>,
      \<lparr>node_object = 2, metadata = None\<rparr>, \<lparr>node_object = 3, metadata = None\<rparr>],
     root_nodes = [0], node_obj_to_node_index = [(1, 0), (2, 1), (3, 2)],
     node_from_edges_by_label = [(''success_nodes'', [(0, [1])]), (''failure_nodes'', [(0, [2])])],
     node_to_edges_by_label = [(''success_nodes'', [(1, [0])]), (''failure_nodes'', [(2, [0])])]\<rparr>"
  by (simp add: chain3_def dag_eval)

lemma chain3_wf: "dag_wf chain3"
  unfolding chain3_def
  by (rule dag_wf_add_edge [where i = 0 and j = 2] dag_wf_add_edge [where i = 0 and j = 1]
      dag_wf_add_node dag_wf_empty)+ (simp_all add: dag_eval)

lemma chain3_children:
  "child_objects chain3 u = (if u = 1 then [2, 3] else [])"
  by (simp add: chain3_eq child_objects_def get_children_def get_children_by_label_def edges_at_def
      nodes_at_def find_ord_def dict_get_default_def)

lemma chain3_acyclic: "acyclic (succ_rel chain3)"
proof -
  have "succ_rel chain3 = {(1, 2), (1, 3)}" by (auto simp: succ_rel_def chain3_children)
  moreover have "acyclic ({} :: (int \<times> int) set)" by (rule wf_acyclic) simp
  ultimately show ?thesis by (simp add: acyclic_insert rtrancl_insert)
qed

theorem has_cycle_decides_witness:
  "has_cycle chain3 = Some False \<and> (\<exists>b. has_cycle chain3 = Some b \<and>
    (b \<longleftrightarrow> dag_nodes chain3 \<noteq> [] \<and> root_objects chain3 = [] \<or>
       (\<exists>r \<in> set (root_objects chain3). \<exists>x.
          (r, x) \<in> (succ_rel chain3)\<^sup>* \<and> (x, x) \<in> (succ_rel chain3)\<^sup>+)))"
proof
  have "root_objects chain3 = [1]"
    by (simp add: root_objects_def get_root_nodes_def nodes_at_def chain3_eq)
  then show "has_cycle chain3 = Some False"
    by (simp add: has_cycle_def while_option_unfold has_cycle_running_def chain3_children)
qed (rule has_cycle_decides [OF chain3_wf])

theorem sort_nodes_topological_correct_witness:
  "\<exists>ns. sort_nodes_topological 3 chain3 = Some ns \<and> distinct ns \<and> set ns = set (dag_nodes chain3) \<and>
    (\<forall>i < length ns. \<forall>v. (node_object (ns ! i), v) \<in> succ_rel chain3 \<longrightarrow>
       (\<exists>j. i < j \<and> j < length ns \<and> node_object (ns ! j) = v))"
  by (rule sort_nodes_topological_correct [OF chain3_wf chain3_acyclic]) (simp add: chain3_eq)

end
