(* ===== verification/WorkflowDag.thy ===== *)
theory WorkflowDag
  imports SimpleDag
begin

section \<open>The workflow graph of \<^verbatim>\<open>forail/main/scheduler/dag_workflow.py\<close>\<close>

text \<open>
  \<open>WorkflowDAG\<close> extends \<open>SimpleDAG\<close>: its node objects are workflow nodes, rows that the graph and
  the caller share. The model keeps the graph on primary keys and the rows in a store from keys
  to records, so that \<open>mark_dnr_nodes\<close>, which assigns \<open>do_not_run\<close> in place while it walks the
  graph, is a function that returns the changed store. The methods below are in the order of the
  source.
\<close>

subsection \<open>Rows\<close>

text \<open>
  The job a node spawned: its status, its cancel flag and whether it has a \<open>celery_task_id\<close>.
\<close>

record wf_job =
  wfj_status :: job_status
  wfj_cancel_flag :: bool
  wfj_celery_task :: bool

record wf_node =
  do_not_run :: bool
  wn_job :: "wf_job option"
  unified_job_template :: "int option"
  all_parents_must_converge :: bool

type_synonym wf_dag = "(int, unit) simple_dag"
type_synonym wf_entry = "(int, unit) dag_entry"
type_synonym wf_store = "int \<Rightarrow> wf_node"

definition success_nodes :: string where "success_nodes = ''success_nodes''"
definition failure_nodes :: string where "failure_nodes = ''failure_nodes''"
definition always_nodes :: string where "always_nodes = ''always_nodes''"

subsection \<open>Building the graph\<close>

text \<open>
  \<open>_init_graph\<close> on the rows of the node query and of the three edge queries. \<^const>\<open>None\<close> is the
  \<open>KeyError\<close> of \<open>wfn_by_id\<close> for an edge whose end is not among the nodes (or the
  \<open>LookupError\<close> of \<open>add_edge\<close>).
\<close>

definition init_edge :: "int list \<Rightarrow> string \<Rightarrow> int \<times> int \<Rightarrow> wf_dag \<Rightarrow> wf_dag option" where
  "init_edge wfn_by_id label edge d =
     (if fst edge \<in> set wfn_by_id \<and> snd edge \<in> set wfn_by_id then
        (case add_edge (fst edge) (snd edge) label d of
           (Some e, _) \<Rightarrow> None
         | (None, d') \<Rightarrow> Some d')
      else None)"

definition init_graph ::
  "int list \<Rightarrow> (int \<times> int) list \<Rightarrow> (int \<times> int) list \<Rightarrow> (int \<times> int) list \<Rightarrow> wf_dag option" where
  "init_graph workflow_nodes success failure always =
     (let d0 = fold (\<lambda>n. add_node n None) workflow_nodes empty_dag in
      Option.bind (fold_opt (init_edge workflow_nodes success_nodes) success d0) (\<lambda>d1.
      Option.bind (fold_opt (init_edge workflow_nodes failure_nodes) failure d1) (\<lambda>d2.
      fold_opt (init_edge workflow_nodes always_nodes) always d2)))"

subsection \<open>Which nodes may run\<close>

definition are_relevant_parents_finished :: "wf_dag \<Rightarrow> wf_store \<Rightarrow> wf_entry \<Rightarrow> bool" where
  "are_relevant_parents_finished d st node =
     list_all (\<lambda>p.
         if do_not_run (st p) then True
         else if unified_job_template (st p) = None then True
         else case wn_job (st p) of
                None \<Rightarrow> False
              | Some job \<Rightarrow> wfj_status job \<in> set [Successful, Failed, Error, Canceled])
       (parent_objects d (node_object node))"

definition all_parents_met_convergence_criteria :: "wf_dag \<Rightarrow> wf_store \<Rightarrow> wf_entry \<Rightarrow> bool" where
  "all_parents_met_convergence_criteria d st node =
     (let obj = node_object node in
      list_all (\<lambda>p.
         case wn_job (st p) of
           None \<Rightarrow> True
         | Some job \<Rightarrow>
             if wfj_status job \<in> set [Successful, Failed] then
               (let status = (if wfj_status job = Successful then success_nodes else failure_nodes) in
                p \<in> set (map node_object (get_parents d obj (Some status))) \<or>
                p \<in> set (map node_object (get_parents d obj (Some always_nodes))))
             else True)
       (parent_objects d obj))"

text \<open>The children the search goes on to from a node, by the outcome of the node.\<close>

definition bfs_children :: "wf_dag \<Rightarrow> wf_store \<Rightarrow> wf_entry \<Rightarrow> wf_entry list" where
  "bfs_children d st n =
     (let obj = node_object n in
      if do_not_run (st obj) then []
      else case wn_job (st obj) of
          Some job \<Rightarrow>
            if wfj_status job \<in> set [Failed, Error, Canceled]
            then get_children d obj (Some failure_nodes) @ get_children d obj (Some always_nodes)
            else if wfj_status job = Successful
            then get_children d obj (Some success_nodes) @ get_children d obj (Some always_nodes)
            else []
        | None \<Rightarrow>
            if unified_job_template (st obj) = None
            then get_children d obj (Some failure_nodes) @ get_children d obj (Some always_nodes)
            else [])"

definition bfs_ready :: "wf_dag \<Rightarrow> wf_store \<Rightarrow> wf_entry \<Rightarrow> bool" where
  "bfs_ready d st n \<longleftrightarrow>
     (let obj = node_object n in
      \<not> do_not_run (st obj) \<and> wn_job (st obj) = None \<and> unified_job_template (st obj) \<noteq> None \<and>
      (if \<not> all_parents_must_converge (st obj) \<and> are_relevant_parents_finished d st n then True
       else all_parents_must_converge (st obj) \<and> are_relevant_parents_finished d st n \<and>
            all_parents_met_convergence_criteria d st n))"

lemma get_children_unknown: "find_ord d obj = None \<Longrightarrow> get_children d obj label = []"
  by (auto simp: get_children_def get_children_by_label_def nodes_at_def)

lemma bfs_children_unknown: "find_ord d (node_object n) = None \<Longrightarrow> bfs_children d st n = []"
  by (auto simp: bfs_children_def get_children_unknown Let_def split: option.splits)

text \<open>
  The loop of \<open>bfs_nodes_to_run\<close>: the part of \<open>nodes\<close> not yet enumerated (the list grows while it
  is enumerated), the visited keys, and \<open>nodes_found\<close>.
\<close>

function bfs_loop ::
  "wf_dag \<Rightarrow> wf_store \<Rightarrow> wf_entry list \<Rightarrow> int set \<Rightarrow> wf_entry list \<Rightarrow> wf_entry list" where
  "bfs_loop d st [] visited found = found"
| "bfs_loop d st (n # nodes) visited found =
     (if node_object n \<in> visited then bfs_loop d st nodes visited found
      else bfs_loop d st (nodes @ bfs_children d st n) (insert (node_object n) visited)
             (if bfs_ready d st n then found @ [n] else found))"
  by pat_completeness auto

text \<open>
  It ends: each turn visits an object of the graph for the first time, or shortens the list (an
  object that is not in the graph has no children).
\<close>

termination
proof (relation "measures [\<lambda>(d, st, nodes, visited, found).
         card (fst ` set (node_obj_to_node_index d) - visited),
       \<lambda>(d, st, nodes, visited, found). length nodes]", goal_cases)
  case (3 d st n nodes visited found)
  let ?keys = "fst ` set (node_obj_to_node_index d)"
  show ?case
  proof (cases "node_object n \<in> ?keys")
    case True
    with 3 have "card (?keys - insert (node_object n) visited) < card (?keys - visited)"
      by (intro psubset_card_mono) auto
    then show ?thesis by simp
  next
    case False
    then have "find_ord d (node_object n) = None"
      by (simp add: find_ord_def map_of_eq_None_iff)
    with False show ?thesis by (simp add: bfs_children_unknown)
  qed
qed auto

definition bfs_nodes_to_run :: "wf_dag \<Rightarrow> wf_store \<Rightarrow> int list" where
  "bfs_nodes_to_run d st = map node_object (bfs_loop d st (get_root_nodes d) {} [])"

subsection \<open>Canceling\<close>

definition can_cancel :: "wf_job \<Rightarrow> bool" where
  "can_cancel job \<longleftrightarrow> wfj_status job \<in> set active_states"

text \<open>
  \<open>UnifiedJob.cancel\<close> as the workflow manager calls it, inside its transaction: there
  \<open>cancel_dispatcher_process\<close> answers true for a job that has a \<open>celery_task_id\<close>, and only a
  job without one changes its status at once.
\<close>

definition cancel_job :: "wf_job \<Rightarrow> wf_job" where
  "cancel_job job =
     (if can_cancel job then
        (let job1 = job\<lparr>wfj_cancel_flag := True\<rparr> in
         if wfj_celery_task job1 then job1 else job1\<lparr>wfj_status := Canceled\<rparr>)
      else job)"

fun cancel_loop :: "wf_entry list \<Rightarrow> bool \<Rightarrow> wf_store \<Rightarrow> bool \<times> wf_store" where
  "cancel_loop [] cancel_finished st = (cancel_finished, st)"
| "cancel_loop (n # ns) cancel_finished st =
     (let obj = node_object n in
      case wn_job (st obj) of
        None \<Rightarrow> cancel_loop ns cancel_finished st
      | Some job \<Rightarrow>
          if can_cancel job
          then cancel_loop ns False (st(obj := (st obj)\<lparr>wn_job := Some (cancel_job job)\<rparr>))
          else cancel_loop ns cancel_finished st)"

definition cancel_node_jobs :: "wf_dag \<Rightarrow> wf_store \<Rightarrow> bool \<times> wf_store" where
  "cancel_node_jobs d st = cancel_loop (dag_nodes d) True st"

subsection \<open>The outcome of the workflow\<close>

definition is_workflow_done :: "wf_dag \<Rightarrow> wf_store \<Rightarrow> bool" where
  "is_workflow_done d st =
     list_all (\<lambda>node. let obj = st (node_object node) in
         if \<not> do_not_run obj \<and> wn_job obj = None \<and> unified_job_template obj \<noteq> None then False
         else case wn_job obj of
                Some job \<Rightarrow> wfj_status job \<in> set [Successful, Failed, Canceled, Error]
              | None \<Rightarrow> True)
       (dag_nodes d)"

definition failed_nodes :: "wf_dag \<Rightarrow> wf_store \<Rightarrow> wf_entry list" where
  "failed_nodes d st =
     filter (\<lambda>node. let obj = st (node_object node) in
         (\<not> do_not_run obj \<and> unified_job_template obj = None) \<or>
         (case wn_job obj of
            Some job \<Rightarrow> wfj_status job \<in> set [Failed, Canceled, Error]
          | None \<Rightarrow> False))
       (dag_nodes d)"

definition no_error_path :: "wf_dag \<Rightarrow> wf_entry \<Rightarrow> bool" where
  "no_error_path d node \<longleftrightarrow>
     length (get_children d (node_object node) (Some failure_nodes)) +
     length (get_children d (node_object node) (Some always_nodes)) = 0"

definition failure_reason :: "string list \<Rightarrow> (string \<times> string) list \<Rightarrow> string" where
  "failure_reason no_ufjt node_status =
     ''No error handling path for workflow job node(s) ['' @
     join '','' (map (\<lambda>(i, status). ''('' @ i @ '','' @ status @ '')'') node_status) @
     '']. Workflow job node(s) missing unified job template and error handling path ['' @
     join '','' no_ufjt @ ''].''"

text \<open>
  The two lists the loop over the failed nodes collects. A node with a template is there for its
  job's status, so it has a job; \<open>obj.job.status\<close> is read under that guard.
\<close>

definition has_workflow_failed :: "wf_dag \<Rightarrow> wf_store \<Rightarrow> bool \<times> string option" where
  "has_workflow_failed d st =
     (let failed = filter (no_error_path d) (failed_nodes d st);
          no_ujt = filter (\<lambda>n. unified_job_template (st (node_object n)) = None) failed;
          with_ujt = filter (\<lambda>n. unified_job_template (st (node_object n)) \<noteq> None) failed;
          ids = map (\<lambda>n. int_str (node_object n)) no_ujt;
          status = map (\<lambda>n. (int_str (node_object n),
              case wn_job (st (node_object n)) of
                Some job \<Rightarrow> status_str (wfj_status job) | None \<Rightarrow> [])) with_ujt
      in if failed \<noteq> [] then (True, Some (failure_reason ids status)) else (False, None))"

subsection \<open>Marking nodes that will not run\<close>

definition dnr_decided :: "wf_node \<Rightarrow> bool" where
  "dnr_decided n \<longleftrightarrow> \<not> (\<not> do_not_run n \<and> wn_job n = None \<and> unified_job_template n \<noteq> None)"

definition are_all_nodes_dnr_decided :: "wf_store \<Rightarrow> int list \<Rightarrow> bool" where
  "are_all_nodes_dnr_decided st workflow_nodes = list_all (\<lambda>n. dnr_decided (st n)) workflow_nodes"

definition should_mark_node_dnr :: "wf_dag \<Rightarrow> wf_store \<Rightarrow> wf_entry \<Rightarrow> int list \<Rightarrow> bool" where
  "should_mark_node_dnr d st node parent_nodes =
     list_all (\<lambda>p.
         if do_not_run (st p) then True
         else case wn_job (st p) of
             Some job \<Rightarrow>
               if wfj_status job = Successful then
                 node \<notin> set (get_children d p (Some success_nodes) @ get_children d p (Some always_nodes))
               else if wfj_status job \<in> set [Failed, Error, Canceled] then
                 node \<notin> set (get_children d p (Some failure_nodes) @ get_children d p (Some always_nodes))
               else False
           | None \<Rightarrow>
               if unified_job_template (st p) = None then
                 node \<notin> set (get_children d p (Some failure_nodes) @ get_children d p (Some always_nodes))
               else False)
       parent_nodes"

text \<open>Whether the loop body marks this node, in the current store.\<close>

definition marks_node :: "wf_dag \<Rightarrow> wf_store \<Rightarrow> wf_entry \<Rightarrow> bool" where
  "marks_node d st node \<longleftrightarrow>
     (let obj = node_object node; parent_nodes = parent_objects d obj in
      \<not> do_not_run (st obj) \<and> wn_job (st obj) = None \<and> node \<notin> set (get_root_nodes d) \<and>
      (if all_parents_must_converge (st obj) then
         list_ex (\<lambda>p. do_not_run (st p)) parent_nodes \<or>
         \<not> all_parents_met_convergence_criteria d st node
       else are_all_nodes_dnr_decided st parent_nodes \<and>
            should_mark_node_dnr d st node parent_nodes))"

fun mark_loop :: "wf_dag \<Rightarrow> wf_entry list \<Rightarrow> wf_store \<Rightarrow> wf_entry list \<Rightarrow> wf_entry list \<times> wf_store" where
  "mark_loop d [] st marked = (marked, st)"
| "mark_loop d (node # ns) st marked =
     (if marks_node d st node
      then mark_loop d ns
             (st(node_object node := (st (node_object node))\<lparr>do_not_run := True\<rparr>)) (marked @ [node])
      else mark_loop d ns st marked)"

text \<open>\<^const>\<open>None\<close>: the topological sort exceeded the recursion limit.\<close>

definition mark_dnr_nodes :: "nat \<Rightarrow> wf_dag \<Rightarrow> wf_store \<Rightarrow> (int list \<times> wf_store) option" where
  "mark_dnr_nodes limit d st =
     (case sort_nodes_topological limit d of
        None \<Rightarrow> None
      | Some ns \<Rightarrow> (let (marked, st') = mark_loop d ns st [] in Some (map node_object marked, st')))"

subsection \<open>Labels and entries\<close>

lemma label_nonempty [simp]:
  "success_nodes \<noteq> ''''" "failure_nodes \<noteq> ''''" "always_nodes \<noteq> ''''"
  by (simp_all add: success_nodes_def failure_nodes_def always_nodes_def)

lemma label_distinct [simp]:
  "success_nodes \<noteq> failure_nodes" "success_nodes \<noteq> always_nodes" "failure_nodes \<noteq> always_nodes"
  "failure_nodes \<noteq> success_nodes" "always_nodes \<noteq> success_nodes" "always_nodes \<noteq> failure_nodes"
  by (simp_all add: success_nodes_def failure_nodes_def always_nodes_def)

lemma entry_of_obj: "v \<in> set (dag_objs d) \<Longrightarrow> \<exists>e \<in> set (dag_nodes d). node_object e = v"
  by (auto simp: dag_objs_def)

lemma root_entry_iff:
  assumes "dag_wf d" and "e \<in> set (dag_nodes d)"
  shows "e \<in> set (get_root_nodes d) \<longleftrightarrow> node_object e \<in> set (root_objects d)"
proof -
  have "set (get_root_nodes d) \<subseteq> set (dag_nodes d)"
    by (auto simp: get_root_nodes_def nodes_at_def wf_roots [OF assms(1)])
  then show ?thesis using entry_eq [OF assms] by (auto simp: root_objects_def)
qed

text \<open>
  The edge from \<open>p\<close> to \<open>v\<close> is taken: the outcome of \<open>p\<close> is known and has a label of an edge from
  \<open>p\<close> to \<open>v\<close>. A node without a template counts as failed.
\<close>

definition taken_edge :: "wf_dag \<Rightarrow> wf_store \<Rightarrow> int \<Rightarrow> int \<Rightarrow> bool" where
  "taken_edge d st p v \<longleftrightarrow> \<not> do_not_run (st p) \<and>
     (case wn_job (st p) of
        Some job \<Rightarrow>
          if wfj_status job \<in> set [Failed, Error, Canceled]
          then has_edge d failure_nodes p v \<or> has_edge d always_nodes p v
          else wfj_status job = Successful \<and> (has_edge d success_nodes p v \<or> has_edge d always_nodes p v)
      | None \<Rightarrow> unified_job_template (st p) = None \<and>
          (has_edge d failure_nodes p v \<or> has_edge d always_nodes p v))"

definition taken_rel :: "wf_dag \<Rightarrow> wf_store \<Rightarrow> (int \<times> int) set" where
  "taken_rel d st = {(p, v). taken_edge d st p v}"

text \<open>Reachable from a root over taken edges.\<close>

definition reached :: "wf_dag \<Rightarrow> wf_store \<Rightarrow> int \<Rightarrow> bool" where
  "reached d st v \<longleftrightarrow> (\<exists>r \<in> set (root_objects d). (r, v) \<in> (taken_rel d st)\<^sup>*)"

lemma taken_edge_succ: "dag_wf d \<Longrightarrow> taken_edge d st p v \<Longrightarrow> (p, v) \<in> succ_rel d"
  by (auto simp: taken_edge_def succ_rel_def child_objects_iff split: option.splits if_splits)

lemma set_bfs_children:
  "dag_wf d \<Longrightarrow> e \<in> set (bfs_children d st n) \<longleftrightarrow>
     e \<in> set (dag_nodes d) \<and> taken_edge d st (node_object n) (node_object e)"
  by (auto simp: bfs_children_def taken_edge_def set_get_children_label Let_def split: option.splits)

lemma reached_objs: "dag_wf d \<Longrightarrow> reached d st v \<Longrightarrow> v \<in> set (dag_objs d)"
proof -
  assume wf: "dag_wf d" and "reached d st v"
  then obtain r where r: "r \<in> set (root_objects d)" "(r, v) \<in> (taken_rel d st)\<^sup>*"
    by (auto simp: reached_def)
  from r(2) show ?thesis
  proof (cases rule: rtranclE)
    case base
    with r(1) show ?thesis by (simp add: root_objects_iff [OF wf])
  next
    case (step y)
    then have "v \<in> set (child_objects d y)"
      using taken_edge_succ [OF wf] by (auto simp: taken_rel_def succ_rel_def)
    with child_objects_objs [OF wf] show ?thesis by blast
  qed
qed

subsection \<open>The search for nodes to run\<close>

lemma bfs_loop_sound:
  "dag_wf d \<Longrightarrow>
    set nodes \<subseteq> {n \<in> set (dag_nodes d). reached d st (node_object n)} \<Longrightarrow>
    set found \<subseteq> {n \<in> set (dag_nodes d). reached d st (node_object n) \<and> bfs_ready d st n} \<Longrightarrow>
    node_object ` set found \<subseteq> visited \<Longrightarrow> distinct (map node_object found) \<Longrightarrow>
    set (bfs_loop d st nodes visited found)
      \<subseteq> {n \<in> set (dag_nodes d). reached d st (node_object n) \<and> bfs_ready d st n} \<and>
    distinct (map node_object (bfs_loop d st nodes visited found))"
proof (induction d st nodes visited found rule: bfs_loop.induct)
  case (1 d st visited found)
  then show ?case by simp
next
  case (2 d st n nodes visited found)
  show ?case
  proof (cases "node_object n \<in> visited")
    case True
    with 2 show ?thesis by simp
  next
    case False
    have "reached d st (node_object e)" if "e \<in> set (bfs_children d st n)" for e
    proof -
      have "(node_object n, node_object e) \<in> taken_rel d st"
        using that "2.prems"(1) set_bfs_children by (simp add: taken_rel_def)
      moreover have "reached d st (node_object n)" using "2.prems"(2) by simp
      ultimately show ?thesis
        unfolding reached_def by (meson rtrancl.rtrancl_into_rtrancl)
    qed
    then have q: "set (nodes @ bfs_children d st n) \<subseteq> {n \<in> set (dag_nodes d). reached d st (node_object n)}"
      using "2.prems"(1,2) by (auto simp: set_bfs_children)
    let ?found = "if bfs_ready d st n then found @ [n] else found"
    have f: "set ?found \<subseteq> {n \<in> set (dag_nodes d). reached d st (node_object n) \<and> bfs_ready d st n}"
      "node_object ` set ?found \<subseteq> insert (node_object n) visited" "distinct (map node_object ?found)"
      using "2.prems"(2-5) False by auto
    from "2.IH"(2) [OF False "2.prems"(1) q f] False show ?thesis by simp
  qed
qed

lemma bfs_loop_complete:
  "dag_wf d \<Longrightarrow> taken_rel d st `` visited \<subseteq> visited \<union> node_object ` set nodes \<Longrightarrow>
    set nodes \<subseteq> set (dag_nodes d) \<Longrightarrow>
    {n \<in> set (dag_nodes d). node_object n \<in> visited \<and> bfs_ready d st n} \<subseteq> set found \<Longrightarrow>
    \<exists>V. visited \<union> node_object ` set nodes \<subseteq> V \<and> taken_rel d st `` V \<subseteq> V \<and>
      {n \<in> set (dag_nodes d). node_object n \<in> V \<and> bfs_ready d st n}
        \<subseteq> set (bfs_loop d st nodes visited found)"
proof (induction d st nodes visited found rule: bfs_loop.induct)
  case (1 d st visited found)
  then show ?case by (intro exI [of _ visited]) simp
next
  case (2 d st n nodes visited found)
  show ?case
  proof (cases "node_object n \<in> visited")
    case True
    with "2.prems" have "taken_rel d st `` visited \<subseteq> visited \<union> node_object ` set nodes"
      "set nodes \<subseteq> set (dag_nodes d)" by auto
    from "2.IH"(1) [OF True "2.prems"(1) this "2.prems"(4)] True show ?thesis
      by (simp add: insert_absorb)
  next
    case False
    let ?found = "if bfs_ready d st n then found @ [n] else found"
    let ?q = "nodes @ bfs_children d st n" and ?V = "insert (node_object n) visited"
    have n: "n \<in> set (dag_nodes d)" using "2.prems"(3) by simp
    have "taken_rel d st `` {node_object n} \<subseteq> node_object ` set (bfs_children d st n)"
      using "2.prems"(1) entry_of_obj child_objects_objs [OF "2.prems"(1)]
        taken_edge_succ [OF "2.prems"(1)]
      by (fastforce simp: taken_rel_def set_bfs_children succ_rel_def)
    then have a: "taken_rel d st `` ?V \<subseteq> ?V \<union> node_object ` set ?q"
      using "2.prems"(2) by auto
    have b: "set ?q \<subseteq> set (dag_nodes d)"
      using "2.prems"(1,3) by (auto simp: set_bfs_children)
    have c: "{m \<in> set (dag_nodes d). node_object m \<in> ?V \<and> bfs_ready d st m} \<subseteq> set ?found"
      using "2.prems"(4) entry_eq [OF "2.prems"(1) _ n] by auto
    from "2.IH"(2) [OF False "2.prems"(1) a b c] obtain V where
      "?V \<union> node_object ` set ?q \<subseteq> V" "taken_rel d st `` V \<subseteq> V"
      "{m \<in> set (dag_nodes d). node_object m \<in> V \<and> bfs_ready d st m}
         \<subseteq> set (bfs_loop d st ?q ?V ?found)" by blast
    with False show ?thesis by (intro exI [of _ V]) auto
  qed
qed

lemma bfs_nodes_to_run_set:
  assumes wf: "dag_wf d"
  shows "set (bfs_nodes_to_run d st) =
           {node_object n |n. n \<in> set (dag_nodes d) \<and> reached d st (node_object n) \<and> bfs_ready d st n} \<and>
         distinct (bfs_nodes_to_run d st)"
proof -
  let ?L = "bfs_loop d st (get_root_nodes d) {} []"
  have roots: "set (get_root_nodes d) \<subseteq> set (dag_nodes d)"
    by (auto simp: get_root_nodes_def nodes_at_def wf_roots [OF wf])
  then have "set (get_root_nodes d) \<subseteq> {n \<in> set (dag_nodes d). reached d st (node_object n)}"
    by (auto simp: reached_def root_objects_def)
  from bfs_loop_sound [OF wf this] have sound:
    "set ?L \<subseteq> {n \<in> set (dag_nodes d). reached d st (node_object n) \<and> bfs_ready d st n}"
    "distinct (map node_object ?L)" by simp_all
  from bfs_loop_complete [OF wf _ roots, of st "{}" "[]"] obtain V where
    V: "node_object ` set (get_root_nodes d) \<subseteq> V" "taken_rel d st `` V \<subseteq> V"
    "{n \<in> set (dag_nodes d). node_object n \<in> V \<and> bfs_ready d st n} \<subseteq> set ?L" by auto
  have "v \<in> V" if "reached d st v" for v
    using that V(1,2) closed_trancl [OF V(2)]
    by (auto simp: reached_def root_objects_def rtrancl_eq_or_trancl)
  with V(3) sound show ?thesis by (auto simp: bfs_nodes_to_run_def)
qed

subsection \<open>Marking: what the walk computes\<close>

text \<open>The marking condition of a node reads the store at the node itself and at its parents only.\<close>

lemma marks_node_cong:
  assumes "st (node_object n) = st' (node_object n)"
    and "\<And>p. p \<in> set (parent_objects d (node_object n)) \<Longrightarrow> st p = st' p"
  shows "marks_node d st n = marks_node d st' n"
proof -
  have crit: "all_parents_met_convergence_criteria d st n = all_parents_met_convergence_criteria d st' n"
    using assms(2) unfolding all_parents_met_convergence_criteria_def Let_def
    by (intro list.pred_cong refl) (simp only:)
  have dec: "are_all_nodes_dnr_decided st (parent_objects d (node_object n)) =
      are_all_nodes_dnr_decided st' (parent_objects d (node_object n))"
    using assms(2) unfolding are_all_nodes_dnr_decided_def by (intro list.pred_cong refl) (simp only:)
  have should: "should_mark_node_dnr d st n (parent_objects d (node_object n)) =
      should_mark_node_dnr d st' n (parent_objects d (node_object n))"
    using assms(2) unfolding should_mark_node_dnr_def by (intro list.pred_cong refl) (simp only:)
  have ex: "list_ex (\<lambda>p. do_not_run (st p)) (parent_objects d (node_object n)) =
      list_ex (\<lambda>p. do_not_run (st' p)) (parent_objects d (node_object n))"
    using assms(2) by (auto simp: list_ex_iff)
  show ?thesis unfolding marks_node_def Let_def crit dec should ex assms(1) ..
qed

definition mark :: "wf_store \<Rightarrow> int \<Rightarrow> wf_store" where
  "mark st v = st(v := (st v)\<lparr>do_not_run := True\<rparr>)"

lemma mark_loop_Cons:
  "mark_loop d (n # ns) st marked =
     (if marks_node d st n then mark_loop d ns (mark st (node_object n)) (marked @ [n])
      else mark_loop d ns st marked)"
  by (simp add: mark_def)

declare mark_loop.simps(2) [simp del]

lemma mark_loop_accu:
  "mark_loop d ns st marked = (marked @ fst (mark_loop d ns st []), snd (mark_loop d ns st []))"
proof (induction ns arbitrary: st marked)
  case Nil
  then show ?case by simp
next
  case (Cons n ns)
  show ?case
    using Cons [of "mark st (node_object n)" "marked @ [n]"] Cons [of "mark st (node_object n)" "[n]"]
      Cons [of st marked]
    by (simp add: mark_loop_Cons)
qed

lemma mark_loop_fst_Cons:
  "fst (mark_loop d (n # ns) st []) =
     (if marks_node d st n then n # fst (mark_loop d ns (mark st (node_object n)) [])
      else fst (mark_loop d ns st []))"
  using mark_loop_accu [of d ns "mark st (node_object n)" "[n]"] by (simp add: mark_loop_Cons)

lemma mark_loop_snd_Cons:
  "snd (mark_loop d (n # ns) st []) =
     snd (mark_loop d ns (if marks_node d st n then mark st (node_object n) else st) [])"
  using mark_loop_accu [of d ns "mark st (node_object n)" "[n]"] by (simp add: mark_loop_Cons)

lemma mark_loop_append:
  "fst (mark_loop d (ns @ ms) st []) =
     fst (mark_loop d ns st []) @ fst (mark_loop d ms (snd (mark_loop d ns st [])) [])"
  "snd (mark_loop d (ns @ ms) st []) = snd (mark_loop d ms (snd (mark_loop d ns st [])) [])"
  by (induction ns arbitrary: st) (simp_all add: mark_loop_fst_Cons mark_loop_snd_Cons)

lemma mark_loop_other: "v \<notin> node_object ` set ns \<Longrightarrow> snd (mark_loop d ns st []) v = st v"
  by (induction ns arbitrary: st) (simp_all add: mark_loop_snd_Cons mark_def)

lemma mark_loop_subset: "set (fst (mark_loop d ns st [])) \<subseteq> set ns"
proof (induction ns arbitrary: st)
  case (Cons n ns)
  then show ?case by (simp add: mark_loop_fst_Cons subset_insertI2)
qed simp

lemma mark_loop_split:
  assumes d: "distinct (map node_object (as @ n # bs))"
    and parents: "set (parent_objects d (node_object n)) \<subseteq> node_object ` set as"
    and st': "st' = snd (mark_loop d (as @ n # bs) st [])"
    and own: "own = st'(node_object n := st (node_object n))"
  shows "st' (node_object n) = (if marks_node d own n then mark st (node_object n) (node_object n)
           else st (node_object n)) \<and>
         (n \<in> set (fst (mark_loop d (as @ n # bs) st [])) \<longleftrightarrow> marks_node d own n)"
proof -
  let ?v = "node_object n"
  define sta where "sta = snd (mark_loop d as st [])"
  define stn where "stn = (if marks_node d sta n then mark sta ?v else sta)"
  have new: "?v \<notin> node_object ` set as" "?v \<notin> node_object ` set bs" using d by auto
  have sta_v: "sta ?v = st ?v" unfolding sta_def by (rule mark_loop_other [OF new(1)])
  have st'_eq: "st' = snd (mark_loop d bs stn [])"
    by (simp add: st' mark_loop_append mark_loop_snd_Cons sta_def [symmetric] stn_def)
  have after: "st' u = stn u" if "u \<notin> node_object ` set bs" for u
    using that unfolding st'_eq by (rule mark_loop_other)
  have same: "marks_node d own n = marks_node d sta n"
  proof (rule marks_node_cong)
    show "own ?v = sta ?v" by (simp add: own sta_v)
    fix p assume "p \<in> set (parent_objects d ?v)"
    with parents have "p \<in> node_object ` set as" by blast
    with new(1) have "p \<noteq> ?v" by metis
    moreover from \<open>p \<in> node_object ` set as\<close> d have "p \<notin> node_object ` set bs" by auto
    ultimately show "own p = sta p" using after [of p] by (simp add: own mark_def stn_def)
  qed
  have "n \<notin> set (fst (mark_loop d as st []))" "n \<notin> set (fst (mark_loop d bs stn []))"
    using mark_loop_subset new by (metis image_eqI subsetD)+
  then have "n \<in> set (fst (mark_loop d (as @ n # bs) st [])) \<longleftrightarrow> marks_node d sta n"
    by (auto simp: mark_loop_append mark_loop_fst_Cons sta_def [symmetric] stn_def split: if_splits)
  then show ?thesis using after [OF new(2)] sta_v by (simp add: same stn_def mark_def)
qed

text \<open>
  In a topologically sorted list every parent comes first, so each node is decided on the final
  values of its parents.
\<close>

lemma topo_parents_before:
  assumes "topo_sorted E (xs @ x # ys)" and "(p, x) \<in> E" and "p \<in> set (xs @ x # ys)"
  shows "p \<in> set xs"
proof (rule ccontr)
  assume "p \<notin> set xs"
  with assms(3) have p: "p \<in> set (x # ys)" by simp
  have "topo_sorted E (x # ys)" using assms(1) by (rule topo_sorted_append)
  then show False using p assms(2)
  proof (induction "x # ys" arbitrary: x ys rule: topo_sorted.induct)
    case (2 E x ys)
    show ?case
    proof (cases "p = x")
      case True
      with 2 show False by auto
    next
      case False
      with 2(3) have "p \<in> set ys" by simp
      then obtain us vs where ys: "ys = us @ p # vs" by (meson split_list)
      have "topo_sorted E (p # vs)"
        using 2(2) topo_sorted_append [of E "x # us" "p # vs"] by (simp add: ys)
      with 2(4) ys 2(2) show False by auto
    qed
  qed
qed

lemma mark_dnr_nodes_final:
  assumes wf: "dag_wf d" and acyc: "acyclic (succ_rel d)" and limit: "length (dag_nodes d) \<le> limit"
  shows "\<exists>marked st'. mark_dnr_nodes limit d st = Some (map node_object marked, st') \<and>
    set marked \<subseteq> set (dag_nodes d) \<and>
    (\<forall>v. v \<notin> set (dag_objs d) \<longrightarrow> st' v = st v) \<and>
    (\<forall>n \<in> set (dag_nodes d). let own = st'(node_object n := st (node_object n)) in
       (n \<in> set marked \<longleftrightarrow> marks_node d own n) \<and>
       st' (node_object n) = (if n \<in> set marked then (st (node_object n))\<lparr>do_not_run := True\<rparr>
                              else st (node_object n)))"
proof -
  obtain ns where ns: "sort_nodes_topological limit d = Some ns" "set ns = set (dag_nodes d)"
    "topo_sorted (succ_rel d) (map node_object ns)"
    using sort_nodes_topological_returns [OF assms] by blast
  define st' where "st' = snd (mark_loop d ns st [])"
  define marked where "marked = fst (mark_loop d ns st [])"
  have eq: "mark_dnr_nodes limit d st = Some (map node_object marked, st')"
    by (simp add: mark_dnr_nodes_def ns(1) st'_def marked_def case_prod_unfold Let_def)
  have each: "(n \<in> set marked \<longleftrightarrow> marks_node d (st'(node_object n := st (node_object n))) n) \<and>
      st' (node_object n) = (if n \<in> set marked then (st (node_object n))\<lparr>do_not_run := True\<rparr>
                             else st (node_object n))"
    if "n \<in> set (dag_nodes d)" for n
  proof -
    from that ns(2) have "n \<in> set ns" by simp
    then obtain as bs where split: "ns = as @ n # bs" by (blast dest: split_list)
    have dist: "distinct (map node_object (as @ n # bs))"
      using topo_sorted_distinct [OF ns(3)] by (simp add: split)
    have "p \<in> set (map node_object as)" if p: "p \<in> set (parent_objects d (node_object n))" for p
    proof (rule topo_parents_before [of "succ_rel d" _ "node_object n" "map node_object bs"])
      show "topo_sorted (succ_rel d) (map node_object as @ node_object n # map node_object bs)"
        using ns(3) by (simp add: split)
      show "(p, node_object n) \<in> succ_rel d" using p sdag.preds_iff [OF wf] by (simp add: succ_rel_def)
      have "p \<in> set (dag_objs d)" using p sdag.preds_nodes [OF wf] by blast
      then show "p \<in> set (map node_object as @ node_object n # map node_object bs)"
        using ns(2) by (auto simp: dag_objs_def split)
    qed
    then have "set (parent_objects d (node_object n)) \<subseteq> node_object ` set as" by auto
    note each = mark_loop_split [OF dist this st'_def [unfolded split] refl]
    show ?thesis
      unfolding marked_def split each [THEN conjunct2] each [THEN conjunct1, unfolded mark_def]
      by (simp add: mark_def)
  qed
  have other: "st' v = st v" if "v \<notin> set (dag_objs d)" for v
    using that ns(2) mark_loop_other [of v ns d st] by (simp add: st'_def dag_objs_def)
  have sub: "set marked \<subseteq> set (dag_nodes d)"
    using ns(2) mark_loop_subset [of d ns st] by (simp add: marked_def)
  show ?thesis
    unfolding Let_def
    by (rule exI [of _ marked], rule exI [of _ st'], intro conjI allI impI ballI)
      (fact eq, fact sub, erule other, erule each [THEN conjunct1], erule each [THEN conjunct2])
qed

subsection \<open>The marking conditions on the abstract graph\<close>

text \<open>The outcome of a node is known.\<close>

definition settled :: "wf_node \<Rightarrow> bool" where
  "settled n \<longleftrightarrow> do_not_run n \<or>
     (case wn_job n of Some job \<Rightarrow> job_finished (wfj_status job) | None \<Rightarrow> unified_job_template n = None)"

text \<open>The outcome of a node is the success or the failure of its job.\<close>

definition ran_to_end :: "wf_node \<Rightarrow> bool" where
  "ran_to_end n \<longleftrightarrow> (case wn_job n of Some job \<Rightarrow> wfj_status job \<in> {Successful, Failed} | None \<Rightarrow> False)"

lemma settled_parent_iff:
  assumes "dag_wf d" and "node \<in> set (dag_nodes d)"
  shows "dnr_decided (st p) \<and> should_mark_node_dnr d st node [p] \<longleftrightarrow>
           settled (st p) \<and> \<not> taken_edge d st p (node_object node)"
proof (cases "wn_job (st p)")
  case None
  then show ?thesis using assms
    by (auto simp: dnr_decided_def should_mark_node_dnr_def settled_def taken_edge_def
        set_get_children_label)
next
  case (Some job)
  then show ?thesis using assms
    by (cases "wfj_status job") (auto simp: dnr_decided_def should_mark_node_dnr_def settled_def
        taken_edge_def set_get_children_label job_finished_def)
qed

lemma any_mark_iff:
  assumes "dag_wf d" and "node \<in> set (dag_nodes d)"
  shows "are_all_nodes_dnr_decided st ps \<and> should_mark_node_dnr d st node ps \<longleftrightarrow>
           (\<forall>p \<in> set ps. settled (st p) \<and> \<not> taken_edge d st p (node_object node))"
proof -
  have each: "should_mark_node_dnr d st node ps \<longleftrightarrow> (\<forall>p \<in> set ps. should_mark_node_dnr d st node [p])"
    unfolding should_mark_node_dnr_def list_all_iff by (simp only: list.set ball_simps simp_thms)
  show ?thesis
    using settled_parent_iff [OF assms]
    unfolding each are_all_nodes_dnr_decided_def list_all_iff by blast
qed

lemma parent_label_iff:
  assumes "dag_wf d" and "l \<noteq> ''''"
  shows "p \<in> set (map node_object (get_parents d v (Some l))) \<longleftrightarrow> has_edge d l p v"
  using has_edge_objs [OF assms(1)] entry_of_obj [of p d]
  by (force simp: set_get_parents_label [OF assms] dag_objs_def)

lemma criteria_iff:
  assumes "dag_wf d"
  shows "all_parents_met_convergence_criteria d st node \<longleftrightarrow>
    (\<forall>p \<in> set (parent_objects d (node_object node)).
       ran_to_end (st p) \<longrightarrow> do_not_run (st p) \<or> taken_edge d st p (node_object node)) \<and>
    (\<forall>p \<in> set (parent_objects d (node_object node)).
       ran_to_end (st p) \<and> do_not_run (st p) \<longrightarrow>
         taken_edge d (st(p := (st p)\<lparr>do_not_run := False\<rparr>)) p (node_object node))"
proof -
  let ?v = "node_object node"
  have "(case wn_job (st p) of None \<Rightarrow> True
      | Some job \<Rightarrow> if wfj_status job \<in> set [Successful, Failed] then
          (let status = (if wfj_status job = Successful then success_nodes else failure_nodes) in
            p \<in> set (map node_object (get_parents d ?v (Some status))) \<or>
            p \<in> set (map node_object (get_parents d ?v (Some always_nodes)))) else True) \<longleftrightarrow>
      (ran_to_end (st p) \<longrightarrow> do_not_run (st p) \<or> taken_edge d st p ?v) \<and>
      (ran_to_end (st p) \<and> do_not_run (st p) \<longrightarrow>
         taken_edge d (st(p := (st p)\<lparr>do_not_run := False\<rparr>)) p ?v)" for p
    unfolding parent_label_iff [OF assms label_nonempty(3)]
    using parent_label_iff [OF assms label_nonempty(1)] parent_label_iff [OF assms label_nonempty(2)]
    by (cases "wn_job (st p)"; cases "do_not_run (st p)")
      (auto simp: ran_to_end_def taken_edge_def Let_def)
  then show ?thesis
    unfolding all_parents_met_convergence_criteria_def Let_def list_all_iff by blast
qed

lemma all_mark_iff:
  assumes "dag_wf d"
  shows "list_ex (\<lambda>p. do_not_run (st p)) (parent_objects d (node_object node)) \<or>
         \<not> all_parents_met_convergence_criteria d st node \<longleftrightarrow>
    (\<exists>p \<in> set (parent_objects d (node_object node)).
       do_not_run (st p) \<or> (ran_to_end (st p) \<and> \<not> taken_edge d st p (node_object node)))"
  unfolding criteria_iff [OF assms] list_ex_iff by blast

lemma not_self_parent:
  "dag_wf d \<Longrightarrow> acyclic (succ_rel d) \<Longrightarrow> p \<in> set (parent_objects d v) \<Longrightarrow> p \<noteq> v"
  using sdag.preds_iff [of d p v] by (auto simp: acyclic_def succ_rel_def)

lemma taken_edge_cong: "st p = st' p \<Longrightarrow> taken_edge d st p v = taken_edge d st' p v"
  by (simp only: taken_edge_def)

text \<open>The condition of \<open>marks_node\<close> with the parents' values read in another store.\<close>

lemma marks_own_iff:
  assumes wf: "dag_wf d" and acyc: "acyclic (succ_rel d)" and n: "n \<in> set (dag_nodes d)"
    and own: "own = st'(node_object n := st (node_object n))"
  shows "marks_node d own n \<longleftrightarrow>
    \<not> do_not_run (st (node_object n)) \<and> wn_job (st (node_object n)) = None \<and>
    node_object n \<notin> set (root_objects d) \<and>
    (if all_parents_must_converge (st (node_object n))
     then \<exists>p \<in> set (parent_objects d (node_object n)).
            do_not_run (st' p) \<or> (ran_to_end (st' p) \<and> \<not> taken_edge d st' p (node_object n))
     else \<forall>p \<in> set (parent_objects d (node_object n)).
            settled (st' p) \<and> \<not> taken_edge d st' p (node_object n))"
proof -
  have p: "own p = st' p" if "p \<in> set (parent_objects d (node_object n))" for p
    using not_self_parent [OF wf acyc that] by (simp add: own)
  have t: "taken_edge d own p v = taken_edge d st' p v"
    if "p \<in> set (parent_objects d (node_object n))" for p v
    by (rule taken_edge_cong) (rule p [OF that])
  show ?thesis
    unfolding marks_node_def Let_def all_mark_iff [OF wf] any_mark_iff [OF wf n] root_entry_iff [OF wf n]
    using p t by (simp add: own)
qed

lemma concluded_iff:
  "is_workflow_done d st \<longleftrightarrow> (\<forall>v \<in> set (dag_objs d).
     case wn_job (st v) of Some job \<Rightarrow> job_finished (wfj_status job)
     | None \<Rightarrow> do_not_run (st v) \<or> unified_job_template (st v) = None)"
  by (auto simp: is_workflow_done_def dag_objs_def list_all_iff Let_def job_finished_def
      split: option.splits)

lemma bfs_ready_undecided:
  "bfs_ready d st n \<Longrightarrow> \<not> do_not_run (st (node_object n)) \<and> wn_job (st (node_object n)) = None \<and>
     unified_job_template (st (node_object n)) \<noteq> None"
  by (auto simp: bfs_ready_def Let_def)

lemma parents_finished_iff:
  "are_relevant_parents_finished d st n \<longleftrightarrow>
     (\<forall>p \<in> set (parent_objects d (node_object n)).
        do_not_run (st p) \<or> unified_job_template (st p) = None \<or>
        (\<exists>job. wn_job (st p) = Some job \<and> job_finished (wfj_status job)))"
  by (auto simp: are_relevant_parents_finished_def list_all_iff job_finished_def split: option.splits)

subsection \<open>Progress\<close>

text \<open>
  What the manager keeps true of the rows: a node has a job only if the search reached it, and
  then it is not marked. A job that runs is finished before the next round in the statement
  below.
\<close>

definition jobs_reached :: "wf_dag \<Rightarrow> wf_store \<Rightarrow> bool" where
  "jobs_reached d st \<longleftrightarrow> (\<forall>v \<in> set (dag_objs d). wn_job (st v) \<noteq> None \<longrightarrow>
     \<not> do_not_run (st v) \<and> reached d st v)"

definition jobs_finished :: "wf_dag \<Rightarrow> wf_store \<Rightarrow> bool" where
  "jobs_finished d st \<longleftrightarrow> (\<forall>v \<in> set (dag_objs d). \<forall>job. wn_job (st v) = Some job \<longrightarrow>
     job_finished (wfj_status job))"

text \<open>
  The shapes the convergence test covers: a node that waits for all its parents has a template,
  its parents have templates, and none of them ended in error or was canceled.
\<close>

definition convergence_covered :: "wf_dag \<Rightarrow> wf_store \<Rightarrow> bool" where
  "convergence_covered d st \<longleftrightarrow> (\<forall>v \<in> set (dag_objs d). all_parents_must_converge (st v) \<longrightarrow>
     unified_job_template (st v) \<noteq> None \<and>
     (\<forall>p \<in> set (parent_objects d v). unified_job_template (st p) \<noteq> None \<and>
        (\<forall>job. wn_job (st p) = Some job \<longrightarrow> wfj_status job \<notin> {Error, Canceled})))"

definition undecided :: "wf_node \<Rightarrow> bool" where
  "undecided n \<longleftrightarrow> \<not> do_not_run n \<and> wn_job n = None \<and> unified_job_template n \<noteq> None"

lemma taken_reached: "reached d st p \<Longrightarrow> taken_edge d st p v \<Longrightarrow> reached d st v"
  unfolding reached_def taken_rel_def by (meson case_prodI mem_Collect_eq rtrancl.rtrancl_into_rtrancl)

text \<open>
  The store after the walk, as the proofs below use it: every unmarked node was tested against
  the final values of its parents.
\<close>

definition marking_closed :: "wf_dag \<Rightarrow> wf_store \<Rightarrow> bool" where
  "marking_closed d st \<longleftrightarrow> (\<forall>n \<in> set (dag_nodes d). \<not> do_not_run (st (node_object n)) \<longrightarrow>
     \<not> marks_node d st n)"

lemma unmarked_any:
  assumes wf: "dag_wf d" and acyc: "acyclic (succ_rel d)" and closed: "marking_closed d st"
    and v: "v \<in> set (dag_objs d)" "v \<notin> set (root_objects d)" "\<not> do_not_run (st v)" "wn_job (st v) = None"
      "\<not> all_parents_must_converge (st v)"
    and parents: "\<forall>p \<in> set (parent_objects d v). settled (st p)"
  shows "\<exists>p \<in> set (parent_objects d v). taken_edge d st p v"
proof -
  obtain n where n: "n \<in> set (dag_nodes d)" "node_object n = v" using entry_of_obj [OF v(1)] by blast
  with closed v(3) have "\<not> marks_node d st n" by (auto simp: marking_closed_def)
  then show ?thesis
    using marks_own_iff [OF wf acyc n(1), of st st st] n(2) v parents by auto
qed

lemma unmarked_all:
  assumes wf: "dag_wf d" and acyc: "acyclic (succ_rel d)" and closed: "marking_closed d st"
    and v: "v \<in> set (dag_objs d)" "v \<notin> set (root_objects d)" "\<not> do_not_run (st v)" "wn_job (st v) = None"
      "all_parents_must_converge (st v)"
  shows "\<forall>p \<in> set (parent_objects d v). \<not> do_not_run (st p) \<and> (ran_to_end (st p) \<longrightarrow> taken_edge d st p v)"
proof -
  obtain n where n: "n \<in> set (dag_nodes d)" "node_object n = v" using entry_of_obj [OF v(1)] by blast
  with closed v(3) have "\<not> marks_node d st n" by (auto simp: marking_closed_def)
  then show ?thesis
    using marks_own_iff [OF wf acyc n(1), of st st st] n(2) v by auto
qed

text \<open>A decided, unmarked node whose ancestors are all decided is reached.\<close>

lemma decided_reached:
  assumes wf: "dag_wf d" and acyc: "acyclic (succ_rel d)" and closed: "marking_closed d st"
    and jr: "jobs_reached d st" and jf: "jobs_finished d st" and cov: "convergence_covered d st"
  shows "v \<in> set (dag_objs d) \<Longrightarrow> \<not> do_not_run (st v) \<Longrightarrow>
    (\<forall>u. (u, v) \<in> (succ_rel d)\<^sup>* \<longrightarrow> \<not> undecided (st u)) \<Longrightarrow> reached d st v"
proof (induction v rule: wf_induct_rule [OF finite_acyclic_wf [OF finite_succ [OF wf] acyc]])
  case (1 v)
  show ?case
  proof (cases "v \<in> set (root_objects d) \<or> wn_job (st v) \<noteq> None")
    case True
    with jr 1(2) show ?thesis by (auto simp: reached_def jobs_reached_def)
  next
    case False
    with 1 have none: "unified_job_template (st v) = None" by (auto simp: undecided_def)
    with cov 1(2) have any: "\<not> all_parents_must_converge (st v)" by (auto simp: convergence_covered_def)
    have par: "(p, v) \<in> succ_rel d" "p \<in> set (dag_objs d)" if "p \<in> set (parent_objects d v)" for p
      using that sdag.preds_iff [OF wf] sdag.preds_nodes [OF wf] by (auto simp: succ_rel_def)
    have anc: "\<not> undecided (st u)" if "(u, p) \<in> (succ_rel d)\<^sup>*" "p \<in> set (parent_objects d v)" for u p
      using that par 1(4) by (meson rtrancl.rtrancl_into_rtrancl)
    have "\<forall>p \<in> set (parent_objects d v). settled (st p)"
      using anc par(2) jf by (fastforce simp: settled_def undecided_def jobs_finished_def split: option.splits)
    from unmarked_any [OF wf acyc closed 1(2) _ 1(3) _ any this] False obtain p where
      p: "p \<in> set (parent_objects d v)" "taken_edge d st p v" by auto
    from p(2) have "\<not> do_not_run (st p)" by (simp add: taken_edge_def)
    with 1(1) [OF par(1) [OF p(1)] par(2) [OF p(1)]] anc [OF _ p(1)] have "reached d st p" by blast
    then show ?thesis using p(2) by (rule taken_reached)
  qed
qed

lemma first_undecided:
  assumes wf: "dag_wf d" and acyc: "acyclic (succ_rel d)" and jf: "jobs_finished d st"
    and busy: "\<not> is_workflow_done d st"
  shows "\<exists>v \<in> set (dag_objs d). undecided (st v) \<and>
           (\<forall>u. (u, v) \<in> (succ_rel d)\<^sup>+ \<longrightarrow> \<not> undecided (st u))"
proof -
  define Q where "Q = {v \<in> set (dag_objs d). undecided (st v)}"
  obtain x where x: "x \<in> Q"
    using busy jf unfolding Q_def
    by (auto simp: concluded_iff undecided_def jobs_finished_def split: option.splits)
  have "wf ((succ_rel d)\<^sup>+)"
    using finite_acyclic_wf [OF finite_succ [OF wf] acyc] by (rule wf_trancl)
  from wfE_min [OF this x] obtain v where v: "v \<in> Q" "\<And>u. (u, v) \<in> (succ_rel d)\<^sup>+ \<Longrightarrow> u \<notin> Q"
    by metis
  moreover have "u \<in> set (dag_objs d)" if "(u, v) \<in> (succ_rel d)\<^sup>+" for u
  proof -
    from that obtain z where "(u, z) \<in> succ_rel d" by (meson tranclD)
    then show ?thesis using child_objects_objs [OF wf, of z u] by (simp add: succ_rel_def)
  qed
  ultimately show ?thesis unfolding Q_def by blast
qed

lemma first_undecided_ready:
  assumes wf: "dag_wf d" and acyc: "acyclic (succ_rel d)" and closed: "marking_closed d st"
    and jr: "jobs_reached d st" and jf: "jobs_finished d st" and cov: "convergence_covered d st"
    and v: "v \<in> set (dag_objs d)" "undecided (st v)"
    and anc: "\<forall>u. (u, v) \<in> (succ_rel d)\<^sup>+ \<longrightarrow> \<not> undecided (st u)"
    and n: "n \<in> set (dag_nodes d)" "node_object n = v"
  shows "reached d st v \<and> bfs_ready d st n"
proof -
  have vn: "\<not> do_not_run (st v)" "wn_job (st v) = None" "unified_job_template (st v) \<noteq> None"
    using v(2) by (auto simp: undecided_def)
  have par: "(p, v) \<in> succ_rel d" "p \<in> set (dag_objs d)" if "p \<in> set (parent_objects d v)" for p
    using that sdag.preds_iff [OF wf] sdag.preds_nodes [OF wf] by (auto simp: succ_rel_def)
  have dec: "\<not> undecided (st u)" if "(u, p) \<in> (succ_rel d)\<^sup>*" "p \<in> set (parent_objects d v)" for u p
    using that par anc by (meson rtrancl_into_trancl1)
  have settled: "\<forall>p \<in> set (parent_objects d v). settled (st p)"
    using dec par(2) jf by (fastforce simp: settled_def undecided_def jobs_finished_def split: option.splits)
  have finished: "are_relevant_parents_finished d st n"
    using dec par(2) jf n(2) by (fastforce simp: parents_finished_iff undecided_def jobs_finished_def)
  have reach: "reached d st v" if "p \<in> set (parent_objects d v)" "taken_edge d st p v" for p
  proof -
    have "\<not> do_not_run (st p)" using that(2) by (simp add: taken_edge_def)
    with decided_reached [OF wf acyc closed jr jf cov par(2) [OF that(1)]] dec [OF _ that(1)]
    have "reached d st p" by blast
    then show ?thesis using that(2) by (rule taken_reached)
  qed
  show ?thesis
  proof (cases "all_parents_must_converge (st v)")
    case False
    then have "bfs_ready d st n" using finished vn n(2) by (simp add: bfs_ready_def)
    moreover have "reached d st v"
      using unmarked_any [OF wf acyc closed v(1) _ vn(1,2) False settled] reach
      by (auto simp: reached_def)
    ultimately show ?thesis by blast
  next
    case True
    show ?thesis
    proof (cases "v \<in> set (root_objects d)")
      case root: True
      then have "parent_objects d v = []" using sdag.roots_iff [OF wf] by blast
      then have "all_parents_met_convergence_criteria d st n" by (simp add: criteria_iff [OF wf] n(2))
      with root True finished vn n(2) show ?thesis by (auto simp: reached_def bfs_ready_def)
    next
      case False
      note all = unmarked_all [OF wf acyc closed v(1) False vn(1,2) True]
      have ran: "ran_to_end (st p)" if p: "p \<in> set (parent_objects d v)" for p
      proof -
        have "unified_job_template (st p) \<noteq> None"
          using cov True v(1) p unfolding convergence_covered_def by blast
        moreover have "\<not> do_not_run (st p)" using all p by simp
        moreover have "\<not> undecided (st p)" using dec [OF rtrancl.rtrancl_refl p] .
        ultimately have "wn_job (st p) \<noteq> None" by (simp add: undecided_def)
        then obtain job where job: "wn_job (st p) = Some job" by blast
        with cov True v(1) p jf par(2) [OF p] show ?thesis
          by (auto simp: ran_to_end_def convergence_covered_def jobs_finished_def job_finished_def)
      qed
      obtain p where "p \<in> set (parent_objects d v)"
        using False sdag.roots_iff [OF wf] v(1) by (cases "parent_objects d v") auto
      with all ran reach have "reached d st v" by blast
      moreover have "all_parents_met_convergence_criteria d st n"
        using all ran by (simp add: criteria_iff [OF wf] n(2))
      ultimately show ?thesis using True finished vn n(2) by (simp add: bfs_ready_def)
    qed
  qed
qed

lemma nodes_to_run_exist:
  assumes "dag_wf d" and "acyclic (succ_rel d)" and "marking_closed d st"
    and "jobs_reached d st" and "jobs_finished d st" and "convergence_covered d st"
    and "\<not> is_workflow_done d st"
  shows "bfs_nodes_to_run d st \<noteq> []"
proof -
  obtain v where v: "v \<in> set (dag_objs d)" "undecided (st v)"
    "\<forall>u. (u, v) \<in> (succ_rel d)\<^sup>+ \<longrightarrow> \<not> undecided (st u)"
    using first_undecided [OF assms(1,2,5,7)] by blast
  obtain n where n: "n \<in> set (dag_nodes d)" "node_object n = v" using entry_of_obj [OF v(1)] by blast
  from first_undecided_ready [OF assms(1-6) v n] n have "v \<in> set (bfs_nodes_to_run d st)"
    using bfs_nodes_to_run_set [OF assms(1), of st] by blast
  then show ?thesis by auto
qed

lemma marking_closed_final:
  assumes "\<forall>n \<in> set (dag_nodes d). let own = st'(node_object n := st (node_object n)) in
      (n \<in> set marked \<longleftrightarrow> marks_node d own n) \<and>
      st' (node_object n) = (if n \<in> set marked then (st (node_object n))\<lparr>do_not_run := True\<rparr>
                             else st (node_object n))"
  shows "marking_closed d st'"
  unfolding marking_closed_def
proof (intro ballI impI)
  fix n assume n: "n \<in> set (dag_nodes d)" "\<not> do_not_run (st' (node_object n))"
  from assms n(1) have
    m: "n \<in> set marked \<longleftrightarrow> marks_node d (st'(node_object n := st (node_object n))) n"
    and s: "st' (node_object n) = (if n \<in> set marked then (st (node_object n))\<lparr>do_not_run := True\<rparr>
                             else st (node_object n))" by (simp_all add: Let_def)
  from s n(2) have "n \<notin> set marked" by (auto split: if_splits)
  with s have "st' (node_object n) = st (node_object n)" by simp
  with m \<open>n \<notin> set marked\<close> show "\<not> marks_node d st' n"
    by (metis fun_upd_triv)
qed

lemma marking_keeps_fields:
  assumes wf: "dag_wf d" and acyc: "acyclic (succ_rel d)" and limit: "length (dag_nodes d) \<le> limit"
    and run: "mark_dnr_nodes limit d st = Some (ids, st')"
  shows "(\<forall>v. st' v = (if v \<in> set ids then (st v)\<lparr>do_not_run := True\<rparr> else st v)) \<and>
    marking_closed d st' \<and>
    (\<forall>v \<in> set (dag_objs d). v \<in> set ids \<longleftrightarrow>
       \<not> do_not_run (st v) \<and> wn_job (st v) = None \<and> v \<notin> set (root_objects d) \<and>
       (if all_parents_must_converge (st v)
        then \<exists>p \<in> set (parent_objects d v).
               do_not_run (st' p) \<or> (ran_to_end (st' p) \<and> \<not> taken_edge d st' p v)
        else \<forall>p \<in> set (parent_objects d v). settled (st' p) \<and> \<not> taken_edge d st' p v)) \<and>
    set ids \<subseteq> set (dag_objs d)"
proof -
  obtain marked where ids: "ids = map node_object marked" and sub: "set marked \<subseteq> set (dag_nodes d)"
    and other: "\<forall>v. v \<notin> set (dag_objs d) \<longrightarrow> st' v = st v"
    and each: "\<forall>n \<in> set (dag_nodes d). let own = st'(node_object n := st (node_object n)) in
       (n \<in> set marked \<longleftrightarrow> marks_node d own n) \<and>
       st' (node_object n) = (if n \<in> set marked then (st (node_object n))\<lparr>do_not_run := True\<rparr>
                              else st (node_object n))"
    using mark_dnr_nodes_final [OF wf acyc limit, of st] run by fastforce
  have mem: "node_object n \<in> set ids \<longleftrightarrow> n \<in> set marked" if "n \<in> set (dag_nodes d)" for n
    using sub that entry_eq [OF wf that] by (auto simp: ids)
  have ids_objs: "set ids \<subseteq> set (dag_objs d)" using sub by (auto simp: ids dag_objs_def)
  have "st' v = (if v \<in> set ids then (st v)\<lparr>do_not_run := True\<rparr> else st v)" for v
  proof (cases "v \<in> set (dag_objs d)")
    case True
    obtain n where n: "n \<in> set (dag_nodes d)" "node_object n = v" using entry_of_obj [OF True] by blast
    have "st' (node_object n) = (if n \<in> set marked
        then (st (node_object n))\<lparr>do_not_run := True\<rparr> else st (node_object n))"
      using bspec [OF each n(1)] unfolding Let_def by (rule conjunct2)
    then show ?thesis using mem [OF n(1)] unfolding n(2) by simp
  next
    case False
    with other ids_objs show ?thesis by auto
  qed
  moreover have "v \<in> set ids \<longleftrightarrow>
       \<not> do_not_run (st v) \<and> wn_job (st v) = None \<and> v \<notin> set (root_objects d) \<and>
       (if all_parents_must_converge (st v)
        then \<exists>p \<in> set (parent_objects d v).
               do_not_run (st' p) \<or> (ran_to_end (st' p) \<and> \<not> taken_edge d st' p v)
        else \<forall>p \<in> set (parent_objects d v). settled (st' p) \<and> \<not> taken_edge d st' p v)"
    if v: "v \<in> set (dag_objs d)" for v
  proof -
    obtain n where n: "n \<in> set (dag_nodes d)" "node_object n = v" using entry_of_obj [OF v] by blast
    have "n \<in> set marked \<longleftrightarrow> marks_node d (st'(node_object n := st (node_object n))) n"
      using bspec [OF each n(1)] unfolding Let_def by (rule conjunct1)
    then show ?thesis
      using mem [OF n(1)] marks_own_iff [OF wf acyc n(1) refl, of st' st] unfolding n(2) by blast
  qed
  ultimately show ?thesis using marking_closed_final [OF each] ids_objs by blast
qed

lemma marking_keeps_reached:
  assumes wf: "dag_wf d" and acyc: "acyclic (succ_rel d)" and limit: "length (dag_nodes d) \<le> limit"
    and run: "mark_dnr_nodes limit d st = Some (ids, st')" and cov: "convergence_covered d st"
  shows "reached d st v \<Longrightarrow> reached d st' v"
proof -
  note final = marking_keeps_fields [OF wf acyc limit run]
  have fields: "st' u = (if u \<in> set ids then (st u)\<lparr>do_not_run := True\<rparr> else st u)" for u
    using final by blast
  assume "reached d st v"
  then obtain r where r: "r \<in> set (root_objects d)" "(r, v) \<in> (taken_rel d st)\<^sup>*"
    by (auto simp: reached_def)
  from r(2) have "(r, v) \<in> (taken_rel d st')\<^sup>*"
  proof (induction rule: rtrancl_induct)
    case base
    then show ?case by simp
  next
    case (step y z)
    from step(2) have yz: "taken_edge d st y z" by (simp add: taken_rel_def)
    have y: "y \<in> set (dag_objs d)"
      using taken_edge_succ [OF wf yz] child_objects_objs [OF wf] by (auto simp: succ_rel_def)
    have "y \<notin> set ids"
    proof
      assume marked: "y \<in> set ids"
      with final y have m: "wn_job (st y) = None" "y \<notin> set (root_objects d)"
        "\<not> all_parents_must_converge (st y) \<Longrightarrow> \<forall>p \<in> set (parent_objects d y). \<not> taken_edge d st' p y"
        by auto
      with yz have "unified_job_template (st y) = None" by (simp add: taken_edge_def)
      with cov y have "\<not> all_parents_must_converge (st y)" by (auto simp: convergence_covered_def)
      with m(3) have none: "\<forall>p \<in> set (parent_objects d y). \<not> taken_edge d st' p y" .
      from step(3) m(2) r(1) obtain x where "taken_edge d st' x y"
        by (cases rule: rtranclE) (auto simp: taken_rel_def)
      with none sdag.preds_iff [OF wf] taken_edge_succ [OF wf] show False
        by (auto simp: succ_rel_def)
    qed
    then have "taken_edge d st' y z" using yz taken_edge_cong [of st y st'] fields by simp
    with step(3) show ?case by (auto simp: taken_rel_def intro: rtrancl.rtrancl_into_rtrancl)
  qed
  with r(1) show "reached d st' v" by (auto simp: reached_def)
qed

lemma marking_keeps_invariants:
  assumes wf: "dag_wf d" and acyc: "acyclic (succ_rel d)" and limit: "length (dag_nodes d) \<le> limit"
    and run: "mark_dnr_nodes limit d st = Some (ids, st')" and cov: "convergence_covered d st"
    and jr: "jobs_reached d st"
  shows "convergence_covered d st' \<and> jobs_reached d st' \<and> (jobs_finished d st' \<longleftrightarrow> jobs_finished d st)"
proof -
  note final = marking_keeps_fields [OF wf acyc limit run]
  have fields: "st' u = (if u \<in> set ids then (st u)\<lparr>do_not_run := True\<rparr> else st u)" for u
    using final by blast
  have same: "wn_job (st' u) = wn_job (st u)" "unified_job_template (st' u) = unified_job_template (st u)"
    "all_parents_must_converge (st' u) = all_parents_must_converge (st u)" for u
    by (simp_all add: fields)
  have "\<not> do_not_run (st' v)" if "v \<in> set (dag_objs d)" "wn_job (st v) \<noteq> None" for v
    using that final jr by (auto simp: fields jobs_reached_def)
  then show ?thesis
    using cov jr marking_keeps_reached [OF wf acyc limit run cov]
    by (auto simp: convergence_covered_def jobs_reached_def jobs_finished_def same)
qed

subsection \<open>The graph that is built\<close>

lemma init_edge_ok:
  assumes wf: "dag_wf d" and objs: "set (dag_objs d) = set ns"
    and ends: "fst e \<in> set ns" "snd e \<in> set ns"
  shows "\<exists>d'. init_edge ns l e d = Some d' \<and> dag_wf d' \<and> dag_objs d' = dag_objs d \<and>
    (\<forall>m x y. has_edge d' m x y \<longleftrightarrow> has_edge d m x y \<or> m = l \<and> (x, y) = e)"
proof -
  obtain i j where ij: "find_ord d (fst e) = Some i" "find_ord d (snd e) = Some j"
    using ends objs wf_find_ord_None [OF wf] by fastforce
  let ?d = "snd (add_edge (fst e) (snd e) l d)"
  have add: "init_edge ns l e d = Some ?d"
    using ends by (simp add: init_edge_def add_edge_ok [OF ij])
  moreover have "dag_objs ?d = dag_objs d" by (simp add: add_edge_ok [OF ij] dag_objs_def)
  ultimately show ?thesis
    using dag_wf_add_edge [OF wf ij] has_edge_add_edge [OF wf ij] by (cases e) auto
qed

lemma init_edges:
  "dag_wf d \<Longrightarrow> set (dag_objs d) = set ns \<Longrightarrow>
    (if fst ` set es \<union> snd ` set es \<subseteq> set ns
     then \<exists>d'. fold_opt (init_edge ns l) es d = Some d' \<and> dag_wf d' \<and> dag_objs d' = dag_objs d \<and>
            (\<forall>m x y. has_edge d' m x y \<longleftrightarrow> has_edge d m x y \<or> m = l \<and> (x, y) \<in> set es)
     else fold_opt (init_edge ns l) es d = None)"
proof (induction es arbitrary: d)
  case Nil
  then show ?case by simp
next
  case (Cons e es)
  show ?case
  proof (cases "fst e \<in> set ns \<and> snd e \<in> set ns")
    case True
    then obtain d' where d': "init_edge ns l e d = Some d'" "dag_wf d'" "dag_objs d' = dag_objs d"
      "\<forall>m x y. has_edge d' m x y \<longleftrightarrow> has_edge d m x y \<or> m = l \<and> (x, y) = e"
      using init_edge_ok [OF Cons.prems, of e l] by blast
    have "set (dag_objs d') = set ns" using d'(3) Cons.prems(2) by simp
    from Cons.IH [OF d'(2) this] d' True show ?thesis by (auto split: if_splits)
  next
    case False
    then show ?thesis by (auto simp: init_edge_def)
  qed
qed

lemma init_nodes:
  "dag_wf d \<Longrightarrow> (\<forall>l x y. \<not> has_edge d l x y) \<Longrightarrow>
     dag_wf (fold (\<lambda>n. add_node n None) ns d) \<and>
     set (dag_objs (fold (\<lambda>n. add_node n None) ns d)) = set (dag_objs d) \<union> set ns \<and>
     (\<forall>l x y. \<not> has_edge (fold (\<lambda>n. add_node n None) ns d) l x y)"
proof (induction ns arbitrary: d)
  case Nil
  then show ?case by simp
next
  case (Cons n ns)
  have wf: "dag_wf (add_node n None d)" by (rule dag_wf_add_node [OF Cons.prems(1)])
  have none: "\<forall>l x y. \<not> has_edge (add_node n None d) l x y"
  proof (intro allI notI)
    fix l x y assume "has_edge (add_node n None d) l x y"
    then obtain i j where ij: "find_ord (add_node n None d) x = Some i"
      "find_ord (add_node n None d) y = Some j"
      "j \<in> set (edges_at (node_from_edges_by_label d) l (Some i))"
      by (auto simp: has_edge_def add_node_def Let_def split: if_splits)
    from wf_edge_range [OF Cons.prems(1) ij(3)] ij(1,2) have "find_ord d x = Some i" "find_ord d y = Some j"
      by (auto simp: find_ord_add_node split: if_splits)
    with ij(3) Cons.prems(2) show False by (auto simp: has_edge_def)
  qed
  from Cons.IH [OF wf none] wf_find_ord_None [OF Cons.prems(1), of n] show ?case
    by (auto simp: add_node_dag_objs)
qed

lemma has_edge_empty: "\<not> has_edge empty_dag l x y"
  by (simp add: has_edge_def find_ord_def empty_dag_def)

lemma dag_objs_empty: "dag_objs empty_dag = []"
  by (simp add: dag_objs_def empty_dag_def)

lemma init_edges_ok:
  assumes "dag_wf d" and "set (dag_objs d) = set ns" and "fst ` set es \<union> snd ` set es \<subseteq> set ns"
  shows "\<exists>d'. fold_opt (init_edge ns l) es d = Some d' \<and> dag_wf d' \<and> set (dag_objs d') = set ns \<and>
    {(m, x, y). has_edge d' m x y} = {(m, x, y). has_edge d m x y} \<union> {l} \<times> set es"
proof -
  obtain d' where "fold_opt (init_edge ns l) es d = Some d'" "dag_wf d'" "dag_objs d' = dag_objs d"
    and e: "\<forall>m x y. has_edge d' m x y \<longleftrightarrow> has_edge d m x y \<or> m = l \<and> (x, y) \<in> set es"
    using init_edges [OF assms(1,2), of es l] assms(3) by (simp only: if_True) blast
  moreover have "{(m, x, y). has_edge d' m x y} = {(m, x, y). has_edge d m x y} \<union> {l} \<times> set es"
    using e by auto
  ultimately show ?thesis using assms(2) by (intro exI [of _ d']) simp
qed

lemma init_edges_error:
  assumes "dag_wf d" and "set (dag_objs d) = set ns" and "\<not> fst ` set es \<union> snd ` set es \<subseteq> set ns"
  shows "fold_opt (init_edge ns l) es d = None"
  using init_edges [OF assms(1,2), of es l] assms(3) by (simp only: if_False)

definition edge_ends :: "(int \<times> int) list \<Rightarrow> int set" where
  "edge_ends es = fst ` set es \<union> snd ` set es"

lemma init_graph_cases:
  "if edge_ends (success @ failure @ always) \<subseteq> set ns
    then \<exists>d. init_graph ns success failure always = Some d \<and> dag_wf d \<and> set (dag_objs d) = set ns \<and>
      {(l, x, y). has_edge d l x y} =
        {success_nodes} \<times> set success \<union> {failure_nodes} \<times> set failure \<union> {always_nodes} \<times> set always
    else init_graph ns success failure always = None"
proof -
  define d0 where "d0 = fold (\<lambda>n. add_node n None) ns (empty_dag :: wf_dag)"
  have d0: "dag_wf d0" "set (dag_objs d0) = set ns" and none: "{(m, x, y). has_edge d0 m x y} = {}"
    using init_nodes [of "empty_dag :: wf_dag" ns, OF dag_wf_empty] unfolding d0_def
    by (simp_all add: has_edge_empty dag_objs_empty)
  have graph: "init_graph ns success failure always =
      Option.bind (fold_opt (init_edge ns success_nodes) success d0) (\<lambda>d1.
      Option.bind (fold_opt (init_edge ns failure_nodes) failure d1) (\<lambda>d2.
      fold_opt (init_edge ns always_nodes) always d2))"
    by (simp add: init_graph_def d0_def)
  have ends: "edge_ends (success @ failure @ always) \<subseteq> set ns \<longleftrightarrow>
      edge_ends success \<subseteq> set ns \<and> edge_ends failure \<subseteq> set ns \<and> edge_ends always \<subseteq> set ns"
    by (auto simp: edge_ends_def)
  note ok = init_edges_ok [folded edge_ends_def] and error = init_edges_error [folded edge_ends_def]
  show ?thesis
  proof (cases "edge_ends success \<subseteq> set ns")
    case False
    then show ?thesis by (simp add: graph ends error [OF d0 False])
  next
    case True
    from ok [OF d0 True, of success_nodes] obtain d1 where
      d1: "fold_opt (init_edge ns success_nodes) success d0 = Some d1" "dag_wf d1"
        "set (dag_objs d1) = set ns" "{(m, x, y). has_edge d1 m x y} = {success_nodes} \<times> set success"
      by (auto simp: none)
    show ?thesis
    proof (cases "edge_ends failure \<subseteq> set ns")
      case False
      then show ?thesis by (simp add: graph ends d1(1) error [OF d1(2,3) False])
    next
      case failure: True
      from ok [OF d1(2,3) failure, of failure_nodes] obtain d2 where
        d2: "fold_opt (init_edge ns failure_nodes) failure d1 = Some d2" "dag_wf d2"
          "set (dag_objs d2) = set ns"
          "{(m, x, y). has_edge d2 m x y} = {success_nodes} \<times> set success \<union> {failure_nodes} \<times> set failure"
        by (auto simp: d1(4))
      show ?thesis
        using ok [OF d2(2,3), of always always_nodes] error [OF d2(2,3), of always always_nodes]
        unfolding ends d2(4) by (simp add: graph d1(1) d2(1) True failure)
    qed
  qed
qed

subsection \<open>Properties\<close>

text \<open>
  Building the workflow graph succeeds exactly when every edge of the three queries joins two
  nodes of the node query; then the graph is well formed, its objects are the nodes, and its
  edges are the queried ones, each under its label.
\<close>

theorem init_graph_refines:
  "(init_graph ns success failure always \<noteq> None) =
     (edge_ends (success @ failure @ always) \<subseteq> set ns) \<and>
   pred_option (\<lambda>d. dag_wf d \<and> set (dag_objs d) = set ns \<and>
      {(l, x, y). has_edge d l x y} =
        {success_nodes} \<times> set success \<union> {failure_nodes} \<times> set failure \<union> {always_nodes} \<times> set always)
     (init_graph ns success failure always)"
  using init_graph_cases [of success failure always ns]
  by (cases "edge_ends (success @ failure @ always) \<subseteq> set ns") (simp_all only: if_True if_False, auto)

text \<open>
  C11: \<open>bfs_nodes_to_run\<close> returns, once each, exactly the nodes that have a template and neither a
  job nor a mark, that are reached from a root over edges the outcomes of their sources take,
  whose parents are all marked, without template or finished, and, when all parents must
  converge, whose successful or failed parents all took an edge to them.
\<close>

theorem bfs_nodes_to_run_exact:
  assumes wf: "dag_wf d"
  shows "distinct (bfs_nodes_to_run d st) \<and>
    (v \<in> set (bfs_nodes_to_run d st) \<longleftrightarrow>
       reached d st v \<and> undecided (st v) \<and>
       (\<forall>p \<in> set (parent_objects d v).
          do_not_run (st p) \<or> unified_job_template (st p) = None \<or>
          (\<exists>job. wn_job (st p) = Some job \<and> job_finished (wfj_status job))) \<and>
       (all_parents_must_converge (st v) \<longrightarrow> (\<forall>p \<in> set (parent_objects d v). ran_to_end (st p) \<longrightarrow>
          taken_edge d (st(p := (st p)\<lparr>do_not_run := False\<rparr>)) p v)))"
proof -
  have crit: "all_parents_met_convergence_criteria d st n \<longleftrightarrow>
      (\<forall>p \<in> set (parent_objects d (node_object n)). ran_to_end (st p) \<longrightarrow>
          taken_edge d (st(p := (st p)\<lparr>do_not_run := False\<rparr>)) p (node_object n))" for n
  proof -
    have "taken_edge d (st(p := (st p)\<lparr>do_not_run := False\<rparr>)) p (node_object n) =
        taken_edge d st p (node_object n)" if "\<not> do_not_run (st p)" for p
      using that by (intro taken_edge_cong) simp
    then show ?thesis unfolding criteria_iff [OF wf] by blast
  qed
  have "bfs_ready d st n \<longleftrightarrow> undecided (st (node_object n)) \<and> are_relevant_parents_finished d st n \<and>
      (all_parents_must_converge (st (node_object n)) \<longrightarrow> all_parents_met_convergence_criteria d st n)" for n
    by (auto simp: bfs_ready_def undecided_def Let_def)
  then show ?thesis
    using bfs_nodes_to_run_set [OF wf, of st] reached_objs [OF wf, of st v]
    by (auto simp: crit parents_finished_iff dag_objs_def)
qed

text \<open>
  C10: On an acyclic graph, with a recursion limit of at least its number of nodes,
  \<open>mark_dnr_nodes\<close> returns the nodes it marks, changes nothing but their \<open>do_not_run\<close>, and in the
  store it leaves the marks solve the marking rule: an unmarked non-root node without job is
  marked iff (all parents must converge) some parent is marked or ran to its end without taking
  an edge to it, or (any parent) every parent is settled and took no edge to it.
\<close>

theorem mark_dnr_nodes_solves:
  assumes "dag_wf d" and "acyclic (succ_rel d)" and "length (dag_nodes d) \<le> limit"
  shows "\<exists>ids st'. mark_dnr_nodes limit d st = Some (ids, st') \<and>
    (\<forall>v. st' v = (if v \<in> set ids then (st v)\<lparr>do_not_run := True\<rparr> else st v)) \<and>
    (\<forall>v. v \<in> set ids \<longleftrightarrow> v \<in> set (dag_objs d) \<and>
       \<not> do_not_run (st v) \<and> wn_job (st v) = None \<and> v \<notin> set (root_objects d) \<and>
       (if all_parents_must_converge (st v)
        then \<exists>p \<in> set (parent_objects d v).
               do_not_run (st' p) \<or> (ran_to_end (st' p) \<and> \<not> taken_edge d st' p v)
        else \<forall>p \<in> set (parent_objects d v). settled (st' p) \<and> \<not> taken_edge d st' p v))"
proof -
  obtain ids st' where run: "mark_dnr_nodes limit d st = Some (ids, st')"
    using mark_dnr_nodes_final [OF assms] by blast
  show ?thesis
    using marking_keeps_fields [OF assms run] by (intro exI [of _ ids] exI [of _ st'] conjI run) blast+
qed

text \<open>
  C1: Progress. Take an acyclic workflow graph in which only reached nodes carry a job
  (\<open>jobs_reached\<close>) and where the convergence test covers the nodes that wait for all their parents:
  such a node and its parents have templates, and no parent's job is in error or canceled
  (\<open>convergence_covered\<close>). Then one round of marking ends, and after it the workflow is done, or some
  node is to run, or a job of the workflow is still unfinished: the workflow manager never waits
  for nothing. While a job runs, the third case is the ordinary one; once all jobs are
  finished, it is excluded.
\<close>

theorem workflow_progress:
  assumes "dag_wf d" and "acyclic (succ_rel d)" and "length (dag_nodes d) \<le> limit"
    and "jobs_reached d st" and "convergence_covered d st"
  shows "\<exists>ids st'. mark_dnr_nodes limit d st = Some (ids, st') \<and>
    (is_workflow_done d st' \<or> bfs_nodes_to_run d st' \<noteq> [] \<or>
     (\<exists>v \<in> set (dag_objs d). \<exists>job. wn_job (st v) = Some job \<and> \<not> job_finished (wfj_status job)))"
proof -
  obtain ids st' where run: "mark_dnr_nodes limit d st = Some (ids, st')"
    using mark_dnr_nodes_final [OF assms(1-3)] by blast
  have "marking_closed d st'" using marking_keeps_fields [OF assms(1-3) run] by blast
  moreover have "convergence_covered d st' \<and> jobs_reached d st' \<and> (jobs_finished d st' \<longleftrightarrow> jobs_finished d st)"
    by (rule marking_keeps_invariants [OF assms(1-3) run assms(5,4)])
  ultimately have "jobs_finished d st \<Longrightarrow> \<not> is_workflow_done d st' \<Longrightarrow> bfs_nodes_to_run d st' \<noteq> []"
    using nodes_to_run_exist [OF assms(1,2)] by blast
  then show ?thesis using run unfolding jobs_finished_def by blast
qed

text \<open>
  A workflow that is done has nothing left to run, and canceling it touches no job:
  \<open>cancel_node_jobs\<close> answers that the cancelation is finished and leaves the store as it was.
\<close>

theorem done_workflow_is_quiet:
  assumes "dag_wf d" and "is_workflow_done d st"
  shows "bfs_nodes_to_run d st = [] \<and> cancel_node_jobs d st = (True, st)"
proof
  have dec: "\<not> undecided (st v)" if "v \<in> set (dag_objs d)" for v
    using assms(2) that by (fastforce simp: concluded_iff undecided_def split: option.splits)
  show "bfs_nodes_to_run d st = []"
  proof (rule ccontr)
    assume "bfs_nodes_to_run d st \<noteq> []"
    then have "hd (bfs_nodes_to_run d st) \<in> set (bfs_nodes_to_run d st)" by (rule hd_in_set)
    then obtain n where n: "n \<in> set (dag_nodes d)" "bfs_ready d st n"
      unfolding bfs_nodes_to_run_set [OF assms(1), of st, THEN conjunct1] by blast
    have "undecided (st (node_object n))" unfolding undecided_def by (rule bfs_ready_undecided [OF n(2)])
    moreover have "node_object n \<in> set (dag_objs d)" using n(1) by (simp add: dag_objs_def)
    ultimately show False using dec by blast
  qed
  have "cancel_loop ns c st = (c, st)" if "set ns \<subseteq> set (dag_nodes d)" for ns c
    using that assms(2)
    by (induction ns) (auto simp: concluded_iff dag_objs_def can_cancel_def Let_def job_finished_iff
        split: option.splits)
  then show "cancel_node_jobs d st = (True, st)" by (simp add: cancel_node_jobs_def)
qed

subsection \<open>Concrete workflows\<close>

text \<open>
  \<open>fork_graph\<close>: node 1 leads to 2 on success and to 3 on failure, 2 leads to 4 on success and 3
  leads to 4 always. In \<open>fork_store\<close> the job of node 1 was successful.
\<close>

definition fork_graph :: wf_dag where
  "fork_graph = the (init_graph [1, 2, 3, 4] [(1, 2), (2, 4)] [(1, 3)] [(3, 4)])"

definition job_in :: "job_status \<Rightarrow> wf_job" where
  "job_in s = \<lparr>wfj_status = s, wfj_cancel_flag = False, wfj_celery_task = True\<rparr>"

definition node_with :: "wf_job option \<Rightarrow> bool \<Rightarrow> wf_node" where
  "node_with job all_conv = \<lparr>do_not_run = False, wn_job = job, unified_job_template = Some 7,
     all_parents_must_converge = all_conv\<rparr>"

definition fork_store :: wf_store where
  "fork_store = (\<lambda>v. node_with (if v = 1 then Some (job_in Successful) else None) (v = 2))"

text \<open>
  \<open>error_graph\<close>: node 2 waits for all its parents, of which there is one, on success; the job of
  that parent ended in error. In \<open>error_join_graph\<close> node 3 has a second parent, whose job was
  successful.
\<close>

definition error_graph :: wf_dag where "error_graph = the (init_graph [1, 2] [(1, 2)] [] [])"

definition error_join_graph :: wf_dag where
  "error_join_graph = the (init_graph [1, 2, 3] [(1, 3), (2, 3)] [] [])"

definition error_store :: "job_status \<Rightarrow> wf_store" where
  "error_store s = (\<lambda>v. node_with (if v = 1 then Some (job_in s) else None) True)"

definition error_join_store :: "job_status \<Rightarrow> wf_store" where
  "error_join_store s = (\<lambda>v. node_with (if v = 1 then Some (job_in s)
     else if v = 2 then Some (job_in Successful) else None) True)"

lemmas graph_eval = init_graph_def init_edge_def dag_eval success_nodes_def failure_nodes_def
  always_nodes_def

lemma fork_graph_eq:
  "fork_graph = \<lparr>dag_nodes = map (\<lambda>v. \<lparr>node_object = v, metadata = None\<rparr>) [1, 2, 3, 4],
     root_nodes = [0], node_obj_to_node_index = [(1, 0), (2, 1), (3, 2), (4, 3)],
     node_from_edges_by_label = [(''success_nodes'', [(0, [1]), (1, [3])]),
       (''failure_nodes'', [(0, [2])]), (''always_nodes'', [(2, [3])])],
     node_to_edges_by_label = [(''success_nodes'', [(1, [0]), (3, [1])]),
       (''failure_nodes'', [(2, [0])]), (''always_nodes'', [(3, [2])])]\<rparr>"
  by (simp add: fork_graph_def graph_eval)

lemma error_graph_eq:
  "error_graph = \<lparr>dag_nodes = map (\<lambda>v. \<lparr>node_object = v, metadata = None\<rparr>) [1, 2],
     root_nodes = [0], node_obj_to_node_index = [(1, 0), (2, 1)],
     node_from_edges_by_label = [(''success_nodes'', [(0, [1])])],
     node_to_edges_by_label = [(''success_nodes'', [(1, [0])])]\<rparr>"
  by (simp add: error_graph_def graph_eval)

lemma error_join_graph_eq:
  "error_join_graph = \<lparr>dag_nodes = map (\<lambda>v. \<lparr>node_object = v, metadata = None\<rparr>) [1, 2, 3],
     root_nodes = [0, 1], node_obj_to_node_index = [(1, 0), (2, 1), (3, 2)],
     node_from_edges_by_label = [(''success_nodes'', [(0, [2]), (1, [2])])],
     node_to_edges_by_label = [(''success_nodes'', [(2, [0, 1])])]\<rparr>"
  by (simp add: error_join_graph_def graph_eval)

lemmas graph_walk = get_children_def get_parents_def get_children_by_label_def get_parents_by_label_def
  nodes_at_def edges_at_def find_ord_def dict_get_default_def parent_objects_def get_root_nodes_def
  success_nodes_def failure_nodes_def always_nodes_def

lemmas run_eval = bfs_nodes_to_run_def bfs_children_def bfs_ready_def are_relevant_parents_finished_def
  all_parents_met_convergence_criteria_def Let_def node_with_def job_in_def

lemma bfs_error_graph: "bfs_nodes_to_run error_graph (error_store Error) = []"
  by (simp add: run_eval error_graph_eq graph_walk error_store_def)

lemma bfs_error_join_graph: "bfs_nodes_to_run error_join_graph (error_join_store Error) = [3]"
  by (simp add: run_eval error_join_graph_eq graph_walk error_join_store_def)

lemma bfs_fork_graph: "bfs_nodes_to_run fork_graph fork_store = [2]"
  by (simp add: run_eval fork_graph_eq graph_walk fork_store_def)

lemma built_graph:
  assumes "init_graph ns success failure always \<noteq> None"
    and "d = the (init_graph ns success failure always)"
  shows "dag_wf d" and "set (dag_objs d) = set ns" and "succ_rel d = set success \<union> set failure \<union> set always"
    and "has_edge d l x y \<longleftrightarrow> l = success_nodes \<and> (x, y) \<in> set success \<or>
      l = failure_nodes \<and> (x, y) \<in> set failure \<or> l = always_nodes \<and> (x, y) \<in> set always"
proof -
  have d: "dag_wf d" "set (dag_objs d) = set ns" "{(l, x, y). has_edge d l x y} =
      {success_nodes} \<times> set success \<union> {failure_nodes} \<times> set failure \<union> {always_nodes} \<times> set always"
    using init_graph_cases [of success failure always ns] assms by (auto split: if_splits)
  show "dag_wf d" "set (dag_objs d) = set ns" by (fact d)+
  show edges: "has_edge d l x y \<longleftrightarrow> l = success_nodes \<and> (x, y) \<in> set success \<or>
      l = failure_nodes \<and> (x, y) \<in> set failure \<or> l = always_nodes \<and> (x, y) \<in> set always" for l x y
  proof -
    have "has_edge d l x y \<longleftrightarrow> (l, x, y) \<in> {(l, x, y). has_edge d l x y}" by simp
    then show ?thesis unfolding d(3) by simp
  qed
  show "succ_rel d = set success \<union> set failure \<union> set always"
    by (auto simp: succ_rel_def child_objects_iff [OF d(1)] edges)
qed

lemma ascending_acyclic:
  assumes "\<And>x y. (x, y) \<in> r \<Longrightarrow> x < (y :: int)"
  shows "acyclic r"
proof -
  have "trans {(x, y). x < (y :: int)}" by (auto intro: transI)
  then have "acyclic {(x, y). x < (y :: int)}" by (auto simp: acyclic_def)
  then show ?thesis by (rule acyclic_subset) (use assms in auto)
qed

lemma fork_built: "init_graph [1, 2, 3, 4] [(1, 2), (2, 4)] [(1, 3)] [(3, 4)] \<noteq> None"
  and error_built: "init_graph [1, 2] [(1, 2)] [] [] \<noteq> None"
  and error_join_built: "init_graph [1, 2, 3] [(1, 3), (2, 3)] [] [] \<noteq> None"
  by (simp_all add: graph_eval)

lemmas fork_facts = built_graph [OF fork_built fork_graph_def]
lemmas error_facts = built_graph [OF error_built error_graph_def]
lemmas error_join_facts = built_graph [OF error_join_built error_join_graph_def]

lemma concrete_acyclic:
  "acyclic (succ_rel fork_graph)" "acyclic (succ_rel error_graph)" "acyclic (succ_rel error_join_graph)"
  by (rule ascending_acyclic; auto simp: fork_facts(3) error_facts(3) error_join_facts(3))+

lemma concrete_walk:
  "root_objects error_graph = [1]" "parent_objects error_graph 2 = [1]"
  "root_objects error_join_graph = [1, 2]" "parent_objects error_join_graph 3 = [1, 2]"
  "root_objects fork_graph = [1]" "parent_objects fork_graph 2 = [1]"
  "parent_objects fork_graph 3 = [1]" "parent_objects fork_graph 4 = [2, 3]"
  by (simp_all add: root_objects_def error_graph_eq error_join_graph_eq fork_graph_eq graph_walk)

lemma concrete_length:
  "length (dag_nodes error_graph) = 2" "length (dag_nodes error_join_graph) = 3"
  "length (dag_nodes fork_graph) = 4"
  by (simp_all add: error_graph_eq error_join_graph_eq fork_graph_eq)

lemma mark_error_graph:
  "mark_dnr_nodes (limit + 2) error_graph (error_store Error) = Some ([], error_store Error)"
proof -
  let ?st = "error_store Error"
  have limit: "length (dag_nodes error_graph) \<le> limit + 2" by (simp add: concrete_length)
  obtain ids st' where run: "mark_dnr_nodes (limit + 2) error_graph ?st = Some (ids, st')"
    using mark_dnr_nodes_final [OF error_facts(1) concrete_acyclic(2) limit] by blast
  note final = marking_keeps_fields [OF error_facts(1) concrete_acyclic(2) limit run]
  have one: "1 \<notin> set ids" using final error_facts(2) concrete_walk(1) by simp
  then have "st' 1 = ?st 1" using final by simp
  then have "2 \<notin> set ids" using final error_facts(2) concrete_walk(2)
    by (simp add: error_store_def node_with_def job_in_def ran_to_end_def)
  with one final error_facts(2) have "ids = []" by (cases ids) auto
  moreover from this final have "st' = ?st" by (intro ext) simp
  ultimately show ?thesis using run by simp
qed

text \<open>
  The convergence test passes over parents whose job ended in error or was canceled. In a
  workflow of two nodes, where the second waits for all its parents and hangs on the success of
  the first, whose job ended in error, the marking marks nothing, the search finds nothing, and
  the workflow is not done: the round changes nothing and the next rounds repeat it. With a second parent that
  succeeded, the node runs although the path from the first was not taken.
\<close>

theorem errored_parent_defeats_convergence:
  "mark_dnr_nodes (limit + 2) error_graph (error_store Error) = Some ([], error_store Error) \<and>
   bfs_nodes_to_run error_graph (error_store Error) = [] \<and>
   \<not> is_workflow_done error_graph (error_store Error) \<and>
   bfs_nodes_to_run error_join_graph (error_join_store Error) = [3] \<and>
   \<not> taken_edge error_join_graph (error_join_store Error) 1 3"
proof (intro conjI)
  show "\<not> is_workflow_done error_graph (error_store Error)"
    by (simp add: is_workflow_done_def error_graph_eq error_store_def node_with_def)
  show "\<not> taken_edge error_join_graph (error_join_store Error) 1 3"
    by (simp add: taken_edge_def error_join_store_def node_with_def job_in_def error_join_facts)
qed (fact mark_error_graph bfs_error_graph bfs_error_join_graph)+

subsection \<open>Witnesses\<close>

theorem bfs_nodes_to_run_exact_witness:
  "bfs_nodes_to_run fork_graph fork_store = [2] \<and> reached fork_graph fork_store 2"
  using bfs_nodes_to_run_exact [OF fork_facts(1), of fork_store 2] by (simp add: bfs_fork_graph)

theorem mark_dnr_nodes_solves_witness:
  "\<exists>st'. mark_dnr_nodes 4 fork_graph fork_store \<noteq> None \<and>
     (case mark_dnr_nodes 4 fork_graph fork_store of
        Some (ids, st'') \<Rightarrow> st'' = st' \<and> 3 \<in> set ids \<and> 1 \<notin> set ids \<and> 2 \<notin> set ids
      | None \<Rightarrow> False)"
proof -
  have "length (dag_nodes fork_graph) \<le> 4" by (simp add: concrete_length)
  from mark_dnr_nodes_solves [OF fork_facts(1) concrete_acyclic(1) this, of fork_store]
  obtain ids st' where r: "mark_dnr_nodes 4 fork_graph fork_store = Some (ids, st')"
    and st': "\<forall>v. st' v = (if v \<in> set ids then (fork_store v)\<lparr>do_not_run := True\<rparr> else fork_store v)"
    and ids: "\<forall>v. v \<in> set ids \<longleftrightarrow> v \<in> set (dag_objs fork_graph) \<and>
       \<not> do_not_run (fork_store v) \<and> wn_job (fork_store v) = None \<and> v \<notin> set (root_objects fork_graph) \<and>
       (if all_parents_must_converge (fork_store v)
        then \<exists>p \<in> set (parent_objects fork_graph v).
               do_not_run (st' p) \<or> (ran_to_end (st' p) \<and> \<not> taken_edge fork_graph st' p v)
        else \<forall>p \<in> set (parent_objects fork_graph v). settled (st' p) \<and> \<not> taken_edge fork_graph st' p v)"
    by blast
  have one: "1 \<notin> set ids" using ids [rule_format, of 1] by (simp add: concrete_walk)
  then have "st' 1 = fork_store 1" using st' by simp
  then have "3 \<in> set ids" "2 \<notin> set ids"
    using ids [rule_format, of 3] ids [rule_format, of 2]
    by (simp_all add: concrete_walk fork_facts fork_store_def node_with_def job_in_def settled_def
        taken_edge_def job_finished_def)
  with one r show ?thesis by simp
qed

lemma fork_store_rounds:
  "jobs_reached fork_graph fork_store \<and> jobs_finished fork_graph fork_store \<and>
   convergence_covered fork_graph fork_store"
proof (intro conjI)
  have "reached fork_graph fork_store 1" by (auto simp: reached_def concrete_walk)
  then show "jobs_reached fork_graph fork_store"
    by (auto simp: jobs_reached_def fork_store_def node_with_def)
  show "jobs_finished fork_graph fork_store"
    by (simp add: jobs_finished_def fork_store_def node_with_def job_in_def job_finished_def)
  show "convergence_covered fork_graph fork_store"
    by (auto simp: convergence_covered_def fork_store_def node_with_def job_in_def concrete_walk)
qed

theorem workflow_progress_witness:
  "\<exists>ids st'. mark_dnr_nodes 4 fork_graph fork_store = Some (ids, st') \<and>
    (is_workflow_done fork_graph st' \<or> bfs_nodes_to_run fork_graph st' \<noteq> [])"
  using workflow_progress [OF fork_facts(1) concrete_acyclic(1)] fork_store_rounds
  unfolding jobs_finished_def by (fastforce simp: concrete_length)

definition over_store :: wf_store where
  "over_store = (\<lambda>v. (node_with (if v = 1 then Some (job_in Failed) else None) False)\<lparr>do_not_run := v \<noteq> 1\<rparr>)"

theorem done_workflow_is_quiet_witness:
  "bfs_nodes_to_run fork_graph over_store = [] \<and> cancel_node_jobs fork_graph over_store = (True, over_store)"
  by (rule done_workflow_is_quiet [OF fork_facts(1)])
    (simp add: is_workflow_done_def fork_graph_eq over_store_def node_with_def job_in_def)

subsection \<open>Failure and cancelation\<close>

lemma failed_nodes_iff:
  "has_workflow_failed d st = (True, msg) \<Longrightarrow> \<exists>n \<in> set (failed_nodes d st). no_error_path d n"
  "fst (has_workflow_failed d st) \<longleftrightarrow> (\<exists>n \<in> set (failed_nodes d st). no_error_path d n)"
  by (auto simp: has_workflow_failed_def Let_def filter_empty_conv split: if_splits)

lemma no_error_path_iff:
  assumes "dag_wf d"
  shows "no_error_path d n \<longleftrightarrow>
    (\<forall>w. \<not> has_edge d failure_nodes (node_object n) w \<and> \<not> has_edge d always_nodes (node_object n) w)"
proof -
  have "get_children d (node_object n) (Some l) = [] \<longleftrightarrow> (\<forall>w. \<not> has_edge d l (node_object n) w)"
    if "l \<noteq> ''''" for l
  proof -
    have "get_children d (node_object n) (Some l) = [] \<longleftrightarrow>
        (\<forall>e. e \<notin> set (get_children d (node_object n) (Some l)))" by (cases "get_children d (node_object n) (Some l)") auto
    then show ?thesis
      using has_edge_objs [OF assms] entry_of_obj [of _ d]
      by (auto simp: set_get_children_label [OF assms that]) metis
  qed
  then show ?thesis by (auto simp: no_error_path_def)
qed

text \<open>
  The workflow has failed iff some node counts as failed (its template is gone and it is not
  marked, or its job failed, was canceled or ended in error) and no failure or always edge leaves
  it; only then is there an explanation.
\<close>

theorem has_workflow_failed_iff:
  assumes "dag_wf d"
  shows "(fst (has_workflow_failed d st) \<longleftrightarrow> (\<exists>v \<in> set (dag_objs d).
      (\<not> do_not_run (st v) \<and> unified_job_template (st v) = None \<or>
       (\<exists>job. wn_job (st v) = Some job \<and> wfj_status job \<in> {Failed, Canceled, Error})) \<and>
      (\<forall>w. \<not> has_edge d failure_nodes v w \<and> \<not> has_edge d always_nodes v w))) \<and>
    (fst (has_workflow_failed d st) \<longleftrightarrow> snd (has_workflow_failed d st) \<noteq> None)"
proof
  show "fst (has_workflow_failed d st) \<longleftrightarrow> (\<exists>v \<in> set (dag_objs d).
      (\<not> do_not_run (st v) \<and> unified_job_template (st v) = None \<or>
       (\<exists>job. wn_job (st v) = Some job \<and> wfj_status job \<in> {Failed, Canceled, Error})) \<and>
      (\<forall>w. \<not> has_edge d failure_nodes v w \<and> \<not> has_edge d always_nodes v w))"
    unfolding failed_nodes_iff(2)
    by (auto simp: failed_nodes_def no_error_path_iff [OF assms] dag_objs_def Let_def
        split: option.splits)
  show "fst (has_workflow_failed d st) \<longleftrightarrow> snd (has_workflow_failed d st) \<noteq> None"
    by (simp add: has_workflow_failed_def Let_def)
qed

lemma same_job: "wn_job r = j \<Longrightarrow> r\<lparr>wn_job := j\<rparr> = r"
  by (cases r) simp

lemma cancel_finished_job: "\<not> can_cancel job \<Longrightarrow> cancel_job job = job"
  by (simp add: cancel_job_def)

lemma cancel_loop_jobs:
  "distinct (map node_object ns) \<Longrightarrow>
    snd (cancel_loop ns b st) v =
      (if v \<in> node_object ` set ns then (st v)\<lparr>wn_job := map_option cancel_job (wn_job (st v))\<rparr> else st v) \<and>
    fst (cancel_loop ns b st) = (b \<and> (\<forall>n \<in> set ns. \<forall>job. wn_job (st (node_object n)) = Some job \<longrightarrow> \<not> can_cancel job))"
proof (induction ns arbitrary: b st)
  case Nil
  then show ?case by simp
next
  case (Cons n ns)
  then show ?case
    by (cases "wn_job (st (node_object n))")
      (auto simp: Let_def image_iff same_job cancel_finished_job)
qed

text \<open>
  \<open>cancel_node_jobs\<close> cancels the job of every node of the graph and touches nothing else; it
  answers true iff no job was active. Afterwards each job is over or has its cancel flag set, and
  a job that was over is unchanged.
\<close>

theorem cancel_node_jobs_spec:
  assumes "dag_wf d"
  shows "(fst (cancel_node_jobs d st) \<longleftrightarrow>
      (\<forall>v \<in> set (dag_objs d). \<forall>job. wn_job (st v) = Some job \<longrightarrow> job_finished (wfj_status job))) \<and>
    (\<forall>v. v \<notin> set (dag_objs d) \<longrightarrow> snd (cancel_node_jobs d st) v = st v) \<and>
    (\<forall>v \<in> set (dag_objs d). \<forall>job. wn_job (st v) = Some job \<longrightarrow>
       (\<exists>job'. snd (cancel_node_jobs d st) v = (st v)\<lparr>wn_job := Some job'\<rparr> \<and>
          (if job_finished (wfj_status job) then job' = job
           else wfj_cancel_flag job' \<and> wfj_celery_task job' = wfj_celery_task job \<and>
             wfj_status job' = (if wfj_celery_task job then wfj_status job else Canceled))))"
proof -
  have d: "distinct (map node_object (dag_nodes d))" using assms by (simp add: dag_wf_def dag_objs_def)
  show ?thesis
    using cancel_loop_jobs [OF d, of True st]
    by (auto simp: cancel_node_jobs_def dag_objs_def cancel_job_def can_cancel_def job_finished_iff Let_def)
qed

theorem has_workflow_failed_iff_witness:
  "fst (has_workflow_failed error_graph (error_store Error))"
  using has_workflow_failed_iff [OF error_facts(1), of "error_store Error"]
  by (simp add: error_facts error_store_def node_with_def job_in_def)

theorem cancel_node_jobs_spec_witness:
  "\<not> fst (cancel_node_jobs error_graph (error_store Running)) \<and>
   (\<exists>job. wn_job (snd (cancel_node_jobs error_graph (error_store Running)) 1) = Some job \<and>
      wfj_cancel_flag job)"
  using cancel_node_jobs_spec [OF error_facts(1), of "error_store Running"]
  by (auto simp: error_facts error_store_def node_with_def job_in_def job_finished_def)

end
