(* ===== verification/DependencyGraph.thy ===== *)
theory DependencyGraph
  imports Prelude
begin

section \<open>The blocking graph of \<^verbatim>\<open>forail/main/scheduler/dependency_graph.py\<close>\<close>

text \<open>
  The task manager asks this table which task, if any, keeps a pending task from starting. Every
  running or just started task is entered under the keys of the resources it occupies; a lookup
  returns the first task entered under a key. The rows of tasks, which the other scheduler
  theories share, come first; then the operations in the order of the source; then the contract
  that the task manager relies on, as a locale, and its interpretation.
\<close>

subsection \<open>Task rows\<close>

datatype task_type = ProjectUpdate | InventoryUpdate | Job | SystemJob | AdHocCommand | WorkflowJob

datatype node_type = Control | Execution | Hybrid | Hop

text \<open>A row of \<open>dependent_jobs\<close>: what the task manager reads of it.\<close>

record dependency =
  dep_id :: int
  dep_type :: task_type
  dep_name :: string
  dep_status :: job_status

text \<open>
  A row of an instance group, with the hostnames of its instances.
\<close>

record instance_group =
  ig_pk :: int
  ig_name :: string
  ig_is_container_group :: bool
  ig_instances :: "string list"
  ig_max_concurrent_jobs :: int
  ig_max_forks :: int

text \<open>
  A unified job as the scheduler reads it. \<open>source_inventory_id\<close> is
  \<open>inventory_source.inventory_id\<close>; the empty string is an unset node name.
\<close>

record task =
  task_id :: int
  task_kind :: task_type
  project_id :: "int option"
  inventory_id :: "int option"
  inventory_source_id :: "int option"
  source_inventory_id :: "int option"
  job_template_id :: "int option"
  workflow_job_template_id :: "int option"
  unified_job_template_id :: "int option"
  allow_simultaneous :: bool
  task_impact :: int
  capacity_type :: "node_type option"
  controller_node :: string
  execution_node :: string
  instance_group_id :: "int option"
  preferred_instance_groups_cache :: "int list"
  global_instance_groups :: "instance_group list"
  dependent_jobs :: "dependency list"
  task_status :: job_status
  job_explanation :: string
  task_created :: int
  has_celery_task_id :: bool

subsection \<open>The table\<close>

datatype graph_kind = PROJECT_UPDATES | INVENTORY_UPDATES | JOB_TEMPLATE_JOBS | SYSTEM_JOB
  | INVENTORY_SOURCE_UPDATES | WORKFLOW_JOB_TEMPLATES_JOBS

datatype graph_key = IdKey int | NameKey string

type_synonym dep_graph = "graph_kind \<Rightarrow> (graph_key, task) pydict"

definition empty_graph :: dep_graph where
  "empty_graph = (\<lambda>kind. [])"

definition mark_if_no_key :: "graph_kind \<Rightarrow> graph_key option \<Rightarrow> task \<Rightarrow> dep_graph \<Rightarrow> dep_graph" where
  "mark_if_no_key job_type key job data =
     (case key of
        None \<Rightarrow> data
      | Some k \<Rightarrow>
          if k \<notin> set (dict_keys (data job_type))
          then data(job_type := dict_set k job (data job_type))
          else data)"

definition get_item :: "graph_kind \<Rightarrow> graph_key option \<Rightarrow> dep_graph \<Rightarrow> task option" where
  "get_item job_type key data = (case key of None \<Rightarrow> None | Some k \<Rightarrow> dict_get (data job_type) k)"

abbreviation id_key :: "int option \<Rightarrow> graph_key option" where
  "id_key \<equiv> map_option IdKey"

text \<open>A foreign key in a condition: unset, and zero, count as false.\<close>

definition truthy_id :: "int option \<Rightarrow> bool" where
  "truthy_id i \<longleftrightarrow> i \<noteq> None \<and> i \<noteq> Some 0"

subsection \<open>Marking\<close>

definition mark_system_job :: "task \<Rightarrow> dep_graph \<Rightarrow> dep_graph" where
  "mark_system_job job = mark_if_no_key SYSTEM_JOB (Some (NameKey ''system_job'')) job"

definition mark_project_update :: "task \<Rightarrow> dep_graph \<Rightarrow> dep_graph" where
  "mark_project_update job = mark_if_no_key PROJECT_UPDATES (id_key (project_id job)) job"

definition mark_inventory_update :: "task \<Rightarrow> dep_graph \<Rightarrow> dep_graph" where
  "mark_inventory_update job =
     (if task_kind job = AdHocCommand
      then mark_if_no_key INVENTORY_UPDATES (id_key (inventory_id job)) job
      else mark_if_no_key INVENTORY_UPDATES (id_key (source_inventory_id job)) job)"

definition mark_inventory_source_update :: "task \<Rightarrow> dep_graph \<Rightarrow> dep_graph" where
  "mark_inventory_source_update job =
     mark_if_no_key INVENTORY_SOURCE_UPDATES (id_key (inventory_source_id job)) job"

definition mark_job_template_job :: "task \<Rightarrow> dep_graph \<Rightarrow> dep_graph" where
  "mark_job_template_job job = mark_if_no_key JOB_TEMPLATE_JOBS (id_key (job_template_id job)) job"

definition mark_workflow_job :: "task \<Rightarrow> dep_graph \<Rightarrow> dep_graph" where
  "mark_workflow_job job data =
     (if truthy_id (workflow_job_template_id job)
      then mark_if_no_key WORKFLOW_JOB_TEMPLATES_JOBS (id_key (workflow_job_template_id job)) job data
      else if truthy_id (unified_job_template_id job)
      then mark_if_no_key WORKFLOW_JOB_TEMPLATES_JOBS (id_key (unified_job_template_id job)) job data
      else data)"

subsection \<open>Blocking\<close>

definition project_update_blocked_by :: "task \<Rightarrow> dep_graph \<Rightarrow> task option" where
  "project_update_blocked_by job = get_item PROJECT_UPDATES (id_key (project_id job))"

definition inventory_update_blocked_by :: "task \<Rightarrow> dep_graph \<Rightarrow> task option" where
  "inventory_update_blocked_by job = get_item INVENTORY_SOURCE_UPDATES (id_key (inventory_source_id job))"

text \<open>Python's \<open>or\<close> on an optional object.\<close>

fun or_else :: "'a option \<Rightarrow> 'a option \<Rightarrow> 'a option" where
  "or_else (Some x) y = Some x"
| "or_else None y = y"

definition job_graph_blocked_by :: "task \<Rightarrow> dep_graph \<Rightarrow> task option" where
  "job_graph_blocked_by job data =
     (let project_block = get_item PROJECT_UPDATES (id_key (project_id job)) data;
          inventory_block = get_item INVENTORY_UPDATES (id_key (inventory_id job)) data;
          job_block = (if \<not> allow_simultaneous job
            then get_item JOB_TEMPLATE_JOBS (id_key (job_template_id job)) data else None)
      in or_else (or_else project_block inventory_block) job_block)"

definition workflow_job_blocked_by :: "task \<Rightarrow> dep_graph \<Rightarrow> task option" where
  "workflow_job_blocked_by job data =
     (if \<not> allow_simultaneous job then
        if truthy_id (workflow_job_template_id job)
        then get_item WORKFLOW_JOB_TEMPLATES_JOBS (id_key (workflow_job_template_id job)) data
        else if truthy_id (unified_job_template_id job)
        then or_else
               (get_item WORKFLOW_JOB_TEMPLATES_JOBS (id_key (unified_job_template_id job)) data)
               (get_item JOB_TEMPLATE_JOBS (id_key (unified_job_template_id job)) data)
        else None
      else None)"

definition system_job_blocked_by :: "task \<Rightarrow> dep_graph \<Rightarrow> task option" where
  "system_job_blocked_by job = get_item SYSTEM_JOB (Some (NameKey ''system_job''))"

definition ad_hoc_command_blocked_by :: "task \<Rightarrow> dep_graph \<Rightarrow> task option" where
  "ad_hoc_command_blocked_by job = get_item INVENTORY_UPDATES (id_key (inventory_id job))"

definition task_blocked_by :: "task \<Rightarrow> dep_graph \<Rightarrow> task option" where
  "task_blocked_by job data =
     (case task_kind job of
        ProjectUpdate \<Rightarrow> project_update_blocked_by job data
      | InventoryUpdate \<Rightarrow> inventory_update_blocked_by job data
      | Job \<Rightarrow> job_graph_blocked_by job data
      | SystemJob \<Rightarrow> system_job_blocked_by job data
      | AdHocCommand \<Rightarrow> ad_hoc_command_blocked_by job data
      | WorkflowJob \<Rightarrow> workflow_job_blocked_by job data)"

definition add_job :: "task \<Rightarrow> dep_graph \<Rightarrow> dep_graph" where
  "add_job job data =
     (case task_kind job of
        ProjectUpdate \<Rightarrow> mark_project_update job data
      | InventoryUpdate \<Rightarrow> mark_inventory_source_update job (mark_inventory_update job data)
      | Job \<Rightarrow> mark_job_template_job job data
      | WorkflowJob \<Rightarrow> mark_workflow_job job data
      | SystemJob \<Rightarrow> mark_system_job job data
      | AdHocCommand \<Rightarrow> mark_inventory_update job data)"

definition add_jobs :: "task list \<Rightarrow> dep_graph \<Rightarrow> dep_graph" where
  "add_jobs jobs data = fold add_job jobs data"

subsection \<open>What a task occupies and what it needs\<close>

text \<open>
  The contract, without the table: the keys a task is entered under, and the keys whose entries
  block it, in the order in which they are looked up.
\<close>

definition id_slot :: "graph_kind \<Rightarrow> int option \<Rightarrow> (graph_kind \<times> graph_key) list" where
  "id_slot kind i = (case i of None \<Rightarrow> [] | Some k \<Rightarrow> [(kind, IdKey k)])"

fun occupies :: "task_type \<Rightarrow> task \<Rightarrow> (graph_kind \<times> graph_key) list" where
  "occupies ProjectUpdate t = id_slot PROJECT_UPDATES (project_id t)"
| "occupies InventoryUpdate t =
     id_slot INVENTORY_UPDATES (source_inventory_id t) @ id_slot INVENTORY_SOURCE_UPDATES (inventory_source_id t)"
| "occupies Job t = id_slot JOB_TEMPLATE_JOBS (job_template_id t)"
| "occupies SystemJob t = [(SYSTEM_JOB, NameKey ''system_job'')]"
| "occupies AdHocCommand t = id_slot INVENTORY_UPDATES (inventory_id t)"
| "occupies WorkflowJob t =
     id_slot WORKFLOW_JOB_TEMPLATES_JOBS
       (if truthy_id (workflow_job_template_id t) then workflow_job_template_id t
        else if truthy_id (unified_job_template_id t) then unified_job_template_id t else None)"

fun needs :: "task_type \<Rightarrow> task \<Rightarrow> (graph_kind \<times> graph_key) list" where
  "needs ProjectUpdate t = id_slot PROJECT_UPDATES (project_id t)"
| "needs InventoryUpdate t = id_slot INVENTORY_SOURCE_UPDATES (inventory_source_id t)"
| "needs Job t = id_slot PROJECT_UPDATES (project_id t) @ id_slot INVENTORY_UPDATES (inventory_id t) @
     (if allow_simultaneous t then [] else id_slot JOB_TEMPLATE_JOBS (job_template_id t))"
| "needs SystemJob t = [(SYSTEM_JOB, NameKey ''system_job'')]"
| "needs AdHocCommand t = id_slot INVENTORY_UPDATES (inventory_id t)"
| "needs WorkflowJob t =
     (if allow_simultaneous t then []
      else if truthy_id (workflow_job_template_id t)
      then id_slot WORKFLOW_JOB_TEMPLATES_JOBS (workflow_job_template_id t)
      else if truthy_id (unified_job_template_id t)
      then id_slot WORKFLOW_JOB_TEMPLATES_JOBS (unified_job_template_id t) @
           id_slot JOB_TEMPLATE_JOBS (unified_job_template_id t)
      else [])"

definition conflicts :: "task \<Rightarrow> task \<Rightarrow> bool" where
  "conflicts holder t \<longleftrightarrow> set (occupies (task_kind holder) holder) \<inter> set (needs (task_kind t) t) \<noteq> {}"

definition slot_entry :: "dep_graph \<Rightarrow> graph_kind \<times> graph_key \<Rightarrow> task option" where
  "slot_entry data slot = dict_get (data (fst slot)) (snd slot)"

definition mark_slot :: "task \<Rightarrow> graph_kind \<times> graph_key \<Rightarrow> dep_graph \<Rightarrow> dep_graph" where
  "mark_slot job slot = mark_if_no_key (fst slot) (Some (snd slot)) job"

text \<open>The first defined result of a list of lookups.\<close>

definition first_some :: "('a \<Rightarrow> 'b option) \<Rightarrow> 'a list \<Rightarrow> 'b option" where
  "first_some f xs = foldr (\<lambda>x acc. or_else (f x) acc) xs None"

lemma first_some_simps [simp]:
  "first_some f [] = None"
  "first_some f (x # xs) = (case f x of Some y \<Rightarrow> Some y | None \<Rightarrow> first_some f xs)"
  by (simp_all add: first_some_def split: option.splits)

lemma first_some_append [simp]:
  "first_some f (xs @ ys) = (case first_some f xs of Some y \<Rightarrow> Some y | None \<Rightarrow> first_some f ys)"
  by (induction xs) (simp_all split: option.splits)

lemma or_else_case: "or_else x y = (case x of Some z \<Rightarrow> Some z | None \<Rightarrow> y)"
  by (cases x) simp_all

lemma first_some_None: "first_some f xs = None \<longleftrightarrow> (\<forall>x \<in> set xs. f x = None)"
  by (induction xs) (auto split: option.splits)

lemma first_some_Some: "first_some f xs = Some y \<Longrightarrow> \<exists>x \<in> set xs. f x = Some y"
  by (induction xs) (auto split: option.splits)

lemma add_job_slots: "add_job t data = fold (mark_slot t) (occupies (task_kind t) t) data"
  by (cases "task_kind t")
    (auto simp: add_job_def mark_project_update_def mark_inventory_update_def
      mark_inventory_source_update_def mark_job_template_job_def mark_workflow_job_def
      mark_system_job_def mark_slot_def mark_if_no_key_def id_slot_def split: option.splits)

lemma task_blocked_by_slots:
  "task_blocked_by t data = first_some (slot_entry data) (needs (task_kind t) t)"
  by (cases "task_kind t")
    (auto simp: task_blocked_by_def project_update_blocked_by_def inventory_update_blocked_by_def
      job_graph_blocked_by_def system_job_blocked_by_def ad_hoc_command_blocked_by_def
      workflow_job_blocked_by_def get_item_def slot_entry_def id_slot_def or_else_case Let_def
      split: option.splits)

subsection \<open>First mark wins\<close>

lemma mark_if_no_key_Some:
  "mark_if_no_key kind (Some k) t data =
     (if dict_get (data kind) k = None then data(kind := dict_set k t (data kind)) else data)"
  by (simp add: mark_if_no_key_def map_of_eq_None_iff)

lemma slot_entry_mark_slot:
  "slot_entry (mark_slot t slot data) slot' =
     (case slot_entry data slot' of Some j \<Rightarrow> Some j | None \<Rightarrow> if slot' = slot then Some t else None)"
  by (cases slot; cases slot')
    (auto simp: slot_entry_def mark_slot_def mark_if_no_key_Some dict_simps split: option.splits)

lemma slot_entry_mark_slots:
  "slot_entry (fold (mark_slot t) slots data) slot' =
     (case slot_entry data slot' of
        Some j \<Rightarrow> Some j | None \<Rightarrow> if slot' \<in> set slots then Some t else None)"
  by (induction slots arbitrary: data) (auto simp: slot_entry_mark_slot split: option.splits)

lemma slot_entry_add_job:
  "slot_entry (add_job t data) slot =
     (case slot_entry data slot of
        Some j \<Rightarrow> Some j | None \<Rightarrow> if slot \<in> set (occupies (task_kind t) t) then Some t else None)"
  by (simp add: add_job_slots slot_entry_mark_slots)

lemma slot_entry_add_jobs:
  "slot_entry (fold add_job ts data) slot =
     (case slot_entry data slot of Some j \<Rightarrow> Some j
      | None \<Rightarrow> find (\<lambda>t. slot \<in> set (occupies (task_kind t) t)) ts)"
proof (induction ts arbitrary: data)
  case Nil
  then show ?case by (simp split: option.splits)
next
  case (Cons t ts)
  show ?case
  proof (cases "slot_entry data slot")
    case None
    then show ?thesis
      using Cons.IH [of "add_job t data"]
      by (cases "slot \<in> set (occupies (task_kind t) t)") (simp_all add: slot_entry_add_job)
  next
    case (Some j)
    then show ?thesis using Cons.IH [of "add_job t data"] by (simp add: slot_entry_add_job)
  qed
qed

lemma slot_entry_empty: "slot_entry empty_graph slot = None"
  by (simp add: slot_entry_def empty_graph_def)

subsection \<open>The contract of a blocking table\<close>

text \<open>
  \<open>exclusive c hs ts\<close>: no task of \<open>ts\<close> conflicts with a holder or with an earlier task of \<open>ts\<close>.
\<close>

fun exclusive :: "('t \<Rightarrow> 't \<Rightarrow> bool) \<Rightarrow> 't list \<Rightarrow> 't list \<Rightarrow> bool" where
  "exclusive c hs [] = True"
| "exclusive c hs (t # ts) = ((\<forall>h \<in> set hs. \<not> c h t) \<and> exclusive c (hs @ [t]) ts)"

lemma exclusive_snoc:
  "exclusive c hs (ts @ [t]) \<longleftrightarrow> exclusive c hs ts \<and> (\<forall>h \<in> set (hs @ ts). \<not> c h t)"
  by (induction ts arbitrary: hs) auto

lemma exclusive_holder: "exclusive c hs ts \<Longrightarrow> h \<in> set hs \<Longrightarrow> t \<in> set ts \<Longrightarrow> \<not> c h t"
proof (induction ts arbitrary: hs)
  case Nil
  then show ?case by simp
next
  case (Cons x ts)
  from Cons.IH [of "hs @ [x]"] Cons.prems show ?case by auto
qed

lemma exclusive_pair:
  "exclusive c hs ts \<Longrightarrow> i < j \<Longrightarrow> j < length ts \<Longrightarrow> \<not> c (ts ! i) (ts ! j)"
proof (induction ts arbitrary: hs i j)
  case Nil
  then show ?case by simp
next
  case (Cons t ts)
  have rest: "exclusive c (hs @ [t]) ts" using Cons.prems(1) by simp
  obtain j' where j: "j = Suc j'" using Cons.prems(2) by (cases j) auto
  show ?case
  proof (cases i)
    case 0
    with Cons.prems(3) exclusive_holder [OF rest, of t "ts ! j'"] show ?thesis by (simp add: j)
  next
    case (Suc i')
    with Cons.IH [OF rest, of i' j'] Cons.prems show ?thesis by (simp add: j)
  qed
qed

locale job_blocker =
  fixes fresh :: 'g
    and enter :: "'t \<Rightarrow> 'g \<Rightarrow> 'g"
    and blocker :: "'t \<Rightarrow> 'g \<Rightarrow> 't option"
    and conf :: "'t \<Rightarrow> 't \<Rightarrow> bool"
  assumes blocker_fresh: "blocker t fresh = None"
    and blocker_enter: "blocker t (enter j g) \<noteq> None \<longleftrightarrow> blocker t g \<noteq> None \<or> conf j t"
    and blocker_origin: "blocker t (enter j g) = Some x \<Longrightarrow> blocker t g = Some x \<or> x = j \<and> conf j t"
begin

lemma blocker_iff: "blocker t (fold enter js fresh) \<noteq> None \<longleftrightarrow> (\<exists>j \<in> set js. conf j t)"
  by (induction js rule: rev_induct)
    (simp_all add: blocker_fresh blocker_enter del: not_None_eq, blast)

lemma blocker_conflict: "blocker t (fold enter js fresh) = Some x \<Longrightarrow> x \<in> set js \<and> conf x t"
proof (induction js rule: rev_induct)
  case Nil
  then show ?case by (simp add: blocker_fresh)
next
  case (snoc j js)
  from snoc.prems have "blocker t (enter j (fold enter js fresh)) = Some x" by simp
  from blocker_origin [OF this] snoc.IH show ?case by auto
qed

lemma admit_exclusive:
  "exclusive conf hs ts \<Longrightarrow> blocker t (fold enter (hs @ ts) fresh) = None \<Longrightarrow>
     exclusive conf hs (ts @ [t])"
  using blocker_iff [of t "hs @ ts"] by (auto simp: exclusive_snoc)

end

interpretation graph: job_blocker empty_graph add_job task_blocked_by conflicts
proof unfold_locales
  fix t :: task
  show "task_blocked_by t empty_graph = None"
    by (simp add: task_blocked_by_slots first_some_None slot_entry_empty)
next
  fix t j :: task and g
  show "task_blocked_by t (add_job j g) \<noteq> None \<longleftrightarrow> task_blocked_by t g \<noteq> None \<or> conflicts j t"
    unfolding task_blocked_by_slots first_some_None conflicts_def slot_entry_add_job
    by (force split: option.splits)
next
  fix t j x :: task and g
  have "first_some (slot_entry (add_job j g)) slots = Some x \<Longrightarrow>
      first_some (slot_entry g) slots = Some x \<or>
      x = j \<and> set (occupies (task_kind j) j) \<inter> set slots \<noteq> {}" for slots
    by (induction slots) (auto simp: slot_entry_add_job split: option.splits if_splits)
  then show "task_blocked_by t (add_job j g) = Some x \<Longrightarrow> task_blocked_by t g = Some x \<or> x = j \<and> conflicts j t"
    unfolding task_blocked_by_slots conflicts_def by blast
qed

subsection \<open>Properties\<close>

text \<open>
  C12: The table is the relation it stands for. After entering the tasks \<open>ts\<close> in order, a task is
  blocked iff some entered task occupies a key it needs, and the answer is the first entered
  occupant of the first needed key that has one.
\<close>

theorem task_blocked_by_first_occupant:
  "task_blocked_by t (add_jobs ts empty_graph) =
     first_some (\<lambda>slot. find (\<lambda>j. slot \<in> set (occupies (task_kind j) j)) ts) (needs (task_kind t) t) \<and>
   (task_blocked_by t (add_jobs ts empty_graph) \<noteq> None) = (\<exists>j. j \<in> set ts \<and> conflicts j t)"
proof
  show "(task_blocked_by t (add_jobs ts empty_graph) \<noteq> None) = (\<exists>j. j \<in> set ts \<and> conflicts j t)"
    using graph.blocker_iff [of t ts] unfolding add_jobs_def by blast
  have "slot_entry (fold add_job ts empty_graph) = (\<lambda>slot. find (\<lambda>j. slot \<in> set (occupies (task_kind j) j)) ts)"
    by (rule ext) (simp add: slot_entry_add_jobs slot_entry_empty)
  then show "task_blocked_by t (add_jobs ts empty_graph) =
      first_some (\<lambda>slot. find (\<lambda>j. slot \<in> set (occupies (task_kind j) j)) ts) (needs (task_kind t) t)"
    by (simp add: add_jobs_def task_blocked_by_slots)
qed

end
