(* ===== verification/DependencyManager.thy ===== *)
theory DependencyManager
  imports DependencyGraph
begin

section \<open>The dependency manager of \<^verbatim>\<open>forail/main/scheduler/task_manager.py\<close>\<close>

text \<open>
  \<open>DependencyManager\<close> gives pending jobs the updates they must wait for: of their project, and of
  the inventory sources that update on launch. The database is a state: the latest update of every
  project and inventory source, which a created update becomes, the links
  \<open>dependent_jobs\<close>, and the tasks marked as processed. A run that raises is \<^const>\<open>None\<close>.
\<close>

subsection \<open>Rows and state\<close>

text \<open>
  A unified job as this manager reads it. For an inventory update \<open>dm_source_scm\<close> says whether
  its source is SCM, and \<open>dm_source\<close> is its inventory source; \<open>dm_already_updated\<close> is the entry
  \<open>inventory_sources_already_updated\<close> of the start arguments, if they parse and have it.
\<close>

record dm_task =
  dm_id :: int
  dm_kind :: task_type
  dm_status :: job_status
  dm_finished :: "int option"
  dm_processed :: bool
  dm_project :: "int option"
  dm_inventory :: "int option"
  dm_source_scm :: bool
  dm_source :: "int option"
  dm_already_updated :: "int list option"

record project =
  proj_id :: int
  scm_update_on_launch :: bool
  scm_update_cache_timeout :: int

record inventory_source =
  invsrc_id :: int
  invsrc_inventory :: int
  update_on_launch :: bool
  update_cache_timeout :: int
  source_project_id :: "int option"
  invsrc_scm :: bool

record dm_state =
  projects :: "project list"
  inventory_sources :: "inventory_source list"
  all_projects :: "(int, project) pydict"
  all_inventory_sources :: "(int, inventory_source list) pydict"
  latest_project_update :: "int \<Rightarrow> dm_task option"
  latest_inventory_update :: "int \<Rightarrow> dm_task option"
  next_id :: int
  created :: "dm_task list"
  links :: "(int \<times> int) set"
  processed :: "int set"

definition has_id :: "int option \<Rightarrow> bool" where
  "has_id i \<longleftrightarrow> i \<noteq> None \<and> i \<noteq> Some 0"

subsection \<open>The caches\<close>

definition source_of :: "dm_state \<Rightarrow> dm_task \<Rightarrow> inventory_source option" where
  "source_of s task = Option.bind (dm_source task) (\<lambda>i. find (\<lambda>src. invsrc_id src = i) (inventory_sources s))"

definition wanted_projects :: "dm_state \<Rightarrow> dm_task list \<Rightarrow> int set" where
  "wanted_projects s tasks = set (concat (map (\<lambda>task.
     if dm_kind task = Job then (if has_id (dm_project task) then [the (dm_project task)] else [])
     else if dm_kind task = InventoryUpdate then
       (case source_of s task of
          None \<Rightarrow> []
        | Some src \<Rightarrow> if has_id (source_project_id src) then [the (source_project_id src)] else [])
     else []) tasks))"

definition wanted_inventories :: "dm_task list \<Rightarrow> int set" where
  "wanted_inventories tasks = set (concat (map (\<lambda>task.
     if dm_kind task = Job \<and> has_id (dm_inventory task) then [the (dm_inventory task)] else []) tasks))"

definition append_source :: "inventory_source \<Rightarrow> (int, inventory_source list) pydict \<Rightarrow> (int, inventory_source list) pydict" where
  "append_source src m = dict_set (invsrc_inventory src) (dict_get_default m (invsrc_inventory src) [] @ [src]) m"

definition cache_projects_and_sources :: "dm_task list \<Rightarrow> dm_state \<Rightarrow> dm_state" where
  "cache_projects_and_sources task_list s =
     (let project_ids = wanted_projects s task_list;
          inventory_ids = wanted_inventories task_list;
          projs = filter (\<lambda>p. proj_id p \<in> project_ids \<and> scm_update_on_launch p) (projects s);
          srcs = filter (\<lambda>i. invsrc_inventory i \<in> inventory_ids \<and> update_on_launch i) (inventory_sources s)
      in s\<lparr>all_projects := fold (\<lambda>p. dict_set (proj_id p) p) projs (all_projects s),
           all_inventory_sources := fold append_source srcs (all_inventory_sources s)\<rparr>)"

subsection \<open>Is an update needed\<close>

text \<open>
  \<^const>\<open>None\<close> is the \<open>TypeError\<close> of adding to the missing finish time of an update that is
  neither in progress nor over.
\<close>

definition should_update_again :: "int \<Rightarrow> dm_task option \<Rightarrow> int \<Rightarrow> bool option" where
  "should_update_again now update cache_timeout =
     (case update of
        None \<Rightarrow> Some True
      | Some u \<Rightarrow>
          if dm_status u \<in> set [Failed, Canceled, Error] then Some True
          else if dm_status u \<in> set [Waiting, Pending, Running] then Some False
          else case dm_finished u of
                 None \<Rightarrow> None
               | Some f \<Rightarrow> Some (f + cache_timeout < now))"

text \<open>An update that is created for a launch and accepted by \<open>signal_start\<close> is pending.\<close>

definition new_update :: "task_type \<Rightarrow> bool \<Rightarrow> int option \<Rightarrow> dm_state \<Rightarrow> dm_task" where
  "new_update kind scm source s =
     \<lparr>dm_id = next_id s, dm_kind = kind, dm_status = Pending, dm_finished = None, dm_processed = False,
      dm_project = None, dm_inventory = None, dm_source_scm = scm, dm_source = source,
      dm_already_updated = None\<rparr>"

definition get_or_create_project_update ::
  "int \<Rightarrow> int option \<Rightarrow> dm_state \<Rightarrow> (dm_task list \<times> dm_state) option" where
  "get_or_create_project_update now pid s =
     (case Option.bind pid (dict_get (all_projects s)) of
        None \<Rightarrow> Some ([], s)
      | Some project \<Rightarrow>
          (let latest = latest_project_update s (proj_id project) in
           case should_update_again now latest (scm_update_cache_timeout project) of
             None \<Rightarrow> None
           | Some True \<Rightarrow>
               (let project_task = new_update ProjectUpdate False None s in
                Some ([project_task],
                  s\<lparr>latest_project_update := (latest_project_update s)(proj_id project := Some project_task),
                    next_id := next_id s + 1, created := created s @ [project_task]\<rparr>))
           | Some False \<Rightarrow> Some ([the latest], s)))"

definition source_update :: "int \<Rightarrow> inventory_source \<Rightarrow> dm_state \<Rightarrow> (dm_task \<times> dm_state) option" where
  "source_update now src s =
     (let latest = latest_inventory_update s (invsrc_id src) in
      case should_update_again now latest (update_cache_timeout src) of
        None \<Rightarrow> None
      | Some True \<Rightarrow>
          (let inventory_task = new_update InventoryUpdate (invsrc_scm src) (Some (invsrc_id src)) s in
           Some (inventory_task,
             s\<lparr>latest_inventory_update := (latest_inventory_update s)(invsrc_id src := Some inventory_task),
               next_id := next_id s + 1, created := created s @ [inventory_task]\<rparr>))
      | Some False \<Rightarrow> Some (the latest, s))"

fun source_updates ::
  "int \<Rightarrow> int list option \<Rightarrow> inventory_source list \<Rightarrow> dm_task list \<Rightarrow> dm_state \<Rightarrow> (dm_task list \<times> dm_state) option" where
  "source_updates now already [] deps s = Some (deps, s)"
| "source_updates now already (src # srcs) deps s =
     (if already \<noteq> None \<and> invsrc_id src \<in> set (the already)
      then source_updates now already srcs deps s
      else case source_update now src s of
             None \<Rightarrow> None
           | Some (u, s') \<Rightarrow> source_updates now already srcs (deps @ [u]) s')"

definition gen_dep_for_job :: "int \<Rightarrow> dm_task \<Rightarrow> dm_state \<Rightarrow> (dm_task list \<times> dm_state) option" where
  "gen_dep_for_job now task s =
     (case get_or_create_project_update now (dm_project task) s of
        None \<Rightarrow> None
      | Some (dependencies, s1) \<Rightarrow>
          source_updates now (dm_already_updated task)
            (case dm_inventory task of
               None \<Rightarrow> []
             | Some i \<Rightarrow> dict_get_default (all_inventory_sources s1) i [])
            dependencies s1)"

definition gen_dep_for_inventory_update :: "int \<Rightarrow> dm_task \<Rightarrow> dm_state \<Rightarrow> (dm_task list \<times> dm_state) option" where
  "gen_dep_for_inventory_update now inventory_task s =
     (if dm_source_scm inventory_task then
        (case source_of s inventory_task of
           Some invsrc \<Rightarrow> get_or_create_project_update now (source_project_id invsrc) s
         | None \<Rightarrow> Some ([], s))
      else Some ([], s))"

subsection \<open>Generating dependencies\<close>

definition link :: "dm_task \<Rightarrow> dm_task list \<Rightarrow> dm_state \<Rightarrow> dm_state" where
  "link task deps s = s\<lparr>links := links s \<union> (\<lambda>d. (dm_id task, dm_id d)) ` set deps\<rparr>"

text \<open>The loop; \<open>dependencies\<close> is the list that grows over the tasks.\<close>

fun dependency_loop ::
  "int \<Rightarrow> dm_task list \<Rightarrow> dm_task list \<Rightarrow> dm_state \<Rightarrow> (dm_task list \<times> dm_state) option" where
  "dependency_loop now [] dependencies s = Some (dependencies, s)"
| "dependency_loop now (task # tasks) dependencies s =
     (if dm_kind task = Job \<or> dm_kind task = InventoryUpdate then
        (case (if dm_kind task = Job then gen_dep_for_job now task s
               else gen_dep_for_inventory_update now task s) of
           None \<Rightarrow> None
         | Some (job_deps, s1) \<Rightarrow>
             if job_deps \<noteq> []
             then dependency_loop now tasks (dependencies @ job_deps) (link task (dependencies @ job_deps) s1)
             else dependency_loop now tasks dependencies s1)
      else dependency_loop now tasks dependencies s)"

definition generate_dependencies :: "int \<Rightarrow> dm_task list \<Rightarrow> dm_state \<Rightarrow> (dm_task list \<times> dm_state) option" where
  "generate_dependencies now undeped_tasks s =
     (case dependency_loop now undeped_tasks [] (cache_projects_and_sources undeped_tasks s) of
        None \<Rightarrow> None
      | Some (dependencies, s1) \<Rightarrow>
          Some (dependencies, s1\<lparr>processed := processed s1 \<union> dm_id ` set undeped_tasks\<rparr>))"

text \<open>\<open>_schedule\<close> with the fetched tasks: the dependencies get theirs in a second pass.\<close>

definition dependency_schedule :: "int \<Rightarrow> dm_task list \<Rightarrow> dm_state \<Rightarrow> dm_state option" where
  "dependency_schedule now all_tasks s =
     (if all_tasks = [] then Some s
      else case generate_dependencies now all_tasks s of
        None \<Rightarrow> None
      | Some (deps, s1) \<Rightarrow>
          map_option snd (generate_dependencies now (filter (\<lambda>d. \<not> dm_processed d) deps) s1))"

subsection \<open>Current updates\<close>

text \<open>An update that need not be repeated: in progress, or over not longer than the cache time ago.\<close>

definition current :: "int \<Rightarrow> int \<Rightarrow> dm_task \<Rightarrow> bool" where
  "current now timeout u \<longleftrightarrow> dm_status u \<in> {Waiting, Pending, Running} \<or>
     (dm_status u \<notin> {Failed, Canceled, Error} \<and> (\<exists>f. dm_finished u = Some f \<and> now \<le> f + timeout))"

lemma should_update_again_iff:
  "should_update_again now (Some u) timeout = Some False \<longleftrightarrow> current now timeout u"
  "should_update_again now None timeout = Some True"
  by (cases "dm_status u"; cases "dm_finished u"; simp add: should_update_again_def current_def not_less)+

lemma current_new: "current now timeout (new_update kind scm source s)"
  by (simp add: current_def new_update_def)

text \<open>\<open>holds_current now p s u\<close>: \<open>u\<close> is the latest update of the cached project \<open>p\<close>, and current.\<close>

definition holds_current :: "int \<Rightarrow> project \<Rightarrow> dm_state \<Rightarrow> dm_task \<Rightarrow> bool" where
  "holds_current now p s u \<longleftrightarrow> latest_project_update s (proj_id p) = Some u \<and>
     current now (scm_update_cache_timeout p) u"

lemma project_update_current:
  assumes "get_or_create_project_update now (Some i) s = Some (deps, s')"
    and "dict_get (all_projects s) i = Some p"
  shows "\<exists>u. deps = [u] \<and> holds_current now p s' u"
proof (cases "latest_project_update s (proj_id p)")
  case None
  with assms show ?thesis
    by (auto simp: get_or_create_project_update_def should_update_again_iff holds_current_def Let_def current_new)
next
  case (Some u)
  then show ?thesis
    using assms should_update_again_iff(1) [of now u "scm_update_cache_timeout p"]
    by (auto simp: get_or_create_project_update_def holds_current_def Let_def current_new
        split: option.splits bool.splits)
qed

lemma project_update_reused:
  assumes "dict_get (all_projects s) i = Some p" and "holds_current now p s u"
  shows "get_or_create_project_update now (Some i) s = Some ([u], s)"
  using assms should_update_again_iff(1) [of now u "scm_update_cache_timeout p"]
  by (simp add: get_or_create_project_update_def holds_current_def Let_def)

text \<open>What no step of the loop undoes.\<close>

definition keeps :: "int \<Rightarrow> dm_state \<Rightarrow> dm_state \<Rightarrow> bool" where
  "keeps now s s' \<longleftrightarrow> all_projects s' = all_projects s \<and> links s \<subseteq> links s' \<and>
     (\<forall>p u. p \<in> ran (map_of (all_projects s)) \<and>
        (\<forall>q \<in> ran (map_of (all_projects s)). proj_id q = proj_id p \<longrightarrow> q = p) \<and> holds_current now p s u \<longrightarrow>
        holds_current now p s' u)"

lemma keeps_refl: "keeps now s s"
  by (simp add: keeps_def)

lemma keeps_trans: "keeps now s s' \<Longrightarrow> keeps now s' s'' \<Longrightarrow> keeps now s s''"
  unfolding keeps_def by auto

lemma keeps_link: "keeps now s (link t ds s)"
  by (auto simp: keeps_def link_def holds_current_def)

lemma keeps_project_update:
  assumes "get_or_create_project_update now pid s = Some (deps, s')"
  shows "keeps now s s'"
proof (cases "Option.bind pid (dict_get (all_projects s))")
  case None
  with assms show ?thesis by (simp add: get_or_create_project_update_def keeps_refl)
next
  case (Some q)
  then obtain i where i: "pid = Some i" "dict_get (all_projects s) i = Some q" by (auto simp: bind_eq_Some_conv)
  have q: "q \<in> ran (map_of (all_projects s))" using i(2) by (rule ranI)
  have same: "all_projects s' = all_projects s \<and> links s' = links s \<and>
      (\<forall>k. k \<noteq> proj_id q \<longrightarrow> latest_project_update s' k = latest_project_update s k)"
    using assms i by (auto simp: get_or_create_project_update_def Let_def split: option.splits bool.splits)
  have "holds_current now p s' u"
    if "holds_current now p s u" and p: "p \<in> ran (map_of (all_projects s))"
      "\<forall>r \<in> ran (map_of (all_projects s)). proj_id r = proj_id p \<longrightarrow> r = p" for p u
  proof (cases "proj_id p = proj_id q")
    case True
    with p(2) q have "q = p" by metis
    then show ?thesis using project_update_reused [OF i(2), of now u] that(1) assms i(1) by simp
  next
    case False
    with that(1) same show ?thesis by (simp add: holds_current_def)
  qed
  with same show ?thesis by (auto simp: keeps_def)
qed

lemma keeps_source_updates:
  "source_updates now already srcs deps s = Some (deps', s') \<Longrightarrow>
     keeps now s s' \<and> (\<exists>more. deps' = deps @ more)"
proof (induction now already srcs deps s arbitrary: deps' s' rule: source_updates.induct)
  case (1 now already deps s)
  then show ?case by (simp add: keeps_refl)
next
  case (2 now already src srcs deps s)
  show ?case
  proof (cases "already \<noteq> None \<and> invsrc_id src \<in> set (the already)")
    case True
    with 2 show ?thesis by simp
  next
    case False
    with 2(3) obtain u s1 where u: "source_update now src s = Some (u, s1)"
      "source_updates now already srcs (deps @ [u]) s1 = Some (deps', s')" by (auto split: option.splits)
    have "keeps now s s1"
      using u(1) by (auto simp: source_update_def Let_def keeps_def holds_current_def
          split: option.splits bool.splits)
    then show ?thesis using "2.IH"(2) [OF False u(1) refl u(2)] keeps_trans by auto
  qed
qed

definition gen_dep :: "int \<Rightarrow> dm_task \<Rightarrow> dm_state \<Rightarrow> (dm_task list \<times> dm_state) option" where
  "gen_dep now task s = (if dm_kind task = Job then gen_dep_for_job now task s
     else gen_dep_for_inventory_update now task s)"

lemma keeps_gen_dep:
  assumes "gen_dep now task s = Some (deps, s')"
  shows "keeps now s s'"
proof (cases "dm_kind task = Job")
  case True
  with assms obtain d1 s1 where "get_or_create_project_update now (dm_project task) s = Some (d1, s1)"
    and "source_updates now (dm_already_updated task) (case dm_inventory task of None \<Rightarrow> []
        | Some i \<Rightarrow> dict_get_default (all_inventory_sources s1) i []) d1 s1 = Some (deps, s')"
    by (auto simp: gen_dep_def gen_dep_for_job_def split: option.splits)
  then show ?thesis using keeps_project_update keeps_source_updates keeps_trans by blast
next
  case False
  with assms show ?thesis
    by (auto simp: gen_dep_def gen_dep_for_inventory_update_def keeps_refl intro: keeps_project_update
        split: option.splits if_splits)
qed

lemma keeps_loop:
  "dependency_loop now tasks deps s = Some (deps', s') \<Longrightarrow> keeps now s s'"
proof (induction now tasks deps s rule: dependency_loop.induct)
  case (1 now deps s)
  then show ?case by (simp add: keeps_refl)
next
  case (2 now task tasks deps s)
  show ?case
  proof (cases "dm_kind task = Job \<or> dm_kind task = InventoryUpdate")
    case True
    with 2(4) obtain jd s1 where g: "gen_dep now task s = Some (jd, s1)"
      by (auto simp: gen_dep_def split: option.splits if_splits)
    note g' = g [unfolded gen_dep_def]
    show ?thesis
    proof (cases "jd = []")
      case True
      with 2(4) g' \<open>dm_kind task = Job \<or> _\<close> have "dependency_loop now tasks deps s1 = Some (deps', s')" by simp
      then show ?thesis using "2.IH"(2) [OF \<open>dm_kind task = Job \<or> _\<close> g' refl] True keeps_gen_dep [OF g] keeps_trans
        by blast
    next
      case False
      with 2(4) g' \<open>dm_kind task = Job \<or> _\<close>
      have "dependency_loop now tasks (deps @ jd) (link task (deps @ jd) s1) = Some (deps', s')" by simp
      then show ?thesis
        using "2.IH"(1) [OF \<open>dm_kind task = Job \<or> _\<close> g' refl False] keeps_gen_dep [OF g] keeps_link keeps_trans
        by blast
    qed
  next
    case False
    with 2 show ?thesis by simp
  qed
qed

lemma job_linked:
  assumes "dependency_loop now tasks deps s = Some (deps', s')"
    and "task \<in> set tasks" and "dm_kind task = Job" and "dm_project task = Some i"
    and "dict_get (all_projects s) i = Some p"
    and "\<forall>q \<in> ran (map_of (all_projects s)). proj_id q = proj_id p \<longrightarrow> q = p"
  shows "\<exists>u. holds_current now p s' u \<and> (dm_id task, dm_id u) \<in> links s'"
  using assms
proof (induction now tasks deps s rule: dependency_loop.induct)
  case (1 now deps s)
  then show ?case by simp
next
  case (2 now t tasks deps s)
  have p: "p \<in> ran (map_of (all_projects s))" using 2(8) by (rule ranI)
  show ?case
  proof (cases "dm_kind t = Job \<or> dm_kind t = InventoryUpdate")
    case kind: True
    with 2(4) obtain jd s1 where g: "gen_dep now t s = Some (jd, s1)"
      by (auto simp: gen_dep_def split: option.splits if_splits)
    note g' = g [unfolded gen_dep_def]
    let ?d = "if jd = [] then deps else deps @ jd" and ?s = "if jd = [] then s1 else link t (deps @ jd) s1"
    have rest: "dependency_loop now tasks ?d ?s = Some (deps', s')"
      using 2(4) g' kind by (cases "jd = []") simp_all
    have keep: "keeps now s ?s" using keeps_gen_dep [OF g] keeps_link keeps_trans by auto
    then have projs: "all_projects ?s = all_projects s" by (simp add: keeps_def)
    show ?thesis
    proof (cases "task \<in> set tasks")
      case True
      show ?thesis
      proof (cases "jd = []")
        case e: True
        then show ?thesis using "2.IH"(2) [OF kind g' refl] rest True 2(6-9) projs by simp
      next
        case e: False
        then show ?thesis using "2.IH"(1) [OF kind g' refl e] rest True 2(6-9) projs by simp
      qed
    next
      case False
      with 2(5) have t: "t = task" by simp
      obtain u s2 where u: "get_or_create_project_update now (Some i) s = Some ([u], s2)"
        "holds_current now p s2 u"
        and src: "source_updates now (dm_already_updated t) (case dm_inventory t of None \<Rightarrow> []
          | Some i \<Rightarrow> dict_get_default (all_inventory_sources s2) i []) [u] s2 = Some (jd, s1)"
        using g 2(6,7) project_update_current [of now i s _ _ p] 2(8)
        by (fastforce simp: gen_dep_def gen_dep_for_job_def t split: option.splits)
      obtain more where jd: "jd = u # more" using keeps_source_updates [OF src] by auto
      have "keeps now s s2" using keeps_project_update [OF u(1)] .
      then have "all_projects s2 = all_projects s" by (simp add: keeps_def)
      then have "holds_current now p ?s u"
        using keeps_trans [OF keeps_source_updates [OF src, THEN conjunct1] keeps_link, of t "deps @ jd"]
          u(2) p 2(9) jd by (simp add: keeps_def)
      moreover have "(dm_id task, dm_id u) \<in> links ?s" by (simp add: jd link_def t)
      ultimately show ?thesis using keeps_loop [OF rest] p 2(9) projs unfolding keeps_def by (metis subsetD)
    qed
  next
    case False
    with 2 show ?thesis by auto
  qed
qed

subsection \<open>Properties\<close>

lemma cached_projects:
  "dict_get (fold (\<lambda>p. dict_set (proj_id p) p) ps m) i =
     (case find (\<lambda>p. proj_id p = i) (rev ps) of Some p \<Rightarrow> Some p | None \<Rightarrow> dict_get m i)"
  by (induction ps rule: rev_induct) (auto simp: dict_simps split: option.splits)

text \<open>
  C38: After \<open>generate_dependencies\<close>, every job whose project updates on launch depends on the latest
  update of that project, and that update is current: in progress, or finished no longer ago
  than the project's cache time. All jobs of a project share it.
\<close>

theorem jobs_wait_for_current_update:
  assumes "generate_dependencies now tasks s = Some (deps, s')"
    and "all_projects s = []" and "distinct (map proj_id (projects s))"
    and "task \<in> set tasks" and "dm_kind task = Job" and "dm_project task = Some i" and "i \<noteq> 0"
    and "p \<in> set (projects s)" and "proj_id p = i" and "scm_update_on_launch p"
  shows "\<exists>u. latest_project_update s' i = Some u \<and> current now (scm_update_cache_timeout p) u \<and>
    (dm_id task, dm_id u) \<in> links s' \<and> dm_id task \<in> processed s'"
proof -
  let ?s0 = "cache_projects_and_sources tasks s"
  let ?ps = "filter (\<lambda>p. proj_id p \<in> wanted_projects s tasks \<and> scm_update_on_launch p) (projects s)"
  have all: "all_projects ?s0 = fold (\<lambda>p. dict_set (proj_id p) p) ?ps []"
    by (simp add: cache_projects_and_sources_def assms(2) Let_def)
  have get: "dict_get (all_projects ?s0) k = find (\<lambda>p. proj_id p = k) (rev ?ps)" for k
    by (simp add: all cached_projects split: option.splits)
  have uniq: "q = r" if "q \<in> set (projects s)" "r \<in> set (projects s)" "proj_id q = proj_id r" for q r
    using assms(3) that by (simp add: distinct_map inj_on_def)
  have "i \<in> wanted_projects s tasks"
    using assms(4-7) by (force simp: wanted_projects_def has_id_def)
  then have "p \<in> set (rev ?ps)" using assms(8-10) by simp
  then have p: "dict_get (all_projects ?s0) i = Some p"
  proof (cases "find (\<lambda>p. proj_id p = i) (rev ?ps)")
    case None
    with \<open>p \<in> set (rev ?ps)\<close> assms(9) show ?thesis unfolding find_None_iff by blast
  next
    case (Some q)
    then have "q \<in> set (projects s)" "proj_id q = i" using find_SomeD [OF Some] by simp_all
    with uniq assms(8,9) have "q = p" by blast
    with Some show ?thesis unfolding get by simp
  qed
  have "ran (map_of (all_projects ?s0)) \<subseteq> set (projects s)"
  proof
    fix q assume "q \<in> ran (map_of (all_projects ?s0))"
    then obtain k where "find (\<lambda>p. proj_id p = k) (rev ?ps) = Some q" by (auto simp: ran_def get)
    from find_SomeD [OF this] show "q \<in> set (projects s)" by simp
  qed
  then have one: "\<forall>q \<in> ran (map_of (all_projects ?s0)). proj_id q = proj_id p \<longrightarrow> q = p"
    using uniq assms(8) by blast
  obtain s1 where s1: "dependency_loop now tasks [] ?s0 = Some (deps, s1)"
    "s' = s1\<lparr>processed := processed s1 \<union> dm_id ` set tasks\<rparr>"
    using assms(1) by (auto simp: generate_dependencies_def split: option.splits)
  from job_linked [OF s1(1) assms(4-6) p one] show ?thesis
    using assms(4,9) by (auto simp: s1(2) holds_current_def)
qed

text \<open>Two jobs of different projects, both updated on launch and never updated so far.\<close>

definition project_job :: "int \<Rightarrow> int \<Rightarrow> dm_task" where
  "project_job i p = \<lparr>dm_id = i, dm_kind = Job, dm_status = Pending, dm_finished = None, dm_processed = False,
     dm_project = Some p, dm_inventory = None, dm_source_scm = False, dm_source = None,
     dm_already_updated = None\<rparr>"

definition two_projects :: dm_state where
  "two_projects = \<lparr>projects = [\<lparr>proj_id = 1, scm_update_on_launch = True, scm_update_cache_timeout = 0\<rparr>,
       \<lparr>proj_id = 2, scm_update_on_launch = True, scm_update_cache_timeout = 0\<rparr>],
     inventory_sources = [], all_projects = [], all_inventory_sources = [],
     latest_project_update = (\<lambda>_. None), latest_inventory_update = (\<lambda>_. None), next_id = 100,
     created = [], links = {}, processed = {}\<rparr>"

lemma two_projects_run:
  "\<exists>deps s'. generate_dependencies 0 [project_job 1 1, project_job 2 2] two_projects = Some (deps, s') \<and>
     map dm_id deps = [100, 101] \<and> links s' = {(1, 100), (2, 100), (2, 101)} \<and>
     map_option dm_id (latest_project_update s' 1) = Some 100 \<and>
     map_option dm_id (latest_project_update s' 2) = Some 101"
  by (simp add: generate_dependencies_def cache_projects_and_sources_def wanted_projects_def
      wanted_inventories_def has_id_def project_job_def two_projects_def gen_dep_for_job_def
      get_or_create_project_update_def should_update_again_def new_update_def link_def Let_def insert_commute)

text \<open>
  Dependencies leak between unrelated jobs. In one pass over two jobs of different projects,
  the second job is made to depend on the project update of the first as well, because the list
  that is linked accumulates over the tasks: were that update to fail, the second job would be
  failed although its own project was updated.
\<close>

theorem dependencies_leak:
  "\<exists>deps s' u1 u2. generate_dependencies 0 [project_job 1 1, project_job 2 2] two_projects = Some (deps, s') \<and>
     latest_project_update s' 1 = Some u1 \<and> latest_project_update s' 2 = Some u2 \<and> dm_id u1 \<noteq> dm_id u2 \<and>
     dm_project (project_job 2 2) = Some 2 \<and> {d. (2, d) \<in> links s'} = {dm_id u1, dm_id u2}"
proof -
  obtain deps s' where run: "generate_dependencies 0 [project_job 1 1, project_job 2 2] two_projects = Some (deps, s')"
    and l: "links s' = {(1, 100), (2, 100), (2, 101)}"
    and u: "map_option dm_id (latest_project_update s' 1) = Some 100"
      "map_option dm_id (latest_project_update s' 2) = Some 101"
    using two_projects_run by blast
  then obtain a b where ab: "latest_project_update s' 1 = Some a" "dm_id a = 100"
    "latest_project_update s' 2 = Some b" "dm_id b = 101" by auto
  have "{d. (2, d) \<in> links s'} = {100, 101}" by (auto simp: l)
  with run ab show ?thesis
    by (intro exI [of _ deps] exI [of _ s'] exI [of _ a] exI [of _ b]) (simp add: project_job_def)
qed

theorem jobs_wait_for_current_update_witness:
  "\<exists>deps s' u. generate_dependencies 0 [project_job 1 1, project_job 2 2] two_projects = Some (deps, s') \<and>
     latest_project_update s' 2 = Some u \<and> current 0 0 u \<and> (2, dm_id u) \<in> links s'"
proof -
  obtain deps s' where run: "generate_dependencies 0 [project_job 1 1, project_job 2 2] two_projects = Some (deps, s')"
    using two_projects_run by blast
  have "\<exists>u. latest_project_update s' 2 = Some u \<and> current 0 (scm_update_cache_timeout
      \<lparr>proj_id = 2, scm_update_on_launch = True, scm_update_cache_timeout = 0\<rparr>) u \<and>
    (dm_id (project_job 2 2), dm_id u) \<in> links s' \<and> dm_id (project_job 2 2) \<in> processed s'"
    by (rule jobs_wait_for_current_update [OF run]) (simp_all add: two_projects_def project_job_def)
  with run show ?thesis by (auto simp: project_job_def)
qed

end
