(* ===== verification/PeriodicScheduler.thy ===== *)
theory PeriodicScheduler
  imports Complex_Main Prelude
begin

section \<open>Periodic tasks of \<^verbatim>\<open>forail/main/dispatch/periodic.py\<close>\<close>

text \<open>
  The dispatcher's scheduler keeps, for every periodic task, how many periods have passed, and
  spreads the tasks over the shortest interval. Target times are integers, the current time is
  a rational number; all times are relative to the start of the scheduler.
\<close>

subsection \<open>One scheduled task\<close>

record scheduled_task =
  task_name :: string
  interval :: int
  offset :: int
  index :: int
  last_run :: "rat option"
  completed_runs :: int

definition new_task :: "string \<times> int \<Rightarrow> scheduled_task" where
  "new_task entry = \<lparr>task_name = fst entry, interval = snd entry, offset = 0, index = 0, last_run = None,
     completed_runs = 0\<rparr>"

definition next_run :: "scheduled_task \<Rightarrow> int" where
  "next_run j = (index j + 1) * interval j + offset j"

definition due_to_run :: "scheduled_task \<Rightarrow> rat \<Rightarrow> bool" where
  "due_to_run j relative_time \<longleftrightarrow> of_int (next_run j) \<le> relative_time"

text \<open>\<open>int(x)\<close> truncates toward zero.\<close>

definition py_int :: "rat \<Rightarrow> int" where
  "py_int x = (if x \<ge> 0 then \<lfloor>x\<rfloor> else - \<lfloor>- x\<rfloor>)"

definition expected_runs :: "scheduled_task \<Rightarrow> rat \<Rightarrow> int" where
  "expected_runs j relative_time = py_int ((relative_time - of_int (offset j)) / of_int (interval j))"

definition mark_run :: "rat \<Rightarrow> scheduled_task \<Rightarrow> scheduled_task" where
  "mark_run relative_time j =
     (let j1 = j\<lparr>last_run := Some relative_time, completed_runs := completed_runs j + 1\<rparr>
      in j1\<lparr>index := expected_runs j1 relative_time\<rparr>)"

definition missed_runs :: "scheduled_task \<Rightarrow> rat \<Rightarrow> int" where
  "missed_runs j relative_time =
     (let missed_ct = expected_runs j relative_time - completed_runs j
      in if missed_ct \<noteq> 0 \<and> due_to_run j relative_time then missed_ct - 1 else missed_ct)"

subsection \<open>The scheduler\<close>

text \<open>
  The constructor on the entries of the schedule (name and interval in whole seconds).
  \<^const>\<open>None\<close>: \<open>min\<close> of no jobs, or more jobs than the shortest interval has seconds.
\<close>

definition spread :: "int \<Rightarrow> nat \<Rightarrow> nat \<Rightarrow> scheduled_task \<Rightarrow> scheduled_task" where
  "spread min_interval num_jobs i j = j\<lparr>offset := (int i * min_interval) div int num_jobs\<rparr>"

definition new_scheduler :: "(string \<times> int) list \<Rightarrow> scheduled_task list option" where
  "new_scheduler schedule =
     (if schedule = [] then None
      else
        (let jobs = map new_task schedule;
             min_interval = Min (set (map interval jobs));
             num_jobs = length jobs
         in if int num_jobs > min_interval then None
            else Some (map (\<lambda>(i, j). spread min_interval num_jobs i j) (zip [0 ..< num_jobs] jobs))))"

fun get_and_mark_pending :: "rat \<Rightarrow> scheduled_task list \<Rightarrow> scheduled_task list \<times> scheduled_task list" where
  "get_and_mark_pending relative_time [] = ([], [])"
| "get_and_mark_pending relative_time (j # js) =
     (let (to_run, js') = get_and_mark_pending relative_time js in
      if due_to_run j relative_time
      then (mark_run relative_time j # to_run, mark_run relative_time j # js')
      else (to_run, j # js'))"

definition time_until_next_run :: "rat \<Rightarrow> scheduled_task list \<Rightarrow> rat" where
  "time_until_next_run relative_time jobs =
     (let next_job = arg_min_list next_run jobs;
          delta = of_int (next_run next_job) - relative_time
      in if delta \<le> 1 / 10 then 1 / 10 else if delta > 20 then 20 else delta)"

subsection \<open>Target times\<close>

text \<open>What the constructor establishes and every run keeps of a job.\<close>

definition job_inv :: "int \<Rightarrow> scheduled_task \<Rightarrow> bool" where
  "job_inv min_interval j \<longleftrightarrow> min_interval \<ge> 1 \<and> interval j \<ge> min_interval \<and>
     0 \<le> offset j \<and> offset j < min_interval \<and> 0 \<le> completed_runs j \<and> completed_runs j \<le> index j"

lemma due_quotient:
  assumes "job_inv m j" and "due_to_run j t"
  shows "of_int (index j + 1) \<le> (t - of_int (offset j)) / of_int (interval j)"
proof -
  have pos: "(0 :: rat) < of_int (interval j)" using assms(1) by (simp add: job_inv_def)
  have "of_int (index j + 1) * of_int (interval j) \<le> t - (of_int (offset j) :: rat)"
    using assms(2) by (simp add: due_to_run_def next_run_def algebra_simps)
  then show ?thesis using pos by (simp add: pos_le_divide_eq)
qed

lemma expected_due:
  assumes "job_inv m j" and "due_to_run j t"
  shows "expected_runs j t = \<lfloor>(t - of_int (offset j)) / of_int (interval j)\<rfloor> \<and> index j + 1 \<le> expected_runs j t"
proof -
  let ?q = "(t - of_int (offset j)) / of_int (interval j) :: rat"
  have le: "of_int (index j + 1) \<le> ?q" by (rule due_quotient [OF assms])
  have "(0 :: rat) \<le> of_int (index j + 1)" using assms(1) by (simp add: job_inv_def)
  with le have "0 \<le> ?q" by linarith
  then have "expected_runs j t = \<lfloor>?q\<rfloor>" by (simp add: expected_runs_def py_int_def)
  with le show ?thesis by (simp add: le_floor_iff)
qed

lemma mark_run_fields:
  "interval (mark_run t j) = interval j" "offset (mark_run t j) = offset j"
  "completed_runs (mark_run t j) = completed_runs j + 1" "index (mark_run t j) = expected_runs j t"
  "task_name (mark_run t j) = task_name j"
  by (simp_all add: mark_run_def Let_def expected_runs_def)

lemma mark_run_next:
  assumes "job_inv m j" and "due_to_run j t"
  shows "t < of_int (next_run (mark_run t j)) \<and> of_int (next_run (mark_run t j)) \<le> t + of_int (interval j) \<and>
    job_inv m (mark_run t j) \<and> next_run j < next_run (mark_run t j)"
proof -
  let ?q = "(t - of_int (offset j)) / of_int (interval j) :: rat"
  have pos: "(0 :: rat) < of_int (interval j)" using assms(1) by (simp add: job_inv_def)
  have e: "expected_runs j t = \<lfloor>?q\<rfloor>" "index j + 1 \<le> expected_runs j t" using expected_due [OF assms] by simp_all
  have next_eq: "next_run (mark_run t j) = (\<lfloor>?q\<rfloor> + 1) * interval j + offset j"
    by (simp add: next_run_def mark_run_fields e(1))
  have "?q < of_int (\<lfloor>?q\<rfloor> + 1)" by linarith
  then have "t - of_int (offset j) < of_int (\<lfloor>?q\<rfloor> + 1) * of_int (interval j)"
    using pos by (simp only: pos_divide_less_eq)
  moreover have "of_int \<lfloor>?q\<rfloor> \<le> ?q" by linarith
  then have "of_int \<lfloor>?q\<rfloor> * of_int (interval j) \<le> t - of_int (offset j)"
    using pos by (simp only: pos_le_divide_eq)
  moreover have "job_inv m (mark_run t j)"
    using assms(1) e(2) by (simp add: job_inv_def mark_run_fields)
  moreover have "next_run j < next_run (mark_run t j)"
  proof -
    have "(index j + 1) * interval j < (expected_runs j t + 1) * interval j"
      using e(2) assms(1) by (intro mult_strict_right_mono) (simp_all add: job_inv_def)
    then show ?thesis by (simp add: next_run_def mark_run_fields)
  qed
  ultimately show ?thesis by (simp add: next_eq algebra_simps)
qed

lemma marked_jobs:
  "snd (get_and_mark_pending t js) = map (\<lambda>j. if due_to_run j t then mark_run t j else j) js \<and>
   fst (get_and_mark_pending t js) = map (mark_run t) (filter (\<lambda>j. due_to_run j t) js)"
proof (induction js)
  case Nil
  then show ?case by simp
next
  case (Cons j js)
  obtain r js' where "get_and_mark_pending t js = (r, js')" by force
  with Cons show ?case by simp
qed

subsection \<open>Properties\<close>

text \<open>
  A call of \<open>get_and_mark_pending\<close> runs exactly the jobs that are due, and afterwards none is:
  the next target of every job lies in the future. A job that ran keeps its grid (its targets
  stay \<open>offset\<close> plus multiples of \<open>interval\<close>) and is next due within one interval; missed periods
  are skipped, and never counted as completed.
\<close>

theorem pending_runs_each_due_job_once:
  assumes "\<forall>j \<in> set js. job_inv m j"
  shows "map task_name (fst (get_and_mark_pending t js)) = map task_name (filter (\<lambda>j. due_to_run j t) js) \<and>
    (\<forall>j \<in> set (snd (get_and_mark_pending t js)). job_inv m j \<and> \<not> due_to_run j t \<and>
       (next_run j - offset j) mod interval j = 0) \<and>
    (\<forall>j \<in> set (fst (get_and_mark_pending t js)). of_int (next_run j) \<le> t + of_int (interval j) \<and>
       completed_runs j \<le> expected_runs j t)"
proof (intro conjI ballI)
  show "map task_name (fst (get_and_mark_pending t js)) = map task_name (filter (\<lambda>j. due_to_run j t) js)"
    by (simp add: marked_jobs mark_run_fields comp_def)
next
  fix j assume "j \<in> set (snd (get_and_mark_pending t js))"
  then obtain i where i: "i \<in> set js" "j = (if due_to_run i t then mark_run t i else i)"
    by (auto simp: marked_jobs)
  have inv: "job_inv m i" using assms i(1) by blast
  show "job_inv m j" using i(2) inv mark_run_next [OF inv, of t] by simp
  show "\<not> due_to_run j t"
    using i(2) mark_run_next [OF inv, of t] by (auto simp: due_to_run_def not_le)
  show "(next_run j - offset j) mod interval j = 0" by (simp add: next_run_def)
next
  fix j assume "j \<in> set (fst (get_and_mark_pending t js))"
  then obtain i where i: "i \<in> set js" "due_to_run i t" "j = mark_run t i" by (auto simp: marked_jobs)
  have inv: "job_inv m i" using assms i(1) by blast
  show "of_int (next_run j) \<le> t + of_int (interval j)"
    using mark_run_next [OF inv i(2)] i(3) by (simp add: mark_run_fields)
  have "expected_runs j t = expected_runs i t" by (simp add: i(3) expected_runs_def mark_run_fields)
  then show "completed_runs j \<le> expected_runs j t"
    using expected_due [OF inv i(2)] inv by (simp add: i(3) mark_run_fields job_inv_def)
qed

lemma offsets_ascending:
  assumes "0 < n" and "int n \<le> m" and "i < k" 
  shows "(int i * m) div int n < (int k * m) div int n"
proof -
  have "int i * m + int n \<le> int k * m"
  proof -
    have "int i * m + m \<le> int k * m"
      using mult_right_mono [of "int i + 1" "int k" m] assms by (simp add: algebra_simps)
    with assms(2) show ?thesis by linarith
  qed
  then have "(int i * m + int n) div int n \<le> (int k * m) div int n"
    by (rule zdiv_mono1) (use assms(1) in simp)
  moreover have "(int i * m + int n) div int n = (int i * m) div int n + 1" using assms(1) by simp
  ultimately show ?thesis by linarith
qed

lemma new_scheduler_cases:
  "new_scheduler schedule =
     (if schedule = [] \<or> Min (set (map snd schedule)) < int (length schedule) then None
      else Some (map (\<lambda>(i, j). spread (Min (set (map snd schedule))) (length schedule) i j)
        (zip [0 ..< length schedule] (map new_task schedule))))"
proof -
  have "map interval (map new_task schedule) = map snd schedule" by (simp add: new_task_def)
  then show ?thesis unfolding new_scheduler_def Let_def by (simp only: length_map) simp
qed

text \<open>
  A schedule is accepted iff it is not empty and has no more jobs than its shortest interval has
  seconds; then the jobs start on different seconds within the shortest interval, in order, and
  satisfy the invariant that the runs rely on.
\<close>

theorem new_scheduler_spreads:
  "(case new_scheduler schedule of
      None \<Rightarrow> schedule = [] \<or> Min (set (map snd schedule)) < int (length schedule)
    | Some jobs \<Rightarrow> schedule \<noteq> [] \<and> map task_name jobs = map fst schedule \<and>
        map interval jobs = map snd schedule \<and> sorted_wrt (<) (map offset jobs) \<and>
        list_all (job_inv (Min (set (map snd schedule)))) jobs)"
proof (cases "schedule = [] \<or> Min (set (map snd schedule)) < int (length schedule)")
  case True
  then show ?thesis by (simp add: new_scheduler_cases del: set_map)
next
  case False
  let ?n = "length schedule"
  define m where "m = Min (set (map snd schedule))"
  define jobs where "jobs = map (\<lambda>(i, j). spread m ?n i j) (zip [0 ..< ?n] (map new_task schedule))"
  have some: "new_scheduler schedule = Some jobs"
    unfolding new_scheduler_cases jobs_def m_def using False by (simp only: if_False)
  have n: "0 < ?n" "int ?n \<le> m"
    unfolding m_def using False by (simp_all only: not_less de_Morgan_disj length_greater_0_conv simp_thms)
  have len: "length jobs = ?n" by (simp add: jobs_def)
  have nth: "jobs ! i = (new_task (schedule ! i))\<lparr>offset := (int i * m) div int ?n\<rparr>" if "i < ?n" for i
    using that by (simp add: jobs_def spread_def)
  have "map task_name jobs = map fst schedule" "map interval jobs = map snd schedule"
    by (rule nth_equalityI; use nth len in \<open>simp add: new_task_def\<close>)+
  moreover have "sorted_wrt (<) (map offset jobs)"
    unfolding sorted_wrt_iff_nth_less
  proof (intro allI impI)
    fix i k assume ik: "i < k" "k < length (map offset jobs)"
    then have "i < ?n" "k < ?n" using len by simp_all
    then show "map offset jobs ! i < map offset jobs ! k"
      using offsets_ascending [OF n ik(1)] by (simp add: nth len)
  qed
  moreover have "job_inv m j" if mem: "j \<in> set jobs" for j
  proof -
    obtain i where i: "i < ?n" "j = jobs ! i" using mem by (auto simp: in_set_conv_nth len)
    have "m \<le> snd (schedule ! i)" unfolding m_def using i(1) by (intro Min_le) auto
    moreover have "(int i * m) div int ?n < m"
    proof -
      have lt: "int i * m < int ?n * m" using i(1) n by simp
      show ?thesis
      proof (rule ccontr)
        assume "\<not> (int i * m) div int ?n < m"
        then have "m * int ?n \<le> (int i * m) div int ?n * int ?n"
          by (intro mult_right_mono) simp_all
        also have "\<dots> \<le> int i * m"
          using n(1) by (metis div_mult_mod_eq le_add_same_cancel1 of_nat_0_less_iff pos_mod_sign)
        finally show False using lt by (simp add: mult.commute)
      qed
    qed
    ultimately show ?thesis
      using i n by (simp add: nth job_inv_def new_task_def pos_imp_zdiv_nonneg_iff)
  qed
  ultimately show ?thesis
    using False unfolding some m_def [symmetric] list_all_iff by (simp del: set_map)
qed

text \<open>
  The wait that the scheduler asks for is always between a tenth of a second and twenty seconds,
  and when the earliest target lies in this range it is exactly the time until that target.
\<close>

theorem wait_is_bounded:
  "time_until_next_run t jobs \<in> {1 / 10 .. 20} \<and>
   (jobs = [] \<or> Min (next_run ` set jobs) = next_run (arg_min_list next_run jobs)) \<and>
   time_until_next_run t jobs = max (1 / 10) (min 20 (of_int (next_run (arg_min_list next_run jobs)) - t))"
proof (intro conjI)
  show "jobs = [] \<or> Min (next_run ` set jobs) = next_run (arg_min_list next_run jobs)"
    by (metis f_arg_min_list_f)
qed (auto simp: time_until_next_run_def Let_def max_def min_def)

subsection \<open>Witness\<close>

theorem pending_runs_each_due_job_once_witness:
  "map task_name (fst (get_and_mark_pending 25 [(new_task (''a'', 10))\<lparr>offset := 1\<rparr>, new_task (''b'', 60)])) = [''a''] \<and>
   filter (\<lambda>j. due_to_run j 25)
     (snd (get_and_mark_pending 25 [(new_task (''a'', 10))\<lparr>offset := 1\<rparr>, new_task (''b'', 60)])) = []"
proof -
  have "\<forall>j \<in> set [(new_task (''a'', 10))\<lparr>offset := 1\<rparr>, new_task (''b'', 60)]. job_inv 10 j"
    by (simp add: job_inv_def new_task_def)
  from pending_runs_each_due_job_once [OF this, of 25] show ?thesis
    by (simp add: filter_empty_conv due_to_run_def next_run_def new_task_def)
qed

end
