(* ===== verification/Reaper.thy ===== *)
theory Reaper
  imports DependencyGraph
begin

section \<open>Reaping lost jobs\<close>

text \<open>
  \<^verbatim>\<open>forail/main/dispatch/reaper.py\<close>, and the two sweeps of the task manager
  (\<^verbatim>\<open>forail/main/scheduler/task_manager.py\<close>) over orphaned jobs and expired
  approvals. The job table is the list of its rows; a sweep selects rows and ends each that is
  still waiting or running.
\<close>

subsection \<open>Rows\<close>

text \<open>Times are in seconds. \<open>job_uuid\<close> is \<open>celery_task_id\<close>.\<close>

record job_row =
  job_pk :: int
  job_kind :: task_type
  job_status :: job_status
  job_text :: string
  job_start_args :: string
  job_controller :: string
  job_execution :: string
  job_modified :: int
  job_started :: "int option"
  job_uuid :: string
  job_container_group :: bool

text \<open>The table, and the status messages that were emitted.\<close>

record job_table =
  rows :: "job_row list"
  emitted :: "(int \<times> job_status) list"

definition reaped_row :: "job_status \<Rightarrow> string option \<Rightarrow> job_row \<Rightarrow> job_row" where
  "reaped_row status explanation j =
     (let before = (if job_text j \<noteq> [] then job_text j @ '' '' else job_text j);
          text = (case explanation of
              None \<Rightarrow> ''Task was marked as running but was not present in the job queue, so it has been marked as failed.''
            | Some e \<Rightarrow> e)
      in j\<lparr>job_status := status, job_start_args := [], job_text := before @ text\<rparr>)"

definition reap_job :: "job_status \<Rightarrow> string option \<Rightarrow> int \<Rightarrow> job_table \<Rightarrow> job_table" where
  "reap_job status explanation pk t =
     (case find (\<lambda>j. job_pk j = pk) (rows t) of
        None \<Rightarrow> t
      | Some j \<Rightarrow>
          if job_status j \<notin> set [Running, Waiting] then t
          else t\<lparr>rows := map (\<lambda>r. if job_pk r = pk then reaped_row status explanation r else r) (rows t),
                 emitted := emitted t @ [(pk, status)]\<rparr>)"

definition reap_all :: "job_status \<Rightarrow> string option \<Rightarrow> (job_row \<Rightarrow> bool) \<Rightarrow> job_table \<Rightarrow> job_table" where
  "reap_all status explanation selected t =
     fold (reap_job status explanation) (map job_pk (filter selected (rows t))) t"

subsection \<open>The sweeps\<close>

definition startup_selected :: "string \<Rightarrow> job_row \<Rightarrow> bool" where
  "startup_selected my_hostname j \<longleftrightarrow> job_status j = Running \<and> job_controller j = my_hostname"

definition startup_reaping :: "string \<Rightarrow> job_table \<Rightarrow> job_table" where
  "startup_reaping my_hostname =
     reap_all Failed (Some ''Task was marked as running at system start up. The system must have not shut down properly, so it has been marked as failed.'')
       (startup_selected my_hostname)"

text \<open>
  \<open>reap_waiting\<close>: the grace period defaults to the sum of the two settings.
\<close>

definition waiting_selected :: "string \<Rightarrow> int \<Rightarrow> string list \<Rightarrow> job_row \<Rightarrow> bool" where
  "waiting_selected host deadline excluded_uuids j \<longleftrightarrow>
     job_status j = Waiting \<and> job_modified j \<le> deadline \<and> job_controller j = host \<and>
     \<not> (excluded_uuids \<noteq> [] \<and> job_uuid j \<in> set excluded_uuids)"

definition reap_waiting ::
  "int \<Rightarrow> int \<Rightarrow> string \<Rightarrow> job_status \<Rightarrow> string option \<Rightarrow> int option \<Rightarrow> string list \<Rightarrow> int \<Rightarrow> job_table \<Rightarrow> job_table" where
  "reap_waiting job_waiting_grace_period task_manager_timeout host status explanation grace_period
       excluded_uuids ref_time =
     (let grace = (case grace_period of None \<Rightarrow> job_waiting_grace_period + task_manager_timeout | Some g \<Rightarrow> g)
      in reap_all status explanation (waiting_selected host (ref_time - grace) excluded_uuids))"

definition running_selected :: "string \<Rightarrow> string list \<Rightarrow> int option \<Rightarrow> job_row \<Rightarrow> bool" where
  "running_selected host excluded_uuids ref_time j \<longleftrightarrow>
     (job_status j = Running \<and> (job_execution j = host \<or> job_controller j = host) \<and> job_kind j \<noteq> WorkflowJob) \<and>
     (case ref_time of None \<Rightarrow> True | Some r \<Rightarrow> (case job_started j of None \<Rightarrow> False | Some s \<Rightarrow> s \<le> r)) \<and>
     \<not> (excluded_uuids \<noteq> [] \<and> job_uuid j \<in> set excluded_uuids)"

definition reap :: "string \<Rightarrow> job_status \<Rightarrow> string option \<Rightarrow> string list \<Rightarrow> int option \<Rightarrow> job_table \<Rightarrow> job_table" where
  "reap host status explanation excluded_uuids ref_time =
     reap_all status explanation (running_selected host excluded_uuids ref_time)"

text \<open>
  \<open>reap_jobs_from_orphaned_instances\<close> of the task manager; \<open>hostnames\<close> are those of the
  registered instances that are not hop nodes.
\<close>

definition orphan_selected :: "string list \<Rightarrow> job_row \<Rightarrow> bool" where
  "orphan_selected hostnames j \<longleftrightarrow>
     job_status j \<in> set [Pending, Waiting, Running] \<and> job_execution j \<notin> set hostnames \<and>
     job_execution j \<noteq> [] \<and> \<not> job_container_group j"

definition reap_jobs_from_orphaned_instances :: "string list \<Rightarrow> job_table \<Rightarrow> job_table" where
  "reap_jobs_from_orphaned_instances hostnames = reap_all Failed None (orphan_selected hostnames)"

subsection \<open>Expired approvals\<close>

record approval =
  appr_id :: int
  appr_name :: string
  appr_status :: job_status
  appr_timeout :: int
  appr_expires :: "int option"
  appr_timed_out :: bool
  appr_text :: string

definition expired :: "int \<Rightarrow> approval \<Rightarrow> bool" where
  "expired now a \<longleftrightarrow> appr_status a = Pending \<and> appr_timeout a \<noteq> 0 \<and>
     (case appr_expires a of None \<Rightarrow> False | Some e \<Rightarrow> e < now)"

definition timeout_approval_node :: "approval \<Rightarrow> approval" where
  "timeout_approval_node a =
     a\<lparr>appr_timed_out := True, appr_status := Failed,
       appr_text := ''The approval node '' @ appr_name a @ '' ('' @ int_str (appr_id a) @ '') has expired after '' @
          int_str (appr_timeout a) @ '' seconds.''\<rparr>"

text \<open>
  The sweep at the end of a run; \<open>late i\<close> says whether the time is used up at the \<open>i\<close>-th
  expired approval.
\<close>

fun timeout_approvals :: "(nat \<Rightarrow> bool) \<Rightarrow> int \<Rightarrow> nat \<Rightarrow> approval list \<Rightarrow> approval list" where
  "timeout_approvals late now i [] = []"
| "timeout_approvals late now i (a # as) =
     (if expired now a
      then (if late i then a else timeout_approval_node a) # timeout_approvals late now (Suc i) as
      else a # timeout_approvals late now i as)"

subsection \<open>One sweep\<close>

definition unique_rows :: "job_table \<Rightarrow> bool" where
  "unique_rows t \<longleftrightarrow> distinct (map job_pk (rows t))"

lemma find_row:
  "distinct (map job_pk js) \<Longrightarrow> j \<in> set js \<Longrightarrow> find (\<lambda>r. job_pk r = job_pk j) js = Some j"
  by (induction js) auto

lemma reap_job_rows:
  "rows (reap_job status e pk t) = map (\<lambda>r. if job_pk r = pk \<and> job_status r \<in> {Running, Waiting}
      then reaped_row status e r else r) (rows t)" if "unique_rows t"
proof (cases "find (\<lambda>j. job_pk j = pk) (rows t)")
  case None
  then have "\<forall>r \<in> set (rows t). job_pk r \<noteq> pk" by (simp add: find_None_iff)
  then have "map (\<lambda>r. if job_pk r = pk \<and> job_status r \<in> {Running, Waiting} then reaped_row status e r else r) (rows t)
      = map (\<lambda>r. r) (rows t)" by (intro map_cong) auto
  then show ?thesis using None by (simp add: reap_job_def)
next
  case (Some j)
  then have j: "j \<in> set (rows t)" "job_pk j = pk" using find_SomeD by fastforce+
  have only: "r = j" if "r \<in> set (rows t)" "job_pk r = pk" for r
    using \<open>unique_rows t\<close> that j by (auto simp: unique_rows_def distinct_map inj_on_def)
  show ?thesis
  proof (cases "job_status j \<in> {Running, Waiting}")
    case True
    then show ?thesis using Some only by (auto simp: reap_job_def intro!: map_cong)
  next
    case False
    have "map (\<lambda>r. if job_pk r = pk \<and> job_status r \<in> {Running, Waiting} then reaped_row status e r else r) (rows t)
        = map (\<lambda>r. r) (rows t)" using only False by (intro map_cong) auto
    then show ?thesis using Some False by (simp add: reap_job_def)
  qed
qed

lemma reaped_row_fields [simp]:
  "job_pk (reaped_row status e r) = job_pk r" "job_status (reaped_row status e r) = status"
  "job_kind (reaped_row status e r) = job_kind r" "job_uuid (reaped_row status e r) = job_uuid r"
  by (simp_all add: reaped_row_def Let_def)

lemma reap_job_unique: "unique_rows t \<Longrightarrow> unique_rows (reap_job status e pk t)"
proof -
  assume u: "unique_rows t"
  have "map job_pk (rows (reap_job status e pk t)) = map job_pk (rows t)"
    by (simp add: reap_job_rows [OF u] comp_def if_distrib)
  with u show ?thesis by (simp add: unique_rows_def)
qed

lemma fold_reap_rows:
  assumes "status \<notin> {Running, Waiting}"
  shows "unique_rows t \<Longrightarrow> rows (fold (reap_job status e) pks t) =
    map (\<lambda>r. if job_pk r \<in> set pks \<and> job_status r \<in> {Running, Waiting} then reaped_row status e r else r) (rows t)"
proof (induction pks arbitrary: t)
  case Nil
  then show ?case by simp
next
  case (Cons pk pks)
  show ?case
    unfolding fold_Cons comp_apply Cons.IH [OF reap_job_unique [OF Cons.prems]] reap_job_rows [OF Cons.prems]
    using assms by (auto intro!: map_cong)
qed

lemma reap_all_rows:
  assumes "unique_rows t" and "status \<notin> {Running, Waiting}"
  shows "rows (reap_all status e sel t) =
    map (\<lambda>r. if sel r \<and> job_status r \<in> {Running, Waiting} then reaped_row status e r else r) (rows t)"
proof -
  have "r \<in> set (rows t) \<Longrightarrow> job_pk r \<in> job_pk ` {r \<in> set (rows t). sel r} \<longleftrightarrow> sel r" for r
    using assms(1) by (auto simp: unique_rows_def distinct_map inj_on_def)
  then show ?thesis
    unfolding reap_all_def fold_reap_rows [OF assms(2,1)] by (auto intro!: map_cong)
qed

lemma reap_rows:
  assumes "unique_rows t" and "status \<notin> {Running, Waiting}"
  shows "rows (reap host status e excluded ref t) =
    map (\<lambda>r. if running_selected host excluded ref r then reaped_row status e r else r) (rows t)"
  unfolding reap_def reap_all_rows [OF assms] by (auto simp: running_selected_def intro!: map_cong)

subsection \<open>Properties\<close>

text \<open>
  A sweep for the running jobs of a node ends exactly these jobs, and only jobs that are
  waiting or running at all: workflow jobs, jobs the dispatcher still knows and jobs of other
  nodes keep their rows. A second sweep changes nothing.
\<close>

theorem reap_exact:
  assumes "unique_rows t" and "status \<notin> {Running, Waiting}"
  shows "rows (reap host status e excluded ref t) =
      map (\<lambda>r. if running_selected host excluded ref r then reaped_row status e r else r) (rows t) \<and>
    (\<forall>r \<in> set (rows t). job_kind r = WorkflowJob \<or> job_uuid r \<in> set excluded \<or>
       host \<notin> {job_execution r, job_controller r} \<longrightarrow> r \<in> set (rows (reap host status e excluded ref t))) \<and>
    rows (reap host status e excluded ref (reap host status e excluded ref t)) =
      rows (reap host status e excluded ref t)"
proof -
  let ?t = "reap host status e excluded ref t"
  have rows: "rows ?t = map (\<lambda>r. if running_selected host excluded ref r then reaped_row status e r else r) (rows t)"
    by (rule reap_rows [OF assms])
  have "map job_pk (rows ?t) = map job_pk (rows t)"
    unfolding rows by (simp add: comp_def if_distrib)
  then have u: "unique_rows ?t" using assms(1) by (simp add: unique_rows_def)
  have "\<not> running_selected host excluded ref (reaped_row status e r)" for r
    using assms(2) by (simp add: running_selected_def)
  then have none: "\<forall>r \<in> set (rows ?t). \<not> running_selected host excluded ref r" unfolding rows by auto
  have "rows (reap host status e excluded ref ?t) =
      map (\<lambda>r. if running_selected host excluded ref r then reaped_row status e r else r) (rows ?t)"
    by (rule reap_rows [OF u assms(2)])
  then have "rows (reap host status e excluded ref ?t) = rows ?t"
    using none by (simp add: map_idI)
  moreover have "r \<in> set (rows ?t)"
    if "r \<in> set (rows t)" "job_kind r = WorkflowJob \<or> job_uuid r \<in> set excluded \<or>
       host \<notin> {job_execution r, job_controller r}" for r
  proof -
    have "\<not> running_selected host excluded ref r" using that(2) by (auto simp: running_selected_def)
    then show ?thesis using that(1) unfolding rows by force
  qed
  ultimately show ?thesis using rows by blast
qed

text \<open>
  The sweep over orphaned instances never fails a pending job: \<open>reap_job\<close> refuses every job that
  is not waiting or running, although the sweep selects pending ones, too. What it fails are the
  waiting and running jobs on unregistered nodes.
\<close>

theorem orphan_sweep_spares_pending:
  assumes "unique_rows t"
  shows "rows (reap_jobs_from_orphaned_instances hostnames t) =
    map (\<lambda>r. if job_status r \<in> {Waiting, Running} \<and> job_execution r \<noteq> [] \<and> job_execution r \<notin> set hostnames \<and>
              \<not> job_container_group r then reaped_row Failed None r else r) (rows t)"
proof -
  have "Failed \<notin> {Running, Waiting}" by simp
  then show ?thesis
    unfolding reap_jobs_from_orphaned_instances_def reap_all_rows [OF assms \<open>Failed \<notin> {Running, Waiting}\<close>]
    by (auto simp: orphan_selected_def intro!: map_cong)
qed

text \<open>
  Within the time budget, the approval sweep ends exactly the pending approvals whose deadline has
  passed (a timeout of 0 never expires), and leaves none expired.
\<close>

theorem approvals_expire:
  "timeout_approvals (\<lambda>_. False) now i as = map (\<lambda>a. if expired now a then timeout_approval_node a else a) as \<and>
   \<not> list_ex (expired now) (timeout_approvals (\<lambda>_. False) now i as)"
proof
  show eq: "timeout_approvals (\<lambda>_. False) now i as = map (\<lambda>a. if expired now a then timeout_approval_node a else a) as"
    by (induction as arbitrary: i) simp_all
  have "\<not> expired now (timeout_approval_node a)" for a by (simp add: expired_def timeout_approval_node_def)
  then show "\<not> list_ex (expired now) (timeout_approvals (\<lambda>_. False) now i as)"
    unfolding eq by (auto simp: list_ex_iff)
qed

subsection \<open>Witnesses\<close>

definition lost_job :: "int \<Rightarrow> job_status \<Rightarrow> string \<Rightarrow> job_row" where
  "lost_job pk status node = \<lparr>job_pk = pk, job_kind = Job, job_status = status, job_text = [],
     job_start_args = [], job_controller = node, job_execution = node, job_modified = 0,
     job_started = Some 0, job_uuid = int_str pk, job_container_group = False\<rparr>"

definition lost_table :: job_table where
  "lost_table = \<lparr>rows = [lost_job 1 Running ''a'', lost_job 2 Pending ''gone'', lost_job 3 Running ''gone''], emitted = []\<rparr>"

lemma lost_table_unique: "unique_rows lost_table"
  by (simp add: unique_rows_def lost_table_def lost_job_def)

theorem reap_exact_witness:
  "map job_status (rows (reap ''a'' Failed None [] None lost_table)) = [Failed, Pending, Running]"
  using reap_exact [OF lost_table_unique, of Failed "''a''" None "[]" None]
  by (simp add: lost_table_def lost_job_def running_selected_def)

theorem orphan_sweep_spares_pending_witness:
  "map job_status (rows (reap_jobs_from_orphaned_instances [''a''] lost_table)) = [Running, Pending, Failed]"
  using orphan_sweep_spares_pending [OF lost_table_unique, of "[''a'']"]
  by (simp add: lost_table_def lost_job_def)

end
