(* ===== verification/TaskManagerModels.thy ===== *)
theory TaskManagerModels
  imports DependencyGraph
begin

section \<open>The capacity ledger of \<^verbatim>\<open>forail/main/scheduler/task_manager_models.py\<close>\<close>

text \<open>
  In-memory copies of instances and instance groups on which the task manager books the tasks it
  starts. \<open>TaskManagerInstance\<close> objects are shared between the instance map and every group they
  belong to; the model keeps them once, in the map by hostname, and a group holds hostnames.
  The query sets of the constructors are arguments, in the order of the query.
\<close>

subsection \<open>Instances\<close>

record tm_instance =
  node_kind :: node_type
  consumed_capacity :: int
  capacity :: int
  hostname :: string
  jobs_running :: int

record instance_row =
  row_hostname :: string
  row_node_type :: node_type
  row_capacity :: int

definition new_instance :: "instance_row \<Rightarrow> tm_instance" where
  "new_instance obj = \<lparr>node_kind = row_node_type obj, consumed_capacity = 0, capacity = row_capacity obj,
     hostname = row_hostname obj, jobs_running = 0\<rparr>"

definition instance_consume_capacity :: "int \<Rightarrow> bool \<Rightarrow> tm_instance \<Rightarrow> tm_instance" where
  "instance_consume_capacity impact job_impact i =
     (let i1 = i\<lparr>consumed_capacity := consumed_capacity i + impact\<rparr> in
      if job_impact then i1\<lparr>jobs_running := jobs_running i1 + 1\<rparr> else i1)"

definition remaining_capacity :: "tm_instance \<Rightarrow> int" where
  "remaining_capacity i =
     (let remaining = capacity i - consumed_capacity i in if remaining < 0 then 0 else remaining)"

subsection \<open>The instance map\<close>

record tm_instances =
  instances_by_hostname :: "(string, tm_instance) pydict"
  control_task_impact :: int

definition build_instances :: "int \<Rightarrow> instance_row list \<Rightarrow> tm_instances" where
  "build_instances impact rows =
     \<lparr>instances_by_hostname = fold (\<lambda>i. dict_set (row_hostname i) (new_instance i)) rows [],
      control_task_impact = impact\<rparr>"

definition update_instance :: "string \<Rightarrow> (tm_instance \<Rightarrow> tm_instance) \<Rightarrow> tm_instances \<Rightarrow> tm_instances" where
  "update_instance host f m =
     (case dict_get (instances_by_hostname m) host of
        None \<Rightarrow> m
      | Some i \<Rightarrow> m\<lparr>instances_by_hostname := dict_set host (f i) (instances_by_hostname m)\<rparr>)"

text \<open>
  \<open>TaskManagerInstances.consume_capacity\<close>: the node types are read before anything is booked.
\<close>

definition instances_consume_capacity :: "task \<Rightarrow> tm_instances \<Rightarrow> tm_instances" where
  "instances_consume_capacity task m =
     (let control_instance = dict_get (instances_by_hostname m) (controller_node task);
          execution_instance = dict_get (instances_by_hostname m) (execution_node task);
          m1 = (case execution_instance of
                  Some i \<Rightarrow> if node_kind i \<in> set [Hybrid, Execution]
                    then update_instance (execution_node task) (instance_consume_capacity (task_impact task) True) m
                    else m
                | None \<Rightarrow> m)
      in case control_instance of
           Some i \<Rightarrow> if node_kind i \<in> set [Hybrid, Control]
             then update_instance (controller_node task)
                    (instance_consume_capacity (control_task_impact m) False) m1
             else m1
         | None \<Rightarrow> m1)"

subsection \<open>Groups\<close>

record tm_group =
  group_name :: string
  is_container_group :: bool
  container_group_jobs :: int
  container_group_consumed_forks :: int
  instance_hostnames :: "string list"
  max_concurrent_jobs :: int
  max_forks :: int
  group_control_impact :: int

definition new_group :: "tm_instances \<Rightarrow> instance_group \<Rightarrow> tm_group" where
  "new_group m obj =
     \<lparr>group_name = ig_name obj, is_container_group = ig_is_container_group obj,
      container_group_jobs = 0, container_group_consumed_forks = 0,
      instance_hostnames = filter (\<lambda>h. h \<in> set (dict_keys (instances_by_hostname m))) (ig_instances obj),
      max_concurrent_jobs = ig_max_concurrent_jobs obj, max_forks = ig_max_forks obj,
      group_control_impact = control_task_impact m\<rparr>"

text \<open>\<open>self.instances\<close> of a group: the shared objects behind its hostnames.\<close>

definition group_instances :: "tm_instances \<Rightarrow> tm_group \<Rightarrow> tm_instance list" where
  "group_instances m g = List.map_filter (dict_get (instances_by_hostname m)) (instance_hostnames g)"

text \<open>\<^const>\<open>None\<close>: the \<open>RuntimeError\<close> of a group that is not a container group.\<close>

definition group_consume_capacity :: "task \<Rightarrow> tm_group \<Rightarrow> tm_group option" where
  "group_consume_capacity task g =
     (if is_container_group g
      then Some (g\<lparr>container_group_jobs := container_group_jobs g + 1,
                   container_group_consumed_forks := container_group_consumed_forks g + task_impact task\<rparr>)
      else None)"

definition get_remaining_instance_capacity :: "tm_instances \<Rightarrow> tm_group \<Rightarrow> int" where
  "get_remaining_instance_capacity m g = sum_list (map remaining_capacity (group_instances m g))"

definition get_instance_capacity :: "tm_instances \<Rightarrow> tm_group \<Rightarrow> int" where
  "get_instance_capacity m g = sum_list (map capacity (group_instances m g))"

definition get_consumed_instance_capacity :: "tm_instances \<Rightarrow> tm_group \<Rightarrow> int" where
  "get_consumed_instance_capacity m g = sum_list (map consumed_capacity (group_instances m g))"

definition get_instance_jobs_running :: "tm_instances \<Rightarrow> tm_group \<Rightarrow> int" where
  "get_instance_jobs_running m g = sum_list (map jobs_running (group_instances m g))"

definition get_jobs_running :: "tm_instances \<Rightarrow> tm_group \<Rightarrow> int" where
  "get_jobs_running m g =
     (if is_container_group g then container_group_jobs g
      else sum_list (map jobs_running (group_instances m g)))"

definition get_capacity :: "tm_instances \<Rightarrow> tm_group \<Rightarrow> int" where
  "get_capacity m g = (if is_container_group g then max_forks g else get_instance_capacity m g)"

definition get_consumed_capacity :: "tm_instances \<Rightarrow> tm_group \<Rightarrow> int" where
  "get_consumed_capacity m g =
     (if is_container_group g then container_group_consumed_forks g
      else get_consumed_instance_capacity m g)"

definition get_remaining_capacity :: "tm_instances \<Rightarrow> tm_group \<Rightarrow> int" where
  "get_remaining_capacity m g = get_capacity m g - get_consumed_capacity m g"

text \<open>
  \<open>has_remaining_capacity\<close> for a task (\<^term>\<open>Some t\<close>) or with \<open>control_impact=True\<close>
  (\<^const>\<open>None\<close>).
\<close>

definition has_remaining_capacity :: "tm_instances \<Rightarrow> tm_group \<Rightarrow> task option \<Rightarrow> bool" where
  "has_remaining_capacity m g task =
     (let impact = (case task of None \<Rightarrow> group_control_impact g | Some t \<Rightarrow> task_impact t);
          job_impact = (case task of None \<Rightarrow> 0 | Some t \<Rightarrow> 1);
          remaining_jobs = (if max_concurrent_jobs g = 0 then 0
            else max_concurrent_jobs g - get_jobs_running m g - job_impact);
          remaining_forks = (if max_forks g = 0 then 0
            else max_forks g - get_consumed_capacity m g - impact)
      in \<not> (remaining_jobs < 0 \<or> remaining_forks < 0))"

subsection \<open>The group map\<close>

record tm_models =
  tmm_instances :: tm_instances
  instance_groups :: "(string, tm_group) pydict"
  pk_ig_map :: "(int, instance_group) pydict"
  controlplane_ig :: "instance_group option"

definition add_group :: "string \<Rightarrow> instance_group \<Rightarrow> tm_models \<Rightarrow> tm_models" where
  "add_group controlplane_ig_name ig s =
     (let s1 = (if ig_name ig = controlplane_ig_name then s\<lparr>controlplane_ig := Some ig\<rparr> else s);
          s2 = s1\<lparr>instance_groups := dict_set (ig_name ig) (new_group (tmm_instances s1) ig) (instance_groups s1)\<rparr>
      in s2\<lparr>pk_ig_map := dict_set (ig_pk ig) ig (pk_ig_map s2)\<rparr>)"

definition build_models :: "int \<Rightarrow> string \<Rightarrow> instance_row list \<Rightarrow> instance_group list \<Rightarrow> tm_models" where
  "build_models impact controlplane_ig_name rows groups =
     fold (add_group controlplane_ig_name) groups
       \<lparr>tmm_instances = build_instances impact rows, instance_groups = [], pk_ig_map = [],
        controlplane_ig = None\<rparr>"

text \<open>
  The loop over the instances of a group. The accumulator is the instance chosen so far with what
  would remain on it.
\<close>

definition fit_step ::
  "int \<Rightarrow> node_type option \<Rightarrow> int \<Rightarrow> bool \<Rightarrow> tm_instance \<Rightarrow>
     (tm_instance \<times> int) option \<Rightarrow> (tm_instance \<times> int) option" where
  "fit_step impact cap control_impact add_hybrid_control_cost i best =
     (if Some (node_kind i) \<noteq> cap \<and> node_kind i \<noteq> Hybrid then best
      else
        (let would_be = remaining_capacity i - impact;
             would_be_remaining = (if add_hybrid_control_cost \<and> node_kind i = Hybrid
               then would_be - control_impact else would_be)
         in if would_be_remaining \<ge> 0 \<and>
               (case best of None \<Rightarrow> True | Some (_, most) \<Rightarrow> would_be_remaining > most)
            then Some (i, would_be_remaining) else best))"

definition fit_instances ::
  "int \<Rightarrow> node_type option \<Rightarrow> int \<Rightarrow> bool \<Rightarrow> tm_instance list \<Rightarrow> tm_instance option" where
  "fit_instances impact cap control_impact add_hybrid_control_cost is =
     map_option fst (fold (fit_step impact cap control_impact add_hybrid_control_cost) is None)"

text \<open>
  Outer \<^const>\<open>None\<close>: the \<open>KeyError\<close> of a group name that is not in the map. \<open>impact\<close> and
  \<open>capacity_type\<close> default to the task's when they are \<open>None\<close> (or the impact is 0).
\<close>

definition fit_task_to_most_remaining_capacity_instance ::
  "tm_models \<Rightarrow> task \<Rightarrow> string \<Rightarrow> int option \<Rightarrow> node_type option \<Rightarrow> bool \<Rightarrow> tm_instance option option" where
  "fit_task_to_most_remaining_capacity_instance s task ig_nm impact cap add_hybrid_control_cost =
     (let impact' = (case impact of Some x \<Rightarrow> if x \<noteq> 0 then x else task_impact task | None \<Rightarrow> task_impact task);
          cap' = (case cap of Some c \<Rightarrow> Some c | None \<Rightarrow> capacity_type task)
      in case dict_get (instance_groups s) ig_nm of
           None \<Rightarrow> None
         | Some g \<Rightarrow> Some (fit_instances impact' cap' (control_task_impact (tmm_instances s))
                            add_hybrid_control_cost (group_instances (tmm_instances s) g)))"

definition idle_step :: "node_type option \<Rightarrow> tm_instance \<Rightarrow> tm_instance option \<Rightarrow> tm_instance option" where
  "idle_step cap i largest =
     (if Some (node_kind i) \<noteq> cap \<and> node_kind i \<noteq> Hybrid then largest
      else if capacity i \<le> 0 then largest
      else if jobs_running i = 0 \<or> remaining_capacity i = capacity i
      then (case largest of
              None \<Rightarrow> Some i
            | Some l \<Rightarrow> if capacity i > capacity l then Some i else largest)
      else largest)"

definition find_largest_idle_instance :: "tm_models \<Rightarrow> string \<Rightarrow> node_type option \<Rightarrow> tm_instance option option" where
  "find_largest_idle_instance s ig_nm cap =
     (case dict_get (instance_groups s) ig_nm of
        None \<Rightarrow> None
      | Some g \<Rightarrow> Some (fold (idle_step cap) (group_instances (tmm_instances s) g) None))"

definition get_instance_groups_from_task_cache :: "tm_models \<Rightarrow> task \<Rightarrow> instance_group list" where
  "get_instance_groups_from_task_cache s task =
     (let igs = List.map_filter (dict_get (pk_ig_map s)) (preferred_instance_groups_cache task) in
      if igs = [] then global_instance_groups task else igs)"

text \<open>\<^const>\<open>None\<close>: a container group that is in the map of keys but not in the map of names.\<close>

definition consume_capacity :: "task \<Rightarrow> tm_models \<Rightarrow> tm_models option" where
  "consume_capacity task s =
     (let s1 = s\<lparr>tmm_instances := instances_consume_capacity task (tmm_instances s)\<rparr> in
      case instance_group_id task of
        None \<Rightarrow> Some s1
      | Some pk \<Rightarrow>
          if pk = 0 then Some s1
          else (case dict_get (pk_ig_map s1) pk of
             None \<Rightarrow> Some s1
           | Some ig \<Rightarrow>
               if ig_is_container_group ig then
                 (case dict_get (instance_groups s1) (ig_name ig) of
                    None \<Rightarrow> None
                  | Some g \<Rightarrow> map_option
                      (\<lambda>g'. s1\<lparr>instance_groups := dict_set (ig_name ig) g' (instance_groups s1)\<rparr>)
                      (group_consume_capacity task g))
               else Some s1))"

definition init_with_consumed_capacity ::
  "int \<Rightarrow> string \<Rightarrow> instance_row list \<Rightarrow> instance_group list \<Rightarrow> task list \<Rightarrow> tm_models option" where
  "init_with_consumed_capacity impact controlplane_ig_name rows groups tasks =
     fold_opt consume_capacity tasks (build_models impact controlplane_ig_name rows groups)"

subsection \<open>Booking on instances\<close>

definition instance_of :: "tm_instances \<Rightarrow> string \<Rightarrow> tm_instance option" where
  "instance_of m h = dict_get (instances_by_hostname m) h"

lemma instance_of_update:
  "instance_of (update_instance h f m) h' =
     (if h' = h then map_option f (instance_of m h) else instance_of m h')"
  by (auto simp: instance_of_def update_instance_def dict_simps split: option.splits)

lemma control_impact_update [simp]: "control_task_impact (update_instance h f m) = control_task_impact m"
  by (simp add: update_instance_def split: option.splits)

definition runs_on :: "task \<Rightarrow> string \<Rightarrow> tm_instance \<Rightarrow> bool" where
  "runs_on t h i \<longleftrightarrow> execution_node t = h \<and> (node_kind i = Hybrid \<or> node_kind i = Execution)"

definition controlled_by :: "task \<Rightarrow> string \<Rightarrow> tm_instance \<Rightarrow> bool" where
  "controlled_by t h i \<longleftrightarrow> controller_node t = h \<and> (node_kind i = Hybrid \<or> node_kind i = Control)"

definition book_on :: "int \<Rightarrow> task \<Rightarrow> string \<Rightarrow> tm_instance \<Rightarrow> tm_instance" where
  "book_on impact t h i =
     i\<lparr>consumed_capacity := consumed_capacity i + (if runs_on t h i then task_impact t else 0)
          + (if controlled_by t h i then impact else 0),
       jobs_running := jobs_running i + (if runs_on t h i then 1 else 0)\<rparr>"

lemma instance_of_consume:
  "instance_of (instances_consume_capacity t m) h =
     map_option (book_on (control_task_impact m) t h) (instance_of m h)"
  by (cases "instance_of m h") (auto simp: instances_consume_capacity_def instance_of_def [symmetric]
      instance_of_update Let_def book_on_def runs_on_def controlled_by_def instance_consume_capacity_def
      split: option.splits)

lemma control_impact_consume [simp]:
  "control_task_impact (instances_consume_capacity t m) = control_task_impact m"
  by (simp add: instances_consume_capacity_def Let_def split: option.splits)

lemma instance_of_built:
  "instance_of (build_instances impact rows) h =
     map_option new_instance (find (\<lambda>r. row_hostname r = h) (rev rows))"
proof -
  have "dict_get (fold (\<lambda>i. dict_set (row_hostname i) (new_instance i)) rows m) h =
      (case find (\<lambda>r. row_hostname r = h) (rev rows) of
         None \<Rightarrow> dict_get m h | Some r \<Rightarrow> Some (new_instance r))" for m
    by (induction rows rule: rev_induct) (auto simp: dict_simps split: option.splits)
  then show ?thesis by (simp add: instance_of_def build_instances_def split: option.splits)
qed

text \<open>
  The contract of a ledger: booking an item adds its cost to every account it has, and no booking
  changes what an item costs. Then a level is the opening level and the sum of the costs.
\<close>

locale ledger =
  fixes book :: "'t \<Rightarrow> 'm \<Rightarrow> 'm"
    and level :: "'m \<Rightarrow> 'k \<Rightarrow> int option"
    and cost :: "'m \<Rightarrow> 't \<Rightarrow> 'k \<Rightarrow> int"
  assumes level_book: "level (book t m) k = map_option (\<lambda>c. c + cost m t k) (level m k)"
    and cost_book: "cost (book t m) u k = cost m u k"
begin

lemma cost_fold: "cost (fold book ts m) u k = cost m u k"
  by (induction ts arbitrary: m) (simp_all add: cost_book)

lemma level_fold:
  "level (fold book ts m) k = map_option (\<lambda>c. c + (\<Sum>t \<leftarrow> ts. cost m t k)) (level m k)"
proof (induction ts arbitrary: m)
  case Nil
  then show ?case by (simp add: option.map_ident)
next
  case (Cons t ts)
  have "(\<Sum>u \<leftarrow> ts. cost (book t m) u k) = (\<Sum>u \<leftarrow> ts. cost m u k)"
    by (simp add: cost_book)
  then show ?case
    by (simp add: Cons.IH level_book option.map_comp comp_def add.assoc)
qed

end

definition consumed_at :: "tm_instances \<Rightarrow> string \<Rightarrow> int option" where
  "consumed_at m h = map_option consumed_capacity (instance_of m h)"

definition jobs_at :: "tm_instances \<Rightarrow> string \<Rightarrow> int option" where
  "jobs_at m h = map_option jobs_running (instance_of m h)"

definition impact_at :: "tm_instances \<Rightarrow> task \<Rightarrow> string \<Rightarrow> int" where
  "impact_at m t h = (case instance_of m h of None \<Rightarrow> 0
     | Some i \<Rightarrow> (if runs_on t h i then task_impact t else 0) +
                 (if controlled_by t h i then control_task_impact m else 0))"

definition job_at :: "tm_instances \<Rightarrow> task \<Rightarrow> string \<Rightarrow> int" where
  "job_at m t h = (case instance_of m h of None \<Rightarrow> 0 | Some i \<Rightarrow> if runs_on t h i then 1 else 0)"

interpretation consumed: ledger instances_consume_capacity consumed_at impact_at
  by unfold_locales (auto simp: consumed_at_def impact_at_def instance_of_consume book_on_def
      runs_on_def controlled_by_def option.map_comp comp_def split: option.splits)

interpretation jobs: ledger instances_consume_capacity jobs_at job_at
  by unfold_locales (auto simp: jobs_at_def job_at_def instance_of_consume book_on_def
      runs_on_def controlled_by_def option.map_comp comp_def split: option.splits)

lemma consume_capacity_instances:
  "consume_capacity t s = Some s' \<Longrightarrow>
     tmm_instances s' = instances_consume_capacity t (tmm_instances s)"
  by (auto simp: consume_capacity_def Let_def split: option.splits if_splits)

lemma consume_capacity_keeps:
  "consume_capacity t s = Some s' \<Longrightarrow> pk_ig_map s' = pk_ig_map s \<and> controlplane_ig s' = controlplane_ig s"
  by (auto simp: consume_capacity_def Let_def split: option.splits if_splits)

lemma fold_consume_instances:
  "fold_opt consume_capacity ts s = Some s' \<Longrightarrow>
     tmm_instances s' = fold instances_consume_capacity ts (tmm_instances s)"
  by (induction ts arbitrary: s) (auto simp: consume_capacity_instances split: option.splits)

subsection \<open>Booking on container groups\<close>

text \<open>The container group a task is booked on.\<close>

definition booked_group :: "tm_models \<Rightarrow> task \<Rightarrow> string option" where
  "booked_group s t =
     (case instance_group_id t of None \<Rightarrow> None
      | Some pk \<Rightarrow> if pk = 0 then None else
          (case dict_get (pk_ig_map s) pk of None \<Rightarrow> None
           | Some ig \<Rightarrow> if ig_is_container_group ig then Some (ig_name ig) else None))"

lemma consume_capacity_groups:
  "consume_capacity t s = Some s' \<Longrightarrow>
     dict_get (instance_groups s') nm =
       (if booked_group s t = Some nm
        then Option.bind (dict_get (instance_groups s) nm) (group_consume_capacity t)
        else dict_get (instance_groups s) nm)"
  by (auto simp: consume_capacity_def booked_group_def Let_def dict_simps split: option.splits if_splits)

lemma container_group_within_limits:
  assumes "is_container_group g" and "has_remaining_capacity m g (Some t)"
    and "group_consume_capacity t g = Some g'"
  shows "(max_concurrent_jobs g' \<noteq> 0 \<longrightarrow> container_group_jobs g' \<le> max_concurrent_jobs g') \<and>
    (max_forks g' \<noteq> 0 \<longrightarrow> container_group_consumed_forks g' \<le> max_forks g')"
  using assms by (auto simp: has_remaining_capacity_def group_consume_capacity_def get_jobs_running_def
      get_consumed_capacity_def Let_def split: if_splits)

subsection \<open>The choice of an instance\<close>

text \<open>What would remain on an instance, when the instance accepts the kind of task.\<close>

definition room :: "int \<Rightarrow> node_type option \<Rightarrow> int \<Rightarrow> bool \<Rightarrow> tm_instance \<Rightarrow> int option" where
  "room impact cap control_impact add i =
     (if Some (node_kind i) = cap \<or> node_kind i = Hybrid then
        (let r = max 0 (capacity i - consumed_capacity i) - impact
               - (if add \<and> node_kind i = Hybrid then control_impact else 0)
         in if r \<ge> 0 then Some r else None)
      else None)"

lemma fit_step_room:
  "fit_step impact cap control_impact add i best =
     (case room impact cap control_impact add i of
        None \<Rightarrow> best
      | Some r \<Rightarrow> (case best of None \<Rightarrow> Some (i, r)
                  | Some (b, most) \<Rightarrow> if r > most then Some (i, r) else best))"
  by (auto simp: fit_step_def room_def remaining_capacity_def Let_def max_def split: option.splits)

lemma fit_fold:
  fixes R :: "tm_instance \<Rightarrow> int option"
  assumes "R = room impact cap control_impact add"
  shows "case fold (fit_step impact cap control_impact add) insts None of
     None \<Rightarrow> \<forall>i \<in> set insts. R i = None
   | Some (b, most) \<Rightarrow> b \<in> set insts \<and> R b = Some most \<and> (\<forall>i \<in> set insts. \<forall>r. R i = Some r \<longrightarrow> r \<le> most)"
proof (induction insts rule: rev_induct)
  case Nil
  then show ?case by simp
next
  case (snoc i insts)
  then show ?case
    by (auto simp: fit_step_room assms [symmetric] split: option.splits prod.splits)
qed

lemma fit_instances_choice:
  "case fit_instances impact cap control_impact add insts of
     None \<Rightarrow> \<forall>i \<in> set insts. room impact cap control_impact add i = None
   | Some b \<Rightarrow> b \<in> set insts \<and> (\<exists>most. room impact cap control_impact add b = Some most \<and>
       (\<forall>i \<in> set insts. \<forall>r. room impact cap control_impact add i = Some r \<longrightarrow> r \<le> most))"
  using fit_fold [OF refl, where insts = insts and impact = impact and cap = cap and control_impact = control_impact and add = add]
  by (auto simp: fit_instances_def split: option.splits)

text \<open>The capacity type and the impact the choice goes by.\<close>

definition asked_impact :: "task \<Rightarrow> int option \<Rightarrow> int" where
  "asked_impact t impact = (case impact of None \<Rightarrow> task_impact t | Some x \<Rightarrow> if x = 0 then task_impact t else x)"

definition asked_type :: "task \<Rightarrow> node_type option \<Rightarrow> node_type option" where
  "asked_type t cap = (case cap of None \<Rightarrow> capacity_type t | Some c \<Rightarrow> Some c)"

lemma fit_task_instances:
  "fit_task_to_most_remaining_capacity_instance s t nm impact cap add =
     map_option (\<lambda>g. fit_instances (asked_impact t impact) (asked_type t cap)
       (control_task_impact (tmm_instances s)) add (group_instances (tmm_instances s) g))
     (dict_get (instance_groups s) nm)"
  by (auto simp: fit_task_to_most_remaining_capacity_instance_def asked_impact_def asked_type_def Let_def
      split: option.splits)

lemma group_instances_lookup:
  "i \<in> set (group_instances m g) \<longleftrightarrow> (\<exists>h \<in> set (instance_hostnames g). instance_of m h = Some i)"
  by (auto simp: group_instances_def instance_of_def map_filter_def image_iff)

lemma idle_fold:
  "case fold (idle_step cap) insts None of
     None \<Rightarrow> True
   | Some b \<Rightarrow> b \<in> set insts \<and> (Some (node_kind b) = cap \<or> node_kind b = Hybrid) \<and> capacity b > 0 \<and>
       (jobs_running b = 0 \<or> remaining_capacity b = capacity b)"
proof (induction insts rule: rev_induct)
  case Nil
  then show ?case by simp
next
  case (snoc i insts)
  then show ?case by (auto simp: idle_step_def split: option.splits)
qed

subsection \<open>Properties\<close>

text \<open>
  C29: The choice of an instance for a task is a best fit: it fails only when no instance of the
  group accepts the task and has room for it (counting the control cost of a hybrid node), and
  the chosen instance has the most room of all.
\<close>

theorem fit_task_best:
  fixes t :: task and impact :: "int option" and cap :: "node_type option" and add :: bool
  assumes "dict_get (instance_groups s) nm = Some g"
  defines "R \<equiv> room (asked_impact t impact) (asked_type t cap) (control_task_impact (tmm_instances s)) add"
  shows "\<exists>choice. fit_task_to_most_remaining_capacity_instance s t nm impact cap add = Some choice \<and>
    (choice = None \<longleftrightarrow> (\<forall>i \<in> set (group_instances (tmm_instances s) g). R i = None)) \<and>
    (\<forall>b. choice = Some b \<longrightarrow> b \<in> set (group_instances (tmm_instances s) g) \<and>
       (\<exists>most. R b = Some most \<and>
          (\<forall>i \<in> set (group_instances (tmm_instances s) g). \<forall>r. R i = Some r \<longrightarrow> r \<le> most)))"
  using fit_instances_choice [where impact = "asked_impact t impact" and cap = "asked_type t cap"
      and control_impact = "control_task_impact (tmm_instances s)" and add = add
      and insts = "group_instances (tmm_instances s) g"]
  by (auto simp: fit_task_instances assms(1) R_def split: option.splits)

text \<open>
  The ledger is exact. After the capacity of the running tasks has been booked, what is
  consumed on an instance is the sum over the tasks of the task's impact, where it executes on
  this instance, and of the control impact, where this instance controls it; its count of running
  jobs is the number of tasks that execute on it.
\<close>

theorem consumed_capacity_exact:
  assumes "init_with_consumed_capacity impact cp rows groups tasks = Some s"
    and "instance_of (tmm_instances s) h = Some i"
  shows "consumed_capacity i = (\<Sum>t \<leftarrow> tasks. (if runs_on t h i then task_impact t else 0) +
                                 (if controlled_by t h i then impact else 0)) \<and>
    jobs_running i = int (length (filter (\<lambda>t. runs_on t h i) tasks))"
proof -
  let ?m = "build_instances impact rows"
  have "tmm_instances (fold (add_group cp) gs x) = tmm_instances x" for gs x
    by (induction gs arbitrary: x) (simp_all add: add_group_def Let_def)
  then have m: "tmm_instances s = fold instances_consume_capacity tasks ?m"
    using fold_consume_instances [of tasks "build_models impact cp rows groups" s] assms(1)
    by (simp add: init_with_consumed_capacity_def build_models_def)
  have ci: "control_task_impact ?m = impact" by (simp add: build_instances_def)
  note levels = consumed.level_fold [of tasks ?m h] jobs.level_fold [of tasks ?m h]
  obtain j where j: "instance_of ?m h = Some j"
    using assms(2) m levels(1) by (cases "instance_of ?m h") (simp_all add: consumed_at_def)
  have c: "consumed_capacity i = consumed_capacity j + (\<Sum>t \<leftarrow> tasks. impact_at ?m t h)"
    and n: "jobs_running i = jobs_running j + (\<Sum>t \<leftarrow> tasks. job_at ?m t h)"
    using assms(2) m levels j by (simp_all add: consumed_at_def jobs_at_def)
  have fresh: "consumed_capacity j = 0" "jobs_running j = 0"
    using j by (auto simp: instance_of_built new_instance_def)
  have kind: "instance_of (fold instances_consume_capacity ts m) h = Some k \<Longrightarrow>
      instance_of m h = Some j \<Longrightarrow> node_kind k = node_kind j" for ts m j k
    by (induction ts arbitrary: m j) (auto simp: instance_of_consume book_on_def)
  have "node_kind i = node_kind j" using kind [of tasks ?m i j] assms(2) j m by simp
  then have on: "runs_on t h j = runs_on t h i" "controlled_by t h j = controlled_by t h i" for t
    by (simp_all add: runs_on_def controlled_by_def)
  have "(\<Sum>t \<leftarrow> tasks. if runs_on t h i then 1 else 0) = int (length (filter (\<lambda>t. runs_on t h i) tasks))"
    by (induction tasks) simp_all
  then show ?thesis by (simp add: c n fresh impact_at_def job_at_def j ci on cong: if_cong)
qed

text \<open>
  The charge of a control task on a control node: the choice reserves its impact and the control
  impact, and the booking consumes the control impact only.
\<close>

lemma control_task_on_control_node:
  assumes "instance_of m h = Some i" and "node_kind i = Control"
    and "execution_node t = h" and "controller_node t = h"
  shows "instance_of (instances_consume_capacity t m) h =
    Some (i\<lparr>consumed_capacity := consumed_capacity i + control_task_impact m\<rparr>)"
  using assms by (cases i) (simp add: instance_of_consume book_on_def runs_on_def controlled_by_def)

subsection \<open>Witnesses\<close>

definition two_nodes :: "instance_row list" where
  "two_nodes = [\<lparr>row_hostname = ''a'', row_node_type = Hybrid, row_capacity = 10\<rparr>,
                \<lparr>row_hostname = ''b'', row_node_type = Execution, row_capacity = 8\<rparr>]"

definition one_group :: instance_group where
  "one_group = \<lparr>ig_pk = 1, ig_name = ''default'', ig_is_container_group = False, ig_instances = [''a'', ''b''],
     ig_max_concurrent_jobs = 0, ig_max_forks = 0\<rparr>"

definition small_job :: "string \<Rightarrow> string \<Rightarrow> task" where
  "small_job controller execution =
     \<lparr>task_id = 1, task_kind = Job, project_id = None, inventory_id = None, inventory_source_id = None,
      source_inventory_id = None, job_template_id = None, workflow_job_template_id = None,
      unified_job_template_id = None, allow_simultaneous = True, task_impact = 3,
      capacity_type = Some Execution, controller_node = controller, execution_node = execution,
      instance_group_id = Some 1, preferred_instance_groups_cache = [1], global_instance_groups = [],
      dependent_jobs = [], task_status = Running, job_explanation = '''', task_created = 0,
      has_celery_task_id = True\<rparr>"

text \<open>
  Both nodes have room for a job of impact 3; the hybrid node would also be charged the control
  impact of 5, so the job fits better on the execution node.
\<close>

lemma two_nodes_fit:
  "map_option (map_option hostname) (fit_task_to_most_remaining_capacity_instance
     (build_models 5 ''cp'' two_nodes [one_group]) (small_job '''' '''') ''default'' None None True) =
   Some (Some ''b'')"
  by code_simp

theorem fit_task_best_witness:
  "\<exists>choice g. dict_get (instance_groups (build_models 5 ''cp'' two_nodes [one_group])) ''default'' = Some g \<and>
     fit_task_to_most_remaining_capacity_instance
       (build_models 5 ''cp'' two_nodes [one_group]) (small_job '''' '''') ''default'' None None True = Some (Some choice) \<and>
     hostname choice = ''b'' \<and>
     choice \<in> set (group_instances (tmm_instances (build_models 5 ''cp'' two_nodes [one_group])) g)"
proof -
  have "dict_get (instance_groups (build_models 5 ''cp'' two_nodes [one_group])) ''default'' \<noteq> None"
    by code_simp
  then obtain g where g: "dict_get (instance_groups (build_models 5 ''cp'' two_nodes [one_group])) ''default'' = Some g"
    by blast
  show ?thesis
    using fit_task_best [OF g, of "small_job '''' ''''" None None True] two_nodes_fit g by auto
qed

theorem consumed_capacity_exact_witness:
  "\<exists>s i. init_with_consumed_capacity 5 ''cp'' two_nodes [one_group]
           [small_job ''a'' ''a'', small_job ''a'' ''b''] = Some s \<and>
     instance_of (tmm_instances s) ''a'' = Some i \<and> consumed_capacity i = 13 \<and> jobs_running i = 1"
proof -
  have "map_option (\<lambda>s. map_option node_kind (instance_of (tmm_instances s) ''a''))
      (init_with_consumed_capacity 5 ''cp'' two_nodes [one_group] [small_job ''a'' ''a'', small_job ''a'' ''b'']) =
      Some (Some Hybrid)"
    by code_simp
  then obtain s i where s: "init_with_consumed_capacity 5 ''cp'' two_nodes [one_group]
      [small_job ''a'' ''a'', small_job ''a'' ''b''] = Some s"
    and i: "instance_of (tmm_instances s) ''a'' = Some i" "node_kind i = Hybrid"
    by auto
  show ?thesis
    using consumed_capacity_exact [OF s i(1)] s i
    by (simp add: runs_on_def controlled_by_def small_job_def)
qed

end
