(* ===== verification/TaskManager.thy ===== *)
theory TaskManager
  imports TaskManagerModels
begin

section \<open>The task manager of \<^verbatim>\<open>forail/main/scheduler/task_manager.py\<close>\<close>

text \<open>
  One run of \<open>TaskManager\<close> over the tasks it fetched: the running tasks are entered in the
  blocking graph and booked on the ledger, then the pending tasks are walked in order of creation
  and each is failed, left waiting or started. Effects outside the process are fields of the
  state: the tasks submitted to the dispatcher, the schedulers that were requested, the tasks
  whose notifications are due, the tasks whose explanation is written back.
\<close>

subsection \<open>Environment and state\<close>

text \<open>
  What the run reads from outside: whether the time budget is used up and what the clock shows at
  the \<open>i\<close>-th pending task, the answer of \<open>pre_start\<close> on a task (\<^const>\<open>None\<close> when it succeeds, else the
  \<open>job_explanation\<close> it stored before it refused), the
  \<open>get_type_for_model\<close> of the \<^verbatim>\<open>ansible_base\<close> package, and the task class's model name.
\<close>

record tm_env =
  late :: "nat \<Rightarrow> bool"
  tz_now :: "nat \<Rightarrow> int"
  pre_start :: "task \<Rightarrow> string option"
  type_for_model :: "task_type \<Rightarrow> string"

record tm_state =
  dependency_graph :: dep_graph
  tm_models :: tm_models
  start_task_limit :: int
  pre_start_failed :: "int list"
  started_tasks :: "task list"
  submitted :: "int list"
  schedule_task_manager :: nat
  schedule_workflow_manager :: nat
  explained :: "task list"

definition start_state :: "tm_models \<Rightarrow> int \<Rightarrow> tm_state" where
  "start_state models limit =
     \<lparr>dependency_graph = empty_graph, tm_models = models, start_task_limit = limit,
      pre_start_failed = [], started_tasks = [], submitted = [], schedule_task_manager = 0,
      schedule_workflow_manager = 0, explained = []\<rparr>"

fun model_name :: "task_type \<Rightarrow> string" where
  "model_name ProjectUpdate = ''projectupdate''"
| "model_name InventoryUpdate = ''inventoryupdate''"
| "model_name Job = ''job''"
| "model_name SystemJob = ''systemjob''"
| "model_name AdHocCommand = ''adhoccommand''"
| "model_name WorkflowJob = ''workflowjob''"

subsection \<open>Dependencies and blocking\<close>

definition dep_failed :: "dependency \<Rightarrow> bool" where
  "dep_failed dep \<longleftrightarrow> dep_status dep \<in> set [Error, Failed]"

definition dep_failure_explanation :: "tm_env \<Rightarrow> dependency \<Rightarrow> string" where
  "dep_failure_explanation env dep =
     ''Previous Task Failed: {\"job_type\": \"'' @ type_for_model env (dep_type dep) @
     ''\", \"job_name\": \"'' @ dep_name dep @ ''\", \"job_id\": \"'' @ int_str (dep_id dep) @ ''\"}''"

definition process_job_dep_failures ::
  "tm_env \<Rightarrow> task \<Rightarrow> tm_state \<Rightarrow> bool \<times> task \<times> tm_state" where
  "process_job_dep_failures env task s =
     (case find dep_failed (dependent_jobs task) of
        Some dep \<Rightarrow>
          (True, task\<lparr>task_status := Failed, job_explanation := dep_failure_explanation env dep\<rparr>,
           s\<lparr>pre_start_failed := pre_start_failed s @ [task_id task]\<rparr>)
      | None \<Rightarrow> (False, task, s))"

text \<open>The blocking task, as far as it is read: its class and its key.\<close>

definition job_blocked_by :: "task \<Rightarrow> tm_state \<Rightarrow> (task_type \<times> int) option" where
  "job_blocked_by task s =
     (case task_blocked_by task (dependency_graph s) of
        Some b \<Rightarrow> Some (task_kind b, task_id b)
      | None \<Rightarrow>
          (case find (\<lambda>dep. dep_status dep \<in> set active_states) (dependent_jobs task) of
             Some dep \<Rightarrow> Some (dep_type dep, dep_id dep)
           | None \<Rightarrow> None))"

text \<open>
  A new explanation is written only when it differs and the task is older than 30 seconds.
\<close>

definition explain :: "tm_env \<Rightarrow> nat \<Rightarrow> string \<Rightarrow> task \<Rightarrow> tm_state \<Rightarrow> task \<times> tm_state" where
  "explain env i text task s =
     (if job_explanation task \<noteq> text \<and> task_created task < tz_now env i - 30
      then (let task' = task\<lparr>job_explanation := text\<rparr> in (task', s\<lparr>explained := explained s @ [task']\<rparr>))
      else (task, s))"

definition blocked_explanation :: "task_type \<times> int \<Rightarrow> string" where
  "blocked_explanation b =
     ''waiting for '' @ model_name (fst b) @ ''-'' @ int_str (snd b) @ '' to finish''"

definition task_needs_capacity :: "tm_env \<Rightarrow> nat \<Rightarrow> task \<Rightarrow> tm_state \<Rightarrow> task \<times> tm_state" where
  "task_needs_capacity env i task s =
     explain env i ''This job is not ready to start because there is not enough available capacity.'' task s"

subsection \<open>Starting a task\<close>

text \<open>
  \<^const>\<open>None\<close>: an exception of \<open>consume_capacity\<close>. The graph holds a reference to the task, so
  its entry shows the instance group that is assigned right after. \<open>started_tasks\<close> records the
  task as it was entered and booked.
\<close>

definition start_task ::
  "tm_env \<Rightarrow> task \<Rightarrow> instance_group option \<Rightarrow> tm_state \<Rightarrow> (task \<times> tm_state) option" where
  "start_task env task queue s =
     (let task1 = (case queue of None \<Rightarrow> task | Some ig \<Rightarrow> task\<lparr>instance_group_id := Some (ig_pk ig)\<rparr>);
          graph1 = add_job task1 (dependency_graph s)
      in case consume_capacity task1 (tm_models s) of
           None \<Rightarrow> None
         | Some models1 \<Rightarrow>
             (let limit1 = start_task_limit s - 1;
                  s1 = s\<lparr>dependency_graph := graph1, tm_models := models1, start_task_limit := limit1,
                         started_tasks := started_tasks s @ [task1]\<rparr>;
                  s2 = (if limit1 = 0 then s1\<lparr>schedule_task_manager := schedule_task_manager s1 + 1\<rparr> else s1);
                  task2 = task1\<lparr>task_status := Waiting\<rparr>
              in case pre_start env task2 of
                   Some written \<Rightarrow>
                     (let task3 = task2\<lparr>job_explanation := written\<rparr>;
                          expl = job_explanation task3 @ (if job_explanation task3 \<noteq> [] then '' '' else []) @
                            ''Task failed pre-start check.''
                      in Some (task3\<lparr>task_status := Failed, job_explanation := expl\<rparr>,
                               s2\<lparr>pre_start_failed := pre_start_failed s2 @ [task_id task3]\<rparr>))
                 | None \<Rightarrow>
                     if task_kind task2 = WorkflowJob then
                       Some (task2\<lparr>task_status := Running, has_celery_task_id := True\<rparr>,
                             s2\<lparr>schedule_workflow_manager := schedule_workflow_manager s2 + 1\<rparr>)
                     else
                       Some (task2\<lparr>has_celery_task_id := True\<rparr>, s2\<lparr>submitted := submitted s2 @ [task_id task2]\<rparr>)))"

definition process_running_task :: "task \<Rightarrow> tm_state \<Rightarrow> tm_state option" where
  "process_running_task task s =
     (let s1 = (if task_kind task = WorkflowJob
                then s\<lparr>schedule_workflow_manager := schedule_workflow_manager s + 1\<rparr> else s);
          graph1 = add_job task (dependency_graph s1)
      in map_option (\<lambda>models1. s1\<lparr>dependency_graph := graph1, tm_models := models1\<rparr>)
           (consume_capacity task (tm_models s1)))"

definition process_running_tasks :: "task list \<Rightarrow> tm_state \<Rightarrow> tm_state option" where
  "process_running_tasks running_tasks s = fold_opt process_running_task running_tasks s"

subsection \<open>Finding a queue\<close>

text \<open>
  The loop over the task's instance groups. The result is \<open>Some None\<close> when no group has room.
\<close>

fun try_groups ::
  "tm_env \<Rightarrow> task \<Rightarrow> instance_group list \<Rightarrow> tm_state \<Rightarrow> (task \<times> tm_state) option option" where
  "try_groups env task [] s = Some None"
| "try_groups env task (ig # igs) s =
     (case dict_get (instance_groups (tm_models s)) (ig_name ig) of
        None \<Rightarrow> None
      | Some g \<Rightarrow>
          if \<not> has_remaining_capacity (tmm_instances (tm_models s)) g (Some task)
          then try_groups env task igs s
          else if ig_is_container_group ig then map_option Some (start_task env task (Some ig) s)
          else
            (case fit_task_to_most_remaining_capacity_instance (tm_models s) task (ig_name ig) None None True of
               None \<Rightarrow> None
             | Some fit \<Rightarrow>
                 (case (case fit of Some i \<Rightarrow> Some (Some i)
                        | None \<Rightarrow> find_largest_idle_instance (tm_models s) (ig_name ig) (capacity_type task)) of
                    None \<Rightarrow> None
                  | Some None \<Rightarrow> try_groups env task igs s
                  | Some (Some i) \<Rightarrow>
                      (let task1 = task\<lparr>execution_node := hostname i\<rparr>;
                           task2 = (if node_kind i = Hybrid then task1\<lparr>controller_node := hostname i\<rparr> else task1)
                       in map_option Some (start_task env task2 (Some ig) s)))))"

subsection \<open>Pending tasks\<close>

definition control_request :: "task \<Rightarrow> int \<Rightarrow> int" where
  "control_request task control_impact =
     (if capacity_type task = Some Control then task_impact task + control_impact else control_impact)"

text \<open>
  The body of the loop for a task that is neither failed nor blocked and is not a workflow job.
\<close>

definition place_task :: "tm_env \<Rightarrow> nat \<Rightarrow> task \<Rightarrow> tm_state \<Rightarrow> (task \<times> tm_state) option" where
  "place_task env i task s =
     (case controlplane_ig (tm_models s) of
        None \<Rightarrow> None
      | Some cp \<Rightarrow>
          (case fit_task_to_most_remaining_capacity_instance (tm_models s) task (ig_name cp)
                  (Some (control_request task (control_task_impact (tmm_instances (tm_models s)))))
                  (Some Control) False of
             None \<Rightarrow> None
           | Some None \<Rightarrow> Some (task_needs_capacity env i task s)
           | Some (Some control_instance) \<Rightarrow>
               (let task1 = task\<lparr>controller_node := hostname control_instance\<rparr> in
                if capacity_type task1 = Some Control then
                  (case dict_get (instance_groups (tm_models s)) (ig_name cp) of
                     None \<Rightarrow> None
                   | Some g \<Rightarrow>
                       if \<not> has_remaining_capacity (tmm_instances (tm_models s)) g None then Some (task1, s)
                       else start_task env (task1\<lparr>execution_node := hostname control_instance\<rparr>) (Some cp) s)
                else
                  (case try_groups env task1 (get_instance_groups_from_task_cache (tm_models s) task1) s of
                     None \<Rightarrow> None
                   | Some (Some result) \<Rightarrow> Some result
                   | Some None \<Rightarrow> Some (task_needs_capacity env i task1 s)))))"

definition process_pending_task :: "tm_env \<Rightarrow> nat \<Rightarrow> task \<Rightarrow> tm_state \<Rightarrow> (task \<times> tm_state) option" where
  "process_pending_task env i task s =
     (case process_job_dep_failures env task s of
        (True, task1, s1) \<Rightarrow> Some (task1, s1)
      | (False, _, _) \<Rightarrow>
          (case job_blocked_by task s of
             Some b \<Rightarrow> Some (explain env i (blocked_explanation b) task s)
           | None \<Rightarrow>
               if task_kind task = WorkflowJob then start_task env task None s
               else place_task env i task s))"

text \<open>
  The loop: it ends early at the limit or when the time is used up. The result lists the tasks as
  the walk left them.
\<close>

fun pending_loop ::
  "tm_env \<Rightarrow> nat \<Rightarrow> task list \<Rightarrow> tm_state \<Rightarrow> (task list \<times> tm_state) option" where
  "pending_loop env i [] s = Some ([], s)"
| "pending_loop env i (task # tasks) s =
     (if start_task_limit s \<le> 0 then Some (task # tasks, s)
      else if late env i then Some (task # tasks, s)
      else case process_pending_task env i task s of
             None \<Rightarrow> None
           | Some (task', s') \<Rightarrow>
               (case pending_loop env (Suc i) tasks s' of
                  None \<Rightarrow> None
                | Some (tasks', s'') \<Rightarrow> Some (task' # tasks', s'')))"

definition process_pending_tasks :: "tm_env \<Rightarrow> task list \<Rightarrow> tm_state \<Rightarrow> (task list \<times> tm_state) option" where
  "process_pending_tasks env pending_tasks s = pending_loop env 0 pending_tasks s"

text \<open>
  \<open>process_tasks\<close>; the last component says for which tasks failure notifications are sent.
\<close>

definition process_tasks :: "tm_env \<Rightarrow> task list \<Rightarrow> tm_state \<Rightarrow> (task list \<times> tm_state \<times> int list) option" where
  "process_tasks env all_tasks s =
     (let s0 = s\<lparr>pre_start_failed := []\<rparr>;
          running_tasks = filter (\<lambda>t. task_status t \<in> set [Waiting, Running]) all_tasks;
          pending_tasks = filter (\<lambda>t. task_status t = Pending) all_tasks
      in Option.bind (process_running_tasks running_tasks s0) (\<lambda>s1.
         Option.bind (process_pending_tasks env pending_tasks s1) (\<lambda>(tasks, s2).
         Some (tasks, s2, pre_start_failed s2))))"

subsection \<open>The ways a task starts\<close>

text \<open>
  \<open>start_choice t m t1 q\<close>: with the ledger \<open>m\<close> the manager starts \<open>t\<close> as \<open>t1\<close> (its nodes chosen)
  in the queue \<open>q\<close>. One rule for each call of \<open>start_task\<close>.
\<close>

definition control_fit :: "tm_models \<Rightarrow> task \<Rightarrow> tm_instance \<Rightarrow> bool" where
  "control_fit m t i \<longleftrightarrow> (\<exists>cp. controlplane_ig m = Some cp \<and>
     fit_task_to_most_remaining_capacity_instance m t (ig_name cp)
       (Some (control_request t (control_task_impact (tmm_instances m)))) (Some Control) False = Some (Some i))"

definition execution_fit :: "tm_models \<Rightarrow> task \<Rightarrow> string \<Rightarrow> tm_instance \<Rightarrow> bool" where
  "execution_fit m t nm i \<longleftrightarrow>
     fit_task_to_most_remaining_capacity_instance m t nm None None True = Some (Some i) \<or>
     find_largest_idle_instance m nm (capacity_type t) = Some (Some i)"

inductive start_choice :: "task \<Rightarrow> tm_models \<Rightarrow> task \<Rightarrow> instance_group option \<Rightarrow> bool" where
  workflow: "task_kind t = WorkflowJob \<Longrightarrow> start_choice t m t None"
| control: "controlplane_ig m = Some cp \<Longrightarrow> control_fit m t c \<Longrightarrow> capacity_type t = Some Control \<Longrightarrow>
     start_choice t m (t\<lparr>controller_node := hostname c, execution_node := hostname c\<rparr>) (Some cp)"
| container: "control_fit m t c \<Longrightarrow> t1 = t\<lparr>controller_node := hostname c\<rparr> \<Longrightarrow>
     ig \<in> set (get_instance_groups_from_task_cache m t1) \<Longrightarrow>
     dict_get (instance_groups m) (ig_name ig) = Some g \<Longrightarrow>
     has_remaining_capacity (tmm_instances m) g (Some t1) \<Longrightarrow> ig_is_container_group ig \<Longrightarrow>
     start_choice t m t1 (Some ig)"
| execution: "control_fit m t c \<Longrightarrow> t1 = t\<lparr>controller_node := hostname c\<rparr> \<Longrightarrow>
     ig \<in> set (get_instance_groups_from_task_cache m t1) \<Longrightarrow>
     dict_get (instance_groups m) (ig_name ig) = Some g \<Longrightarrow>
     has_remaining_capacity (tmm_instances m) g (Some t1) \<Longrightarrow> \<not> ig_is_container_group ig \<Longrightarrow>
     execution_fit m t1 (ig_name ig) i \<Longrightarrow>
     start_choice t m (t1\<lparr>execution_node := hostname i,
       controller_node := if node_kind i = Hybrid then hostname i else controller_node t1\<rparr>) (Some ig)"

text \<open>The run did nothing that books, marks or starts.\<close>

definition quiet :: "tm_state \<Rightarrow> tm_state \<Rightarrow> bool" where
  "quiet s s' \<longleftrightarrow> dependency_graph s' = dependency_graph s \<and> tm_models s' = tm_models s \<and>
     start_task_limit s' = start_task_limit s \<and> started_tasks s' = started_tasks s \<and>
     submitted s' = submitted s"

lemma quiet_explain: "explain env i text t s = (t', s') \<Longrightarrow> quiet s s'"
  by (auto simp: explain_def quiet_def Let_def split: if_splits)

lemma try_groups_choice:
  assumes "try_groups env t1 igs s = Some (Some (t', s'))"
    and "set igs \<subseteq> set (get_instance_groups_from_task_cache (tm_models s) t1)"
    and c: "control_fit (tm_models s) t c" and t1: "t1 = t\<lparr>controller_node := hostname c\<rparr>"
  shows "\<exists>t2 q. start_choice t (tm_models s) t2 q \<and> start_task env t2 q s = Some (t', s')"
  using assms(1,2)
proof (induction igs)
  case Nil
  then show ?case by simp
next
  case (Cons ig igs)
  obtain g where g: "dict_get (instance_groups (tm_models s)) (ig_name ig) = Some g"
    using Cons.prems(1) by (auto split: option.splits)
  have ig: "ig \<in> set (get_instance_groups_from_task_cache (tm_models s) t1)" using Cons.prems(2) by simp
  show ?case
  proof (cases "has_remaining_capacity (tmm_instances (tm_models s)) g (Some t1)")
    case False
    with Cons g show ?thesis by simp
  next
    case room: True
    show ?thesis
    proof (cases "ig_is_container_group ig")
      case True
      have "start_task env t1 (Some ig) s = Some (t', s')"
        using Cons.prems(1) g room True by (auto split: option.splits)
      with start_choice.container [OF c t1 ig g room True] show ?thesis by blast
    next
      case False
      show ?thesis
      proof (cases "\<exists>i. execution_fit (tm_models s) t1 (ig_name ig) i \<and>
          start_task env (t1\<lparr>execution_node := hostname i,
            controller_node := if node_kind i = Hybrid then hostname i else controller_node t1\<rparr>) (Some ig) s
          = Some (t', s')")
        case True
        with start_choice.execution [OF c t1 ig g room False] show ?thesis by blast
      next
        case None: False
        then have "try_groups env t1 igs s = Some (Some (t', s'))"
          using Cons.prems(1) g room False
          by (auto simp: execution_fit_def Let_def split: option.splits if_splits)
        with Cons show ?thesis by simp
      qed
    qed
  qed
qed

definition unhindered :: "task \<Rightarrow> tm_state \<Rightarrow> bool" where
  "unhindered t s \<longleftrightarrow> task_blocked_by t (dependency_graph s) = None \<and>
     (\<forall>dep \<in> set (dependent_jobs t). dep_status dep \<in> {Successful, Canceled})"

lemma place_task_cases:
  assumes "place_task env i t s = Some (t', s')"
  shows "quiet s s' \<or> (\<exists>t1 q. start_choice t (tm_models s) t1 q \<and> start_task env t1 q s = Some (t', s'))"
proof -
  obtain cp fit where cp: "controlplane_ig (tm_models s) = Some cp"
    and fit: "fit_task_to_most_remaining_capacity_instance (tm_models s) t (ig_name cp)
        (Some (control_request t (control_task_impact (tmm_instances (tm_models s))))) (Some Control) False
      = Some fit"
    using assms by (auto simp: place_task_def split: option.splits)
  show ?thesis
  proof (cases fit)
    case None
    then show ?thesis using assms cp fit
      by (auto simp: place_task_def task_needs_capacity_def intro: quiet_explain)
  next
    case (Some c)
    let ?t1 = "t\<lparr>controller_node := hostname c\<rparr>"
    have c: "control_fit (tm_models s) t c" using cp fit Some by (auto simp: control_fit_def)
    show ?thesis
    proof (cases "capacity_type t = Some Control")
      case True
      have "quiet s s' \<or> start_task env (?t1\<lparr>execution_node := hostname c\<rparr>) (Some cp) s = Some (t', s')"
        using assms cp fit Some True
        by (auto simp: place_task_def Let_def quiet_def split: option.splits if_splits)
      then show ?thesis using start_choice.control [OF cp c True] by auto
    next
      case False
      let ?r = "try_groups env ?t1 (get_instance_groups_from_task_cache (tm_models s) ?t1) s"
      have "?r = Some (Some (t', s')) \<or> ?r = Some None \<and> task_needs_capacity env i ?t1 s = (t', s')"
        using assms cp fit Some False by (auto simp: place_task_def Let_def split: option.splits)
      then show ?thesis
        using try_groups_choice [OF _ subset_refl c refl, of env t' s']
        by (auto simp: task_needs_capacity_def intro: quiet_explain)
    qed
  qed
qed

lemma process_pending_task_cases:
  assumes "process_pending_task env i t s = Some (t', s')"
  shows "quiet s s' \<or> (unhindered t s \<and>
    (\<exists>t1 q. start_choice t (tm_models s) t1 q \<and> start_task env t1 q s = Some (t', s')))"
proof (cases "find dep_failed (dependent_jobs t)")
  case (Some dep)
  then show ?thesis using assms
    by (auto simp: process_pending_task_def process_job_dep_failures_def quiet_def)
next
  case fine: None
  show ?thesis
  proof (cases "job_blocked_by t s")
    case (Some b)
    then show ?thesis using assms fine
      by (auto simp: process_pending_task_def process_job_dep_failures_def intro: quiet_explain)
  next
    case None
    then have "task_blocked_by t (dependency_graph s) = None"
      and "find (\<lambda>dep. dep_status dep \<in> set active_states) (dependent_jobs t) = None"
      by (auto simp: job_blocked_by_def split: option.splits)
    moreover have "dep_status dep \<in> {Successful, Canceled}"
      if "dep \<in> set (dependent_jobs t)" "dep_status dep \<notin> set active_states" "\<not> dep_failed dep" for dep
      using that by (cases "dep_status dep") (auto simp: active_states_def dep_failed_def)
    ultimately have "unhindered t s"
      using fine unfolding unhindered_def find_None_iff by blast
    moreover have "start_task env t None s = Some (t', s') \<and> task_kind t = WorkflowJob \<or>
        place_task env i t s = Some (t', s')"
      using assms fine None by (auto simp: process_pending_task_def process_job_dep_failures_def split: if_splits)
    ultimately show ?thesis using place_task_cases start_choice.workflow by blast
  qed
qed

text \<open>The effect of a start on the state the next decisions read.\<close>

definition in_queue :: "task \<Rightarrow> instance_group option \<Rightarrow> task" where
  "in_queue t q = (case q of None \<Rightarrow> t | Some ig \<Rightarrow> t\<lparr>instance_group_id := Some (ig_pk ig)\<rparr>)"

lemma start_task_effect:
  assumes "start_task env t1 q s = Some (t', s')"
  shows "dependency_graph s' = add_job (in_queue t1 q) (dependency_graph s) \<and>
    consume_capacity (in_queue t1 q) (tm_models s) = Some (tm_models s') \<and>
    start_task_limit s' = start_task_limit s - 1 \<and>
    started_tasks s' = started_tasks s @ [in_queue t1 q] \<and>
    submitted s' = submitted s @
      (if task_kind t1 \<noteq> WorkflowJob \<and> pre_start env ((in_queue t1 q)\<lparr>task_status := Waiting\<rparr>) = None
       then [task_id t1] else [])"
  using assms
  by (auto simp: start_task_def in_queue_def Let_def split: option.splits if_splits)

lemma pending_loop_invariant:
  assumes "pending_loop env i ts s = Some (ts', s')" and "I s"
    and "\<And>t s i t' s'. t \<in> set ts \<Longrightarrow> I s \<Longrightarrow> start_task_limit s > 0 \<Longrightarrow>
      process_pending_task env i t s = Some (t', s') \<Longrightarrow> I s'"
  shows "I s'"
  using assms
proof (induction ts arbitrary: i s ts')
  case Nil
  then show ?case by simp
next
  case (Cons t ts)
  show ?case
  proof (cases "start_task_limit s \<le> 0 \<or> late env i")
    case True
    with Cons.prems show ?thesis by (auto split: if_splits)
  next
    case False
    with Cons.prems(1) obtain t1 s1 ts1 where step: "process_pending_task env i t s = Some (t1, s1)"
      "pending_loop env (Suc i) ts s1 = Some (ts1, s')" by (auto split: option.splits)
    have "I s1" using Cons.prems(2,3) step(1) False by (meson list.set_intros(1) not_le)
    then show ?thesis using Cons.IH [OF step(2)] Cons.prems(3) by (meson list.set_intros(2))
  qed
qed

text \<open>
  An invariant of the walk: it need only be kept by a start, from a state where the task is not
  hindered and the limit is not reached, and must not depend on anything but the graph, the ledger, the
  limit and the two lists.
\<close>

lemma walk_invariant:
  assumes "process_pending_tasks env ts s = Some (ts', s')" and "I s"
    and "\<And>s s'. I s \<Longrightarrow> quiet s s' \<Longrightarrow> I s'"
    and "\<And>t s t1 q t' s'. t \<in> set ts \<Longrightarrow> I s \<Longrightarrow> start_task_limit s > 0 \<Longrightarrow> unhindered t s \<Longrightarrow>
      start_choice t (tm_models s) t1 q \<Longrightarrow> start_task env t1 q s = Some (t', s') \<Longrightarrow> I s'"
  shows "I s'"
proof -
  have "I s'" if "t \<in> set ts" "I s" "start_task_limit s > 0" "process_pending_task env i t s = Some (t', s')"
    for t s i t' s'
    using process_pending_task_cases [OF that(4)] assms(3,4) that(1-3) by blast
  then show ?thesis
    using pending_loop_invariant [of env 0 ts s ts' s' I] assms(1,2) by (simp add: process_pending_tasks_def)
qed

subsection \<open>No two conflicting tasks\<close>

lemma slots_of_update [simp]:
  "occupies k (t\<lparr>controller_node := c\<rparr>) = occupies k t" "needs k (t\<lparr>controller_node := c\<rparr>) = needs k t"
  "occupies k (t\<lparr>execution_node := c\<rparr>) = occupies k t" "needs k (t\<lparr>execution_node := c\<rparr>) = needs k t"
  "occupies k (t\<lparr>instance_group_id := g\<rparr>) = occupies k t" "needs k (t\<lparr>instance_group_id := g\<rparr>) = needs k t"
  by (cases k; simp)+

lemma conflicts_of_update [simp]:
  "conflicts h (t\<lparr>controller_node := c\<rparr>) = conflicts h t"
  "conflicts h (t\<lparr>execution_node := c\<rparr>) = conflicts h t"
  "conflicts h (t\<lparr>instance_group_id := g\<rparr>) = conflicts h t"
  by (simp_all add: conflicts_def)

lemma conflicts_choice: "start_choice t m t1 q \<Longrightarrow> conflicts h (in_queue t1 q) = conflicts h t"
  by (erule start_choice.cases) (simp_all add: in_queue_def)

lemma choice_same_task: "start_choice t m t1 q \<Longrightarrow> task_id t1 = task_id t \<and> task_impact t1 = task_impact t"
  by (erule start_choice.cases) simp_all

definition running_of :: "task list \<Rightarrow> task list" where
  "running_of = filter (\<lambda>t. task_status t \<in> set [Waiting, Running])"

definition pending_of :: "task list \<Rightarrow> task list" where
  "pending_of = filter (\<lambda>t. task_status t = Pending)"

lemma process_running_state:
  "process_running_tasks ts s = Some s' \<Longrightarrow>
     dependency_graph s' = fold add_job ts (dependency_graph s) \<and>
     fold_opt consume_capacity ts (tm_models s) = Some (tm_models s') \<and>
     start_task_limit s' = start_task_limit s \<and> started_tasks s' = started_tasks s \<and>
     submitted s' = submitted s"
proof (induction ts arbitrary: s)
  case Nil
  then show ?case by (simp add: process_running_tasks_def)
next
  case (Cons t ts)
  then obtain s1 where s1: "process_running_task t s = Some s1" "process_running_tasks ts s1 = Some s'"
    by (auto simp: process_running_tasks_def split: option.splits)
  from Cons.IH [OF s1(2)] s1(1) show ?case
    by (auto simp: process_running_task_def Let_def split: if_splits)
qed

lemma process_tasks_phases:
  assumes "process_tasks env all_tasks (start_state models limit) = Some (ts, s', notified)"
  obtains s1 where "dependency_graph s1 = fold add_job (running_of all_tasks) empty_graph"
    and "fold_opt consume_capacity (running_of all_tasks) models = Some (tm_models s1)"
    and "start_task_limit s1 = limit" and "started_tasks s1 = []" and "submitted s1 = []"
    and "process_pending_tasks env (pending_of all_tasks) s1 = Some (ts, s')"
proof -
  from assms obtain s1 where s1:
    "process_running_tasks (running_of all_tasks) ((start_state models limit)\<lparr>pre_start_failed := []\<rparr>) = Some s1"
    "process_pending_tasks env (pending_of all_tasks) s1 = Some (ts, s')"
    by (auto simp: process_tasks_def running_of_def pending_of_def Let_def bind_eq_Some_conv)
  from process_running_state [OF s1(1)] s1(2) show thesis
    by (intro that [of s1]) (simp_all add: start_state_def)
qed

definition exclusion_inv :: "task list \<Rightarrow> tm_state \<Rightarrow> bool" where
  "exclusion_inv holders s \<longleftrightarrow>
     dependency_graph s = fold add_job (holders @ started_tasks s) empty_graph \<and>
     exclusive conflicts holders (started_tasks s)"

lemma exclusion_inv_start:
  assumes "exclusion_inv holders s" and "unhindered t s" and "start_choice t (tm_models s) t1 q"
    and "start_task env t1 q s = Some (t', s')"
  shows "exclusion_inv holders s'"
proof -
  have "task_blocked_by t (fold add_job (holders @ started_tasks s) empty_graph) = None"
    using assms(1,2) by (simp add: exclusion_inv_def unhindered_def)
  then have "\<not> conflicts h t" if "h \<in> set (holders @ started_tasks s)" for h
    using graph.blocker_iff [of t "holders @ started_tasks s"] that by blast
  then have "exclusive conflicts holders (started_tasks s @ [in_queue t1 q])"
    using assms(1) conflicts_choice [OF assms(3)] by (auto simp: exclusion_inv_def exclusive_snoc)
  then show ?thesis
    using assms(1) start_task_effect [OF assms(4)] by (simp add: exclusion_inv_def)
qed

text \<open>
  C2: Mutual exclusion. After a run of the task manager, no started task conflicts with a task
  that was waiting or running, and no two started tasks conflict: none occupies a resource that a
  later one needs.
\<close>

theorem started_tasks_exclusive:
  assumes "process_tasks env all_tasks (start_state models limit) = Some (ts, s', notified)"
  shows "(\<forall>h \<in> set (running_of all_tasks). \<forall>t \<in> set (started_tasks s'). \<not> conflicts h t) \<and>
    (\<forall>j < length (started_tasks s'). \<forall>i < j. \<not> conflicts (started_tasks s' ! i) (started_tasks s' ! j))"
proof -
  obtain s1 where s1: "dependency_graph s1 = fold add_job (running_of all_tasks) empty_graph"
    "started_tasks s1 = []" "process_pending_tasks env (pending_of all_tasks) s1 = Some (ts, s')"
    using process_tasks_phases [OF assms] by metis
  have "exclusion_inv (running_of all_tasks) s'"
  proof (rule walk_invariant [OF s1(3)])
    show "exclusion_inv (running_of all_tasks) s1" using s1 by (simp add: exclusion_inv_def)
  next
    fix s s' assume "exclusion_inv (running_of all_tasks) s" "quiet s s'"
    then show "exclusion_inv (running_of all_tasks) s'" by (simp add: exclusion_inv_def quiet_def)
  qed (rule exclusion_inv_start)
  then show ?thesis
    using exclusive_holder [of conflicts "running_of all_tasks" "started_tasks s'"]
      exclusive_pair [of conflicts "running_of all_tasks" "started_tasks s'"]
    unfolding exclusion_inv_def by blast
qed

subsection \<open>The start limit\<close>

text \<open>
  A run starts at most \<open>limit\<close> tasks, and it submits to the dispatcher only tasks it started.
  Each task it started was pending, with dependencies that all ended in success or cancelation.
\<close>

theorem starts_bounded:
  assumes "process_tasks env all_tasks (start_state models limit) = Some (ts, s', notified)"
  shows "int (length (started_tasks s')) \<le> max 0 limit \<and>
    set (submitted s') \<subseteq> task_id ` set (started_tasks s') \<and>
    (\<forall>t1 \<in> set (started_tasks s'). \<exists>t \<in> set (pending_of all_tasks). task_id t = task_id t1 \<and>
       (\<forall>dep \<in> set (dependent_jobs t). dep_status dep \<in> {Successful, Canceled}))"
proof -
  define I where "I s \<longleftrightarrow> start_task_limit s + int (length (started_tasks s)) = limit \<and>
     (started_tasks s = [] \<or> start_task_limit s \<ge> 0) \<and>
     set (submitted s) \<subseteq> task_id ` set (started_tasks s) \<and>
     (\<forall>t1 \<in> set (started_tasks s). \<exists>t \<in> set (pending_of all_tasks). task_id t = task_id t1 \<and>
        (\<forall>dep \<in> set (dependent_jobs t). dep_status dep \<in> {Successful, Canceled}))" for s :: tm_state
  obtain s1 where s1: "start_task_limit s1 = limit" "started_tasks s1 = []" "submitted s1 = []"
    "process_pending_tasks env (pending_of all_tasks) s1 = Some (ts, s')"
    using process_tasks_phases [OF assms] by metis
  have "I s'"
  proof (rule walk_invariant [OF s1(4)])
    show "I s1" using s1 by (simp add: I_def)
  next
    fix s s' assume "I s" "quiet s s'"
    then show "I s'" by (simp add: I_def quiet_def)
  next
    fix t s t1 q t' s'
    assume t: "t \<in> set (pending_of all_tasks)" and s: "I s" "start_task_limit s > 0"
      and free: "unhindered t s" and choice: "start_choice t (tm_models s) t1 q"
      and start: "start_task env t1 q s = Some (t', s')"
    have "task_id (in_queue t1 q) = task_id t" "task_id t1 = task_id t"
      using choice_same_task [OF choice] by (simp_all add: in_queue_def split: option.splits)
    then show "I s'"
      using t s free start_task_effect [OF start]
      by (auto simp: I_def unhindered_def split: if_splits)
  qed
  then show ?thesis by (auto simp: I_def)
qed

subsection \<open>Limits of container groups\<close>

definition within_limits :: "tm_group \<Rightarrow> bool" where
  "within_limits g \<longleftrightarrow> (is_container_group g \<longrightarrow>
     (max_concurrent_jobs g \<noteq> 0 \<longrightarrow> container_group_jobs g \<le> max_concurrent_jobs g) \<and>
     (max_forks g \<noteq> 0 \<longrightarrow> container_group_consumed_forks g \<le> max_forks g))"

text \<open>The maps by key and by name agree, and the control plane is an ordinary group.\<close>

definition known_group :: "tm_models \<Rightarrow> instance_group \<Rightarrow> bool" where
  "known_group m ig \<longleftrightarrow> dict_get (pk_ig_map m) (ig_pk ig) = Some ig"

definition groups_agree :: "tm_models \<Rightarrow> bool" where
  "groups_agree m \<longleftrightarrow>
     (\<forall>pk ig. dict_get (pk_ig_map m) pk = Some ig \<longrightarrow> ig_pk ig = pk \<and>
        (\<exists>g. dict_get (instance_groups m) (ig_name ig) = Some g \<and>
             is_container_group g = ig_is_container_group ig)) \<and>
     (\<forall>cp. controlplane_ig m = Some cp \<longrightarrow> known_group m cp \<and> \<not> ig_is_container_group cp)"

text \<open>A pending task has no queue yet, and its fallback groups are among the known ones.\<close>

definition unassigned :: "tm_models \<Rightarrow> task \<Rightarrow> bool" where
  "unassigned m t \<longleftrightarrow> instance_group_id t = None \<and> (\<forall>ig \<in> set (global_instance_groups t). known_group m ig)"

lemma known_cached_group:
  assumes "groups_agree m" and "unassigned m t" and "ig \<in> set (get_instance_groups_from_task_cache m (t\<lparr>controller_node := c\<rparr>))"
  shows "known_group m ig"
  using assms by (auto simp: get_instance_groups_from_task_cache_def groups_agree_def unassigned_def
      known_group_def map_filter_def Let_def split: if_splits)

lemma group_consume_keeps:
  "group_consume_capacity t g = Some g' \<Longrightarrow> is_container_group g' = is_container_group g"
  by (auto simp: group_consume_capacity_def split: if_splits)

lemma groups_agree_consume:
  assumes "consume_capacity t m = Some m'" and "groups_agree m"
  shows "groups_agree m'"
proof -
  have "\<exists>g'. dict_get (instance_groups m') nm = Some g' \<and> is_container_group g' = is_container_group g"
    if "dict_get (instance_groups m) nm = Some g" for nm g
  proof (cases "booked_group m t = Some nm")
    case True
    have "dict_get (instance_groups m') nm = group_consume_capacity t g"
      using consume_capacity_groups [OF assms(1), of nm] True that by simp
    moreover have "group_consume_capacity t g \<noteq> None"
      using assms(1) True that by (auto simp: consume_capacity_def booked_group_def Let_def
          split: option.splits if_splits)
    ultimately show ?thesis using group_consume_keeps by fastforce
  next
    case False
    then show ?thesis using consume_capacity_groups [OF assms(1), of nm] that by simp
  qed
  then show ?thesis
    using assms(2) consume_capacity_keeps [OF assms(1)]
    unfolding groups_agree_def known_group_def by metis
qed

definition group_inv :: "tm_models \<Rightarrow> bool" where
  "group_inv m \<longleftrightarrow> groups_agree m \<and>
     (\<forall>nm g. dict_get (instance_groups m) nm = Some g \<longrightarrow> within_limits g)"

lemma has_remaining_impact:
  "task_impact t = task_impact u \<Longrightarrow> has_remaining_capacity m g (Some t) = has_remaining_capacity m g (Some u)"
  by (simp add: has_remaining_capacity_def Let_def)

text \<open>The container group a started task is booked on had room for it.\<close>

lemma booked_group_had_room:
  assumes "start_choice t m t1 q" and agree: "groups_agree m" and un: "unassigned m t"
    and "booked_group m (in_queue t1 q) = Some nm" and "dict_get (instance_groups m) nm = Some g"
  shows "has_remaining_capacity (tmm_instances m) g (Some (in_queue t1 q))"
  using assms(1)
proof cases
  case workflow
  then show ?thesis using assms(4) un by (simp add: in_queue_def booked_group_def unassigned_def)
next
  case (control cp c)
  then have "known_group m cp" "\<not> ig_is_container_group cp"
    using agree unfolding groups_agree_def by blast+
  then show ?thesis using assms(4) control(2)
    by (simp add: in_queue_def booked_group_def known_group_def split: if_splits)
next
  case (container c ig g1)
  then have "known_group m ig" using known_cached_group [OF agree un, of ig "hostname c"] by simp
  then have "nm = ig_name ig"
    using assms(4) container by (simp add: in_queue_def booked_group_def known_group_def split: if_splits)
  then have "g = g1" using assms(5) container by simp
  moreover have "task_impact (in_queue t1 q) = task_impact t1" by (simp add: in_queue_def split: option.splits)
  ultimately show ?thesis using container has_remaining_impact by blast
next
  case (execution c t2 ig g1 i)
  then have "known_group m ig" using known_cached_group [OF agree un, of ig "hostname c"] by simp
  then show ?thesis
    using assms(4) execution by (simp add: in_queue_def booked_group_def known_group_def split: if_splits)
qed

lemma group_inv_start:
  assumes "group_inv (tm_models s)" and "unassigned (tm_models s) t"
    and "start_choice t (tm_models s) t1 q" and "start_task env t1 q s = Some (t', s')"
  shows "group_inv (tm_models s')"
proof -
  let ?m = "tm_models s" and ?m' = "tm_models s'" and ?t = "in_queue t1 q"
  have book: "consume_capacity ?t ?m = Some ?m'" using start_task_effect [OF assms(4)] by blast
  have agree: "groups_agree ?m" using assms(1) by (simp add: group_inv_def)
  have "within_limits g'" if g': "dict_get (instance_groups ?m') nm = Some g'" for nm g'
  proof (cases "booked_group ?m ?t = Some nm")
    case True
    then obtain g where g: "dict_get (instance_groups ?m) nm = Some g" "group_consume_capacity ?t g = Some g'"
      using consume_capacity_groups [OF book, of nm] g' by (cases "dict_get (instance_groups ?m) nm") auto
    have "is_container_group g" using g(2) by (simp add: group_consume_capacity_def split: if_splits)
    from container_group_within_limits [OF this booked_group_had_room [OF assms(3) agree assms(2) True g(1)] g(2)]
    show ?thesis by (simp add: within_limits_def)
  next
    case False
    then have "dict_get (instance_groups ?m) nm = Some g'"
      using consume_capacity_groups [OF book, of nm] g' by simp
    then show ?thesis using assms(1) by (auto simp: group_inv_def)
  qed
  then show ?thesis using groups_agree_consume [OF book agree] by (simp add: group_inv_def)
qed

text \<open>
  C30: No start exceeds the limits of a container group: if every group is within its
  \<open>max_concurrent_jobs\<close> and \<open>max_forks\<close> (0 is no limit) before the pending tasks are walked, every
  group is afterwards.
\<close>

theorem container_groups_stay_within_limits:
  assumes "process_pending_tasks env ts s = Some (ts', s')"
    and "groups_agree (tm_models s)" and "\<forall>t \<in> set ts. unassigned (tm_models s) t"
    and "\<forall>nm g. dict_get (instance_groups (tm_models s)) nm = Some g \<longrightarrow> within_limits g"
  shows "\<forall>nm g. dict_get (instance_groups (tm_models s')) nm = Some g \<longrightarrow> within_limits g"
proof -
  define I where "I r \<longleftrightarrow> group_inv (tm_models r) \<and> (\<forall>t \<in> set ts. unassigned (tm_models r) t)" for r :: tm_state
  have "I s'"
  proof (rule walk_invariant [OF assms(1)])
    show "I s" using assms(2-4) by (simp add: I_def group_inv_def)
  next
    fix s s' assume "I s" "quiet s s'"
    then show "I s'" by (simp add: I_def quiet_def)
  next
    fix t s t1 q t' s'
    assume t: "t \<in> set ts" "I s" and choice: "start_choice t (tm_models s) t1 q"
      and start: "start_task env t1 q s = Some (t', s')"
    have "group_inv (tm_models s')" using group_inv_start [OF _ _ choice start] t by (simp add: I_def)
    moreover have "unassigned (tm_models s') u \<longleftrightarrow> unassigned (tm_models s) u" for u
      using start_task_effect [OF start] consume_capacity_keeps [of "in_queue t1 q" "tm_models s" "tm_models s'"]
      by (auto simp: unassigned_def known_group_def)
    ultimately show "I s'" using t(2) by (simp add: I_def)
  qed
  then show ?thesis by (simp add: I_def group_inv_def)
qed

subsection \<open>Load of execution nodes\<close>

text \<open>
  An execution node is healthy when its load fits its capacity, or is that of a single job, which
  the idle node took although it is larger than the node.
\<close>

definition healthy :: "tm_instance \<Rightarrow> bool" where
  "healthy i \<longleftrightarrow> (node_kind i = Execution \<longrightarrow>
     0 \<le> consumed_capacity i \<and> 0 \<le> jobs_running i \<and> (consumed_capacity i = 0 \<longleftrightarrow> jobs_running i = 0) \<and>
     (consumed_capacity i \<le> capacity i \<or> jobs_running i = 1))"

definition nodes_healthy :: "tm_instances \<Rightarrow> bool" where
  "nodes_healthy m \<longleftrightarrow> (\<forall>h i. instance_of m h = Some i \<longrightarrow> hostname i = h \<and> healthy i)"

text \<open>A pending task has no node yet, and costs something.\<close>

definition unplaced :: "tm_instances \<Rightarrow> task \<Rightarrow> bool" where
  "unplaced m t \<longleftrightarrow> instance_of m (execution_node t) = None \<and> task_impact t > 0"

lemma chosen_instance:
  assumes "nodes_healthy (tmm_instances m)" and "i \<in> set (group_instances (tmm_instances m) g)"
  shows "instance_of (tmm_instances m) (hostname i) = Some i"
  using assms by (auto simp: group_instances_lookup nodes_healthy_def)

lemma control_fit_kind:
  assumes "control_fit m t c" and "nodes_healthy (tmm_instances m)"
  shows "instance_of (tmm_instances m) (hostname c) = Some c \<and> node_kind c \<noteq> Execution"
proof -
  obtain g where c: "c \<in> set (group_instances (tmm_instances m) g)"
    "room (asked_impact t (Some (control_request t (control_task_impact (tmm_instances m)))))
       (Some Control) (control_task_impact (tmm_instances m)) False c \<noteq> None"
    using assms(1) fit_instances_choice [where cap = "Some Control" and add = False]
    by (fastforce simp: control_fit_def fit_task_instances asked_type_def split: option.splits)
  then show ?thesis using chosen_instance [OF assms(2) c(1)] by (auto simp: room_def split: if_splits)
qed

lemma execution_fit_load:
  assumes "execution_fit m t nm i" and "nodes_healthy (tmm_instances m)" and "task_impact t > 0"
    and "node_kind i = Execution"
  shows "instance_of (tmm_instances m) (hostname i) = Some i \<and>
    (consumed_capacity i + task_impact t \<le> capacity i \<or> jobs_running i = 0)"
proof -
  obtain g where "dict_get (instance_groups m) nm = Some g"
    using assms(1) by (auto simp: execution_fit_def fit_task_instances find_largest_idle_instance_def
        split: option.splits)
  with assms(1) consider
    "fit_instances (task_impact t) (capacity_type t) (control_task_impact (tmm_instances m)) True
       (group_instances (tmm_instances m) g) = Some i"
    | "fold (idle_step (capacity_type t)) (group_instances (tmm_instances m) g) None = Some i"
    by (auto simp: execution_fit_def fit_task_instances asked_impact_def asked_type_def
        find_largest_idle_instance_def split: option.splits)
  then show ?thesis
  proof cases
    case 1
    with fit_instances_choice [where insts = "group_instances (tmm_instances m) g" and add = True
        and impact = "task_impact t" and cap = "capacity_type t"
        and control_impact = "control_task_impact (tmm_instances m)"]
    have "i \<in> set (group_instances (tmm_instances m) g)"
      "room (task_impact t) (capacity_type t) (control_task_impact (tmm_instances m)) True i \<noteq> None" by auto
    then show ?thesis
      using chosen_instance [OF assms(2)] assms(3,4) by (auto simp: room_def Let_def split: if_splits)
  next
    case 2
    with idle_fold [where cap = "capacity_type t" and insts = "group_instances (tmm_instances m) g"]
    have i: "i \<in> set (group_instances (tmm_instances m) g)" "capacity i > 0"
      "jobs_running i = 0 \<or> remaining_capacity i = capacity i" by auto
    have at: "instance_of (tmm_instances m) (hostname i) = Some i" by (rule chosen_instance [OF assms(2) i(1)])
    then have "healthy i" using assms(2) by (auto simp: nodes_healthy_def)
    with i(2,3) assms(4) have "jobs_running i = 0"
      by (auto simp: healthy_def remaining_capacity_def Let_def split: if_splits)
    with at show ?thesis by blast
  qed
qed

lemma book_on_healthy:
  assumes "healthy i" and "task_impact t > 0"
    and "runs_on t h i \<Longrightarrow> node_kind i = Execution \<Longrightarrow>
      consumed_capacity i + task_impact t \<le> capacity i \<or> jobs_running i = 0"
  shows "healthy (book_on impact t h i)"
  using assms by (auto simp: healthy_def book_on_def controlled_by_def)

lemma choice_load:
  assumes "start_choice t m t1 q" and healthy: "nodes_healthy (tmm_instances m)"
    and un: "unplaced (tmm_instances m) t" and "instance_of (tmm_instances m) h = Some i"
    and "runs_on (in_queue t1 q) h i" and "node_kind i = Execution"
  shows "consumed_capacity i + task_impact t \<le> capacity i \<or> jobs_running i = 0"
  using assms(1)
proof cases
  case workflow
  then show ?thesis using assms(4,5) un by (auto simp: in_queue_def runs_on_def unplaced_def)
next
  case (control cp c)
  then show ?thesis using control_fit_kind [OF control(4) healthy] assms(4,5,6)
    by (auto simp: in_queue_def runs_on_def)
next
  case (container c ig g)
  then show ?thesis using assms(4,5) un by (auto simp: in_queue_def runs_on_def unplaced_def)
next
  case (execution c t2 ig g j)
  then have h: "hostname j = h" using assms(5) by (simp add: in_queue_def runs_on_def)
  have impact: "task_impact t2 = task_impact t" "task_impact t2 > 0"
    using execution un by (simp_all add: unplaced_def)
  have "instance_of (tmm_instances m) (hostname j) = Some j"
  proof -
    obtain g where "j \<in> set (group_instances (tmm_instances m) g)"
      using execution(9) fit_instances_choice idle_fold
      by (fastforce simp: execution_fit_def fit_task_instances find_largest_idle_instance_def
          split: option.splits)
    then show ?thesis by (rule chosen_instance [OF healthy])
  qed
  with h assms(4) have "j = i" by simp
  with execution_fit_load [OF execution(9) healthy impact(2)] assms(6) impact(1) show ?thesis by auto
qed

lemma healthy_start:
  assumes "start_choice t (tm_models s) t1 q" and "nodes_healthy (tmm_instances (tm_models s))"
    and un: "unplaced (tmm_instances (tm_models s)) t" and "start_task env t1 q s = Some (t', s')"
  shows "nodes_healthy (tmm_instances (tm_models s'))"
proof -
  let ?m = "tmm_instances (tm_models s)" and ?t = "in_queue t1 q"
  have m': "tmm_instances (tm_models s') = instances_consume_capacity ?t ?m"
    using start_task_effect [OF assms(4)] consume_capacity_instances by blast
  have impact: "task_impact ?t = task_impact t"
    using choice_same_task [OF assms(1)] by (simp add: in_queue_def split: option.splits)
  have "hostname j = h \<and> healthy j" if j: "instance_of (instances_consume_capacity ?t ?m) h = Some j" for h j
  proof -
    obtain i where i: "instance_of ?m h = Some i" "j = book_on (control_task_impact ?m) ?t h i"
      using j by (auto simp: instance_of_consume)
    have "hostname i = h" "healthy i" using i(1) assms(2) by (auto simp: nodes_healthy_def)
    moreover have "healthy j" unfolding i(2)
      by (rule book_on_healthy [OF \<open>healthy i\<close>])
        (use un choice_load [OF assms(1-3) i(1)] in \<open>auto simp: impact unplaced_def\<close>)
    ultimately show ?thesis by (simp add: i(2) book_on_def)
  qed
  then show ?thesis by (simp add: nodes_healthy_def m')
qed

text \<open>
  Execution nodes are not overcommitted: if every execution node is healthy before the pending
  tasks are walked (its load fits, or is one job that an idle node took), every one is afterwards,
  whatever the groups, the order and the fallback to idle nodes.
\<close>

theorem execution_nodes_stay_healthy:
  assumes "process_pending_tasks env ts s = Some (ts', s')"
    and "nodes_healthy (tmm_instances (tm_models s))"
    and "\<forall>t \<in> set ts. unplaced (tmm_instances (tm_models s)) t"
  shows "nodes_healthy (tmm_instances (tm_models s'))"
proof -
  define I where "I r \<longleftrightarrow> nodes_healthy (tmm_instances (tm_models r)) \<and>
     (\<forall>t \<in> set ts. unplaced (tmm_instances (tm_models r)) t)" for r :: tm_state
  have "I s'"
  proof (rule walk_invariant [OF assms(1)])
    show "I s" using assms(2,3) by (simp add: I_def)
  next
    fix s s' assume "I s" "quiet s s'"
    then show "I s'" by (simp add: I_def quiet_def)
  next
    fix t s t1 q t' s'
    assume t: "t \<in> set ts" "I s" and choice: "start_choice t (tm_models s) t1 q"
      and start: "start_task env t1 q s = Some (t', s')"
    have "nodes_healthy (tmm_instances (tm_models s'))"
      using healthy_start [OF choice _ _ start] t by (simp add: I_def)
    moreover have "tmm_instances (tm_models s') = instances_consume_capacity (in_queue t1 q) (tmm_instances (tm_models s))"
      using start_task_effect [OF start] consume_capacity_instances by blast
    then have "unplaced (tmm_instances (tm_models s')) u \<longleftrightarrow> unplaced (tmm_instances (tm_models s)) u" for u
      by (simp add: unplaced_def instance_of_consume)
    ultimately show "I s'" using t(2) by (simp add: I_def)
  qed
  then show ?thesis by (simp add: I_def)
qed

subsection \<open>Witnesses\<close>

text \<open>
  A control node, an execution node of capacity 5, a container group for one job. Jobs 1 and 2
  share a template that does not run simultaneously, jobs 1 and 3 ask for the container group, job 4
  for the execution node, which is smaller than the job.
\<close>

definition demo_models :: tm_models where
  "demo_models = build_models 1 ''controlplane''
     [\<lparr>row_hostname = ''ctl'', row_node_type = Control, row_capacity = 10\<rparr>,
      \<lparr>row_hostname = ''ex1'', row_node_type = Execution, row_capacity = 5\<rparr>]
     [\<lparr>ig_pk = 1, ig_name = ''controlplane'', ig_is_container_group = False, ig_instances = [''ctl''],
       ig_max_concurrent_jobs = 0, ig_max_forks = 0\<rparr>,
      \<lparr>ig_pk = 2, ig_name = ''default'', ig_is_container_group = False, ig_instances = [''ex1''],
       ig_max_concurrent_jobs = 0, ig_max_forks = 0\<rparr>,
      \<lparr>ig_pk = 3, ig_name = ''pods'', ig_is_container_group = True, ig_instances = [],
       ig_max_concurrent_jobs = 1, ig_max_forks = 0\<rparr>]"

definition demo_job :: "int \<Rightarrow> int \<Rightarrow> int \<Rightarrow> job_status \<Rightarrow> task" where
  "demo_job i template queue status =
     \<lparr>task_id = i, task_kind = Job, project_id = Some 1, inventory_id = Some 1, inventory_source_id = None,
      source_inventory_id = None, job_template_id = Some template, workflow_job_template_id = None,
      unified_job_template_id = Some template, allow_simultaneous = False, task_impact = 6,
      capacity_type = Some Execution, controller_node = '''', execution_node = '''',
      instance_group_id = None, preferred_instance_groups_cache = [queue], global_instance_groups = [],
      dependent_jobs = [], task_status = status, job_explanation = '''', task_created = 0,
      has_celery_task_id = False\<rparr>"

definition demo_env :: tm_env where
  "demo_env = \<lparr>late = (\<lambda>_. False), tz_now = (\<lambda>_. 100), pre_start = (\<lambda>_. None),
     type_for_model = (\<lambda>_. ''job'')\<rparr>"

definition demo_tasks :: "task list" where
  "demo_tasks = [demo_job 1 5 3 Pending, demo_job 2 5 2 Pending, demo_job 3 6 3 Pending, demo_job 4 7 2 Pending]"

lemma demo_run:
  "map_option (\<lambda>(ts, s, notified). (map task_id (started_tasks s), map task_status ts))
     (process_tasks demo_env demo_tasks (start_state demo_models 100)) =
   Some ([1, 4], [Waiting, Pending, Pending, Waiting])"
  by code_simp

lemma demo_run_Some:
  obtains ts s' notified where
    "process_tasks demo_env demo_tasks (start_state demo_models 100) = Some (ts, s', notified)"
    and "map task_id (started_tasks s') = [1, 4]"
  using demo_run by (auto split: prod.splits)

lemma demo_pending_run:
  obtains ts s' where
    "process_pending_tasks demo_env demo_tasks (start_state demo_models 100) = Some (ts, s')"
    and "map task_id (started_tasks s') = [1, 4]"
proof -
  have "filter (\<lambda>t. task_status t = Pending) demo_tasks = demo_tasks"
    and "filter (\<lambda>t. task_status t = Waiting \<or> task_status t = Running) demo_tasks = []"
    by (simp_all add: demo_tasks_def demo_job_def)
  moreover have "(start_state demo_models 100)\<lparr>pre_start_failed := []\<rparr> = start_state demo_models 100"
    by (simp add: start_state_def)
  ultimately have "process_tasks demo_env demo_tasks (start_state demo_models 100) =
      Option.bind (process_pending_tasks demo_env demo_tasks (start_state demo_models 100))
        (\<lambda>(tasks, s2). Some (tasks, s2, pre_start_failed s2))"
    by (simp add: process_tasks_def process_running_tasks_def)
  then show thesis
    using demo_run that
    by (cases "process_pending_tasks demo_env demo_tasks (start_state demo_models 100)")
      (auto split: prod.splits)
qed

lemma demo_instances:
  "tmm_instances demo_models = build_instances 1
     [\<lparr>row_hostname = ''ctl'', row_node_type = Control, row_capacity = 10\<rparr>,
      \<lparr>row_hostname = ''ex1'', row_node_type = Execution, row_capacity = 5\<rparr>]"
  by (simp add: demo_models_def build_models_def add_group_def Let_def)

lemma demo_nodes_healthy: "nodes_healthy (tmm_instances demo_models)"
  by (auto simp: nodes_healthy_def demo_instances instance_of_built new_instance_def healthy_def
      split: if_splits)

text \<open>Models built from rows with distinct keys and names agree.\<close>

lemma built_groups_agree:
  assumes "distinct (map ig_pk groups)" and "distinct (map ig_name groups)"
    and "\<forall>ig \<in> set groups. ig_name ig = cp \<longrightarrow> \<not> ig_is_container_group ig"
  shows "groups_agree (build_models impact cp rows groups) \<and>
    (\<forall>pk ig. dict_get (pk_ig_map (build_models impact cp rows groups)) pk = Some ig \<longrightarrow> ig \<in> set groups)"
  using assms
proof (induction groups rule: rev_induct)
  case Nil
  then show ?case by (simp add: build_models_def groups_agree_def)
next
  case (snoc ig groups)
  let ?m = "build_models impact cp rows groups"
  have IH: "groups_agree ?m" "\<And>pk x. dict_get (pk_ig_map ?m) pk = Some x \<Longrightarrow> x \<in> set groups"
    using snoc by simp_all
  have new: "ig_pk x \<noteq> ig_pk ig" "ig_name x \<noteq> ig_name ig" if "x \<in> set groups" for x
  proof -
    have "ig_pk ig \<notin> ig_pk ` set groups" "ig_name ig \<notin> ig_name ` set groups"
      using snoc.prems by simp_all
    then show "ig_pk x \<noteq> ig_pk ig" "ig_name x \<noteq> ig_name ig" using that by (metis imageI)+
  qed
  have step: "build_models impact cp rows (groups @ [ig]) = add_group cp ig ?m"
    by (simp add: build_models_def)
  have pk: "dict_get (pk_ig_map (add_group cp ig ?m)) pk =
      (if pk = ig_pk ig then Some ig else dict_get (pk_ig_map ?m) pk)" for pk
    by (simp add: add_group_def Let_def dict_simps)
  have names: "dict_get (instance_groups (add_group cp ig ?m)) nm =
      (if nm = ig_name ig then Some (new_group (tmm_instances ?m) ig) else dict_get (instance_groups ?m) nm)" for nm
    by (simp add: add_group_def Let_def dict_simps)
  have control: "controlplane_ig (add_group cp ig ?m) = (if ig_name ig = cp then Some ig else controlplane_ig ?m)"
    by (simp add: add_group_def Let_def)
  have "ig_pk x = k \<and> (\<exists>g. dict_get (instance_groups (add_group cp ig ?m)) (ig_name x) = Some g \<and>
        is_container_group g = ig_is_container_group x) \<and> x \<in> set (groups @ [ig])"
    if "dict_get (pk_ig_map (add_group cp ig ?m)) k = Some x" for k x
  proof (cases "k = ig_pk ig")
    case True
    with that have "x = ig" by (simp add: pk)
    with True names [of "ig_name ig"] show ?thesis by (simp add: new_group_def)
  next
    case False
    with that have x: "dict_get (pk_ig_map ?m) k = Some x" by (simp add: pk)
    then show ?thesis using IH(1) IH(2) [OF x] new(2) [OF IH(2) [OF x]]
      unfolding names groups_agree_def by simp
  qed
  moreover have "known_group (add_group cp ig ?m) x \<and> \<not> ig_is_container_group x"
    if "controlplane_ig (add_group cp ig ?m) = Some x" for x
  proof (cases "ig_name ig = cp")
    case True
    with that have "x = ig" by (simp add: control)
    with True snoc.prems(3) pk [of "ig_pk ig"] show ?thesis by (simp add: known_group_def)
  next
    case False
    then have "known_group ?m x \<and> \<not> ig_is_container_group x"
      using that IH(1) by (simp add: control groups_agree_def)
    moreover from this have "ig_pk x \<noteq> ig_pk ig" using IH(2) new(1) by (auto simp: known_group_def)
    ultimately show ?thesis by (simp add: known_group_def pk)
  qed
  ultimately show ?case unfolding step groups_agree_def by blast
qed

lemma built_groups_fresh:
  "dict_get (instance_groups (build_models impact cp rows groups)) nm = Some g \<Longrightarrow>
     container_group_jobs g = 0 \<and> container_group_consumed_forks g = 0 \<and>
     (\<exists>ig \<in> set groups. max_concurrent_jobs g = ig_max_concurrent_jobs ig \<and> max_forks g = ig_max_forks ig)"
proof (induction groups rule: rev_induct)
  case Nil
  then show ?case by (simp add: build_models_def)
next
  case (snoc ig groups)
  then show ?case
    by (auto simp: build_models_def add_group_def Let_def dict_simps new_group_def split: if_splits)
qed

theorem started_tasks_exclusive_witness:
  "\<exists>s' :: tm_state. map task_id (started_tasks s') = [1, 4] \<and>
     (\<forall>j < length (started_tasks s'). \<forall>i < j. \<not> conflicts (started_tasks s' ! i) (started_tasks s' ! j))"
proof -
  obtain ts s' notified where
    run: "process_tasks demo_env demo_tasks (start_state demo_models 100) = Some (ts, s', notified)"
    and started: "map task_id (started_tasks s') = [1, 4]" by (rule demo_run_Some)
  show ?thesis
    by (intro exI [of _ s'] conjI started) (rule started_tasks_exclusive [OF run, THEN conjunct2])
qed

theorem starts_bounded_witness:
  "\<exists>s' :: tm_state. map task_id (started_tasks s') = [1, 4] \<and> int (length (started_tasks s')) \<le> 100 \<and>
     set (submitted s') \<subseteq> {1, 4}"
proof -
  obtain ts s' notified where
    run: "process_tasks demo_env demo_tasks (start_state demo_models 100) = Some (ts, s', notified)"
    and started: "map task_id (started_tasks s') = [1, 4]" by (rule demo_run_Some)
  have "task_id ` set (started_tasks s') = {1, 4}"
    unfolding set_map [symmetric] started by simp
  with starts_bounded [OF run] started show ?thesis by (intro exI [of _ s']) simp
qed

theorem execution_nodes_stay_healthy_witness:
  "\<exists>s' :: tm_state. map task_id (started_tasks s') = [1, 4] \<and> nodes_healthy (tmm_instances (tm_models s'))"
proof -
  obtain ts s' where
    run: "process_pending_tasks demo_env demo_tasks (start_state demo_models 100) = Some (ts, s')"
    and started: "map task_id (started_tasks s') = [1, 4]" by (rule demo_pending_run)
  have "\<forall>t \<in> set demo_tasks. unplaced (tmm_instances demo_models) t"
    by (auto simp: unplaced_def demo_tasks_def demo_job_def demo_instances instance_of_built)
  with execution_nodes_stay_healthy [OF run] demo_nodes_healthy started show ?thesis
    by (intro exI [of _ s']) (simp add: start_state_def)
qed

theorem container_groups_stay_within_limits_witness:
  "\<exists>s' :: tm_state. map task_id (started_tasks s') = [1, 4] \<and>
     (\<forall>nm g. dict_get (instance_groups (tm_models s')) nm = Some g \<longrightarrow> within_limits g)"
proof -
  obtain ts s' where
    run: "process_pending_tasks demo_env demo_tasks (start_state demo_models 100) = Some (ts, s')"
    and started: "map task_id (started_tasks s') = [1, 4]" by (rule demo_pending_run)
  have limits: "\<forall>nm g. dict_get (instance_groups demo_models) nm = Some g \<longrightarrow> within_limits g"
    unfolding demo_models_def by (auto dest!: built_groups_fresh simp: within_limits_def)
  have "groups_agree demo_models"
    unfolding demo_models_def by (rule built_groups_agree [THEN conjunct1]) auto
  moreover have "\<forall>t \<in> set demo_tasks. unassigned demo_models t"
    by (simp add: unassigned_def demo_tasks_def demo_job_def)
  ultimately show ?thesis
    using container_groups_stay_within_limits [OF run] limits started
    by (intro exI [of _ s']) (simp add: start_state_def)
qed

end
