(* ===== verification/WorkflowManager.thy ===== *)
theory WorkflowManager
  imports WorkflowDag
begin

section \<open>The workflow manager of \<^verbatim>\<open>forail/main/scheduler/task_manager.py\<close>\<close>

text \<open>
  One round of \<open>WorkflowManager.spawn_workflow_graph_jobs\<close>: each running workflow job is
  canceled, or marked and perhaps finished, and then the nodes that may run get a job. The node
  rows exist twice: in the database and as the objects of the graph, which were read before the
  round; what is written to one is not seen by the other unless the code saves or reads it.
\<close>

subsection \<open>Rows and environment\<close>

record workflow_job =
  wfjob_id :: int
  wfjob_cancel_flag :: bool
  wfjob_status :: job_status
  wfjob_explanation :: string
  wfjob_start_args :: string
  wfjob_spawned_by_workflow :: bool

text \<open>
  What a spawn reads from other models: whether the template is a workflow template, the
  templates of the ancestors of the workflow job, how a template is shown, whether the job of the
  node has its resources, and whether \<open>signal_start\<close> accepts the job; and whether the time is
  used up at the \<open>i\<close>-th workflow.
\<close>

record wfm_env =
  is_workflow_template :: "int \<Rightarrow> bool"
  ancestor_workflows :: "int \<Rightarrow> int list"
  template_display :: "int \<Rightarrow> string"
  resources_sufficient :: "int \<Rightarrow> bool"
  signal_start :: "int \<Rightarrow> bool"
  wfm_late :: "nat \<Rightarrow> bool"

text \<open>
  The state of a round: the rows in memory and in the database, the explanations of the spawned
  jobs that failed to start, how often the manager was scheduled again, the notifications sent.
\<close>

record wfm_state =
  node_objects :: wf_store
  node_rows :: wf_store
  refused :: "(int \<times> string) list"
  wfm_schedules :: nat
  wfm_notified :: "(int \<times> bool) list"

subsection \<open>Spawning a job\<close>

definition recursion_explanation :: "wfm_env \<Rightarrow> int \<Rightarrow> int list \<Rightarrow> string" where
  "recursion_explanation env template ancestors =
     ''Workflow Job spawned from workflow could not start because it would result in recursion (spawn order, most recent first: '' @
     join '', '' (map (\<lambda>t. ''<'' @ template_display env t @ ''>'') (template # ancestors)) @ '')''"

text \<open>
  The checks of a spawned job in their order: a later failing check replaces the explanation; the
  third is made only if the first two passed.
\<close>

definition start_checks :: "wfm_env \<Rightarrow> int \<Rightarrow> int \<Rightarrow> bool \<times> string" where
  "start_checks env node template =
     (let recursive = (is_workflow_template env template \<and> template \<in> set (ancestor_workflows env node));
          expl1 = (if recursive then recursion_explanation env template (ancestor_workflows env node) else []);
          poor = (\<not> resources_sufficient env node);
          expl2 = (if poor then ''Job spawned from workflow could not start because it was missing a related resource such as project or inventory''
                   else expl1);
          can_start = (\<not> recursive \<and> \<not> poor)
      in if can_start then
           (if signal_start env node then (True, expl2)
            else (False, ''Job spawned from workflow could not start because it was not in the right state or required manual credentials''))
         else (False, expl2))"

definition spawned_job :: "bool \<Rightarrow> wf_job" where
  "spawned_job can_start =
     \<lparr>wfj_status = (if can_start then Pending else Failed), wfj_cancel_flag = False, wfj_celery_task = False\<rparr>"

definition spawn_node :: "wfm_env \<Rightarrow> int \<Rightarrow> wfm_state \<Rightarrow> wfm_state" where
  "spawn_node env v s =
     (case unified_job_template (node_objects s v) of
        None \<Rightarrow> s
      | Some template \<Rightarrow>
          (let (can_start, explanation) = start_checks env v template;
               row = (node_objects s v)\<lparr>wn_job := Some (spawned_job can_start)\<rparr>;
               s1 = s\<lparr>node_objects := (node_objects s)(v := row), node_rows := (node_rows s)(v := row)\<rparr>
           in if can_start then s1
              else s1\<lparr>refused := refused s1 @ [(v, explanation)], wfm_schedules := wfm_schedules s1 + 1\<rparr>))"

subsection \<open>One workflow job\<close>

text \<open>
  The cancel branch. The query marks rows of the database; \<open>cancel_node_jobs\<close> works on the
  objects, and saves the jobs it changes.
\<close>

definition mark_unstarted :: "wf_dag \<Rightarrow> wf_store \<Rightarrow> wf_store" where
  "mark_unstarted d rows = (\<lambda>v. if v \<in> set (dag_objs d) \<and> \<not> do_not_run (rows v) \<and> wn_job (rows v) = None
     then (rows v)\<lparr>do_not_run := True\<rparr> else rows v)"

definition cancel_workflow :: "wf_dag \<Rightarrow> workflow_job \<Rightarrow> wfm_state \<Rightarrow> bool \<times> workflow_job \<times> wfm_state" where
  "cancel_workflow d w s =
     (let rows1 = mark_unstarted d (node_rows s);
          (cancel_finished, objects1) = cancel_node_jobs d (node_objects s);
          rows2 = (\<lambda>v. if v \<in> set (dag_objs d) then (rows1 v)\<lparr>wn_job := wn_job (objects1 v)\<rparr> else rows1 v);
          s1 = s\<lparr>node_objects := objects1, node_rows := rows2\<rparr>
      in if cancel_finished then (True, w\<lparr>wfjob_status := Canceled, wfjob_start_args := []\<rparr>, s1)
         else (False, w, s1))"

text \<open>
  The other branch: the marks are written back, and a workflow that is done gets its final
  status. \<^const>\<open>None\<close>: the recursion limit of the topological sort.
\<close>

definition conclude_workflow ::
  "nat \<Rightarrow> wf_dag \<Rightarrow> workflow_job \<Rightarrow> wfm_state \<Rightarrow> (bool \<times> workflow_job \<times> wfm_state) option" where
  "conclude_workflow limit d w s =
     (case mark_dnr_nodes limit d (node_objects s) of
        None \<Rightarrow> None
      | Some (marked, objects1) \<Rightarrow>
          (let rows1 = (\<lambda>v. if v \<in> set marked then (node_rows s v)\<lparr>do_not_run := do_not_run (objects1 v)\<rparr>
                            else node_rows s v);
               s1 = s\<lparr>node_objects := objects1, node_rows := rows1\<rparr>
           in if is_workflow_done d objects1 then
                (let (has_failed, reason) = has_workflow_failed d objects1;
                     w1 = w\<lparr>wfjob_status := (if has_failed then Failed else Successful)\<rparr>;
                     w2 = (if reason \<noteq> None
                           then w1\<lparr>wfjob_explanation := ''No error handling paths found, marking workflow as failed''\<rparr>
                           else w1)
                 in Some (True, w2\<lparr>wfjob_start_args := []\<rparr>, s1))
              else Some (False, w, s1)))"

definition after_status_change :: "workflow_job \<Rightarrow> wfm_state \<Rightarrow> wfm_state" where
  "after_status_change w s =
     (let s1 = (if wfjob_spawned_by_workflow w then s\<lparr>wfm_schedules := wfm_schedules s + 1\<rparr> else s)
      in s1\<lparr>wfm_notified := wfm_notified s1 @ [(wfjob_id w, wfjob_status w = Successful)]\<rparr>)"

definition workflow_round ::
  "nat \<Rightarrow> wfm_env \<Rightarrow> wf_dag \<Rightarrow> workflow_job \<Rightarrow> wfm_state \<Rightarrow> (workflow_job \<times> wfm_state) option" where
  "workflow_round limit env d w s =
     (case (if wfjob_cancel_flag w then Some (cancel_workflow d w s) else conclude_workflow limit d w s) of
        None \<Rightarrow> None
      | Some (status_changed, w1, s1) \<Rightarrow>
          (let s2 = (if status_changed then after_status_change w1 s1 else s1) in
           if wfjob_status w1 = Running
           then Some (w1, fold (spawn_node env) (bfs_nodes_to_run d (node_objects s2)) s2)
           else Some (w1, s2)))"

text \<open>
  The loop over the running workflows, each with its graph (whose objects are read from the rows
  when the graph is built). It stops early when the time is used up.
\<close>

fun spawn_workflow_graph_jobs ::
  "nat \<Rightarrow> wfm_env \<Rightarrow> nat \<Rightarrow> (workflow_job \<times> wf_dag) list \<Rightarrow> wfm_state \<Rightarrow>
     (workflow_job list \<times> wfm_state) option" where
  "spawn_workflow_graph_jobs limit env i [] s = Some ([], s)"
| "spawn_workflow_graph_jobs limit env i ((w, d) # ws) s =
     (if wfm_late env i then Some (w # map fst ws, s\<lparr>wfm_schedules := wfm_schedules s + 1\<rparr>)
      else case workflow_round limit env d w (s\<lparr>node_objects := node_rows s\<rparr>) of
        None \<Rightarrow> None
      | Some (w', s') \<Rightarrow>
          (case spawn_workflow_graph_jobs limit env (Suc i) ws s' of
             None \<Rightarrow> None
           | Some (ws', s'') \<Rightarrow> Some (w' # ws', s'')))"

subsection \<open>Spawning a list of nodes\<close>

lemma spawn_node_objects:
  "node_objects (spawn_node env v s) u =
     (if u = v \<and> unified_job_template (node_objects s v) \<noteq> None
      then (node_objects s v)\<lparr>wn_job := Some (spawned_job (fst (start_checks env v (the (unified_job_template (node_objects s v))))))\<rparr>
      else node_objects s u)"
  by (auto simp: spawn_node_def Let_def split: option.splits prod.splits)

definition with_job :: "wfm_env \<Rightarrow> wf_store \<Rightarrow> int \<Rightarrow> wf_node" where
  "with_job env st v = (st v)\<lparr>wn_job := Some (spawned_job (fst (start_checks env v (the (unified_job_template (st v))))))\<rparr>"

lemma spawn_nodes_objects:
  "distinct vs \<Longrightarrow> (\<forall>v \<in> set vs. unified_job_template (node_objects s v) \<noteq> None) \<Longrightarrow>
     node_objects (fold (spawn_node env) vs s) u =
       (if u \<in> set vs then with_job env (node_objects s) u else node_objects s u)"
  by (induction vs arbitrary: s) (auto simp: spawn_node_objects with_job_def)

subsection \<open>A round that is not canceled\<close>

definition undecided_nodes :: "wf_dag \<Rightarrow> wf_store \<Rightarrow> int set" where
  "undecided_nodes d st = {v \<in> set (dag_objs d). undecided (st v)}"

lemma finite_undecided: "finite (undecided_nodes d st)"
  by (simp add: undecided_nodes_def)

lemma bfs_undecided:
  assumes "dag_wf d" and "v \<in> set (bfs_nodes_to_run d st)"
  shows "v \<in> undecided_nodes d st"
proof -
  obtain n where n: "n \<in> set (dag_nodes d)" "node_object n = v" "bfs_ready d st n"
    using assms(2) unfolding bfs_nodes_to_run_set [OF assms(1), of st, THEN conjunct1] by blast
  then show ?thesis using bfs_ready_undecided [OF n(3)]
    by (auto simp: undecided_nodes_def undecided_def dag_objs_def)
qed

lemma bfs_reached:
  assumes "dag_wf d" and "v \<in> set (bfs_nodes_to_run d st)"
  shows "reached d st v"
  using assms(2) unfolding bfs_nodes_to_run_set [OF assms(1), of st, THEN conjunct1] by blast

lemma spawn_bfs_objects:
  assumes "dag_wf d"
  defines "vs \<equiv> \<lambda>s. bfs_nodes_to_run d (node_objects s)"
  shows "node_objects (fold (spawn_node env) (vs s) s) u =
    (if u \<in> set (vs s) then with_job env (node_objects s) u else node_objects s u)"
proof (unfold vs_def, rule spawn_nodes_objects)
  show "distinct (bfs_nodes_to_run d (node_objects s))" using bfs_nodes_to_run_set [OF assms(1)] by blast
  show "\<forall>v \<in> set (bfs_nodes_to_run d (node_objects s)). unified_job_template (node_objects s v) \<noteq> None"
    using bfs_undecided [OF assms(1)] by (auto simp: undecided_nodes_def undecided_def)
qed

lemma marking_undecided:
  assumes "dag_wf d" and "acyclic (succ_rel d)" and "length (dag_nodes d) \<le> limit"
    and "mark_dnr_nodes limit d st = Some (ids, st')"
  shows "undecided_nodes d st' \<subseteq> undecided_nodes d st"
proof -
  have "st' v = (if v \<in> set ids then (st v)\<lparr>do_not_run := True\<rparr> else st v)" for v
    using marking_keeps_fields [OF assms] by blast
  then show ?thesis by (auto simp: undecided_nodes_def undecided_def split: if_splits)
qed

lemma taken_edge_job_none:
  "wn_job (st p) = None \<Longrightarrow> unified_job_template (st p) \<noteq> None \<Longrightarrow> \<not> taken_edge d st p v"
  by (simp add: taken_edge_def)

lemma reached_mono:
  assumes "\<And>p v. taken_edge d st p v \<Longrightarrow> taken_edge d st' p v" and "reached d st v"
  shows "reached d st' v"
proof -
  have "taken_rel d st \<subseteq> taken_rel d st'" using assms(1) by (auto simp: taken_rel_def)
  then show ?thesis using assms(2) rtrancl_mono unfolding reached_def by blast
qed

lemma spawn_keeps_reached:
  assumes wf: "dag_wf d" and jr: "jobs_reached d (node_objects s)"
  shows "jobs_reached d (node_objects (fold (spawn_node env) (bfs_nodes_to_run d (node_objects s)) s))"
proof -
  let ?st = "node_objects s" and ?vs = "bfs_nodes_to_run d (node_objects s)"
  let ?st' = "node_objects (fold (spawn_node env) ?vs s)"
  note objs = spawn_bfs_objects [OF wf, of env s]
  have un: "undecided (?st v)" if "v \<in> set ?vs" for v
    using bfs_undecided [OF wf that] by (simp add: undecided_nodes_def)
  have "taken_edge d ?st' p v" if t: "taken_edge d ?st p v" for p v
  proof -
    have "p \<notin> set ?vs" using t un taken_edge_job_none [of ?st p d v] by (auto simp: undecided_def)
    then have "?st' p = ?st p" by (simp add: objs)
    then show ?thesis using t taken_edge_cong [of ?st' p ?st d v] by simp
  qed
  then have mono: "reached d ?st v \<Longrightarrow> reached d ?st' v" for v by (rule reached_mono)
  show ?thesis
    unfolding jobs_reached_def
  proof (intro ballI impI)
    fix v assume v: "v \<in> set (dag_objs d)" "wn_job (?st' v) \<noteq> None"
    show "\<not> do_not_run (?st' v) \<and> reached d ?st' v"
    proof (cases "v \<in> set ?vs")
      case True
      then show ?thesis using mono [OF bfs_reached [OF wf True]] un [OF True]
        by (simp add: objs with_job_def undecided_def)
    next
      case False
      then show ?thesis using v jr mono by (auto simp: objs jobs_reached_def)
    qed
  qed
qed

lemma conclude_workflow_cases:
  assumes "mark_dnr_nodes limit d (node_objects s) = Some (ids, st')"
  shows "\<exists>changed w1 s1. conclude_workflow limit d w s = Some (changed, w1, s1) \<and> node_objects s1 = st' \<and>
    (if is_workflow_done d st' then wfjob_status w1 \<in> {Successful, Failed} else \<not> changed \<and> w1 = w)"
  using assms
  by (cases "is_workflow_done d st'"; cases "has_workflow_failed d st'")
    (auto simp: conclude_workflow_def Let_def)

lemma cancel_workflow_rows:
  "node_rows (snd (snd (cancel_workflow d w s))) v =
     (if v \<in> set (dag_objs d)
      then (mark_unstarted d (node_rows s) v)\<lparr>wn_job := wn_job (snd (cancel_node_jobs d (node_objects s)) v)\<rparr>
      else mark_unstarted d (node_rows s) v)"
  by (simp add: cancel_workflow_def Let_def split: prod.splits)

lemma spawning_keeps_covered:
  assumes "convergence_covered d st" and "\<And>u. st' u = (if u \<in> vs then with_job env st u else st u)"
  shows "convergence_covered d st'"
  using assms(1) unfolding convergence_covered_def
  by (auto simp: assms(2) with_job_def spawned_job_def)

text \<open>
  C36: Every round of a running workflow advances it or waits for a job. Take an acyclic graph in
  which only reached nodes carry a job (\<open>jobs_reached\<close>) and where every node that waits for all
  its parents, and each of those parents, has a template and no such parent's job is in error or
  canceled (\<open>convergence_covered\<close>). The round of a running workflow without cancel flag ends and
  both conditions hold again after it. It either gives the workflow its final status, and then every
  node is decided; or it keeps it running with strictly fewer undecided nodes; or it keeps it
  running, no node becomes undecided, and some spawned job was unfinished. So
  at most as many rounds as nodes find all spawned jobs finished.
\<close>

theorem workflow_round_advances:
  assumes wf: "dag_wf d" and acyc: "acyclic (succ_rel d)" and limit: "length (dag_nodes d) \<le> limit"
    and jr: "jobs_reached d (node_objects s)" and cov: "convergence_covered d (node_objects s)"
    and w: "\<not> wfjob_cancel_flag w" "wfjob_status w = Running"
  shows "\<exists>w' s'. workflow_round limit env d w s = Some (w', s') \<and> jobs_reached d (node_objects s') \<and>
    convergence_covered d (node_objects s') \<and>
    (wfjob_status w' \<in> {Successful, Failed} \<and> undecided_nodes d (node_objects s') = {} \<or>
     wfjob_status w' = Running \<and> undecided_nodes d (node_objects s') \<subseteq> undecided_nodes d (node_objects s) \<and>
       (card (undecided_nodes d (node_objects s')) < card (undecided_nodes d (node_objects s)) \<or>
        \<not> jobs_finished d (node_objects s)))"
proof -
  obtain ids st' where run: "mark_dnr_nodes limit d (node_objects s) = Some (ids, st')"
    using mark_dnr_nodes_final [OF wf acyc limit] by blast
  have kept: "convergence_covered d st'" "jobs_reached d st'" "jobs_finished d st' \<longleftrightarrow> jobs_finished d (node_objects s)"
    using marking_keeps_invariants [OF wf acyc limit run cov jr] by simp_all
  have closed: "marking_closed d st'" using marking_keeps_fields [OF wf acyc limit run] by blast
  obtain changed w1 s1 where round: "conclude_workflow limit d w s = Some (changed, w1, s1)"
    and st: "node_objects s1 = st'"
    and status: "if is_workflow_done d st' then wfjob_status w1 \<in> {Successful, Failed} else \<not> changed \<and> w1 = w"
    using conclude_workflow_cases [OF run, of w] by blast
  show ?thesis
  proof (cases "is_workflow_done d st'")
    case True
    have "undecided_nodes d st' = {}"
      using True by (fastforce simp: undecided_nodes_def undecided_def concluded_iff split: option.splits)
    moreover have "node_objects (after_status_change w1 s1) = st'"
      by (simp add: after_status_change_def Let_def st)
    ultimately show ?thesis using status True kept(1,2) w round st
      by (auto simp: workflow_round_def Let_def split: if_splits)
  next
    case False
    let ?vs = "bfs_nodes_to_run d st'" and ?s' = "fold (spawn_node env) (bfs_nodes_to_run d st') s1"
    have result: "workflow_round limit env d w s = Some (w, ?s')"
      using status False w round st by (simp add: workflow_round_def)
    have objs: "node_objects ?s' u = (if u \<in> set ?vs then with_job env st' u else st' u)" for u
      using spawn_bfs_objects [OF wf, of env s1 u] by (simp add: st)
    have left: "undecided_nodes d (node_objects ?s') \<subseteq> undecided_nodes d st' - set ?vs"
      by (auto simp: undecided_nodes_def undecided_def objs with_job_def split: if_splits)
    then have fewer: "undecided_nodes d (node_objects ?s') \<subseteq> undecided_nodes d (node_objects s)"
      using marking_undecided [OF wf acyc limit run] by blast
    have "card (undecided_nodes d (node_objects ?s')) < card (undecided_nodes d (node_objects s))"
      if "jobs_finished d (node_objects s)"
    proof -
      have "?vs \<noteq> []" by (rule nodes_to_run_exist [OF wf acyc closed kept(2) _ kept(1) False]) (simp add: kept(3) that)
      then have "hd ?vs \<in> undecided_nodes d st' \<inter> set ?vs" using bfs_undecided [OF wf] by simp
      then have "undecided_nodes d (node_objects ?s') \<subset> undecided_nodes d (node_objects s)"
        using left marking_undecided [OF wf acyc limit run] by blast
      then show ?thesis by (rule psubset_card_mono [OF finite_undecided])
    qed
    moreover have "jobs_reached d (node_objects ?s')"
      using spawn_keeps_reached [OF wf, of s1 env] kept(2) by (simp add: st)
    moreover have "convergence_covered d (node_objects ?s')"
      by (rule spawning_keeps_covered [OF kept(1)]) (simp add: objs)
    ultimately show ?thesis using result w(2) fewer by blast
  qed
qed

subsection \<open>A round that is canceled\<close>

definition pair_graph :: wf_dag where "pair_graph = the (init_graph [1, 2] [] [] [(1, 2)])"

definition pair_store :: wf_store where
  "pair_store = (\<lambda>v. node_with (if v = 1 then
     Some \<lparr>wfj_status = Pending, wfj_cancel_flag = False, wfj_celery_task = False\<rparr> else None) False)"

definition canceled_job :: workflow_job where
  "canceled_job = \<lparr>wfjob_id = 9, wfjob_cancel_flag = True, wfjob_status = Running, wfjob_explanation = [],
     wfjob_start_args = [], wfjob_spawned_by_workflow = False\<rparr>"

definition round_state :: "wf_store \<Rightarrow> wfm_state" where
  "round_state st = \<lparr>node_objects = st, node_rows = st, refused = [], wfm_schedules = 0, wfm_notified = []\<rparr>"

definition ready_env :: wfm_env where
  "ready_env = \<lparr>is_workflow_template = (\<lambda>_. False), ancestor_workflows = (\<lambda>_. []),
     template_display = (\<lambda>_. []), resources_sufficient = (\<lambda>_. True), signal_start = (\<lambda>_. True),
     wfm_late = (\<lambda>_. False)\<rparr>"

lemma pair_graph_eq:
  "pair_graph = \<lparr>dag_nodes = map (\<lambda>v. \<lparr>node_object = v, metadata = None\<rparr>) [1, 2],
     root_nodes = [0], node_obj_to_node_index = [(1, 0), (2, 1)],
     node_from_edges_by_label = [(''always_nodes'', [(0, [1])])],
     node_to_edges_by_label = [(''always_nodes'', [(1, [0])])]\<rparr>"
  by (simp add: pair_graph_def graph_eval)

text \<open>
  Canceling a workflow can start new jobs. In a workflow of two nodes, where the second always
  follows the first and the job of the first is still pending, the round that cancels the workflow
  cancels that job, leaves the workflow running, and then gives the second node a fresh
  pending job: the search reads objects that the cancel query did not mark, and the row it marked
  is overwritten.
\<close>

theorem canceled_round_spawns:
  "\<exists>s'. workflow_round limit ready_env pair_graph canceled_job (round_state pair_store) = Some (canceled_job, s') \<and>
     map_option wfj_status (wn_job (node_rows s' 1)) = Some Canceled \<and>
     map_option wfj_status (wn_job (node_rows s' 2)) = Some Pending \<and>
     \<not> do_not_run (node_rows s' 2)"
proof -
  let ?st = "pair_store(1 := (pair_store 1)\<lparr>wn_job :=
     Some \<lparr>wfj_status = Canceled, wfj_cancel_flag = True, wfj_celery_task = False\<rparr>\<rparr>)"
  have cancel: "cancel_node_jobs pair_graph pair_store = (False, ?st)"
    by (simp add: cancel_node_jobs_def pair_graph_eq pair_store_def node_with_def Let_def can_cancel_def
        cancel_job_def active_states_def)
  have search: "bfs_nodes_to_run pair_graph ?st = [2]"
    by (simp add: run_eval pair_graph_eq graph_walk pair_store_def)
  obtain s1 where c: "cancel_workflow pair_graph canceled_job (round_state pair_store) = (False, canceled_job, s1)"
    and o: "node_objects s1 = ?st"
    by (simp add: cancel_workflow_def round_state_def cancel Let_def)
  have one: "1 \<in> set (dag_objs pair_graph)" by (simp add: dag_objs_def pair_graph_eq)
  have unmarked: "mark_unstarted pair_graph pair_store 1 = pair_store 1"
    by (simp add: mark_unstarted_def pair_store_def node_with_def)
  have r: "node_rows s1 1 = (pair_store 1)\<lparr>wn_job := wn_job (?st 1)\<rparr>"
    using one unmarked cancel_workflow_rows [of pair_graph canceled_job "round_state pair_store" 1]
    by (simp add: c) (simp add: round_state_def cancel)
  have "workflow_round limit ready_env pair_graph canceled_job (round_state pair_store) =
      Some (canceled_job, spawn_node ready_env 2 s1)"
  proof -
    have "wfjob_cancel_flag canceled_job" "wfjob_status canceled_job = Running"
      by (simp_all add: canceled_job_def)
    then show ?thesis by (subst workflow_round_def) (simp add: c search o)
  qed
  moreover have "node_rows (spawn_node ready_env 2 s1) v =
      (if v = 2 then (pair_store 2)\<lparr>wn_job := Some (spawned_job True)\<rparr> else node_rows s1 v)" for v
    by (simp add: spawn_node_def o pair_store_def node_with_def start_checks_def ready_env_def Let_def)
  ultimately show ?thesis
    by (simp add: r spawned_job_def pair_store_def node_with_def)
qed

subsection \<open>Recursion\<close>

text \<open>
  C37: A workflow template that is among the ancestors of the workflow job is never started again
  from it: the spawned job is failed, with the chain in its explanation unless its resources are
  missing, too.
\<close>

theorem recursive_workflow_refused:
  assumes "unified_job_template (node_objects s v) = Some template"
    and "is_workflow_template env template" and "template \<in> set (ancestor_workflows env v)"
  shows "map_option wfj_status (wn_job (node_rows (spawn_node env v s) v)) = Some Failed \<and>
    (resources_sufficient env v \<longrightarrow>
       refused (spawn_node env v s) = refused s @
         [(v, recursion_explanation env template (ancestor_workflows env v))])"
  using assms by (simp add: spawn_node_def start_checks_def spawned_job_def Let_def)

subsection \<open>Witnesses\<close>

definition running_job :: workflow_job where
  "running_job = canceled_job\<lparr>wfjob_cancel_flag := False\<rparr>"

theorem workflow_round_advances_witness:
  "\<exists>w' s'. workflow_round 4 ready_env fork_graph running_job (round_state fork_store) = Some (w', s') \<and>
    jobs_reached fork_graph (node_objects s') \<and> convergence_covered fork_graph (node_objects s') \<and>
    (wfjob_status w' \<in> {Successful, Failed} \<and> undecided_nodes fork_graph (node_objects s') = {} \<or>
     wfjob_status w' = Running \<and> undecided_nodes fork_graph (node_objects s') \<subseteq> undecided_nodes fork_graph fork_store \<and>
       card (undecided_nodes fork_graph (node_objects s')) < card (undecided_nodes fork_graph fork_store))"
  using workflow_round_advances [OF fork_facts(1) concrete_acyclic(1), of 4 "round_state fork_store" running_job ready_env]
    fork_store_rounds
  by (simp add: concrete_length round_state_def running_job_def canceled_job_def)

theorem recursive_workflow_refused_witness:
  "map_option wfj_status (wn_job (node_rows (spawn_node
     (ready_env\<lparr>is_workflow_template := (\<lambda>_. True), ancestor_workflows := (\<lambda>_. [7])\<rparr>) 2 (round_state fork_store)) 2))
   = Some Failed"
  using recursive_workflow_refused [of "round_state fork_store" 2 7
      "ready_env\<lparr>is_workflow_template := (\<lambda>_. True), ancestor_workflows := (\<lambda>_. [7])\<rparr>"]
  by (simp add: round_state_def fork_store_def node_with_def)

end
