(* ===== verification/WorkerPool.thy ===== *)
theory WorkerPool
  imports Prelude "HOL-Library.Multiset"
begin

section \<open>The dispatcher's worker pool of \<^verbatim>\<open>forail/main/dispatch/pool.py\<close>\<close>

text \<open>
  A pool hands messages to worker processes through bounded queues and keeps, per worker, the
  messages that are assigned and not yet reported as finished. A worker process itself is outside:
  it takes messages from its queue, puts identifiers into its finished queue, and may die; the
  statements below hold for any contents of these queues. Random choices are functions of the
  pool in an environment.
\<close>

subsection \<open>Messages and workers\<close>

text \<open>
  A message is a dictionary with an optional \<open>uuid\<close>, a task name and error callbacks (messages
  themselves), or the control string \<open>'QUIT'\<close>.
\<close>

datatype message =
  Quit
| Msg (m_uuid: "string option") (m_task: string) (errbacks: "message list")

text \<open>An entry of \<open>managed_tasks\<close>: the message and its \<open>started\<close> stamp.\<close>

record managed =
  mt_body :: message
  mt_started :: "int option"
  mt_age :: "int option"

record worker =
  worker_pid :: int
  queue :: "message list"
  finished :: "string list"
  managed_tasks :: "(string, managed) pydict"
  messages_sent :: nat
  messages_finished :: nat
  alive :: bool

definition new_worker :: "int \<Rightarrow> worker" where
  "new_worker p = \<lparr>worker_pid = p, queue = [], finished = [], managed_tasks = [], messages_sent = 0,
     messages_finished = 0, alive = True\<rparr>"

definition finish_one :: "string \<Rightarrow> worker \<Rightarrow> worker" where
  "finish_one u w =
     (if u \<in> set (dict_keys (managed_tasks w))
      then w\<lparr>managed_tasks := AList.delete u (managed_tasks w), messages_finished := messages_finished w + 1\<rparr>
      else w)"

definition calculate_managed_tasks :: "worker \<Rightarrow> worker" where
  "calculate_managed_tasks w = fold finish_one (finished w) (w\<lparr>finished := []\<rparr>)"

text \<open>
  \<open>put\<close> with the identifier \<open>u\<close> that \<open>uuid4\<close> would give, which is written into the message itself when it
  has none (\<open>stamped\<close>). The first component is true when the queue stays full for the whole
  timeout, so that \<open>QueueFull\<close> is raised.
\<close>

definition key_of :: "string \<Rightarrow> message \<Rightarrow> string" where
  "key_of u m = (case m of Quit \<Rightarrow> ''?''
     | Msg i t e \<Rightarrow> (case i of Some x \<Rightarrow> if x = [] then u else x | None \<Rightarrow> u))"

definition stamped :: "string \<Rightarrow> message \<Rightarrow> message" where
  "stamped u m = (case m of Quit \<Rightarrow> Quit | Msg i t e \<Rightarrow> Msg (Some (key_of u m)) t e)"

definition put_message :: "nat \<Rightarrow> string \<Rightarrow> message \<Rightarrow> worker \<Rightarrow> bool \<times> worker" where
  "put_message queue_size u body w =
     (let key = key_of u body; body1 = stamped u body;
          w1 = w\<lparr>managed_tasks := dict_set key \<lparr>mt_body = body1, mt_started = None, mt_age = None\<rparr> (managed_tasks w)\<rparr>
      in if length (queue w1) \<ge> queue_size then (True, w1)
         else (False, calculate_managed_tasks
                 (w1\<lparr>queue := queue w1 @ [body1], messages_sent := messages_sent w1 + 1\<rparr>)))"

definition quit_worker :: "worker \<Rightarrow> worker" where
  "quit_worker w = w\<lparr>queue := queue w @ [Quit]\<rparr>"

definition current_task :: "worker \<Rightarrow> managed option" where
  "current_task w = (case managed_tasks (calculate_managed_tasks w) of [] \<Rightarrow> None | (k, t) # _ \<Rightarrow> Some t)"

definition busy :: "worker \<Rightarrow> bool" where
  "busy w \<longleftrightarrow> managed_tasks (calculate_managed_tasks w) \<noteq> []"

definition idle :: "worker \<Rightarrow> bool" where
  "idle w \<longleftrightarrow> \<not> busy w"

definition orphaned_tasks :: "worker \<Rightarrow> message list" where
  "orphaned_tasks w =
     (if alive w then []
      else (case current_task w of
              Some t \<Rightarrow> (case mt_body t of Msg _ _ e \<Rightarrow> e | Quit \<Rightarrow> [])
            | None \<Rightarrow> []) @ filter (\<lambda>m. m \<noteq> Quit) (queue w))"

subsection \<open>The pool\<close>

record pool =
  workers :: "worker list"
  min_workers :: nat
  max_workers :: nat
  queue_size :: nat
  scale_up_ct :: nat
  worker_count_max :: nat
  next_pid :: int

text \<open>
  \<open>random.choice\<close> of an index, \<open>random.shuffle\<close> of the indices, fresh identifiers, and the clock.
\<close>

record pool_env =
  random_choice :: "pool \<Rightarrow> nat"
  random_shuffle :: "pool \<Rightarrow> nat list"
  uuid4 :: "pool \<Rightarrow> message \<Rightarrow> string"
  clock :: int

definition base_up :: "pool \<Rightarrow> pool" where
  "base_up p = p\<lparr>workers := workers p @ [new_worker (next_pid p)], next_pid := next_pid p + 1\<rparr>"

definition init_workers :: "pool \<Rightarrow> pool" where
  "init_workers p = fold (\<lambda>_. base_up) [0 ..< min_workers p] p"

definition put_at :: "pool_env \<Rightarrow> nat \<Rightarrow> message \<Rightarrow> pool \<Rightarrow> bool \<times> pool" where
  "put_at env i body p =
     (let (failed, w) = put_message (queue_size p) (uuid4 env p body) body (workers p ! i)
      in (failed, p\<lparr>workers := (workers p)[i := w]\<rparr>))"

text \<open>
  The order of \<open>WorkerPool.write\<close>: the preferred queue first, then by index. \<open>put\<close> stamps the
  dictionary it is given, so a message that a full queue refused keeps its identifier at the next one.
\<close>

definition queue_order :: "nat \<Rightarrow> nat \<Rightarrow> nat list" where
  "queue_order preferred n = sort_key (\<lambda>x. if x = preferred then -1 else int x) [0 ..< n]"

fun write_loop :: "pool_env \<Rightarrow> nat list \<Rightarrow> message \<Rightarrow> pool \<Rightarrow> nat option \<times> pool" where
  "write_loop env [] body p = (None, p)"
| "write_loop env (i # idxs) body p =
     (let (failed, p1) = put_at env i body p in
      if failed then write_loop env idxs (stamped (uuid4 env p body) body) p1 else (Some i, p1))"

definition base_write :: "pool_env \<Rightarrow> nat \<Rightarrow> message \<Rightarrow> pool \<Rightarrow> nat option \<times> pool" where
  "base_write env preferred body p = write_loop env (queue_order preferred (length (workers p))) body p"

subsection \<open>Scaling\<close>

text \<open>
  The constructor of \<open>AutoscalePool\<close>; \<open>mem_capacity\<close> is the effective capacity of the memory, used when no
  maximum is given.
\<close>

definition new_autoscale_pool :: "nat \<Rightarrow> nat option \<Rightarrow> nat \<Rightarrow> nat \<Rightarrow> pool" where
  "new_autoscale_pool minw maxw mem_capacity qsize =
     \<lparr>workers = [], min_workers = minw,
      max_workers = max minw (case maxw of None \<Rightarrow> mem_capacity + 7 | Some m \<Rightarrow> m),
      queue_size = qsize, scale_up_ct = 0, worker_count_max = 0, next_pid = 1\<rparr>"

definition should_grow :: "pool \<Rightarrow> bool" where
  "should_grow p \<longleftrightarrow> (if length (workers p) < min_workers p then True else list_all busy (workers p))"

definition full :: "pool \<Rightarrow> bool" where
  "full p \<longleftrightarrow> length (workers p) = max_workers p"

definition up :: "pool \<Rightarrow> pool" where
  "up p =
     (if full p then p
      else (let p1 = base_up (p\<lparr>scale_up_ct := scale_up_ct p + 1\<rparr>);
                new_worker_ct = length (workers p1)
            in if new_worker_ct > worker_count_max p1 then p1\<lparr>worker_count_max := new_worker_ct\<rparr> else p1))"

text \<open>
  The walk over the shuffled workers, for one that is not busy: what is not busy takes the message
  (a \<open>QueueFull\<close> there ends the write with a logged exception).
\<close>

definition first_idle :: "nat list \<Rightarrow> pool \<Rightarrow> nat option" where
  "first_idle order p = find (\<lambda>i. \<not> busy (workers p ! i)) order"

definition autoscale_write :: "pool_env \<Rightarrow> nat \<Rightarrow> message \<Rightarrow> pool \<Rightarrow> pool" where
  "autoscale_write env preferred body p =
     (let p1 = (if should_grow p then up p else p) in
      case first_idle (random_shuffle env p1) p1 of
        Some i \<Rightarrow> snd (put_at env i body p1)
      | None \<Rightarrow> snd (base_write env preferred body p1))"

subsection \<open>Cleanup\<close>

definition ends_with :: "string \<Rightarrow> string \<Rightarrow> bool" where
  "ends_with s e \<longleftrightarrow> length e \<le> length s \<and> drop (length s - length e) s = e"

definition is_manager_task :: "string \<Rightarrow> bool" where
  "is_manager_task t \<longleftrightarrow> ends_with t ''tasks.task_manager'' \<or> ends_with t ''tasks.dependency_manager'' \<or>
     ends_with t ''tasks.workflow_manager''"

text \<open>
  The stamp of a manager task that a living worker runs, and whether it has run too long.
\<close>

definition stamp_manager :: "int \<Rightarrow> int \<Rightarrow> worker \<Rightarrow> worker \<times> bool" where
  "stamp_manager now timeout w =
     (case managed_tasks (calculate_managed_tasks w) of
        (k, t) # rest \<Rightarrow>
          (case mt_body t of
             Msg _ name _ \<Rightarrow>
               if is_manager_task name then
                 (let started = (case mt_started t of None \<Rightarrow> now | Some s \<Rightarrow> s);
                      age = now - started;
                      t' = t\<lparr>mt_started := Some started, mt_age := Some age\<rparr>
                  in ((calculate_managed_tasks w)\<lparr>managed_tasks := (k, t') # rest\<rparr>, age > timeout))
               else (calculate_managed_tasks w, False)
           | Quit \<Rightarrow> (calculate_managed_tasks w, False))
      | [] \<Rightarrow> (calculate_managed_tasks w, False))"

text \<open>
  The loop over the workers. It has the workers kept so far, those not yet seen, the orphaned
  messages, the identifiers of the jobs to reap, and the processes that get \<open>SIGUSR1\<close>. The pool's
  length at each turn is that of the kept and unseen workers together.
\<close>

fun cleanup_loop ::
  "int \<Rightarrow> int \<Rightarrow> nat \<Rightarrow> worker list \<Rightarrow> worker list \<Rightarrow> message list \<Rightarrow> string list \<Rightarrow> int list \<Rightarrow>
     worker list \<times> message list \<times> string list \<times> int list" where
  "cleanup_loop now timeout minw kept [] orphaned reaped signaled = (kept, orphaned, reaped, signaled)"
| "cleanup_loop now timeout minw kept (w # ws) orphaned reaped signaled =
     (if \<not> alive w then
        cleanup_loop now timeout minw kept ws (orphaned @ orphaned_tasks w)
          (case current_task w of
             Some t \<Rightarrow> (case mt_body t of Msg (Some u) _ _ \<Rightarrow> reaped @ [u] | _ \<Rightarrow> reaped)
           | None \<Rightarrow> reaped) signaled
      else if idle w \<and> length kept + length (w # ws) > minw then
        cleanup_loop now timeout minw kept ws orphaned reaped signaled
      else
        (let (w', overdue) = stamp_manager now timeout w in
         cleanup_loop now timeout minw (kept @ [w']) ws orphaned reaped
           (if overdue then signaled @ [worker_pid w] else signaled)))"

definition redeliver :: "pool_env \<Rightarrow> message \<Rightarrow> pool \<Rightarrow> pool" where
  "redeliver env m p =
     (let p1 = (if workers p = [] then up p else p) in autoscale_write env (random_choice env p1) m p1)"

definition cleanup :: "pool_env \<Rightarrow> int \<Rightarrow> pool \<Rightarrow> pool \<times> string list \<times> int list" where
  "cleanup env timeout p =
     (let (kept, orphaned, reaped, signaled) =
            cleanup_loop (clock env) timeout (min_workers p) [] (workers p) [] [] []
      in (fold (redeliver env) orphaned (p\<lparr>workers := kept\<rparr>), reaped, signaled))"

subsection \<open>Bookkeeping of one worker\<close>

lemma finish_one_fields [simp]:
  "queue (finish_one u w) = queue w" "alive (finish_one u w) = alive w"
  "worker_pid (finish_one u w) = worker_pid w" "messages_sent (finish_one u w) = messages_sent w"
  by (simp_all add: finish_one_def)

lemma fold_finish_fields [simp]:
  "queue (fold finish_one us w) = queue w" "alive (fold finish_one us w) = alive w"
  "worker_pid (fold finish_one us w) = worker_pid w"
  by (induction us arbitrary: w) simp_all

lemma calculate_fields [simp]:
  "queue (calculate_managed_tasks w) = queue w" "alive (calculate_managed_tasks w) = alive w"
  "worker_pid (calculate_managed_tasks w) = worker_pid w"
  by (simp_all add: calculate_managed_tasks_def)

lemma keys_delete: "fst ` set (AList.delete k m) = fst ` set m - {k}"
  by (induction m) auto

lemma keys_set: "fst ` set (dict_set k v m) = insert k (fst ` set m)"
  using dict_keys_update [of k v m] by simp

lemma keys_fold_finish:
  "fst ` set (managed_tasks (fold finish_one us w)) = fst ` set (managed_tasks w) - set us"
proof (induction us arbitrary: w)
  case Nil
  then show ?case by simp
next
  case (Cons u us)
  have "fst ` set (managed_tasks (finish_one u w)) = fst ` set (managed_tasks w) - {u}"
    by (simp add: finish_one_def keys_delete)
  then show ?case using Cons [of "finish_one u w"] by auto
qed

lemma keys_calculate:
  "fst ` set (managed_tasks (calculate_managed_tasks w)) = fst ` set (managed_tasks w) - set (finished w)"
  by (simp add: calculate_managed_tasks_def keys_fold_finish)

lemma busy_iff: "busy w \<longleftrightarrow> \<not> fst ` set (managed_tasks w) \<subseteq> set (finished w)"
proof -
  have "busy w \<longleftrightarrow> fst ` set (managed_tasks (calculate_managed_tasks w)) \<noteq> {}"
    by (simp add: busy_def)
  then show ?thesis unfolding keys_calculate by blast
qed

lemma put_message_cases:
  "put_message n u m w =
     (let w1 = w\<lparr>managed_tasks := dict_set (key_of u m)
            \<lparr>mt_body = stamped u m, mt_started = None, mt_age = None\<rparr> (managed_tasks w)\<rparr> in
      if length (queue w) \<ge> n then (True, w1)
      else (False, calculate_managed_tasks
              (w1\<lparr>queue := queue w @ [stamped u m], messages_sent := messages_sent w + 1\<rparr>)))"
  by (simp add: put_message_def Let_def)

text \<open>
  A full queue leaves its worker busy with a message it never got. When \<open>put\<close> raises
  \<open>QueueFull\<close>, the queue is unchanged, but the message is already among the managed tasks, and
  the worker stays busy until it reports that very identifier, although the message goes to
  another worker.
\<close>

theorem full_queue_leaves_phantom_task:
  assumes "length (queue w) \<ge> n"
  shows "\<exists>w'. put_message n u m w = (True, w') \<and> queue w' = queue w \<and>
    key_of u m \<in> set (dict_keys (managed_tasks w')) \<and>
    (\<forall>done_ids. key_of u m \<notin> set done_ids \<longrightarrow> busy (w'\<lparr>finished := done_ids\<rparr>))"
  using assms by (auto simp: put_message_cases Let_def busy_iff keys_set)

subsection \<open>The messages a pool carries\<close>

text \<open>What a message asks for, without its identifier.\<close>

definition content :: "message \<Rightarrow> string \<times> message list" where
  "content m = (m_task m, errbacks m)"

definition pending :: "worker \<Rightarrow> (string \<times> message list) list" where
  "pending w = map content (filter (\<lambda>m. m \<noteq> Quit) (queue w))"

definition carried :: "pool \<Rightarrow> (string \<times> message list) multiset" where
  "carried p = mset (concat (map pending (workers p)))"

text \<open>Every queue has room for \<open>k\<close> more messages, and there may be a worker at all.\<close>

definition room_for :: "nat \<Rightarrow> pool \<Rightarrow> bool" where
  "room_for k p \<longleftrightarrow> max_workers p > 0 \<and> (\<forall>w \<in> set (workers p). length (queue w) + k \<le> queue_size p) \<and>
     k \<le> queue_size p"

definition fair_env :: "pool_env \<Rightarrow> bool" where
  "fair_env env \<longleftrightarrow> (\<forall>p. set (random_shuffle env p) \<subseteq> {..< length (workers p)})"

text \<open>
  The contract of a carrier of messages: with room for one more, a delivery adds exactly that
  message, and uses up room for one.
\<close>

locale carrier =
  fixes deliver :: "'m \<Rightarrow> 's \<Rightarrow> 's"
    and load :: "'s \<Rightarrow> 'c multiset"
    and cargo :: "'m \<Rightarrow> 'c"
    and space :: "nat \<Rightarrow> 's \<Rightarrow> bool"
    and good :: "'m \<Rightarrow> bool"
  assumes deliver_load: "good m \<Longrightarrow> space (Suc k) s \<Longrightarrow> load (deliver m s) = add_mset (cargo m) (load s)"
    and deliver_space: "good m \<Longrightarrow> space (Suc k) s \<Longrightarrow> space k (deliver m s)"
begin

lemma deliver_all:
  "(\<forall>m \<in> set ms. good m) \<Longrightarrow> space (length ms) s \<Longrightarrow> load (fold deliver ms s) = load s + mset (map cargo ms)"
proof (induction ms arbitrary: s)
  case Nil
  then show ?case by simp
next
  case (Cons m ms)
  then show ?case using deliver_load [of m "length ms" s] deliver_space [of m "length ms" s] by simp
qed

end

lemma carried_split:
  "mset (concat (map pending (ws @ w # vs))) = mset (pending w) + mset (concat (map pending (ws @ vs)))"
  by simp

lemma carried_update:
  assumes "i < length (workers p)" and "pending w' = pending (workers p ! i) @ cs"
  shows "carried (p\<lparr>workers := (workers p)[i := w']\<rparr>) = carried p + mset cs"
proof -
  let ?a = "take i (workers p)" and ?b = "drop (Suc i) (workers p)"
  have "carried p = mset (concat (map pending (?a @ workers p ! i # ?b)))"
    using assms(1) by (simp only: carried_def id_take_nth_drop [symmetric])
  moreover have "carried (p\<lparr>workers := (workers p)[i := w']\<rparr>) = mset (concat (map pending (?a @ w' # ?b)))"
    using assms(1) by (simp add: carried_def upd_conv_take_nth_drop)
  ultimately show ?thesis unfolding carried_split assms(2) by simp
qed

lemma pool_update_fields [simp]:
  "max_workers (p\<lparr>workers := ws\<rparr>) = max_workers p" by simp

lemma put_at_room:
  assumes "i < length (workers p)" and "length (queue (workers p ! i)) < queue_size p" and "m \<noteq> Quit"
  shows "\<exists>w'. put_at env i m p = (False, p\<lparr>workers := (workers p)[i := w']\<rparr>) \<and>
    queue w' = queue (workers p ! i) @ [stamped (uuid4 env p m) m] \<and> alive w' = alive (workers p ! i)"
  using assms by (auto simp: put_at_def put_message_cases Let_def)

lemma content_stamped: "m \<noteq> Quit \<Longrightarrow> content (stamped u m) = content m \<and> stamped u m \<noteq> Quit"
  by (cases m) (simp_all add: stamped_def content_def)

lemma put_at_load:
  assumes "i < length (workers p)" and "room_for (Suc k) p" and "m \<noteq> Quit"
  shows "\<not> fst (put_at env i m p) \<and> carried (snd (put_at env i m p)) = add_mset (content m) (carried p) \<and>
    room_for k (snd (put_at env i m p)) \<and> length (workers (snd (put_at env i m p))) = length (workers p)"
proof -
  have here: "length (queue (workers p ! i)) + Suc k \<le> queue_size p"
    using assms(2) nth_mem [OF assms(1)] unfolding room_for_def by blast
  then have "length (queue (workers p ! i)) < queue_size p" by simp
  then obtain w' where w': "put_at env i m p = (False, p\<lparr>workers := (workers p)[i := w']\<rparr>)"
    "queue w' = queue (workers p ! i) @ [stamped (uuid4 env p m) m]"
    using put_at_room [OF assms(1) _ assms(3), of env] by blast
  have "pending w' = pending (workers p ! i) @ [content m]"
    using content_stamped [OF assms(3)] by (simp add: pending_def w'(2))
  from carried_update [OF assms(1) this] have "carried (p\<lparr>workers := (workers p)[i := w']\<rparr>) = add_mset (content m) (carried p)"
    by simp
  moreover have "room_for k (p\<lparr>workers := (workers p)[i := w']\<rparr>)"
  proof -
    have "length (queue w) + k \<le> queue_size p" if "w \<in> set ((workers p)[i := w'])" for w
    proof -
      from that have "w = w' \<or> w \<in> set (workers p)" using set_update_subset_insert by fastforce
      moreover have "length (queue w) + Suc k \<le> queue_size p" if "w \<in> set (workers p)"
        using assms(2) that unfolding room_for_def by blast
      ultimately show ?thesis using here w'(2) by fastforce
    qed
    then show ?thesis using assms(2) by (simp add: room_for_def)
  qed
  ultimately show ?thesis by (simp add: w'(1))
qed

lemma up_load:
  assumes "room_for k p"
  shows "carried (up p) = carried p \<and> room_for k (up p)"
proof -
  have "carried (base_up q) = carried q" for q
    by (simp add: base_up_def carried_def new_worker_def pending_def)
  moreover have "room_for k q \<Longrightarrow> room_for k (base_up q)" for q
    by (auto simp: base_up_def room_for_def new_worker_def)
  moreover have "carried (q\<lparr>worker_count_max := n\<rparr>) = carried q" "carried (q\<lparr>scale_up_ct := n\<rparr>) = carried q"
    "room_for k (q\<lparr>worker_count_max := n\<rparr>) = room_for k q" "room_for k (q\<lparr>scale_up_ct := n\<rparr>) = room_for k q" for q n
    by (simp_all add: carried_def room_for_def)
  ultimately show ?thesis using assms by (simp add: up_def Let_def)
qed

lemma grown_nonempty:
  assumes "max_workers p > 0"
  shows "workers (if should_grow p then up p else p) \<noteq> []"
  using assms by (cases "workers p") (auto simp: should_grow_def up_def full_def base_up_def Let_def)

lemma queue_order_head:
  assumes "n > 0"
  obtains i is_rest where "queue_order preferred n = i # is_rest" and "i < n"
proof -
  have all: "set (queue_order preferred n) = {..< n}"
    by (simp add: queue_order_def atLeast0LessThan)
  have ne: "queue_order preferred n \<noteq> []"
  proof
    assume "queue_order preferred n = []"
    then have "{..< n} = {}" unfolding all [symmetric] by simp
    moreover have "0 \<in> {..< n}" using assms by simp
    ultimately show False by blast
  qed
  then have "queue_order preferred n = hd (queue_order preferred n) # tl (queue_order preferred n)"
    by (rule list.collapse [symmetric])
  moreover have "hd (queue_order preferred n) < n" using hd_in_set [OF ne] unfolding all by simp
  ultimately show thesis by (rule that)
qed

lemma write_loop_first:
  "\<not> fst (put_at env i m p) \<Longrightarrow> write_loop env (i # rest) m p = (Some i, snd (put_at env i m p))"
  by (cases "put_at env i m p") simp

lemma autoscale_write_load:
  assumes env: "fair_env env" and m: "m \<noteq> Quit" and room: "room_for (Suc k) p"
  shows "carried (autoscale_write env preferred m p) = add_mset (content m) (carried p) \<and>
    room_for k (autoscale_write env preferred m p)"
proof -
  let ?p = "if should_grow p then up p else p"
  have p: "carried ?p = carried p" "room_for (Suc k) ?p" using up_load [OF room] room by simp_all
  have ne: "workers ?p \<noteq> []" by (rule grown_nonempty) (use room in \<open>simp add: room_for_def\<close>)
  obtain i where i: "i < length (workers ?p)"
    and w: "autoscale_write env preferred m p = snd (put_at env i m ?p)"
  proof (cases "first_idle (random_shuffle env ?p) ?p")
    case (Some i)
    then have "i \<in> set (random_shuffle env ?p)" using find_SomeD by (fastforce simp: first_idle_def)
    then have "i < length (workers ?p)" using env unfolding fair_env_def by blast
    moreover have "autoscale_write env preferred m p = snd (put_at env i m ?p)"
      using Some by (simp add: autoscale_write_def)
    ultimately show thesis by (rule that)
  next
    case None
    obtain i rest where order: "queue_order preferred (length (workers ?p)) = i # rest" "i < length (workers ?p)"
      using queue_order_head [of "length (workers ?p)"] ne by auto
    moreover have "\<not> fst (put_at env i m ?p)" using put_at_load [OF order(2) p(2) m] by blast
    then have "base_write env preferred m ?p = (Some i, snd (put_at env i m ?p))"
      unfolding base_write_def order(1) by (rule write_loop_first)
    then have "autoscale_write env preferred m p = snd (put_at env i m ?p)"
      using None by (simp add: autoscale_write_def)
    with order(2) show thesis by (rule that)
  qed
  show ?thesis using put_at_load [OF i p(2) m] by (simp add: w p(1))
qed

lemma redeliver_load:
  assumes "fair_env env" and "m \<noteq> Quit" and "room_for (Suc k) p"
  shows "carried (redeliver env m p) = add_mset (content m) (carried p) \<and> room_for k (redeliver env m p)"
proof -
  let ?p = "if workers p = [] then up p else p"
  have "carried ?p = carried p" "room_for (Suc k) ?p" using up_load [OF assms(3)] assms(3) by simp_all
  then show ?thesis
    using autoscale_write_load [OF assms(1,2), of k ?p "random_choice env ?p"]
    unfolding redeliver_def Let_def by simp
qed

definition fair_choice :: "pool_env \<Rightarrow> message \<Rightarrow> pool \<Rightarrow> pool" where
  "fair_choice env = (if fair_env env then redeliver env else
     (\<lambda>m p. redeliver (env\<lparr>random_shuffle := \<lambda>p. [0 ..< length (workers p)]\<rparr>) m p))"

interpretation redelivery: carrier "fair_choice env" carried content room_for "\<lambda>m. m \<noteq> Quit" for env
proof unfold_locales
  fix m :: message and k s
  assume "m \<noteq> Quit" "room_for (Suc k) s"
  moreover have "fair_env (env\<lparr>random_shuffle := \<lambda>p. [0 ..< length (workers p)]\<rparr>)"
    by (auto simp: fair_env_def)
  ultimately show "carried (fair_choice env m s) = add_mset (content m) (carried s)"
    and "room_for k (fair_choice env m s)"
    using redeliver_load [of _ m k s] by (simp_all add: fair_choice_def)
qed

lemma redeliver_all:
  assumes "fair_env env" and "Quit \<notin> set ms" and "room_for (length ms) p"
  shows "carried (fold (redeliver env) ms p) = carried p + mset (map content ms)"
proof -
  have "fair_choice env = redeliver env" using assms(1) by (simp add: fair_choice_def)
  then show ?thesis using redelivery.deliver_all [of ms p env] assms(2,3) by auto
qed

subsection \<open>What a cleanup does\<close>

definition dead :: "worker list \<Rightarrow> worker list" where "dead ws = filter (\<lambda>w. \<not> alive w) ws"

text \<open>The error callbacks of what a dead worker was running.\<close>

definition lost_callbacks :: "worker \<Rightarrow> message list" where
  "lost_callbacks w = (case current_task w of
     Some t \<Rightarrow> (case mt_body t of Msg _ _ e \<Rightarrow> e | Quit \<Rightarrow> []) | None \<Rightarrow> [])"

lemma orphaned_dead:
  "\<not> alive w \<Longrightarrow> orphaned_tasks w = lost_callbacks w @ filter (\<lambda>m. m \<noteq> Quit) (queue w)"
  by (simp add: orphaned_tasks_def lost_callbacks_def)

lemma stamp_fields: "queue (fst (stamp_manager now t w)) = queue w \<and> alive (fst (stamp_manager now t w)) = alive w"
  by (auto simp: stamp_manager_def Let_def split: list.splits message.splits)

text \<open>A worker with no managed task has only control messages queued.\<close>

definition tracked :: "worker \<Rightarrow> bool" where
  "tracked w \<longleftrightarrow> (idle w \<longrightarrow> pending w = [])"

lemma cleanup_loop_load:
  "cleanup_loop now t minw kept ws orphaned reaped signaled = (kept', orphaned', reaped', signaled') \<Longrightarrow>
   \<forall>w \<in> set ws. tracked w \<Longrightarrow>
     mset (concat (map pending kept')) + mset (map content orphaned') =
       mset (concat (map pending (kept @ ws))) + mset (map content orphaned) +
       mset (map content (concat (map lost_callbacks (dead ws))))"
proof (induction now t minw kept ws orphaned reaped signaled rule: cleanup_loop.induct)
  case (1 now timeout minw kept orphaned reaped signaled)
  then show ?case by (simp add: dead_def)
next
  case (2 now timeout minw kept w ws orphaned reaped signaled)
  show ?case
  proof (cases "alive w")
    case False
    then show ?thesis using "2.IH"(1) [OF False] "2.prems"
      by (simp add: dead_def orphaned_dead pending_def)
  next
    case alive: True
    show ?thesis
    proof (cases "idle w \<and> length kept + length (w # ws) > minw")
      case True
      then have "pending w = []" using "2.prems"(2) by (simp add: tracked_def)
      then show ?thesis using "2.IH"(2) "2.prems" alive True by (simp add: dead_def)
    next
      case False
      obtain w' late where w': "stamp_manager now timeout w = (w', late)" by force
      then have "pending w' = pending w" using stamp_fields [of now timeout w] by (simp add: pending_def)
      then show ?thesis using "2.IH"(3) [OF _ False w' [symmetric]] "2.prems" alive False w'
        by (auto simp: dead_def)
    qed
  qed
qed

lemma cleanup_loop_members:
  "cleanup_loop now t minw kept ws orphaned reaped signaled = (kept', orphaned', reaped', signaled') \<Longrightarrow>
     length kept' \<le> length kept + length ws \<and>
     ((\<forall>w \<in> set ws. alive w) \<longrightarrow> min minw (length kept + length ws) \<le> length kept') \<and>
     (\<forall>w \<in> set kept'. w \<in> set kept \<or> alive w \<and> (\<exists>v \<in> set ws. queue w = queue v)) \<and>
     set orphaned' \<subseteq> set orphaned \<union> set (concat (map lost_callbacks ws)) \<union> - {Quit}"
proof (induction now t minw kept ws orphaned reaped signaled rule: cleanup_loop.induct)
  case (1 now timeout minw kept orphaned reaped signaled)
  then show ?case by auto
next
  case (2 now timeout minw kept w ws orphaned reaped signaled)
  show ?case
  proof (cases "alive w")
    case False
    have "set (orphaned_tasks w) \<subseteq> set (lost_callbacks w) \<union> - {Quit}"
      using False by (auto simp: orphaned_dead)
    then show ?thesis using "2.IH"(1) [OF False] "2.prems" False by auto
  next
    case alive: True
    show ?thesis
    proof (cases "idle w \<and> length kept + length (w # ws) > minw")
      case True
      then show ?thesis using "2.IH"(2) "2.prems" alive by auto
    next
      case False
      obtain w' late where w': "stamp_manager now timeout w = (w', late)" by force
      then have "queue w' = queue w" "alive w'" using stamp_fields [of now timeout w] alive by simp_all
      then show ?thesis using "2.IH"(3) [OF _ False w' [symmetric]] "2.prems" alive False w' by fastforce
    qed
  qed
qed

lemma up_length:
  "length (workers p) \<le> max_workers p \<Longrightarrow> length (workers (up p)) \<le> max_workers (up p) \<and>
     length (workers p) \<le> length (workers (up p)) \<and>
     max_workers (up p) = max_workers p \<and> min_workers (up p) = min_workers p"
  by (auto simp: up_def full_def base_up_def Let_def)

lemma put_at_length:
  "length (workers (snd (put_at env i m p))) = length (workers p) \<and>
   max_workers (snd (put_at env i m p)) = max_workers p \<and> min_workers (snd (put_at env i m p)) = min_workers p"
  by (simp add: put_at_def split: prod.splits)

lemma write_loop_length:
  "length (workers (snd (write_loop env idxs m p))) = length (workers p) \<and>
   max_workers (snd (write_loop env idxs m p)) = max_workers p \<and>
   min_workers (snd (write_loop env idxs m p)) = min_workers p"
proof (induction env idxs m p rule: write_loop.induct)
  case (1 env body p)
  then show ?case by simp
next
  case (2 env i idxs body p)
  obtain f p1 where f: "put_at env i body p = (f, p1)" by force
  then show ?case using 2 put_at_length [of env i body p] by (cases f) simp_all
qed

lemma autoscale_write_length:
  assumes "length (workers p) \<le> max_workers p"
  shows "length (workers (autoscale_write env preferred m p)) \<le> max_workers p \<and>
    length (workers p) \<le> length (workers (autoscale_write env preferred m p)) \<and>
    max_workers (autoscale_write env preferred m p) = max_workers p"
proof -
  let ?p = "if should_grow p then up p else p"
  have p: "length (workers ?p) \<le> max_workers p" "length (workers p) \<le> length (workers ?p)" "max_workers ?p = max_workers p"
    using up_length [OF assms] assms by (cases "should_grow p", auto)
  have "length (workers (autoscale_write env preferred m p)) = length (workers ?p) \<and>
      max_workers (autoscale_write env preferred m p) = max_workers ?p"
    using put_at_length write_loop_length
    unfolding autoscale_write_def Let_def base_write_def by (simp split: option.splits)
  with p show ?thesis by simp
qed

lemma redeliver_length:
  assumes "length (workers p) \<le> max_workers p"
  shows "length (workers (redeliver env m p)) \<le> max_workers p \<and>
    length (workers p) \<le> length (workers (redeliver env m p)) \<and> max_workers (redeliver env m p) = max_workers p"
proof -
  let ?p = "if workers p = [] then up p else p"
  have "length (workers ?p) \<le> max_workers p" "length (workers p) \<le> length (workers ?p)" "max_workers ?p = max_workers p"
    using up_length [OF assms] assms by (cases "workers p = []", auto)
  then show ?thesis using autoscale_write_length [of ?p env "random_choice env ?p" m]
    unfolding redeliver_def Let_def by simp
qed

lemma redeliver_all_length:
  "length (workers p) \<le> max_workers p \<Longrightarrow>
     length (workers (fold (redeliver env) ms p)) \<le> max_workers p \<and>
     length (workers p) \<le> length (workers (fold (redeliver env) ms p)) \<and>
     max_workers (fold (redeliver env) ms p) = max_workers p"
proof (induction ms arbitrary: p)
  case Nil
  then show ?case by simp
next
  case (Cons m ms)
  have "length (workers (redeliver env m p)) \<le> max_workers (redeliver env m p)"
    using redeliver_length [OF Cons.prems, of env m] by simp
  from Cons.IH [OF this] redeliver_length [OF Cons.prems, of env m] show ?case by simp
qed

text \<open>
  C39: The pool never has more than \<open>max_workers\<close> workers: starting from at most that many, neither a
  write nor a cleanup exceeds it; a write never shrinks the pool, and a cleanup that finds every
  worker alive keeps at least \<open>min_workers\<close> of them (or all, if there were fewer).
\<close>

theorem pool_size_bounded:
  assumes "length (workers p) \<le> max_workers p"
  shows "length (workers (autoscale_write env preferred m p)) \<in> {length (workers p) .. max_workers p} \<and>
    length (workers (fst (cleanup env timeout p))) \<le> max_workers p \<and>
    ((\<forall>w \<in> set (workers p). alive w) \<longrightarrow>
       min (min_workers p) (length (workers p)) \<le> length (workers (fst (cleanup env timeout p))))"
proof -
  obtain kept orphaned reaped signaled where
    loop: "cleanup_loop (clock env) timeout (min_workers p) [] (workers p) [] [] [] = (kept, orphaned, reaped, signaled)"
    by (metis prod_cases4)
  have clean: "fst (cleanup env timeout p) = fold (redeliver env) orphaned (p\<lparr>workers := kept\<rparr>)"
    by (simp add: cleanup_def loop)
  from cleanup_loop_members [OF loop] have kept: "length kept \<le> length (workers p)"
    "(\<forall>w \<in> set (workers p). alive w) \<longrightarrow> min (min_workers p) (length (workers p)) \<le> length kept" by auto
  have "length (workers (p\<lparr>workers := kept\<rparr>)) \<le> max_workers (p\<lparr>workers := kept\<rparr>)"
    using kept(1) assms by simp
  from redeliver_all_length [OF this, of env orphaned] kept(2) autoscale_write_length [OF assms, of env preferred m]
  show ?thesis unfolding clean by auto
qed

text \<open>
  C40: A cleanup loses no message. When the queues have room for all of them and the workers' books are
  in order, the messages in the pool after it are those before it, those of the dead workers
  included, and the error callbacks of what the dead workers were running.
\<close>

theorem cleanup_conserves_messages:
  assumes "fair_env env" and "\<forall>w \<in> set (workers p). tracked w \<and> Quit \<notin> set (lost_callbacks w)"
    and "cleanup_loop (clock env) timeout (min_workers p) [] (workers p) [] [] [] = (kept, orphaned, reaped, signaled)"
    and "room_for (length orphaned) p"
  shows "carried (fst (cleanup env timeout p)) =
    carried p + mset (map content (concat (map lost_callbacks (dead (workers p)))))"
proof -
  note members = cleanup_loop_members [OF assms(3)]
  have "Quit \<notin> set orphaned" using members assms(2) by auto
  moreover have "room_for (length orphaned) (p\<lparr>workers := kept\<rparr>)"
    using assms(4) members unfolding room_for_def by fastforce
  ultimately have "carried (fst (cleanup env timeout p)) = carried (p\<lparr>workers := kept\<rparr>) + mset (map content orphaned)"
    using redeliver_all [OF assms(1), of orphaned "p\<lparr>workers := kept\<rparr>"] by (simp add: cleanup_def assms(3))
  also have "\<dots> = carried p + mset (map content (concat (map lost_callbacks (dead (workers p)))))"
    using cleanup_loop_load [OF assms(3)] assms(2) by (simp add: carried_def)
  finally show ?thesis .
qed

subsection \<open>Concrete pools\<close>

definition plain_env :: pool_env where
  "plain_env = \<lparr>random_choice = (\<lambda>_. 0), random_shuffle = (\<lambda>p. [0 ..< length (workers p)]),
     uuid4 = (\<lambda>_ _. ''u''), clock = 0\<rparr>"

definition dead_worker :: worker where
  "dead_worker = (new_worker 7)\<lparr>alive := False,
     queue := [Msg (Some ''b'') ''job'' []],
     managed_tasks := [(''a'', \<lparr>mt_body = Msg (Some ''a'') ''run'' [Msg None ''err'' []], mt_started = None, mt_age = None\<rparr>),
       (''b'', \<lparr>mt_body = Msg (Some ''b'') ''job'' [], mt_started = None, mt_age = None\<rparr>)]\<rparr>"

definition small_pool :: "worker list \<Rightarrow> pool" where
  "small_pool ws = \<lparr>workers = ws, min_workers = 2, max_workers = 4, queue_size = 10, scale_up_ct = 0,
     worker_count_max = 0, next_pid = 100\<rparr>"

text \<open>
  A cleanup can go below \<open>min_workers\<close>. The number of workers it compares with the minimum still
  counts dead workers that come later in the list: with two idle workers around a dead one
  that had nothing to do, one idle worker is told to quit and one worker is left of a minimum of two.
\<close>

theorem cleanup_undershoots_minimum:
  "length (filter alive (workers (small_pool [new_worker 1, (new_worker 2)\<lparr>alive := False\<rparr>, new_worker 3]))) = 2 \<and>
   length (workers (fst (cleanup plain_env timeout
     (small_pool [new_worker 1, (new_worker 2)\<lparr>alive := False\<rparr>, new_worker 3])))) = 1 \<and>
   min_workers (small_pool ws) = 2"
  by (simp add: cleanup_def small_pool_def new_worker_def idle_def busy_iff orphaned_tasks_def
      current_task_def calculate_managed_tasks_def stamp_manager_def)

subsection \<open>Witnesses\<close>

lemma dead_worker_books:
  "tracked dead_worker" "lost_callbacks dead_worker = [Msg None ''err'' []]" "\<not> alive dead_worker"
  "orphaned_tasks dead_worker = [Msg None ''err'' [], Msg (Some ''b'') ''job'' []]"
  by (simp_all add: tracked_def idle_def busy_iff dead_worker_def lost_callbacks_def current_task_def
      calculate_managed_tasks_def new_worker_def orphaned_tasks_def)

theorem full_queue_leaves_phantom_task_witness:
  "\<exists>w'. put_message 1 ''x'' (Msg None ''job'' []) (quit_worker (new_worker 1)) = (True, w') \<and>
     busy (w'\<lparr>finished := []\<rparr>)"
proof -
  have "1 \<le> length (queue (quit_worker (new_worker 1)))" by (simp add: quit_worker_def new_worker_def)
  from full_queue_leaves_phantom_task [OF this, of "''x''" "Msg None ''job'' []"]
  show ?thesis by (metis empty_iff empty_set)
qed

theorem pool_size_bounded_witness:
  "length (workers (autoscale_write plain_env 0 (Msg None ''job'' []) (small_pool [dead_worker]))) \<in> {1 .. 4} \<and>
   length (workers (fst (cleanup plain_env 10 (small_pool [dead_worker])))) \<le> 4"
  using pool_size_bounded [of "small_pool [dead_worker]" plain_env 0 "Msg None ''job'' []" 10]
  by (simp add: small_pool_def)

theorem cleanup_conserves_messages_witness:
  "carried (fst (cleanup plain_env 10 (small_pool [new_worker 1, dead_worker]))) =
     {#(''job'', []), (''err'', [])#}"
proof -
  let ?p = "small_pool [new_worker 1, dead_worker]"
  have env: "fair_env plain_env" by (auto simp: fair_env_def plain_env_def)
  have books: "\<forall>w \<in> set (workers ?p). tracked w \<and> Quit \<notin> set (lost_callbacks w)"
  proof -
    have "lost_callbacks (new_worker 1) = []" "tracked (new_worker 1)"
      by (simp_all add: tracked_def pending_def new_worker_def lost_callbacks_def current_task_def
          calculate_managed_tasks_def)
    then show ?thesis using dead_worker_books by (simp add: small_pool_def)
  qed
  obtain kept reaped signaled where loop: "cleanup_loop (clock plain_env) 10 (min_workers ?p) [] (workers ?p) [] [] [] =
      (kept, [Msg None ''err'' [], Msg (Some ''b'') ''job'' []], reaped, signaled)"
  proof -
    obtain kept orphaned reaped signaled where
      l: "cleanup_loop (clock plain_env) 10 (min_workers ?p) [] (workers ?p) [] [] [] = (kept, orphaned, reaped, signaled)"
      by (metis prod_cases4)
    then have "orphaned = orphaned_tasks dead_worker"
      using dead_worker_books(3) by (auto simp: small_pool_def new_worker_def split: if_splits prod.splits)
    with l that show thesis by (simp add: dead_worker_books(4))
  qed
  have "room_for (length [Msg None ''err'' [], Msg (Some ''b'') ''job'' []]) ?p"
    by (simp add: room_for_def small_pool_def new_worker_def dead_worker_def)
  from cleanup_conserves_messages [OF env books loop this]
  have "carried (fst (cleanup plain_env 10 ?p)) =
      carried ?p + mset (map content (concat (map lost_callbacks (dead (workers ?p)))))" .
  moreover have "carried ?p = {#(''job'', [])#}"
    by (simp add: carried_def small_pool_def pending_def new_worker_def dead_worker_def content_def)
  moreover have "dead (workers ?p) = [dead_worker]"
    using dead_worker_books(3) by (simp add: dead_def small_pool_def new_worker_def)
  ultimately show ?thesis by (simp add: dead_worker_books(2) content_def)
qed

end
