(* ===== verification/PyValues.thy ===== *)
theory PyValues
  imports Complex_Main Prelude "HOL-Library.Char_ord" "HOL-Library.List_Lexorder" "HOL-Library.Sublist"
begin

section \<open>Python values and strings\<close>

text \<open>
  The values that come out of \<open>json.loads\<close> and a \<open>JSONField\<close>, and what the source does with
  them: truth, equality, \<open>str\<close>, \<open>repr\<close>, \<open>int\<close>, \<open>json.dumps\<close>, and the string methods. A
  character is a code point below 256. A float carries its value and the text that \<open>repr\<close>
  prints for it; the special values of IEEE arithmetic are left out.
\<close>

named_theorems py_simps \<open>operations on Python values\<close>

subsection \<open>Strings\<close>

definition is_space :: "char \<Rightarrow> bool" where
  "is_space c \<longleftrightarrow> (let n = of_char c :: nat in (9 \<le> n \<and> n \<le> 13) \<or> (28 \<le> n \<and> n \<le> 32) \<or> n = 133 \<or> n = 160)"

definition strip :: "string \<Rightarrow> string" where
  "strip s = rev (dropWhile is_space (rev (dropWhile is_space s)))"

definition rstrip_char :: "char \<Rightarrow> string \<Rightarrow> string" where
  "rstrip_char c s = rev (dropWhile (\<lambda>x. x = c) (rev s))"

definition strip_char :: "char \<Rightarrow> string \<Rightarrow> string" where
  "strip_char c s = rstrip_char c (dropWhile (\<lambda>x. x = c) s)"

definition lower_char :: "char \<Rightarrow> char" where
  "lower_char c = (let n = of_char c :: nat in
     if (65 \<le> n \<and> n \<le> 90) \<or> (192 \<le> n \<and> n \<le> 222 \<and> n \<noteq> 215) then char_of (n + 32) else c)"

definition lower :: "string \<Rightarrow> string" where
  "lower s = map lower_char s"

fun split :: "char \<Rightarrow> string \<Rightarrow> string list" where
  "split c [] = [[]]"
| "split c (x # xs) = (if x = c then [] # split c xs
     else (case split c xs of [] \<Rightarrow> [[x]] | p # ps \<Rightarrow> (x # p) # ps))"

text \<open>\<open>s.split(c, 1)\<close> when \<open>c\<close> occurs: what is before the first \<open>c\<close>, and what is after it.\<close>

definition split_once :: "char \<Rightarrow> string \<Rightarrow> string \<times> string" where
  "split_once c s = (takeWhile (\<lambda>x. x \<noteq> c) s, drop 1 (dropWhile (\<lambda>x. x \<noteq> c) s))"

definition starts_with :: "string \<Rightarrow> string \<Rightarrow> bool" where
  "starts_with s p \<longleftrightarrow> prefix p s"

definition contains :: "string \<Rightarrow> string \<Rightarrow> bool" where
  "contains s p \<longleftrightarrow> sublist p s"

definition replace_char :: "char \<Rightarrow> char \<Rightarrow> string \<Rightarrow> string" where
  "replace_char a b s = map (\<lambda>c. if c = a then b else c) s"

definition is_decimal :: "char \<Rightarrow> bool" where
  "is_decimal c \<longleftrightarrow> 48 \<le> (of_char c :: nat) \<and> (of_char c :: nat) < 58"

text \<open>\<open>str.isdigit\<close> also accepts the superscripts one, two and three.\<close>

definition isdigit :: "string \<Rightarrow> bool" where
  "isdigit s \<longleftrightarrow> s \<noteq> [] \<and> list_all (\<lambda>c. is_decimal c \<or> of_char c \<in> {178, 179, 185 :: nat}) s"

definition digit_val :: "char \<Rightarrow> int" where
  "digit_val c = int (of_char c) - 48"

text \<open>\<open>int(s)\<close>: digits with single underscores between them; \<^const>\<open>None\<close> is \<open>ValueError\<close>.\<close>

fun read_digits :: "int \<Rightarrow> string \<Rightarrow> int option" where
  "read_digits a [] = Some a"
| "read_digits a (c # cs) =
     (if is_decimal c then read_digits (10 * a + digit_val c) cs
      else if c = CHR ''_'' then
        (case cs of [] \<Rightarrow> None
         | d # ds \<Rightarrow> if is_decimal d then read_digits (10 * a + digit_val d) ds else None)
      else None)"

definition read_nat :: "string \<Rightarrow> int option" where
  "read_nat s = (case s of [] \<Rightarrow> None | c # cs \<Rightarrow> if is_decimal c then read_digits (digit_val c) cs else None)"

definition read_int :: "string \<Rightarrow> int option" where
  "read_int s = (case strip s of
      [] \<Rightarrow> None
    | c # cs \<Rightarrow> if c = CHR ''-'' then map_option uminus (read_nat cs)
                 else if c = CHR ''+'' then read_nat cs else read_nat (c # cs))"

lemma split_nonempty [simp]: "split c s \<noteq> []"
  by (induction s) (auto split: list.splits)

lemma split_no_sep: "c \<notin> set s \<Longrightarrow> split c s = [s]"
  by (induction s) auto

lemma split_append: "c \<notin> set p \<Longrightarrow> split c (p @ c # s) = p # split c s"
  by (induction p) auto

lemma join_split: "join [c] (split c s) = s"
proof (induction s)
  case Nil
  then show ?case by simp
next
  case (Cons x xs)
  then show ?case by (cases "split c xs" rule: list.exhaust; cases "tl (split c xs)") auto
qed

lemma lower_char_idem: "lower_char (lower_char c) = lower_char c"
proof -
  have "(of_char (char_of n) :: nat) = n mod 256" for n :: nat by (simp add: of_char_of)
  then show ?thesis by (auto simp: lower_char_def Let_def)
qed

lemma lower_idem: "lower (lower s) = lower s"
  by (simp add: lower_def lower_char_idem)

lemma read_digits_app: "(\<And>c. c \<in> set s \<Longrightarrow> is_decimal c) \<Longrightarrow>
    read_digits a (s @ t) = read_digits (foldl (\<lambda>a c. 10 * a + digit_val c) a s) t"
  by (induction s arbitrary: a) simp_all

lemma nat_str_decimal: "c \<in> set (nat_str n) \<Longrightarrow> is_decimal c"
  using nat_str_digits by (simp add: is_decimal_def)

lemma foldl_digit_val:
  "(\<And>c. c \<in> set s \<Longrightarrow> is_decimal c) \<Longrightarrow>
     foldl (\<lambda>a c. 10 * a + digit_val c) (int k) s = int (foldl (\<lambda>a c. 10 * a + (of_char c - 48)) k s)"
proof (induction s arbitrary: k)
  case Nil
  then show ?case by simp
next
  case (Cons c s)
  have "10 * int k + digit_val c = int (10 * k + (of_char c - 48))"
    using Cons.prems [of c] by (simp add: digit_val_def is_decimal_def)
  moreover have "foldl (\<lambda>a c. 10 * a + digit_val c) (int (10 * k + (of_char c - 48))) s =
      int (foldl (\<lambda>a c. 10 * a + (of_char c - 48)) (10 * k + (of_char c - 48)) s)"
    by (rule Cons.IH) (simp add: Cons.prems)
  ultimately show ?case by (simp only: foldl_Cons)
qed

lemma read_nat_str: "read_nat (nat_str n) = Some (int n)"
proof -
  obtain c cs where s: "nat_str n = c # cs" using nat_str_nonempty by (cases "nat_str n") auto
  have dec: "\<And>x. x \<in> set (c # cs) \<Longrightarrow> is_decimal x" using nat_str_decimal s by metis
  have "read_nat (nat_str n) = read_digits (digit_val c) (cs @ [])" using dec by (simp add: s read_nat_def)
  also have "\<dots> = Some (foldl (\<lambda>a c. 10 * a + digit_val c) 0 (c # cs))"
    using dec read_digits_app [of cs "digit_val c" "[]"] by simp
  also have "foldl (\<lambda>a c. 10 * a + digit_val c) 0 (c # cs) = int (dec_value (nat_str n))"
    using foldl_digit_val [of "c # cs" 0] dec by (simp add: s dec_value_def)
  finally show ?thesis by (simp add: dec_value_nat_str)
qed

lemma strip_no_space: "(\<And>c. c \<in> set s \<Longrightarrow> \<not> is_space c) \<Longrightarrow> strip s = s"
proof -
  assume a: "\<And>c. c \<in> set s \<Longrightarrow> \<not> is_space c"
  have "dropWhile is_space t = t" if "\<And>c. c \<in> set t \<Longrightarrow> \<not> is_space c" for t
    using that by (cases t) auto
  from this [of s] this [of "rev s"] a show ?thesis by (simp add: strip_def)
qed

lemma decimal_char:
  assumes "is_decimal c" shows "\<not> is_space c" "c \<noteq> CHR ''-''" "c \<noteq> CHR ''+''"
  using assms by (auto simp: is_space_def is_decimal_def Let_def)

text \<open>Reading what was printed gives the number back.\<close>

lemma read_int_str: "read_int (int_str i) = Some i"
proof -
  have ns: "\<not> is_space c" if "c \<in> set (int_str i)" for c
    using that nat_str_decimal decimal_char by (auto simp: int_str_def is_space_def split: if_splits)
  show ?thesis
  proof (cases "i < 0")
    case True
    then show ?thesis using strip_no_space [of "int_str i"] ns
      by (simp add: read_int_def int_str_def read_nat_str)
  next
    case False
    obtain c cs where s: "nat_str (nat i) = c # cs" using nat_str_nonempty by (cases "nat_str (nat i)") auto
    then have "is_decimal c" using nat_str_decimal by (metis list.set_intros(1))
    with False strip_no_space [of "int_str i"] ns s read_nat_str [of "nat i"] show ?thesis
      by (simp add: read_int_def int_str_def decimal_char)
  qed
qed

subsection \<open>Values\<close>

datatype json =
  JNull
| JBool bool
| JInt int
| JFloat rat string
| JStr string
| JList "json list"
| JDict "(string \<times> json) list"

type_synonym py_dict = "(string, json) pydict"

fun py_true :: "json \<Rightarrow> bool" where
  "py_true JNull = False"
| "py_true (JBool b) = b"
| "py_true (JInt i) = (i \<noteq> 0)"
| "py_true (JFloat r _) = (r \<noteq> 0)"
| "py_true (JStr s) = (s \<noteq> [])"
| "py_true (JList xs) = (xs \<noteq> [])"
| "py_true (JDict d) = (d \<noteq> [])"

text \<open>A number for comparison: a truth value counts as 0 or 1.\<close>

fun py_num :: "json \<Rightarrow> rat option" where
  "py_num (JBool b) = Some (if b then 1 else 0)"
| "py_num (JInt i) = Some (of_int i)"
| "py_num (JFloat r _) = Some r"
| "py_num _ = None"

text \<open>Equality: numbers by value, lists in order, dictionaries by key.\<close>

fun py_eq :: "json \<Rightarrow> json \<Rightarrow> bool"
  and py_eq_list :: "json list \<Rightarrow> json list \<Rightarrow> bool"
  and py_eq_items :: "(string \<times> json) list \<Rightarrow> py_dict \<Rightarrow> bool" where
  "py_eq JNull b = (b = JNull)"
| "py_eq (JStr s) b = (b = JStr s)"
| "py_eq (JList xs) b = (case b of JList ys \<Rightarrow> py_eq_list xs ys | _ \<Rightarrow> False)"
| "py_eq (JDict d) b = (case b of JDict e \<Rightarrow> length d = length e \<and> py_eq_items d e | _ \<Rightarrow> False)"
| "py_eq (JBool x) b = (py_num b = py_num (JBool x))"
| "py_eq (JInt x) b = (py_num b = py_num (JInt x))"
| "py_eq (JFloat x t) b = (py_num b = py_num (JFloat x t))"
| "py_eq_list [] ys = (ys = [])"
| "py_eq_list (x # xs) ys = (case ys of [] \<Rightarrow> False | y # ys \<Rightarrow> py_eq x y \<and> py_eq_list xs ys)"
| "py_eq_items [] e = True"
| "py_eq_items ((k, v) # d) e = ((case dict_get e k of None \<Rightarrow> False | Some w \<Rightarrow> py_eq v w) \<and> py_eq_items d e)"

text \<open>A value whose dictionaries have no key twice, as every Python dictionary.\<close>

fun wf_json :: "json \<Rightarrow> bool" where
  "wf_json (JList xs) = list_all wf_json xs"
| "wf_json (JDict d) = (distinct (dict_keys d) \<and> list_all (\<lambda>(k, v). wf_json v) d)"
| "wf_json _ = True"

lemma py_eq_same: "wf_json v \<Longrightarrow> w = v \<Longrightarrow> py_eq v w"
  and "list_all wf_json xs \<Longrightarrow> ys = xs \<Longrightarrow> py_eq_list xs ys"
  and "distinct (dict_keys e) \<Longrightarrow> set d \<subseteq> set e \<Longrightarrow> list_all (\<lambda>(k, v). wf_json v) d \<Longrightarrow> py_eq_items d e"
  for d :: "(string \<times> json) list" and e :: py_dict
  by (induction v w and xs ys and d e rule: py_eq_py_eq_list_py_eq_items.induct) auto

lemma py_eq_refl [py_simps]: "wf_json v \<Longrightarrow> py_eq v v"
  by (simp add: py_eq_same)

subsection \<open>Printing\<close>

definition hex_digit :: "nat \<Rightarrow> char" where
  "hex_digit d = (if d < 10 then char_of (48 + d) else char_of (87 + d))"

definition hex2 :: "char \<Rightarrow> string" where
  "hex2 c = [hex_digit (of_char c div 16), hex_digit (of_char c mod 16)]"

definition is_printable :: "char \<Rightarrow> bool" where
  "is_printable c \<longleftrightarrow> (let n = of_char c :: nat in (32 \<le> n \<and> n < 127) \<or> (161 \<le> n \<and> n \<noteq> 173))"

definition newline :: char where "newline = char_of (10 :: nat)"
definition carriage_return :: char where "carriage_return = char_of (13 :: nat)"
definition tabulator :: char where "tabulator = char_of (9 :: nat)"
definition quote :: char where "quote = char_of (34 :: nat)"
definition apostrophe :: char where "apostrophe = char_of (39 :: nat)"
definition backslash :: char where "backslash = char_of (92 :: nat)"

definition repr_char :: "char \<Rightarrow> char \<Rightarrow> string" where
  "repr_char q c =
     (if c = q \<or> c = backslash then [backslash, c]
      else if c = newline then [backslash, CHR ''n'']
      else if c = carriage_return then [backslash, CHR ''r'']
      else if c = tabulator then [backslash, CHR ''t'']
      else if is_printable c then [c]
      else [backslash, CHR ''x''] @ hex2 c)"

definition repr_str :: "string \<Rightarrow> string" where
  "repr_str s =
     (let q = (if apostrophe \<in> set s \<and> quote \<notin> set s then quote else apostrophe)
      in [q] @ concat (map (repr_char q) s) @ [q])"

fun py_repr :: "json \<Rightarrow> string" where
  "py_repr JNull = ''None''"
| "py_repr (JBool b) = (if b then ''True'' else ''False'')"
| "py_repr (JInt i) = int_str i"
| "py_repr (JFloat r t) = t"
| "py_repr (JStr s) = repr_str s"
| "py_repr (JList xs) = ''['' @ join '', '' (map py_repr xs) @ '']''"
| "py_repr (JDict d) = ''{'' @ join '', '' (map (\<lambda>(k, v). repr_str k @ '': '' @ py_repr v) d) @ ''}''"

definition py_str :: "json \<Rightarrow> string" where
  "py_str v = (case v of JStr s \<Rightarrow> s | _ \<Rightarrow> py_repr v)"

text \<open>\<open>json.dumps\<close> with \<open>ensure_ascii\<close>, the default.\<close>

definition json_char :: "char \<Rightarrow> string" where
  "json_char c =
     (if c = quote \<or> c = backslash then [backslash, c]
      else if c = newline then [backslash, CHR ''n'']
      else if c = carriage_return then [backslash, CHR ''r'']
      else if c = tabulator then [backslash, CHR ''t'']
      else if c = char_of (12 :: nat) then [backslash, CHR ''f'']
      else if c = char_of (8 :: nat) then [backslash, CHR ''b'']
      else if 32 \<le> (of_char c :: nat) \<and> (of_char c :: nat) < 127 then [c]
      else [backslash] @ ''u00'' @ hex2 c)"

definition json_str :: "string \<Rightarrow> string" where
  "json_str s = [quote] @ concat (map json_char s) @ [quote]"

fun json_dumps :: "json \<Rightarrow> string" where
  "json_dumps JNull = ''null''"
| "json_dumps (JBool b) = (if b then ''true'' else ''false'')"
| "json_dumps (JInt i) = int_str i"
| "json_dumps (JFloat r t) = t"
| "json_dumps (JStr s) = json_str s"
| "json_dumps (JList xs) = ''['' @ join '', '' (map json_dumps xs) @ '']''"
| "json_dumps (JDict d) = ''{'' @ join '', '' (map (\<lambda>(k, v). json_str k @ '': '' @ json_dumps v) d) @ ''}''"

subsection \<open>Conversions\<close>

text \<open>\<open>int(v)\<close>: \<^const>\<open>None\<close> stands for \<open>TypeError\<close> and \<open>ValueError\<close>.\<close>

fun py_int :: "json \<Rightarrow> int option" where
  "py_int (JBool b) = Some (if b then 1 else 0)"
| "py_int (JInt i) = Some i"
| "py_int (JFloat r _) = Some (if r \<ge> 0 then \<lfloor>r\<rfloor> else \<lceil>r\<rceil>)"
| "py_int (JStr s) = read_int s"
| "py_int _ = None"

definition is_dict :: "json \<Rightarrow> bool" where
  "is_dict v \<longleftrightarrow> (case v of JDict _ \<Rightarrow> True | _ \<Rightarrow> False)"

definition is_str :: "json \<Rightarrow> bool" where
  "is_str v \<longleftrightarrow> (case v of JStr _ \<Rightarrow> True | _ \<Rightarrow> False)"

text \<open>\<open>d.get(k)\<close> and \<open>d.get(k) or {}\<close> read as a dictionary.\<close>

definition get :: "py_dict \<Rightarrow> string \<Rightarrow> json" where
  "get d k = dict_get_default d k JNull"

definition or_empty :: "json \<Rightarrow> json" where
  "or_empty v = (if py_true v then v else JDict [])"

definition as_dict :: "json \<Rightarrow> py_dict" where
  "as_dict v = (case v of JDict d \<Rightarrow> d | _ \<Rightarrow> [])"

lemma py_int_str: "py_int (JStr (py_str (JInt i))) = Some i"
  by (simp add: py_str_def read_int_str)

lemma py_true_str [simp]: "py_true (JStr s) \<longleftrightarrow> s \<noteq> []"
  by simp

subsection \<open>Operations that may raise\<close>

definition py_or :: "json \<Rightarrow> json \<Rightarrow> json" where
  "py_or a b = (if py_true a then a else b)"

text \<open>\<open>v.get(k)\<close> raises when \<open>v\<close> is no dictionary; a loop over \<open>v\<close> raises for numbers and \<open>None\<close>.\<close>

definition get_attr :: "json \<Rightarrow> string \<Rightarrow> json option" where
  "get_attr v k = (case v of JDict d \<Rightarrow> Some (get d k) | _ \<Rightarrow> None)"

definition iterate :: "json \<Rightarrow> json list option" where
  "iterate v = (case v of
     JList xs \<Rightarrow> Some xs
   | JStr s \<Rightarrow> Some (map (\<lambda>c. JStr [c]) s)
   | JDict d \<Rightarrow> Some (map (\<lambda>(k, _). JStr k) d)
   | _ \<Rightarrow> None)"

definition dicts_of :: "json list \<Rightarrow> py_dict list" where
  "dicts_of xs = List.map_filter (\<lambda>x. case x of JDict d \<Rightarrow> Some d | _ \<Rightarrow> None) xs"

fun map_opt :: "('a \<Rightarrow> 'b option) \<Rightarrow> 'a list \<Rightarrow> 'b list option" where
  "map_opt f [] = Some []"
| "map_opt f (x # xs) = (case f x of None \<Rightarrow> None | Some y \<Rightarrow> map_option ((#) y) (map_opt f xs))"

text \<open>The name of a value's type in an error message, and what some operations raise.\<close>

definition py_type :: "json \<Rightarrow> string" where
  "py_type v = (case v of JNull \<Rightarrow> ''NoneType'' | JBool _ \<Rightarrow> ''bool'' | JInt _ \<Rightarrow> ''int'' | JFloat _ _ \<Rightarrow> ''float''
     | JStr _ \<Rightarrow> ''str'' | JList _ \<Rightarrow> ''list'' | JDict _ \<Rightarrow> ''dict'')"

definition quoted :: "string \<Rightarrow> string" where
  "quoted s = [apostrophe] @ s @ [apostrophe]"

definition no_attribute :: "json \<Rightarrow> string \<Rightarrow> string" where
  "no_attribute v a = quoted (py_type v) @ '' object has no attribute '' @ quoted a"

definition not_iterable :: "json \<Rightarrow> string" where
  "not_iterable v = quoted (py_type v) @ '' object is not iterable''"

text \<open>
  \<open>dict(v)\<close>: a copy of a dictionary, a dictionary from a list of pairs, or an exception. A key of
  a pair that is not a string is kept as the text it prints to.
\<close>

definition py_len :: "json \<Rightarrow> int" where
  "py_len v = (case v of JStr s \<Rightarrow> int (length s) | JList xs \<Rightarrow> int (length xs) | JDict d \<Rightarrow> int (length d) | _ \<Rightarrow> 0)"

fun dict_of_pairs :: "json list \<Rightarrow> int \<Rightarrow> py_dict \<Rightarrow> string + py_dict" where
  "dict_of_pairs [] i d = Inr d"
| "dict_of_pairs (x # xs) i d =
     (case iterate x of
        None \<Rightarrow> Inl (''cannot convert dictionary update sequence element #'' @ int_str i @ '' to a sequence'')
      | Some [k, v] \<Rightarrow>
          (case k of
             JList _ \<Rightarrow> Inl (''unhashable type: '' @ quoted (py_type k))
           | JDict _ \<Rightarrow> Inl (''unhashable type: '' @ quoted (py_type k))
           | _ \<Rightarrow> dict_of_pairs xs (i + 1) (dict_set (py_str k) v d))
      | Some ys \<Rightarrow> Inl (''dictionary update sequence element #'' @ int_str i @ '' has length '' @
                       int_str (int (length ys)) @ ''; 2 is required''))"

definition dict_of :: "json \<Rightarrow> string + py_dict" where
  "dict_of v = (case v of
     JDict d \<Rightarrow> Inr d
   | _ \<Rightarrow> (case iterate v of None \<Rightarrow> Inl (not_iterable v) | Some xs \<Rightarrow> dict_of_pairs xs 0 []))"

end
