(* ===== verification/Tenancy.thy ===== *)
theory Tenancy
  imports PyValues
begin

section \<open>Tenants: quotas, queues and usage\<close>

text \<open>
  Models \<^verbatim>\<open>forail/main/tenancy/\<close>: the helpers, the quota gate
  (\<^verbatim>\<open>quota.py\<close>), the recalculation of the counters (\<^verbatim>\<open>usage.py\<close>)
  and the queues (\<^verbatim>\<open>queues.py\<close>). An organization is a row, the usage rows are a map from
  the organization's key, and the quota events are a log. Times are in microseconds since the epoch,
  in UTC. Inserting a row is taken to succeed.
\<close>

subsection \<open>Helpers\<close>

datatype quota_kind = ConcurrentJobs | DailyLaunches | Hosts | StorageMb

datatype quota_decision = Allowed | Blocked

definition unlimited :: "int option \<Rightarrow> bool" where
  "unlimited limit \<longleftrightarrow> limit = None \<or> limit = Some 0"

definition check_quota_value :: "int \<Rightarrow> int option \<Rightarrow> bool" where
  "check_quota_value current limit =
     (if unlimited limit then True else current < the limit)"

definition day :: int where "day = 24 * 60 * 60 * 1000000"

definition utc_date :: "int \<Rightarrow> int" where
  "utc_date t = t div day"

definition is_window_expired :: "int option \<Rightarrow> int \<Rightarrow> bool" where
  "is_window_expired window_start now =
     (case window_start of None \<Rightarrow> True | Some ws \<Rightarrow> utc_date ws \<noteq> utc_date now)"

definition reset_daily_window :: "int \<Rightarrow> int \<times> int" where
  "reset_daily_window now = (utc_date now * day, 0)"

fun quota_label :: "quota_kind \<Rightarrow> string" where
  "quota_label ConcurrentJobs = ''Concurrent jobs''"
| "quota_label DailyLaunches = ''Daily launches''"
| "quota_label Hosts = ''Hosts''"
| "quota_label StorageMb = ''Storage (MB)''"

definition format_quota_message :: "quota_kind \<Rightarrow> int \<Rightarrow> int option \<Rightarrow> string" where
  "format_quota_message kind current limit =
     (let lim = (if unlimited limit then ''unlimited'' else int_str (the limit))
      in quota_label kind @ '' quota exceeded ('' @ int_str current @ ''/'' @ lim @ '')'')"

definition normalize_host :: "string option \<Rightarrow> string" where
  "normalize_host host =
     (case host of None \<Rightarrow> []
      | Some h \<Rightarrow>
          (let s = lower (strip h) in
           if s = [] then []
           else let s1 = (if CHR '':'' \<in> set s \<and> \<not> starts_with s ''['' then fst (split_once CHR '':'' s) else s)
                in if s1 \<noteq> [] \<and> last s1 = CHR ''.'' then butlast s1 else s1))"

definition is_hex :: "char \<Rightarrow> bool" where
  "is_hex c \<longleftrightarrow> (let n = of_char c :: nat in (48 \<le> n \<and> n < 58) \<or> (97 \<le> n \<and> n < 103) \<or> (65 \<le> n \<and> n < 71))"

text \<open>
  The pattern is anchored by \<open>$\<close>, which also matches before a newline at the end of the string.
\<close>

definition hex_color_match :: "string \<Rightarrow> bool" where
  "hex_color_match s \<longleftrightarrow>
     length s \<ge> 7 \<and> hd s = CHR ''#'' \<and> list_all is_hex (take 6 (drop 1 s)) \<and> drop 7 s \<in> {[], [newline]}"

definition is_valid_hex_color :: "json \<Rightarrow> bool" where
  "is_valid_hex_color v = (case v of JStr s \<Rightarrow> s \<noteq> [] \<and> hex_color_match s | _ \<Rightarrow> False)"

definition tenant_queue_name :: "int option \<Rightarrow> string" where
  "tenant_queue_name org_id =
     (case org_id of None \<Rightarrow> [] | Some i \<Rightarrow> if i = 0 then [] else ''tenant-'' @ int_str i)"

subsection \<open>The payload that provisions a tenant\<close>

definition text_of :: "json \<Rightarrow> string" where
  "text_of v = (if py_true v then py_str v else [])"

definition quota_errors :: "py_dict \<Rightarrow> string \<Rightarrow> string list" where
  "quota_errors quota q_field =
     (let v = get quota q_field in
      if v = JNull then []
      else case py_int v of
        None \<Rightarrow> [q_field @ '' must be an integer'']
      | Some iv \<Rightarrow> if iv < 0 then [q_field @ '' must be >= 0''] else [])"

definition color_errors :: "py_dict \<Rightarrow> string \<Rightarrow> string list" where
  "color_errors branding c_field =
     (let v = get branding c_field in
      if py_true v \<and> \<not> is_valid_hex_color v then [c_field @ '' must be a valid hex color like #RRGGBB''] else [])"

definition validate_provisioning_payload :: "json \<Rightarrow> string list" where
  "validate_provisioning_payload payload =
     (case payload of
        JDict d \<Rightarrow>
          (let quota = or_empty (get d ''quota'');
               branding = or_empty (get d ''branding'')
           in (if strip (text_of (get d ''name'')) = [] then [''name is required''] else []) @
              (if length (text_of (get d ''admin_username'')) < 3
               then [''admin_username must be at least 3 characters''] else []) @
              (if CHR ''@'' \<notin> set (text_of (get d ''admin_email''))
               then [''admin_email must be a valid email address''] else []) @
              (if length (text_of (get d ''admin_password'')) < 8
               then [''admin_password must be at least 8 characters''] else []) @
              (if is_dict quota then [] else [''quota must be an object'']) @
              concat (map (quota_errors (as_dict quota))
                [''max_concurrent_jobs'', ''max_daily_launches'', ''max_hosts'', ''max_storage_mb'']) @
              (if is_dict branding then [] else [''branding must be an object'']) @
              concat (map (color_errors (as_dict branding)) [''primary_color'', ''secondary_color'']))
      | _ \<Rightarrow> [''payload must be an object''])"

subsection \<open>The quota gate\<close>

record organization =
  org_pk :: int
  org_name :: string
  is_tenant_root :: bool
  tenant_max_concurrent_jobs :: "int option"
  tenant_max_daily_launches :: "int option"
  tenant_max_hosts :: "int option"
  tenant_max_storage_mb :: "int option"
  tenant_isolation_strict :: bool
  tenant_api_rate_limit :: "int option"

record tenant_usage =
  concurrent_jobs_count :: int
  launches_today_count :: int
  launches_today_window_start :: "int option"
  hosts_count :: int
  storage_mb_used :: int
  last_recalculated_at :: "int option"

record quota_event =
  qe_org :: int
  qe_kind :: quota_kind
  qe_decision :: quota_decision
  qe_current :: int
  qe_limit :: "int option"
  qe_message :: string

record tenancy_state =
  usages :: "int \<Rightarrow> tenant_usage option"
  quota_events :: "quota_event list"

definition empty_tenancy :: tenancy_state where
  "empty_tenancy = \<lparr>usages = (\<lambda>_. None), quota_events = []\<rparr>"

text \<open>\<open>TenantUsage.save\<close> sets the window when there is none.\<close>

definition saved_usage :: "int \<Rightarrow> tenant_usage \<Rightarrow> tenant_usage" where
  "saved_usage now u =
     (case launches_today_window_start u of
        Some _ \<Rightarrow> u
      | None \<Rightarrow> (let (top, zero) = reset_daily_window now;
                     u1 = u\<lparr>launches_today_window_start := Some top\<rparr>
                 in if launches_today_count u1 = 0 then u1\<lparr>launches_today_count := zero\<rparr> else u1))"

definition new_usage :: tenant_usage where
  "new_usage = \<lparr>concurrent_jobs_count = 0, launches_today_count = 0, launches_today_window_start = None,
     hosts_count = 0, storage_mb_used = 0, last_recalculated_at = None\<rparr>"

definition get_or_create_usage :: "int \<Rightarrow> int \<Rightarrow> tenancy_state \<Rightarrow> tenant_usage" where
  "get_or_create_usage now pk s =
     (case usages s pk of Some u \<Rightarrow> u | None \<Rightarrow> saved_usage now new_usage)"

text \<open>\<open>_get_org\<close>: the job's organization, or that of its inventory.\<close>

definition get_org :: "organization option \<Rightarrow> organization option \<Rightarrow> organization option" where
  "get_org job_org inventory_org = (case job_org of Some owner \<Rightarrow> Some owner | None \<Rightarrow> inventory_org)"

definition roll_window :: "int \<Rightarrow> tenant_usage \<Rightarrow> tenant_usage" where
  "roll_window now u =
     (if is_window_expired (launches_today_window_start u) now
      then (let (top, zero) = reset_daily_window now
            in u\<lparr>launches_today_window_start := Some top, launches_today_count := zero\<rparr>)
      else u)"

definition quota_checks :: "organization \<Rightarrow> tenant_usage \<Rightarrow> (quota_kind \<times> int \<times> int option) list" where
  "quota_checks og u =
     [(ConcurrentJobs, concurrent_jobs_count u, tenant_max_concurrent_jobs og),
      (DailyLaunches, launches_today_count u, tenant_max_daily_launches og),
      (Hosts, hosts_count u, tenant_max_hosts og),
      (StorageMb, storage_mb_used u, tenant_max_storage_mb og)]"

definition quota_event_of ::
  "organization \<Rightarrow> quota_decision \<Rightarrow> string \<Rightarrow> quota_kind \<times> int \<times> int option \<Rightarrow> quota_event" where
  "quota_event_of og decision message c =
     (case c of (kind, current, limit) \<Rightarrow>
       \<lparr>qe_org = org_pk og, qe_kind = kind, qe_decision = decision, qe_current = current,
        qe_limit = (if unlimited limit then None else limit), qe_message = message\<rparr>)"

text \<open>
  The result: whether the launch is allowed, the reasons, and the state. Only the first quota that
  is exhausted is reported.
\<close>

definition check_tenant_quota ::
  "bool \<Rightarrow> organization option \<Rightarrow> int \<Rightarrow> tenancy_state \<Rightarrow> bool \<times> string list \<times> tenancy_state" where
  "check_tenant_quota tenancy_enabled owner now s =
     (if \<not> tenancy_enabled then (True, [], s)
      else case owner of
        None \<Rightarrow> (True, [], s)
      | Some og \<Rightarrow>
          if \<not> is_tenant_root og then (True, [], s)
          else
            (let usage = roll_window now (get_or_create_usage now (org_pk og) s);
                 checks = quota_checks og usage
             in case find (\<lambda>(kind, current, limit). \<not> check_quota_value current limit) checks of
                  Some (kind, current, limit) \<Rightarrow>
                    (let msg = format_quota_message kind current limit in
                     (False, [msg],
                      s\<lparr>usages := (usages s)(org_pk og := Some usage),
                        quota_events := quota_events s @ [quota_event_of og Blocked msg (kind, current, limit)]\<rparr>))
                | None \<Rightarrow>
                    (let usage1 = usage\<lparr>concurrent_jobs_count := concurrent_jobs_count usage + 1,
                                        launches_today_count := launches_today_count usage + 1\<rparr>
                     in (True, [],
                         s\<lparr>usages := (usages s)(org_pk og := Some (saved_usage now usage1)),
                           quota_events := quota_events s @ map (quota_event_of og Allowed []) checks\<rparr>))))"

definition on_job_finished :: "organization option \<Rightarrow> tenancy_state \<Rightarrow> tenancy_state" where
  "on_job_finished owner s =
     (case owner of
        None \<Rightarrow> s
      | Some og \<Rightarrow>
          if \<not> is_tenant_root og then s
          else case usages s (org_pk og) of
            None \<Rightarrow> s
          | Some u \<Rightarrow> s\<lparr>usages := (usages s)(org_pk og :=
              Some (u\<lparr>concurrent_jobs_count := max 0 (concurrent_jobs_count u - 1)\<rparr>))\<rparr>)"

text \<open>
  \<open>recalculate_tenant_usage\<close> holds no lock: it reads the row (or creates it), asks the database for
  the two counts (\<^const>\<open>None\<close> when the query raises), and saves every column of the row it has
  read. Other transactions can come in between, so the two halves are separate operations.
\<close>

definition recalculate_read :: "organization \<Rightarrow> int \<Rightarrow> tenancy_state \<Rightarrow> tenant_usage \<times> tenancy_state" where
  "recalculate_read og now s =
     (let usage = get_or_create_usage now (org_pk og) s
      in (usage, s\<lparr>usages := (usages s)(org_pk og := Some usage)\<rparr>))"

definition recalculate_save ::
  "tenant_usage \<Rightarrow> int option \<Rightarrow> int option \<Rightarrow> organization \<Rightarrow> int \<Rightarrow> tenancy_state \<Rightarrow> tenancy_state" where
  "recalculate_save usage hosts running og now s =
     (let hosts_n = (case hosts of None \<Rightarrow> hosts_count usage | Some n \<Rightarrow> n);
          running_n = (case running of None \<Rightarrow> concurrent_jobs_count usage | Some n \<Rightarrow> n)
      in s\<lparr>usages := (usages s)(org_pk og := Some (saved_usage now
            (usage\<lparr>hosts_count := hosts_n, storage_mb_used := storage_mb_used usage,
                   concurrent_jobs_count := running_n, last_recalculated_at := Some now\<rparr>)))\<rparr>)"

subsection \<open>Queues\<close>

definition get_queue_for_org :: "bool \<Rightarrow> bool \<Rightarrow> organization option \<Rightarrow> string option" where
  "get_queue_for_org tenancy_enabled dedicated_queues owner =
     (if \<not> tenancy_enabled then None
      else if \<not> dedicated_queues then None
      else case owner of
        None \<Rightarrow> None
      | Some og \<Rightarrow>
          if \<not> is_tenant_root og then None
          else (let name = tenant_queue_name (Some (org_pk og)) in if name = [] then None else Some name))"

definition get_queue_for_job ::
  "bool \<Rightarrow> bool \<Rightarrow> organization option \<Rightarrow> organization option \<Rightarrow> string option" where
  "get_queue_for_job tenancy_enabled dedicated_queues job_org inventory_org =
     get_queue_for_org tenancy_enabled dedicated_queues (get_org job_org inventory_org)"

text \<open>Two tenants never share a queue.\<close>

lemma tenant_queue_name_inject:
  assumes "i \<noteq> 0"
  shows "tenant_queue_name (Some i) = tenant_queue_name (Some j) \<longleftrightarrow> i = j"
  using assms by (auto simp: tenant_queue_name_def int_str_inject)

lemma tenant_queues_distinct:
  assumes "get_queue_for_org e d (Some a) = Some q" and "get_queue_for_org e d (Some b) = Some q"
  shows "org_pk a = org_pk b"
  using assms tenant_queue_name_inject [of "org_pk a" "org_pk b"]
  by (auto simp: get_queue_for_org_def Let_def tenant_queue_name_def split: if_splits)

subsection \<open>Row-level security\<close>

definition rls_setting :: string where
  "rls_setting = ''current_setting('' @ [apostrophe] @ ''forail.current_tenant_id'' @ [apostrophe] @ '', true)''"

definition policy_name_sql :: "string \<Rightarrow> string" where
  "policy_name_sql table = ''tenant_isolation_'' @ table"

definition build_rls_policy_sql :: "string \<Rightarrow> string \<Rightarrow> string \<times> string" where
  "build_rls_policy_sql table org_column =
     (''CREATE POLICY '' @ policy_name_sql table @ '' ON '' @ table @ '' AS PERMISSIVE FOR ALL USING ('' @
      org_column @ '' = '' @ rls_setting @ ''::int OR '' @ org_column @ '' IS NULL OR '' @
      rls_setting @ '' IS NULL OR '' @ rls_setting @ '' = '' @ [apostrophe, apostrophe] @ '');'',
      ''DROP POLICY IF EXISTS '' @ policy_name_sql table @ '' ON '' @ table @ '';'')"

definition build_rls_policy_sql_indirect :: "string \<Rightarrow> string \<Rightarrow> string \<Rightarrow> string \<Rightarrow> string \<times> string" where
  "build_rls_policy_sql_indirect table fk_column parent_table parent_org_column =
     (''CREATE POLICY '' @ policy_name_sql table @ '' ON '' @ table @ '' AS PERMISSIVE FOR ALL USING ('' @
      fk_column @ '' IN (SELECT id FROM '' @ parent_table @ '' WHERE '' @ parent_org_column @ '' = '' @
      rls_setting @ ''::int OR '' @ parent_org_column @ '' IS NULL) OR '' @ fk_column @ '' IS NULL OR '' @
      rls_setting @ '' IS NULL OR '' @ rls_setting @ '' = '' @ [apostrophe, apostrophe] @ '');'',
      ''DROP POLICY IF EXISTS '' @ policy_name_sql table @ '' ON '' @ table @ '';'')"

subsection \<open>Provisioning and branding\<close>

record branding =
  logo_url :: string
  primary_color :: string
  secondary_color :: string
  custom_domain :: string
  contact_email :: string

text \<open>The rows that provisioning writes: tenants with their branding, users, admins, teams, queues.\<close>

record platform =
  tenants :: "(organization \<times> branding) list"
  users :: "(string \<times> string) list"
  admins :: "(int \<times> string) list"
  teams :: "(int \<times> string) list"
  tenancy :: tenancy_state
  queues :: "string list"
  next_org :: int

datatype provision_error = ProvisioningError "string list" | AttributeError

text \<open>A limit of the payload, \<open>quota.get(k) or None\<close>, as the integer column stores it.\<close>

definition limit_of :: "json \<Rightarrow> int option" where
  "limit_of v = (if py_true v then py_int v else None)"

definition new_organization :: "py_dict \<Rightarrow> string \<Rightarrow> int \<Rightarrow> organization" where
  "new_organization d name pk =
     (let quota = as_dict (or_empty (get d ''quota'')) in
      \<lparr>org_pk = pk, org_name = name, is_tenant_root = True,
       tenant_max_concurrent_jobs = limit_of (get quota ''max_concurrent_jobs''),
       tenant_max_daily_launches = limit_of (get quota ''max_daily_launches''),
       tenant_max_hosts = limit_of (get quota ''max_hosts''),
       tenant_max_storage_mb = limit_of (get quota ''max_storage_mb''),
       tenant_isolation_strict = py_true (get d ''isolation_strict''),
       tenant_api_rate_limit = None\<rparr>)"

definition new_branding :: "py_dict \<Rightarrow> branding" where
  "new_branding d =
     (let b = as_dict (or_empty (get d ''branding'')) in
      \<lparr>logo_url = text_of (get b ''logo_url''), primary_color = text_of (get b ''primary_color''),
       secondary_color = text_of (get b ''secondary_color''), custom_domain = text_of (get b ''custom_domain''),
       contact_email = text_of (get d ''contact_email'')\<rparr>)"

text \<open>
  \<open>provision_tenant\<close>. The name is stripped with the string method, which a name that is no
  string does not have; the transaction then leaves no trace.
\<close>

definition provision_tenant ::
  "bool \<Rightarrow> int \<Rightarrow> json \<Rightarrow> platform \<Rightarrow> provision_error + organization \<times> platform" where
  "provision_tenant dedicated_queues now payload p =
     (let errors = validate_provisioning_payload payload; d = as_dict payload in
      if errors \<noteq> [] then Inl (ProvisioningError errors)
      else case get d ''name'' of
        JStr raw \<Rightarrow>
          (let name = strip raw;
               og = new_organization d name (next_org p);
               username = text_of (get d ''admin_username'');
               email = text_of (get d ''admin_email'')
           in Inr (og, p\<lparr>
                tenants := tenants p @ [(og, new_branding d)],
                users := (if username \<in> fst ` set (users p) then users p else users p @ [(username, email)]),
                admins := admins p @ [(org_pk og, username)],
                teams := teams p @ [(org_pk og, name @ '' Default Team'')],
                tenancy := (tenancy p)\<lparr>usages := (usages (tenancy p))(org_pk og :=
                  Some (get_or_create_usage now (org_pk og) (tenancy p)))\<rparr>,
                queues := (if dedicated_queues then queues p @ [tenant_queue_name (Some (org_pk og))] else queues p),
                next_org := next_org p + 1\<rparr>))
      | _ \<Rightarrow> Inl AttributeError)"

text \<open>\<open>get_branding_for_host\<close>: the first tenant whose custom domain is the normalized host.\<close>

definition get_branding_for_host :: "string option \<Rightarrow> platform \<Rightarrow> (int \<times> string \<times> branding) option" where
  "get_branding_for_host host p =
     (let normalized = normalize_host host in
      if normalized = [] then None
      else map_option (\<lambda>(og, b). (org_pk og, org_name og, b))
             (find (\<lambda>(og, b). custom_domain b = normalized \<and> is_tenant_root og) (tenants p)))"

text \<open>A name that is a number passes the validation and then raises.\<close>

lemma numeric_name_raises:
  "provision_tenant q now (JDict [(''name'', JInt 5), (''admin_username'', JStr ''root''),
     (''admin_email'', JStr ''a@b''), (''admin_password'', JStr ''12345678'')]) p = Inl AttributeError"
  by (simp add: provision_tenant_def validate_provisioning_payload_def get_def dict_get_default_def
      text_of_def py_str_def or_empty_def as_dict_def is_dict_def quota_errors_def color_errors_def
      strip_def is_space_def int_str_def nat_str.simps digit_char_def Let_def)

text \<open>The limits of a tenant that was provisioned are not negative, and its name is not blank.\<close>

lemma quota_errors_limit:
  "quota_errors quota k = [] \<Longrightarrow> limit_of (get quota k) = Some n \<Longrightarrow> 0 \<le> n"
  by (auto simp: quota_errors_def limit_of_def Let_def split: if_splits option.splits)

lemma provisioned_tenant:
  assumes "provision_tenant q now payload p = Inr (og, p')"
  shows "is_tenant_root og \<and> org_name og \<noteq> [] \<and> org_pk og = next_org p \<and>
    (\<forall>limit \<in> {tenant_max_concurrent_jobs og, tenant_max_daily_launches og, tenant_max_hosts og, tenant_max_storage_mb og}.
       \<forall>n. limit = Some n \<longrightarrow> 0 \<le> n)"
proof -
  obtain d where d: "payload = JDict d"
    using assms by (cases payload) (auto simp: provision_tenant_def validate_provisioning_payload_def Let_def)
  have ok: "validate_provisioning_payload payload = []"
    using assms by (auto simp: provision_tenant_def Let_def split: if_splits)
  obtain raw where raw: "get d ''name'' = JStr raw" "og = new_organization d (strip raw) (next_org p)"
    using assms ok d by (auto simp: provision_tenant_def Let_def as_dict_def split: json.splits if_splits)
  let ?quota = "as_dict (or_empty (get d ''quota''))"
  have "strip (text_of (get d ''name'')) \<noteq> []"
    using ok d by (auto simp: validate_provisioning_payload_def Let_def split: if_splits)
  then have "strip raw \<noteq> []" using raw(1) by (auto simp: text_of_def py_str_def split: if_splits)
  moreover have "quota_errors ?quota k = []"
    if "k \<in> {''max_concurrent_jobs'', ''max_daily_launches'', ''max_hosts'', ''max_storage_mb''}" for k
    using ok d that by (auto simp: validate_provisioning_payload_def Let_def split: if_splits)
  ultimately show ?thesis
    using raw(2) quota_errors_limit [of ?quota] by (auto simp: new_organization_def Let_def)
qed

subsection \<open>Bounds on the launches\<close>

text \<open>
  What happens to the usage of one tenant, one transaction after the other: a launch is tried, a job
  ends, a recalculation (of the given worker) reads the row, or saves it, or dies in between. The
  rows read and not yet saved are kept with their workers.
\<close>

datatype tenant_op =
    TryLaunch int | JobFinished
  | RecalcRead nat int | RecalcSave nat int "int option" "int option" | RecalcDies nat

type_synonym in_flight = "(nat \<times> tenant_usage) list"

definition not_of :: "nat \<Rightarrow> in_flight \<Rightarrow> in_flight" where
  "not_of w fl = filter (\<lambda>(v, _). v \<noteq> w) fl"

text \<open>An allowed launch is reported with its time and whether a recalculation was in flight.\<close>

fun tenant_step ::
  "organization \<Rightarrow> tenant_op \<Rightarrow> tenancy_state \<times> in_flight \<Rightarrow> (int \<times> bool) list \<times> tenancy_state \<times> in_flight" where
  "tenant_step og (TryLaunch now) (s, fl) =
     (let (ok, reasons, s') = check_tenant_quota True (Some og) now s in (if ok then [(now, fl \<noteq> [])] else [], s', fl))"
| "tenant_step og JobFinished (s, fl) = ([], on_job_finished (Some og) s, fl)"
| "tenant_step og (RecalcRead w now) (s, fl) =
     (let (usage, s') = recalculate_read og now s in ([], s', (w, usage) # not_of w fl))"
| "tenant_step og (RecalcSave w now hosts running) (s, fl) =
     (case map_of fl w of
        None \<Rightarrow> ([], s, fl)
      | Some usage \<Rightarrow> ([], recalculate_save usage hosts running og now s, not_of w fl))"
| "tenant_step og (RecalcDies w) (s, fl) = ([], s, not_of w fl)"

text \<open>The launches that were allowed, and the final state.\<close>

fun tenant_run ::
  "organization \<Rightarrow> tenant_op list \<Rightarrow> tenancy_state \<times> in_flight \<Rightarrow> (int \<times> bool) list \<times> tenancy_state \<times> in_flight" where
  "tenant_run og [] s = ([], s)"
| "tenant_run og (x # xs) s =
     (let (ls, s1) = tenant_step og x s; (ms, s2) = tenant_run og xs s1 in (ls @ ms, s2))"

fun op_time :: "tenant_op \<Rightarrow> int option" where
  "op_time (TryLaunch t) = Some t"
| "op_time JobFinished = None"
| "op_time (RecalcRead _ t) = Some t"
| "op_time (RecalcSave _ t _ _) = Some t"
| "op_time (RecalcDies _) = None"

definition op_times :: "tenant_op list \<Rightarrow> int list" where
  "op_times xs = List.map_filter op_time xs"

text \<open>The times of the launches that no recalculation overlaps.\<close>

definition quiet :: "(int \<times> bool) list \<Rightarrow> int list" where
  "quiet ls = map fst (filter (\<lambda>l. \<not> snd l) ls)"

lemma quiet_simps [simp]:
  "quiet [] = []" "quiet (xs @ ys) = quiet xs @ quiet ys" "quiet ((t, b) # ls) = (if b then quiet ls else t # quiet ls)"
  by (simp_all add: quiet_def)

text \<open>
  The invariant at a time, for the launches \<open>q\<close> that were allowed while no recalculation was in
  flight: the stored row, and every copy in flight, counts at least those of the day of its
  window; none of them is later than this day, and the window does not lie after the current day.
\<close>

definition row_counts :: "int \<Rightarrow> int list \<Rightarrow> tenant_usage \<Rightarrow> bool" where
  "row_counts now q u \<longleftrightarrow>
     (case launches_today_window_start u of
        None \<Rightarrow> False
      | Some ws \<Rightarrow> utc_date ws \<le> utc_date now \<and> (\<forall>t \<in> set q. utc_date t \<le> utc_date ws) \<and>
          int (length (filter (\<lambda>t. utc_date t = utc_date ws) q)) \<le> launches_today_count u)"

definition counted :: "organization \<Rightarrow> int \<Rightarrow> int list \<Rightarrow> tenancy_state \<times> in_flight \<Rightarrow> bool" where
  "counted og now q sf \<longleftrightarrow>
     (\<forall>t \<in> set q. t \<le> now) \<and> (\<forall>(w, u) \<in> set (snd sf). row_counts now q u) \<and>
     (case usages (fst sf) (org_pk og) of None \<Rightarrow> q = [] | Some u \<Rightarrow> row_counts now q u)"

lemma utc_date_top [simp]: "utc_date (utc_date t * day) = utc_date t"
  by (simp add: utc_date_def day_def)

lemma utc_date_mono: "s \<le> t \<Longrightarrow> utc_date s \<le> utc_date t"
  by (simp add: utc_date_def day_def zdiv_mono1)

lemma saved_new_usage [simp]:
  "launches_today_window_start (saved_usage now new_usage) = Some (utc_date now * day)"
  "launches_today_count (saved_usage now new_usage) = 0"
  by (simp_all add: saved_usage_def new_usage_def reset_daily_window_def)

lemma row_counts_later: "row_counts now q u \<Longrightarrow> now \<le> t \<Longrightarrow> row_counts t q u"
  using utc_date_mono [of now t] by (auto simp: row_counts_def split: option.splits)

lemma row_counts_jobs [simp]: "row_counts now q (u\<lparr>concurrent_jobs_count := n\<rparr>) = row_counts now q u"
  by (simp add: row_counts_def split: option.split)

lemma not_of_subset: "set (not_of w fl) \<subseteq> set fl"
  by (auto simp: not_of_def)

lemma counted_later: "counted og now q (s, fl) \<Longrightarrow> now \<le> t \<Longrightarrow> counted og t q (s, fl)"
  using row_counts_later by (fastforce simp: counted_def split: option.splits)

lemma counted_row:
  assumes "counted og now q (s, fl)" and "now \<le> t"
  shows "row_counts t q (get_or_create_usage t (org_pk og) s)"
  using assms row_counts_later [OF _ assms(2)]
  by (auto simp: counted_def get_or_create_usage_def row_counts_def [of _ "[]"] split: option.splits)

lemma saved_usage_counts: "row_counts now q u \<Longrightarrow> saved_usage t u = u"
  by (auto simp: row_counts_def saved_usage_def split: option.splits)

text \<open>After the roll the window is that of the current day.\<close>

lemma rolled_usage:
  assumes "row_counts t q u" and "\<forall>x \<in> set q. x \<le> t"
  shows "\<exists>ws. launches_today_window_start (roll_window t u) = Some ws \<and> utc_date ws = utc_date t \<and>
    int (length (filter (\<lambda>x. utc_date x = utc_date t) q)) \<le> launches_today_count (roll_window t u)"
proof -
  obtain ws where ws: "launches_today_window_start u = Some ws" "utc_date ws \<le> utc_date t"
    "\<forall>x \<in> set q. utc_date x \<le> utc_date ws"
    "int (length (filter (\<lambda>x. utc_date x = utc_date ws) q)) \<le> launches_today_count u"
    using assms(1) by (auto simp: row_counts_def split: option.splits)
  show ?thesis
  proof (cases "utc_date ws = utc_date t")
    case True
    then show ?thesis using ws by (simp add: roll_window_def is_window_expired_def)
  next
    case False
    then have "filter (\<lambda>x. utc_date x = utc_date t) q = []"
      using ws(2,3) by (auto simp: filter_empty_conv)
    then show ?thesis using ws(1) False
      by (simp add: roll_window_def is_window_expired_def reset_daily_window_def)
  qed
qed

lemma rolled_counts:
  assumes "row_counts t q u" and "\<forall>x \<in> set q. x \<le> t"
  shows "row_counts t q (roll_window t u)"
  using rolled_usage [OF assms] assms(2) utc_date_mono by (fastforce simp: row_counts_def)

text \<open>What an attempt of a launch does, by its outcome.\<close>

lemma check_tenant_quota_cases:
  assumes "is_tenant_root og" and "check_tenant_quota True (Some og) t s = (ok, reasons, s')"
  defines "u \<equiv> roll_window t (get_or_create_usage t (org_pk og) s)"
  shows "if ok then (\<forall>(kind, current, limit) \<in> set (quota_checks og u). check_quota_value current limit) \<and>
           usages s' (org_pk og) = Some (saved_usage t (u\<lparr>concurrent_jobs_count := concurrent_jobs_count u + 1,
             launches_today_count := launches_today_count u + 1\<rparr>))
         else usages s' (org_pk og) = Some u"
  using assms(1,2)
  by (auto simp: check_tenant_quota_def Let_def u_def find_None_iff split: option.splits if_splits)

lemma launch_step:
  assumes root: "is_tenant_root og" and c: "counted og now q (s, fl)" and t: "now \<le> t"
    and step: "tenant_step og (TryLaunch t) (s, fl) = (ls, sf)"
  shows "counted og t (q @ quiet ls) sf"
    and "quiet ls \<noteq> [] \<Longrightarrow> unlimited (tenant_max_daily_launches og) \<or>
      int (length (filter (\<lambda>x. utc_date x = utc_date t) q)) < the (tenant_max_daily_launches og)"
proof -
  let ?u = "roll_window t (get_or_create_usage t (org_pk og) s)"
  obtain ok reasons s' where ck: "check_tenant_quota True (Some og) t s = (ok, reasons, s')"
    and ls: "ls = (if ok then [(t, fl \<noteq> [])] else [])" and sf: "sf = (s', fl)"
    using step by (auto split: prod.splits)
  note later = counted_later [OF c t]
  have q: "\<forall>x \<in> set q. x \<le> t" using later by (simp add: counted_def)
  have dates: "\<forall>x \<in> set q. utc_date x \<le> utc_date t" using q utc_date_mono by blast
  note row = counted_row [OF c t]
  obtain ws where ws: "launches_today_window_start ?u = Some ws" "utc_date ws = utc_date t"
    "int (length (filter (\<lambda>x. utc_date x = utc_date t) q)) \<le> launches_today_count ?u"
    using rolled_usage [OF row q] by blast
  have new: "usages s' (org_pk og) = Some (if ok then ?u\<lparr>concurrent_jobs_count := concurrent_jobs_count ?u + 1,
             launches_today_count := launches_today_count ?u + 1\<rparr> else ?u)"
    using check_tenant_quota_cases [OF root ck] ws(1) by (simp add: saved_usage_def split: if_splits)
  have "row_counts t (q @ quiet ls) (the (usages s' (org_pk og)))"
    using ws dates by (auto simp: new ls row_counts_def)
  moreover have "\<forall>(w, u) \<in> set fl. row_counts t (q @ quiet ls) u"
  proof (cases "fl = []")
    case False
    then have "quiet ls = []" by (simp add: ls)
    then show ?thesis using later by (simp add: counted_def)
  qed simp
  ultimately show "counted og t (q @ quiet ls) sf" using q by (auto simp: counted_def sf new ls)
  show "unlimited (tenant_max_daily_launches og) \<or>
      int (length (filter (\<lambda>x. utc_date x = utc_date t) q)) < the (tenant_max_daily_launches og)" if "quiet ls \<noteq> []"
  proof -
    have ok using that ls by (auto split: if_splits)
    then show ?thesis using check_tenant_quota_cases [OF root ck] ws(3)
      by (auto simp: quota_checks_def check_quota_value_def split: if_splits)
  qed
qed

lemma counted_step:
  assumes root: "is_tenant_root og" and c: "counted og now q (s, fl)"
    and later: "\<forall>t. op_time x = Some t \<longrightarrow> now \<le> t" and step: "tenant_step og x (s, fl) = (ls, sf)"
  defines "now' \<equiv> (case op_time x of None \<Rightarrow> now | Some t \<Rightarrow> t)"
  shows "counted og now' (q @ quiet ls) sf"
proof (cases x)
  case (TryLaunch t)
  then show ?thesis using launch_step(1) [OF root c _ step [unfolded TryLaunch]] later by (simp add: now'_def)
next
  case JobFinished
  then show ?thesis using c step
    by (auto simp: counted_def now'_def on_job_finished_def split: option.splits if_splits)
next
  case (RecalcRead w t)
  have t: "now \<le> t" using later RecalcRead by simp
  show ?thesis using counted_row [OF c t] counted_later [OF c t] step not_of_subset [of w fl]
    by (auto simp: RecalcRead now'_def recalculate_read_def counted_def Let_def)
next
  case (RecalcSave w t hosts running)
  have t: "now \<le> t" using later RecalcSave by simp
  note c' = counted_later [OF c t]
  show ?thesis
  proof (cases "map_of fl w")
    case None
    then show ?thesis using c' step by (auto simp: RecalcSave now'_def)
  next
    case (Some u)
    then have u: "row_counts t q u" using c' by (auto simp: counted_def dest: map_of_SomeD)
    let ?v = "u\<lparr>hosts_count := case hosts of None \<Rightarrow> hosts_count u | Some n \<Rightarrow> n,
      concurrent_jobs_count := case running of None \<Rightarrow> concurrent_jobs_count u | Some n \<Rightarrow> n, last_recalculated_at := Some t\<rparr>"
    have v: "row_counts t q ?v" using u by (simp add: row_counts_def split: option.split_asm)
    then have "usages (recalculate_save u hosts running og t s) (org_pk og) = Some ?v"
      by (simp add: recalculate_save_def Let_def saved_usage_counts [OF v])
    then show ?thesis using c' step Some v not_of_subset [of w fl] by (auto simp: RecalcSave now'_def counted_def)
  qed
next
  case (RecalcDies w)
  then show ?thesis using c step not_of_subset [of w fl] by (auto simp: counted_def now'_def)
qed

definition within_daily :: "organization \<Rightarrow> int list \<Rightarrow> bool" where
  "within_daily og q \<longleftrightarrow> unlimited (tenant_max_daily_launches og) \<or>
     (\<forall>d. int (length (filter (\<lambda>t. utc_date t = d) q)) \<le> the (tenant_max_daily_launches og))"

lemma within_daily_step:
  assumes "is_tenant_root og" and "counted og now q (s, fl)" and "within_daily og q"
    and "\<forall>t. op_time x = Some t \<longrightarrow> now \<le> t" and "tenant_step og x (s, fl) = (ls, sf)"
  shows "within_daily og (q @ quiet ls)"
proof (cases "quiet ls = []")
  case True
  then show ?thesis using assms(3) by simp
next
  case False
  then obtain t where t: "x = TryLaunch t" "quiet ls = [t]"
    using assms(5) by (cases x) (auto split: prod.splits if_splits option.splits)
  then show ?thesis
    using assms(3,4) launch_step(2) [OF assms(1,2) _ assms(5) [unfolded t(1)] False] by (auto simp: within_daily_def)
qed

lemma within_daily_run:
  assumes "is_tenant_root og" and "counted og now q sf" and "within_daily og q"
    and "sorted (now # op_times xs)"
  shows "within_daily og (q @ quiet (fst (tenant_run og xs sf)))"
  using assms
proof (induction xs arbitrary: now q sf)
  case Nil
  then show ?case by simp
next
  case (Cons x xs)
  obtain s fl where sf: "sf = (s, fl)" by fastforce
  obtain ls sf1 where step: "tenant_step og x (s, fl) = (ls, sf1)" by (rule prod.exhaust)
  define now' where "now' = (case op_time x of None \<Rightarrow> now | Some t \<Rightarrow> t)"
  have later: "\<forall>t. op_time x = Some t \<longrightarrow> now \<le> t"
    using Cons.prems(4) by (auto simp: op_times_def map_filter_def)
  have "sorted (now' # op_times xs)"
    using Cons.prems(4) by (auto simp: now'_def op_times_def map_filter_def split: option.splits if_splits)
  moreover have "counted og now' (q @ quiet ls) sf1"
    using counted_step [OF Cons.prems(1) Cons.prems(2) [unfolded sf] later step] by (simp add: now'_def)
  moreover have "within_daily og (q @ quiet ls)"
    using within_daily_step [OF Cons.prems(1) Cons.prems(2) [unfolded sf] Cons.prems(3) later step] .
  ultimately have "within_daily og ((q @ quiet ls) @ quiet (fst (tenant_run og xs sf1)))"
    using Cons.IH Cons.prems(1) by blast
  then show ?case using step sf by (simp add: split_beta)
qed

text \<open>
  C13: However the attempts, the ends of jobs and the reads and saves of any number of
  recalculations are interleaved, as long as the clock does not run backwards: on no day does a
  tenant get more launches than its daily quota while no recalculation is between its read
  and its save. (A launch in between can be forgotten by the save: see
  \<open>recalculation_forgets_launch\<close>.)
\<close>

theorem daily_launches_bounded:
  assumes "is_tenant_root og" and "tenant_max_daily_launches og = Some limit" and "0 < limit"
    and "sorted (op_times ops)"
  shows "int (length (filter (\<lambda>(t, overlapped). utc_date t = d \<and> \<not> overlapped)
           (fst (tenant_run og ops (empty_tenancy, []))))) \<le> limit"
proof -
  have "\<exists>now. counted og now [] (empty_tenancy, []) \<and> sorted (now # op_times ops)"
  proof (cases "op_times ops")
    case Nil
    then show ?thesis by (auto simp: counted_def empty_tenancy_def)
  next
    case (Cons t ts)
    then show ?thesis using assms(4) by (auto simp: counted_def empty_tenancy_def intro!: exI [of _ t])
  qed
  then obtain now where "counted og now [] (empty_tenancy, [])" "sorted (now # op_times ops)" by blast
  note run = within_daily_run [OF assms(1) this(1) _ this(2)]
  have "length (filter (\<lambda>(t, overlapped). utc_date t = d \<and> \<not> overlapped) ls) = length (filter (\<lambda>t. utc_date t = d) (quiet ls))" for ls
    by (induction ls) (auto split: if_split_asm)
  then show ?thesis using run assms(2,3) by (auto simp: within_daily_def unlimited_def)
qed

text \<open>
  \<open>hex_color_match\<close>: a newline after the six digits is accepted, since \<open>$\<close> matches before it.
\<close>

lemma hex_color_accepts_newline:
  "is_valid_hex_color (JStr (''#00FF00'' @ [newline]))"
  by (simp add: is_valid_hex_color_def hex_color_match_def is_hex_def Let_def)

subsection \<open>Witness\<close>

definition small_tenant :: organization where
  "small_tenant = \<lparr>org_pk = 7, org_name = ''acme'', is_tenant_root = True,
     tenant_max_concurrent_jobs = None, tenant_max_daily_launches = Some 2, tenant_max_hosts = None,
     tenant_max_storage_mb = None, tenant_isolation_strict = True, tenant_api_rate_limit = Some 5\<rparr>"

definition busy_day :: "tenant_op list" where
  "busy_day = [TryLaunch 10, JobFinished, RecalcRead 1 15, RecalcSave 1 18 (Some 3) None, TryLaunch 20, TryLaunch 30, TryLaunch (day + 5)]"

theorem daily_launches_bounded_witness:
  "fst (tenant_run small_tenant busy_day (empty_tenancy, [])) = [(10, False), (20, False), (day + 5, False)] \<and>
   int (length (filter (\<lambda>(t, overlapped). utc_date t = 0 \<and> \<not> overlapped)
     (fst (tenant_run small_tenant busy_day (empty_tenancy, []))))) \<le> 2"
proof
  show "int (length (filter (\<lambda>(t, overlapped). utc_date t = 0 \<and> \<not> overlapped)
     (fst (tenant_run small_tenant busy_day (empty_tenancy, []))))) \<le> 2"
    by (rule daily_launches_bounded)
      (simp_all add: small_tenant_def busy_day_def op_times_def map_filter_def day_def)
  show "fst (tenant_run small_tenant busy_day (empty_tenancy, [])) = [(10, False), (20, False), (day + 5, False)]"
    by code_simp
qed

text \<open>
  The save of a recalculation writes back the count of launches it has read: the launch in between
  is forgotten, and a third one is allowed although the quota is two.
\<close>

lemma recalculation_forgets_launch:
  "fst (tenant_run small_tenant
     [RecalcRead 1 5, TryLaunch 10, RecalcSave 1 15 None None, TryLaunch 20, TryLaunch 30] (empty_tenancy, [])) =
   [(10, True), (20, False), (30, False)]"
  by code_simp

end
