(* ===== verification/TenantGates.thy ===== *)
theory TenantGates
  imports Tenancy
begin

section \<open>The tenant gates of a request\<close>

text \<open>
  Models the two middlewares of \<^verbatim>\<open>forail/main/tenancy/\<close>: the isolation gates of
  \<^verbatim>\<open>isolation.py\<close> (with the session variable of \<^verbatim>\<open>rls.py\<close>) and the rate
  limiter of \<^verbatim>\<open>rate_limit.py\<close> with its token bucket script. Bucket arithmetic is exact,
  over the rationals; the rounding of the script's floating point numbers is left out.
\<close>

subsection \<open>Requests\<close>

record settings =
  tenancy_enabled :: bool
  rls_enabled :: bool
  strict_isolation_enabled :: bool
  rate_limiting_enabled :: bool
  default_api_rate_limit :: int

record user =
  user_id :: int
  is_authenticated :: bool
  is_superuser :: bool
  user_organizations :: "organization list"

text \<open>
  The view of a request: the keyword \<open>organization\<close> and \<open>pk\<close> of the URL, and its model, which
  has an organization column or is \<open>Host\<close>.
\<close>

record view_model =
  has_organization :: bool
  is_host :: bool

record request =
  req_user :: "user option"
  req_path :: string
  kw_organization :: "json option"
  kw_pk :: "json option"
  req_model :: "view_model option"

text \<open>
  What the lookups give: the organization of the row, the inventory of the host and the
  organization of the inventory; each is absent for a missing row and for a null column. A failing
  lookup is caught. \<open>event_raises\<close> tells whether inserting an isolation event raises, which is
  caught, too.
\<close>

record lookups =
  lookup_raises :: bool
  row_organization :: "json \<Rightarrow> int option"
  host_inventory :: "json \<Rightarrow> int option"
  inventory_organization :: "int \<Rightarrow> int option"
  event_raises :: bool

text \<open>The user that the gates look at: authenticated and no superuser.\<close>

definition gated_user :: "request \<Rightarrow> user option" where
  "gated_user r = (case req_user r of
      Some u \<Rightarrow> if is_authenticated u \<and> \<not> is_superuser u then Some u else None
    | None \<Rightarrow> None)"

subsection \<open>The session variable\<close>

definition resolve_tenant_org :: "settings \<Rightarrow> request \<Rightarrow> organization option" where
  "resolve_tenant_org cfg r =
     (if \<not> tenancy_enabled cfg then None
      else if \<not> rls_enabled cfg then None
      else case gated_user r of
        None \<Rightarrow> None
      | Some u \<Rightarrow> (case filter is_tenant_root (user_organizations u) of [] \<Rightarrow> None | og # _ \<Rightarrow> Some og))"

definition tenant_id_value :: "int option \<Rightarrow> string" where
  "tenant_id_value org_id = (case org_id of None \<Rightarrow> [] | Some i \<Rightarrow> if i = 0 then [] else int_str i)"

text \<open>
  \<open>__call__\<close>: the tenant stashed on the request, the session variable while the response is made,
  and the variable afterwards. \<open>set_ok\<close> is false when setting the variable raises.
\<close>

definition isolation_call :: "settings \<Rightarrow> bool \<Rightarrow> request \<Rightarrow> string \<Rightarrow> organization option \<times> string \<times> string" where
  "isolation_call cfg set_ok r var =
     (case resolve_tenant_org cfg r of
        None \<Rightarrow> (None, var, var)
      | Some og \<Rightarrow>
          if set_ok then (Some og, tenant_id_value (Some (org_pk og)), [])
          else (None, var, []))"

subsection \<open>Strict isolation\<close>

definition exempt_prefixes :: "string list" where
  "exempt_prefixes =
     [''/api/v2/config/'', ''/api/v2/ping/'', ''/api/v2/me/'', ''/api/v2/auth/'', ''/api/v2/tokens/'',
      ''/api/v2/branding/'', ''/api/v2/tenants/'', ''/api/v2/tenant_quota_events/'',
      ''/api/v2/tenant_isolation_events/'', ''/api/login/'', ''/sso/'']"

definition should_exempt_isolation :: "string \<Rightarrow> bool" where
  "should_exempt_isolation path \<longleftrightarrow> path = [] \<or> list_ex (starts_with path) exempt_prefixes"

definition make_isolation_decision :: "bool \<Rightarrow> bool \<Rightarrow> bool \<Rightarrow> bool \<times> bool" where
  "make_isolation_decision user_org_strict global_strict_enabled is_cross_tenant =
     (if \<not> is_cross_tenant then (False, False)
      else (user_org_strict \<and> global_strict_enabled, True))"

definition nonzero :: "int option \<Rightarrow> int option" where
  "nonzero i = (case i of None \<Rightarrow> None | Some n \<Rightarrow> if n = 0 then None else Some n)"

definition host_organization :: "lookups \<Rightarrow> json \<Rightarrow> int option" where
  "host_organization db pk =
     (case nonzero (host_inventory db pk) of
        None \<Rightarrow> None
      | Some inv_id \<Rightarrow> nonzero (inventory_organization db inv_id))"

definition resolve_target_org_id :: "lookups \<Rightarrow> request \<Rightarrow> int option" where
  "resolve_target_org_id db r =
     (case Option.bind (kw_organization r) py_int of
        Some i \<Rightarrow> Some i
      | None \<Rightarrow>
          (case kw_pk r of
             None \<Rightarrow> None
           | Some pk \<Rightarrow>
               (case req_model r of
                  None \<Rightarrow> None
                | Some vm \<Rightarrow>
                    if lookup_raises db then None
                    else (case (if has_organization vm then row_organization db pk else None) of
                            Some obj \<Rightarrow> nonzero (Some obj)
                          | None \<Rightarrow> if is_host vm then host_organization db pk else None))))"

definition path_parts :: "string \<Rightarrow> string list" where
  "path_parts path = filter (\<lambda>p. p \<noteq> []) (split CHR ''/'' (strip_char CHR ''/'' path))"

definition get_resource_type :: "string \<Rightarrow> string" where
  "get_resource_type path =
     (let parts = path_parts path in
      if length parts \<ge> 3 \<and> parts ! 0 = ''api'' then take 64 (parts ! 2) else [])"

definition get_resource_id :: "string \<Rightarrow> int option" where
  "get_resource_id path =
     (let parts = path_parts path in
      if length parts \<ge> 4 \<and> parts ! 0 = ''api'' then read_int (parts ! 3) else None)"

record isolation_event =
  ie_user :: int
  ie_user_organization :: int
  ie_accessed :: int
  ie_resource_type :: string
  ie_resource_id :: "int option"
  ie_path :: string
  ie_blocked :: bool

definition emit_isolation_event :: "lookups \<Rightarrow> user \<Rightarrow> request \<Rightarrow> organization \<Rightarrow> int \<Rightarrow> bool \<Rightarrow> isolation_event option" where
  "emit_isolation_event db u r og target blocked =
     (if event_raises db then None
      else Some \<lparr>ie_user = user_id u, ie_user_organization = org_pk og, ie_accessed = target,
        ie_resource_type = get_resource_type (req_path r), ie_resource_id = get_resource_id (req_path r),
        ie_path = take 1024 (req_path r), ie_blocked = blocked\<rparr>)"

text \<open>
  \<open>process_view\<close> for a request with the stashed tenant: whether it answers 403, and the event.
\<close>

definition process_view :: "settings \<Rightarrow> lookups \<Rightarrow> request \<Rightarrow> organization option \<Rightarrow> bool \<times> isolation_event option" where
  "process_view cfg db r stashed =
     (if \<not> tenancy_enabled cfg then (False, None)
      else case gated_user r of
        None \<Rightarrow> (False, None)
      | Some u \<Rightarrow>
          if should_exempt_isolation (req_path r) then (False, None)
          else case stashed of
            None \<Rightarrow> (False, None)
          | Some og \<Rightarrow>
              (case resolve_target_org_id db r of
                 None \<Rightarrow> (False, None)
               | Some target \<Rightarrow>
                   (let is_cross_tenant = (target \<noteq> org_pk og);
                        (should_block, should_audit) =
                          make_isolation_decision (tenant_isolation_strict og) (strict_isolation_enabled cfg) is_cross_tenant
                    in (should_block,
                        if should_audit then emit_isolation_event db u r og target should_block else None))))"

subsection \<open>The token bucket\<close>

record bucket =
  tokens :: rat
  last_refill :: rat
  expires_at :: rat

definition compute_token_bucket_params :: "int \<Rightarrow> int \<times> int" where
  "compute_token_bucket_params rate_limit =
     (if rate_limit \<le> 0 then (0, 0) else (rate_limit * 2, rate_limit))"

text \<open>
  The script, for one token. The key is gone from the store once it has expired.
\<close>

definition take_token :: "int \<Rightarrow> int \<Rightarrow> rat \<Rightarrow> bucket option \<Rightarrow> bool \<times> bucket" where
  "take_token max_tokens refill_rate now stored =
     (let live = (case stored of Some b \<Rightarrow> if now < expires_at b then Some b else None | None \<Rightarrow> None);
          (tk, last) = (case live of None \<Rightarrow> (of_int max_tokens, now) | Some b \<Rightarrow> (tokens b, last_refill b));
          elapsed = max 0 (now - last);
          tk1 = min (of_int max_tokens) (tk + elapsed * of_int refill_rate);
          allowed = (tk1 \<ge> 1);
          tk2 = (if allowed then tk1 - 1 else tk1)
      in (allowed, \<lparr>tokens = tk2, last_refill = now,
           expires_at = now + (of_int \<lceil>(of_int max_tokens :: rat) / of_int refill_rate\<rceil> + 10)\<rparr>))"

datatype rate_answer = PassThrough | Throttled int

definition tenant_rate_limit :: "settings \<Rightarrow> organization \<Rightarrow> int" where
  "tenant_rate_limit cfg og =
     (let own = (case tenant_api_rate_limit og of None \<Rightarrow> 0 | Some n \<Rightarrow> n)
      in if own = 0 then default_api_rate_limit cfg else own)"

text \<open>\<open>round\<close> of a positive rational: halves go to the even neighbour.\<close>

definition py_round :: "rat \<Rightarrow> int" where
  "py_round x = (let f = \<lfloor>x\<rfloor>; r = x - of_int f in
     if r < 1 / 2 then f else if r > 1 / 2 then f + 1 else if even f then f else f + 1)"

text \<open>
  The middleware. \<open>redis_ok\<close> is false when there is no client or the call raises. The store maps
  tenants to buckets.
\<close>

definition rate_limit_call ::
  "settings \<Rightarrow> bool \<Rightarrow> rat \<Rightarrow> request \<Rightarrow> organization option \<Rightarrow> (int \<Rightarrow> bucket option) \<Rightarrow>
     rate_answer \<times> (int \<Rightarrow> bucket option)" where
  "rate_limit_call cfg redis_ok now r stashed store =
     (if \<not> tenancy_enabled cfg \<or> \<not> rate_limiting_enabled cfg then (PassThrough, store)
      else if gated_user r = None then (PassThrough, store)
      else case stashed of
        None \<Rightarrow> (PassThrough, store)
      | Some og \<Rightarrow>
          (let rate_limit = tenant_rate_limit cfg og;
               (max_tokens, refill_rate) = compute_token_bucket_params rate_limit
           in if rate_limit = 0 \<or> max_tokens \<le> 0 \<or> \<not> redis_ok then (PassThrough, store)
              else (let (allowed, b) = take_token max_tokens refill_rate now (store (org_pk og));
                        store1 = store(org_pk og := Some b)
                    in (if allowed then PassThrough
                        else Throttled (max 1 (py_round (1 / of_int refill_rate))), store1))))"
subsection \<open>The bucket as a counter\<close>

text \<open>The tokens there are at a time, before one is taken.\<close>

definition level :: "int \<Rightarrow> int \<Rightarrow> rat \<Rightarrow> bucket option \<Rightarrow> rat" where
  "level m r now stored =
     (case stored of
        None \<Rightarrow> of_int m
      | Some b \<Rightarrow> if now < expires_at b then min (of_int m) (tokens b + max 0 (now - last_refill b) * of_int r)
                  else of_int m)"

lemma take_token_level:
  "fst (take_token m r now s) \<longleftrightarrow> 1 \<le> level m r now s"
  "tokens (snd (take_token m r now s)) = level m r now s - (if 1 \<le> level m r now s then 1 else 0)"
  "last_refill (snd (take_token m r now s)) = now"
  "expires_at (snd (take_token m r now s)) = now + (of_int \<lceil>(of_int m :: rat) / of_int r\<rceil> + 10)"
  by (auto simp: take_token_def level_def Let_def split: option.splits)

text \<open>A bucket as the script leaves it behind.\<close>

definition bucket_ok :: "int \<Rightarrow> int \<Rightarrow> bucket \<Rightarrow> bool" where
  "bucket_ok m r b \<longleftrightarrow> 0 \<le> tokens b \<and> tokens b \<le> of_int m \<and>
     expires_at b = last_refill b + (of_int \<lceil>(of_int m :: rat) / of_int r\<rceil> + 10)"

lemma level_range:
  assumes "0 \<le> m" and "0 < r" and "pred_option (bucket_ok m r) s"
  shows "0 \<le> level m r now s" "level m r now s \<le> of_int m"
  using assms by (cases s; auto simp: level_def bucket_ok_def)+

lemma take_token_ok:
  assumes "0 \<le> m" and "0 < r" and "pred_option (bucket_ok m r) s"
  shows "bucket_ok m r (snd (take_token m r now s))"
  using level_range [OF assms, where now = now] by (auto simp: bucket_ok_def take_token_level)

text \<open>When the key has expired the bucket would have been full again.\<close>

lemma expired_full:
  assumes "0 < r" and "bucket_ok m r b" and "expires_at b \<le> now"
  shows "of_int m \<le> tokens b + (now - last_refill b) * of_int r"
proof -
  have "(of_int m :: rat) / of_int r \<le> of_int \<lceil>(of_int m :: rat) / of_int r\<rceil>" by simp
  also have "\<dots> \<le> now - last_refill b" using assms(2,3) by (simp add: bucket_ok_def)
  finally have "of_int m \<le> (now - last_refill b) * of_int r"
    using assms(1) by (simp add: pos_divide_le_eq)
  then show ?thesis using assms(2) by (simp add: bucket_ok_def)
qed

lemma level_some:
  assumes "0 < r" and "bucket_ok m r b" and "last_refill b \<le> now"
  shows "level m r now (Some b) = min (of_int m) (tokens b + (now - last_refill b) * of_int r)"
  using assms expired_full [OF assms(1,2), of now] by (auto simp: level_def)

subsection \<open>Runs\<close>

fun bucket_run :: "int \<Rightarrow> int \<Rightarrow> rat list \<Rightarrow> bucket option \<Rightarrow> bool list" where
  "bucket_run m r [] s = []"
| "bucket_run m r (t # ts) s =
     (let (ok, b) = take_token m r t s in ok # bucket_run m r ts (Some b))"

lemma bucket_run_bounded:
  assumes "0 \<le> m" and "0 < r" and "pred_option (bucket_ok m r) s"
    and "sorted (t # ts)" and "\<forall>x \<in> set (t # ts). x \<le> e"
  shows "of_nat (length (filter id (bucket_run m r (t # ts) s))) \<le> level m r t s + (e - t) * of_int r"
  using assms
proof (induction ts arbitrary: t s)
  case Nil
  then show ?case
    using level_range [OF Nil.prems(1-3), where now = t]
    by (auto simp: take_token_level split_beta intro: add_nonneg_nonneg add_increasing2)
next
  case (Cons u ts)
  define b where "b = snd (take_token m r t s)"
  have b: "bucket_ok m r b" "last_refill b = t"
    using take_token_ok [OF Cons.prems(1-3)] by (simp_all add: b_def take_token_level)
  have tu: "t \<le> u" using Cons.prems(4) by simp
  have "of_nat (length (filter id (bucket_run m r (u # ts) (Some b)))) \<le> level m r u (Some b) + (e - u) * of_int r"
    using Cons.prems b(1) by (intro Cons.IH) auto
  also have "level m r u (Some b) \<le> tokens b + (u - t) * of_int r"
    using level_some [OF Cons.prems(2) b(1), of u] b(2) tu by simp
  finally have rest: "of_nat (length (filter id (bucket_run m r (u # ts) (Some b)))) \<le> tokens b + (e - t) * of_int r"
    by (simp add: algebra_simps)
  define n where "n = length (filter id (bucket_run m r (u # ts) (Some b)))"
  have step: "length (filter id (bucket_run m r (t # u # ts) s)) = (if 1 \<le> level m r t s then 1 else 0) + n"
    unfolding bucket_run.simps(2) [of m r t] n_def
    by (simp add: b_def take_token_level split_beta del: bucket_run.simps)
  have "tokens b = level m r t s - (if 1 \<le> level m r t s then 1 else 0)"
    by (simp add: b_def take_token_level)
  with rest show ?case unfolding step n_def [symmetric] by (simp split: if_splits)
qed

text \<open>The reference: a bucket that never expires.\<close>

definition ideal_take :: "int \<Rightarrow> int \<Rightarrow> rat \<Rightarrow> rat \<times> rat \<Rightarrow> bool \<times> rat \<times> rat" where
  "ideal_take m r now b =
     (let tk = min (of_int m) (fst b + (now - snd b) * of_int r)
      in (1 \<le> tk, (if 1 \<le> tk then tk - 1 else tk), now))"

fun ideal_run :: "int \<Rightarrow> int \<Rightarrow> rat list \<Rightarrow> rat \<times> rat \<Rightarrow> bool list" where
  "ideal_run m r [] b = []"
| "ideal_run m r (t # ts) b = (let (ok, b') = ideal_take m r t b in ok # ideal_run m r ts b')"

lemma bucket_run_ideal:
  assumes "0 \<le> m" and "0 < r" and "bucket_ok m r b" and "sorted (last_refill b # ts)"
  shows "bucket_run m r ts (Some b) = ideal_run m r ts (tokens b, last_refill b)"
  using assms
proof (induction ts arbitrary: b)
  case Nil
  then show ?case by simp
next
  case (Cons t ts)
  define b' where "b' = snd (take_token m r t (Some b))"
  have lvl: "level m r t (Some b) = min (of_int m) (tokens b + (t - last_refill b) * of_int r)"
    using Cons.prems by (intro level_some) auto
  have ok: "bucket_ok m r b'" using Cons.prems by (auto simp: b'_def intro: take_token_ok)
  have eq: "ideal_take m r t (tokens b, last_refill b) =
      (fst (take_token m r t (Some b)), tokens b', last_refill b')"
    by (simp add: ideal_take_def Let_def b'_def take_token_level lvl)
  have "bucket_run m r ts (Some b') = ideal_run m r ts (tokens b', last_refill b')"
    using Cons.prems ok by (intro Cons.IH) (auto simp: b'_def take_token_level)
  then show ?case by (simp add: eq split_beta flip: b'_def)
qed

subsection \<open>The limiter over many tenants\<close>

text \<open>Requests with their times and tenants, in the order they reach the limiter.\<close>

fun rate_trace ::
  "settings \<Rightarrow> (rat \<times> request \<times> organization) list \<Rightarrow> (int \<Rightarrow> bucket option) \<Rightarrow> (int \<times> rate_answer) list" where
  "rate_trace cfg [] store = []"
| "rate_trace cfg ((t, r, og) # rs) store =
     (let (a, store1) = rate_limit_call cfg True t r (Some og) store
      in (org_pk og, a) # rate_trace cfg rs store1)"

definition limiter_on :: "settings \<Rightarrow> organization \<Rightarrow> bool" where
  "limiter_on cfg og \<longleftrightarrow> tenancy_enabled cfg \<and> rate_limiting_enabled cfg \<and> 0 < tenant_rate_limit cfg og"

definition tenant_requests :: "int \<Rightarrow> (rat \<times> request \<times> organization) list \<Rightarrow> (rat \<times> request \<times> organization) list" where
  "tenant_requests pk rs = filter (\<lambda>(t, r, og). org_pk og = pk) rs"

lemma rate_limit_call_gated:
  assumes "limiter_on cfg og" and "gated_user r \<noteq> None"
  defines "L \<equiv> tenant_rate_limit cfg og"
  shows "rate_limit_call cfg True t r (Some og) store =
    (if fst (take_token (L * 2) L t (store (org_pk og))) then PassThrough
     else Throttled (max 1 (py_round (1 / of_int L))),
     store(org_pk og := Some (snd (take_token (L * 2) L t (store (org_pk og))))))"
  using assms by (auto simp: rate_limit_call_def limiter_on_def compute_token_bucket_params_def Let_def split_beta)

lemma rate_limit_call_other:
  "org_pk og \<noteq> k \<Longrightarrow> snd (rate_limit_call cfg ok t r (Some og) store) k = store k"
  by (auto simp: rate_limit_call_def Let_def split_beta)

lemma rate_trace_bucket:
  assumes "limiter_on cfg og"
    and "\<forall>(t, r, o') \<in> set (tenant_requests (org_pk og) rs). o' = og \<and> gated_user r \<noteq> None"
  defines "L \<equiv> tenant_rate_limit cfg og"
  shows "map (\<lambda>x. snd x = PassThrough) (filter (\<lambda>x. fst x = org_pk og) (rate_trace cfg rs store)) =
    bucket_run (L * 2) L (map fst (tenant_requests (org_pk og) rs)) (store (org_pk og))"
  using assms(2)
proof (induction rs arbitrary: store)
  case Nil
  then show ?case by (simp add: tenant_requests_def)
next
  case (Cons x rs)
  obtain t r o' where x: "x = (t, r, o')" by (cases x)
  show ?case
  proof (cases "org_pk o' = org_pk og")
    case True
    then have mine: "o' = og" "gated_user r \<noteq> None" using Cons.prems by (auto simp: x tenant_requests_def)
    have "map (\<lambda>x. snd x = PassThrough) (filter (\<lambda>x. fst x = org_pk og)
        (rate_trace cfg rs (snd (rate_limit_call cfg True t r (Some og) store)))) =
      bucket_run (L * 2) L (map fst (tenant_requests (org_pk og) rs))
        (snd (rate_limit_call cfg True t r (Some og) store) (org_pk og))"
      using Cons.prems by (intro Cons.IH) (auto simp: x tenant_requests_def)
    then show ?thesis using mine rate_limit_call_gated [OF assms(1) mine(2), of t store]
      by (simp add: x tenant_requests_def split_beta L_def)
  next
    case False
    have "map (\<lambda>x. snd x = PassThrough) (filter (\<lambda>x. fst x = org_pk og)
        (rate_trace cfg rs (snd (rate_limit_call cfg True t r (Some o') store)))) =
      bucket_run (L * 2) L (map fst (tenant_requests (org_pk og) rs))
        (snd (rate_limit_call cfg True t r (Some o') store) (org_pk og))"
      using Cons.prems False by (intro Cons.IH) (auto simp: x tenant_requests_def)
    then show ?thesis using False by (simp add: x tenant_requests_def split_beta rate_limit_call_other)
  qed
qed

text \<open>
  In any stretch of time the limiter lets a tenant through at most twice its rate plus the rate
  times the length of the stretch, whatever other tenants do in between and whatever bucket the
  script has left behind.
\<close>

theorem rate_limit_bounded:
  assumes "limiter_on cfg og"
    and "\<forall>(t, r, o') \<in> set (tenant_requests (org_pk og) rs). o' = og \<and> gated_user r \<noteq> None \<and> s \<le> t \<and> t \<le> e"
    and "sorted (map fst (tenant_requests (org_pk og) rs))" and "s \<le> e"
    and "pred_option (bucket_ok (tenant_rate_limit cfg og * 2) (tenant_rate_limit cfg og)) (store (org_pk og))"
  shows "of_nat (length (filter (\<lambda>x. fst x = org_pk og \<and> snd x = PassThrough) (rate_trace cfg rs store)))
    \<le> (of_int (tenant_rate_limit cfg og) :: rat) * (2 + (e - s))"
proof -
  let ?L = "tenant_rate_limit cfg og" and ?ts = "map fst (tenant_requests (org_pk og) rs)"
  have L: "0 < ?L" using assms(1) by (simp add: limiter_on_def)
  have len: "length (filter (\<lambda>x. fst x = org_pk og \<and> snd x = PassThrough) xs) =
      length (filter id (map (\<lambda>x. snd x = PassThrough) (filter (\<lambda>x. fst x = org_pk og) xs)))"
    for xs :: "(int \<times> rate_answer) list"
    by (induction xs) auto
  have run: "length (filter (\<lambda>x. fst x = org_pk og \<and> snd x = PassThrough) (rate_trace cfg rs store)) =
      length (filter id (bucket_run (?L * 2) ?L ?ts (store (org_pk og))))"
    unfolding len using rate_trace_bucket [OF assms(1), of rs store] assms(2) by fastforce
  show ?thesis
  proof (cases ?ts)
    case Nil
    then show ?thesis unfolding run using L assms(4) by simp
  next
    case (Cons t ts)
    have range: "s \<le> t" "\<forall>x \<in> set (t # ts). x \<le> e"
      using assms(2) Cons by (metis (no_types, lifting) case_prodE fst_conv in_set_conv_nth list.set_intros(1) length_map nth_map nth_mem)+
    have "of_nat (length (filter id (bucket_run (?L * 2) ?L (t # ts) (store (org_pk og))))) \<le>
        level (?L * 2) ?L t (store (org_pk og)) + (e - t) * of_int ?L"
      using L assms(3,5) Cons range by (intro bucket_run_bounded) auto
    also have "\<dots> \<le> of_int (?L * 2) + (e - s) * of_int ?L"
      using L range(1) level_range [OF _ _ assms(5), where now = t] by (intro add_mono mult_right_mono) auto
    finally show ?thesis unfolding run Cons by (simp add: algebra_simps)
  qed
qed

text \<open>
  C22: The expiry of the keys is not observable. On times that do not go backwards the script
  answers as a bucket that is never dropped, which starts full.
\<close>

theorem expiry_unobservable:
  assumes "0 < rate" and "sorted (t # ts)"
  shows "bucket_run (rate * 2) rate (t # ts) None = ideal_run (rate * 2) rate (t # ts) (of_int (rate * 2), t)"
proof -
  define b where "b = snd (take_token (rate * 2) rate t None)"
  have b: "bucket_ok (rate * 2) rate b" "last_refill b = t"
    using assms(1) by (auto simp: b_def take_token_level intro: take_token_ok)
  have "bucket_run (rate * 2) rate ts (Some b) = ideal_run (rate * 2) rate ts (tokens b, last_refill b)"
    using assms b by (intro bucket_run_ideal) auto
  moreover have "ideal_take (rate * 2) rate t (of_int (rate * 2), t) =
      (fst (take_token (rate * 2) rate t None), tokens b, last_refill b)"
    by (simp add: ideal_take_def Let_def b_def take_token_level level_def)
  ultimately show ?thesis by (simp add: split_beta flip: b_def)
qed

subsection \<open>The isolation gate\<close>

text \<open>The request crosses tenants: its user has a tenant, and the target resolves to another one.\<close>

definition crosses_tenants :: "lookups \<Rightarrow> request \<Rightarrow> organization \<Rightarrow> bool" where
  "crosses_tenants db r og \<longleftrightarrow> \<not> should_exempt_isolation (req_path r) \<and>
     (\<exists>u rest target. gated_user r = Some u \<and> filter is_tenant_root (user_organizations u) = og # rest \<and>
        resolve_target_org_id db r = Some target \<and> target \<noteq> org_pk og)"

text \<open>
  C25: With both gates in place a request is answered 403 exactly when it crosses tenants, the user's
  tenant is strict, and tenancy, strict isolation and also row-level security are switched on and the
  session variable could be set, whether or not the event can be stored; a request that crosses is
  recorded exactly under the same switches but strictness, and if the event can be stored; and
  the record says whether the request was blocked.
\<close>

theorem strict_isolation_exact:
  "fst (process_view cfg db r (fst (isolation_call cfg ok r var))) =
     (\<exists>og. crosses_tenants db r og \<and> tenancy_enabled cfg \<and> rls_enabled cfg \<and> ok \<and>
        tenant_isolation_strict og \<and> strict_isolation_enabled cfg) \<and>
   (snd (process_view cfg db r (fst (isolation_call cfg ok r var))) \<noteq> None) =
     (\<exists>og. crosses_tenants db r og \<and> tenancy_enabled cfg \<and> rls_enabled cfg \<and> ok \<and> \<not> event_raises db) \<and>
   map_option ie_blocked (snd (process_view cfg db r (fst (isolation_call cfg ok r var)))) \<in>
     {None, Some (fst (process_view cfg db r (fst (isolation_call cfg ok r var))))}"
proof (cases "tenancy_enabled cfg \<and> rls_enabled cfg \<and> ok")
  case False
  then have "process_view cfg db r (fst (isolation_call cfg ok r var)) = (False, None)"
    by (auto simp: process_view_def isolation_call_def resolve_tenant_org_def split: option.splits list.splits)
  then show ?thesis using False by auto
next
  case True
  note defs = process_view_def isolation_call_def resolve_tenant_org_def crosses_tenants_def
    make_isolation_decision_def emit_isolation_event_def Let_def
  show ?thesis
  proof (cases "gated_user r")
    case None
    then show ?thesis using True by (simp add: defs)
  next
    case (Some u)
    then show ?thesis using True
      by (cases "filter is_tenant_root (user_organizations u)"; cases "resolve_target_org_id db r")
        (auto simp: defs)
  qed
qed

text \<open>
  With row-level security switched off the strict gate and the limiter see no tenant: nothing is
  blocked, recorded or throttled, whatever the other switches say.
\<close>

lemma gates_need_rls:
  assumes "\<not> rls_enabled cfg"
  shows "process_view cfg db r (fst (isolation_call cfg ok r var)) = (False, None)"
    and "rate_limit_call cfg redis_ok now r (fst (isolation_call cfg ok r var)) store = (PassThrough, store)"
  using assms by (auto simp: process_view_def isolation_call_def resolve_tenant_org_def rate_limit_call_def
      split: option.splits)

text \<open>The session variable never survives a request of a tenant user.\<close>

lemma session_variable_cleared:
  "resolve_tenant_org cfg r \<noteq> None \<Longrightarrow> snd (snd (isolation_call cfg ok r var)) = []"
  by (auto simp: isolation_call_def)

text \<open>Waiting for the announced second is enough after a request was throttled.\<close>

lemma retry_after_suffices:
  assumes "0 < rate" and "pred_option (bucket_ok (rate * 2) rate) s"
    and "\<not> fst (take_token (rate * 2) rate now s)"
  shows "fst (take_token (rate * 2) rate (now + 1) (Some (snd (take_token (rate * 2) rate now s))))"
proof -
  let ?b = "snd (take_token (rate * 2) rate now s)"
  have ok: "bucket_ok (rate * 2) rate ?b" using assms(1,2) by (intro take_token_ok) auto
  have "level (rate * 2) rate (now + 1) (Some ?b) = min (of_int (rate * 2)) (tokens ?b + 1 * of_int rate)"
    using level_some [OF assms(1) ok, of "now + 1"] by (simp add: take_token_level(3))
  moreover have "(1 :: rat) \<le> of_int rate" using assms(1) by simp
  ultimately show ?thesis using ok by (simp add: take_token_level(1) bucket_ok_def)
qed

lemma announced_wait:
  assumes "0 < rate"
  shows "max 1 (py_round (1 / of_int rate)) = 1"
proof -
  have "(1 :: rat) / of_int rate \<le> 1" "(0 :: rat) \<le> 1 / of_int rate"
    using assms by simp_all
  moreover have "py_round x \<le> 1" if "0 \<le> x" "x \<le> 1" for x
  proof (cases "x = 1")
    case False
    then have "\<lfloor>x\<rfloor> = 0" using that by (simp add: floor_eq_iff)
    then show ?thesis by (simp add: py_round_def Let_def)
  qed (simp add: py_round_def)
  ultimately show ?thesis by simp
qed

text \<open>
  Times that go backwards, as the clocks of two application servers can, refill the bucket twice for
  the same stretch of time: five requests pass although four tokens and no time is left.
\<close>

lemma backward_clock_refills:
  "bucket_run 4 2 [10, 10, 10, 10, 10, 9, 10] None = [True, True, True, True, False, False, True]"
  by code_simp

subsection \<open>Witnesses\<close>

definition on_settings :: settings where
  "on_settings = \<lparr>tenancy_enabled = True, rls_enabled = True, strict_isolation_enabled = True,
     rate_limiting_enabled = True, default_api_rate_limit = 0\<rparr>"

definition tenant_user :: user where
  "tenant_user = \<lparr>user_id = 3, is_authenticated = True, is_superuser = False, user_organizations = [small_tenant]\<rparr>"

definition some_request :: request where
  "some_request = \<lparr>req_user = Some tenant_user, req_path = ''/api/v2/hosts/5/'', kw_organization = None,
     kw_pk = Some (JStr ''5''), req_model = Some \<lparr>has_organization = False, is_host = True\<rparr>\<rparr>"

theorem rate_limit_bounded_witness:
  "of_nat (length (filter (\<lambda>x. fst x = 7 \<and> snd x = PassThrough)
     (rate_trace on_settings (replicate 30 (1, some_request, small_tenant)) (\<lambda>_. None)))) \<le> (10 :: rat)"
proof -
  have lim: "limiter_on on_settings small_tenant" "tenant_rate_limit on_settings small_tenant = 5"
    by (simp_all add: limiter_on_def on_settings_def small_tenant_def tenant_rate_limit_def)
  have "sorted (map fst (tenant_requests (org_pk small_tenant) (replicate 30 (1 :: rat, some_request, small_tenant))))"
    by (simp add: tenant_requests_def)
  moreover have "\<forall>(t, r, o') \<in> set (tenant_requests (org_pk small_tenant) (replicate 30 (1 :: rat, some_request, small_tenant))).
      o' = small_tenant \<and> gated_user r \<noteq> None \<and> 1 \<le> t \<and> t \<le> 1"
    by (auto simp: tenant_requests_def some_request_def gated_user_def tenant_user_def)
  ultimately have "of_nat (length (filter (\<lambda>x. fst x = org_pk small_tenant \<and> snd x = PassThrough)
      (rate_trace on_settings (replicate 30 (1, some_request, small_tenant)) (\<lambda>_. None)))) \<le>
      (of_int (tenant_rate_limit on_settings small_tenant) :: rat) * (2 + (1 - 1))"
    using rate_limit_bounded [OF lim(1), of "replicate 30 (1, some_request, small_tenant)" 1 1 "\<lambda>_. None"] by simp
  moreover have "org_pk small_tenant = 7" by (simp add: small_tenant_def)
  ultimately show ?thesis by (simp add: lim(2))
qed

theorem expiry_unobservable_witness:
  "bucket_run 4 2 [0, 0, 0, 0, 0, 1, 100] None = [True, True, True, True, False, True, True] \<and>
   ideal_run 4 2 [0, 0, 0, 0, 0, 1, 100] (4, 0) = [True, True, True, True, False, True, True]"
proof -
  have "bucket_run 4 2 [0, 0, 0, 0, 0, 1, 100] None = [True, True, True, True, False, True, True]"
    by code_simp
  moreover have "sorted [0, 0, 0, 0, 0, 1, 100 :: rat]" by simp
  ultimately show ?thesis using expiry_unobservable [of 2 0 "[0, 0, 0, 0, 1, 100]"] by simp
qed

end
