(* ===== verification/Policy.thy ===== *)
theory Policy
  imports PyValues
begin

section \<open>Policies that gate a launch\<close>

text \<open>
  Models \<^verbatim>\<open>forail/main/policy/\<close> (the launch context and the evaluation of
  \<^verbatim>\<open>evaluator.py\<close>, the client of \<^verbatim>\<open>opa_client.py\<close>) and the helpers of
  \<^verbatim>\<open>forail/main/models/policy.py\<close>. The policy server is an argument: what a POST to a
  URL with a document answers.
\<close>

subsection \<open>Enforcement\<close>

datatype enforcement = ENone | EWarn | EEnforce

datatype fail_mode = FailAllow | FailDeny

definition effective_enforcement :: "bool \<Rightarrow> enforcement \<Rightarrow> enforcement \<Rightarrow> enforcement" where
  "effective_enforcement global_enabled org_enforcement policy_enforcement =
     (if \<not> global_enabled then ENone
      else if org_enforcement = ENone then ENone
      else if org_enforcement = EWarn then EWarn
      else policy_enforcement)"

text \<open>\<^const>\<open>FailDeny\<close> is any setting other than the string \<open>allow\<close>.\<close>

definition fail_mode_decision :: "bool \<Rightarrow> fail_mode \<Rightarrow> fail_mode" where
  "fail_mode_decision opa_unavailable mode =
     (if \<not> opa_unavailable then FailAllow else if mode = FailAllow then FailAllow else FailDeny)"

record policy =
  pol_id :: int
  pol_name :: string
  pol_organization :: "int option"
  package_path :: string
  pol_enforcement :: enforcement
  pol_enabled :: bool
  applies_to :: "string list"
  trigger_count :: int

definition applies_to_resource :: "policy \<Rightarrow> string \<Rightarrow> bool" where
  "applies_to_resource p resource_type \<longleftrightarrow> (if applies_to p = [] then True else resource_type \<in> set (applies_to p))"

subsection \<open>The client\<close>

text \<open>
  A POST raises with a message, or answers a status, a text and a body, which may fail to parse.
\<close>

record reply =
  status_code :: int
  reply_text :: string
  reply_body :: "string + json"

type_synonym opa_server = "string \<Rightarrow> json \<Rightarrow> string + reply"

text \<open>\<open>_post_json\<close>; an error is the message of the exception, tagged when it is \<open>OPAUnavailable\<close>.\<close>

definition post_json :: "opa_server \<Rightarrow> string \<Rightarrow> json \<Rightarrow> string + json" where
  "post_json server url payload =
     (case server url payload of
        Inl e \<Rightarrow> Inl e
      | Inr r \<Rightarrow>
          if status_code r \<ge> 400
          then Inl (''OPA POST '' @ url @ '' returned '' @ int_str (status_code r) @ '': '' @ take 200 (reply_text r))
          else reply_body r)"

definition opa_url :: "string \<Rightarrow> string \<Rightarrow> string" where
  "opa_url server_url pkg_path =
     rstrip_char CHR ''/'' server_url @ ''/v1/data/'' @ replace_char CHR ''.'' CHR ''/'' pkg_path"

text \<open>\<open>evaluate\<close>: every failure becomes \<open>OPAUnavailable\<close> with a message.\<close>

definition opa_evaluate :: "opa_server \<Rightarrow> string \<Rightarrow> string \<Rightarrow> json \<Rightarrow> string + json" where
  "opa_evaluate server server_url pkg_path input_doc =
     (if server_url = [] then Inl ''OPA_SERVER_URL is not set''
      else case post_json server (opa_url server_url pkg_path) (JDict [(''input'', input_doc)]) of
        Inl e \<Rightarrow> Inl e
      | Inr body \<Rightarrow>
          (case body of
             JDict d \<Rightarrow> (case dict_get d ''result'' of None \<Rightarrow> Inr (JDict []) | Some r \<Rightarrow> Inr r)
           | _ \<Rightarrow> Inr (JDict [])))"

subsection \<open>Reading a decision\<close>

definition denied_message :: json where
  "denied_message = JStr ''Policy denied launch.''"

text \<open>The message of a violation: its own, or the violation printed.\<close>

definition violation_message :: "py_dict \<Rightarrow> json" where
  "violation_message item =
     (let msg = get item ''message'' in if py_true msg then msg else JStr (json_dumps (JDict item)))"

definition is_warning :: "py_dict \<Rightarrow> bool" where
  "is_warning item \<longleftrightarrow> py_eq (get item ''severity'') (JStr ''warn'')"

definition add_violation :: "py_dict \<Rightarrow> json list \<times> json list \<Rightarrow> json list \<times> json list" where
  "add_violation item acc =
     (if is_warning item then (fst acc @ [violation_message item], snd acc)
      else (fst acc, snd acc @ [violation_message item]))"

definition add_list_item :: "json \<Rightarrow> json list \<times> json list \<Rightarrow> json list \<times> json list" where
  "add_list_item item acc =
     (case item of
        JStr s \<Rightarrow> (fst acc, snd acc @ [JStr s])
      | JDict d \<Rightarrow> add_violation d acc
      | _ \<Rightarrow> acc)"

definition entries :: "json \<Rightarrow> json list" where
  "entries v = (case v of JList xs \<Rightarrow> map (\<lambda>e. JStr (py_str e)) xs | _ \<Rightarrow> [])"

definition violations_of :: "json \<Rightarrow> py_dict list" where
  "violations_of v = (case v of JList xs \<Rightarrow> concat (map (\<lambda>x. case x of JDict d \<Rightarrow> [d] | _ \<Rightarrow> []) xs) | _ \<Rightarrow> [])"

text \<open>\<open>parse_decision\<close>: the warnings and the denials.\<close>

definition parse_decision :: "json \<Rightarrow> json list \<times> json list" where
  "parse_decision result =
     (if \<not> py_true result then ([], [])
      else case result of
        JBool b \<Rightarrow> ([], [denied_message])
      | JStr s \<Rightarrow> ([], [JStr s])
      | JList xs \<Rightarrow> fold add_list_item xs ([], [])
      | JDict d \<Rightarrow>
          (let warns = entries (get d ''warn'');
               deny_val = get d ''deny'';
               denies = (if deny_val = JBool True then [denied_message] else entries deny_val)
           in fold add_violation (violations_of (get d ''violations'')) (warns, denies))
      | _ \<Rightarrow> ([], []))"

subsection \<open>The launch\<close>

record launch_user =
  lu_id :: int
  lu_username :: string
  lu_is_superuser :: bool
  lu_is_authenticated :: bool

record launch =
  job_class :: string
  job_id :: "int option"
  job_name :: string
  template_organization :: "(int \<times> string) option"
  job_organization :: "(int \<times> string) option"
  job_inventory :: "(int \<times> string \<times> string) option"
  job_credentials :: "(int \<times> string \<times> string) list"
  extra_vars :: "json option"
  playbook :: string
  launch_user :: "launch_user option"
  now_iso :: string
  client_ip :: string

definition resource_type_of :: "string \<Rightarrow> string" where
  "resource_type_of cls_name =
     (if cls_name = ''Job'' then ''job_template''
      else if cls_name = ''WorkflowJob'' then ''workflow_job_template''
      else if cls_name = ''AdHocCommand'' then ''ad_hoc_command''
      else lower cls_name)"

definition launch_org :: "launch \<Rightarrow> (int \<times> string) option" where
  "launch_org l = (case template_organization l of Some o' \<Rightarrow> Some o' | None \<Rightarrow> job_organization l)"

definition opt_int :: "int option \<Rightarrow> json" where
  "opt_int i = (case i of None \<Rightarrow> JNull | Some n \<Rightarrow> JInt n)"

definition build_launch_context :: "launch \<Rightarrow> json" where
  "build_launch_context l =
     (let owner = launch_org l in JDict
      [(''resource_type'', JStr (resource_type_of (job_class l))),
       (''resource_id'', opt_int (job_id l)),
       (''resource_name'', JStr (job_name l)),
       (''organization_id'', opt_int (map_option fst owner)),
       (''organization_name'', JStr (case owner of None \<Rightarrow> [] | Some o' \<Rightarrow> snd o')),
       (''user'', JDict (case launch_user l of
           None \<Rightarrow> [(''id'', JNull), (''username'', JStr []), (''is_superuser'', JBool False)]
         | Some u \<Rightarrow> [(''id'', JInt (lu_id u)), (''username'', JStr (lu_username u)), (''is_superuser'', JBool (lu_is_superuser u))])),
       (''extra_vars'', (case extra_vars l of Some (JDict d) \<Rightarrow> JDict d | _ \<Rightarrow> JDict [])),
       (''inventory'', JDict (case job_inventory l of
           None \<Rightarrow> [(''id'', JNull), (''name'', JStr []), (''kind'', JStr [])]
         | Some (i, n, k) \<Rightarrow> [(''id'', JInt i), (''name'', JStr n), (''kind'', JStr k)])),
       (''credentials'', JList (map (\<lambda>(i, n, k). JDict [(''id'', JInt i), (''name'', JStr n), (''kind'', JStr k)]) (job_credentials l))),
       (''playbook'', JStr (playbook l)),
       (''now_iso'', JStr (now_iso l)),
       (''client_ip'', JStr (client_ip l))])"

subsection \<open>Evaluation\<close>

datatype verdict_kind = DWarn | DDeny

text \<open>A persisted decision; \<open>pd_keeps_job\<close> says whether it points to the job.\<close>

record decision =
  pd_policy :: int
  pd_policy_name :: string
  pd_decision :: verdict_kind
  pd_keeps_job :: bool
  pd_organization :: "int option"
  pd_triggered_by :: "int option"
  pd_message :: json
  pd_context :: json

record policy_result =
  allowed :: bool
  warn_messages :: "string list"
  deny_messages :: "string list"
  decisions :: "decision list"

record opa_settings =
  opa_enabled :: bool
  opa_server_url :: string
  opa_fail_mode :: fail_mode

definition empty_result :: policy_result where
  "empty_result = \<lparr>allowed = True, warn_messages = [], deny_messages = [], decisions = []\<rparr>"

definition new_decision :: "launch \<Rightarrow> policy \<Rightarrow> verdict_kind \<Rightarrow> bool \<Rightarrow> json \<Rightarrow> decision" where
  "new_decision l p kind keeps message =
     \<lparr>pd_policy = pol_id p, pd_policy_name = pol_name p, pd_decision = kind, pd_keeps_job = keeps,
      pd_organization = map_option fst (launch_org l),
      pd_triggered_by = (case launch_user l of
          Some u \<Rightarrow> if lu_is_authenticated u then Some (lu_id u) else None | None \<Rightarrow> None),
      pd_message = message, pd_context = build_launch_context l\<rparr>"

definition tagged :: "policy \<Rightarrow> string \<Rightarrow> json \<Rightarrow> string" where
  "tagged p note message = ''['' @ pol_name p @ ''] '' @ note @ py_str message"

text \<open>\<open>OPAUnavailable\<close> while a policy is evaluated.\<close>

definition on_unavailable :: "fail_mode \<Rightarrow> launch \<Rightarrow> policy \<Rightarrow> string \<Rightarrow> policy_result \<Rightarrow> policy_result" where
  "on_unavailable mode l p e res =
     (let decision_kind = fail_mode_decision True mode;
          msg = ''OPA unavailable: '' @ e;
          pd = new_decision l p (if decision_kind = FailDeny then DDeny else DWarn) (decision_kind \<noteq> FailDeny) (JStr msg);
          res1 = res\<lparr>decisions := decisions res @ [pd]\<rparr>
      in if decision_kind = FailDeny
         then res1\<lparr>allowed := False, deny_messages := deny_messages res1 @ [msg]\<rparr>
         else res1\<lparr>warn_messages := warn_messages res1 @ [msg]\<rparr>)"

definition add_warn :: "launch \<Rightarrow> policy \<Rightarrow> json \<Rightarrow> policy_result \<Rightarrow> policy_result" where
  "add_warn l p w res =
     res\<lparr>decisions := decisions res @ [new_decision l p DWarn True w],
         warn_messages := warn_messages res @ [tagged p [] w]\<rparr>"

definition add_deny :: "enforcement \<Rightarrow> launch \<Rightarrow> policy \<Rightarrow> json \<Rightarrow> policy_result \<Rightarrow> policy_result" where
  "add_deny eff l p d res =
     (let res1 = res\<lparr>decisions := decisions res @ [new_decision l p DDeny (eff = EWarn) d]\<rparr>
      in if eff = EEnforce
         then res1\<lparr>allowed := False, deny_messages := deny_messages res1 @ [tagged p [] d]\<rparr>
         else res1\<lparr>warn_messages := warn_messages res1 @ [tagged p ''(deny in warn-only) '' d]\<rparr>)"

text \<open>One turn of the loop: the result, and the identifiers of the policies that were triggered.\<close>

definition evaluate_policy ::
  "opa_settings \<Rightarrow> opa_server \<Rightarrow> launch \<Rightarrow> enforcement \<Rightarrow> policy \<Rightarrow> policy_result \<times> (int \<times> int) list \<Rightarrow>
     policy_result \<times> (int \<times> int) list" where
  "evaluate_policy cfg server l org_enforcement p acc =
     (let (res, triggered) = acc;
          eff = effective_enforcement True org_enforcement (pol_enforcement p)
      in if eff = ENone then acc
         else case opa_evaluate server (opa_server_url cfg) (package_path p) (build_launch_context l) of
           Inl e \<Rightarrow> (on_unavailable (opa_fail_mode cfg) l p e res, triggered)
         | Inr opa_result \<Rightarrow>
             (let (warns, denies) = parse_decision opa_result in
              if warns = [] \<and> denies = [] then acc
              else (fold (add_deny eff l p) denies (fold (add_warn l p) warns res),
                    triggered @ [(pol_id p, trigger_count p + 1)])))"

definition applicable :: "launch \<Rightarrow> policy list \<Rightarrow> policy list" where
  "applicable l ps = filter (\<lambda>p. pol_enabled p \<and>
     (pol_organization p = None \<or> pol_organization p = map_option fst (launch_org l)) \<and>
     applies_to_resource p (resource_type_of (job_class l))) ps"

text \<open>
  \<open>evaluate_launch\<close>: \<open>org_policy\<close> gives the enforcement an organization's row has, when there is
  such a row. The second component are the new trigger counts.
\<close>

definition org_enforcement_of :: "(int \<Rightarrow> enforcement option) \<Rightarrow> launch \<Rightarrow> enforcement" where
  "org_enforcement_of org_policy l =
     (case launch_org l of
        Some (i, _) \<Rightarrow> if i = 0 then ENone else (case org_policy i of None \<Rightarrow> ENone | Some e \<Rightarrow> e)
      | None \<Rightarrow> ENone)"

definition evaluate_launch ::
  "opa_settings \<Rightarrow> opa_server \<Rightarrow> (int \<Rightarrow> enforcement option) \<Rightarrow> policy list \<Rightarrow> launch \<Rightarrow>
     policy_result \<times> (int \<times> int) list" where
  "evaluate_launch cfg server org_policy ps l =
     (if \<not> opa_enabled cfg then (empty_result, [])
      else (let org_enforcement = org_enforcement_of org_policy l in
            if org_enforcement = ENone then (empty_result, [])
            else fold (evaluate_policy cfg server l org_enforcement) (applicable l ps) (empty_result, [])))"

subsection \<open>The verdict\<close>

text \<open>What one policy says of a launch: whether it alone would deny it.\<close>

definition denies_launch :: "opa_settings \<Rightarrow> opa_server \<Rightarrow> launch \<Rightarrow> enforcement \<Rightarrow> policy \<Rightarrow> bool" where
  "denies_launch cfg server l org_enforcement p \<longleftrightarrow>
     (let eff = effective_enforcement True org_enforcement (pol_enforcement p) in
      eff \<noteq> ENone \<and>
      (case opa_evaluate server (opa_server_url cfg) (package_path p) (build_launch_context l) of
         Inl e \<Rightarrow> opa_fail_mode cfg = FailDeny
       | Inr r \<Rightarrow> eff = EEnforce \<and> snd (parse_decision r) \<noteq> []))"

lemma fail_mode_not_allow [simp]: "mode \<noteq> FailAllow \<longleftrightarrow> mode = FailDeny"
  by (cases mode) simp_all

lemma add_warns_fields:
  "allowed (fold (add_warn l p) ws res) = allowed res"
  "deny_messages (fold (add_warn l p) ws res) = deny_messages res"
  by (induction ws arbitrary: res) (simp_all add: add_warn_def)

lemma add_denies_fields:
  "allowed (fold (add_deny eff l p) ds res) \<longleftrightarrow> allowed res \<and> \<not> (eff = EEnforce \<and> ds \<noteq> [])"
  "deny_messages (fold (add_deny eff l p) ds res) =
     deny_messages res @ (if eff = EEnforce then map (tagged p []) ds else [])"
  by (induction ds arbitrary: res) (auto simp: add_deny_def Let_def)

lemma evaluate_policy_verdict:
  "allowed (fst (evaluate_policy cfg server l oe p acc)) \<longleftrightarrow>
     allowed (fst acc) \<and> \<not> denies_launch cfg server l oe p"
  "(deny_messages (fst (evaluate_policy cfg server l oe p acc)) = []) \<longleftrightarrow>
     deny_messages (fst acc) = [] \<and> \<not> denies_launch cfg server l oe p"
  by (auto simp: evaluate_policy_def denies_launch_def Let_def on_unavailable_def fail_mode_decision_def
      add_denies_fields add_warns_fields split: sum.splits prod.splits)
interpretation policy_loop: verdict_loop "evaluate_policy cfg server l oe" "\<lambda>acc. allowed (fst acc)"
  "denies_launch cfg server l oe" for cfg server l oe
  by unfold_locales (rule evaluate_policy_verdict)

interpretation policy_messages: verdict_loop "evaluate_policy cfg server l oe"
  "\<lambda>acc. deny_messages (fst acc) = []" "denies_launch cfg server l oe" for cfg server l oe
  by unfold_locales (rule evaluate_policy_verdict)

lemma org_enforcement_none [simp]: "\<not> list_ex (denies_launch cfg server l ENone) qs"
  by (induction qs) (simp_all add: denies_launch_def effective_enforcement_def)

text \<open>
  C28: A launch is refused exactly when the policy server is enabled and one of the policies that
  apply to it denies it: an unreachable server under a denying fail mode, or a denial by a policy
  that is enforced. It is refused with a message, and never otherwise.
\<close>

theorem policy_verdict_exact:
  "allowed (fst (evaluate_launch cfg server org_policy ps l)) =
     (\<not> (opa_enabled cfg \<and> list_ex (denies_launch cfg server l (org_enforcement_of org_policy l)) (applicable l ps))) \<and>
   (deny_messages (fst (evaluate_launch cfg server org_policy ps l)) = []) =
     allowed (fst (evaluate_launch cfg server org_policy ps l))"
  by (auto simp: evaluate_launch_def Let_def policy_loop.loop_ok policy_messages.loop_ok empty_result_def)

text \<open>
  An organization in warn mode is refused launches when the server cannot be reached and the fail
  mode denies, whatever the enforcement of the policy.
\<close>

lemma warn_mode_refuses_when_unavailable:
  assumes "opa_enabled cfg" and "opa_fail_mode cfg = FailDeny" and "org_enforcement_of org_policy l = EWarn"
    and "p \<in> set (applicable l ps)"
    and "opa_evaluate server (opa_server_url cfg) (package_path p) (build_launch_context l) = Inl e"
  shows "\<not> allowed (fst (evaluate_launch cfg server org_policy ps l))"
proof -
  have "denies_launch cfg server l EWarn p"
    using assms by (simp add: denies_launch_def effective_enforcement_def)
  then show ?thesis using assms
    by (auto simp: evaluate_launch_def Let_def policy_loop.loop_ok policy_messages.loop_ok list_ex_iff)
qed

text \<open>When the server answers, an organization in warn mode is never refused.\<close>

lemma warn_mode_allows_when_available:
  assumes "org_enforcement_of org_policy l = EWarn"
    and "\<forall>p \<in> set (applicable l ps). \<exists>r.
      opa_evaluate server (opa_server_url cfg) (package_path p) (build_launch_context l) = Inr r"
  shows "allowed (fst (evaluate_launch cfg server org_policy ps l))"
  using assms by (auto simp: evaluate_launch_def Let_def policy_loop.loop_ok policy_messages.loop_ok list_ex_iff
      denies_launch_def effective_enforcement_def empty_result_def)

text \<open>A decision of every shape the server may answer is read; an undefined package allows.\<close>

lemma parse_decision_shapes:
  "parse_decision (JDict []) = ([], [])"
  "parse_decision (JBool True) = ([], [denied_message])"
  "parse_decision (JBool False) = ([], [])"
  "s \<noteq> [] \<Longrightarrow> parse_decision (JStr s) = ([], [JStr s])"
  "parse_decision (JDict [(''deny'', JBool True)]) = ([], [denied_message])"
  by (simp_all add: parse_decision_def get_def dict_get_default_def entries_def violations_of_def Let_def)

subsection \<open>Pushing a policy to the server\<close>

text \<open>
  Uploading and deleting do not turn an exception of the transport into \<open>OPAUnavailable\<close>, as
  evaluating does; only bad statuses become one.
\<close>

datatype client_error = OPAUnavailable string | TransportError string

type_synonym http_call = "string \<Rightarrow> string + int \<times> string"

definition policy_url :: "string \<Rightarrow> int \<Rightarrow> string" where
  "policy_url server_url policy_id =
     rstrip_char CHR ''/'' server_url @ ''/v1/policies/forail_'' @ int_str policy_id"

definition status_error :: "string \<Rightarrow> string \<Rightarrow> int \<Rightarrow> string \<Rightarrow> client_error" where
  "status_error verb url code text =
     OPAUnavailable (''OPA '' @ verb @ '' '' @ url @ '' returned '' @ int_str code @ '': '' @ take 200 text)"

definition upload_policy :: "http_call \<Rightarrow> string \<Rightarrow> int \<Rightarrow> client_error + unit" where
  "upload_policy put server_url policy_id =
     (if server_url = [] then Inl (OPAUnavailable ''OPA_SERVER_URL is not set'')
      else (let url = policy_url server_url policy_id in
        case put url of
          Inl e \<Rightarrow> Inl (TransportError e)
        | Inr (code, text) \<Rightarrow> if code \<ge> 400 then Inl (status_error ''PUT'' url code text) else Inr ()))"

definition delete_policy :: "http_call \<Rightarrow> string \<Rightarrow> int \<Rightarrow> client_error + unit" where
  "delete_policy del server_url policy_id =
     (if server_url = [] then Inl (OPAUnavailable ''OPA_SERVER_URL is not set'')
      else (let url = policy_url server_url policy_id in
        case del url of
          Inl e \<Rightarrow> Inl (TransportError e)
        | Inr (code, text) \<Rightarrow>
            if code \<ge> 400 \<and> code \<noteq> 404 then Inl (status_error ''DELETE'' url code text) else Inr ()))"

text \<open>
  \<open>push_policy\<close>, run when a policy is saved: an exception that escapes, or the status it writes to
  the row (\<^const>\<open>None\<close> when it writes none). \<open>remove_policy\<close> writes nothing.
\<close>

definition push_policy :: "http_call \<Rightarrow> string \<Rightarrow> policy \<Rightarrow> string \<Rightarrow> client_error + string option" where
  "push_policy put server_url p rego_module =
     (if \<not> pol_enabled p \<or> rego_module = [] then Inr None
      else case upload_policy put server_url (pol_id p) of
        Inr _ \<Rightarrow> Inr (Some ''ok'')
      | Inl (OPAUnavailable e) \<Rightarrow> Inr (Some ''failed'')
      | Inl (TransportError e) \<Rightarrow> Inl (TransportError e))"

definition remove_policy :: "http_call \<Rightarrow> string \<Rightarrow> int \<Rightarrow> client_error + unit" where
  "remove_policy del server_url policy_id =
     (case delete_policy del server_url policy_id of
        Inr _ \<Rightarrow> Inr ()
      | Inl (OPAUnavailable e) \<Rightarrow> Inr ()
      | Inl (TransportError e) \<Rightarrow> Inl (TransportError e))"

text \<open>Saving an enabled policy raises exactly when the server cannot be reached at all.\<close>

lemma push_policy_raises_iff:
  "(\<exists>e. push_policy put server_url p rego = Inl e) \<longleftrightarrow>
     pol_enabled p \<and> rego \<noteq> [] \<and> server_url \<noteq> [] \<and> (\<exists>e. put (policy_url server_url (pol_id p)) = Inl e)"
  by (auto simp: push_policy_def upload_policy_def status_error_def Let_def split: sum.splits prod.splits if_splits)

end
