(* ===== verification/PyJson.thy ===== *)
theory PyJson
  imports PyValues
begin

section \<open>Reading JSON\<close>

text \<open>
  \<open>json.loads\<close> on text of code points below 256: \<^const>\<open>None\<close> stands for
  \<open>JSONDecodeError\<close>. A float keeps the decimal text it was read from. The three constants that
  stand for special floats are left out. The depth of the nesting is bounded by the length of the
  text, so the fuel that is passed down never runs out on valid text.
\<close>

definition js_space :: "char \<Rightarrow> bool" where
  "js_space c \<longleftrightarrow> of_char c \<in> {9, 10, 13, 32 :: nat}"

definition skip :: "string \<Rightarrow> string" where
  "skip s = dropWhile js_space s"

definition hex_val :: "char \<Rightarrow> nat option" where
  "hex_val c = (let n = of_char c :: nat in
     if 48 \<le> n \<and> n < 58 then Some (n - 48)
     else if 97 \<le> n \<and> n < 103 then Some (n - 87)
     else if 65 \<le> n \<and> n < 71 then Some (n - 55) else None)"

definition hex4 :: "char \<Rightarrow> char \<Rightarrow> char \<Rightarrow> char \<Rightarrow> nat option" where
  "hex4 a b c d = (case (hex_val a, hex_val b, hex_val c, hex_val d) of
     (Some i, Some j, Some k, Some l) \<Rightarrow> Some (((i * 16 + j) * 16 + k) * 16 + l) | _ \<Rightarrow> None)"

definition unescape :: "char \<Rightarrow> char option" where
  "unescape c =
     (if c = quote \<or> c = backslash \<or> c = CHR ''/'' then Some c
      else if c = CHR ''b'' then Some (char_of (8 :: nat)) else if c = CHR ''f'' then Some (char_of (12 :: nat))
      else if c = CHR ''n'' then Some newline else if c = CHR ''r'' then Some carriage_return
      else if c = CHR ''t'' then Some tabulator else None)"

text \<open>The rest of a string literal after its opening quote.\<close>

fun js_string :: "string \<Rightarrow> (string \<times> string) option" where
  "js_string [] = None"
| "js_string (c # cs) =
     (if c = quote then Some ([], cs)
      else if c = backslash then
        (case cs of
           [] \<Rightarrow> None
         | e # es \<Rightarrow>
             if e = CHR ''u'' then
               (case es of
                  a # b # x # d # rest \<Rightarrow>
                    (case hex4 a b x d of
                       None \<Rightarrow> None
                     | Some n \<Rightarrow> if n < 256 then map_option (apfst ((#) (char_of n))) (js_string rest) else None)
                | _ \<Rightarrow> None)
             else (case unescape e of
                     None \<Rightarrow> None
                   | Some d \<Rightarrow> map_option (apfst ((#) d)) (js_string es)))
      else if of_char c < (32 :: nat) then None
      else map_option (apfst ((#) c)) (js_string cs))"

text \<open>A number: sign, integer part, fraction and exponent as texts, and the rest.\<close>

definition take_digits :: "string \<Rightarrow> string \<times> string" where
  "take_digits s = (takeWhile is_decimal s, dropWhile is_decimal s)"

definition digits_value :: "string \<Rightarrow> int" where
  "digits_value s = foldl (\<lambda>a c. 10 * a + digit_val c) 0 s"

definition js_fraction :: "string \<Rightarrow> string \<times> string" where
  "js_fraction s = (case s of
     CHR ''.'' # t \<Rightarrow> (let (d, r) = take_digits t in if d = [] then ([], s) else (d, r))
   | _ \<Rightarrow> ([], s))"

definition js_exponent :: "string \<Rightarrow> (string \<times> int) option \<times> string" where
  "js_exponent s = (case s of
     c # t \<Rightarrow>
       if c = CHR ''e'' \<or> c = CHR ''E'' then
         (let (sign, u) = (case t of x # v \<Rightarrow> if x = CHR ''-'' then (-1, v) else if x = CHR ''+'' then (1, v) else (1, t)
                           | [] \<Rightarrow> (1 :: int, t));
              (d, r) = take_digits u
          in if d = [] then (None, s) else (Some (take (length s - length r) s, sign * digits_value d), r))
       else (None, s)
   | [] \<Rightarrow> (None, s))"

definition power_of_ten :: "int \<Rightarrow> rat" where
  "power_of_ten e = (if e \<ge> 0 then 10 ^ nat e else 1 / 10 ^ nat (- e))"

definition js_number :: "string \<Rightarrow> (json \<times> string) option" where
  "js_number s =
     (let (neg, t) = (if starts_with s ''-'' then (True, drop 1 s) else (False, s));
          (whole, r1) = (if starts_with t ''0'' then (''0'', drop 1 t) else take_digits t)
      in if whole = [] then None
         else (let (frac, r2) = js_fraction r1; (ex, r3) = js_exponent r2;
                   sgn_val = (if neg then -1 else 1)
               in if frac = [] \<and> ex = None then Some (JInt (sgn_val * digits_value whole), r3)
                  else Some (JFloat (of_int sgn_val * of_int (digits_value (whole @ frac)) *
                               power_of_ten ((case ex of None \<Rightarrow> 0 | Some (_, e) \<Rightarrow> e) - int (length frac)))
                             (take (length s - length r3) s), r3)))"

definition js_literal :: "string \<Rightarrow> (json \<times> string) option" where
  "js_literal s =
     (if starts_with s ''null'' then Some (JNull, drop 4 s)
      else if starts_with s ''true'' then Some (JBool True, drop 4 s)
      else if starts_with s ''false'' then Some (JBool False, drop 5 s)
      else js_number s)"

fun js_value :: "nat \<Rightarrow> string \<Rightarrow> (json \<times> string) option"
  and js_items :: "nat \<Rightarrow> string \<Rightarrow> (json list \<times> string) option"
  and js_members :: "nat \<Rightarrow> string \<Rightarrow> ((string \<times> json) list \<times> string) option" where
  "js_value 0 s = None"
| "js_value (Suc n) s =
     (case s of
        [] \<Rightarrow> None
      | c # cs \<Rightarrow>
          if c = quote then map_option (apfst JStr) (js_string cs)
          else if c = CHR ''['' then
            (if starts_with (skip cs) '']'' then Some (JList [], drop 1 (skip cs))
             else map_option (apfst JList) (js_items n (skip cs)))
          else if c = CHR ''{'' then
            (if starts_with (skip cs) ''}'' then Some (JDict [], drop 1 (skip cs))
             else map_option (\<lambda>(kvs, r). (JDict (fold (\<lambda>(k, v). dict_set k v) kvs []), r)) (js_members n (skip cs)))
          else js_literal s)"
| "js_items 0 s = None"
| "js_items (Suc n) s =
     (case js_value n s of
        None \<Rightarrow> None
      | Some (v, r) \<Rightarrow>
          (let r1 = skip r in
           if starts_with r1 '']'' then Some ([v], drop 1 r1)
           else if starts_with r1 '','' then map_option (apfst ((#) v)) (js_items n (skip (drop 1 r1)))
           else None))"
| "js_members 0 s = None"
| "js_members (Suc n) s =
     (if \<not> starts_with s [quote] then None
      else case js_string (drop 1 s) of
        None \<Rightarrow> None
      | Some (k, r) \<Rightarrow>
          (let r1 = skip r in
           if \<not> starts_with r1 '':'' then None
           else case js_value n (skip (drop 1 r1)) of
             None \<Rightarrow> None
           | Some (v, r2) \<Rightarrow>
               (let r3 = skip r2 in
                if starts_with r3 ''}'' then Some ([(k, v)], drop 1 r3)
                else if starts_with r3 '','' then map_option (apfst ((#) (k, v))) (js_members n (skip (drop 1 r3)))
                else None)))"

definition json_loads :: "string \<Rightarrow> json option" where
  "json_loads s =
     (case js_value (2 * length s + 1) (skip s) of
        None \<Rightarrow> None
      | Some (v, r) \<Rightarrow> if skip r = [] then Some v else None)"

lemma json_loads_empty [simp]: "json_loads [] = None"
  by (simp add: json_loads_def skip_def)

subsection \<open>Texts that are read back\<close>

lemma js_string_plain:
  "\<forall>c \<in> set s. c \<noteq> quote \<and> c \<noteq> backslash \<and> \<not> of_char c < (32 :: nat) \<Longrightarrow>
     js_string (s @ quote # r) = Some (s, r)"
  by (induction s) (auto simp: apfst_def)

lemma json_loads_sample:
  "json_loads ''{ \"a\": [1, -2.5e1, null], \"b\": {}, \"a\": true }'' =
     Some (JDict [(''a'', JBool True), (''b'', JDict [])])"
  by code_simp

lemma json_loads_list_sample:
  "json_loads (json_dumps (JList [JInt (-12), JStr ''x\"y'', JDict [(''k'', JNull)], JList []])) =
     Some (JList [JInt (-12), JStr ''x\"y'', JDict [(''k'', JNull)], JList []])"
  by code_simp

subsection \<open>What was printed is read back\<close>

text \<open>The values without floats whose dictionaries have no key twice.\<close>

fun jsonable :: "json \<Rightarrow> bool" where
  "jsonable (JFloat r t) = False"
| "jsonable (JList xs) = list_all jsonable xs"
| "jsonable (JDict d) = (distinct (dict_keys d) \<and> list_all (\<lambda>kv. jsonable (snd kv)) d)"
| "jsonable _ = True"

lemma of_char_bound: "(of_char c :: nat) < 256"
  using nat_of_char_less_256 [of c] by simp

lemma hex_val_digit: "d < 16 \<Longrightarrow> hex_val (hex_digit d) = Some d"
  by (auto simp: hex_val_def hex_digit_def of_char_of)

lemma hex4_hex2: "hex4 (CHR ''0'') (CHR ''0'') (hex_digit (of_char c div 16)) (hex_digit (of_char c mod 16)) = Some (of_char c)"
proof -
  have "of_char c div 16 < (16 :: nat)" using of_char_bound [of c] by (intro less_mult_imp_div_less) simp
  moreover have "hex_val (CHR ''0'') = Some 0" by (simp add: hex_val_def)
  ultimately show ?thesis by (simp add: hex4_def hex_val_digit)
qed

lemma special_chars:
  "quote = CHR 0x22" "backslash = CHR 0x5C" "newline = CHR 0x0A" "carriage_return = CHR 0x0D" "tabulator = CHR 0x09"
  "char_of (12 :: nat) = CHR 0x0C" "char_of (8 :: nat) = CHR 0x08"
  by (simp_all add: quote_def backslash_def newline_def carriage_return_def tabulator_def char_of_def bit_0)

lemma js_string_char: "js_string (json_char c @ t) = map_option (apfst ((#) c)) (js_string t)"
proof (cases "json_char c = [backslash] @ ''u00'' @ hex2 c")
  case True
  then show ?thesis using hex4_hex2 [of c] of_char_bound [of c] by (simp add: hex2_def special_chars)
next
  case False
  then show ?thesis by (auto simp: json_char_def unescape_def special_chars split: if_splits)
qed

lemma js_string_json_str: "js_string (concat (map json_char s) @ quote # r) = Some (s, r)"
  by (induction s) (simp_all add: js_string_char)

text \<open>What may follow a value inside a list or a dictionary.\<close>

definition delimits :: "string \<Rightarrow> bool" where
  "delimits r \<longleftrightarrow> (case r of [] \<Rightarrow> True | c # _ \<Rightarrow> c = CHR '','' \<or> c = CHR '']'' \<or> c = CHR ''}'')"

lemma nat_str_positive: "0 < n \<Longrightarrow> hd (nat_str n) \<noteq> CHR ''0''"
proof (induction n rule: nat_str.induct)
  case (1 n)
  show ?case
  proof (cases "n < 10")
    case True
    then have "of_char (digit_char n) \<noteq> (48 :: nat)" using 1 by (simp add: digit_char_value)
    then have "digit_char n \<noteq> CHR ''0''" by auto
    with True show ?thesis by (subst nat_str.simps) simp
  next
    case False
    with 1 have "hd (nat_str (n div 10)) \<noteq> CHR ''0''" by simp
    with False nat_str_nonempty show ?thesis by (subst nat_str.simps) simp
  qed
qed

lemma take_digits_nat_str: "delimits r \<Longrightarrow> take_digits (nat_str n @ r) = (nat_str n, r)"
proof -
  assume r: "delimits r"
  have "takeWhile is_decimal r = [] \<and> dropWhile is_decimal r = r"
    using r by (cases r) (auto simp: delimits_def is_decimal_def)
  moreover have "\<forall>c \<in> set (nat_str n). is_decimal c" using nat_str_decimal by blast
  ultimately show ?thesis by (simp add: take_digits_def takeWhile_append dropWhile_append)
qed

lemma digits_value_nat_str: "digits_value (nat_str n) = int n"
  using foldl_digit_val [of "nat_str n" 0] nat_str_decimal dec_value_nat_str [of n]
  by (simp add: digits_value_def dec_value_def)

lemma delimits_no_fraction: "delimits r \<Longrightarrow> js_fraction r = ([], r) \<and> js_exponent r = (None, r)"
  by (cases r) (auto simp: delimits_def js_fraction_def js_exponent_def split: char.splits bool.splits)

text \<open>The integer part as \<^const>\<open>js_number\<close> reads it.\<close>

lemma starts_with_char: "starts_with s [c] \<longleftrightarrow> s \<noteq> [] \<and> hd s = c"
  by (cases s) (auto simp: starts_with_def)

lemma whole_part:
  assumes "delimits r"
  shows "(if starts_with (nat_str n @ r) ''0'' then (''0'', drop 1 (nat_str n @ r)) else take_digits (nat_str n @ r)) = (nat_str n, r)"
proof (cases "n = 0")
  case True
  have "nat_str 0 = ''0''" by (simp add: nat_str.simps [of 0] digit_char_def char_of_def bit_0)
  with True show ?thesis by (simp add: starts_with_char)
next
  case False
  with nat_str_positive [of n] nat_str_nonempty [of n] take_digits_nat_str [OF assms, of n] show ?thesis
    by (simp add: starts_with_char)
qed

lemma js_number_int: "delimits r \<Longrightarrow> js_number (int_str i @ r) = Some (JInt i, r)"
proof -
  assume r: "delimits r"
  show ?thesis
  proof (cases "i < 0")
    case True
    then show ?thesis
      using whole_part [OF r, of "nat (- i)"] delimits_no_fraction [OF r] nat_str_nonempty
      by (simp add: js_number_def int_str_def digits_value_nat_str starts_with_char)
  next
    case False
    have "hd (nat_str (nat i)) \<noteq> CHR ''-''"
      using nat_str_nonempty nat_str_decimal decimal_char by (metis hd_in_set)
    with False whole_part [OF r, of "nat i"] delimits_no_fraction [OF r] nat_str_nonempty [of "nat i"] show ?thesis
      by (simp add: js_number_def int_str_def digits_value_nat_str starts_with_char)
  qed
qed

text \<open>No printed value begins with white space or a closing bracket.\<close>

definition opens :: "char \<Rightarrow> bool" where
  "opens c \<longleftrightarrow> \<not> js_space c \<and> c \<noteq> CHR '']'' \<and> c \<noteq> CHR ''}''"

lemma decimal_opens: "is_decimal c \<Longrightarrow> opens c"
  by (auto simp: opens_def js_space_def is_decimal_def)

lemma int_str_opens: "int_str i \<noteq> [] \<and> opens (hd (int_str i))"
proof (cases "i < 0")
  case True
  then show ?thesis by (simp add: int_str_def opens_def js_space_def)
next
  case False
  have "opens (hd (nat_str (nat i)))"
    by (rule decimal_opens) (rule nat_str_decimal [OF hd_in_set [OF nat_str_nonempty]])
  with False nat_str_nonempty show ?thesis by (simp add: int_str_def)
qed

lemma json_dumps_opens: "jsonable v \<Longrightarrow> json_dumps v \<noteq> [] \<and> opens (hd (json_dumps v))"
  using int_str_opens by (cases v) (simp_all add: opens_def js_space_def json_str_def special_chars)

lemma skip_opens: "s \<noteq> [] \<Longrightarrow> opens (hd s) \<Longrightarrow> skip s = s"
  by (cases s) (auto simp: skip_def opens_def)

lemma skip_delimiter: "delimits r \<Longrightarrow> skip r = r"
  by (cases r) (auto simp: skip_def delimits_def js_space_def)

lemma skip_dumps: "jsonable v \<Longrightarrow> skip (json_dumps v @ r) = json_dumps v @ r"
  using json_dumps_opens [of v] by (intro skip_opens) auto

lemma skip_separator [simp]: "skip (CHR '' '' # s) = skip s"
  by (simp add: skip_def js_space_def)

definition reads_back :: "json \<Rightarrow> bool" where
  "reads_back v \<longleftrightarrow> (\<forall>n r. delimits r \<longrightarrow> 2 * length (json_dumps v) \<le> n \<longrightarrow> js_value n (json_dumps v @ r) = Some (v, r))"

lemma js_items_read:
  assumes "list_all jsonable xs" "list_all reads_back xs" "xs \<noteq> []"
    and "2 * length (join '', '' (map json_dumps xs)) + 2 \<le> n"
  shows "js_items n (join '', '' (map json_dumps xs) @ CHR '']'' # r) = Some (xs, r)"
  using assms
proof (induction xs arbitrary: n)
  case Nil
  then show ?case by simp
next
  case (Cons x xs)
  then obtain m where n: "n = Suc m" by (cases n) auto
  have x: "reads_back x" "jsonable x" using Cons.prems by auto
  show ?case
  proof (cases xs)
    case Nil
    with x Cons.prems n have "js_value m (json_dumps x @ CHR '']'' # r) = Some (x, CHR '']'' # r)"
      by (simp add: reads_back_def delimits_def)
    with Nil n show ?thesis by (simp add: skip_delimiter delimits_def starts_with_char)
  next
    case (Cons y ys)
    define rest where "rest = join '', '' (map json_dumps xs)"
    have join: "join '', '' (map json_dumps (x # xs)) = json_dumps x @ '', '' @ rest" using Cons by (simp add: rest_def)
    have "js_value m (json_dumps x @ '', '' @ rest @ CHR '']'' # r) = Some (x, '', '' @ rest @ CHR '']'' # r)"
      using x Cons.prems n join by (simp add: reads_back_def delimits_def)
    moreover have "js_items m (rest @ CHR '']'' # r) = Some (xs, r)"
      unfolding rest_def using Cons.IH [of m] Cons.prems n join Cons by (simp add: rest_def)
    moreover have "skip (rest @ CHR '']'' # r) = rest @ CHR '']'' # r"
    proof (rule skip_opens)
      have "rest \<noteq> [] \<and> opens (hd rest)"
        using json_dumps_opens [of y] Cons Cons.prems by (cases ys) (auto simp: rest_def)
      then show "rest @ CHR '']'' # r \<noteq> []" "opens (hd (rest @ CHR '']'' # r))" by auto
    qed
    ultimately show ?thesis using n join by (simp add: skip_delimiter delimits_def starts_with_char)
  qed
qed

definition member_str :: "string \<times> json \<Rightarrow> string" where
  "member_str kv = json_str (fst kv) @ '': '' @ json_dumps (snd kv)"

lemma js_members_first:
  assumes "jsonable v" "js_value m (json_dumps v @ t) = Some (v, t)"
  shows "js_members (Suc m) (member_str (k, v) @ t) =
    (let r = skip t in
     if starts_with r ''}'' then Some ([(k, v)], drop 1 r)
     else if starts_with r '','' then map_option (apfst ((#) (k, v))) (js_members m (skip (drop 1 r)))
     else None)"
proof -
  define u where "u = '': '' @ json_dumps v @ t"
  have key: "js_string (drop 1 (json_str k @ u)) = Some (k, u)"
    using js_string_json_str [of k u] by (simp add: json_str_def)
  have first: "starts_with (json_str k @ u) [quote]" by (simp add: json_str_def starts_with_char)
  have colon: "skip u = u" by (simp add: u_def skip_def js_space_def)
  have "member_str (k, v) @ t = json_str k @ u" by (simp add: member_str_def u_def)
  then show ?thesis
    using key first assms skip_dumps [OF assms(1), of t]
    by (simp add: colon del: drop_append) (simp add: u_def starts_with_char)
qed

lemma js_members_read:
  assumes "list_all (\<lambda>kv. jsonable (snd kv)) d" "list_all (\<lambda>kv. reads_back (snd kv)) d" "d \<noteq> []"
    and "2 * length (join '', '' (map member_str d)) + 2 \<le> n"
  shows "js_members n (join '', '' (map member_str d) @ CHR ''}'' # r) = Some (d, r)"
  using assms
proof (induction d arbitrary: n)
  case Nil
  then show ?case by simp
next
  case (Cons kv d)
  obtain k v where kv: "kv = (k, v)" by (cases kv)
  from Cons.prems obtain m where n: "n = Suc m" by (cases n) auto
  have v: "reads_back v" "jsonable v" using Cons.prems kv by auto
  show ?case
  proof (cases d)
    case Nil
    with v Cons.prems n kv have "js_value m (json_dumps v @ CHR ''}'' # r) = Some (v, CHR ''}'' # r)"
      by (simp add: reads_back_def delimits_def member_str_def)
    from js_members_first [OF v(2) this, of k] show ?thesis
      using Nil n kv by (simp add: skip_delimiter delimits_def starts_with_char)
  next
    case (Cons kw e)
    define rest where "rest = join '', '' (map member_str d)"
    have join: "join '', '' (map member_str (kv # d)) = member_str kv @ '', '' @ rest" using Cons by (simp add: rest_def)
    have len: "2 * length (member_str kv @ '', '' @ rest) + 2 \<le> n" using Cons.prems(4) unfolding join .
    have "js_value m (json_dumps v @ '', '' @ rest @ CHR ''}'' # r) = Some (v, '', '' @ rest @ CHR ''}'' # r)"
      using len v(1) n kv by (simp add: reads_back_def delimits_def member_str_def)
    note first = js_members_first [OF v(2) this, of k]
    have "js_members m (rest @ CHR ''}'' # r) = Some (d, r)"
      unfolding rest_def using Cons.IH [of m] Cons.prems n len Cons by (simp add: rest_def)
    moreover have "skip (rest @ CHR ''}'' # r) = rest @ CHR ''}'' # r"
    proof (rule skip_opens)
      have "rest \<noteq> [] \<and> hd rest = quote" using Cons by (cases e) (auto simp: rest_def member_str_def json_str_def)
      then show "rest @ CHR ''}'' # r \<noteq> []" "opens (hd (rest @ CHR ''}'' # r))"
        by (auto simp: opens_def js_space_def special_chars)
    qed
    ultimately show ?thesis
      unfolding join using first n kv by (simp add: skip_delimiter delimits_def starts_with_char)
  qed
qed

lemma fold_dict_set: "distinct (dict_keys (e @ d)) \<Longrightarrow> fold (\<lambda>(k, v). dict_set k v) d e = e @ d"
proof (induction d arbitrary: e)
  case Nil
  then show ?case by simp
next
  case (Cons kv d)
  have new: "dict_set k v e = e @ [(k, v)]" if "k \<notin> set (dict_keys e)" for k v and e :: "('a \<times> 'b) list"
    using that by (induction e) auto
  obtain k v where kv: "kv = (k, v)" by (cases kv)
  with Cons.prems have "dict_set k v e = e @ [(k, v)]" by (intro new) auto
  with kv Cons.IH [of "e @ [(k, v)]"] Cons.prems show ?case by simp
qed

lemma json_dumps_dict: "json_dumps (JDict d) = ''{'' @ join '', '' (map member_str d) @ ''}''"
proof -
  have "(\<lambda>(k, v). json_str k @ '': '' @ json_dumps v) = member_str"
    by (auto simp: member_str_def fun_eq_iff)
  then show ?thesis by simp
qed

lemma jsonable_reads_back: "jsonable v \<Longrightarrow> reads_back v"
proof (induction v)
  case JNull
  have "js_value n (json_dumps JNull @ r) = Some (JNull, r)" if "2 * length (json_dumps JNull) \<le> n" for n r
    using that by (cases n) (simp_all add: js_literal_def starts_with_def special_chars)
  then show ?case by (simp add: reads_back_def)
next
  case (JBool b)
  have "js_value n (json_dumps (JBool b) @ r) = Some (JBool b, r)" if "2 * length (json_dumps (JBool b)) \<le> n" for n r
    using that by (cases n; cases b) (simp_all add: js_literal_def starts_with_def special_chars)
  then show ?case by (simp add: reads_back_def)
next
  case (JInt i)
  have "js_value n (int_str i @ r) = Some (JInt i, r)" if r: "delimits r" and n: "2 * length (int_str i) \<le> n" for n r
  proof -
    obtain c cs where s: "int_str i = c # cs" using int_str_opens [of i] by (cases "int_str i") auto
    with n obtain m where m: "n = Suc m" by (cases n) auto
    have c: "is_decimal c \<or> c = CHR ''-''"
    proof (cases "i < 0")
      case False
      with s have "c \<in> set (nat_str (nat i))" by (simp add: int_str_def)
      then show ?thesis using nat_str_decimal by blast
    qed (use s in \<open>auto simp: int_str_def\<close>)
    have "js_literal (int_str i @ r) = js_number (int_str i @ r)"
      using c s by (auto simp: js_literal_def starts_with_def is_decimal_def)
    with c s m js_number_int [OF r, of i] show ?thesis by (auto simp: is_decimal_def special_chars)
  qed
  then show ?case by (simp add: reads_back_def)
next
  case (JFloat x t)
  then show ?case by simp
next
  case (JStr s)
  have "js_value n (json_str s @ r) = Some (JStr s, r)" if "2 * length (json_str s) \<le> n" for n r
    using that js_string_json_str [of s r] by (cases n) (simp_all add: json_str_def)
  then show ?case by (simp add: reads_back_def)
next
  case (JList xs)
  have reads: "list_all reads_back xs" "list_all jsonable xs" using JList by (auto simp: list_all_iff)
  have "js_value n (json_dumps (JList xs) @ r) = Some (JList xs, r)"
    if n: "2 * length (json_dumps (JList xs)) \<le> n" for n r
  proof (cases xs)
    case Nil
    from n obtain m where "n = Suc m" by (cases n) auto
    with Nil show ?thesis by (simp add: special_chars skip_def js_space_def starts_with_char)
  next
    case (Cons y ys)
    define body where "body = join '', '' (map json_dumps xs)"
    from n obtain m where m: "n = Suc m" by (cases n) auto
    have items: "js_items m (body @ CHR '']'' # r) = Some (xs, r)"
      unfolding body_def using n m Cons by (intro js_items_read [OF reads(2,1)]) auto
    have head: "body \<noteq> [] \<and> opens (hd body)"
      using json_dumps_opens [of y] Cons reads by (cases ys) (auto simp: body_def)
    then have "skip (body @ CHR '']'' # r) = body @ CHR '']'' # r" by (intro skip_opens) auto
    moreover have "\<not> starts_with (body @ CHR '']'' # r) '']''" using head by (simp add: starts_with_char opens_def)
    ultimately show ?thesis using items m by (simp add: special_chars body_def)
  qed
  then show ?case by (simp add: reads_back_def)
next
  case (JDict d)
  have reads: "list_all (\<lambda>kv. reads_back (snd kv)) d" "list_all (\<lambda>kv. jsonable (snd kv)) d" "distinct (dict_keys d)"
    using JDict by (fastforce simp: list_all_iff)+
  have "js_value n (json_dumps (JDict d) @ r) = Some (JDict d, r)"
    if n: "2 * length (json_dumps (JDict d)) \<le> n" for n r
  proof (cases d)
    case Nil
    from n obtain m where "n = Suc m" by (cases n) auto
    with Nil show ?thesis by (simp add: special_chars skip_def js_space_def starts_with_char)
  next
    case (Cons kv e)
    define body where "body = join '', '' (map member_str d)"
    from n json_dumps_dict [of d] obtain m where m: "n = Suc m" by (cases n) auto
    have members: "js_members m (body @ CHR ''}'' # r) = Some (d, r)"
      unfolding body_def using n m Cons json_dumps_dict [of d] by (intro js_members_read [OF reads(2,1)]) auto
    have head: "body \<noteq> [] \<and> hd body = quote"
      using Cons by (cases e) (auto simp: body_def member_str_def json_str_def)
    then have "skip (body @ CHR ''}'' # r) = body @ CHR ''}'' # r"
      by (intro skip_opens) (auto simp: opens_def js_space_def special_chars)
    moreover have "\<not> starts_with (body @ CHR ''}'' # r) ''}''" using head by (simp add: starts_with_char special_chars)
    ultimately show ?thesis
      using members m fold_dict_set [of "[]" d] reads(3) unfolding json_dumps_dict body_def [symmetric]
      by (simp add: special_chars)
  qed
  then show ?case by (simp add: reads_back_def)
qed

text \<open>\<open>json.loads(json.dumps(v))\<close> is \<open>v\<close>, and the fuel of the reader is always enough for it.\<close>

lemma json_loads_dumps: "jsonable v \<Longrightarrow> json_loads (json_dumps v) = Some v"
proof -
  assume v: "jsonable v"
  have "js_value (2 * length (json_dumps v) + 1) (json_dumps v @ []) = Some (v, [])"
  proof -
    have "delimits []" "2 * length (json_dumps v) \<le> 2 * length (json_dumps v) + 1" by (simp_all add: delimits_def)
    with jsonable_reads_back [OF v] show ?thesis unfolding reads_back_def by blast
  qed
  with skip_dumps [OF v, of "[]"] show ?thesis by (simp add: json_loads_def skip_def del: js_value.simps)
qed


end
