(* ===== verification/Scanning.thy ===== *)
theory Scanning
  imports PyJson
begin

section \<open>Scanners that gate a launch\<close>

text \<open>
  Models \<^verbatim>\<open>forail/main/scanning/\<close> (the runner and the adapters of the three tools) and
  the helpers of \<^verbatim>\<open>forail/main/models/scanner.py\<close>. Running a tool is an argument: what a
  command line gives. An exception that an adapter raises is \<^const>\<open>None\<close>.
\<close>

subsection \<open>Severities\<close>

definition severity_order :: "string \<Rightarrow> nat option" where
  "severity_order = map_of [(''info'', 0), (''low'', 1), (''medium'', 2), (''high'', 3), (''critical'', 4)]"

definition severity_rank :: "string \<Rightarrow> nat" where
  "severity_rank s = (case severity_order s of None \<Rightarrow> 0 | Some n \<Rightarrow> n)"

definition severity_at_or_above :: "string \<Rightarrow> string \<Rightarrow> bool" where
  "severity_at_or_above finding_sev threshold \<longleftrightarrow>
     severity_rank (lower finding_sev) \<ge> severity_rank (lower threshold)"

datatype scan_status = SOk | SWarn | SBlocked | SError | STimeout

fun scan_status_str :: "scan_status \<Rightarrow> string" where
  "scan_status_str SOk = ''ok''"
| "scan_status_str SWarn = ''warn''"
| "scan_status_str SBlocked = ''blocked''"
| "scan_status_str SError = ''error''"
| "scan_status_str STimeout = ''timeout''"

text \<open>Whether the scanner enforces: the enforcement \<open>'enforce'\<close>, anything else warns.\<close>

definition scanner_enforces :: "bool \<Rightarrow> string \<Rightarrow> bool" where
  "scanner_enforces global_enabled scanner_enforcement \<longleftrightarrow>
     global_enabled \<and> scanner_enforcement = ''enforce''"

definition aggregate_status :: "string list \<Rightarrow> string \<Rightarrow> scan_status" where
  "aggregate_status severities threshold =
     (if severities = [] then SOk
      else if list_ex (\<lambda>s. severity_at_or_above s threshold) severities then SBlocked else SWarn)"

text \<open>True when the launch is to be denied.\<close>

definition scan_fail_denies :: "bool \<Rightarrow> string \<Rightarrow> bool" where
  "scan_fail_denies scanner_unavailable fail_mode \<longleftrightarrow> scanner_unavailable \<and> fail_mode \<noteq> ''allow''"

subsection \<open>Findings and the tools\<close>

record finding =
  rule_id :: string
  severity :: string
  file_path :: string
  line :: "int option"
  message :: string

datatype tool = AnsibleLint | Checkov | PipAudit

definition get_adapter :: "string \<Rightarrow> tool option" where
  "get_adapter = map_of [(''ansible-lint'', AnsibleLint), (''checkov'', Checkov), (''pip-audit'', PipAudit)]"

definition skip_args :: "string \<Rightarrow> json \<Rightarrow> string list option" where
  "skip_args flag v =
     (if \<not> py_true v then Some [] else map_option (\<lambda>xs. concat (map (\<lambda>x. [flag, py_str x]) xs)) (iterate v))"

definition lint_command :: "string \<Rightarrow> py_dict \<Rightarrow> string list option" where
  "lint_command target config =
     (let base = [''ansible-lint'', ''-f'', ''json''] in
      if config = [] then Some (base @ [''--strict'', target])
      else (let strict = (case dict_get config ''strict'' of None \<Rightarrow> True | Some v \<Rightarrow> py_true v);
                profile = get config ''profile''
            in map_option (\<lambda>skips. base @ (if strict then [''--strict''] else []) @
                   (if py_true profile then [''--profile'', py_str profile] else []) @ skips @ [target])
                 (skip_args ''--skip-list'' (get config ''skip_list''))))"

text \<open>The framework and the requirements are put into the command as they are; they are taken to be strings.\<close>

definition checkov_command :: "string \<Rightarrow> py_dict \<Rightarrow> string list option" where
  "checkov_command target config =
     (let framework = (case dict_get config ''framework'' of None \<Rightarrow> ''ansible'' | Some v \<Rightarrow> py_str v)
      in map_option (\<lambda>skips. [''checkov'', ''-f'', target, ''--framework'', framework, ''-o'', ''json''] @ skips)
           (skip_args ''--skip-check'' (get config ''skip_check'')))"

definition pip_command :: "string \<Rightarrow> py_dict \<Rightarrow> string list option" where
  "pip_command target config =
     (let requirements = get config ''requirements'' in
      Some [''pip-audit'', ''--format'', ''json'', ''-r'', (if py_true requirements then py_str requirements else target)])"

fun build_command :: "tool \<Rightarrow> string \<Rightarrow> py_dict \<Rightarrow> string list option" where
  "build_command AnsibleLint target config = lint_command target config"
| "build_command Checkov target config = checkov_command target config"
| "build_command PipAudit target config = pip_command target config"

subsection \<open>Reading the output of ansible-lint\<close>

definition lint_severity :: "json \<Rightarrow> string" where
  "lint_severity raw =
     (if \<not> py_true raw then ''info''
      else (case map_of [(''warning'', ''low''), (''error'', ''high'')] (lower (py_str raw)) of
              None \<Rightarrow> ''low'' | Some s \<Rightarrow> s))"

definition lint_rule :: "py_dict \<Rightarrow> json option" where
  "lint_rule item =
     (let a = get item ''check_name''; b = get item ''rule_id'' in
      if py_true a then Some a else if py_true b then Some b
      else map_option (\<lambda>i. py_or i (JStr [])) (get_attr (or_empty (get item ''rule'')) ''id''))"

text \<open>\<open>cats[0]\<close>: a dictionary of categories and a number raise.\<close>

definition lint_raw_severity :: "py_dict \<Rightarrow> json option" where
  "lint_raw_severity item =
     (let s = get item ''severity'' in
      if py_true s then Some s
      else (let cats = get item ''categories'' in
            if \<not> py_true cats then Some (JStr [])
            else case cats of JList xs \<Rightarrow> Some (hd xs) | JStr t \<Rightarrow> Some (JStr [hd t]) | _ \<Rightarrow> None))"

definition lint_line :: "py_dict \<Rightarrow> py_dict \<Rightarrow> int option" where
  "lint_line item loc =
     (let lines = or_empty (get loc ''lines'');
          found = (case lines of
              JDict d \<Rightarrow> py_or (get d ''begin'') (get d ''start'')
            | JInt i \<Rightarrow> JInt i | JBool b \<Rightarrow> JBool b | _ \<Rightarrow> JNull);
          chosen = (if found = JNull then get item ''line'' else found)
      in py_int chosen)"

definition lint_item :: "py_dict \<Rightarrow> finding option" where
  "lint_item item =
     (case (lint_rule item, lint_raw_severity item, or_empty (get item ''location'')) of
        (Some rule, Some sev, JDict loc) \<Rightarrow>
          Some \<lparr>rule_id = py_str rule, severity = lint_severity sev,
            file_path = py_str (py_or (get loc ''path'') (py_or (get item ''filename'') (JStr []))),
            line = lint_line item loc,
            message = py_str (py_or (get item ''message'') (py_or (get item ''description'') (JStr [])))\<rparr>
      | _ \<Rightarrow> None)"

definition lint_parse :: "string \<Rightarrow> finding list option" where
  "lint_parse stdout =
     (case json_loads stdout of
        Some (JDict d) \<Rightarrow>
          (case iterate (py_or (get d ''issues'') (py_or (get d ''results'') (JList []))) of
             None \<Rightarrow> None | Some items \<Rightarrow> map_opt lint_item (dicts_of items))
      | Some (JList items) \<Rightarrow> map_opt lint_item (dicts_of items)
      | _ \<Rightarrow> Some [])"

subsection \<open>Reading the output of checkov\<close>

definition checkov_severity :: "json \<Rightarrow> string" where
  "checkov_severity raw =
     (if raw = JNull then ''medium''
      else (let s = lower (py_str raw) in
            if s \<in> set [''info'', ''low'', ''medium'', ''high'', ''critical''] then s else ''medium''))"

definition checkov_item :: "py_dict \<Rightarrow> finding" where
  "checkov_item item =
     \<lparr>rule_id = py_str (py_or (get item ''check_id'') (py_or (get item ''bc_check_id'') (JStr []))),
      severity = checkov_severity (get item ''severity''),
      file_path = py_str (py_or (get item ''file_path'') (py_or (get item ''repo_file_path'') (JStr []))),
      line = (case get item ''file_line_range'' of JList (x # xs) \<Rightarrow> py_int x | _ \<Rightarrow> None),
      message = py_str (py_or (get item ''check_name'') (py_or (get item ''description'') (JStr [])))\<rparr>"

definition checkov_envelope :: "py_dict \<Rightarrow> finding list option" where
  "checkov_envelope env =
     (case get_attr (or_empty (get env ''results'')) ''failed_checks'' of
        None \<Rightarrow> None
      | Some failed \<Rightarrow> map_option (\<lambda>items. map checkov_item (dicts_of items)) (iterate (py_or failed (JList []))))"

definition checkov_parse :: "string \<Rightarrow> finding list option" where
  "checkov_parse stdout =
     (case json_loads stdout of
        None \<Rightarrow> Some []
      | Some data \<Rightarrow> map_option concat (map_opt checkov_envelope
          (dicts_of (case data of JList xs \<Rightarrow> xs | _ \<Rightarrow> [data]))))"

subsection \<open>Reading the output of pip-audit\<close>

text \<open>\<open>', '.join(fix)\<close> raises when an element is no string.\<close>

definition join_strs :: "json \<Rightarrow> string option" where
  "join_strs v = (case iterate v of
     None \<Rightarrow> None
   | Some xs \<Rightarrow> if list_all is_str xs then Some (join '', '' (map py_str xs)) else None)"

definition pip_vuln :: "json \<Rightarrow> json \<Rightarrow> py_dict \<Rightarrow> finding option" where
  "pip_vuln name version v =
     (let fix = get v ''fix_versions'';
          base = py_str name @ '' '' @ py_str version @ '': '' @ py_str (py_or (get v ''description'') (JStr []))
      in case (if py_true fix then map_option (\<lambda>s. base @ '' (fix: '' @ s @ '')'') (join_strs fix) else Some base) of
           None \<Rightarrow> None
         | Some msg \<Rightarrow> Some \<lparr>rule_id = py_str (py_or (get v ''id'') (JStr [])), severity = ''high'',
             file_path = py_str name, line = None, message = msg\<rparr>)"

definition pip_dependency :: "py_dict \<Rightarrow> finding list option" where
  "pip_dependency dep =
     (let name = py_or (get dep ''name'') (py_or (get dep ''package'') (JStr []));
          version = py_or (get dep ''version'') (JStr [])
      in case iterate (py_or (get dep ''vulns'') (JList [])) of
           None \<Rightarrow> None
         | Some vs \<Rightarrow> map_opt (pip_vuln name version) (dicts_of vs))"

definition pip_parse :: "string \<Rightarrow> finding list option" where
  "pip_parse stdout =
     (case json_loads stdout of
        Some (JDict d) \<Rightarrow>
          (case iterate (py_or (get d ''dependencies'') (JList [])) of
             None \<Rightarrow> None | Some deps \<Rightarrow> map_option concat (map_opt pip_dependency (dicts_of deps)))
      | Some (JList deps) \<Rightarrow> map_option concat (map_opt pip_dependency (dicts_of deps))
      | _ \<Rightarrow> Some [])"

fun parse_output :: "tool \<Rightarrow> string \<Rightarrow> string \<Rightarrow> int \<Rightarrow> finding list option" where
  "parse_output AnsibleLint stdout stderr returncode = lint_parse stdout"
| "parse_output Checkov stdout stderr returncode = checkov_parse stdout"
| "parse_output PipAudit stdout stderr returncode = pip_parse stdout"

text \<open>The severities of findings are always known ones.\<close>

lemma map_opt_all: "map_opt f xs = Some ys \<Longrightarrow> y \<in> set ys \<Longrightarrow> \<exists>x \<in> set xs. f x = Some y"
  by (induction xs arbitrary: ys) (auto split: option.splits)
subsection \<open>The runner\<close>

record scanner =
  sc_id :: int
  sc_name :: string
  sc_organization :: "int option"
  sc_tool :: string
  sc_config :: py_dict
  severity_threshold :: string
  sc_enforcement :: string
  sc_enabled :: bool
  sc_applies_to :: "string list"
  sc_trigger_count :: int

text \<open>What running a command line gives.\<close>

datatype tool_run = Ran string string int | TimedOut string | NotStarted string | Crashed string

record scan_launch =
  sl_class :: string
  sl_organization :: "int option"
  sl_project_path :: "string option"
  sl_playbook :: string
  sl_user :: "int option"

record scan_result =
  sr_scanner :: int
  sr_name :: string
  sr_keeps_job :: bool
  sr_status :: scan_status
  sr_highest :: string
  sr_message :: string
  sr_raw :: string
  sr_findings :: "finding list"

record scan_run =
  scan_allowed :: bool
  scan_warns :: "string list"
  scan_blocks :: "string list"
  scan_results :: "scan_result list"
  scanner_updates :: "(int \<times> scan_status \<times> int option) list"

record scan_settings =
  scanner_enabled :: bool
  scanner_timeout :: int
  scanner_fail_mode :: string
  raw_output_max :: nat

definition empty_run :: scan_run where
  "empty_run = \<lparr>scan_allowed = True, scan_warns = [], scan_blocks = [], scan_results = [], scanner_updates = []\<rparr>"

definition scan_resource_type :: "string \<Rightarrow> string" where
  "scan_resource_type cls_name =
     (if cls_name = ''Job'' then ''job_template''
      else if cls_name = ''WorkflowJob'' then ''workflow_job_template''
      else if cls_name = ''AdHocCommand'' then ''ad_hoc_command''
      else lower cls_name)"

text \<open>\<open>os.path.join\<close> of two parts.\<close>

definition path_join :: "string \<Rightarrow> string \<Rightarrow> string" where
  "path_join a b = (if starts_with b ''/'' then b else if last a = CHR ''/'' then a @ b else a @ ''/'' @ b)"

definition resolve_target :: "scan_launch \<Rightarrow> string \<Rightarrow> string option" where
  "resolve_target l tool_name =
     (case sl_project_path l of
        None \<Rightarrow> None
      | Some path \<Rightarrow>
          (let rt = scan_resource_type (sl_class l) in
           if path = [] then None
           else if rt = ''workflow_job_template'' then None
           else if rt = ''job_template'' then
             (if sl_playbook l = [] then None else Some (path_join path (sl_playbook l)))
           else if rt = ''ad_hoc_command'' then (if tool_name = ''ansible-lint'' then None else Some path)
           else Some path))"

definition highest_severity :: "finding list \<Rightarrow> string" where
  "highest_severity fs = fold (\<lambda>f h.
     if int (severity_rank (severity f)) > (case severity_order h of None \<Rightarrow> -1 | Some n \<Rightarrow> int n)
     then severity f else h) fs []"

text \<open>What a run of the tool amounts to: its status when it is unavailable, the outputs and the findings.\<close>

definition scan_outcome ::
  "scan_settings \<Rightarrow> tool \<Rightarrow> tool_run \<Rightarrow> scan_status option \<times> string \<times> string \<times> finding list" where
  "scan_outcome cfg tool r =
     (case r of
        Ran stdout stderr rc \<Rightarrow>
          (case parse_output tool stdout stderr rc of
             Some fs \<Rightarrow> (None, stdout, stderr, fs)
           | None \<Rightarrow> (Some SError, stdout, stderr, []))
      | TimedOut e \<Rightarrow> (Some STimeout, [], ''Scanner timed out after '' @ int_str (scanner_timeout cfg) @ ''s: '' @ e, [])
      | NotStarted e \<Rightarrow> (Some SError, [], ''Scanner subprocess failed: '' @ e, [])
      | Crashed e \<Rightarrow> (Some SError, [], ''Scanner subprocess exception: '' @ e, []))"

definition labelled :: "scanner \<Rightarrow> string \<Rightarrow> string" where
  "labelled sc text = ''['' @ sc_name sc @ ''] '' @ text"

definition scan_unavailable ::
  "scan_settings \<Rightarrow> scanner \<Rightarrow> scan_status \<Rightarrow> string \<Rightarrow> string \<Rightarrow> scan_run \<Rightarrow> scan_run" where
  "scan_unavailable cfg sc status stdout stderr res =
     (let denied = scan_fail_denies True (scanner_fail_mode cfg);
          msg = (if take 512 stderr \<noteq> [] then take 512 stderr else ''Scanner '' @ sc_tool sc @ '' unavailable.'');
          sr = \<lparr>sr_scanner = sc_id sc, sr_name = sc_name sc, sr_keeps_job = \<not> denied, sr_status = status,
                sr_highest = [], sr_message = msg,
                sr_raw = take (raw_output_max cfg) (if stdout \<noteq> [] then stdout else stderr), sr_findings = []\<rparr>;
          res1 = res\<lparr>scan_results := scan_results res @ [sr],
                     scanner_updates := scanner_updates res @ [(sc_id sc, status, None)]\<rparr>
      in if denied then res1\<lparr>scan_allowed := False, scan_blocks := scan_blocks res1 @ [labelled sc msg]\<rparr>
         else res1\<lparr>scan_warns := scan_warns res1 @ [labelled sc msg]\<rparr>)"

definition scan_status_of :: "bool \<Rightarrow> string \<Rightarrow> finding list \<Rightarrow> scan_status" where
  "scan_status_of enforces threshold filtered =
     (if filtered = [] then SOk
      else if aggregate_status (map severity filtered) threshold = SBlocked \<and> enforces then SBlocked else SWarn)"

definition line_text :: "int option \<Rightarrow> string" where
  "line_text l = (case l of None \<Rightarrow> [] | Some n \<Rightarrow> if n = 0 then [] else int_str n)"

definition first_message :: "finding list \<Rightarrow> string" where
  "first_message filtered =
     (case filtered of
        [] \<Rightarrow> []
      | f # _ \<Rightarrow> take 512 (nat_str (length filtered) @ '' finding(s); first: ['' @ severity f @ ''] '' @ rule_id f @ '' '' @ message f))"

definition scan_concluded ::
  "scan_settings \<Rightarrow> scanner \<Rightarrow> string \<Rightarrow> finding list \<Rightarrow> scan_run \<Rightarrow> scan_run" where
  "scan_concluded cfg sc stdout filtered res =
     (let status = scan_status_of (scanner_enforces True (sc_enforcement sc)) (severity_threshold sc) filtered;
          highest = highest_severity filtered;
          sr = \<lparr>sr_scanner = sc_id sc, sr_name = sc_name sc, sr_keeps_job = (status \<noteq> SBlocked), sr_status = status,
                sr_highest = highest, sr_message = first_message filtered,
                sr_raw = take (raw_output_max cfg) stdout, sr_findings = filtered\<rparr>;
          res1 = res\<lparr>scan_results := scan_results res @ [sr],
                     scanner_updates := scanner_updates res @
                       [(sc_id sc, status, if filtered \<noteq> [] then Some (sc_trigger_count sc + 1) else None)]\<rparr>
      in if status = SBlocked then
           res1\<lparr>scan_allowed := False,
                scan_blocks := scan_blocks res1 @ map (\<lambda>f. take 512 (labelled sc
                  (rule_id f @ '' '' @ file_path f @ '':'' @ line_text (line f) @ '' '' @ message f))) filtered\<rparr>
         else if status = SWarn \<and> filtered \<noteq> [] then
           res1\<lparr>scan_warns := scan_warns res1 @
                  [labelled sc (nat_str (length filtered) @ '' finding(s), highest='' @ highest)]\<rparr>
         else res1)"

text \<open>
  One turn of the loop. \<^const>\<open>None\<close> is the exception of building the command, which is not caught.
\<close>

definition run_scanner ::
  "scan_settings \<Rightarrow> (string list \<Rightarrow> tool_run) \<Rightarrow> scan_launch \<Rightarrow> scanner \<Rightarrow> scan_run option \<Rightarrow> scan_run option" where
  "run_scanner cfg proc l sc acc =
     (case acc of
        None \<Rightarrow> None
      | Some res \<Rightarrow>
          (case (get_adapter (sc_tool sc), resolve_target l (sc_tool sc)) of
             (Some tool, Some target) \<Rightarrow>
               (case build_command tool target (sc_config sc) of
                  None \<Rightarrow> None
                | Some cmd \<Rightarrow>
                    (case scan_outcome cfg tool (proc cmd) of
                       (Some status, stdout, stderr, _) \<Rightarrow> Some (scan_unavailable cfg sc status stdout stderr res)
                     | (None, stdout, stderr, fs) \<Rightarrow>
                         Some (scan_concluded cfg sc stdout
                           (filter (\<lambda>f. severity_at_or_above (severity f) (severity_threshold sc)) fs) res)))
           | _ \<Rightarrow> Some res))"

definition scanner_applies :: "scanner \<Rightarrow> string \<Rightarrow> bool" where
  "scanner_applies sc rt \<longleftrightarrow> (if sc_applies_to sc = [] then True else rt \<in> set (sc_applies_to sc))"

definition applicable_scanners :: "scan_launch \<Rightarrow> scanner list \<Rightarrow> scanner list" where
  "applicable_scanners l scs = filter (\<lambda>sc. sc_enabled sc \<and>
     (sc_organization sc = None \<or> sc_organization sc = sl_organization l) \<and>
     scanner_applies sc (scan_resource_type (sl_class l))) scs"

definition run_scanners_for_launch ::
  "scan_settings \<Rightarrow> (string list \<Rightarrow> tool_run) \<Rightarrow> scanner list \<Rightarrow> scan_launch \<Rightarrow> scan_run option" where
  "run_scanners_for_launch cfg proc scs l =
     (if \<not> scanner_enabled cfg then Some empty_run
      else fold (run_scanner cfg proc l) (applicable_scanners l scs) (Some empty_run))"

subsection \<open>The verdict\<close>

text \<open>Whether one scanner lets no launch through, by its own run.\<close>

definition scanner_denies :: "scan_settings \<Rightarrow> (string list \<Rightarrow> tool_run) \<Rightarrow> scan_launch \<Rightarrow> scanner \<Rightarrow> bool" where
  "scanner_denies cfg proc l sc \<longleftrightarrow>
     (case (get_adapter (sc_tool sc), resolve_target l (sc_tool sc)) of
        (Some tool, Some target) \<Rightarrow>
          (case build_command tool target (sc_config sc) of
             None \<Rightarrow> True
           | Some cmd \<Rightarrow>
               (case scan_outcome cfg tool (proc cmd) of
                  (Some _, _) \<Rightarrow> scanner_fail_mode cfg \<noteq> ''allow''
                | (None, _, _, fs) \<Rightarrow> sc_enforcement sc = ''enforce'' \<and>
                    list_ex (\<lambda>f. severity_at_or_above (severity f) (severity_threshold sc)) fs))
      | _ \<Rightarrow> False)"

definition lets_through :: "scan_run option \<Rightarrow> bool" where
  "lets_through acc \<longleftrightarrow> (case acc of None \<Rightarrow> False | Some res \<Rightarrow> scan_allowed res)"

lemma scan_status_blocked:
  "scan_status_of e threshold (filter (\<lambda>f. severity_at_or_above (severity f) threshold) fs) = SBlocked \<longleftrightarrow>
     e \<and> list_ex (\<lambda>f. severity_at_or_above (severity f) threshold) fs"
  by (auto simp: scan_status_of_def aggregate_status_def list_ex_iff filter_empty_conv)

lemma scan_unavailable_allowed:
  "scan_allowed (scan_unavailable cfg sc st out er res) \<longleftrightarrow> scan_allowed res \<and> scanner_fail_mode cfg = ''allow''"
  by (simp add: scan_unavailable_def Let_def scan_fail_denies_def)

lemma scan_concluded_allowed:
  "scan_allowed (scan_concluded cfg sc out fs res) \<longleftrightarrow> scan_allowed res \<and>
     scan_status_of (scanner_enforces True (sc_enforcement sc)) (severity_threshold sc) fs \<noteq> SBlocked"
  by (simp add: scan_concluded_def Let_def)

lemma run_scanner_ok:
  "lets_through (run_scanner cfg proc l sc acc) \<longleftrightarrow> lets_through acc \<and> \<not> scanner_denies cfg proc l sc"
proof (cases acc)
  case None
  then show ?thesis by (simp add: run_scanner_def lets_through_def)
next
  case (Some res)
  then show ?thesis
    by (auto simp: run_scanner_def scanner_denies_def lets_through_def scan_unavailable_allowed
        scan_concluded_allowed scan_status_blocked scanner_enforces_def split: option.splits prod.splits)
qed

interpretation scan_loop: verdict_loop "run_scanner cfg proc l" lets_through "scanner_denies cfg proc l"
  for cfg proc l
  by unfold_locales (rule run_scanner_ok)

text \<open>
  A launch passes the scanners exactly when they are switched off or none of those that apply to
  it denies it: a scanner that cannot be run under a fail mode other than \<open>allow\<close>, a command that
  cannot be built, or a finding at or above the threshold of a scanner that enforces.
\<close>

theorem scan_verdict_exact:
  "lets_through (run_scanners_for_launch cfg proc scs l) =
     (\<not> (scanner_enabled cfg \<and> list_ex (scanner_denies cfg proc l) (applicable_scanners l scs)))"
  by (simp add: run_scanners_for_launch_def scan_loop.loop_ok)
    (simp add: lets_through_def empty_run_def)

text \<open>
  A tool that dies without printing JSON passes as a clean scan: whatever its exit code and under
  a denying fail mode too, the scanner reports \<open>ok\<close> and denies nothing.
\<close>

theorem dead_tool_passes:
  assumes "get_adapter (sc_tool sc) = Some tool" and "resolve_target l (sc_tool sc) = Some target"
    and "build_command tool target (sc_config sc) = Some cmd"
    and "proc cmd = Ran stdout stderr rc" and "json_loads stdout = None"
  shows "\<not> scanner_denies cfg proc l sc \<and>
    (\<exists>res'. run_scanner cfg proc l sc (Some res) = Some res' \<and> sr_status (last (scan_results res')) = SOk)"
proof -
  have "parse_output tool stdout stderr rc = Some []"
    using assms(5) by (cases tool) (simp_all add: lint_parse_def checkov_parse_def pip_parse_def)
  then have out: "scan_outcome cfg tool (proc cmd) = (None, stdout, stderr, [])"
    using assms(4) by (simp add: scan_outcome_def)
  then show ?thesis using assms(1-3)
    by (simp add: scanner_denies_def run_scanner_def scan_concluded_def scan_status_of_def Let_def)
qed

subsection \<open>Witness\<close>

definition lint_scanner :: scanner where
  "lint_scanner = \<lparr>sc_id = 1, sc_name = ''lint'', sc_organization = None, sc_tool = ''ansible-lint'',
     sc_config = [], severity_threshold = ''high'', sc_enforcement = ''enforce'', sc_enabled = True,
     sc_applies_to = [], sc_trigger_count = 0\<rparr>"

definition lint_launch :: scan_launch where
  "lint_launch = \<lparr>sl_class = ''Job'', sl_organization = Some 1, sl_project_path = Some ''/p'',
     sl_playbook = ''site.yml'', sl_user = None\<rparr>"

definition deny_settings :: scan_settings where
  "deny_settings = \<lparr>scanner_enabled = True, scanner_timeout = 120, scanner_fail_mode = ''deny'', raw_output_max = 100\<rparr>"

lemma lint_scanner_blocks:
  "lets_through (run_scanners_for_launch deny_settings
     (\<lambda>_. Ran ''[{\"check_name\": \"no-shell\", \"severity\": \"error\", \"location\": {\"path\": \"a.yml\"}}]'' [] 2)
     [lint_scanner] lint_launch) = False"
  by code_simp

theorem dead_tool_passes_witness:
  "\<not> scanner_denies deny_settings (\<lambda>_. Ran [] ''Traceback'' 1) lint_launch lint_scanner"
proof -
  have "get_adapter (sc_tool lint_scanner) = Some AnsibleLint"
    by (simp add: get_adapter_def lint_scanner_def)
  moreover have "resolve_target lint_launch (sc_tool lint_scanner) = Some ''/p/site.yml''"
    by (simp add: resolve_target_def lint_launch_def lint_scanner_def scan_resource_type_def path_join_def
        starts_with_def Let_def)
  moreover have "build_command AnsibleLint ''/p/site.yml'' (sc_config lint_scanner) =
      Some [''ansible-lint'', ''-f'', ''json'', ''--strict'', ''/p/site.yml'']"
    by (simp add: lint_scanner_def lint_command_def)
  ultimately show ?thesis
    by (rule dead_tool_passes [where stdout = "[]" and stderr = "''Traceback''" and rc = 1, THEN conjunct1]) simp_all
qed

end
