(* ===== verification/LaunchGates.thy ===== *)
theory LaunchGates
  imports Tenancy Policy Scanning
begin

section \<open>The gates of a launch\<close>

text \<open>
  Models the gates that the three launch views run after they created the job
  (\<^verbatim>\<open>forail/api/views/job_templates.py\<close>, \<^verbatim>\<open>workflows.py\<close>,
  \<^verbatim>\<open>ad_hoc_commands.py\<close>): the tenant quota, the policies and the scanners, in this
  order, then \<open>signal_start\<close>. A request runs in a transaction, which an exception rolls back and a
  refusal does not.
\<close>

datatype launch_outcome =
  QuotaExceeded "string list"
| PolicyDenied "string list"
| ScannerBlocked "string list"
| RequestFailed
| NotStarted
| Launched string

record launch_env =
  env_tenancy :: bool
  env_opa :: opa_settings
  env_server :: opa_server
  env_org_policy :: "int \<Rightarrow> enforcement option"
  env_policies :: "policy list"
  env_scan :: scan_settings
  env_proc :: "string list \<Rightarrow> tool_run"
  env_scanners :: "scanner list"

record launch_request =
  lr_owner :: "organization option"
  lr_launch :: launch
  lr_scan :: scan_launch
  lr_starts :: bool
  lr_explanation :: string

definition with_warnings :: "string \<Rightarrow> string list \<Rightarrow> string \<Rightarrow> string" where
  "with_warnings heading warns explanation =
     (if warns = [] then explanation
      else take 1024 (explanation @ [newline] @ heading @ '' warnings: '' @ join ''; '' warns))"

definition scan_gate ::
  "launch_env \<Rightarrow> launch_request \<Rightarrow> string \<Rightarrow> tenancy_state \<Rightarrow> tenancy_state \<Rightarrow> launch_outcome \<times> tenancy_state" where
  "scan_gate env r explanation before s =
     (case run_scanners_for_launch (env_scan env) (env_proc env) (env_scanners env) (lr_scan r) of
        None \<Rightarrow> (RequestFailed, before)
      | Some res \<Rightarrow>
          if \<not> scan_allowed res then (ScannerBlocked (scan_blocks res), s)
          else if lr_starts r then (Launched (with_warnings ''Scan'' (scan_warns res) explanation), s)
          else (NotStarted, s))"

definition launch_gates :: "launch_env \<Rightarrow> int \<Rightarrow> launch_request \<Rightarrow> tenancy_state \<Rightarrow> launch_outcome \<times> tenancy_state" where
  "launch_gates env now r s =
     (let (ok, reasons, s1) = check_tenant_quota (env_tenancy env) (lr_owner r) now s in
      if \<not> ok then (QuotaExceeded reasons, s1)
      else (let res = fst (evaluate_launch (env_opa env) (env_server env) (env_org_policy env) (env_policies env) (lr_launch r))
            in if \<not> allowed res then (PolicyDenied (deny_messages res), s1)
               else scan_gate env r (with_warnings ''Policy'' (warn_messages res) (lr_explanation r)) s s1))"

text \<open>
  C3: A launch proceeds exactly when all gates agree: the quota of the tenant is not exhausted, no
  policy denies it, no scanner blocks it, and the job can start.
\<close>

theorem launch_needs_all_gates:
  "(\<exists>explanation. fst (launch_gates env now r s) = Launched explanation) =
     (fst (check_tenant_quota (env_tenancy env) (lr_owner r) now s) \<and>
      \<not> (opa_enabled (env_opa env) \<and> list_ex (denies_launch (env_opa env) (env_server env) (lr_launch r)
           (org_enforcement_of (env_org_policy env) (lr_launch r))) (applicable (lr_launch r) (env_policies env))) \<and>
      \<not> (scanner_enabled (env_scan env) \<and> list_ex (scanner_denies (env_scan env) (env_proc env) (lr_scan r))
           (applicable_scanners (lr_scan r) (env_scanners env))) \<and>
      lr_starts r)"
proof -
  define pol where "pol = fst (evaluate_launch (env_opa env) (env_server env) (env_org_policy env) (env_policies env) (lr_launch r))"
  define scan where "scan = run_scanners_for_launch (env_scan env) (env_proc env) (env_scanners env) (lr_scan r)"
  have p: "allowed pol = (\<not> (opa_enabled (env_opa env) \<and> list_ex (denies_launch (env_opa env) (env_server env) (lr_launch r)
      (org_enforcement_of (env_org_policy env) (lr_launch r))) (applicable (lr_launch r) (env_policies env))))"
    by (auto simp: pol_def evaluate_launch_def Let_def policy_loop.loop_ok empty_result_def
        org_enforcement_none)
  have q: "lets_through scan = (\<not> (scanner_enabled (env_scan env) \<and>
      list_ex (scanner_denies (env_scan env) (env_proc env) (lr_scan r)) (applicable_scanners (lr_scan r) (env_scanners env))))"
    by (simp add: scan_def run_scanners_for_launch_def scan_loop.loop_ok)
      (simp add: lets_through_def empty_run_def)
  show ?thesis
    unfolding p [symmetric] q [symmetric]
    by (auto simp: launch_gates_def scan_gate_def lets_through_def Let_def pol_def scan_def
        split: prod.splits option.splits)
qed

subsection \<open>Quota without a launch\<close>

text \<open>Launches that are tried one after the other.\<close>

fun try_launches :: "launch_env \<Rightarrow> launch_request \<Rightarrow> int list \<Rightarrow> tenancy_state \<Rightarrow> launch_outcome list \<times> tenancy_state" where
  "try_launches env r [] s = ([], s)"
| "try_launches env r (t # ts) s =
     (let (out, s1) = launch_gates env t r s; (outs, s2) = try_launches env r ts s1 in (out # outs, s2))"

text \<open>
  The concurrency quota of a tenant has \<open>n\<close> places taken, and no other quota is set.
\<close>

definition taken :: "organization \<Rightarrow> int \<Rightarrow> tenancy_state \<Rightarrow> bool" where
  "taken og n s \<longleftrightarrow> (case usages s (org_pk og) of
      None \<Rightarrow> n = 0
    | Some u \<Rightarrow> concurrent_jobs_count u = n)"

definition only_concurrency :: "organization \<Rightarrow> int \<Rightarrow> bool" where
  "only_concurrency og limit \<longleftrightarrow> is_tenant_root og \<and> tenant_max_concurrent_jobs og = Some limit \<and>
     tenant_max_daily_launches og = None \<and> tenant_max_hosts og = None \<and> tenant_max_storage_mb og = None"

lemma taken_step:
  assumes "only_concurrency og limit" and "0 < limit" and "taken og n s"
  shows "fst (check_tenant_quota True (Some og) t s) \<longleftrightarrow> n < limit"
    and "taken og (if n < limit then n + 1 else n) (snd (snd (check_tenant_quota True (Some og) t s)))"
proof -
  let ?u = "roll_window t (get_or_create_usage t (org_pk og) s)"
  have c: "concurrent_jobs_count ?u = n"
    using assms(3) by (auto simp: taken_def roll_window_def get_or_create_usage_def saved_usage_def new_usage_def
        Let_def split: option.splits prod.splits)
  have root: "is_tenant_root og" using assms(1) by (simp add: only_concurrency_def)
  have saved: "concurrent_jobs_count (saved_usage t u) = concurrent_jobs_count u" for u
    by (auto simp: saved_usage_def Let_def split: option.splits prod.splits)
  show "fst (check_tenant_quota True (Some og) t s) \<longleftrightarrow> n < limit"
    and "taken og (if n < limit then n + 1 else n) (snd (snd (check_tenant_quota True (Some og) t s)))"
    using assms(1,2) c
    by (auto simp: check_tenant_quota_def only_concurrency_def quota_checks_def check_quota_value_def unlimited_def
        taken_def saved Let_def)
qed

text \<open>
  Launches that a policy refuses use the quota up. A tenant with \<open>limit\<close> places, of which
  \<open>n\<close> are taken, is told after \<open>limit - n\<close> refused launches that its quota is exceeded, although no
  job was started; only the recalculation gives the places back.
\<close>

theorem refused_launches_use_quota:
  assumes "only_concurrency og limit" and "0 < limit" and "taken og n s" and "0 \<le> n"
    and "env_tenancy env" and "lr_owner r = Some og"
    and "\<not> allowed (fst (evaluate_launch (env_opa env) (env_server env) (env_org_policy env) (env_policies env) (lr_launch r)))"
  shows "map (\<lambda>out. case out of QuotaExceeded _ \<Rightarrow> True | _ \<Rightarrow> False) (fst (try_launches env r ts s)) =
      replicate (min (length ts) (nat (limit - n))) False @ replicate (length ts - nat (limit - n)) True"
  using assms(3,4)
proof (induction ts arbitrary: n s)
  case Nil
  then show ?case by simp
next
  case (Cons t ts)
  obtain ok reasons s1 where ck: "check_tenant_quota True (Some og) t s = (ok, reasons, s1)"
    by (metis prod_cases3)
  have ok: "ok \<longleftrightarrow> n < limit" and s1: "taken og (if n < limit then n + 1 else n) s1"
    using taken_step [OF assms(1,2) Cons.prems(1), of t] ck by simp_all
  have gate: "launch_gates env t r s = (if ok then PolicyDenied (deny_messages (fst (evaluate_launch (env_opa env)
      (env_server env) (env_org_policy env) (env_policies env) (lr_launch r)))) else QuotaExceeded reasons, s1)"
    using ck assms(5-7) by (simp add: launch_gates_def Let_def)
  have IH: "map (\<lambda>out. case out of QuotaExceeded _ \<Rightarrow> True | _ \<Rightarrow> False) (fst (try_launches env r ts s1)) =
      replicate (min (length ts) (nat (limit - m))) False @ replicate (length ts - nat (limit - m)) True"
    if "m = (if n < limit then n + 1 else n)" for m
    using Cons.IH [of m s1] s1 that Cons.prems(2) by auto
  show ?case
  proof (cases "n < limit")
    case True
    then have "nat (limit - n) = Suc (nat (limit - (n + 1)))" by simp
    with IH [of "n + 1"] True show ?thesis by (simp add: gate ok split_beta)
  next
    case False
    with IH [of n] show ?thesis by (simp add: gate ok split_beta)
  qed
qed
subsection \<open>Witness\<close>

definition denying_env :: launch_env where
  "denying_env =
     \<lparr>env_tenancy = True,
      env_opa = \<lparr>opa_enabled = True, opa_server_url = ''http://opa:8181/'', opa_fail_mode = FailAllow\<rparr>,
      env_server = (\<lambda>_ _. Inr \<lparr>status_code = 200, reply_text = [], reply_body = Inr (JDict [(''result'', JBool True)])\<rparr>),
      env_org_policy = (\<lambda>_. Some EEnforce),
      env_policies = [\<lparr>pol_id = 1, pol_name = ''freeze'', pol_organization = None, package_path = ''forail.launch'',
        pol_enforcement = EEnforce, pol_enabled = True, applies_to = [], trigger_count = 0\<rparr>],
      env_scan = deny_settings, env_proc = (\<lambda>_. Ran [] [] 0), env_scanners = []\<rparr>"

definition two_place_tenant :: organization where
  "two_place_tenant = small_tenant\<lparr>tenant_max_concurrent_jobs := Some 2, tenant_max_daily_launches := None\<rparr>"

definition plain_launch :: launch where
  "plain_launch = \<lparr>job_class = ''Job'', job_id = Some 9, job_name = ''deploy'', template_organization = Some (7, ''acme''),
     job_organization = None, job_inventory = None, job_credentials = [], extra_vars = None, playbook = ''site.yml'',
     launch_user = None, now_iso = [], client_ip = []\<rparr>"

definition plain_request :: launch_request where
  "plain_request = \<lparr>lr_owner = Some two_place_tenant, lr_launch = plain_launch, lr_scan = lint_launch,
     lr_starts = True, lr_explanation = []\<rparr>"

lemma plain_launch_refused:
  "\<not> allowed (fst (evaluate_launch (env_opa denying_env) (env_server denying_env) (env_org_policy denying_env)
     (env_policies denying_env) (lr_launch plain_request)))"
  by code_simp

theorem refused_launches_use_quota_witness:
  "map (\<lambda>out. case out of QuotaExceeded _ \<Rightarrow> True | _ \<Rightarrow> False)
     (fst (try_launches denying_env plain_request [1, 2, 3, 4] empty_tenancy)) = [False, False, True, True]"
proof -
  have "only_concurrency two_place_tenant 2" "taken two_place_tenant 0 empty_tenancy"
    by (simp_all add: only_concurrency_def two_place_tenant_def small_tenant_def taken_def empty_tenancy_def)
  moreover have "env_tenancy denying_env" "lr_owner plain_request = Some two_place_tenant"
    by (simp_all add: denying_env_def plain_request_def)
  ultimately show ?thesis
    using refused_launches_use_quota [of two_place_tenant 2 0 empty_tenancy denying_env plain_request "[1, 2, 3, 4]"]
      plain_launch_refused
    by (simp add: numeral_2_eq_2)
qed

end
