(* ===== verification/Cooldown.thy ===== *)
theory Cooldown
  imports Complex_Main
begin

section \<open>Rules that rest after they fire\<close>

text \<open>
  The contract that the throttle of an event rule (\<^verbatim>\<open>forail/main/models/eda.py\<close>) and
  the cooldown of a drift alert rule (\<^verbatim>\<open>forail/main/models/drift.py\<close>) share: a step
  looks at the clock when it checks the rule and again when it records that the rule fired. The
  counter of the rule tells a step that fires from one that does not.
\<close>

definition rested :: "rat \<Rightarrow> rat \<Rightarrow> rat option \<Rightarrow> bool" where
  "rested p t prev \<longleftrightarrow> (case prev of None \<Rightarrow> True | Some f \<Rightarrow> p \<le> t - f)"

text \<open>The times of the firings of a run of steps, and what the clock says during it.\<close>

primrec firing_times :: "('e \<Rightarrow> 's \<Rightarrow> 's) \<Rightarrow> ('s \<Rightarrow> int) \<Rightarrow> ('e \<Rightarrow> rat) \<Rightarrow> 'e list \<Rightarrow> 's \<Rightarrow> rat list" where
  "firing_times step counter fired [] s = []"
| "firing_times step counter fired (e # es) s =
     (if counter (step e s) = counter s then [] else [fired e]) @ firing_times step counter fired es (step e s)"

definition clock_readings :: "('e \<Rightarrow> rat) \<Rightarrow> ('e \<Rightarrow> rat) \<Rightarrow> 'e list \<Rightarrow> rat list" where
  "clock_readings checked fired es = concat (map (\<lambda>e. [checked e, fired e]) es)"

locale rate_limited =
  fixes good :: "'s \<Rightarrow> bool"
    and step :: "'e \<Rightarrow> 's \<Rightarrow> 's"
    and checked fired :: "'e \<Rightarrow> rat"
    and last_of :: "'s \<Rightarrow> rat option"
    and counter :: "'s \<Rightarrow> int"
    and period :: "'s \<Rightarrow> rat"
  assumes good_step: "good s \<Longrightarrow> good (step e s)"
    and period_step: "good s \<Longrightarrow> period (step e s) = period s"
    and period_nonneg: "good s \<Longrightarrow> 0 \<le> period s"
    and step_cases: "good s \<Longrightarrow>
      (counter (step e s) = counter s \<and> last_of (step e s) = last_of s) \<or>
      (counter (step e s) \<noteq> counter s \<and> last_of (step e s) = Some (fired e) \<and>
       (\<forall>f. last_of s = Some f \<longrightarrow> f \<le> checked e \<longrightarrow> period s \<le> checked e - f))"
begin

abbreviation firings where "firings \<equiv> firing_times step counter fired"
abbreviation clock where "clock \<equiv> clock_readings checked fired"

lemma firing_rested:
  assumes "good s" "counter (step e s) \<noteq> counter s" "pred_option (\<lambda>f. f \<le> checked e) (last_of s)" "checked e \<le> fired e"
  shows "rested (period s) (fired e) (last_of s)"
  using step_cases [OF assms(1), of e] assms by (cases "last_of s") (auto simp: rested_def)

lemma firings_rested:
  assumes "good s" "sorted (clock es)" "\<forall>t \<in> set (clock es). pred_option (\<lambda>f. f \<le> t) (last_of s)"
  shows "sorted_wrt (\<lambda>x y. period s \<le> y - x) (firings es s) \<and> (\<forall>x \<in> set (firings es s). rested (period s) x (last_of s))"
  using assms
proof (induction es arbitrary: s)
  case Nil
  then show ?case by simp
next
  case (Cons e es)
  define s' where "s' = step e s"
  have good': "good s'" and per: "period s' = period s"
    using Cons.prems(1) good_step period_step by (simp_all add: s'_def)
  from Cons.prems(2) have srt: "sorted (clock es)" "checked e \<le> fired e" "\<forall>t \<in> set (clock es). fired e \<le> t"
    by (auto simp: clock_readings_def)
  show ?case
  proof (cases "counter s' = counter s")
    case True
    then have "last_of s' = last_of s" using step_cases [OF Cons.prems(1), of e] by (auto simp: s'_def)
    with Cons.IH [OF good' srt(1)] Cons.prems(3) True per show ?thesis by (simp add: s'_def clock_readings_def)
  next
    case False
    then have last: "last_of s' = Some (fired e)" using step_cases [OF Cons.prems(1), of e] by (auto simp: s'_def)
    have now: "rested (period s) (fired e) (last_of s)"
      using firing_rested [OF Cons.prems(1), of e] False srt(2) Cons.prems(3) by (simp add: s'_def clock_readings_def)
    have later: "sorted_wrt (\<lambda>x y. period s \<le> y - x) (firings es s') \<and> (\<forall>x \<in> set (firings es s'). period s \<le> x - fired e)"
      using Cons.IH [OF good' srt(1)] last per srt(3) by (simp add: rested_def)
    have "rested (period s) x (last_of s)" if "x \<in> set (firings es s')" for x
      using now later that period_nonneg [OF Cons.prems(1)] by (fastforce simp: rested_def split: option.splits)
    with later now False show ?thesis by (auto simp: s'_def)
  qed
qed

text \<open>Any two firings, the last one before the run included, are a period apart.\<close>

lemma firings_spaced:
  assumes "good s" "sorted (clock es)" "filter (\<lambda>t. \<not> pred_option (\<lambda>f. f \<le> t) (last_of s)) (clock es) = []"
  shows "sorted_wrt (\<lambda>x y. period s \<le> y - x)
    (case last_of s of None \<Rightarrow> firings es s | Some f \<Rightarrow> f # firings es s)"
proof -
  have "\<forall>t \<in> set (clock es). pred_option (\<lambda>f. f \<le> t) (last_of s)" using assms(3) by (simp add: filter_empty_conv)
  from firings_rested [OF assms(1,2) this] show ?thesis by (auto simp: rested_def split: option.splits)
qed

end

end
