(* ===== verification/Eda.thy ===== *)
theory Eda
  imports PyJson Cooldown
begin

section \<open>Event-driven automation\<close>

text \<open>
  Models \<^verbatim>\<open>forail/main/models/eda.py\<close> (signatures, throttling),
  \<^verbatim>\<open>forail/main/tasks/eda.py\<close> (the evaluation of a rule and its actions, the
  outbound webhooks) and the public receiver of \<^verbatim>\<open>forail/api/views/eda.py\<close>. The hash
  functions, the template engine, the HTTP client and the creation of a job or a notification are
  fields of a record of the outside world. A result \<^const>\<open>Inl\<close> is an exception with its text.
  Bodies are byte strings, times are seconds.
\<close>

named_theorems eda_simps \<open>effects of the evaluation steps on the tables\<close>

subsection \<open>Rules, logs and the tables\<close>

record event_rule =
  rule_id :: int
  rule_name :: string
  source_type :: string
  webhook_path :: string
  enabled :: bool
  webhook_key :: string
  conditions :: json
  actions :: json
  throttle_seconds :: int
  last_fired_at :: "rat option"
  fire_count :: int
  organization :: "int option"

datatype log_status = Received | Matched | Unmatched | Throttled | Action_Fired | Action_Failed | Log_Error | Signature_Failed

record event_log =
  log_id :: int
  event_rule :: "int option"
  event_rule_name :: string
  log_source_type :: string
  source_ip :: "string option"
  event_type :: string
  event_guid :: string
  payload :: json
  headers :: py_dict
  conditions_matched :: bool
  condition_results :: "json list"
  actions_triggered :: "json list"
  status :: log_status
  error_detail :: string
  job_id :: "int option"
  log_organization :: "int option"

record launched =
  job_pk :: int
  template_kind :: string
  template :: int
  extra_vars :: py_dict
  by_rule :: int
  signalled :: bool

record audit_event =
  audit_rule :: int
  audit_rule_name :: string
  audit_description :: string
  audit_log :: int
  audit_actions :: "json list"
  audit_organization :: "int option"

record eda_state =
  rules :: "event_rule list"
  logs :: "event_log list"
  launches :: "launched list"
  notified :: "(int \<times> string \<times> string) list"
  audits :: "audit_event list"
  queued :: "int list"

text \<open>
  What lies outside: the template engine on a template, the event and the headers; the lookup of
  a template by class name and key; \<open>create_unified_job\<close> followed by \<open>signal_start\<close>, on the class
  name, the template, the fields set at creation, the extra variables and how many jobs there are,
  giving the job and what \<open>signal_start\<close> returned; and sending a notification.
\<close>

record world =
  hmac_hex :: "string \<Rightarrow> string \<Rightarrow> string \<Rightarrow> string"
  sha1_hex :: "string \<Rightarrow> string"
  render :: "string \<Rightarrow> json \<Rightarrow> py_dict \<Rightarrow> string + string"
  get_template :: "string \<Rightarrow> json \<Rightarrow> string + int"
  create_job :: "string \<Rightarrow> int \<Rightarrow> (string \<times> string) list \<Rightarrow> py_dict \<Rightarrow> nat \<Rightarrow> string + (int \<times> bool)"
  send_notification :: "int \<Rightarrow> string \<Rightarrow> string \<Rightarrow> string option"

subsection \<open>Signatures\<close>

definition header :: "py_dict \<Rightarrow> string \<Rightarrow> string" where
  "header hs k = (case dict_get hs k of Some (JStr s) \<Rightarrow> s | _ \<Rightarrow> [])"

definition check_github_signature :: "world \<Rightarrow> event_rule \<Rightarrow> string \<Rightarrow> py_dict \<Rightarrow> string + bool" where
  "check_github_signature w r body hs =
     (let s256 = header hs ''X-Hub-Signature-256'';
          header_sig = (if s256 \<noteq> [] then s256 else header hs ''X-Hub-Signature'')
      in if header_sig = [] then Inl ''Missing X-Hub-Signature header''
         else if CHR ''='' \<notin> set header_sig then Inl ''Invalid signature format''
         else (let (hash_alg, signature) = split_once (CHR ''='') header_sig;
                   digestmod = (if hash_alg = ''sha256'' then ''sha256'' else ''sha1'')
               in if hmac_hex w digestmod (webhook_key r) body \<noteq> signature then Inl ''Signature mismatch''
                  else Inr True))"

definition check_gitlab_signature :: "event_rule \<Rightarrow> py_dict \<Rightarrow> string + bool" where
  "check_gitlab_signature r hs =
     (if webhook_key r \<noteq> header hs ''X-Gitlab-Token'' then Inl ''Token mismatch'' else Inr True)"

definition check_generic_signature :: "world \<Rightarrow> event_rule \<Rightarrow> string \<Rightarrow> py_dict \<Rightarrow> string + bool" where
  "check_generic_signature w r body hs =
     (let header_sig = header hs ''X-Forail-Signature''
      in if header_sig = [] then Inl ''Missing X-Forail-Signature header''
         else (let signature = (if CHR ''='' \<in> set header_sig then snd (split_once (CHR ''='') header_sig) else header_sig)
               in if hmac_hex w ''sha256'' (webhook_key r) body \<noteq> signature then Inl ''Signature mismatch''
                  else Inr True))"

definition check_signature :: "world \<Rightarrow> event_rule \<Rightarrow> string \<Rightarrow> py_dict \<Rightarrow> string + bool" where
  "check_signature w r body hs =
     (if webhook_key r = [] then Inl ''No webhook key configured''
      else if source_type r = ''webhook_github'' then check_github_signature w r body hs
      else if source_type r = ''webhook_gitlab'' then check_gitlab_signature r hs
      else check_generic_signature w r body hs)"

subsection \<open>Throttling\<close>

definition is_throttled :: "rat \<Rightarrow> event_rule \<Rightarrow> bool" where
  "is_throttled now r =
     (case last_fired_at r of
        None \<Rightarrow> False
      | Some t \<Rightarrow> \<not> throttle_seconds r \<le> 0 \<and> now - t < of_int (throttle_seconds r))"

definition get_rule :: "int \<Rightarrow> eda_state \<Rightarrow> event_rule option" where
  "get_rule i st = find (\<lambda>r. rule_id r = i) (rules st)"

definition get_log :: "int \<Rightarrow> eda_state \<Rightarrow> event_log option" where
  "get_log i st = find (\<lambda>l. log_id l = i) (logs st)"

definition save_log :: "int \<Rightarrow> (event_log \<Rightarrow> event_log) \<Rightarrow> eda_state \<Rightarrow> eda_state" where
  "save_log i f st = st\<lparr>logs := map (\<lambda>l. if log_id l = i then f l else l) (logs st)\<rparr>"

text \<open>
  The update is of the stored row; a row that is gone makes the save raise. The counter is
  increased in the database.
\<close>

definition record_firing :: "rat \<Rightarrow> event_rule \<Rightarrow> eda_state \<Rightarrow> (string + eda_state)" where
  "record_firing now r st =
     (if get_rule (rule_id r) st = None then Inl ''Save with update_fields did not affect any rows.''
      else Inr (st\<lparr>rules := map (\<lambda>x. if rule_id x = rule_id r
                                      then x\<lparr>last_fired_at := Some now, fire_count := fire_count x + 1\<rparr> else x) (rules st)\<rparr>))"

text \<open>\<open>EventLog.save\<close> of a new row: the denormalised copies of the rule's fields.\<close>

definition log_save :: "event_rule \<Rightarrow> event_log \<Rightarrow> event_log" where
  "log_save r l = l\<lparr>
     event_rule_name := (if event_rule_name l = [] then rule_name r else event_rule_name l),
     log_organization := (case log_organization l of None \<Rightarrow> organization r | Some x \<Rightarrow> Some x),
     log_source_type := (if log_source_type l = [] then source_type r else log_source_type l)\<rparr>"

subsection \<open>Conditions\<close>

definition condition_template :: "json \<Rightarrow> string" where
  "condition_template expr =
     ''{% if '' @ py_str expr @ '' %}__TRUE__{% else %}__FALSE__{% endif %}''"

definition condition_result :: "json \<Rightarrow> json \<Rightarrow> bool \<Rightarrow> json" where
  "condition_result expr description matched =
     JDict [(''expression'', expr), (''description'', description), (''matched'', JBool matched)]"

definition condition_error :: "json \<Rightarrow> json \<Rightarrow> string \<Rightarrow> json" where
  "condition_error expr description e =
     JDict [(''expression'', expr), (''description'', description), (''matched'', JBool False), (''error'', JStr e)]"

text \<open>One turn of the loop: whether the condition matched and its entry in the results.\<close>

definition evaluate_condition :: "world \<Rightarrow> json \<Rightarrow> py_dict \<Rightarrow> py_dict \<Rightarrow> bool \<times> json" where
  "evaluate_condition w payl hs c =
     (let expr = dict_get_default c ''jinja2_expression'' (JStr []);
          description = dict_get_default c ''description'' (JStr [])
      in case render w (condition_template expr) payl hs of
           Inl e \<Rightarrow> (False, condition_error expr description e)
         | Inr text \<Rightarrow> (let matched = (strip text = ''__TRUE__'') in (matched, condition_result expr description matched)))"

fun condition_loop :: "world \<Rightarrow> json \<Rightarrow> py_dict \<Rightarrow> json list \<Rightarrow> bool \<Rightarrow> json list \<Rightarrow> string + (bool \<times> json list)" where
  "condition_loop w payl hs [] all_matched results = Inr (all_matched, results)"
| "condition_loop w payl hs (c # cs) all_matched results =
     (case c of
        JDict d \<Rightarrow> (let (matched, entry) = evaluate_condition w payl hs d
                    in condition_loop w payl hs cs (all_matched \<and> matched) (results @ [entry]))
      | _ \<Rightarrow> Inl (no_attribute c ''get''))"

definition evaluate_conditions :: "world \<Rightarrow> json \<Rightarrow> json \<Rightarrow> py_dict \<Rightarrow> string + (bool \<times> json list)" where
  "evaluate_conditions w conds payl hs =
     (if \<not> py_true conds then Inr (True, [])
      else case iterate conds of
             None \<Rightarrow> Inl (not_iterable conds)
           | Some cs \<Rightarrow> condition_loop w payl hs cs True [])"

subsection \<open>Actions\<close>

text \<open>The variables an action adds to a job, after the ones it configures.\<close>

definition merged_vars :: "py_dict \<Rightarrow> event_rule \<Rightarrow> event_log \<Rightarrow> py_dict" where
  "merged_vars d r l =
     dict_set ''forail_eda_payload'' (payload l)
       (dict_set ''forail_eda_rule_name'' (JStr (rule_name r))
         (dict_set ''forail_eda_event_guid'' (JStr (event_guid l))
           (dict_set ''forail_eda_event_type'' (JStr (event_type l)) d)))"

text \<open>
  \<open>_launch_job_template\<close> and \<open>_launch_workflow\<close>, which differ in the class of the template. What
  \<open>signal_start\<close> returns is not looked at.
\<close>

definition launch_template ::
    "world \<Rightarrow> string \<Rightarrow> json \<Rightarrow> json \<Rightarrow> event_log \<Rightarrow> event_rule \<Rightarrow> eda_state \<Rightarrow> (string + int) \<times> eda_state" where
  "launch_template w kind target_id evars l r st =
     (case get_template w kind target_id of
        Inl e \<Rightarrow> (Inl e, st)
      | Inr t \<Rightarrow>
          (case dict_of (or_empty evars) of
             Inl e \<Rightarrow> (Inl e, st)
           | Inr d \<Rightarrow>
               (let vars = merged_vars d r l;
                    eager = [(''launch_type'', ''webhook''), (''webhook_service'', source_type r), (''webhook_guid'', event_guid l)]
                in case create_job w kind t eager vars (length (launches st)) of
                     Inl e \<Rightarrow> (Inl e, st)
                   | Inr (pk, sig) \<Rightarrow>
                       (Inr pk, st\<lparr>launches := launches st @ [\<lparr>job_pk = pk, template_kind = kind, template = t,
                          extra_vars = vars, by_rule = rule_id r, signalled = sig\<rparr>]\<rparr>))))"

definition launch_job_template where
  "launch_job_template w = launch_template w ''JobTemplate''"

definition launch_workflow where
  "launch_workflow w = launch_template w ''WorkflowJobTemplate''"

text \<open>\<open>json.dumps(body, indent=2)\<close> of a dictionary without nested values.\<close>

definition json_dumps_indent :: "py_dict \<Rightarrow> string" where
  "json_dumps_indent d =
     ''{'' @ [newline] @ join (CHR '','' # [newline]) (map (\<lambda>kv. ''  '' @ json_str (fst kv) @ '': '' @ json_dumps (snd kv)) d)
       @ [newline] @ ''}''"

definition opt_str :: "string option \<Rightarrow> json" where
  "opt_str v = (case v of None \<Rightarrow> JNull | Some s \<Rightarrow> JStr s)"

definition notify :: "world \<Rightarrow> json \<Rightarrow> event_log \<Rightarrow> event_rule \<Rightarrow> eda_state \<Rightarrow> (string + eda_state)" where
  "notify w target_id l r st =
     (case get_template w ''NotificationTemplate'' target_id of
        Inl e \<Rightarrow> Inl e
      | Inr nt \<Rightarrow>
          (let subject = ''[Forail EDA] Rule '' @ [quote] @ rule_name r @ [quote] @ '' fired'';
               body = json_dumps_indent
                 [(''rule_name'', JStr (rule_name r)), (''rule_id'', JInt (rule_id r)), (''source_type'', JStr (source_type r)),
                  (''event_type'', JStr (event_type l)), (''event_guid'', JStr (event_guid l)), (''source_ip'', opt_str (source_ip l)),
                  (''payload_summary'', JStr (take 500 (py_str (payload l))))]
           in case send_notification w nt subject body of
                Some e \<Rightarrow> Inl e
              | None \<Rightarrow> Inr (st\<lparr>notified := notified st @ [(nt, subject, body)]\<rparr>)))"

text \<open>
  \<open>_execute_action\<close>: the result of the action and what it did. An action that is no dictionary
  raises before the \<open>try\<close>.
\<close>

definition succeeded :: "py_dict \<Rightarrow> int \<Rightarrow> py_dict" where
  "succeeded res pk = res @ [(''status'', JStr ''success''), (''job_id'', JInt pk)]"

definition failed_with :: "py_dict \<Rightarrow> string \<Rightarrow> py_dict" where
  "failed_with res e = res @ [(''status'', JStr ''failed''), (''error'', JStr e)]"

definition execute_action ::
    "world \<Rightarrow> json \<Rightarrow> event_log \<Rightarrow> event_rule \<Rightarrow> eda_state \<Rightarrow> (string + py_dict) \<times> eda_state" where
  "execute_action w cfg l r st =
     (case cfg of
        JDict c \<Rightarrow>
          (let action_type = get c ''action_type''; target_id = get c ''target_id'';
               evars = dict_get_default c ''extra_vars'' (JDict []);
               description = dict_get_default c ''description'' (JStr []);
               res = [(''action_type'', action_type), (''target_id'', target_id), (''description'', description)]
           in if action_type = JStr ''launch_job_template'' then
                (case launch_job_template w target_id evars l r st of
                   (Inr pk, st1) \<Rightarrow> (Inr (succeeded res pk), st1)
                 | (Inl e, st1) \<Rightarrow> (Inr (failed_with res e), st1))
              else if action_type = JStr ''launch_workflow'' then
                (case launch_workflow w target_id evars l r st of
                   (Inr pk, st1) \<Rightarrow> (Inr (succeeded res pk), st1)
                 | (Inl e, st1) \<Rightarrow> (Inr (failed_with res e), st1))
              else if action_type = JStr ''send_notification'' then
                (case notify w target_id l r st of
                   Inr st1 \<Rightarrow> (Inr (res @ [(''status'', JStr ''success'')]), st1)
                 | Inl e \<Rightarrow> (Inr (failed_with res e), st))
              else (Inr (failed_with res (''Unknown action_type: '' @ py_str action_type)), st))
      | _ \<Rightarrow> (Inl (no_attribute cfg ''get''), st))"

text \<open>The loop over the actions: their results, whether one failed, and the last job started.\<close>

fun run_actions ::
    "world \<Rightarrow> event_rule \<Rightarrow> event_log \<Rightarrow> json list \<Rightarrow> json list \<Rightarrow> bool \<Rightarrow> int option \<Rightarrow> eda_state \<Rightarrow>
       (string + (json list \<times> bool \<times> int option)) \<times> eda_state" where
  "run_actions w r l [] triggered any_failed job st = (Inr (triggered, any_failed, job), st)"
| "run_actions w r l (a # as) triggered any_failed job st =
     (case execute_action w a l r st of
        (Inl e, st1) \<Rightarrow> (Inl e, st1)
      | (Inr res, st1) \<Rightarrow>
          run_actions w r l as (triggered @ [JDict res]) (any_failed \<or> get res ''status'' = JStr ''failed'')
            (case get res ''job_id'' of JInt i \<Rightarrow> if i \<noteq> 0 then Some i else job | _ \<Rightarrow> job) st1)"

subsection \<open>The evaluation of a rule\<close>

definition log_audit_event :: "event_rule \<Rightarrow> event_log \<Rightarrow> json list \<Rightarrow> eda_state \<Rightarrow> eda_state" where
  "log_audit_event r l triggered st = st\<lparr>audits := audits st @ [
     \<lparr>audit_rule = rule_id r, audit_rule_name = rule_name r,
      audit_description = ''Event rule '' @ [quote] @ rule_name r @ [quote] @ '' fired '' @ int_str (int (length triggered)) @ '' action(s)'',
      audit_log = log_id l, audit_actions = triggered, audit_organization = organization r\<rparr>]\<rparr>"

text \<open>
  What the task does once the conditions have matched, from the loop over the actions on.
\<close>

definition fire :: "world \<Rightarrow> rat \<Rightarrow> event_rule \<Rightarrow> event_log \<Rightarrow> eda_state \<Rightarrow> string option \<times> eda_state" where
  "fire w now r l st =
     (case iterate (actions r) of
        None \<Rightarrow> (Some (not_iterable (actions r)), st)
      | Some as \<Rightarrow>
          (case run_actions w r l as [] False (job_id l) st of
             (Inl e, st1) \<Rightarrow> (Some e, st1)
           | (Inr (triggered, any_failed, job), st1) \<Rightarrow>
               (let st2 = save_log (log_id l) (\<lambda>x. x\<lparr>actions_triggered := triggered,
                            status := (if any_failed then Action_Failed else Action_Fired), job_id := job\<rparr>) st1
                in case record_firing now r st2 of
                     Inl e \<Rightarrow> (Some e, st2)
                   | Inr st3 \<Rightarrow> (None, log_audit_event r l triggered st3))))"

text \<open>
  The task on the row of the log and the rule it has read. \<open>t_check\<close> and \<open>t_fire\<close> are what the
  clock says when throttling is checked and when the firing is recorded. The first component of
  the result is an exception that leaves the task.
\<close>

definition evaluate_loaded ::
    "world \<Rightarrow> rat \<Rightarrow> rat \<Rightarrow> event_log \<Rightarrow> event_rule option \<Rightarrow> eda_state \<Rightarrow> string option \<times> eda_state" where
  "evaluate_loaded w t_check t_fire l ro st =
     (case ro of
        None \<Rightarrow> (None, save_log (log_id l) (\<lambda>x. x\<lparr>status := Log_Error, error_detail := ''Event rule has been deleted''\<rparr>) st)
      | Some r \<Rightarrow>
          if \<not> enabled r then
            (None, save_log (log_id l) (\<lambda>x. x\<lparr>status := Unmatched, error_detail := ''Rule is disabled''\<rparr>) st)
          else if is_throttled t_check r then (None, save_log (log_id l) (\<lambda>x. x\<lparr>status := Throttled\<rparr>) st)
          else
            (case evaluate_conditions w (conditions r) (payload l) (headers l) of
               Inl e \<Rightarrow> (None, save_log (log_id l) (\<lambda>x. x\<lparr>status := Log_Error,
                          error_detail := ''Condition evaluation error: '' @ e\<rparr>) st)
             | Inr (matched, results) \<Rightarrow>
                 if \<not> matched then
                   (None, save_log (log_id l) (\<lambda>x. x\<lparr>conditions_matched := matched, condition_results := results, status := Unmatched\<rparr>) st)
                 else fire w t_fire r l
                   (save_log (log_id l) (\<lambda>x. x\<lparr>conditions_matched := matched, condition_results := results, status := Matched\<rparr>) st)))"

definition evaluate_event_rule :: "world \<Rightarrow> rat \<Rightarrow> rat \<Rightarrow> int \<Rightarrow> eda_state \<Rightarrow> string option \<times> eda_state" where
  "evaluate_event_rule w t_check t_fire i st =
     (case get_log i st of
        None \<Rightarrow> (None, st)
      | Some l \<Rightarrow> evaluate_loaded w t_check t_fire l (Option.bind (event_rule l) (\<lambda>k. get_rule k st)) st)"


subsection \<open>Outbound webhooks\<close>

record outbound_webhook =
  webhook_id :: int
  webhook_name :: string
  url :: string
  key :: string
  events :: json
  custom_headers :: json
  webhook_enabled :: bool
  ssl_verify :: bool
  last_status :: string
  last_sent_at :: "rat option"
  last_error :: string

text \<open>
  The bytes and headers of a delivery, which depend on nothing but the webhook and the data; the
  HTTP client takes the URL, whether to verify certificates, the bytes and the headers, and gives
  the text of an exception or nothing. Headers that cannot be read as a dictionary raise out of
  the task.
\<close>

definition payload_bytes :: "json \<Rightarrow> string" where
  "payload_bytes job_data = json_dumps job_data"

definition outbound_headers :: "world \<Rightarrow> outbound_webhook \<Rightarrow> string \<Rightarrow> string + py_dict" where
  "outbound_headers w h body =
     (case dict_of (or_empty (custom_headers h)) of
        Inl e \<Rightarrow> Inl e
      | Inr d \<Rightarrow>
          (let d1 = dict_set ''Content-Type'' (JStr ''application/json'') d
           in Inr (if key h = [] then d1
                   else dict_set ''X-Forail-Signature'' (JStr (''sha256='' @ hmac_hex w ''sha256'' (key h) body)) d1)))"

definition send_outbound_webhook ::
    "world \<Rightarrow> (string \<Rightarrow> bool \<Rightarrow> string \<Rightarrow> py_dict \<Rightarrow> string option) \<Rightarrow> rat \<Rightarrow> int \<Rightarrow> json \<Rightarrow> outbound_webhook list \<Rightarrow>
       string option \<times> outbound_webhook list" where
  "send_outbound_webhook w post now i job_data whs =
     (case find (\<lambda>h. webhook_id h = i) whs of
        None \<Rightarrow> (None, whs)
      | Some h \<Rightarrow>
          if \<not> webhook_enabled h then (None, whs)
          else (let body = payload_bytes job_data
                in case outbound_headers w h body of
                     Inl e \<Rightarrow> (Some e, whs)
                   | Inr hs \<Rightarrow>
                       (let (s, e) = (case post (url h) (ssl_verify h) body hs of
                                        None \<Rightarrow> (''success'', []) | Some e \<Rightarrow> (''failed'', take 1000 e))
                        in (None, map (\<lambda>x. if webhook_id x = i
                              then x\<lparr>last_status := s, last_sent_at := Some now, last_error := e\<rparr> else x) whs))))"

record job_info =
  job_number :: int
  job_str :: string
  job_state :: string
  job_class :: string
  started_str :: "string option"
  finished_str :: "string option"
  elapsed :: json
  launch_type :: string
  execution_node :: string

definition job_data_of :: "string \<Rightarrow> job_info \<Rightarrow> string \<Rightarrow> json" where
  "job_data_of timestamp j ev = JDict
     [(''event_type'', JStr ev), (''timestamp'', JStr timestamp),
      (''job'', JDict [(''id'', JInt (job_number j)), (''name'', JStr (job_str j)), (''status'', JStr (job_state j)),
         (''type'', JStr (job_class j)), (''started'', opt_str (started_str j)), (''finished'', opt_str (finished_str j)),
         (''elapsed'', elapsed j), (''launch_type'', JStr (launch_type j)), (''execution_node'', JStr (execution_node j))])]"

definition subscribed :: "string \<Rightarrow> outbound_webhook \<Rightarrow> bool" where
  "subscribed ev h \<longleftrightarrow> webhook_enabled h \<and> (case events h of JList xs \<Rightarrow> JStr ev \<in> set xs | _ \<Rightarrow> False)"

text \<open>The deliveries queued for an event, in the order of the names of the webhooks.\<close>

definition dispatch_outbound_webhooks :: "string \<Rightarrow> job_info \<Rightarrow> string \<Rightarrow> outbound_webhook list \<Rightarrow> (int \<times> json) list" where
  "dispatch_outbound_webhooks timestamp j ev whs =
     map (\<lambda>h. (webhook_id h, job_data_of timestamp j ev)) (sort_key webhook_name (filter (subscribed ev) whs))"

definition test_data :: "string \<Rightarrow> json" where
  "test_data timestamp = JDict
     [(''event_type'', JStr ''test''), (''timestamp'', JStr timestamp),
      (''job'', JDict [(''id'', JInt 0), (''name'', JStr ''Test Job''), (''status'', JStr ''successful''), (''type'', JStr ''Job'')]),
      (''message'', JStr ''This is a test webhook from Forail EDA.'')]"

definition outbound_webhook_test :: "string \<Rightarrow> int \<Rightarrow> outbound_webhook list \<Rightarrow> (int \<times> json) option" where
  "outbound_webhook_test timestamp pk whs =
     (case find (\<lambda>h. webhook_id h = pk) whs of
        None \<Rightarrow> None
      | Some h \<Rightarrow> Some (webhook_id h, test_data timestamp))"

subsection \<open>The receiver of webhooks\<close>

text \<open>
  A request: the header fields Django keeps, the bytes of the body, and the parsed data,
  \<^const>\<open>None\<close> when parsing raises a parse error. A response is one of those the view returns or an
  exception: \<open>Bad_Request\<close> for a parse error and \<open>Server_Error\<close> for anything that nothing catches.
\<close>

record eda_request =
  meta :: "(string, string) pydict"
  body :: string
  data :: "json option"

datatype response = Accepted_Again | Too_Large | Accepted | Denied | Bad_Request | Server_Error

definition header_names :: "(string \<times> string) list" where
  "header_names =
     [(''HTTP_X_HUB_SIGNATURE'', ''X-Hub-Signature''), (''HTTP_X_HUB_SIGNATURE_256'', ''X-Hub-Signature-256''),
      (''HTTP_X_GITLAB_TOKEN'', ''X-Gitlab-Token''), (''HTTP_X_GITLAB_EVENT'', ''X-Gitlab-Event''),
      (''HTTP_X_GITHUB_EVENT'', ''X-Github-Event''), (''HTTP_X_GITHUB_DELIVERY'', ''X-Github-Delivery''),
      (''HTTP_X_FORAIL_SIGNATURE'', ''X-Forail-Signature''), (''CONTENT_TYPE'', ''Content-Type''),
      (''HTTP_X_REQUEST_ID'', ''X-Request-Id''), (''HTTP_X_FORWARDED_FOR'', ''X-Forwarded-For'')]"

definition relevant_headers :: "(string, string) pydict \<Rightarrow> py_dict" where
  "relevant_headers mt =
     fold (\<lambda>kn hs. case dict_get mt (fst kn) of None \<Rightarrow> hs | Some v \<Rightarrow> dict_set (snd kn) (JStr v) hs) header_names []"

definition meta_get :: "eda_request \<Rightarrow> string \<Rightarrow> string" where
  "meta_get q k = dict_get_default (meta q) k []"

definition request_ip :: "eda_request \<Rightarrow> string option" where
  "request_ip q =
     (let ip = strip (hd (split (CHR '','') (meta_get q ''HTTP_X_FORWARDED_FOR'')))
      in if ip \<noteq> [] then Some ip else dict_get (meta q) ''REMOTE_ADDR'')"

text \<open>What is read from the data, or the response its reading ends in.\<close>

definition data_get :: "eda_request \<Rightarrow> string \<Rightarrow> json \<Rightarrow> response + json" where
  "data_get q k dflt =
     (case data q of
        None \<Rightarrow> Inl Bad_Request
      | Some (JDict d) \<Rightarrow> Inr (dict_get_default d k dflt)
      | Some _ \<Rightarrow> Inl Server_Error)"

definition extract_event_type :: "eda_request \<Rightarrow> string \<Rightarrow> response + json" where
  "extract_event_type q st =
     (if st = ''webhook_github'' then Inr (JStr (meta_get q ''HTTP_X_GITHUB_EVENT''))
      else if st = ''webhook_gitlab'' then Inr (JStr (meta_get q ''HTTP_X_GITLAB_EVENT''))
      else if st = ''alertmanager'' then data_get q ''status'' (JStr ''alert'')
      else if st = ''pagerduty'' then
        (case data_get q ''messages'' (JList []) of
           Inl x \<Rightarrow> Inl x
         | Inr messages \<Rightarrow>
             if \<not> py_true messages then Inr (JStr [])
             else (case messages of
                     JList (JDict m # _) \<Rightarrow> Inr (dict_get_default m ''event'' (JStr []))
                   | _ \<Rightarrow> Inl Server_Error))
      else data_get q ''event_type'' (JStr []))"

definition extract_event_guid :: "world \<Rightarrow> eda_request \<Rightarrow> string \<Rightarrow> response + json" where
  "extract_event_guid w q st =
     (if st = ''webhook_github'' then Inr (JStr (meta_get q ''HTTP_X_GITHUB_DELIVERY''))
      else if st = ''webhook_gitlab'' then Inr (JStr (sha1_hex w (body q)))
      else if st \<in> {''alertmanager'', ''pagerduty'', ''datadog'', ''cloudwatch''} then Inr (JStr (meta_get q ''HTTP_X_REQUEST_ID''))
      else if data q = None then Inl Bad_Request
      else if meta_get q ''HTTP_X_REQUEST_ID'' \<noteq> [] then Inr (JStr (meta_get q ''HTTP_X_REQUEST_ID''))
      else data_get q ''event_id'' (JStr []))"

text \<open>
  What a bounded text column takes: a value that is no string is stored as its text. A text that
  is too long is a data error, which nothing catches; a null breaks a constraint, which the
  exception handler answers as a bad request. The database looks at the lengths first.
\<close>

definition char_fields :: "json \<Rightarrow> json \<Rightarrow> response + (string \<times> string)" where
  "char_fields ty guid =
     (if (ty \<noteq> JNull \<and> int (length (py_str ty)) > 128) \<or> (guid \<noteq> JNull \<and> int (length (py_str guid)) > 256) then Inl Server_Error
      else if ty = JNull \<or> guid = JNull then Inl Bad_Request
      else Inr (py_str ty, py_str guid))"

definition new_log :: "event_rule \<Rightarrow> eda_request \<Rightarrow> json \<Rightarrow> py_dict \<Rightarrow> eda_state \<Rightarrow> event_log" where
  "new_log r q payl hs st = log_save r
     \<lparr>log_id = int (length (logs st)) + 1, event_rule = Some (rule_id r), event_rule_name = [], log_source_type = [],
      source_ip = request_ip q, event_type = [], event_guid = [], payload = payl, headers = hs, conditions_matched = False,
      condition_results = [], actions_triggered = [], status = Received, error_detail = [], job_id = None,
      log_organization = None\<rparr>"

definition previously_received :: "event_rule \<Rightarrow> json \<Rightarrow> eda_state \<Rightarrow> bool" where
  "previously_received r guid st \<longleftrightarrow> py_true guid \<and>
     list_ex (\<lambda>l. event_rule l = Some (rule_id r) \<and> event_guid l = py_str guid \<and>
                  (status l = Matched \<or> status l = Action_Fired)) (logs st)"

definition queue_event ::
    "event_rule \<Rightarrow> eda_request \<Rightarrow> json \<Rightarrow> py_dict \<Rightarrow> string \<Rightarrow> string \<Rightarrow> eda_state \<Rightarrow> eda_state" where
  "queue_event r q payl hs t g st =
     (let l = (new_log r q payl hs st)\<lparr>event_type := t, event_guid := g\<rparr>
      in st\<lparr>logs := logs st @ [l], queued := queued st @ [log_id l]\<rparr>)"

definition receive :: "world \<Rightarrow> string \<Rightarrow> eda_request \<Rightarrow> eda_state \<Rightarrow> response \<times> eda_state" where
  "receive w path q st =
     (case find (\<lambda>r. webhook_path r = path \<and> enabled r) (rules st) of
        None \<Rightarrow> (Denied, st)
      | Some r \<Rightarrow>
          (let hs = relevant_headers (meta q)
           in case check_signature w r (body q) hs of
                Inl e \<Rightarrow>
                  (case data q of
                     None \<Rightarrow> (Bad_Request, st)
                   | Some payl \<Rightarrow> (Denied, st\<lparr>logs := logs st @ [(new_log r q payl hs st)\<lparr>status := Signature_Failed, error_detail := e\<rparr>]\<rparr>))
              | Inr _ \<Rightarrow>
                  (case (extract_event_type q (source_type r), extract_event_guid w q (source_type r)) of
                     (Inl x, _) \<Rightarrow> (x, st)
                   | (Inr _, Inl x) \<Rightarrow> (x, st)
                   | (Inr ty, Inr guid) \<Rightarrow>
                       if previously_received r guid st then (Accepted_Again, st)
                       else if int (length (body q)) > 1048576 then (Too_Large, st)
                       else (case data q of
                               None \<Rightarrow> (Bad_Request, st)
                             | Some payl \<Rightarrow>
                                 (case char_fields ty guid of
                                    Inl x \<Rightarrow> (x, st)
                                  | Inr (t, g) \<Rightarrow> (Accepted, queue_event r q payl hs t g st))))))"

text \<open>
  The transaction around the view (\<open>ATOMIC_REQUESTS\<close>): a response that comes from an exception
  takes back what the view stored.
\<close>

definition raised :: "response \<Rightarrow> bool" where
  "raised x \<longleftrightarrow> x \<in> {Denied, Bad_Request, Server_Error}"

definition handle_request :: "bool \<Rightarrow> world \<Rightarrow> string \<Rightarrow> eda_request \<Rightarrow> eda_state \<Rightarrow> response \<times> eda_state" where
  "handle_request atomic w path q st =
     (case receive w path q st of (x, st1) \<Rightarrow> (x, if atomic \<and> raised x then st else st1))"


subsection \<open>What the steps of an evaluation leave alone\<close>

text \<open>
  The parts of a rule and of a log that no evaluation changes, and the relation that every step of
  an evaluation of the log \<open>l\<close> under the rule \<open>r\<close> lies in: it adds jobs that carry the payload of
  the log and the key of the rule, and nothing else that the receiver looks at changes.
\<close>

definition rule_core :: "event_rule \<Rightarrow> event_rule" where
  "rule_core r = r\<lparr>last_fired_at := None, fire_count := 0\<rparr>"

definition log_core :: "event_log \<Rightarrow> int \<times> int option \<times> json" where
  "log_core l = (log_id l, event_rule l, payload l)"

definition carries :: "event_rule \<Rightarrow> event_log \<Rightarrow> launched \<Rightarrow> bool" where
  "carries r l j \<longleftrightarrow> by_rule j = rule_id r \<and> dict_get (extra_vars j) ''forail_eda_payload'' = Some (payload l)"

definition evaluates :: "event_rule \<Rightarrow> event_log \<Rightarrow> eda_state \<Rightarrow> eda_state \<Rightarrow> bool" where
  "evaluates r l st st' \<longleftrightarrow>
     map rule_core (rules st') = map rule_core (rules st) \<and> map log_core (logs st') = map log_core (logs st) \<and>
     queued st' = queued st \<and> (\<exists>js. launches st' = launches st @ js \<and> list_all (carries r l) js)"

lemma evaluates_refl [simp]: "evaluates r l st st"
  by (simp add: evaluates_def)

lemma evaluates_trans: "evaluates r l st1 st2 \<Longrightarrow> evaluates r l st2 st3 \<Longrightarrow> evaluates r l st1 st3"
  by (auto simp: evaluates_def)

lemma payload_in_merged_vars: "dict_get (merged_vars d r l) ''forail_eda_payload'' = Some (payload l)"
  by (simp add: merged_vars_def dict_simps)

lemma launch_template_evaluates: "launch_template w kind t e l r st = (x, st') \<Longrightarrow> evaluates r l st st'"
  by (auto simp: launch_template_def evaluates_def carries_def payload_in_merged_vars Let_def split: sum.splits)

lemma notify_evaluates: "notify w t l r st = Inr st' \<Longrightarrow> evaluates r l st st'"
  by (auto simp: notify_def evaluates_def Let_def split: sum.splits option.splits)

lemma execute_action_evaluates: "execute_action w a l r st = (x, st') \<Longrightarrow> evaluates r l st st'"
  by (auto simp: execute_action_def Let_def launch_job_template_def launch_workflow_def
      dest: launch_template_evaluates notify_evaluates split: json.splits prod.splits sum.splits if_splits)

lemma run_actions_evaluates: "run_actions w r l as ts b j st = (x, st') \<Longrightarrow> evaluates r l st st'"
proof (induction as arbitrary: ts b j st)
  case Nil
  then show ?case by simp
next
  case (Cons a as)
  obtain y st1 where a: "execute_action w a l r st = (y, st1)" by fastforce
  note first = execute_action_evaluates [OF a]
  show ?case
  proof (cases y)
    case (Inl e)
    with Cons.prems a first show ?thesis by simp
  next
    case (Inr res)
    with Cons.prems a have "evaluates r l st1 st'" using Cons.IH by simp
    with first show ?thesis by (rule evaluates_trans)
  qed
qed

lemma save_log_evaluates: "\<forall>x. log_core (f x) = log_core x \<Longrightarrow> evaluates r l st (save_log i f st)"
  by (simp add: evaluates_def save_log_def)

lemma record_firing_evaluates: "record_firing now x st = Inr st' \<Longrightarrow> evaluates r l st st'"
  by (auto simp: record_firing_def evaluates_def rule_core_def split: if_splits)

lemma log_audit_event_evaluates: "evaluates r l st (log_audit_event r l ts st)"
  by (simp add: evaluates_def log_audit_event_def)

lemma fire_evaluates: "fire w now r l st = (x, st') \<Longrightarrow> evaluates r l st st'"
proof -
  assume f: "fire w now r l st = (x, st')"
  show ?thesis
  proof (cases "iterate (actions r)")
    case None
    with f show ?thesis by (simp add: fire_def)
  next
    case (Some as)
    obtain y st1 where run: "run_actions w r l as [] False (job_id l) st = (y, st1)" by fastforce
    note acted = run_actions_evaluates [OF run]
    show ?thesis
    proof (cases y)
      case (Inl e)
      with f Some run acted show ?thesis by (simp add: fire_def)
    next
      case (Inr res)
      obtain ts b j where res: "res = (ts, b, j)" by (cases res)
      define st2 where "st2 = save_log (log_id l) (\<lambda>x. x\<lparr>actions_triggered := ts,
          status := (if b then Action_Failed else Action_Fired), job_id := j\<rparr>) st1"
      have saved: "evaluates r l st1 st2" unfolding st2_def by (rule save_log_evaluates) (simp add: log_core_def)
      show ?thesis
      proof (cases "record_firing now r st2")
        case (Inl e)
        with f Some run Inr res have "st' = st2" by (simp add: fire_def st2_def Let_def)
        with evaluates_trans [OF acted saved] show ?thesis by simp
      next
        case (Inr st3)
        with f Some run \<open>y = Inr res\<close> res have "st' = log_audit_event r l ts st3"
          by (simp add: fire_def st2_def Let_def)
        with evaluates_trans [OF acted evaluates_trans [OF saved evaluates_trans
            [OF record_firing_evaluates [OF Inr] log_audit_event_evaluates]]] show ?thesis by simp
      qed
    qed
  qed
qed

lemma fire_after_save_evaluates:
  assumes "fire w now r l (save_log i f st) = (x, st')" and "\<forall>y. log_core (f y) = log_core y"
  shows "evaluates r l st st'"
  using evaluates_trans [OF save_log_evaluates [OF assms(2)] fire_evaluates [OF assms(1)]] .

lemma evaluate_loaded_evaluates:
  assumes "evaluate_loaded w t1 t2 l (Some r) st = (x, st')"
  shows "evaluates r l st st'"
proof (cases "enabled r \<and> \<not> is_throttled t1 r")
  case False
  with assms show ?thesis
    by (auto simp: evaluate_loaded_def log_core_def intro!: save_log_evaluates split: if_splits)
next
  case True
  show ?thesis
  proof (cases "evaluate_conditions w (conditions r) (payload l) (headers l)")
    case (Inl e)
    with True assms show ?thesis by (auto simp: evaluate_loaded_def log_core_def intro!: save_log_evaluates)
  next
    case (Inr res)
    obtain m entries where res: "res = (m, entries)" by (cases res)
    show ?thesis
    proof (cases m)
      case False
      with True Inr res assms show ?thesis by (auto simp: evaluate_loaded_def log_core_def intro!: save_log_evaluates)
    next
      case m: True
      with True Inr res assms have "fire w t2 r l (save_log (log_id l)
          (\<lambda>x. x\<lparr>conditions_matched := m, condition_results := entries, status := Matched\<rparr>) st) = (x, st')"
        by (simp add: evaluate_loaded_def)
      then show ?thesis by (rule fire_after_save_evaluates) (simp add: log_core_def)
    qed
  qed
qed

subsection \<open>Requests and evaluations in any order\<close>

text \<open>
  What happens to the tables: a request to the path of a rule, or the task run on a queued log,
  with what the clock says when it checks and when it fires. A queue may deliver a message twice.
\<close>

datatype eda_event = Request string eda_request | Evaluate rat rat int

fun eda_step :: "bool \<Rightarrow> world \<Rightarrow> eda_event \<Rightarrow> eda_state \<Rightarrow> eda_state" where
  "eda_step atomic w (Request path q) st = snd (handle_request atomic w path q st)"
| "eda_step atomic w (Evaluate t1 t2 i) st =
     (if i \<in> set (queued st) then snd (evaluate_event_rule w t1 t2 i st) else st)"

text \<open>A request that a rule admits: sent to its path and signed for it.\<close>

definition admitted :: "world \<Rightarrow> event_rule \<Rightarrow> string \<Rightarrow> eda_request \<Rightarrow> bool" where
  "admitted w r path q \<longleftrightarrow> webhook_path r = path \<and> enabled r \<and>
     check_signature w r (body q) (relevant_headers (meta q)) = Inr True"

text \<open>The log, or the job, comes from one of the events, admitted by one of the rules.\<close>

definition from_request :: "world \<Rightarrow> event_rule list \<Rightarrow> eda_event list \<Rightarrow> int \<Rightarrow> json \<Rightarrow> bool" where
  "from_request w rs evs k payl \<longleftrightarrow>
     (\<exists>r \<in> set rs. \<exists>path q. Request path q \<in> set evs \<and> admitted w r path q \<and> rule_id r = k \<and> data q = Some payl)"

definition log_genuine :: "world \<Rightarrow> event_rule list \<Rightarrow> eda_event list \<Rightarrow> event_log \<Rightarrow> bool" where
  "log_genuine w rs evs l \<longleftrightarrow> (\<exists>k. event_rule l = Some k \<and> from_request w rs evs k (payload l))"

definition job_genuine :: "world \<Rightarrow> event_rule list \<Rightarrow> eda_event list \<Rightarrow> launched \<Rightarrow> bool" where
  "job_genuine w rs evs j \<longleftrightarrow>
     (\<exists>p. dict_get (extra_vars j) ''forail_eda_payload'' = Some p \<and> from_request w rs evs (by_rule j) p)"

definition eda_inv :: "world \<Rightarrow> event_rule list \<Rightarrow> eda_event list \<Rightarrow> eda_state \<Rightarrow> bool" where
  "eda_inv w rs evs st \<longleftrightarrow>
     map rule_core (rules st) = map rule_core rs \<and>
     map log_id (logs st) = map (\<lambda>n. int n + 1) [0..<length (logs st)] \<and>
     (\<forall>i \<in> set (queued st). \<exists>l \<in> set (logs st). log_id l = i \<and> log_genuine w rs evs l) \<and>
     (\<forall>j \<in> set (launches st). job_genuine w rs evs j)"

lemma rule_core_keeps [simp]:
  "webhook_key (rule_core r) = webhook_key r" "source_type (rule_core r) = source_type r"
  "rule_id (rule_core r) = rule_id r" "webhook_path (rule_core r) = webhook_path r" "enabled (rule_core r) = enabled r"
  by (simp_all add: rule_core_def)

lemma check_signature_rule_core: "check_signature w (rule_core r) b hs = check_signature w r b hs"
  by (simp only: check_signature_def check_github_signature_def check_gitlab_signature_def
      check_generic_signature_def rule_core_keeps)

lemma check_signature_core: "rule_core r = rule_core r' \<Longrightarrow> check_signature w r b hs = check_signature w r' b hs"
  by (metis check_signature_rule_core)

lemma rule_core_fields:
  "rule_core r = rule_core r' \<Longrightarrow> rule_id r = rule_id r' \<and> webhook_path r = webhook_path r' \<and> enabled r = enabled r'"
  by (metis rule_core_keeps(3-5))

lemma admitted_core: "rule_core r = rule_core r' \<Longrightarrow> admitted w r path q = admitted w r' path q"
  using check_signature_core [of r r'] rule_core_fields [of r r'] by (auto simp: admitted_def)

lemma from_request_more: "from_request w rs evs k p \<Longrightarrow> set evs \<subseteq> set evs' \<Longrightarrow> from_request w rs evs' k p"
  by (auto simp: from_request_def)

lemma eda_inv_more: "eda_inv w rs evs st \<Longrightarrow> set evs \<subseteq> set evs' \<Longrightarrow> eda_inv w rs evs' st"
  unfolding eda_inv_def log_genuine_def job_genuine_def by (meson from_request_more)

text \<open>The log ids of a table that only grows are all different.\<close>

lemma numbered_distinct: "map log_id ls = map (\<lambda>n. int n + 1) [0..<length ls] \<Longrightarrow> distinct (map log_id ls)"
  by (simp add: distinct_map inj_on_def)

lemma get_log_unique:
  assumes "map log_id (logs st) = map (\<lambda>n. int n + 1) [0..<length (logs st)]" and "l \<in> set (logs st)"
  shows "get_log (log_id l) st = Some l"
proof -
  have "distinct (map log_id (logs st))" using assms(1) by (rule numbered_distinct)
  then have "find (\<lambda>x. log_id x = log_id l) ls = Some l" if "l \<in> set ls" "distinct (map log_id ls)" for ls
    using that by (induction ls) (auto simp: rev_image_eqI)
  with assms numbered_distinct show ?thesis by (auto simp: get_log_def)
qed

lemma evaluates_inv:
  assumes inv: "eda_inv w rs evs st" and ev: "evaluates r l st st'"
    and origin: "log_genuine w rs evs l" "event_rule l = Some (rule_id r)"
  shows "eda_inv w rs evs st'"
proof -
  from ev obtain js where core: "map rule_core (rules st') = map rule_core (rules st)"
    and lcore: "map log_core (logs st') = map log_core (logs st)" and q: "queued st' = queued st"
    and js: "launches st' = launches st @ js" "list_all (carries r l) js" by (auto simp: evaluates_def)
  have len: "length (logs st') = length (logs st)" using lcore map_eq_imp_length_eq by blast
  have ids: "map log_id (logs st') = map log_id (logs st)"
    using arg_cong [OF lcore, of "map fst"] by (simp add: comp_def log_core_def)
  have same: "\<exists>y \<in> set (logs st'). log_core y = log_core x" if "x \<in> set (logs st)" for x
    using that lcore by (metis (no_types, lifting) image_iff list.set_map)
  have genuine: "log_genuine w rs evs y" if "log_core y = log_core x" "log_genuine w rs evs x" for x y
    using that by (simp add: log_core_def log_genuine_def)
  have queue: "\<exists>y \<in> set (logs st'). log_id y = i \<and> log_genuine w rs evs y" if "i \<in> set (queued st')" for i
  proof -
    from that q inv obtain x where "x \<in> set (logs st)" "log_id x = i" "log_genuine w rs evs x" by (auto simp: eda_inv_def)
    with same genuine show ?thesis by (metis fst_conv log_core_def)
  qed
  have "job_genuine w rs evs j" if "j \<in> set js" for j
  proof -
    from that js(2) have "carries r l j" by (simp add: list_all_iff)
    with origin show ?thesis by (auto simp: carries_def job_genuine_def log_genuine_def)
  qed
  with inv core len ids queue js(1) show ?thesis by (auto simp: eda_inv_def)
qed


lemma new_log_core: "log_core (new_log r q p hs st) = (int (length (logs st)) + 1, Some (rule_id r), p)"
  by (simp add: new_log_def log_save_def log_core_def)

definition stores_log :: "eda_state \<Rightarrow> event_rule \<Rightarrow> json \<Rightarrow> event_log \<Rightarrow> bool" where
  "stores_log st r p l \<longleftrightarrow> log_core l = (int (length (logs st)) + 1, Some (rule_id r), p)"

lemma check_signature_true: "check_signature w r b hs = Inr x \<Longrightarrow> x"
  by (auto simp: check_signature_def check_github_signature_def check_gitlab_signature_def
      check_generic_signature_def Let_def split: if_splits prod.splits)

lemma receive_cases:
  assumes "receive w path q st = (x, st')"
  obtains (same) "st' = st"
  | (refused) r p l where "stores_log st r p l" "st' = st\<lparr>logs := logs st @ [l]\<rparr>" "x = Denied"
  | (queued) r p l where "r \<in> set (rules st)" "admitted w r path q" "data q = Some p" "stores_log st r p l"
      "st' = st\<lparr>logs := logs st @ [l], queued := queued st @ [log_id l]\<rparr>" "x = Accepted"
proof (cases "find (\<lambda>r. webhook_path r = path \<and> enabled r) (rules st)")
  case None
  with assms same show ?thesis by (simp add: receive_def)
next
  case (Some r)
  from find_SomeD [OF Some] have r: "r \<in> set (rules st)" "webhook_path r = path" "enabled r" by auto
  define hs where "hs = relevant_headers (meta q)"
  show ?thesis
  proof (cases "check_signature w r (body q) hs")
    case (Inl e)
    show ?thesis
    proof (cases "data q")
      case None
      with assms Some Inl same show ?thesis by (simp add: receive_def hs_def Let_def)
    next
      case data: (Some p)
      define l where "l = (new_log r q p hs st)\<lparr>status := Signature_Failed, error_detail := e\<rparr>"
      have "stores_log st r p l" by (simp add: l_def stores_log_def new_log_def log_save_def log_core_def)
      then show ?thesis
        by (rule refused) (use assms Some Inl data in \<open>simp_all add: receive_def hs_def Let_def l_def\<close>)
    qed
  next
    case (Inr ok)
    with check_signature_true have adm: "admitted w r path q" using r by (auto simp: admitted_def hs_def)
    have "st' = st \<or> (\<exists>p t g. data q = Some p \<and> st' = queue_event r q p hs t g st \<and> x = Accepted)"
      using assms Some Inr
      by (auto simp: receive_def hs_def Let_def split: sum.splits prod.splits if_splits option.splits)
    then show ?thesis
    proof
      assume "\<exists>p t g. data q = Some p \<and> st' = queue_event r q p hs t g st \<and> x = Accepted"
      then obtain p t g where p: "data q = Some p" "st' = queue_event r q p hs t g st" "x = Accepted" by blast
      define l where "l = (new_log r q p hs st)\<lparr>event_type := t, event_guid := g\<rparr>"
      have "stores_log st r p l" by (simp add: l_def stores_log_def new_log_def log_save_def log_core_def)
      with r(1) adm p(1) show ?thesis by (rule queued) (use p in \<open>simp_all add: queue_event_def l_def Let_def\<close>)
    qed (rule same)
  qed
qed

lemma numbered_append:
  "map log_id ls = map (\<lambda>n. int n + 1) [0..<length ls] \<Longrightarrow> log_id l = int (length ls) + 1 \<Longrightarrow>
     map log_id (ls @ [l]) = map (\<lambda>n. int n + 1) [0..<length (ls @ [l])]"
  by simp

lemma receive_inv:
  assumes inv: "eda_inv w rs evs st" and rec: "receive w path q st = (x, st')" and ev: "Request path q \<in> set evs"
  shows "eda_inv w rs evs st'"
  using rec
proof (cases rule: receive_cases)
  case same
  with inv show ?thesis by simp
next
  case (refused r p l)
  with inv show ?thesis by (auto simp: eda_inv_def stores_log_def log_core_def)
next
  case (queued r p l)
  from inv queued(1) obtain r0 where r0: "r0 \<in> set rs" "rule_core r0 = rule_core r"
    unfolding eda_inv_def by (metis (no_types, lifting) image_iff list.set_map)
  then have "from_request w rs evs (rule_id r) p"
    unfolding from_request_def using queued(2,3) ev admitted_core [OF r0(2)] rule_core_fields [OF r0(2)]
    by (intro bexI [of _ r0] exI [of _ path] exI [of _ q]) simp_all
  with queued inv have "log_genuine w rs evs l" by (auto simp: log_genuine_def stores_log_def log_core_def)
  with inv queued show ?thesis by (auto simp: eda_inv_def stores_log_def log_core_def)
qed

lemma eda_step_inv:
  assumes inv: "eda_inv w rs evs st" and ev: "e \<in> set evs"
  shows "eda_inv w rs evs (eda_step atomic w e st)"
proof (cases e)
  case (Request path q)
  obtain x st' where rec: "receive w path q st = (x, st')" by fastforce
  from receive_inv [OF inv rec] ev Request have "eda_inv w rs evs st'" by simp
  with inv Request rec show ?thesis by (simp add: handle_request_def)
next
  case (Evaluate t1 t2 i)
  show ?thesis
  proof (cases "i \<in> set (queued st)")
    case False
    with Evaluate inv show ?thesis by simp
  next
    case True
    with inv obtain l where l: "l \<in> set (logs st)" "log_id l = i" "log_genuine w rs evs l" by (auto simp: eda_inv_def)
    from inv l have get: "get_log i st = Some l" using get_log_unique [of st l] by (simp add: eda_inv_def)
    from l(3) obtain k where k: "event_rule l = Some k" by (auto simp: log_genuine_def)
    show ?thesis
    proof (cases "get_rule k st")
      case None
      obtain r :: event_rule where r: "rule_id r = k" by (metis event_rule.select_convs(1))
      have "eda_step atomic w e st =
          save_log (log_id l) (\<lambda>x. x\<lparr>status := Log_Error, error_detail := ''Event rule has been deleted''\<rparr>) st"
        using None k get True Evaluate by (simp add: evaluate_event_rule_def evaluate_loaded_def)
      then have "evaluates r l st (eda_step atomic w e st)" by (simp add: save_log_evaluates log_core_def)
      from evaluates_inv [OF inv this l(3)] r k show ?thesis by simp
    next
      case (Some r)
      then have "rule_id r = k" using find_SomeD by (fastforce simp: get_rule_def)
      moreover obtain x st' where run: "evaluate_loaded w t1 t2 l (Some r) st = (x, st')" by fastforce
      ultimately show ?thesis
        using evaluates_inv [OF inv evaluate_loaded_evaluates [OF run] l(3)] k get Some True Evaluate
        by (simp add: evaluate_event_rule_def)
    qed
  qed
qed

lemma eda_run_inv: "eda_inv w rs evs st \<Longrightarrow> set es \<subseteq> set evs \<Longrightarrow> eda_inv w rs evs (fold (eda_step atomic w) es st)"
  by (induction es arbitrary: st) (simp_all add: eda_step_inv)

text \<open>
  C4: Nothing starts without a valid signature: whatever requests arrive and whatever the workers
  do, every job the rules have started carries, as \<open>forail_eda_payload\<close>, the data of a request
  that was sent to the path of an enabled rule and passed that rule's signature check.
\<close>

theorem jobs_only_from_signed_requests:
  assumes "logs st = []" "queued st = []" "launches st = []"
    and "j \<in> set (launches (fold (eda_step atomic w) evs st))"
  shows "\<exists>r \<in> set (rules st). \<exists>path q. Request path q \<in> set evs \<and> rule_id r = by_rule j \<and>
    webhook_path r = path \<and> enabled r \<and> check_signature w r (body q) (relevant_headers (meta q)) = Inr True \<and>
    data q \<noteq> None \<and> dict_get (extra_vars j) ''forail_eda_payload'' = data q"
proof -
  from assms(1-3) have "eda_inv w (rules st) evs st" by (simp add: eda_inv_def)
  from eda_run_inv [OF this subset_refl] assms(4) have "job_genuine w (rules st) evs j" by (simp add: eda_inv_def)
  then show ?thesis by (fastforce simp: job_genuine_def from_request_def admitted_def)
qed


subsection \<open>Throttling over a run\<close>

lemma launch_template_rules: "launch_template w kind t e l r st = (x, st') \<Longrightarrow> rules st' = rules st"
  by (auto simp: launch_template_def Let_def split: sum.splits)

lemma notify_rules: "notify w t l r st = Inr st' \<Longrightarrow> rules st' = rules st"
  by (auto simp: notify_def Let_def split: sum.splits option.splits)

lemma execute_action_rules: "execute_action w a l r st = (x, st') \<Longrightarrow> rules st' = rules st"
  by (auto simp: execute_action_def Let_def launch_job_template_def launch_workflow_def
      dest: launch_template_rules notify_rules split: json.splits prod.splits sum.splits if_splits)

lemma run_actions_rules: "run_actions w r l as ts b j st = (x, st') \<Longrightarrow> rules st' = rules st"
proof (induction as arbitrary: ts b j st)
  case Nil
  then show ?case by simp
next
  case (Cons a as)
  obtain y st1 where "execute_action w a l r st = (y, st1)" by fastforce
  with Cons execute_action_rules show ?case by (cases y) fastforce+
qed

definition fired_rules :: "rat \<Rightarrow> int \<Rightarrow> event_rule list \<Rightarrow> event_rule list" where
  "fired_rules now k rs =
     map (\<lambda>x. if rule_id x = k then x\<lparr>last_fired_at := Some now, fire_count := fire_count x + 1\<rparr> else x) rs"

lemma fire_rules:
  "fire w now r l st = (x, st') \<Longrightarrow> rules st' = rules st \<or> rules st' = fired_rules now (rule_id r) (rules st)"
  using run_actions_rules [of w r l _ "[]" False "job_id l" st]
  by (auto simp: fire_def record_firing_def save_log_def log_audit_event_def fired_rules_def Let_def
      split: option.splits prod.splits sum.splits if_splits)

lemma evaluate_loaded_rules:
  assumes "evaluate_loaded w t1 t2 l ro st = (x, st')"
  shows "rules st' = rules st \<or>
    (\<exists>r. ro = Some r \<and> \<not> is_throttled t1 r \<and> rules st' = fired_rules t2 (rule_id r) (rules st))"
  using assms fire_rules
  by (fastforce simp: evaluate_loaded_def save_log_def split: option.splits if_splits sum.splits prod.splits)

lemma get_rule_fired:
  "find (\<lambda>r. rule_id r = k) (fired_rules now k' rs) =
     map_option (\<lambda>r. if k' = k then r\<lparr>last_fired_at := Some now, fire_count := fire_count r + 1\<rparr> else r)
       (find (\<lambda>r. rule_id r = k) rs)"
  by (induction rs) (auto simp: fired_rules_def)

text \<open>An evaluation leaves a rule alone, or fires it: then it was not throttled at the check.\<close>

lemma evaluate_event_rule_get:
  assumes "get_rule k st = Some r"
  shows "get_rule k (snd (evaluate_event_rule w t1 t2 i st)) = Some r \<or>
    \<not> is_throttled t1 r \<and>
    get_rule k (snd (evaluate_event_rule w t1 t2 i st)) =
      Some (r\<lparr>last_fired_at := Some t2, fire_count := fire_count r + 1\<rparr>)"
proof (cases "get_log i st")
  case None
  with assms show ?thesis by (simp add: evaluate_event_rule_def)
next
  case (Some l)
  obtain x st' where run: "evaluate_loaded w t1 t2 l (Option.bind (event_rule l) (\<lambda>k. get_rule k st)) st = (x, st')"
    by fastforce
  from evaluate_loaded_rules [OF run] show ?thesis
  proof
    assume "rules st' = rules st"
    with assms Some run show ?thesis by (simp add: evaluate_event_rule_def get_rule_def)
  next
    assume "\<exists>r'. Option.bind (event_rule l) (\<lambda>k. get_rule k st) = Some r' \<and> \<not> is_throttled t1 r' \<and>
      rules st' = fired_rules t2 (rule_id r') (rules st)"
    then obtain r' k' where r': "get_rule k' st = Some r'" "\<not> is_throttled t1 r'" "rules st' = fired_rules t2 (rule_id r') (rules st)"
      by (cases "event_rule l") auto
    then have "rule_id r' = k'" using find_SomeD by (fastforce simp: get_rule_def)
    with r' assms Some run show ?thesis
      by (cases "k' = k") (auto simp: evaluate_event_rule_def get_rule_def get_rule_fired)
  qed
qed

text \<open>
  The rule \<open>k\<close> under a list of evaluations, each with the times of its check and of its firing and
  the log it takes, as an instance of the contract of \<^theory_text>\<open>Cooldown\<close>.
\<close>

definition evaluate_at :: "world \<Rightarrow> rat \<times> rat \<times> int \<Rightarrow> eda_state \<Rightarrow> eda_state" where
  "evaluate_at w e st = snd (evaluate_event_rule w (fst e) (fst (snd e)) (snd (snd e)) st)"

definition rule_field :: "(event_rule \<Rightarrow> 'a) \<Rightarrow> 'a \<Rightarrow> int \<Rightarrow> eda_state \<Rightarrow> 'a" where
  "rule_field f x k st = (case get_rule k st of None \<Rightarrow> x | Some r \<Rightarrow> f r)"

lemma evaluate_at_cases:
  assumes "get_rule k st = Some r"
  shows "get_rule k (evaluate_at w e st) = Some r \<or>
    \<not> is_throttled (fst e) r \<and>
    get_rule k (evaluate_at w e st) = Some (r\<lparr>last_fired_at := Some (fst (snd e)), fire_count := fire_count r + 1\<rparr>)"
  using evaluate_event_rule_get [OF assms] by (simp add: evaluate_at_def)

lemma not_throttled_rested:
  assumes "\<not> is_throttled t r" "0 \<le> throttle_seconds r" "last_fired_at r = Some f" "f \<le> t"
  shows "of_int (throttle_seconds r) \<le> t - f"
  using assms by (cases "throttle_seconds r = 0") (auto simp: is_throttled_def)

interpretation throttle: rate_limited
  "\<lambda>st. rule_field (\<lambda>r. 0 \<le> throttle_seconds r) False k st" "evaluate_at w" fst "\<lambda>e. fst (snd e)"
  "rule_field last_fired_at None k" "rule_field fire_count 0 k" "rule_field (\<lambda>r. of_int (throttle_seconds r)) 0 k"
  for w k
proof
  fix st and e :: "rat \<times> rat \<times> int"
  assume "rule_field (\<lambda>r. 0 \<le> throttle_seconds r) False k st"
  then obtain r where r: "get_rule k st = Some r" "0 \<le> throttle_seconds r"
    by (auto simp: rule_field_def split: option.splits)
  note step = evaluate_at_cases [OF r(1), of w e]
  from step r show "rule_field (\<lambda>r. 0 \<le> throttle_seconds r) False k (evaluate_at w e st)"
    by (auto simp: rule_field_def)
  from step r show "rule_field (\<lambda>r. of_int (throttle_seconds r)) 0 k (evaluate_at w e st) =
      (rule_field (\<lambda>r. of_int (throttle_seconds r)) 0 k st :: rat)"
    by (auto simp: rule_field_def)
  from r show "(0 :: rat) \<le> rule_field (\<lambda>r. of_int (throttle_seconds r)) 0 k st" by (simp add: rule_field_def)
  from step show "(rule_field fire_count 0 k (evaluate_at w e st) = rule_field fire_count 0 k st \<and>
      rule_field last_fired_at None k (evaluate_at w e st) = rule_field last_fired_at None k st) \<or>
    (rule_field fire_count 0 k (evaluate_at w e st) \<noteq> rule_field fire_count 0 k st \<and>
      rule_field last_fired_at None k (evaluate_at w e st) = Some (fst (snd e)) \<and>
      (\<forall>f. rule_field last_fired_at None k st = Some f \<longrightarrow> f \<le> fst e \<longrightarrow>
        rule_field (\<lambda>r. of_int (throttle_seconds r)) 0 k st \<le> fst e - f))"
    using r not_throttled_rested [OF _ r(2)] by (auto simp: rule_field_def)
qed

definition firings :: "world \<Rightarrow> int \<Rightarrow> (rat \<times> rat \<times> int) list \<Rightarrow> eda_state \<Rightarrow> rat list" where
  "firings w k = firing_times (evaluate_at w) (rule_field fire_count 0 k) (\<lambda>e. fst (snd e))"

definition clock :: "(rat \<times> rat \<times> int) list \<Rightarrow> rat list" where
  "clock = clock_readings fst (\<lambda>e. fst (snd e))"

text \<open>
  C14: A throttled rule fires at most once per period when its evaluations run one after the other
  with a clock that does not run back: any two times at which the rule records a firing, and a
  firing before the run, are at least \<open>throttle_seconds\<close> apart. The conditions, the actions and
  the other rules that are evaluated in between do not matter.
\<close>

theorem throttle_spaces_firings:
  assumes "get_rule k st = Some r" "0 \<le> throttle_seconds r" "sorted (clock es)"
    and "filter (\<lambda>t. \<not> pred_option (\<lambda>f. f \<le> t) (last_fired_at r)) (clock es) = []"
  shows "sorted_wrt (\<lambda>x y. of_int (throttle_seconds r) \<le> y - x)
    (case last_fired_at r of None \<Rightarrow> firings w k es st | Some f \<Rightarrow> f # firings w k es st)"
  using throttle.firings_spaced [of k st es w] assms unfolding firings_def clock_def by (simp add: rule_field_def)

subsection \<open>A concrete run\<close>

definition sample_world :: world where
  "sample_world = \<lparr>hmac_hex = (\<lambda>a k m. a @ k @ m), sha1_hex = rev, render = (\<lambda>t p h. Inr ''__TRUE__''),
     get_template = (\<lambda>kind t. case t of JInt i \<Rightarrow> Inr i | _ \<Rightarrow> Inl ''not found''),
     create_job = (\<lambda>kind t eager vars n. Inr (int n + 1, True)), send_notification = (\<lambda>t s b. None)\<rparr>"

definition sample_rule :: event_rule where
  "sample_rule = \<lparr>rule_id = 1, rule_name = ''deploy'', source_type = ''webhook_generic'', webhook_path = ''d'', enabled = True,
     webhook_key = ''k'', conditions = JList [JDict [(''jinja2_expression'', JStr ''event.ok'')]],
     actions = JList [JDict [(''action_type'', JStr ''launch_job_template''), (''target_id'', JInt 7)]],
     throttle_seconds = 60, last_fired_at = None, fire_count = 0, organization = None\<rparr>"

definition sample_state :: eda_state where
  "sample_state = \<lparr>rules = [sample_rule], logs = [], launches = [], notified = [], audits = [], queued = []\<rparr>"

definition sample_request :: "string \<Rightarrow> eda_request" where
  "sample_request sig = \<lparr>meta = [(''HTTP_X_FORAIL_SIGNATURE'', sig), (''REMOTE_ADDR'', ''10.0.0.1'')],
     body = ''{}'', data = Some (JDict [])\<rparr>"

definition sample_events :: "eda_event list" where
  "sample_events =
     [Request ''d'' (sample_request ''sha256=forged''), Request ''d'' (sample_request ''sha256=sha256k{}''), Evaluate 5 5 1]"

definition sample_job :: launched where
  "sample_job = \<lparr>job_pk = 1, template_kind = ''JobTemplate'', template = 7,
     extra_vars = merged_vars [] sample_rule ((new_log sample_rule (sample_request ''sha256=sha256k{}'') (JDict []) [] sample_state)),
     by_rule = 1, signalled = True\<rparr>"

lemma sample_run:
  "launches (fold (eda_step True sample_world) sample_events sample_state) = [sample_job]"
  by code_simp

lemma jobs_only_from_signed_requests_witness:
  "list_ex (\<lambda>r. rule_id r = 1 \<and> webhook_path r = ''d'' \<and> dict_get (extra_vars sample_job) ''forail_eda_payload'' \<noteq> None)
    (rules sample_state)"
proof -
  have "\<exists>r \<in> set (rules sample_state). \<exists>path q. Request path q \<in> set sample_events \<and> rule_id r = by_rule sample_job \<and>
    webhook_path r = path \<and> enabled r \<and> check_signature sample_world r (body q) (relevant_headers (meta q)) = Inr True \<and>
    data q \<noteq> None \<and> dict_get (extra_vars sample_job) ''forail_eda_payload'' = data q"
    by (rule jobs_only_from_signed_requests [where atomic = True]) (simp_all add: sample_run, simp_all add: sample_state_def)
  then show ?thesis by (auto simp: sample_state_def sample_rule_def sample_job_def sample_events_def)
qed

text \<open>Two logs of one rule, evaluated within its period, at different times and at the same time.\<close>

definition two_logs :: eda_state where
  "two_logs = fold (eda_step True sample_world)
     [Request ''d'' (sample_request ''sha256=sha256k{}''), Request ''d'' (sample_request ''sha256=sha256k{}'')] sample_state"

lemma throttle_spaces_firings_witness:
  "firings sample_world 1 [(5, 6, 1), (20, 21, 2), (70, 71, 2)] two_logs = [6, 71] \<and> (60 :: rat) \<le> 71 - 6"
proof -
  have run: "firings sample_world 1 [(5, 6, 1), (20, 21, 2), (70, 71, 2)] two_logs = [6, 71]" by code_simp
  have rule: "get_rule 1 two_logs = Some sample_rule" by code_simp
  have "sorted_wrt (\<lambda>x y. of_int (throttle_seconds sample_rule) \<le> y - x)
      (case last_fired_at sample_rule of None \<Rightarrow> firings sample_world 1 [(5, 6, 1), (20, 21, 2), (70, 71, 2)] two_logs
       | Some f \<Rightarrow> f # firings sample_world 1 [(5, 6, 1), (20, 21, 2), (70, 71, 2)] two_logs)"
    by (rule throttle_spaces_firings [OF rule]) (simp_all add: sample_rule_def clock_def clock_readings_def)
  with run show ?thesis by (simp add: sample_rule_def)
qed

text \<open>
  When two workers read the rule before either has fired, both fire: the second has not seen the
  new \<open>last_fired_at\<close>.
\<close>

lemma concurrent_evaluations_both_fire:
  "let l1 = the (get_log 1 two_logs); l2 = the (get_log 2 two_logs); r = the (get_rule 1 two_logs);
       st = snd (evaluate_loaded sample_world 5 6 l2 (Some r) (snd (evaluate_loaded sample_world 5 6 l1 (Some r) two_logs)))
   in throttle_seconds r = 60 \<and> length (launches st) = 2 \<and> map status (logs st) = [Action_Fired, Action_Fired]"
  by code_simp

text \<open>
  What the receiver meant to keep of a refused request is lost: inside the transaction of the
  request the log of a failed signature is stored and taken back by the exception that answers
  the request, so the tables stay as they were.
\<close>

theorem failed_signatures_leave_no_log:
  assumes "handle_request True w path q st = (Denied, st')"
  shows "st' = st"
  using assms by (simp add: handle_request_def raised_def split: prod.splits)

lemma failed_signatures_leave_no_log_witness:
  "handle_request True sample_world ''d'' (sample_request ''sha256=forged'') sample_state = (Denied, sample_state) \<and>
   map status (logs (snd (receive sample_world ''d'' (sample_request ''sha256=forged'') sample_state))) = [Signature_Failed]"
proof -
  have x: "fst (handle_request True sample_world ''d'' (sample_request ''sha256=forged'') sample_state) = Denied" by code_simp
  have "handle_request True sample_world ''d'' (sample_request ''sha256=forged'') sample_state =
      (Denied, snd (handle_request True sample_world ''d'' (sample_request ''sha256=forged'') sample_state))"
    by (rule prod_eqI) (simp_all add: x)
  moreover from failed_signatures_leave_no_log [OF this]
  have "snd (handle_request True sample_world ''d'' (sample_request ''sha256=forged'') sample_state) = sample_state" .
  moreover have "map status (logs (snd (receive sample_world ''d'' (sample_request ''sha256=forged'') sample_state))) =
      [Signature_Failed]" by code_simp
  ultimately show ?thesis by simp
qed

text \<open>
  A worker that takes the message of the queue before the transaction of the request is committed
  does not find the log, and returns: the event is lost.
\<close>

lemma early_worker_drops_event:
  assumes "stores_log st r p l" "map log_id (logs st) = map (\<lambda>n. int n + 1) [0..<length (logs st)]"
  shows "evaluate_event_rule w t1 t2 (log_id l) st = (None, st)"
proof -
  have "log_id x \<noteq> log_id l" if "x \<in> set (logs st)" for x
  proof -
    from that assms(2) have "log_id x \<in> set (map (\<lambda>n. int n + 1) [0..<length (logs st)])" by (metis list.set_map imageI)
    with assms(1) show ?thesis by (auto simp: stores_log_def log_core_def)
  qed
  then have "get_log (log_id l) st = None" by (auto simp: get_log_def find_None_iff)
  then show ?thesis by (simp add: evaluate_event_rule_def)
qed


subsection \<open>Outbound webhooks and receivers agree\<close>

lemma relevant_fold_other:
  "b \<notin> snd ` set ns \<Longrightarrow>
     dict_get (fold (\<lambda>kn hs. case dict_get mt (fst kn) of None \<Rightarrow> hs | Some v \<Rightarrow> dict_set (snd kn) (JStr v) hs) ns hs) b =
     dict_get hs b"
  by (induction ns arbitrary: hs) (auto simp: dict_simps split: option.split)

lemma relevant_fold:
  "distinct (map snd ns) \<Longrightarrow> (a, b) \<in> set ns \<Longrightarrow>
     dict_get (fold (\<lambda>kn hs. case dict_get mt (fst kn) of None \<Rightarrow> hs | Some v \<Rightarrow> dict_set (snd kn) (JStr v) hs) ns hs) b =
     (case dict_get mt a of None \<Rightarrow> dict_get hs b | Some v \<Rightarrow> Some (JStr v))"
proof (induction ns arbitrary: hs)
  case Nil
  then show ?case by simp
next
  case (Cons kn ns)
  show ?case
  proof (cases "kn = (a, b)")
    case True
    with Cons.prems have "b \<notin> snd ` set ns" by auto
    with True show ?thesis by (simp add: relevant_fold_other dict_simps split: option.split)
  next
    case False
    with Cons.prems have "(a, b) \<in> set ns" "snd kn \<noteq> b" by (auto simp: rev_image_eqI)
    with Cons.IH Cons.prems show ?thesis by (simp add: dict_simps split: option.split)
  qed
qed

text \<open>The header fields the receiver keeps, one by one.\<close>

lemma relevant_headers_get:
  assumes "(a, b) \<in> set header_names"
  shows "dict_get (relevant_headers mt) b = map_option JStr (dict_get mt a)"
proof -
  have "distinct (map snd header_names)" by (simp add: header_names_def)
  from relevant_fold [OF this assms, of mt "[]"] show ?thesis
    by (simp only: relevant_headers_def) (simp split: option.split)
qed

lemma signature_header_name: "(''HTTP_X_FORAIL_SIGNATURE'', ''X-Forail-Signature'') \<in> set header_names"
  by (simp add: header_names_def)

lemma signature_header:
  "dict_get mt ''HTTP_X_FORAIL_SIGNATURE'' = Some v \<Longrightarrow> header (relevant_headers mt) ''X-Forail-Signature'' = v"
  using relevant_headers_get [OF signature_header_name, of mt] by (simp add: header_def)

lemma outbound_signature:
  assumes "outbound_headers w h b = Inr hs" "key h \<noteq> []"
  shows "header hs ''X-Forail-Signature'' = ''sha256='' @ hmac_hex w ''sha256'' (key h) b"
  using assms by (auto simp: outbound_headers_def header_def dict_simps Let_def split: sum.splits)

lemma split_once_append: "c \<notin> set s \<Longrightarrow> split_once c (s @ c # t) = (s, t)"
  by (simp add: split_once_def takeWhile_append dropWhile_append)

text \<open>
  C15: What an outbound webhook sends is what a generic rule with the same key takes: whatever
  headers are configured and whatever the hash function is, the signature it puts on the bytes
  passes the check of the rule, and the bytes parse to the data that was sent.
\<close>

theorem outbound_webhook_received:
  assumes "outbound_headers w h (payload_bytes d) = Inr hs" "key h \<noteq> []" "jsonable d"
    and "webhook_key r = key h" "source_type r \<notin> {''webhook_github'', ''webhook_gitlab''}"
    and "body q = payload_bytes d"
    and "dict_get (meta q) ''HTTP_X_FORAIL_SIGNATURE'' = Some (header hs ''X-Forail-Signature'')"
  shows "check_signature w r (body q) (relevant_headers (meta q)) = Inr True \<and> json_loads (body q) = Some d"
proof
  have "header (relevant_headers (meta q)) ''X-Forail-Signature'' =
      ''sha256'' @ CHR ''='' # hmac_hex w ''sha256'' (key h) (payload_bytes d)"
    using signature_header [OF assms(7)] outbound_signature [OF assms(1,2)] by simp
  moreover have "split_once (CHR ''='') (''sha256'' @ CHR ''='' # m) = (''sha256'', m)" for m
    by (rule split_once_append) simp
  ultimately have "check_generic_signature w r (body q) (relevant_headers (meta q)) = Inr True"
    using assms(4,6) by (simp add: check_generic_signature_def Let_def)
  with assms(2,4,5) show "check_signature w r (body q) (relevant_headers (meta q)) = Inr True"
    by (simp add: check_signature_def)
  show "json_loads (body q) = Some d" using assms(3,6) by (simp add: payload_bytes_def json_loads_dumps)
qed

definition sample_webhook :: outbound_webhook where
  "sample_webhook = \<lparr>webhook_id = 1, webhook_name = ''out'', url = ''https://b/'', key = ''k'',
     events = JList [JStr ''job.failed''], custom_headers = JDict [(''X-Forail-Signature'', JStr ''mine'')],
     webhook_enabled = True, ssl_verify = True, last_status = [], last_sent_at = None, last_error = []\<rparr>"

lemma outbound_webhook_received_witness:
  "check_signature sample_world sample_rule (json_dumps (test_data ''now''))
     (relevant_headers [(''HTTP_X_FORAIL_SIGNATURE'', ''sha256=sha256k'' @ json_dumps (test_data ''now''))]) = Inr True \<and>
   json_loads (json_dumps (test_data ''now'')) = Some (test_data ''now'')"
proof -
  define sig where "sig = ''sha256=sha256k'' @ json_dumps (test_data ''now'')"
  define q :: eda_request where "q = \<lparr>meta = [(''HTTP_X_FORAIL_SIGNATURE'', sig)],
      body = json_dumps (test_data ''now''), data = None\<rparr>"
  have "\<exists>hs. outbound_headers sample_world sample_webhook b = Inr hs" for b
    by (simp add: outbound_headers_def sample_webhook_def or_empty_def dict_of_def Let_def)
  then obtain hs where hs: "outbound_headers sample_world sample_webhook (payload_bytes (test_data ''now'')) = Inr hs" ..
  have sig: "header hs ''X-Forail-Signature'' = sig"
    using outbound_signature [OF hs] by (simp add: sample_webhook_def sample_world_def sig_def payload_bytes_def)
  have "check_signature sample_world sample_rule (body q) (relevant_headers (meta q)) = Inr True \<and>
      json_loads (body q) = Some (test_data ''now'')"
  proof (rule outbound_webhook_received [OF hs])
    show "jsonable (test_data ''now'')" by (simp add: test_data_def)
  qed (simp_all only: sig, simp_all add: q_def payload_bytes_def sample_webhook_def sample_rule_def)
  then show ?thesis by (simp add: q_def sig_def)
qed

subsection \<open>When a rule fires\<close>

text \<open>The conditions all match, or there is none.\<close>

definition all_match :: "world \<Rightarrow> json \<Rightarrow> py_dict \<Rightarrow> json list \<Rightarrow> bool" where
  "all_match w payl hs cs \<longleftrightarrow> list_all (\<lambda>c. case c of
     JDict d \<Rightarrow> (case render w (condition_template (dict_get_default d ''jinja2_expression'' (JStr []))) payl hs of
                  Inr t \<Rightarrow> strip t = ''__TRUE__'' | Inl _ \<Rightarrow> False)
   | _ \<Rightarrow> False) cs"

lemma condition_loop_exact:
  assumes "list_all is_dict cs"
  shows "\<exists>entries. condition_loop w payl hs cs b results = Inr (b \<and> all_match w payl hs cs, results @ entries) \<and>
    length entries = length cs"
  using assms
proof (induction cs arbitrary: b results)
  case Nil
  then show ?case by (simp add: all_match_def)
next
  case (Cons c cs)
  then obtain d where c: "c = JDict d" by (cases c) (auto simp: is_dict_def)
  obtain m e where me: "evaluate_condition w payl hs d = (m, e)" by fastforce
  then have m: "m \<longleftrightarrow> (case render w (condition_template (dict_get_default d ''jinja2_expression'' (JStr []))) payl hs of
      Inr t \<Rightarrow> strip t = ''__TRUE__'' | Inl _ \<Rightarrow> False)"
    by (auto simp: evaluate_condition_def Let_def split: sum.splits)
  from Cons obtain entries where "condition_loop w payl hs cs (b \<and> m) (results @ [e]) =
      Inr ((b \<and> m) \<and> all_match w payl hs cs, (results @ [e]) @ entries)" "length entries = length cs" by fastforce
  with c me m show ?case by (intro exI [of _ "e # entries"]) (auto simp: all_match_def)
qed

text \<open>
  The conditions of a rule are a conjunction: for a list of dictionaries the evaluation never
  raises, it says that all matched exactly when every expression, alone, renders to true on the
  event (an expression that raises counts as false and stops nothing), and it keeps one entry per
  condition.
\<close>

theorem conditions_are_a_conjunction:
  assumes "conds = JList cs" "list_all is_dict cs"
  shows "\<exists>entries. evaluate_conditions w conds payl hs = Inr (all_match w payl hs cs, entries) \<and>
    length entries = length cs"
proof (cases cs)
  case Nil
  with assms show ?thesis by (simp add: evaluate_conditions_def all_match_def)
next
  case (Cons c cs')
  with condition_loop_exact [OF assms(2), of w payl hs True "[]"] assms(1) show ?thesis
    by (simp add: evaluate_conditions_def iterate_def)
qed

lemma conditions_are_a_conjunction_witness:
  "map_sum id fst (evaluate_conditions sample_world (conditions sample_rule) JNull []) = Inr True"
proof -
  have c: "conditions sample_rule = JList [JDict [(''jinja2_expression'', JStr ''event.ok'')]]" by (simp add: sample_rule_def)
  have "all_match sample_world JNull [] [JDict [(''jinja2_expression'', JStr ''event.ok'')]]"
    by (simp add: all_match_def sample_world_def strip_def is_space_def Let_def)
  with conditions_are_a_conjunction [OF c, of sample_world JNull "[]"] show ?thesis by (auto simp: is_dict_def)
qed

text \<open>
  An action that is no dictionary takes the evaluation down after the log was marked as matched:
  earlier actions stay done, and the firing is not recorded.
\<close>

lemma broken_action_hides_firing:
  "let r = sample_rule\<lparr>actions := JList [JDict [(''action_type'', JStr ''launch_workflow''), (''target_id'', JInt 7)], JStr ''x'']\<rparr>;
       l = the (get_log 1 two_logs);
       res = evaluate_loaded sample_world 5 6 l (Some r) (two_logs\<lparr>rules := [r]\<rparr>)
   in fst res \<noteq> None \<and> length (launches (snd res)) = 1 \<and> map status (logs (snd res)) = [Matched, Received] \<and>
      map last_fired_at (rules (snd res)) = [None]"
  by code_simp


end
