(* ===== verification/Drift.thy ===== *)
theory Drift
  imports PyJson Cooldown
begin

section \<open>Drift of host facts\<close>

text \<open>
  Models \<^verbatim>\<open>forail/main/tasks/drift.py\<close> (snapshots, their comparison, alert rules and
  the cleanup) and the methods of \<^verbatim>\<open>forail/main/models/drift.py\<close>. The facts of a host
  are a Python dictionary, a table is a list of rows, SHA-256 and the sending of a notification
  are arguments. \<^const>\<open>None\<close> stands for an exception that leaves the function.
\<close>

subsection \<open>Severities and categories\<close>

definition severity_order :: "(string \<times> nat) list" where
  "severity_order = [(''low'', 0), (''medium'', 1), (''high'', 2), (''critical'', 3)]"

definition category_map :: "(string \<times> string \<times> string) list" where
  "category_map =
     [(''ansible_pkg_mgr'', ''packages'', ''medium''), (''ansible_packages'', ''packages'', ''medium''),
      (''ansible_apparmor'', ''kernel'', ''medium''), (''ansible_selinux'', ''kernel'', ''high''),
      (''ansible_services'', ''services'', ''medium''), (''ansible_service_mgr'', ''services'', ''low''),
      (''ansible_user_dir'', ''users_groups'', ''high''), (''ansible_user_id'', ''users_groups'', ''high''),
      (''ansible_user_uid'', ''users_groups'', ''high''), (''ansible_user_gid'', ''users_groups'', ''high''),
      (''ansible_user_gecos'', ''users_groups'', ''medium''), (''ansible_user_shell'', ''users_groups'', ''high''),
      (''ansible_all_ipv4_addresses'', ''network'', ''high''), (''ansible_all_ipv6_addresses'', ''network'', ''high''),
      (''ansible_default_ipv4'', ''network'', ''high''), (''ansible_default_ipv6'', ''network'', ''medium''),
      (''ansible_interfaces'', ''network'', ''medium''), (''ansible_dns'', ''network'', ''medium''),
      (''ansible_domain'', ''network'', ''medium''), (''ansible_fqdn'', ''network'', ''medium''),
      (''ansible_hostname'', ''network'', ''low''), (''ansible_mounts'', ''mounts'', ''medium''),
      (''ansible_devices'', ''mounts'', ''low''), (''ansible_kernel'', ''kernel'', ''critical''),
      (''ansible_kernel_version'', ''kernel'', ''critical''), (''ansible_cmdline'', ''kernel'', ''high''),
      (''ansible_sysctl'', ''kernel'', ''high''), (''ansible_architecture'', ''kernel'', ''low''),
      (''ansible_bios_date'', ''other'', ''low''), (''ansible_bios_version'', ''other'', ''low''),
      (''ansible_date_time'', ''other'', ''low''), (''ansible_distribution'', ''other'', ''low''),
      (''ansible_distribution_version'', ''other'', ''medium''), (''ansible_os_family'', ''other'', ''low''),
      (''ansible_product_name'', ''other'', ''low''), (''ansible_python'', ''other'', ''low''),
      (''ansible_processor'', ''other'', ''low''), (''ansible_memtotal_mb'', ''other'', ''low''),
      (''ansible_swaptotal_mb'', ''other'', ''low''), (''ansible_uptime_seconds'', ''other'', ''low'')]"

definition mentions :: "string \<Rightarrow> string list \<Rightarrow> bool" where
  "mentions s ps \<longleftrightarrow> list_ex (contains s) ps"

definition classify_fact :: "string \<Rightarrow> string \<times> string" where
  "classify_fact key =
     (case map_of category_map key of
        Some c \<Rightarrow> c
      | None \<Rightarrow>
          (let l = lower key
           in if mentions l [''package'', ''pip'', ''gem''] then (''packages'', ''medium'')
              else if mentions l [''service'', ''systemd''] then (''services'', ''medium'')
              else if mentions l [''user'', ''group'', ''passwd''] then (''users_groups'', ''high'')
              else if mentions l [''ip'', ''network'', ''port'', ''tcp'', ''udp''] then (''network'', ''high'')
              else if mentions l [''mount'', ''disk'', ''fs'', ''lvm''] then (''mounts'', ''medium'')
              else if mentions l [''kernel'', ''sysctl'', ''selinux''] then (''kernel'', ''high'')
              else (''other'', ''low'')))"

subsection \<open>Comparing two sets of facts\<close>

definition diff_type :: "json \<Rightarrow> json \<Rightarrow> string" where
  "diff_type old_val new_val =
     (if old_val = JNull then ''added'' else if new_val = JNull then ''removed'' else ''changed'')"

text \<open>The number of different strings of the first list that the second lacks.\<close>

definition count_new :: "string list \<Rightarrow> string list \<Rightarrow> int" where
  "count_new xs ys = int (length (remdups (filter (\<lambda>x. x \<notin> set ys) xs)))"

definition changed_keys :: "py_dict \<Rightarrow> py_dict \<Rightarrow> string list" where
  "changed_keys old new =
     filter (\<lambda>k. k \<in> set (dict_keys new) \<and> \<not> py_eq (get old k) (get new k)) (dict_keys old)"

definition summarize_change :: "string \<Rightarrow> json \<Rightarrow> json \<Rightarrow> string \<Rightarrow> string" where
  "summarize_change key old_val new_val diff_kind =
     (if diff_kind = ''added'' then key @ '': added''
      else if diff_kind = ''removed'' then key @ '': removed''
      else case (old_val, new_val) of
        (JList xs, JList ys) \<Rightarrow>
          (let added = count_new (map py_str ys) (map py_str xs); removed = count_new (map py_str xs) (map py_str ys);
               parts = (if added \<noteq> 0 then [''+'' @ int_str added] else []) @ (if removed \<noteq> 0 then [''-'' @ int_str removed] else [])
           in if parts \<noteq> [] then key @ '': '' @ join '', '' parts @ '' items'' else key @ '': changed'')
      | (JDict d, JDict e) \<Rightarrow>
          (let added = count_new (dict_keys e) (dict_keys d); removed = count_new (dict_keys d) (dict_keys e);
               changed = int (length (remdups (changed_keys d e)));
               parts = (if added \<noteq> 0 then [''+'' @ int_str added @ '' keys''] else []) @
                       (if removed \<noteq> 0 then [''-'' @ int_str removed @ '' keys''] else []) @
                       (if changed \<noteq> 0 then [''~'' @ int_str changed @ '' keys''] else [])
           in if parts \<noteq> [] then key @ '': '' @ join '', '' parts else key @ '': changed'')
      | _ \<Rightarrow> key @ '': '' @ py_repr old_val @ '' -> '' @ py_repr new_val)"

text \<open>
  \<open>_truncate\<close>: a value that prints to more than \<open>max_len\<close> characters is cut there, given an end,
  and parsed again.
\<close>

definition cut_mark :: string where
  "cut_mark = ''...'' @ [quote] @ ''truncated'' @ [quote] @ ''}''"

definition truncate_value :: "json \<Rightarrow> json option" where
  "truncate_value v =
     (let s = json_dumps v
      in if int (length s) > 2000 then json_loads (take 1980 s @ cut_mark) else Some v)"

record drift_item =
  fact_path :: string
  category :: string
  severity :: string
  summary :: string
  before :: json
  after :: json
  item_diff_type :: string

definition skip_keys :: "string list" where
  "skip_keys = [''ansible_date_time'', ''ansible_uptime_seconds'', ''ansible_local'', ''module_setup'', ''gather_subset'',
     ''ansible_fibre_channel_wwn'']"

definition drift_of :: "py_dict \<Rightarrow> py_dict \<Rightarrow> string \<Rightarrow> drift_item option" where
  "drift_of old new k =
     (let old_val = get old k; new_val = get new k; kind = diff_type old_val new_val
      in case (truncate_value old_val, truncate_value new_val) of
           (Some b, Some a) \<Rightarrow>
             Some \<lparr>fact_path = k, category = fst (classify_fact k), severity = snd (classify_fact k),
               summary = summarize_change k old_val new_val kind, before = b, after = a, item_diff_type = kind\<rparr>
         | _ \<Rightarrow> None)"

definition all_keys :: "py_dict \<Rightarrow> py_dict \<Rightarrow> string list" where
  "all_keys old new = sort (remdups (dict_keys old @ dict_keys new))"

text \<open>The loop over the keys: the keys that are compared and differ give an item each.\<close>

fun drift_loop :: "py_dict \<Rightarrow> py_dict \<Rightarrow> string list \<Rightarrow> drift_item list option" where
  "drift_loop old new [] = Some []"
| "drift_loop old new (k # ks) =
     (if k \<in> set skip_keys then drift_loop old new ks
      else if py_eq (get old k) (get new k) then drift_loop old new ks
      else case drift_of old new k of
        None \<Rightarrow> None
      | Some d \<Rightarrow> map_option ((#) d) (drift_loop old new ks))"

definition compute_drift :: "py_dict \<Rightarrow> py_dict \<Rightarrow> drift_item list option" where
  "compute_drift old new = drift_loop old new (all_keys old new)"

subsection \<open>A cut text never parses\<close>

text \<open>
  The end \<^const>\<open>cut_mark\<close> is no end of a JSON text, whatever stands before it: its second quote
  closes the string its first quote opens, and before that stands a dot. After every part of the
  parser the rest of the input still ends in the whole mark, or the mark was entered by a string
  and what is left of it is not what a parser expects there.
\<close>

definition cut_rest :: string where
  "cut_rest = ''truncated'' @ [quote] @ ''}''"

definition after_cut :: "string \<Rightarrow> bool" where
  "after_cut r \<longleftrightarrow> suffix cut_mark r \<or> r = cut_rest"

lemma suffix_append [simp]: "suffix s (a @ s)"
  by (rule suffixI) simp

lemma after_cut_append: "after_cut (a @ cut_mark)"
  by (simp add: after_cut_def)

lemma cut_mark_chars: "cut_mark = CHR ''.'' # CHR ''.'' # CHR ''.'' # quote # cut_rest"
  by (simp add: cut_mark_def cut_rest_def)

lemma js_string_cut_mark: "js_string cut_mark = Some (''...'', cut_rest)"
  by (simp add: cut_mark_chars special_chars)

lemma js_string_after_cut: "js_string (a @ cut_mark) = Some (u, r) \<Longrightarrow> after_cut r"
proof (induction a arbitrary: u rule: length_induct)
  case (1 a)
  have dot: "hex_val (CHR ''.'') = None" "unescape (CHR ''.'') = None"
    by (simp_all add: hex_val_def unescape_def special_chars)
  show ?case
  proof (cases a)
    case Nil
    with 1 show ?thesis by (simp add: js_string_cut_mark after_cut_def)
  next
    case (Cons c b)
    have step: "js_string (b' @ cut_mark) = Some (u', r) \<Longrightarrow> length b' < length a \<Longrightarrow> after_cut r" for b' u'
      using "1.IH" by blast
    show ?thesis
    proof (cases "c = backslash")
      case False
      with "1.prems" Cons step [of b] show ?thesis
        by (auto simp: after_cut_append split: if_splits)
    next
      case True
      have q: "backslash \<noteq> quote" by (simp add: special_chars)
      show ?thesis
      proof (cases b)
        case Nil
        with "1.prems" Cons True q dot show ?thesis by (simp add: cut_mark_chars)
      next
        case b: (Cons e d)
        show ?thesis
        proof (cases "e = CHR ''u''")
          case False
          with "1.prems" Cons True q b step [of d] show ?thesis by (auto split: option.splits)
        next
          case u: True
          consider "d = []" | x where "d = [x]" | x y where "d = [x, y]" | x y z where "d = [x, y, z]"
            | x y z v b' where "d = x # y # z # v # b'"
            by (metis list.exhaust)
          then show ?thesis
            by cases (use "1.prems" Cons True q b u dot step in
              \<open>auto simp: cut_mark_chars hex4_def split: option.splits if_splits prod.splits\<close>)
        qed
      qed
    qed
  qed
qed

text \<open>Skipping and numbers stop before the mark.\<close>

lemma dropWhile_cut: "\<not> P (CHR ''.'') \<Longrightarrow> \<exists>b. dropWhile P (a @ cut_mark) = b @ cut_mark"
  by (induction a) (auto simp: cut_mark_chars)

lemma suffix_dropWhile_cut: "suffix cut_mark s \<Longrightarrow> \<not> P (CHR ''.'') \<Longrightarrow> suffix cut_mark (dropWhile P s)"
  using dropWhile_cut [of P] by (metis suffix_def suffix_append)

lemma skip_cut: "suffix cut_mark s \<Longrightarrow> suffix cut_mark (skip s)"
  unfolding skip_def by (erule suffix_dropWhile_cut) (simp add: js_space_def)

text \<open>A character in front that is not a dot was not part of the mark.\<close>

lemma drop_char_cut: "suffix cut_mark s \<Longrightarrow> starts_with s [c] \<Longrightarrow> c \<noteq> CHR ''.'' \<Longrightarrow> suffix cut_mark (drop 1 s)"
proof -
  assume a: "suffix cut_mark s" "starts_with s [c]" "c \<noteq> CHR ''.''"
  then obtain b where "s = b @ cut_mark" by (auto simp: suffix_def)
  with a(2,3) show ?thesis by (cases b) (auto simp: starts_with_char cut_mark_chars)
qed

lemma take_digits_cut: "suffix cut_mark t \<Longrightarrow> suffix cut_mark (snd (take_digits t))"
  unfolding take_digits_def by (simp add: suffix_dropWhile_cut is_decimal_def)

lemma js_fraction_cut:
  assumes t: "suffix cut_mark t"
  shows "suffix cut_mark (snd (js_fraction t))"
proof (cases "starts_with t [CHR ''.'']")
  case False
  then have "js_fraction t = ([], t)"
    by (cases t) (auto simp: js_fraction_def starts_with_char split: char.splits bool.splits)
  with t show ?thesis by simp
next
  case True
  then obtain u where u: "t = CHR ''.'' # u" by (cases t) (auto simp: starts_with_char)
  from t obtain b where b: "t = b @ cut_mark" by (auto simp: suffix_def)
  show ?thesis
  proof (cases b)
    case Nil
    then show ?thesis using b t by (simp add: cut_mark_chars js_fraction_def take_digits_def is_decimal_def)
  next
    case (Cons c d)
    with b u have "suffix cut_mark u" by simp
    with take_digits_cut [OF this] t u show ?thesis by (auto simp: js_fraction_def split: prod.splits)
  qed
qed

lemma suffix_tail_cut: "suffix cut_mark (x # v) \<Longrightarrow> x \<noteq> CHR ''.'' \<Longrightarrow> suffix cut_mark v"
  using drop_char_cut [of "x # v" x] by (simp add: starts_with_char)

lemma js_exponent_cut:
  assumes s: "suffix cut_mark s"
  shows "suffix cut_mark (snd (js_exponent s))"
proof (cases s)
  case Nil
  with s show ?thesis by (simp add: js_exponent_def)
next
  case (Cons c t)
  show ?thesis
  proof (cases "c = CHR ''e'' \<or> c = CHR ''E''")
    case False
    with Cons s show ?thesis by (simp add: js_exponent_def)
  next
    case True
    with s Cons have t: "suffix cut_mark t" by (auto dest: suffix_tail_cut)
    obtain sign u where u: "(case t of x # v \<Rightarrow> if x = CHR ''-'' then (-1, v) else if x = CHR ''+'' then (1, v) else (1, t)
        | [] \<Rightarrow> (1 :: int, t)) = (sign, u)" by fastforce
    with t have "suffix cut_mark u" by (auto split: list.splits if_splits dest: suffix_tail_cut)
    from take_digits_cut [OF this] obtain d r where r: "take_digits u = (d, r)" "suffix cut_mark r"
      by (metis prod.collapse)
    have "js_exponent s = (if d = [] then (None, s) else (Some (take (length s - length r) s, sign * digits_value d), r))"
      using Cons True by (simp only: js_exponent_def list.case if_True u r(1) Let_def prod.case)
    with r(2) s show ?thesis by simp
  qed
qed

lemma js_number_cut:
  assumes "suffix cut_mark s" "js_number s = Some (v, r)"
  shows "suffix cut_mark r"
proof -
  obtain neg t where t: "(if starts_with s ''-'' then (True, drop 1 s) else (False, s)) = (neg, t)" by fastforce
  with assms(1) drop_char_cut [of s "CHR ''-''"] have t': "suffix cut_mark t" by (auto split: if_splits)
  obtain whole r1 where r1: "(if starts_with t ''0'' then (''0'', drop 1 t) else take_digits t) = (whole, r1)" by fastforce
  with take_digits_cut [OF t'] drop_char_cut [OF t', of "CHR ''0''"] have r1': "suffix cut_mark r1"
    by (auto split: if_splits)
  obtain frac r2 where r2: "js_fraction r1 = (frac, r2)" by fastforce
  with js_fraction_cut [OF r1'] have r2': "suffix cut_mark r2" by simp
  obtain ex r3 where r3: "js_exponent r2 = (ex, r3)" by fastforce
  with js_exponent_cut [OF r2'] have "suffix cut_mark r3" by simp
  moreover have "r = r3" using assms(2) t r1 r2 r3 by (auto simp: js_number_def Let_def split: if_splits)
  ultimately show ?thesis by simp
qed

lemma word_before_cut:
  assumes "suffix cut_mark s" "starts_with s p" "CHR ''.'' \<notin> set p" "length p = n"
  shows "suffix cut_mark (drop n s)"
  using assms
proof (induction p arbitrary: s n)
  case Nil
  then show ?case by simp
next
  case (Cons c p)
  then obtain t where s: "s = c # t" "starts_with t p" by (cases s) (auto simp: starts_with_def)
  with Cons show ?case by (auto dest: suffix_tail_cut)
qed

lemma js_literal_cut: "suffix cut_mark s \<Longrightarrow> js_literal s = Some (v, r) \<Longrightarrow> suffix cut_mark r"
  using word_before_cut [of s "''null''" 4] word_before_cut [of s "''true''" 4] word_before_cut [of s "''false''" 5]
  by (auto simp: js_literal_def js_number_cut split: if_splits)

lemma js_string_tail_cut: "suffix cut_mark s \<Longrightarrow> js_string s = Some (u, r) \<Longrightarrow> after_cut r"
  by (auto simp: suffix_def dest: js_string_after_cut)

text \<open>What is left of the mark after a string is nothing that a parser takes.\<close>

lemma cut_rest_stops:
  "skip cut_rest = cut_rest" "\<not> starts_with cut_rest '']''" "\<not> starts_with cut_rest '',''"
  "\<not> starts_with cut_rest '':''" "\<not> starts_with cut_rest ''}''"
  by (simp_all add: cut_rest_def skip_def js_space_def starts_with_char)

lemma after_cut_cases:
  assumes "after_cut r" obtains (before) "suffix cut_mark r" | (inside) "r = cut_rest"
  using assms by (auto simp: after_cut_def)

lemma js_value_cut:
  "js_value n s = Some (v, r) \<Longrightarrow> suffix cut_mark s \<Longrightarrow> after_cut r"
  and "js_items n s = Some (vs, r) \<Longrightarrow> suffix cut_mark s \<Longrightarrow> suffix cut_mark r"
  and "js_members n s = Some (kvs, r) \<Longrightarrow> suffix cut_mark s \<Longrightarrow> suffix cut_mark r"
proof (induction n arbitrary: s v vs kvs r)
  case 0
  {
    case 1
    then show ?case by simp
  next
    case 2
    then show ?case by simp
  next
    case 3
    then show ?case by simp
  }
next
  case (Suc n)
  have skip_drop: "suffix cut_mark (drop 1 (skip t))" if "suffix cut_mark t" "starts_with (skip t) [c]" "c \<noteq> CHR ''.''" for t c
    using drop_char_cut [OF skip_cut [OF that(1)] that(2,3)] .
  {
    case 1
    then obtain c cs where s: "s = c # cs" by (cases s) auto
    show ?case
    proof (cases "c = quote \<or> c = CHR ''['' \<or> c = CHR ''{''")
      case False
      with 1 s have "js_literal s = Some (v, r)" by simp
      from js_literal_cut [OF 1(2) this] show ?thesis by (simp add: after_cut_def)
    next
      case True
      with 1(2) s have cs: "suffix cut_mark cs" by (auto simp: special_chars dest: suffix_tail_cut)
      note skipped = skip_cut [OF cs]
      consider "c = quote" | "c = CHR ''[''" | "c = CHR ''{''" using True by blast
      then show ?thesis
      proof cases
        assume "c = quote"
        with 1 s obtain u where "js_string cs = Some (u, r)" by auto
        from js_string_tail_cut [OF cs this] show ?thesis .
      next
        assume c: "c = CHR ''[''"
        show ?thesis
        proof (cases "starts_with (skip cs) '']''")
          case True
          with 1 s c skip_drop [OF cs True] show ?thesis by (simp add: special_chars after_cut_def)
        next
          case False
          with 1 s c obtain vs' where "js_items n (skip cs) = Some (vs', r)" by (auto simp: special_chars)
          from Suc.IH(2) [OF this skipped] show ?thesis by (simp add: after_cut_def)
        qed
      next
        assume c: "c = CHR ''{''"
        show ?thesis
        proof (cases "starts_with (skip cs) ''}''")
          case True
          with 1 s c skip_drop [OF cs True] show ?thesis by (simp add: special_chars after_cut_def)
        next
          case False
          with 1 s c obtain kvs' where "js_members n (skip cs) = Some (kvs', r)" by (auto simp: special_chars)
          from Suc.IH(3) [OF this skipped] show ?thesis by (simp add: after_cut_def)
        qed
      qed
    qed
  next
    case 2
    then obtain w t where val: "js_value n s = Some (w, t)" by (auto split: option.splits)
    from Suc.IH(1) [OF val 2(2)] show ?case
    proof (cases rule: after_cut_cases)
      case before
      note t = this
      show ?thesis
      proof (cases "starts_with (skip t) '']''")
        case True
        with 2 val skip_drop [OF t True] show ?thesis by simp
      next
        case False
        with 2 val have comma: "starts_with (skip t) '',''" by (auto simp: Let_def split: if_splits)
        with 2 val False obtain vs' where "js_items n (skip (drop 1 (skip t))) = Some (vs', r)" by auto
        from Suc.IH(2) [OF this skip_cut [OF skip_drop [OF t comma]]] show ?thesis by simp
      qed
    next
      case inside
      with 2 val show ?thesis by (simp add: cut_rest_stops)
    qed
  next
    case 3
    then have q: "starts_with s [quote]" by (auto split: if_splits)
    from drop_char_cut [OF 3(2) q] have tail: "suffix cut_mark (drop 1 s)" by (simp add: special_chars)
    from 3 q obtain k t where key: "js_string (drop 1 s) = Some (k, t)" by (auto split: option.splits)
    from js_string_tail_cut [OF tail key] show ?case
    proof (cases rule: after_cut_cases)
      case before
      note t = this
      from 3 q key have colon: "starts_with (skip t) '':''" by (auto simp: Let_def split: if_splits)
      note t2 = skip_cut [OF skip_drop [OF t colon]]
      from 3 q key colon obtain w u where val: "js_value n (skip (drop 1 (skip t))) = Some (w, u)"
        by (auto simp: Let_def split: option.splits)
      from Suc.IH(1) [OF val t2] have "suffix cut_mark u \<or> u = cut_rest" by (simp add: after_cut_def)
      then show ?thesis
      proof
        assume ends: "suffix cut_mark u"
        show ?thesis
        proof (cases "starts_with (skip u) ''}''")
          case True
          with 3 q key colon val skip_drop [OF ends True] show ?thesis by simp
        next
          case False
          with 3 q key colon val have comma: "starts_with (skip u) '',''" by (auto simp: Let_def split: if_splits)
          with 3 q key colon val False obtain kvs' where "js_members n (skip (drop 1 (skip u))) = Some (kvs', r)" by auto
          from Suc.IH(3) [OF this skip_cut [OF skip_drop [OF ends comma]]] show ?thesis by simp
        qed
      next
        assume "u = cut_rest"
        with 3 q key colon val show ?thesis by (simp add: cut_rest_stops)
      qed
    next
      case inside
      with 3 q key show ?thesis by (simp add: cut_rest_stops)
    qed
  }
qed

lemma after_cut_not_blank: "after_cut r \<Longrightarrow> skip r \<noteq> []"
proof (erule after_cut_cases)
  assume "suffix cut_mark r"
  from skip_cut [OF this] show ?thesis by (auto simp: cut_mark_chars)
next
  assume "r = cut_rest"
  then show ?thesis using cut_rest_stops(1) by (simp add: cut_rest_def)
qed

lemma json_loads_cut: "json_loads (p @ cut_mark) = None"
proof -
  have cut: "suffix cut_mark (skip (p @ cut_mark))" by (simp add: skip_cut)
  have "skip r \<noteq> []" if "js_value n (skip (p @ cut_mark)) = Some (v, r)" for n v r
    using after_cut_not_blank [OF js_value_cut(1) [OF that cut]] .
  then show ?thesis by (simp add: json_loads_def del: js_value.simps split: option.split)
qed

subsection \<open>What the comparison gives\<close>

definition too_long :: "json \<Rightarrow> bool" where
  "too_long v \<longleftrightarrow> int (length (json_dumps v)) > 2000"

lemma truncate_value_exact: "truncate_value v = (if too_long v then None else Some v)"
  by (simp add: truncate_value_def too_long_def Let_def json_loads_cut)

definition differs :: "py_dict \<Rightarrow> py_dict \<Rightarrow> string \<Rightarrow> bool" where
  "differs old new k \<longleftrightarrow> k \<notin> set skip_keys \<and> \<not> py_eq (get old k) (get new k)"

definition full_item :: "py_dict \<Rightarrow> py_dict \<Rightarrow> string \<Rightarrow> drift_item" where
  "full_item old new k =
     (let kind = diff_type (get old k) (get new k)
      in \<lparr>fact_path = k, category = fst (classify_fact k), severity = snd (classify_fact k),
          summary = summarize_change k (get old k) (get new k) kind, before = get old k, after = get new k,
          item_diff_type = kind\<rparr>)"

lemma drift_of_exact:
  "drift_of old new k = (if too_long (get old k) \<or> too_long (get new k) then None else Some (full_item old new k))"
  by (simp add: drift_of_def truncate_value_exact full_item_def Let_def)

lemma drift_loop_exact:
  "drift_loop old new ks =
     (if list_ex (\<lambda>k. too_long (get old k) \<or> too_long (get new k)) (filter (differs old new) ks) then None
      else Some (map (full_item old new) (filter (differs old new) ks)))"
proof (induction ks)
  case Nil
  then show ?case by simp
next
  case (Cons k ks)
  have "drift_loop old new (k # ks) =
      (if differs old new k then (case drift_of old new k of None \<Rightarrow> None | Some d \<Rightarrow> map_option ((#) d) (drift_loop old new ks))
       else drift_loop old new ks)" by (simp add: differs_def)
  with Cons show ?case by (simp add: drift_of_exact del: drift_loop.simps)
qed

lemma get_absent: "k \<notin> set (dict_keys d) \<Longrightarrow> get d k = JNull"
proof -
  assume "k \<notin> set (dict_keys d)"
  then have "dict_get d k = None" by (simp add: map_of_eq_None_iff)
  then show ?thesis by (simp add: get_def dict_get_default_def)
qed

lemma differs_present:
  assumes "differs old new k"
  shows "k \<in> set (all_keys old new)"
proof (rule ccontr)
  assume "k \<notin> set (all_keys old new)"
  then have "get old k = JNull" "get new k = JNull" by (simp_all add: all_keys_def get_absent)
  with assms show False by (simp add: differs_def)
qed

text \<open>
  C23: The comparison of two sets of facts is exact where it returns: an item for each key, in
  order and once, whose two values differ (a missing key counts as null) and that is not one of
  the volatile ones, with both values in full. It raises exactly when one of those values prints
  to more than 2000 characters, because the text it is cut to is never JSON; nothing is then
  recorded for the host.
\<close>

theorem compute_drift_exact:
  "(case compute_drift old new of
      None \<Rightarrow> (\<exists>k. differs old new k \<and> (too_long (get old k) \<or> too_long (get new k)))
    | Some items \<Rightarrow>
        (\<exists>ks. items = map (full_item old new) ks \<and> sorted ks \<and> distinct ks \<and> (\<forall>k. k \<in> set ks = differs old new k)) \<and>
        \<not> (\<exists>k. differs old new k \<and> (too_long (get old k) \<or> too_long (get new k))))"
proof -
  define ks where "ks = filter (differs old new) (all_keys old new)"
  have mem: "\<forall>k. k \<in> set ks = differs old new k" using differs_present by (auto simp: ks_def)
  have "sorted (all_keys old new)" "distinct (all_keys old new)" by (simp_all add: all_keys_def)
  then have "sorted ks" "distinct ks" using sorted_filter [of id] by (simp_all add: ks_def)
  moreover have "list_ex (\<lambda>k. too_long (get old k) \<or> too_long (get new k)) ks =
      (\<exists>k. differs old new k \<and> (too_long (get old k) \<or> too_long (get new k)))"
    using mem by (auto simp: list_ex_iff)
  ultimately show ?thesis using mem by (auto simp: compute_drift_def drift_loop_exact ks_def [symmetric])
qed

lemma compute_drift_sample:
  "map_option (map summary) (compute_drift [(''a'', JInt 1), (''b'', JList [JStr ''x'']), (''c'', JNull), (''d'', JInt 2)]
     [(''b'', JList [JStr ''y'', JStr ''x'']), (''c'', JStr ''z''), (''d'', JFloat 2 ''2.0'')]) =
   Some [''a: removed'', ''b: +1 items'', ''c: added'']"
  by code_simp

subsection \<open>Snapshots and detections\<close>

record snapshot =
  snapshot_id :: int
  snap_host :: int
  snap_job :: int
  snap_inventory :: int
  snap_organization :: "int option"
  captured_at :: rat
  facts :: py_dict
  facts_hash :: string

record detection =
  det_host :: int
  det_inventory :: int
  det_organization :: "int option"
  before_id :: int
  after_id :: int
  det_job :: int
  detected_at :: rat
  det_item :: drift_item

record host =
  host_id :: int
  host_name :: string
  inventory_id :: int
  host_organization :: "int option"
  ansible_facts :: py_dict
  facts_modified :: bool

record drift_state =
  hosts :: "host list"
  snapshots :: "snapshot list"
  next_snapshot :: int
  detections :: "detection list"
  detect_queue :: "int list"
  alert_queue :: "int list"

text \<open>\<open>json.dumps\<close> with \<open>sort_keys\<close>: the keys of every dictionary in order.\<close>

fun sort_dicts :: "json \<Rightarrow> json" where
  "sort_dicts (JList xs) = JList (map sort_dicts xs)"
| "sort_dicts (JDict d) = JDict (sort_key fst (map (\<lambda>(k, v). (k, sort_dicts v)) d))"
| "sort_dicts v = v"

definition compute_facts_hash :: "(string \<Rightarrow> string) \<Rightarrow> py_dict \<Rightarrow> string" where
  "compute_facts_hash sha256 fs = sha256 (json_dumps (sort_dicts (JDict fs)))"

text \<open>The newest of the rows: the first of those with the latest time.\<close>

definition newest_first :: "snapshot list \<Rightarrow> snapshot list" where
  "newest_first ss = sort_key (\<lambda>s. - captured_at s) ss"

definition latest_hash :: "int \<Rightarrow> snapshot list \<Rightarrow> string option" where
  "latest_hash h ss = (case newest_first (filter (\<lambda>s. snap_host s = h) ss) of [] \<Rightarrow> None | s # _ \<Rightarrow> Some (facts_hash s))"

definition capture_host :: "(string \<Rightarrow> string) \<Rightarrow> rat \<Rightarrow> int \<Rightarrow> int option \<Rightarrow> host \<Rightarrow> drift_state \<Rightarrow> drift_state" where
  "capture_host sha256 now job org h st =
     (let fh = compute_facts_hash sha256 (ansible_facts h)
      in if latest_hash (host_id h) (snapshots st) = Some fh then st
         else st\<lparr>snapshots := snapshots st @
                  [\<lparr>snapshot_id = next_snapshot st, snap_host = host_id h, snap_job = job, snap_inventory = inventory_id h,
                    snap_organization = org, captured_at = now, facts = ansible_facts h, facts_hash = fh\<rparr>],
                next_snapshot := next_snapshot st + 1, detect_queue := detect_queue st @ [next_snapshot st]\<rparr>)"

text \<open>A job that is gone, or has no inventory, leaves everything as it is.\<close>

record job_row =
  job_inventory :: "int option"
  job_organization :: "int option"

definition capture_fact_snapshot ::
    "(string \<Rightarrow> string) \<Rightarrow> rat \<Rightarrow> int \<Rightarrow> job_row option \<Rightarrow> drift_state \<Rightarrow> drift_state" where
  "capture_fact_snapshot sha256 now job_id jo st =
     (case jo of
        None \<Rightarrow> st
      | Some j \<Rightarrow>
          (case job_inventory j of
             None \<Rightarrow> st
           | Some ivy \<Rightarrow>
               fold (capture_host sha256 now job_id (job_organization j))
                 (filter (\<lambda>h. inventory_id h = ivy \<and> facts_modified h \<and> ansible_facts h \<noteq> []) (hosts st)) st))"

text \<open>\<open>now i\<close> is what the clock says when the \<open>i\<close>-th row is stored.\<close>

definition detect_drift :: "(nat \<Rightarrow> rat) \<Rightarrow> int \<Rightarrow> drift_state \<Rightarrow> drift_state option" where
  "detect_drift now i st =
     (case find (\<lambda>s. snapshot_id s = i) (snapshots st) of
        None \<Rightarrow> Some st
      | Some snap \<Rightarrow>
          (case newest_first (filter (\<lambda>s. snap_host s = snap_host snap \<and> captured_at s < captured_at snap) (snapshots st)) of
             [] \<Rightarrow> Some st
           | previous # _ \<Rightarrow>
               (case compute_drift (facts previous) (facts snap) of
                  None \<Rightarrow> None
                | Some drifts \<Rightarrow>
                    if drifts = [] then Some st
                    else if list_ex (\<lambda>d. int (length (summary d)) > 1024 \<or> int (length (fact_path d)) > 512) drifts then None
                    else Some (st\<lparr>detections := detections st @
                           map2 (\<lambda>i d. \<lparr>det_host = snap_host snap, det_inventory = snap_inventory snap,
                             det_organization = snap_organization snap, before_id = snapshot_id previous,
                             after_id = snapshot_id snap, det_job = snap_job snap, detected_at = now i, det_item = d\<rparr>) [0..<length drifts] drifts,
                         alert_queue := alert_queue st @ [snap_host snap]\<rparr>))))"

subsection \<open>Cleanup\<close>

definition cleanup_host :: "rat \<Rightarrow> nat \<Rightarrow> int \<Rightarrow> snapshot list \<Rightarrow> snapshot list" where
  "cleanup_host cutoff min_keep h ss =
     (let keep_ids = map snapshot_id (take min_keep (newest_first (filter (\<lambda>s. snap_host s = h) ss)))
      in filter (\<lambda>s. \<not> (snap_host s = h \<and> captured_at s < cutoff \<and> snapshot_id s \<notin> set keep_ids)) ss)"

text \<open>
  The hosts with old snapshots. The default order of the table makes \<open>distinct()\<close> compare the
  times too, so that a host may come more than once.
\<close>

definition old_hosts :: "rat \<Rightarrow> snapshot list \<Rightarrow> int list" where
  "old_hosts cutoff ss =
     map fst (remdups (map (\<lambda>s. (snap_host s, captured_at s)) (filter (\<lambda>s. captured_at s < cutoff) (newest_first ss))))"

text \<open>A detection whose later snapshot is deleted goes with it.\<close>

definition cleanup_old_snapshots :: "rat \<Rightarrow> int \<Rightarrow> nat \<Rightarrow> drift_state \<Rightarrow> drift_state" where
  "cleanup_old_snapshots now retention_days min_keep st =
     (let cutoff = now - of_int (retention_days * 86400);
          left = fold (cleanup_host cutoff min_keep) (old_hosts cutoff (snapshots st)) (snapshots st)
      in st\<lparr>snapshots := left,
            detections := filter (\<lambda>d. after_id d \<in> set (map snapshot_id left)) (detections st)\<rparr>)"

definition kept_ids :: "nat \<Rightarrow> snapshot list \<Rightarrow> int \<Rightarrow> int list" where
  "kept_ids min_keep ss h = map snapshot_id (take min_keep (newest_first (filter (\<lambda>s. snap_host s = h) ss)))"

definition survives :: "rat \<Rightarrow> nat \<Rightarrow> snapshot list \<Rightarrow> snapshot \<Rightarrow> bool" where
  "survives cutoff min_keep ss s \<longleftrightarrow> cutoff \<le> captured_at s \<or> snapshot_id s \<in> set (kept_ids min_keep ss (snap_host s))"

lemma take_filter_prefix: "\<forall>x \<in> set (take m xs). P x \<Longrightarrow> take m (filter P xs) = take m xs"
proof (induction xs arbitrary: m)
  case Nil
  then show ?case by simp
next
  case (Cons x xs)
  then show ?case by (cases m) auto
qed

lemma newest_first_filter: "newest_first (filter P ss) = filter P (newest_first ss)"
  by (simp add: newest_first_def filter_sort)

text \<open>Removing what the cleanup removes does not change which snapshots are the newest ones.\<close>

lemma kept_ids_survivors:
  assumes "\<forall>s \<in> set ss. survives cutoff min_keep ss s \<longrightarrow> P s"
  shows "kept_ids min_keep (filter P ss) h = kept_ids min_keep ss h"
proof -
  define own where "own = newest_first (filter (\<lambda>s. snap_host s = h) ss)"
  have "survives cutoff min_keep ss s" if "s \<in> set (take min_keep own)" for s
  proof -
    from that have "snap_host s = h" by (auto simp: own_def newest_first_def dest: in_set_takeD)
    with that show ?thesis by (simp add: survives_def kept_ids_def own_def)
  qed
  moreover have "set (take min_keep own) \<subseteq> set ss" by (auto simp: own_def newest_first_def dest: in_set_takeD)
  ultimately have "\<forall>s \<in> set (take min_keep own). P s" using assms by blast
  then have "take min_keep (filter P own) = take min_keep own" by (rule take_filter_prefix)
  moreover have "newest_first (filter (\<lambda>s. snap_host s = h) (filter P ss)) = filter P own"
    by (simp add: own_def newest_first_filter conj_commute)
  ultimately show ?thesis by (simp add: kept_ids_def own_def)
qed

lemma cleanup_hosts:
  "fold (cleanup_host cutoff min_keep) hs (filter (\<lambda>s. snap_host s \<in> A \<longrightarrow> survives cutoff min_keep ss s) ss) =
     filter (\<lambda>s. snap_host s \<in> A \<union> set hs \<longrightarrow> survives cutoff min_keep ss s) ss"
proof (induction hs arbitrary: A)
  case Nil
  then show ?case by simp
next
  case (Cons h hs)
  let ?P = "\<lambda>s. snap_host s \<in> A \<longrightarrow> survives cutoff min_keep ss s"
  have "kept_ids min_keep (filter ?P ss) h = kept_ids min_keep ss h"
    by (rule kept_ids_survivors [where cutoff = cutoff]) simp
  then have "cleanup_host cutoff min_keep h (filter ?P ss) =
      filter (\<lambda>s. snap_host s \<in> insert h A \<longrightarrow> survives cutoff min_keep ss s) ss"
    unfolding cleanup_host_def kept_ids_def [symmetric]
    by (auto simp: Let_def survives_def not_less intro!: filter_cong)
  with Cons.IH [of "insert h A"] show ?case by simp
qed

lemma cleanup_survivors:
  assumes "cutoff = now - of_int (retention_days * 86400)"
  shows "snapshots (cleanup_old_snapshots now retention_days min_keep st) =
    filter (survives cutoff min_keep (snapshots st)) (snapshots st)"
proof -
  have old: "survives cutoff min_keep (snapshots st) s" if "snap_host s \<notin> set (old_hosts cutoff (snapshots st))" "s \<in> set (snapshots st)" for s
    using that by (force simp: survives_def old_hosts_def newest_first_def)
  from cleanup_hosts [of cutoff min_keep "old_hosts cutoff (snapshots st)" "{}" "snapshots st"]
  have "fold (cleanup_host cutoff min_keep) (old_hosts cutoff (snapshots st)) (snapshots st) =
      filter (\<lambda>s. snap_host s \<in> set (old_hosts cutoff (snapshots st)) \<longrightarrow> survives cutoff min_keep (snapshots st) s) (snapshots st)"
    by simp
  also have "\<dots> = filter (survives cutoff min_keep (snapshots st)) (snapshots st)"
    using old by (intro filter_cong) auto
  finally show ?thesis using assms by (simp add: cleanup_old_snapshots_def Let_def)
qed

text \<open>
  C24: The cleanup deletes exactly the snapshots that are older than the retention period and not
  among the \<open>min_keep\<close> newest of their host, however often the query lists a host; every host keeps
  at least \<open>min_keep\<close> snapshots, or all it had.
\<close>

theorem cleanup_keeps_newest:
  "snapshots (cleanup_old_snapshots now retention_days min_keep st) =
     filter (\<lambda>s. now - of_int (retention_days * 86400) \<le> captured_at s \<or>
       snapshot_id s \<in> set (map snapshot_id (take min_keep (newest_first (filter (\<lambda>x. snap_host x = snap_host s) (snapshots st))))))
     (snapshots st) \<and>
   min min_keep (length (filter (\<lambda>s. snap_host s = h) (snapshots st))) \<le>
     length (filter (\<lambda>s. snap_host s = h) (snapshots (cleanup_old_snapshots now retention_days min_keep st)))"
proof
  define cutoff where "cutoff = now - of_int (retention_days * 86400)"
  note survivors = cleanup_survivors [OF cutoff_def, of min_keep st]
  have "survives cutoff min_keep ss = (\<lambda>s. cutoff \<le> captured_at s \<or>
      snapshot_id s \<in> set (map snapshot_id (take min_keep (newest_first (filter (\<lambda>x. snap_host x = snap_host s) ss)))))" for ss
    by (simp add: fun_eq_iff survives_def kept_ids_def)
  with survivors show "snapshots (cleanup_old_snapshots now retention_days min_keep st) =
     filter (\<lambda>s. now - of_int (retention_days * 86400) \<le> captured_at s \<or>
       snapshot_id s \<in> set (map snapshot_id (take min_keep (newest_first (filter (\<lambda>x. snap_host x = snap_host s) (snapshots st))))))
     (snapshots st)" by (simp only: cutoff_def)
  have "length (kept_ids min_keep (snapshots st) h) =
      length (kept_ids min_keep (filter (survives cutoff min_keep (snapshots st)) (snapshots st)) h)"
    by (subst kept_ids_survivors [where cutoff = cutoff]) auto
  then show "min min_keep (length (filter (\<lambda>s. snap_host s = h) (snapshots st))) \<le>
     length (filter (\<lambda>s. snap_host s = h) (snapshots (cleanup_old_snapshots now retention_days min_keep st)))"
    unfolding survivors by (simp add: kept_ids_def newest_first_def min_def split: if_splits)
qed

subsection \<open>Host name patterns\<close>

text \<open>
  \<open>fnmatch\<close>: a star for any text, a question mark for any character, and sets in brackets with
  ranges and negation. A bracket that is not closed stands for itself; a bracket right after the
  opening, or after the negation, belongs to the set.
\<close>

fun in_ranges :: "char \<Rightarrow> string \<Rightarrow> bool" where
  "in_ranges c [] = False"
| "in_ranges c [x] = (c = x)"
| "in_ranges c [x, y] = (c = x \<or> c = y)"
| "in_ranges c (x # y # z # rest) =
     (if y = CHR ''-'' then (x \<le> c \<and> c \<le> z) \<or> in_ranges c rest else c = x \<or> in_ranges c (y # z # rest))"

definition in_bracket :: "char \<Rightarrow> string \<Rightarrow> bool" where
  "in_bracket c stuff =
     (case stuff of
        [] \<Rightarrow> False
      | x # rest \<Rightarrow> if x = CHR ''!'' then \<not> in_ranges c rest else in_ranges c stuff)"

text \<open>What stands in the brackets, and what follows them.\<close>

definition close_bracket :: "string \<Rightarrow> (string \<times> string) option" where
  "close_bracket ps =
     (let start = (case ps of
            x # y # _ \<Rightarrow> if x = CHR ''!'' then (if y = CHR '']'' then 2 else 1) else if x = CHR '']'' then 1 else 0
          | [x] \<Rightarrow> if x = CHR ''!'' \<or> x = CHR '']'' then 1 else 0
          | [] \<Rightarrow> 0);
          body = takeWhile (\<lambda>c. c \<noteq> CHR '']'') (drop start ps);
          rest = dropWhile (\<lambda>c. c \<noteq> CHR '']'') (drop start ps)
      in if rest = [] then None else Some (take start ps @ body, drop 1 rest))"

lemma close_bracket_shorter: "close_bracket ps = Some (b, rest) \<Longrightarrow> length rest < length ps"
proof -
  assume a: "close_bracket ps = Some (b, rest)"
  then obtain n where n: "rest = drop 1 (dropWhile (\<lambda>c. c \<noteq> CHR '']'') (drop n ps))" "dropWhile (\<lambda>c. c \<noteq> CHR '']'') (drop n ps) \<noteq> []"
    by (auto simp: close_bracket_def Let_def split: if_splits)
  have "length (dropWhile (\<lambda>c. c \<noteq> CHR '']'') (drop n ps)) \<le> length (drop n ps)" by (rule length_dropWhile_le)
  with n show ?thesis by (cases "dropWhile (\<lambda>c. c \<noteq> CHR '']'') (drop n ps)") auto
qed

function fnmatch :: "string \<Rightarrow> string \<Rightarrow> bool" where
  "fnmatch s [] = (s = [])"
| "fnmatch s (p # ps) =
     (if p = CHR ''*'' then fnmatch s ps \<or> (case s of [] \<Rightarrow> False | _ # cs \<Rightarrow> fnmatch cs (p # ps))
      else case s of
        [] \<Rightarrow> False
      | c # cs \<Rightarrow>
          if p = CHR ''?'' then fnmatch cs ps
          else if p = CHR ''['' then
            (case close_bracket ps of
               None \<Rightarrow> c = p \<and> fnmatch cs ps
             | Some (stuff, rest) \<Rightarrow> in_bracket c stuff \<and> fnmatch cs rest)
          else c = p \<and> fnmatch cs ps)"
  by pat_completeness auto

termination
  by (relation "measure (\<lambda>(s, ps). length s + length ps)") (auto dest: close_bracket_shorter)

lemma fnmatch_samples:
  "fnmatch ''web-12.prod'' ''web-*.prod''" "fnmatch ''db1'' ''db[0-3]''" "\<not> fnmatch ''db7'' ''db[0-3]''"
  "fnmatch ''a]'' ''a[]x]''" "fnmatch ''x'' ''[!a-c]''" "\<not> fnmatch ''b'' ''[!a-c]''" "fnmatch ''[a'' ''[a''"
  by code_simp+

text \<open>A pattern without special characters matches itself and nothing else.\<close>

lemma fnmatch_literal: "CHR ''*'' \<notin> set p \<Longrightarrow> CHR ''?'' \<notin> set p \<Longrightarrow> CHR ''['' \<notin> set p \<Longrightarrow> fnmatch s p \<longleftrightarrow> s = p"
proof (induction p arbitrary: s)
  case Nil
  then show ?case by simp
next
  case (Cons c p)
  then show ?case by (cases s) auto
qed

subsection \<open>Alert rules\<close>

record alert_rule =
  alert_rule_id :: int
  rule_name :: string
  rule_organization :: "int option"
  rule_enabled :: bool
  rule_inventory :: "int option"
  host_filter :: string
  categories :: json
  severity_min :: string
  threshold_count :: int
  threshold_window_minutes :: int
  notification_template :: "int option"
  last_triggered_at :: "rat option"
  trigger_count :: int
  cooldown_minutes :: int

record alert =
  alert_of :: int
  alert_rule_name :: string
  alert_host :: int
  alert_organization :: "int option"
  drift_count :: int
  alert_summary :: string
  notification_status :: string
  notification_error :: string

record alert_state =
  alert_rules :: "alert_rule list"
  alerts :: "alert list"
  mails :: "(int \<times> string \<times> string) list"

definition is_in_cooldown :: "rat \<Rightarrow> alert_rule \<Rightarrow> bool" where
  "is_in_cooldown now r =
     (case last_triggered_at r of
        None \<Rightarrow> False
      | Some t \<Rightarrow> \<not> cooldown_minutes r \<le> 0 \<and> (now - t) / 60 < of_int (cooldown_minutes r))"

definition record_trigger :: "rat \<Rightarrow> alert_rule \<Rightarrow> alert_state \<Rightarrow> alert_state" where
  "record_trigger now r st = st\<lparr>alert_rules := map (\<lambda>x. if alert_rule_id x = alert_rule_id r
     then x\<lparr>last_triggered_at := Some now, trigger_count := trigger_count x + 1\<rparr> else x) (alert_rules st)\<rparr>"

definition severity_values :: "string \<Rightarrow> string list" where
  "severity_values smin =
     (let min_order = (case map_of severity_order smin of None \<Rightarrow> 0 | Some n \<Rightarrow> n)
      in map fst (filter (\<lambda>kv. snd kv \<ge> min_order) severity_order))"

text \<open>The detections a rule counts; \<^const>\<open>None\<close> when the categories cannot be looked through.\<close>

definition recent_drift :: "rat \<Rightarrow> host \<Rightarrow> alert_rule \<Rightarrow> detection list \<Rightarrow> detection list option" where
  "recent_drift now h r ds =
     (let window_start = now - of_int (threshold_window_minutes r * 60);
          hits = filter (\<lambda>d. det_host d = host_id h \<and> detected_at d \<ge> window_start \<and>
                              severity (det_item d) \<in> set (severity_values (severity_min r))) ds
      in if \<not> py_true (categories r) then Some hits
         else map_option (\<lambda>cs. filter (\<lambda>d. category (det_item d) \<in> set (map py_str cs)) hits) (iterate (categories r)))"

text \<open>
  The categories for the summary, newest first. The default order of the table makes \<open>distinct()\<close>
  compare the times too.
\<close>

definition categories_found :: "detection list \<Rightarrow> string list" where
  "categories_found ds =
     map fst (remdups (map (\<lambda>d. (category (det_item d), detected_at d)) (sort_key (\<lambda>d. - detected_at d) ds)))"

definition alert_summary_of :: "host \<Rightarrow> detection list \<Rightarrow> string" where
  "alert_summary_of h ds =
     (let found = categories_found ds
      in join ''. '' ([int_str (int (length ds)) @ '' drift items detected on host '' @ host_name h] @
           (if found \<noteq> [] then [''Categories: '' @ join '', '' found] else [])))"

definition alert_mail :: "host \<Rightarrow> alert_rule \<Rightarrow> detection list \<Rightarrow> string \<times> string" where
  "alert_mail h r ds =
     (''[Forail] Drift Alert: '' @ rule_name r,
      ''Drift alert triggered for host '' @ host_name h @ ''.'' @ [newline] @
      ''Rule: '' @ rule_name r @ [newline] @
      ''Drift count: '' @ int_str (int (length ds)) @ '' (threshold: '' @ int_str (threshold_count r) @ '')'' @ [newline] @
      ''Categories: '' @ join '', '' (categories_found ds) @ [newline])"

text \<open>
  The alert and its notification; \<open>send\<close> gives the text of an exception or nothing.
\<close>

definition raise_alert ::
    "(int \<Rightarrow> string \<Rightarrow> string \<Rightarrow> string option) \<Rightarrow> host \<Rightarrow> alert_rule \<Rightarrow> detection list \<Rightarrow> alert_state \<Rightarrow> alert_state" where
  "raise_alert send h r ds st =
     (let a = \<lparr>alert_of = alert_rule_id r, alert_rule_name = rule_name r, alert_host = host_id h,
               alert_organization = host_organization h, drift_count = int (length ds),
               alert_summary = alert_summary_of h ds, notification_status = ''pending'', notification_error = []\<rparr>
      in case notification_template r of
           None \<Rightarrow> st\<lparr>alerts := alerts st @ [a]\<rparr>
         | Some nt \<Rightarrow>
             (case send nt (fst (alert_mail h r ds)) (snd (alert_mail h r ds)) of
                None \<Rightarrow> st\<lparr>alerts := alerts st @ [a\<lparr>notification_status := ''sent''\<rparr>],
                           mails := mails st @ [(nt, alert_mail h r ds)]\<rparr>
              | Some e \<Rightarrow> st\<lparr>alerts := alerts st @ [a\<lparr>notification_status := ''failed'', notification_error := e\<rparr>]\<rparr>))"

text \<open>
  One turn of the loop over the rules. The clock is read for the cooldown, for the window and for
  the trigger. \<^const>\<open>None\<close> is an exception that ends the task.
\<close>

record clock_times =
  cooldown_time :: rat
  window_time :: rat
  trigger_time :: rat

definition evaluate_alert_rule ::
    "(int \<Rightarrow> string \<Rightarrow> string \<Rightarrow> string option) \<Rightarrow> clock_times \<Rightarrow> host \<Rightarrow> detection list \<Rightarrow> alert_rule \<Rightarrow> alert_state \<Rightarrow>
       alert_state option" where
  "evaluate_alert_rule send t h ds r st =
     (if rule_inventory r \<noteq> None \<and> rule_inventory r \<noteq> Some (inventory_id h) then Some st
      else if host_filter r \<noteq> [] \<and> \<not> fnmatch (host_name h) (host_filter r) then Some st
      else if is_in_cooldown (cooldown_time t) r then Some st
      else case recent_drift (window_time t) h r ds of
        None \<Rightarrow> None
      | Some hits \<Rightarrow>
          if int (length hits) < threshold_count r then Some st
          else Some (record_trigger (trigger_time t) r (raise_alert send h r hits st)))"

fun alert_loop ::
    "(int \<Rightarrow> string \<Rightarrow> string \<Rightarrow> string option) \<Rightarrow> (int \<Rightarrow> clock_times) \<Rightarrow> host \<Rightarrow> detection list \<Rightarrow> alert_rule list \<Rightarrow>
       alert_state \<Rightarrow> bool \<times> alert_state" where
  "alert_loop send clk h ds [] st = (True, st)"
| "alert_loop send clk h ds (r # rs) st =
     (case evaluate_alert_rule send (clk (alert_rule_id r)) h ds r st of
        None \<Rightarrow> (False, st)
      | Some st1 \<Rightarrow> alert_loop send clk h ds rs st1)"

text \<open>The enabled rules: those of the host's organization or of none; all of them when it has none.\<close>

definition rules_for :: "host \<Rightarrow> alert_rule list \<Rightarrow> alert_rule list" where
  "rules_for h rs = sort_key rule_name
     (filter (\<lambda>r. rule_enabled r \<and>
        (case host_organization h of
           None \<Rightarrow> True
         | Some i \<Rightarrow> i = 0 \<or> rule_organization r = Some i \<or> rule_organization r = None)) rs)"

definition evaluate_drift_alerts ::
    "(int \<Rightarrow> string \<Rightarrow> string \<Rightarrow> string option) \<Rightarrow> (int \<Rightarrow> clock_times) \<Rightarrow> int \<Rightarrow> drift_state \<Rightarrow> alert_state \<Rightarrow>
       bool \<times> alert_state" where
  "evaluate_drift_alerts send clk i dst st =
     (case find (\<lambda>h. host_id h = i) (hosts dst) of
        None \<Rightarrow> (True, st)
      | Some h \<Rightarrow> alert_loop send clk h (detections dst) (rules_for h (alert_rules st)) st)"

subsection \<open>The cooldown of a rule\<close>

definition get_alert_rule :: "int \<Rightarrow> alert_state \<Rightarrow> alert_rule option" where
  "get_alert_rule k st = find (\<lambda>r. alert_rule_id r = k) (alert_rules st)"

lemma raise_alert_rules [simp]: "alert_rules (raise_alert send h r ds st) = alert_rules st"
  by (simp add: raise_alert_def Let_def split: option.split)

lemma get_after_trigger:
  "get_alert_rule k (record_trigger now r st) =
     map_option (\<lambda>x. if alert_rule_id r = k then x\<lparr>last_triggered_at := Some now, trigger_count := trigger_count x + 1\<rparr> else x)
       (get_alert_rule k st)"
proof -
  have "find (\<lambda>x. alert_rule_id x = k) (map (\<lambda>x. if alert_rule_id x = alert_rule_id r
        then x\<lparr>last_triggered_at := Some now, trigger_count := trigger_count x + 1\<rparr> else x) rs) =
      map_option (\<lambda>x. if alert_rule_id r = k then x\<lparr>last_triggered_at := Some now, trigger_count := trigger_count x + 1\<rparr> else x)
        (find (\<lambda>x. alert_rule_id x = k) rs)" for rs
    by (induction rs) auto
  then show ?thesis by (simp add: get_alert_rule_def record_trigger_def)
qed

lemma evaluate_alert_rule_cases:
  assumes "evaluate_alert_rule send t h ds r st = Some st'"
  obtains (quiet) "st' = st"
  | (fires) hits where "\<not> is_in_cooldown (cooldown_time t) r" "st' = record_trigger (trigger_time t) r (raise_alert send h r hits st)"
  using assms by (auto simp: evaluate_alert_rule_def split: if_splits option.splits)

lemma evaluate_alert_rule_get:
  assumes "evaluate_alert_rule send t h ds r st = Some st'"
  shows "get_alert_rule k st' = get_alert_rule k st \<or>
    (alert_rule_id r = k \<and> \<not> is_in_cooldown (cooldown_time t) r \<and>
     get_alert_rule k st' = map_option (\<lambda>x. x\<lparr>last_triggered_at := Some (trigger_time t), trigger_count := trigger_count x + 1\<rparr>)
       (get_alert_rule k st))"
  using assms
proof (cases rule: evaluate_alert_rule_cases)
  case quiet
  then show ?thesis by simp
next
  case (fires hits)
  have same: "get_alert_rule k (raise_alert send h r hits st) = get_alert_rule k st" by (simp add: get_alert_rule_def)
  show ?thesis
  proof (cases "alert_rule_id r = k")
    case True
    with fires(1) show ?thesis by (simp only: fires(2) get_after_trigger same) simp
  next
    case False
    then have "get_alert_rule k st' = get_alert_rule k st"
      unfolding fires(2) get_after_trigger same by (cases "get_alert_rule k st") simp_all
    then show ?thesis ..
  qed
qed

text \<open>
  A whole task leaves the rule \<open>k\<close> as it was, or triggers it: then it was not cooling down when its
  turn came. The rows have different keys, so no other turn touches it.
\<close>

definition triggered :: "rat \<Rightarrow> alert_rule \<Rightarrow> alert_rule" where
  "triggered now r = r\<lparr>last_triggered_at := Some now, trigger_count := trigger_count r + 1\<rparr>"

lemma triggered_fields [simp]:
  "last_triggered_at (triggered now r) = Some now" "trigger_count (triggered now r) = trigger_count r + 1"
  "cooldown_minutes (triggered now r) = cooldown_minutes r"
  by (simp_all add: triggered_def)

lemma alert_loop_other:
  "k \<notin> set (map alert_rule_id rs) \<Longrightarrow> get_alert_rule k (snd (alert_loop send clk h ds rs st)) = get_alert_rule k st"
proof (induction rs arbitrary: st)
  case Nil
  then show ?case by simp
next
  case (Cons y ys)
  show ?case
  proof (cases "evaluate_alert_rule send (clk (alert_rule_id y)) h ds y st")
    case None
    then show ?thesis by simp
  next
    case (Some st2)
    with evaluate_alert_rule_get [OF Some, of k] Cons show ?thesis by auto
  qed
qed

lemma alert_loop_get:
  assumes "get_alert_rule k st = Some r" "distinct (map alert_rule_id rs)" "\<forall>x \<in> set rs. alert_rule_id x = k \<longrightarrow> x = r"
  shows "get_alert_rule k (snd (alert_loop send clk h ds rs st)) = Some r \<or>
    (\<not> is_in_cooldown (cooldown_time (clk k)) r \<and>
     get_alert_rule k (snd (alert_loop send clk h ds rs st)) = Some (triggered (trigger_time (clk k)) r))"
  using assms
proof (induction rs arbitrary: st)
  case Nil
  then show ?case by simp
next
  case (Cons x rs)
  show ?case
  proof (cases "evaluate_alert_rule send (clk (alert_rule_id x)) h ds x st")
    case None
    with Cons.prems show ?thesis by simp
  next
    case (Some st1)
    note get = evaluate_alert_rule_get [OF Some, of k, unfolded Cons.prems(1) option.map triggered_def [symmetric]]
    then show ?thesis
    proof
      assume "get_alert_rule k st1 = Some r"
      from Cons.IH [OF this] Cons.prems Some show ?thesis by simp
    next
      assume fired: "alert_rule_id x = k \<and> \<not> is_in_cooldown (cooldown_time (clk (alert_rule_id x))) x \<and>
        get_alert_rule k st1 = Some (triggered (trigger_time (clk (alert_rule_id x))) r)"
      with Cons.prems have "x = r" "k \<notin> set (map alert_rule_id rs)" by auto
      with fired Some alert_loop_other [of k rs send clk h ds st1] show ?thesis by auto
    qed
  qed
qed

text \<open>The alert tasks of a run, each with its clock, host and detections.\<close>

type_synonym alert_task = "(int \<Rightarrow> clock_times) \<times> int \<times> drift_state"

definition alert_step :: "(int \<Rightarrow> string \<Rightarrow> string \<Rightarrow> string option) \<Rightarrow> alert_task \<Rightarrow> alert_state \<Rightarrow> alert_state" where
  "alert_step send e st = snd (evaluate_drift_alerts send (fst e) (fst (snd e)) (snd (snd e)) st)"

definition alert_field :: "(alert_rule \<Rightarrow> 'a) \<Rightarrow> 'a \<Rightarrow> int \<Rightarrow> alert_state \<Rightarrow> 'a" where
  "alert_field f x k st = (case get_alert_rule k st of None \<Rightarrow> x | Some r \<Rightarrow> f r)"

definition alert_good :: "int \<Rightarrow> alert_state \<Rightarrow> bool" where
  "alert_good k st \<longleftrightarrow> distinct (map alert_rule_id (alert_rules st)) \<and> alert_field (\<lambda>r. 0 \<le> cooldown_minutes r) False k st"

lemma alert_rules_ids: "map alert_rule_id (alert_rules (alert_step send e st)) = map alert_rule_id (alert_rules st)"
proof -
  have one: "evaluate_alert_rule send t h ds r st = Some st' \<Longrightarrow>
      map alert_rule_id (alert_rules st') = map alert_rule_id (alert_rules st)" for t h ds r st st'
    by (auto simp: evaluate_alert_rule_def record_trigger_def split: if_splits option.splits)
  have "map alert_rule_id (alert_rules (snd (alert_loop send clk h ds rs st))) = map alert_rule_id (alert_rules st)" for clk h ds rs st
  proof (induction rs arbitrary: st)
    case Nil
    then show ?case by simp
  next
    case (Cons r rs)
    then show ?case using one [of "clk (alert_rule_id r)" h ds r st] by (auto split: option.splits)
  qed
  then show ?thesis by (simp add: alert_step_def evaluate_drift_alerts_def split: option.split)
qed

lemma find_unique: "distinct (map f xs) \<Longrightarrow> x \<in> set xs \<Longrightarrow> find (\<lambda>y. f y = f x) xs = Some x"
  by (induction xs) (auto simp: rev_image_eqI)

lemma alert_step_get:
  assumes "distinct (map alert_rule_id (alert_rules st))" "get_alert_rule k st = Some r"
  shows "get_alert_rule k (alert_step send e st) = Some r \<or>
    (\<not> is_in_cooldown (cooldown_time (fst e k)) r \<and> get_alert_rule k (alert_step send e st) =
       Some (triggered (trigger_time (fst e k)) r))"
proof (cases "find (\<lambda>h. host_id h = fst (snd e)) (hosts (snd (snd e)))")
  case None
  with assms show ?thesis by (simp add: alert_step_def evaluate_drift_alerts_def)
next
  case (Some h)
  have "distinct (map alert_rule_id (rules_for h (alert_rules st)))"
    using assms(1) by (simp add: rules_for_def distinct_map inj_on_def)
  moreover have "\<forall>x \<in> set (rules_for h (alert_rules st)). alert_rule_id x = k \<longrightarrow> x = r"
    using assms find_unique [OF assms(1)] by (auto simp: rules_for_def get_alert_rule_def)
  ultimately show ?thesis
    using alert_loop_get [OF assms(2)] Some by (fastforce simp: alert_step_def evaluate_drift_alerts_def)
qed

lemma not_cooling_rested:
  assumes "\<not> is_in_cooldown t r" "0 \<le> cooldown_minutes r" "last_triggered_at r = Some f" "f \<le> t"
  shows "60 * of_int (cooldown_minutes r) \<le> t - f"
  using assms by (cases "cooldown_minutes r = 0") (auto simp: is_in_cooldown_def field_simps)

interpretation cooldown: rate_limited
  "alert_good k" "alert_step send" "\<lambda>e. cooldown_time (fst e k)" "\<lambda>e. trigger_time (fst e k)"
  "alert_field last_triggered_at None k" "alert_field trigger_count 0 k" "alert_field (\<lambda>r. 60 * of_int (cooldown_minutes r)) 0 k"
  for send k
proof
  fix st and e :: alert_task
  assume good: "alert_good k st"
  then obtain r where r: "get_alert_rule k st = Some r" "0 \<le> cooldown_minutes r"
    by (auto simp: alert_good_def alert_field_def split: option.splits)
  from good have "distinct (map alert_rule_id (alert_rules st))" by (simp add: alert_good_def)
  note step = alert_step_get [OF this r(1), of send e]
  from step r good show "alert_good k (alert_step send e st)"
    by (auto simp: alert_good_def alert_field_def alert_rules_ids)
  from step r show "alert_field (\<lambda>r. 60 * of_int (cooldown_minutes r)) 0 k (alert_step send e st) =
      (alert_field (\<lambda>r. 60 * of_int (cooldown_minutes r)) 0 k st :: rat)" by (auto simp: alert_field_def)
  from r show "(0 :: rat) \<le> alert_field (\<lambda>r. 60 * of_int (cooldown_minutes r)) 0 k st" by (simp add: alert_field_def)
  from step show "(alert_field trigger_count 0 k (alert_step send e st) = alert_field trigger_count 0 k st \<and>
      alert_field last_triggered_at None k (alert_step send e st) = alert_field last_triggered_at None k st) \<or>
    (alert_field trigger_count 0 k (alert_step send e st) \<noteq> alert_field trigger_count 0 k st \<and>
      alert_field last_triggered_at None k (alert_step send e st) = Some (trigger_time (fst e k)) \<and>
      (\<forall>f. alert_field last_triggered_at None k st = Some f \<longrightarrow> f \<le> cooldown_time (fst e k) \<longrightarrow>
        alert_field (\<lambda>r. 60 * of_int (cooldown_minutes r)) 0 k st \<le> cooldown_time (fst e k) - f))"
    using r not_cooling_rested [OF _ r(2)] by (auto simp: alert_field_def)
qed

definition triggers :: "(int \<Rightarrow> string \<Rightarrow> string \<Rightarrow> string option) \<Rightarrow> int \<Rightarrow> alert_task list \<Rightarrow> alert_state \<Rightarrow> rat list" where
  "triggers send k = firing_times (alert_step send) (alert_field trigger_count 0 k) (\<lambda>e. trigger_time (fst e k))"

definition alert_clock :: "int \<Rightarrow> alert_task list \<Rightarrow> rat list" where
  "alert_clock k = clock_readings (\<lambda>e. cooldown_time (fst e k)) (\<lambda>e. trigger_time (fst e k))"

text \<open>
  A drift alert rule rests for its cooldown: whatever hosts drift and whatever the other rules
  do, any two times at which the alert tasks record the rule, and a trigger before the run, are at
  least \<open>cooldown_minutes\<close> apart, when the tasks run one after the other with a clock that does not
  run back.
\<close>

theorem cooldown_spaces_alerts:
  assumes "get_alert_rule k st = Some r" "0 \<le> cooldown_minutes r" "distinct (map alert_rule_id (alert_rules st))"
    and "sorted (alert_clock k es)"
    and "filter (\<lambda>t. \<not> pred_option (\<lambda>f. f \<le> t) (last_triggered_at r)) (alert_clock k es) = []"
  shows "sorted_wrt (\<lambda>x y. 60 * of_int (cooldown_minutes r) \<le> y - x)
    (case last_triggered_at r of None \<Rightarrow> triggers send k es st | Some f \<Rightarrow> f # triggers send k es st)"
  using cooldown.firings_spaced [of k st es send] assms unfolding triggers_def alert_clock_def
  by (simp add: alert_good_def alert_field_def)

subsection \<open>A concrete run\<close>

definition sample_host :: host where
  "sample_host = \<lparr>host_id = 1, host_name = ''web1'', inventory_id = 1, host_organization = None,
     ansible_facts = [(''ansible_kernel'', JStr ''6.1'')], facts_modified = True\<rparr>"

definition sample_drift :: drift_state where
  "sample_drift = \<lparr>hosts = [sample_host], snapshots = [], next_snapshot = 1, detections = [], detect_queue = [], alert_queue = []\<rparr>"

definition sample_job :: job_row where
  "sample_job = \<lparr>job_inventory = Some 1, job_organization = None\<rparr>"

text \<open>The kernel of the host changes between two jobs.\<close>

definition drifted :: drift_state where
  "drifted =
     (let st1 = capture_fact_snapshot id 10 1 (Some sample_job) sample_drift;
          st2 = capture_fact_snapshot id 20 2 (Some sample_job)
                  (st1\<lparr>hosts := [sample_host\<lparr>ansible_facts := [(''ansible_kernel'', JStr ''6.2'')]\<rparr>]\<rparr>)
      in the (detect_drift (\<lambda>i. 21) 2 st2))"

lemma drifted_sample:
  "map (\<lambda>d. (severity (det_item d), summary (det_item d))) (detections drifted) =
     [(''critical'', ''ansible_kernel: '' @ [apostrophe] @ ''6.1'' @ [apostrophe] @ '' -> '' @ [apostrophe] @ ''6.2'' @ [apostrophe])]"
  by code_simp

definition sample_alert_rule :: alert_rule where
  "sample_alert_rule = \<lparr>alert_rule_id = 1, rule_name = ''kernel'', rule_organization = None, rule_enabled = True, rule_inventory = None,
     host_filter = ''web*'', categories = JList [JStr ''kernel''], severity_min = ''high'', threshold_count = 1,
     threshold_window_minutes = 60, notification_template = None, last_triggered_at = None, trigger_count = 0, cooldown_minutes = 30\<rparr>"

definition sample_alerts :: alert_state where
  "sample_alerts = \<lparr>alert_rules = [sample_alert_rule], alerts = [], mails = []\<rparr>"

definition at_time :: "rat \<Rightarrow> alert_task" where
  "at_time t = ((\<lambda>k. \<lparr>cooldown_time = t, window_time = t, trigger_time = t\<rparr>), 1, drifted)"

lemma cooldown_spaces_alerts_witness:
  "triggers (\<lambda>n s b. None) 1 [at_time 30, at_time 900, at_time 1900] sample_alerts = [30, 1900] \<and>
   60 * (30 :: rat) \<le> 1900 - 30"
proof -
  have run: "triggers (\<lambda>n s b. None) 1 [at_time 30, at_time 900, at_time 1900] sample_alerts = [30, 1900]" by code_simp
  have rule: "get_alert_rule 1 sample_alerts = Some sample_alert_rule" by code_simp
  have "sorted_wrt (\<lambda>x y. 60 * of_int (cooldown_minutes sample_alert_rule) \<le> y - x)
      (case last_triggered_at sample_alert_rule of
         None \<Rightarrow> triggers (\<lambda>n s b. None) 1 [at_time 30, at_time 900, at_time 1900] sample_alerts
       | Some f \<Rightarrow> f # triggers (\<lambda>n s b. None) 1 [at_time 30, at_time 900, at_time 1900] sample_alerts)"
    by (rule cooldown_spaces_alerts [OF rule])
      (simp_all add: sample_alert_rule_def sample_alerts_def alert_clock_def clock_readings_def at_time_def)
  with run show ?thesis by (simp add: sample_alert_rule_def)
qed

text \<open>The same category is listed once per detection time in the text of an alert.\<close>

lemma categories_repeat:
  "let d = hd (detections drifted) in categories_found [d, d\<lparr>detected_at := 22\<rparr>] = [''kernel'', ''kernel'']"
  by code_simp

end
