(* ===== verification/DynamicSurvey.thy ===== *)
theory DynamicSurvey
  imports PyJson
begin

section \<open>Dynamic choices of survey questions\<close>

text \<open>
  Models \<^verbatim>\<open>forail/main/services/dynamic_survey.py\<close>: the choices of a survey question that
  come from the database, from an HTTP endpoint or from a template, the cache in front of them and
  the validation of their configuration. The database, the HTTP client, the template engine and
  MD5 are fields of a record of the outside world. \<^const>\<open>None\<close> stands for an exception.
\<close>

definition allowed_db_models :: "string list" where
  "allowed_db_models =
     [''hosts'', ''groups'', ''projects'', ''inventories'', ''credentials'', ''organizations'', ''execution_environments'', ''templates'']"

definition allowed_db_fields :: "string list" where
  "allowed_db_fields = [''name'', ''id'', ''description'']"

text \<open>
  \<open>query m f kw\<close> are the values of the field \<open>f\<close> of the rows of the table \<open>m\<close> that the lookups select,
  different ones in order, or \<^const>\<open>None\<close> when the lookups are not valid. \<open>request\<close> takes the method, the URL,
  the headers, the body and the time limit. \<open>render_jinja\<close> takes the template and the names of the
  hosts and of the groups, when there is an inventory.
\<close>

record survey_world =
  md5_hex :: "string \<Rightarrow> string"
  query :: "string \<Rightarrow> string \<Rightarrow> py_dict \<Rightarrow> json list option"
  request :: "string \<Rightarrow> json \<Rightarrow> json \<Rightarrow> json option \<Rightarrow> json \<Rightarrow> json option"
  render_jinja :: "json \<Rightarrow> (json list \<times> json list) option \<Rightarrow> string option"

type_synonym choice_cache = "(string, json list) pydict"

text \<open>The configuration, printed with sorted keys, is part of the key of the cache.\<close>

fun sort_config :: "json \<Rightarrow> json" where
  "sort_config (JList xs) = JList (map sort_config xs)"
| "sort_config (JDict d) = JDict (sort_key fst (map (\<lambda>(k, v). (k, sort_config v)) d))"
| "sort_config v = v"

definition cache_key :: "survey_world \<Rightarrow> json \<Rightarrow> json \<Rightarrow> string" where
  "cache_key w variable source_config =
     ''dynamic_survey_choices_'' @ py_str variable @ ''_'' @ md5_hex w (json_dumps (sort_config source_config))"

text \<open>Membership in a set or a dictionary of strings: a value that cannot be hashed raises.\<close>

definition hashed_in :: "json \<Rightarrow> string list \<Rightarrow> bool option" where
  "hashed_in v ks = (case v of JStr s \<Rightarrow> Some (s \<in> set ks) | JList _ \<Rightarrow> None | JDict _ \<Rightarrow> None | _ \<Rightarrow> Some False)"

definition safe_fields :: "string list" where
  "safe_fields = [''id'', ''name'', ''inventory'', ''organization'', ''project'', ''inventory_id'', ''organization_id'', ''project_id'']"

text \<open>What stands before the first double underscore.\<close>

fun base_field :: "string \<Rightarrow> string" where
  "base_field (a # b # s) = (if a = CHR ''_'' \<and> b = CHR ''_'' then [] else a # base_field (b # s))"
| "base_field s = s"

definition safe_lookups :: "py_dict \<Rightarrow> py_dict" where
  "safe_lookups kw = filter (\<lambda>kv. base_field (fst kv) \<in> set safe_fields) kw"

text \<open>The inventory of a template, \<^const>\<open>None\<close> when there is no template or none on it.\<close>

type_synonym survey_template = "int option"

definition resolve_db_query :: "survey_world \<Rightarrow> py_dict \<Rightarrow> survey_template \<Rightarrow> json list option" where
  "resolve_db_query w dc template =
     (let model_key = dict_get_default dc ''model'' (JStr []); field = dict_get_default dc ''field'' (JStr ''name'');
          filter_kwargs = dict_get_default dc ''filter'' (JDict [])
      in case hashed_in model_key allowed_db_models of
           None \<Rightarrow> None
         | Some False \<Rightarrow> Some []
         | Some True \<Rightarrow>
             (case hashed_in field allowed_db_fields of
                None \<Rightarrow> None
              | Some False \<Rightarrow> Some []
              | Some True \<Rightarrow>
                  (case filter_kwargs of
                     JDict kw \<Rightarrow>
                       (let safe = safe_lookups kw;
                            lookups = (if safe = [] \<and> py_str model_key \<in> {''hosts'', ''groups''} then
                                         (case template of Some i \<Rightarrow> if i \<noteq> 0 then [(''inventory__id'', JInt i)] else [] | None \<Rightarrow> [])
                                       else safe)
                        in case query w (py_str model_key) (py_str field) lookups of
                             None \<Rightarrow> Some []
                           | Some rows \<Rightarrow> Some (take 500 rows))
                   | _ \<Rightarrow> None)))"

text \<open>The walk along a path in the reply: the value at its end, or \<open>Some None\<close> when it leaves the data.\<close>

fun walk_path :: "json \<Rightarrow> string list \<Rightarrow> json option option" where
  "walk_path v [] = Some (Some v)"
| "walk_path v (k # ks) =
     (case v of
        JDict d \<Rightarrow> walk_path (dict_get_default d k (JList [])) ks
      | JList xs \<Rightarrow>
          if isdigit k then
            (case read_int k of
               None \<Rightarrow> None
             | Some i \<Rightarrow> if nat i < length xs then walk_path (xs ! nat i) ks else None)
          else Some None
      | _ \<Rightarrow> Some None)"

definition values_of :: "json \<Rightarrow> json list \<Rightarrow> json list option" where
  "values_of value_field xs =
     (if py_true value_field then
        (let ds = dicts_of xs in
         case value_field of
           JStr f \<Rightarrow> Some (map (\<lambda>d. dict_get_default d f (JStr [])) ds)
         | JList _ \<Rightarrow> if ds = [] then Some [] else None
         | JDict _ \<Rightarrow> if ds = [] then Some [] else None
         | _ \<Rightarrow> Some (map (\<lambda>d. JStr []) ds))
      else Some (map (\<lambda>x. JStr (py_str x)) xs))"

definition upper_char :: "char \<Rightarrow> char" where
  "upper_char c = (let n = of_char c :: nat in if 97 \<le> n \<and> n \<le> 122 then char_of (n - 32) else c)"

definition resolve_api_endpoint :: "survey_world \<Rightarrow> py_dict \<Rightarrow> json list option" where
  "resolve_api_endpoint w dc =
     (let url = dict_get_default dc ''url'' (JStr []); json_path = dict_get_default dc ''json_path'' (JStr [])
      in if \<not> py_true url then Some []
         else case dict_get_default dc ''method'' (JStr ''GET'') of
           JStr m \<Rightarrow>
             (let meth = map upper_char m;
                  body = (if meth = ''POST'' then Some (dict_get_default dc ''body'' (JDict [])) else None)
              in case request w (if meth = ''POST'' then ''POST'' else ''GET'') url (dict_get_default dc ''headers'' (JDict [])) body
                        (dict_get_default dc ''timeout'' (JInt 10)) of
                   None \<Rightarrow> Some []
                 | Some data \<Rightarrow>
                     (case (if \<not> py_true json_path then Some (Some data)
                            else case json_path of JStr p \<Rightarrow> walk_path data (split (CHR ''.'') p) | _ \<Rightarrow> None) of
                        None \<Rightarrow> None
                      | Some None \<Rightarrow> Some []
                      | Some (Some (JList xs)) \<Rightarrow> values_of (dict_get_default dc ''value_field'' (JStr [])) xs
                      | Some (Some _) \<Rightarrow> Some []))
         | _ \<Rightarrow> None)"

definition resolve_jinja2 :: "survey_world \<Rightarrow> py_dict \<Rightarrow> survey_template \<Rightarrow> json list option" where
  "resolve_jinja2 w dc template =
     (let template_str = dict_get_default dc ''template'' (JStr [])
      in if \<not> py_true template_str then Some []
         else (let names = (\<lambda>m i. take 500 (case query w m ''name'' [(''inventory_id'', JInt i)] of None \<Rightarrow> [] | Some xs \<Rightarrow> xs));
                   context = (case template of
                       Some i \<Rightarrow> if i \<noteq> 0 then Some (names ''hosts'' i, names ''groups'' i) else None
                     | None \<Rightarrow> None)
               in case render_jinja w template_str context of
                    None \<Rightarrow> Some []
                  | Some s \<Rightarrow> (case json_loads s of Some (JList xs) \<Rightarrow> Some xs | _ \<Rightarrow> Some [])))"

text \<open>A time to live that cannot be compared with a number raises after the choices were found.\<close>

definition resolve_uncached :: "survey_world \<Rightarrow> py_dict \<Rightarrow> survey_template \<Rightarrow> json list option" where
  "resolve_uncached w dc template =
     (let source_type = get dc ''source_type''
      in if source_type = JStr ''db_query'' then resolve_db_query w dc template
         else if source_type = JStr ''api_endpoint'' then resolve_api_endpoint w dc
         else if source_type = JStr ''jinja2'' then resolve_jinja2 w dc template
         else None)"

definition resolve_dynamic_choices ::
    "survey_world \<Rightarrow> py_dict \<Rightarrow> survey_template \<Rightarrow> choice_cache \<Rightarrow> (json list option \<times> choice_cache) option" where
  "resolve_dynamic_choices w question template cache =
     (case get question ''dynamic_choices'' of
        JDict dc \<Rightarrow>
          if \<not> py_true (get dc ''enabled'') then Some (None, cache)
          else (let cache_ttl = dict_get_default dc ''cache_ttl'' (JInt 60);
                    ck = cache_key w (dict_get_default question ''variable'' (JStr [])) (JDict dc)
                in case dict_get cache ck of
                     Some cached \<Rightarrow> Some (Some cached, cache)
                   | None \<Rightarrow>
                       (case resolve_uncached w dc template of
                          None \<Rightarrow> Some (Some [], cache)
                        | Some found \<Rightarrow>
                            (let choices = map (\<lambda>c. JStr (py_str c)) found
                             in if \<not> py_true cache_ttl then Some (Some choices, cache)
                                else case py_num cache_ttl of
                                  None \<Rightarrow> None
                                | Some t \<Rightarrow> Some (Some choices, if t > 0 then dict_set ck choices cache else cache))))
      | v \<Rightarrow> if py_true v then None else Some (None, cache))"

subsection \<open>The validation of a configuration\<close>

datatype dc_error =
  Not_A_Dictionary
| Enabled_Missing
| Bad_Source_Type json
| Bad_Cache_Ttl
| Bad_Model json
| Bad_Field json
| Url_Missing
| Template_Missing

definition good_ttl :: "json \<Rightarrow> bool" where
  "good_ttl v = (case v of JInt i \<Rightarrow> i \<ge> 0 | JBool _ \<Rightarrow> True | _ \<Rightarrow> False)"

definition nonempty_str :: "json \<Rightarrow> bool" where
  "nonempty_str v = (case v of JStr s \<Rightarrow> s \<noteq> [] | _ \<Rightarrow> False)"

definition validate_dynamic_choices_config :: "json \<Rightarrow> dc_error list option" where
  "validate_dynamic_choices_config v =
     (case v of
        JDict dc \<Rightarrow>
          if ''enabled'' \<notin> set (dict_keys dc) then Some [Enabled_Missing]
          else if \<not> py_true (get dc ''enabled'') then Some []
          else (let source_type = dict_get_default dc ''source_type'' (JStr []) in
            if source_type \<notin> {JStr ''db_query'', JStr ''api_endpoint'', JStr ''jinja2''} then Some [Bad_Source_Type source_type]
            else (let ttl = (if good_ttl (dict_get_default dc ''cache_ttl'' (JInt 60)) then [] else [Bad_Cache_Ttl]) in
              if source_type = JStr ''db_query'' then
                (let model = dict_get_default dc ''model'' (JStr []); field = dict_get_default dc ''field'' (JStr ''name'')
                 in case (hashed_in model allowed_db_models, hashed_in field allowed_db_fields) of
                      (Some m, Some f) \<Rightarrow> Some (ttl @ (if m then [] else [Bad_Model model]) @ (if f then [] else [Bad_Field field]))
                    | _ \<Rightarrow> None)
              else if source_type = JStr ''api_endpoint'' then
                Some (ttl @ (if nonempty_str (dict_get_default dc ''url'' (JStr [])) then [] else [Url_Missing]))
              else Some (ttl @ (if nonempty_str (dict_get_default dc ''template'' (JStr [])) then [] else [Template_Missing]))))
      | _ \<Rightarrow> Some [Not_A_Dictionary])"

subsection \<open>What the cache remembers\<close>

lemma resolve_cases:
  assumes "resolve_dynamic_choices w q t c = Some (Some cs, c')" "c' \<noteq> c"
  obtains dc where "get q ''dynamic_choices'' = JDict dc" "py_true (get dc ''enabled'')"
    "c' = dict_set (cache_key w (dict_get_default q ''variable'' (JStr [])) (JDict dc)) cs c"
  using assms by (auto simp: resolve_dynamic_choices_def Let_def split: json.splits if_splits option.splits)

text \<open>
  The inventory of the template is not part of the key of the cache: once the choices of a
  question were computed for one template and cached, every other template, with whatever
  inventory, gets the same choices for a question with that variable and configuration, although
  the query would filter by its own inventory.
\<close>

theorem cached_choices_ignore_inventory:
  assumes "resolve_dynamic_choices w q t c = Some (Some cs, c')" "c' \<noteq> c"
  shows "resolve_dynamic_choices w q t' c' = Some (Some cs, c')"
proof -
  from assms obtain dc where "get q ''dynamic_choices'' = JDict dc" "py_true (get dc ''enabled'')"
    "c' = dict_set (cache_key w (dict_get_default q ''variable'' (JStr [])) (JDict dc)) cs c"
    by (rule resolve_cases)
  then show ?thesis by (simp add: resolve_dynamic_choices_def dict_simps)
qed

definition sample_survey_world :: survey_world where
  "sample_survey_world = \<lparr>md5_hex = id,
     query = (\<lambda>m f kw. Some (if kw = [(''inventory__id'', JInt 1)] then [JStr ''web''] else [JStr ''db''])),
     request = (\<lambda>m u h b t. None), render_jinja = (\<lambda>t c. None)\<rparr>"

definition sample_question :: py_dict where
  "sample_question = [(''variable'', JStr ''host''), (''dynamic_choices'',
     JDict [(''enabled'', JBool True), (''source_type'', JStr ''db_query''), (''model'', JStr ''hosts'')])]"

lemma cached_choices_ignore_inventory_witness:
  "map_option fst (resolve_dynamic_choices sample_survey_world sample_question (Some 2) []) = Some (Some [JStr ''db'']) \<and>
   map_option fst (Option.bind (resolve_dynamic_choices sample_survey_world sample_question (Some 1) [])
     (\<lambda>r. resolve_dynamic_choices sample_survey_world sample_question (Some 2) (snd r))) = Some (Some [JStr ''web''])"
proof -
  have own: "map_option fst (resolve_dynamic_choices sample_survey_world sample_question (Some 2) []) = Some (Some [JStr ''db''])"
    by code_simp
  have first: "map_option fst (resolve_dynamic_choices sample_survey_world sample_question (Some 1) []) = Some (Some [JStr ''web''])"
    "map_option (\<lambda>r. snd r = []) (resolve_dynamic_choices sample_survey_world sample_question (Some 1) []) = Some False"
    by code_simp+
  obtain r where r: "resolve_dynamic_choices sample_survey_world sample_question (Some 1) [] = Some r"
    using first(1) by (cases "resolve_dynamic_choices sample_survey_world sample_question (Some 1) []") simp_all
  obtain v c' where v: "r = (v, c')" by (cases r)
  have "v = Some [JStr ''web'']" "c' \<noteq> []" using first unfolding r v by simp_all
  with r v have c': "resolve_dynamic_choices sample_survey_world sample_question (Some 1) [] = Some (Some [JStr ''web''], c')"
    "c' \<noteq> []" by simp_all
  from cached_choices_ignore_inventory [OF c', of "Some 2"] own c' show ?thesis by simp
qed

text \<open>A configuration that was validated never makes the resolution raise.\<close>

lemma valid_config_resolves:
  assumes "validate_dynamic_choices_config (get q ''dynamic_choices'') = Some []"
  shows "resolve_dynamic_choices w q t c \<noteq> None"
proof (cases "get q ''dynamic_choices''")
  case (JDict dc)
  show ?thesis
  proof (cases "py_true (get dc ''enabled'')")
    case False
    with JDict show ?thesis by (simp add: resolve_dynamic_choices_def)
  next
    case True
    with assms JDict have "good_ttl (dict_get_default dc ''cache_ttl'' (JInt 60))"
      by (auto simp: validate_dynamic_choices_config_def Let_def split: if_splits option.splits)
    then have "py_num (dict_get_default dc ''cache_ttl'' (JInt 60)) \<noteq> None"
      by (cases "dict_get_default dc ''cache_ttl'' (JInt 60)") (auto simp: good_ttl_def)
    with JDict True show ?thesis by (auto simp: resolve_dynamic_choices_def Let_def split: option.split)
  qed
qed (use assms in \<open>simp_all add: validate_dynamic_choices_config_def\<close>)

text \<open>The lookups that reach the database begin with one of the listed fields.\<close>

lemma lookups_are_safe: "kv \<in> set (safe_lookups kw) \<Longrightarrow> base_field (fst kv) \<in> set safe_fields"
  by (simp add: safe_lookups_def)

text \<open>But only their beginning is looked at: a lookup may follow relations from there.\<close>

lemma lookups_traverse:
  "map fst (safe_lookups [(''project__credential__inputs__startswith'', JStr ''a'')]) = [''project__credential__inputs__startswith'']"
  by code_simp

end
