(* ===== verification/Survey.thy ===== *)
theory Survey
  imports DynamicSurvey "HOL-Library.Monad_Syntax"
begin

section \<open>Surveys\<close>

text \<open>
  Models the validation of a survey specification (\<open>JobTemplateSurveySpec._validate_spec_data\<close> of
  \<^verbatim>\<open>forail/api/views/job_templates.py\<close>) and the survey of a template
  (\<open>SurveyJobTemplateMixin\<close> and \<open>SurveyJobMixin\<close> of \<^verbatim>\<open>forail/main/models/mixins.py\<close>):
  the validation of answers, which variables a launch takes, and the variables of the job.
  Encryption is an argument. Error texts are constructors of a datatype. Raising is \<^const>\<open>None\<close>,
  or \<open>Raised\<close> beside a refusal.
\<close>

subsection \<open>Reading a question\<close>

text \<open>\<open>str.splitlines\<close>: a carriage return with a newline after it ends one line.\<close>

definition line_end :: "char \<Rightarrow> bool" where
  "line_end c \<longleftrightarrow> (of_char c :: nat) \<in> {10, 11, 12, 13, 28, 29, 30, 133}"

fun splitlines_from :: "string \<Rightarrow> string \<Rightarrow> string list" where
  "splitlines_from cur [] = (if cur = [] then [] else [cur])"
| "splitlines_from cur (c # cs) =
     (if c = carriage_return \<and> cs \<noteq> [] \<and> hd cs = newline then
        cur # (case cs of [] \<Rightarrow> [] | _ # ds \<Rightarrow> splitlines_from [] ds)
      else if line_end c then cur # splitlines_from [] cs
      else splitlines_from (cur @ [c]) cs)"

definition splitlines :: "string \<Rightarrow> string list" where
  "splitlines s = splitlines_from [] s"

definition choice_lines :: "string \<Rightarrow> string list" where
  "choice_lines s = filter (\<lambda>c. strip c \<noteq> []) (splitlines s)"

text \<open>\<open>v in choices\<close>: a text is searched for the text \<open>v\<close>.\<close>

definition choice_in :: "json \<Rightarrow> json \<Rightarrow> bool option" where
  "choice_in v choices =
     (case choices of
        JList xs \<Rightarrow> Some (list_ex (py_eq v) xs)
      | JStr s \<Rightarrow> (case v of JStr t \<Rightarrow> Some (contains s t) | _ \<Rightarrow> None)
      | JDict d \<Rightarrow> hashed_in v (dict_keys d)
      | _ \<Rightarrow> None)"

definition dynamic_enabled :: "py_dict \<Rightarrow> bool option" where
  "dynamic_enabled q =
     (let dc = dict_get_default q ''dynamic_choices'' (JDict [])
      in if \<not> py_true dc then Some False
         else case dc of JDict d \<Rightarrow> Some (py_true (get d ''enabled'')) | _ \<Rightarrow> None)"

subsection \<open>The answers to a question\<close>

datatype answer_error =
  Value_Missing string
| Not_A_String json string
| Too_Short string json int json
| Too_Large string json json
| Not_An_Integer json string
| Too_Small string json json
| Not_Numeric json string
| Not_A_List string
| Not_A_Choice json string json

fun answer_error_text :: "answer_error \<Rightarrow> string" where
  "answer_error_text (Value_Missing k) = quoted k @ '' value missing''"
| "answer_error_text (Not_A_String v k) = ''Value '' @ py_str v @ '' for '' @ quoted k @ '' expected to be a string.''"
| "answer_error_text (Too_Short k v n m) = quoted k @ '' value '' @ py_str v @ '' is too small (length is '' @ int_str n @
     '' must be at least '' @ py_str m @ '').''"
| "answer_error_text (Too_Large k v m) = quoted k @ '' value '' @ py_str v @ '' is too large (must be no more than '' @ py_str m @ '').''"
| "answer_error_text (Not_An_Integer v k) = ''Value '' @ py_str v @ '' for '' @ quoted k @ '' expected to be an integer.''"
| "answer_error_text (Too_Small k v m) = quoted k @ '' value '' @ py_str v @ '' is too small (must be at least '' @ py_str m @ '').''"
| "answer_error_text (Not_Numeric v k) = ''Value '' @ py_str v @ '' for '' @ quoted k @ '' expected to be a numeric type.''"
| "answer_error_text (Not_A_List k) = quoted k @ '' value is expected to be a list.''"
| "answer_error_text (Not_A_Choice v k cs) = ''Value '' @ py_str v @ '' for '' @ quoted k @ '' expected to be one of '' @ py_str cs @ ''.''"

text \<open>
  A limit of a question: absent, empty and null are none; what cannot be converted raises. A text
  as the limit of a float is left out.
\<close>

definition limit_with :: "(json \<Rightarrow> 'a option) \<Rightarrow> py_dict \<Rightarrow> string \<Rightarrow> 'a option option" where
  "limit_with conv q k =
     (case dict_get q k of
        None \<Rightarrow> Some None
      | Some v \<Rightarrow> if v = JNull \<or> v = JStr [] then Some None else map_option Some (conv v))"

definition exceeds :: "('a :: linorder) option \<Rightarrow> 'a \<Rightarrow> bool" where
  "exceeds l x \<longleftrightarrow> (case l of None \<Rightarrow> False | Some m \<Rightarrow> m < x)"

definition undercuts :: "('a :: linorder) option \<Rightarrow> 'a \<Rightarrow> bool" where
  "undercuts l x \<longleftrightarrow> (case l of None \<Rightarrow> False | Some m \<Rightarrow> x < m)"

definition check_text :: "py_dict \<Rightarrow> string \<Rightarrow> json \<Rightarrow> answer_error list option" where
  "check_text q k v =
     (case v of
        JStr s \<Rightarrow> do {
          lo \<leftarrow> limit_with py_int q ''min'';
          hi \<leftarrow> limit_with py_int q ''max'';
          Some ((if undercuts lo (int (length s)) then [Too_Short k v (int (length s)) (get q ''min'')] else []) @
                (if exceeds hi (int (length s)) then [Too_Large k v (get q ''max'')] else []))
        }
      | _ \<Rightarrow> Some [Not_A_String v k])"

definition check_integer :: "py_dict \<Rightarrow> string \<Rightarrow> json \<Rightarrow> answer_error list option" where
  "check_integer q k v =
     (case v of
        JInt i \<Rightarrow> do {
          lo \<leftarrow> limit_with py_int q ''min'';
          hi \<leftarrow> limit_with py_int q ''max'';
          Some ((if undercuts lo i then [Too_Small k v (get q ''min'')] else []) @
                (if exceeds hi i then [Too_Large k v (get q ''max'')] else []))
        }
      | _ \<Rightarrow> Some [Not_An_Integer v k])"

definition numeric :: "json \<Rightarrow> rat option" where
  "numeric v = (case v of JInt i \<Rightarrow> Some (of_int i) | JFloat r _ \<Rightarrow> Some r | _ \<Rightarrow> None)"

definition check_float :: "py_dict \<Rightarrow> string \<Rightarrow> json \<Rightarrow> answer_error list option" where
  "check_float q k v =
     (case numeric v of
        Some r \<Rightarrow> do {
          lo \<leftarrow> limit_with py_num q ''min'';
          hi \<leftarrow> limit_with py_num q ''max'';
          Some ((if undercuts lo r then [Too_Small k v (get q ''min'')] else []) @
                (if exceeds hi r then [Too_Large k v (get q ''max'')] else []))
        }
      | None \<Rightarrow> Some [Not_Numeric v k])"

text \<open>\<open>copy(choices)\<close>, split into its lines when it is a text; a missing key raises.\<close>

definition choice_list :: "py_dict \<Rightarrow> json option" where
  "choice_list q =
     map_option (\<lambda>c. case c of JStr s \<Rightarrow> JList (map JStr (choice_lines s)) | _ \<Rightarrow> c) (dict_get q ''choices'')"

definition check_choice :: "string \<Rightarrow> json \<Rightarrow> json \<Rightarrow> answer_error list option" where
  "check_choice k choices v = map_option (\<lambda>b. if b then [] else [Not_A_Choice v k choices]) (choice_in v choices)"

definition check_multiselect :: "py_dict \<Rightarrow> string \<Rightarrow> json \<Rightarrow> answer_error list option" where
  "check_multiselect q k v =
     (case v of
        JList vs \<Rightarrow> do {
          dynamic \<leftarrow> dynamic_enabled q;
          if dynamic then Some []
          else do {
            choices \<leftarrow> choice_list q;
            map_option concat (map_opt (check_choice k choices) vs)
          }
        }
      | _ \<Rightarrow> Some [Not_A_List k])"

definition check_multiplechoice :: "py_dict \<Rightarrow> string \<Rightarrow> json option \<Rightarrow> answer_error list option" where
  "check_multiplechoice q k vo =
     do {
       dynamic \<leftarrow> dynamic_enabled q;
       if dynamic then Some []
       else do {
         choices \<leftarrow> choice_list q;
         (case vo of None \<Rightarrow> Some [] | Some v \<Rightarrow> check_choice k choices v)
       }
     }"

text \<open>
  \<open>_survey_element_validation\<close>. A question has a type and a variable; its variable is a text, as
  the validation of the specification demands.
\<close>

definition if_given :: "json option \<Rightarrow> (json \<Rightarrow> answer_error list option) \<Rightarrow> answer_error list option" where
  "if_given vo f = (case vo of None \<Rightarrow> Some [] | Some v \<Rightarrow> f v)"

definition encrypted_mark :: string where
  "encrypted_mark = ''$encrypted$''"

definition survey_element_validation :: "py_dict \<Rightarrow> py_dict \<Rightarrow> bool \<Rightarrow> answer_error list option" where
  "survey_element_validation q data validate_required =
     (case (dict_get q ''type'', dict_get q ''variable'') of
        (Some ty, Some (JStr k)) \<Rightarrow>
          if ty = JStr ''password'' \<and> dict_get data k = Some (JStr encrypted_mark) then
            (if get q ''default'' \<noteq> JNull then Some []
             else map_option (\<lambda>req. if py_true req \<and> validate_required then [Value_Missing k] else []) (dict_get q ''required''))
          else do {
            missing \<leftarrow> (if k \<in> set (dict_keys data) then Some False else map_option py_true (dict_get q ''required''));
            if missing then Some (if validate_required then [Value_Missing k] else [])
            else if ty \<in> {JStr ''textarea'', JStr ''text'', JStr ''password''} then if_given (dict_get data k) (check_text q k)
            else if ty = JStr ''integer'' then if_given (dict_get data k) (check_integer q k)
            else if ty = JStr ''float'' then if_given (dict_get data k) (check_float q k)
            else if ty = JStr ''multiselect'' then if_given (dict_get data k) (check_multiselect q k)
            else if ty = JStr ''multiplechoice'' then check_multiplechoice q k (dict_get data k)
            else Some []
          }
      | _ \<Rightarrow> None)"

subsection \<open>The specification of a survey\<close>

datatype spec_error =
  Field_Missing string
| Field_Type string string
| No_Items
| Item_Not_Object int
| Item_Field_Missing string int
| Item_Field_Type string int
| Duplicate_Variable string int
| Unknown_Type string int
| Default_Type int
| Limit_Not_Integer string int
| Choices_Missing int
| Many_Defaults int
| Default_Not_Choice int
| Dynamic_Invalid int "dc_error list"
| Dynamic_Unsupported int
| Reserved_Default int
| New_Encrypted_Default int

datatype failure = Refused spec_error | Raised

definition refuse_if :: "bool \<Rightarrow> spec_error \<Rightarrow> failure + unit" where
  "refuse_if b e = (if b then Inl (Refused e) else Inr ())"

definition is_list :: "json \<Rightarrow> bool" where
  "is_list v \<longleftrightarrow> (case v of JList _ \<Rightarrow> True | _ \<Rightarrow> False)"

definition is_bool :: "json \<Rightarrow> bool" where
  "is_bool v \<longleftrightarrow> (case v of JBool _ \<Rightarrow> True | _ \<Rightarrow> False)"

text \<open>\<open>isinstance(v, int)\<close>, true of truth values, and \<open>isinstance(v, (float, int))\<close>.\<close>

definition is_int :: "json \<Rightarrow> bool" where
  "is_int v \<longleftrightarrow> (case v of JInt _ \<Rightarrow> True | JBool _ \<Rightarrow> True | _ \<Rightarrow> False)"

definition is_float_or_int :: "json \<Rightarrow> bool" where
  "is_float_or_int v \<longleftrightarrow> is_int v \<or> (case v of JFloat _ _ \<Rightarrow> True | _ \<Rightarrow> False)"

definition survey_type_mapping :: "(string \<times> (json \<Rightarrow> bool)) list" where
  "survey_type_mapping =
     [(''text'', is_str), (''textarea'', is_str), (''password'', is_str), (''multiplechoice'', is_str), (''multiselect'', is_str),
      (''integer'', is_int), (''float'', is_float_or_int)]"

text \<open>The errors of the three fields share one key: the last one is reported.\<close>

definition schema_error :: "py_dict \<Rightarrow> spec_error option" where
  "schema_error spec =
     (let field_error = (\<lambda>f ok t. case dict_get spec f of
            None \<Rightarrow> [Field_Missing f] | Some v \<Rightarrow> if ok v then [] else [Field_Type f t]);
          errs = field_error ''name'' is_str ''string'' @ field_error ''description'' is_str ''string'' @
                 field_error ''spec'' is_list ''list of items'' @ (if get spec ''spec'' = JList [] then [No_Items] else [])
      in if errs = [] then None else Some (last errs))"

definition check_general :: "int \<Rightarrow> py_dict \<Rightarrow> failure + unit" where
  "check_general i q =
     (let one = (\<lambda>(f, ok). then_ok (refuse_if (f \<notin> set (dict_keys q)) (Item_Field_Missing f i))
            (\<lambda>_. refuse_if (\<not> ok (get q f)) (Item_Field_Type f i)))
      in then_ok (one (''type'', is_str)) (\<lambda>_. then_ok (one (''question_name'', is_str))
           (\<lambda>_. then_ok (one (''variable'', is_str)) (\<lambda>_. one (''required'', is_bool)))))"

definition str_of :: "json \<Rightarrow> string" where
  "str_of v = (case v of JStr s \<Rightarrow> s | _ \<Rightarrow> [])"

definition check_default_type :: "int \<Rightarrow> (json \<Rightarrow> bool) \<Rightarrow> py_dict \<Rightarrow> failure + unit" where
  "check_default_type i ok q =
     (case dict_get q ''default'' of
        None \<Rightarrow> Inr ()
      | Some v \<Rightarrow> refuse_if (v \<noteq> JStr [] \<and> \<not> ok v) (Default_Type i))"

definition check_limit :: "int \<Rightarrow> string \<Rightarrow> py_dict \<Rightarrow> failure + unit" where
  "check_limit i k q =
     (case dict_get q k of
        None \<Rightarrow> Inr ()
      | Some v \<Rightarrow> refuse_if (v \<noteq> JNull \<and> \<not> is_int v) (Limit_Not_Integer k i))"

definition join_lines :: "string \<Rightarrow> string" where
  "join_lines s = join [newline] (choice_lines s)"

text \<open>
  A question with choices: they and the default, when texts, are stored without their blank lines.
  The default of such a question is a text here, its type was checked before.
\<close>

fun defaults_allowed :: "json \<Rightarrow> string list \<Rightarrow> bool option" where
  "defaults_allowed choices [] = Some True"
| "defaults_allowed choices (d # ds) =
     (case choice_in (JStr d) choices of None \<Rightarrow> None | Some False \<Rightarrow> Some False | Some True \<Rightarrow> defaults_allowed choices ds)"

definition check_choices :: "int \<Rightarrow> string \<Rightarrow> py_dict \<Rightarrow> failure + py_dict" where
  "check_choices i qtype q =
     (if qtype \<noteq> ''multiselect'' \<and> qtype \<noteq> ''multiplechoice'' then Inr q
      else case dict_get q ''choices'' of
        None \<Rightarrow> Inl (Refused (Choices_Missing i))
      | Some c \<Rightarrow>
          (let q1 = (case c of JStr s \<Rightarrow> dict_set ''choices'' (JStr (join_lines s)) q | _ \<Rightarrow> q)
           in case dict_get q1 ''default'' of
                Some (JStr s) \<Rightarrow>
                  (let q2 = dict_set ''default'' (JStr (join_lines s)) q1; ds = splitlines (join_lines s)
                   in if qtype = ''multiplechoice'' \<and> length ds > 1 then Inl (Refused (Many_Defaults i))
                      else case defaults_allowed (get q2 ''choices'') ds of
                        None \<Rightarrow> Inl Raised
                      | Some ok \<Rightarrow> if ok then Inr q2 else Inl (Refused (Default_Not_Choice i)))
              | _ \<Rightarrow> Inr q1))"

definition check_dynamic :: "int \<Rightarrow> string \<Rightarrow> py_dict \<Rightarrow> failure + unit" where
  "check_dynamic i qtype q =
     (case dict_get q ''dynamic_choices'' of
        None \<Rightarrow> Inr ()
      | Some dc \<Rightarrow>
          (case validate_dynamic_choices_config dc of
             None \<Rightarrow> Inl Raised
           | Some errs \<Rightarrow>
               if errs \<noteq> [] then Inl (Refused (Dynamic_Invalid i errs))
               else refuse_if (py_true (get (as_dict dc) ''enabled'') \<and> qtype \<noteq> ''multiplechoice'' \<and> qtype \<noteq> ''multiselect'')
                      (Dynamic_Unsupported i)))"

text \<open>\<open>pivot_spec\<close>: the questions of the old specification by their variable.\<close>

definition pivot_spec :: "py_dict \<Rightarrow> (json \<times> py_dict) list" where
  "pivot_spec spec =
     fold (\<lambda>q d. case dict_get q ''variable'' of None \<Rightarrow> d | Some k \<Rightarrow> AList.update k q d)
       (dicts_of (case dict_get spec ''spec'' of Some (JList xs) \<Rightarrow> xs | _ \<Rightarrow> [])) []"

definition encrypt_value :: "(string \<Rightarrow> string) \<Rightarrow> string \<Rightarrow> string" where
  "encrypt_value enc s = (if s = [] \<or> starts_with s encrypted_mark then s else enc s)"

definition check_encryption :: "(string \<Rightarrow> string) \<Rightarrow> (json \<times> py_dict) list \<Rightarrow> int \<Rightarrow> string \<Rightarrow> py_dict \<Rightarrow> failure + py_dict" where
  "check_encryption enc old i qtype q =
     (case dict_get q ''default'' of
        Some (JStr s) \<Rightarrow>
          if starts_with s encrypted_mark then
            (if qtype \<noteq> ''password'' then Inl (Refused (Reserved_Default i))
             else (let old_q = (case map_of old (get q ''variable'') of None \<Rightarrow> [] | Some e \<Rightarrow> e)
                   in case dict_get old_q ''default'' of
                        Some (JStr od) \<Rightarrow>
                          if starts_with od encrypted_mark \<or> od = [] then Inr (dict_set ''default'' (JStr od) q)
                          else Inl (Refused (New_Encrypted_Default i))
                      | _ \<Rightarrow> Inl (Refused (New_Encrypted_Default i))))
          else if qtype = ''password'' then Inr (dict_set ''default'' (JStr (encrypt_value enc s)) q)
          else Inr q
      | _ \<Rightarrow> Inr q)"

definition check_item ::
    "(string \<Rightarrow> string) \<Rightarrow> (json \<times> py_dict) list \<Rightarrow> int \<Rightarrow> string list \<Rightarrow> json \<Rightarrow> failure + py_dict" where
  "check_item enc old i seen item =
     (case item of
        JDict q \<Rightarrow>
          then_ok (check_general i q) (\<lambda>_.
            (let k = str_of (get q ''variable''); qtype = str_of (get q ''type'')
             in then_ok (refuse_if (k \<in> set seen) (Duplicate_Variable k i)) (\<lambda>_.
                case map_of survey_type_mapping qtype of
                  None \<Rightarrow> Inl (Refused (Unknown_Type qtype i))
                | Some ok \<Rightarrow>
                    then_ok (check_default_type i ok q) (\<lambda>_.
                    then_ok (check_limit i ''min'' q) (\<lambda>_.
                    then_ok (check_limit i ''max'' q) (\<lambda>_.
                    then_ok (check_choices i qtype q) (\<lambda>q1.
                    then_ok (check_dynamic i qtype q1) (\<lambda>_.
                    check_encryption enc old i qtype q1))))))))
      | _ \<Rightarrow> Inl (Refused (Item_Not_Object i)))"

fun check_items ::
    "(string \<Rightarrow> string) \<Rightarrow> (json \<times> py_dict) list \<Rightarrow> int \<Rightarrow> string list \<Rightarrow> json list \<Rightarrow> failure + py_dict list" where
  "check_items enc old i seen [] = Inr []"
| "check_items enc old i seen (item # items) =
     then_ok (check_item enc old i seen item) (\<lambda>q.
     then_ok (check_items enc old (i + 1) (seen @ [str_of (get q ''variable'')]) items) (\<lambda>qs. Inr (q # qs)))"

text \<open>The validation: a refusal, an exception, or the questions as they are stored.\<close>

definition validate_spec_data :: "(string \<Rightarrow> string) \<Rightarrow> py_dict \<Rightarrow> py_dict \<Rightarrow> failure + py_dict list" where
  "validate_spec_data enc new_spec old_spec =
     (case schema_error new_spec of
        Some e \<Rightarrow> Inl (Refused e)
      | None \<Rightarrow> check_items enc (pivot_spec old_spec) 0 [] (case get new_spec ''spec'' of JList xs \<Rightarrow> xs | _ \<Rightarrow> []))"

subsection \<open>What a launch takes\<close>

record launch_errors =
  survey_errors :: "answer_error list"
  disallowed :: "string list"

text \<open>The first \<open>$encrypted$\<close> is not one: the text is longer than the mark.\<close>

definition is_encrypted :: "json \<Rightarrow> bool" where
  "is_encrypted v = (case v of JStr s \<Rightarrow> starts_with s encrypted_mark \<and> length s > length encrypted_mark | _ \<Rightarrow> False)"

definition dict_pop :: "string \<Rightarrow> py_dict \<Rightarrow> py_dict" where
  "dict_pop k d = filter (\<lambda>kv. fst kv \<noteq> k) d"

definition dict_update :: "py_dict \<Rightarrow> py_dict \<Rightarrow> py_dict" where
  "dict_update d e = fold (\<lambda>kv. dict_set (fst kv) (snd kv)) e d"

text \<open>The state of the loop: what is left of the variables, the rejected, the accepted, the errors.\<close>

record sorted_vars =
  left_over :: py_dict
  rejected :: py_dict
  accepted :: py_dict
  answer_errors :: "answer_error list"

definition question_var :: "py_dict \<Rightarrow> string" where
  "question_var q = str_of (get q ''variable'')"

definition place_answer :: "string \<Rightarrow> answer_error list \<Rightarrow> sorted_vars \<Rightarrow> sorted_vars" where
  "place_answer k errs s =
     (case dict_get (left_over s) k of
        None \<Rightarrow> s\<lparr>answer_errors := answer_errors s @ errs\<rparr>
      | Some x \<Rightarrow>
          if errs \<noteq> [] then
            s\<lparr>answer_errors := answer_errors s @ errs, rejected := dict_set k x (rejected s), left_over := dict_pop k (left_over s)\<rparr>
          else s\<lparr>accepted := dict_set k x (accepted s), left_over := dict_pop k (left_over s)\<rparr>)"

definition sort_question ::
    "(string \<Rightarrow> string option) \<Rightarrow> string list \<Rightarrow> bool \<Rightarrow> py_dict \<Rightarrow> py_dict \<Rightarrow> sorted_vars \<Rightarrow> sorted_vars option" where
  "sort_question dec extra_passwords validate_required data q s =
     (let k = question_var q; v = get data k
      in do {
        errs \<leftarrow> (if k \<in> set extra_passwords \<and> is_encrypted v
                 then do { plain \<leftarrow> dec (str_of v); survey_element_validation q [(k, JStr plain)] validate_required }
                 else survey_element_validation q data validate_required);
        Some (place_answer k errs s)
      })"

text \<open>
  \<open>_accept_or_ignore_variables\<close>: \<open>questions\<close> is \<^const>\<open>None\<close> when the survey is off or empty; \<open>template_vars\<close>
  are the variables of the template; \<open>dec\<close> decrypts, or raises; the last two truth values say
  which kinds of error are asked for.
\<close>

definition accept_or_ignore ::
    "(string \<Rightarrow> string option) \<Rightarrow> py_dict list option \<Rightarrow> bool \<Rightarrow> py_dict \<Rightarrow> string list \<Rightarrow> bool \<Rightarrow> bool \<Rightarrow> py_dict \<Rightarrow>
       (py_dict \<times> py_dict \<times> launch_errors) option" where
  "accept_or_ignore dec questions ask_variables template_vars extra_passwords exclude_required exclude_prompts data =
     do {
       s \<leftarrow> fold_opt (sort_question dec extra_passwords (\<not> exclude_required) data)
              (case questions of None \<Rightarrow> [] | Some qs \<Rightarrow> qs)
              \<lparr>left_over = data, rejected = [], accepted = [], answer_errors = []\<rparr>;
       (let acc = (if ask_variables then dict_update (accepted s) (left_over s) else accepted s);
            extra = (if ask_variables then [] else left_over s);
            extra1 = filter (\<lambda>kv. \<not> (case dict_get template_vars (fst kv) of None \<Rightarrow> False | Some t \<Rightarrow> py_eq t (snd kv))) extra
        in Some (acc, dict_update (rejected s) extra1,
                 \<lparr>survey_errors = answer_errors s, disallowed = (if exclude_prompts then [] else dict_keys extra1)\<rparr>))
     }"

subsection \<open>The variables of a job\<close>

definition survey_password_variables :: "py_dict list \<Rightarrow> string list" where
  "survey_password_variables qs = map question_var (filter (\<lambda>q. get q ''type'' = JStr ''password'') qs)"

definition variables_needed_to_start :: "py_dict list \<Rightarrow> string list" where
  "variables_needed_to_start qs = map question_var (filter (\<lambda>q. py_true (get q ''required'')) qs)"

text \<open>
  \<open>_update_unified_job_kwargs\<close>: the variables of the template, then the valid defaults of the
  survey, then those of the launch, without the passwords that were sent as the mark.
\<close>

definition default_of :: "(string \<Rightarrow> string option) \<Rightarrow> py_dict \<Rightarrow> (string \<times> json) list option" where
  "default_of dec q =
     (let k = question_var q; d = get q ''default''
      in if d = JNull then Some []
         else do {
           plain \<leftarrow> (case d of
               JStr s \<Rightarrow> if get q ''type'' = JStr ''password'' \<and> starts_with s encrypted_mark then map_option JStr (dec s) else Some d
             | _ \<Rightarrow> Some d);
           errs \<leftarrow> survey_element_validation q [(k, plain)] True;
           Some (if errs = [] then [(k, d)] else [])
         })"

definition drop_marks :: "py_dict list \<Rightarrow> py_dict \<Rightarrow> py_dict" where
  "drop_marks qs runtime =
     fold (\<lambda>q d. if get q ''type'' = JStr ''password'' \<and> dict_get d (question_var q) = Some (JStr encrypted_mark)
                 then dict_pop (question_var q) d else d) qs runtime"

definition job_extra_vars ::
    "(string \<Rightarrow> string option) \<Rightarrow> py_dict list option \<Rightarrow> py_dict \<Rightarrow> py_dict \<Rightarrow> string option" where
  "job_extra_vars dec questions template_vars runtime =
     (let qs = (case questions of None \<Rightarrow> [] | Some qs \<Rightarrow> qs)
      in do {
        defaults \<leftarrow> map_opt (default_of dec) qs;
        Some (json_dumps (JDict (dict_update (dict_update template_vars (concat defaults)) (drop_marks qs runtime))))
      })"

text \<open>What is shown of the variables of a job, and what the job runs with.\<close>

definition display_extra_vars :: "py_dict \<Rightarrow> string \<Rightarrow> string option" where
  "display_extra_vars survey_passwords evars =
     (if survey_passwords = [] then Some evars
      else (case json_loads evars of
        Some (JDict d) \<Rightarrow> Some (json_dumps (JDict (fold (\<lambda>kv e. if fst kv \<in> set (dict_keys e) then dict_set (fst kv) (snd kv) e else e)
                                                survey_passwords d)))
      | _ \<Rightarrow> None))"

definition decrypt_var :: "(string \<Rightarrow> string option) \<Rightarrow> string \<Rightarrow> py_dict \<Rightarrow> py_dict option" where
  "decrypt_var dec k d =
     (case get d k of
        JStr s \<Rightarrow> if starts_with s encrypted_mark then map_option (\<lambda>p. dict_set k (JStr p) d) (dec s) else Some d
      | _ \<Rightarrow> Some d)"

definition decrypted_extra_vars :: "(string \<Rightarrow> string option) \<Rightarrow> py_dict \<Rightarrow> string \<Rightarrow> string option" where
  "decrypted_extra_vars dec survey_passwords evars =
     (if survey_passwords = [] then Some evars
      else (case json_loads evars of
        Some (JDict d) \<Rightarrow> map_option (\<lambda>e. json_dumps (JDict e)) (fold_opt (decrypt_var dec) (dict_keys survey_passwords) d)
      | _ \<Rightarrow> None))"

definition display_survey_spec :: "py_dict list \<Rightarrow> py_dict list" where
  "display_survey_spec qs =
     map (\<lambda>q. if get q ''type'' = JStr ''password'' \<and> py_true (get q ''default'')
              then dict_set ''default'' (JStr encrypted_mark) q else q) qs"

subsection \<open>A validated specification\<close>

text \<open>The shape of a stored question.\<close>

definition limit_ok :: "py_dict \<Rightarrow> string \<Rightarrow> bool" where
  "limit_ok q k \<longleftrightarrow> (case dict_get q k of None \<Rightarrow> True | Some v \<Rightarrow> v = JNull \<or> is_int v)"

definition dynamic_ok :: "py_dict \<Rightarrow> bool" where
  "dynamic_ok q \<longleftrightarrow> dynamic_enabled q \<noteq> None"

definition question_ok :: "py_dict \<Rightarrow> bool" where
  "question_ok q \<longleftrightarrow>
     (\<exists>ty. dict_get q ''type'' = Some (JStr ty) \<and> map_of survey_type_mapping ty \<noteq> None \<and>
       (ty \<in> {''multiselect'', ''multiplechoice''} \<longrightarrow> dict_get q ''choices'' \<noteq> None)) \<and>
     (\<exists>k. dict_get q ''variable'' = Some (JStr k)) \<and> (\<exists>b. dict_get q ''required'' = Some (JBool b)) \<and>
     limit_ok q ''min'' \<and> limit_ok q ''max'' \<and> dynamic_ok q"

lemma refuse_if_Inr: "refuse_if b e = Inr u \<longleftrightarrow> \<not> b"
  by (simp add: refuse_if_def)

text \<open>The steps that store something change only the choices and the default.\<close>

definition same_but_default :: "py_dict \<Rightarrow> py_dict \<Rightarrow> bool" where
  "same_but_default q q' \<longleftrightarrow> (\<forall>k. k \<notin> {''choices'', ''default''} \<longrightarrow> dict_get q' k = dict_get q k) \<and>
     (dict_get q ''choices'' \<noteq> None \<longrightarrow> dict_get q' ''choices'' \<noteq> None)"

lemma same_but_default_refl [simp]: "same_but_default q q"
  by (simp add: same_but_default_def)

lemma same_but_default_trans: "same_but_default p q \<Longrightarrow> same_but_default q r \<Longrightarrow> same_but_default p r"
  by (simp add: same_but_default_def)

lemma same_but_default_set: "k \<in> {''choices'', ''default''} \<Longrightarrow> same_but_default q (dict_set k v q)"
  by (auto simp: same_but_default_def dict_simps)

lemma check_choices_same: "check_choices i ty q = Inr q' \<Longrightarrow> same_but_default q q'"
proof -
  assume a: "check_choices i ty q = Inr q'"
  show ?thesis
  proof (cases "ty \<noteq> ''multiselect'' \<and> ty \<noteq> ''multiplechoice''")
    case True
    with a show ?thesis by (simp add: check_choices_def)
  next
    case False
    with a obtain c where c: "dict_get q ''choices'' = Some c" by (auto simp: check_choices_def split: option.splits)
    define q1 where "q1 = (case c of JStr s \<Rightarrow> dict_set ''choices'' (JStr (join_lines s)) q | _ \<Rightarrow> q)"
    have first: "same_but_default q q1"
      unfolding q1_def using same_but_default_set [of "''choices''" q] by (simp split: json.split)
    have "q' = q1 \<or> (\<exists>s. q' = dict_set ''default'' (JStr s) q1)"
      using a c False unfolding check_choices_def q1_def [symmetric]
      by (simp add: q1_def [symmetric] Let_def split: option.splits json.splits if_splits) blast+
    with first same_but_default_set [of "''default''" q1] same_but_default_trans show ?thesis by blast
  qed
qed

lemma check_encryption_same: "check_encryption enc old i ty q = Inr q' \<Longrightarrow> same_but_default q q'"
  using same_but_default_set [of "''default''" q]
  by (auto simp: check_encryption_def Let_def split: option.splits json.splits if_splits)

lemma validated_dynamic:
  assumes "check_dynamic i ty q = Inr u"
  shows "dynamic_ok q"
proof (cases "dict_get q ''dynamic_choices''")
  case None
  then show ?thesis by (simp add: dynamic_ok_def dynamic_enabled_def dict_get_default_def)
next
  case (Some dc)
  with assms have "validate_dynamic_choices_config dc = Some []"
    by (auto simp: check_dynamic_def refuse_if_def split: option.splits if_splits)
  then show ?thesis using Some
    by (cases dc) (auto simp: validate_dynamic_choices_config_def dynamic_ok_def dynamic_enabled_def dict_get_default_def)
qed

lemma limit_checked: "check_limit i k q = Inr u \<Longrightarrow> limit_ok q k"
  by (auto simp: check_limit_def limit_ok_def refuse_if_def split: option.splits if_splits)

lemma general_checked:
  assumes "check_general i q = Inr u"
  shows "(\<exists>ty. dict_get q ''type'' = Some (JStr ty)) \<and> (\<exists>k. dict_get q ''variable'' = Some (JStr k)) \<and>
    (\<exists>b. dict_get q ''required'' = Some (JBool b))"
proof -
  have field: "\<exists>v. dict_get q f = Some v \<and> get q f = v" if "f \<in> set (dict_keys q)" for f
    using that map_of_eq_None_iff [of q f] by (cases "dict_get q f") (simp_all add: get_def dict_get_default_def)
  from assms have "''type'' \<in> set (dict_keys q)" "is_str (get q ''type'')" "''variable'' \<in> set (dict_keys q)"
    "is_str (get q ''variable'')" "''required'' \<in> set (dict_keys q)" "is_bool (get q ''required'')"
    by (auto simp: check_general_def Let_def then_ok_Inr refuse_if_Inr)
  with field show ?thesis
    by (fastforce simp: is_str_def is_bool_def split: json.splits)
qed

lemma question_ok_same:
  assumes ok: "question_ok q" and same: "same_but_default q q'"
  shows "question_ok q'"
proof -
  from same have kept: "dict_get q' k = dict_get q k" if "k \<notin> {''choices'', ''default''}" for k
    using that by (simp add: same_but_default_def)
  from same have "dict_get q ''choices'' \<noteq> None \<longrightarrow> dict_get q' ''choices'' \<noteq> None" by (simp add: same_but_default_def)
  with ok show ?thesis
    unfolding question_ok_def limit_ok_def dynamic_ok_def dynamic_enabled_def dict_get_default_def
    by (auto simp: kept)
qed

lemma choices_checked: "check_choices i ty q = Inr q' \<Longrightarrow> ty \<in> {''multiselect'', ''multiplechoice''} \<Longrightarrow> dict_get q ''choices'' \<noteq> None"
  by (cases "dict_get q ''choices''") (auto simp: check_choices_def)

lemma check_item_ok:
  assumes "check_item enc old i seen item = Inr q'"
  shows "question_ok q'"
proof -
  from assms obtain q where item: "item = JDict q" by (cases item) (auto simp: check_item_def)
  define ty where "ty = str_of (get q ''type'')"
  from assms item obtain ok q1 where steps: "check_general i q = Inr ()" "map_of survey_type_mapping ty = Some ok"
    "check_limit i ''min'' q = Inr ()" "check_limit i ''max'' q = Inr ()" "check_choices i ty q = Inr q1"
    "check_dynamic i ty q1 = Inr ()" "check_encryption enc old i ty q1 = Inr q'"
    by (auto simp: check_item_def Let_def then_ok_Inr ty_def split: option.splits)
  from general_checked [OF steps(1)] obtain t where t: "dict_get q ''type'' = Some (JStr t)" by blast
  then have "t = ty" by (simp add: ty_def get_def dict_get_default_def str_of_def)
  note same = check_choices_same [OF steps(5)]
  have choices: "dict_get q1 ''choices'' \<noteq> None" if "ty \<in> {''multiselect'', ''multiplechoice''}"
  proof -
    from choices_checked [OF steps(5) that] have "dict_get q ''choices'' \<noteq> None" .
    with same show ?thesis by (simp add: same_but_default_def)
  qed
  have "question_ok q1"
    using t \<open>t = ty\<close> steps(2) choices validated_dynamic [OF steps(6)] limit_checked [OF steps(3)] limit_checked [OF steps(4)]
      general_checked [OF steps(1)] same
    by (auto simp: question_ok_def same_but_default_def limit_ok_def)
  with check_encryption_same [OF steps(7)] show ?thesis by (rule question_ok_same [rotated])
qed

lemma check_items_ok: "check_items enc old i seen items = Inr qs \<Longrightarrow> list_all question_ok qs"
  by (induction items arbitrary: i seen qs) (auto simp: then_ok_Inr check_item_ok)

lemma validated_questions: "validate_spec_data enc new old = Inr qs \<Longrightarrow> list_all question_ok qs"
  by (auto simp: validate_spec_data_def check_items_ok split: option.splits)


subsection \<open>The answers that a validated specification accepts\<close>

text \<open>What an answer must be, read off the types: independent of the order of the checks.\<close>

definition bound :: "py_dict \<Rightarrow> string \<Rightarrow> int option" where
  "bound q k = (case dict_get q k of Some (JInt i) \<Rightarrow> Some i | Some (JBool b) \<Rightarrow> Some (if b then 1 else 0) | _ \<Rightarrow> None)"

definition in_bounds :: "py_dict \<Rightarrow> rat \<Rightarrow> bool" where
  "in_bounds q r \<longleftrightarrow> (case bound q ''min'' of None \<Rightarrow> True | Some m \<Rightarrow> of_int m \<le> r) \<and>
     (case bound q ''max'' of None \<Rightarrow> True | Some m \<Rightarrow> r \<le> of_int m)"

definition listed :: "py_dict \<Rightarrow> json \<Rightarrow> bool" where
  "listed q v \<longleftrightarrow> (case get q ''choices'' of
     JStr s \<Rightarrow> v \<in> JStr ` set (choice_lines s) | JList xs \<Rightarrow> list_ex (py_eq v) xs | _ \<Rightarrow> False)"

definition answer_ok :: "py_dict \<Rightarrow> json \<Rightarrow> bool" where
  "answer_ok q v \<longleftrightarrow>
     (let ty = str_of (get q ''type''); dynamic = (dynamic_enabled q = Some True)
      in if ty = ''integer'' then (case v of JInt i \<Rightarrow> in_bounds q (of_int i) | _ \<Rightarrow> False)
         else if ty = ''float'' then (case numeric v of None \<Rightarrow> False | Some r \<Rightarrow> in_bounds q r)
         else if ty = ''multiselect'' then (case v of JList vs \<Rightarrow> dynamic \<or> list_all (listed q) vs | _ \<Rightarrow> False)
         else if ty = ''multiplechoice'' then dynamic \<or> listed q v
         else (case v of JStr s \<Rightarrow> in_bounds q (of_nat (length s)) | _ \<Rightarrow> False))"

definition conforms :: "py_dict \<Rightarrow> py_dict \<Rightarrow> bool" where
  "conforms q data \<longleftrightarrow>
     (let required = py_true (get q ''required'')
      in case dict_get data (question_var q) of
           None \<Rightarrow> \<not> required
         | Some v \<Rightarrow>
             if get q ''type'' = JStr ''password'' \<and> v = JStr encrypted_mark then required \<longrightarrow> get q ''default'' \<noteq> JNull
             else answer_ok q v)"

definition plain_choices :: "py_dict \<Rightarrow> bool" where
  "plain_choices q \<longleftrightarrow> (case get q ''choices'' of JStr _ \<Rightarrow> True | JList _ \<Rightarrow> True | _ \<Rightarrow> False)"

lemma limits_read:
  assumes "limit_ok q k"
  shows "limit_with py_int q k = Some (bound q k)" "limit_with py_num q k = Some (map_option rat_of_int (bound q k))"
  using assms by (auto simp: limit_ok_def limit_with_def bound_def is_int_def split: option.splits json.splits)

lemma checks_in_bounds:
  assumes "limit_ok q ''min''" "limit_ok q ''max''"
  shows "map_option (\<lambda>e. e = []) (check_text q k v) = Some (case v of JStr s \<Rightarrow> in_bounds q (of_nat (length s)) | _ \<Rightarrow> False)"
    "map_option (\<lambda>e. e = []) (check_integer q k v) = Some (case v of JInt i \<Rightarrow> in_bounds q (of_int i) | _ \<Rightarrow> False)"
    "map_option (\<lambda>e. e = []) (check_float q k v) = Some ((case numeric v of None \<Rightarrow> False | Some r \<Rightarrow> in_bounds q r))"
proof -
  have nat_int: "(of_nat n :: rat) = of_int (int n)" for n by simp
  note simps = in_bounds_def undercuts_def exceeds_def limits_read [OF assms(1)] limits_read [OF assms(2)] not_less
  show "map_option (\<lambda>e. e = []) (check_text q k v) = Some (case v of JStr s \<Rightarrow> in_bounds q (of_nat (length s)) | _ \<Rightarrow> False)"
    by (cases v; cases "bound q ''min''"; cases "bound q ''max''") (simp_all add: check_text_def simps nat_int del: of_int_of_nat_eq)
  show "map_option (\<lambda>e. e = []) (check_integer q k v) = Some (case v of JInt i \<Rightarrow> in_bounds q (of_int i) | _ \<Rightarrow> False)"
    by (cases v; cases "bound q ''min''"; cases "bound q ''max''") (simp_all add: check_integer_def simps)
  show "map_option (\<lambda>e. e = []) (check_float q k v) = Some ((case numeric v of None \<Rightarrow> False | Some r \<Rightarrow> in_bounds q r))"
    by (cases "numeric v"; cases "bound q ''min''"; cases "bound q ''max''") (simp_all add: check_float_def simps)
qed

lemma choice_checked:
  assumes "plain_choices q"
  obtains cs where "choice_list q = Some cs" "\<And>v. check_choice k cs v = Some (if listed q v then [] else [Not_A_Choice v k cs])"
proof -
  from assms obtain c where c: "dict_get q ''choices'' = Some c" "get q ''choices'' = c"
    by (cases "dict_get q ''choices''") (auto simp: plain_choices_def get_def dict_get_default_def)
  show ?thesis
  proof (cases c)
    case (JStr s)
    have "list_ex (py_eq v) (map JStr cs) \<longleftrightarrow> v \<in> JStr ` set cs" for v and cs :: "string list"
      by (cases v) (auto simp: list_ex_iff)
    with c JStr show ?thesis
      by (intro that [of "JList (map JStr (choice_lines s))"]) (simp_all add: choice_list_def check_choice_def choice_in_def listed_def)
  next
    case (JList xs)
    with c show ?thesis by (intro that [of "JList xs"]) (simp_all add: choice_list_def check_choice_def choice_in_def listed_def)
  qed (use assms c in \<open>simp_all add: plain_choices_def\<close>)
qed


text \<open>
  The specification may store \<open>null\<close> or an object as choices: only texts and lists can be searched as
  meant.
\<close>

definition usable_choices :: "py_dict \<Rightarrow> bool" where
  "usable_choices q \<longleftrightarrow>
     (get q ''type'' \<in> {JStr ''multiselect'', JStr ''multiplechoice''} \<and> dynamic_enabled q \<noteq> Some True \<longrightarrow> plain_choices q)"

lemma map_opt_total: "(\<And>x. f x = Some (g x)) \<Longrightarrow> map_opt f xs = Some (map g xs)"
  by (induction xs) simp_all

lemma multiselect_checked:
  assumes "get q ''type'' = JStr ''multiselect''" "dynamic_ok q" "usable_choices q"
  shows "map_option (\<lambda>e. e = []) (check_multiselect q k v) =
    Some (case v of JList vs \<Rightarrow> dynamic_enabled q = Some True \<or> list_all (listed q) vs | _ \<Rightarrow> False)"
proof (cases "dynamic_enabled q")
  case (Some dyn)
  show ?thesis
  proof (cases dyn)
    case False
    with assms Some have "plain_choices q" by (simp add: usable_choices_def)
    then obtain cs where "choice_list q = Some cs" "\<And>v. check_choice k cs v = Some (if listed q v then [] else [Not_A_Choice v k cs])"
      by (rule choice_checked [of q k]) blast
    then show ?thesis using Some False map_opt_total [of "check_choice k cs"]
      by (cases v) (auto simp: check_multiselect_def list_all_iff split: if_splits)
  qed (use Some in \<open>cases v; simp add: check_multiselect_def\<close>)
qed (use assms in \<open>simp add: dynamic_ok_def\<close>)

lemma multiplechoice_checked:
  assumes "get q ''type'' = JStr ''multiplechoice''" "dynamic_ok q" "usable_choices q"
  shows "map_option (\<lambda>e. e = []) (check_multiplechoice q k vo) =
    Some (case vo of None \<Rightarrow> True | Some v \<Rightarrow> dynamic_enabled q = Some True \<or> listed q v)"
proof (cases "dynamic_enabled q")
  case (Some dyn)
  show ?thesis
  proof (cases dyn)
    case False
    with assms Some have "plain_choices q" by (simp add: usable_choices_def)
    then obtain cs where "choice_list q = Some cs" "\<And>v. check_choice k cs v = Some (if listed q v then [] else [Not_A_Choice v k cs])"
      by (rule choice_checked [of q k]) blast
    then show ?thesis using Some False by (cases vo) (simp_all add: check_multiplechoice_def)
  qed (use Some in \<open>cases vo; simp add: check_multiplechoice_def\<close>)
qed (use assms in \<open>simp add: dynamic_ok_def\<close>)

lemma known_types:
  "map_of survey_type_mapping ty \<noteq> None \<longleftrightarrow>
     ty \<in> {''text'', ''textarea'', ''password'', ''multiplechoice'', ''multiselect'', ''integer'', ''float''}"
  by (auto simp: survey_type_mapping_def)

lemma answer_checked:
  assumes q: "question_ok q" "usable_choices q"
  shows "map_option (\<lambda>e. e = []) (survey_element_validation q data True) = Some (conforms q data)"
proof -
  from q(1) obtain ty k b where f: "dict_get q ''type'' = Some (JStr ty)" "dict_get q ''variable'' = Some (JStr k)"
    "dict_get q ''required'' = Some (JBool b)" "map_of survey_type_mapping ty \<noteq> None"
    "limit_ok q ''min''" "limit_ok q ''max''" "dynamic_ok q"
    unfolding question_ok_def by blast
  then have got: "get q ''type'' = JStr ty" "get q ''required'' = JBool b" "question_var q = k"
    by (simp_all add: get_def dict_get_default_def question_var_def str_of_def)
  have keys: "k \<in> set (dict_keys data) \<longleftrightarrow> dict_get data k \<noteq> None" by (simp add: map_of_eq_None_iff)
  show ?thesis
  proof (cases "dict_get data k")
    case None
    then have "k \<notin> set (dict_keys data)" using keys by blast
    with None show ?thesis
      using f got multiplechoice_checked [of q k None] q(2)
      by (auto simp: survey_element_validation_def conforms_def if_given_def)
  next
    case (Some v)
    then have there: "k \<in> set (dict_keys data)" using keys by blast
    from f(4) have "ty \<in> {''text'', ''textarea'', ''password'', ''multiplechoice'', ''multiselect'', ''integer'', ''float''}"
      by (simp only: known_types)
    with Some there show ?thesis
      using f got multiplechoice_checked [of q k "Some v"] multiselect_checked [of q k v] checks_in_bounds [of q k v] q(2)
      by (auto simp: survey_element_validation_def conforms_def if_given_def answer_ok_def str_of_def Let_def)
  qed
qed


text \<open>
  C26: A question of a validated specification, whose static choices (if it has any) are a text or a
  list, decides every answer without raising: there is no error iff the answer has the type of the
  question, lies within its limits and among its choices, a required question has one, and a
  password sent as the mark has a default behind it. The validation does not ask for choices of
  that form: it lets null and numbers through, and then an answer raises.
\<close>

theorem validated_surveys_decide:
  assumes "validate_spec_data enc new old = Inr qs" "q \<in> set qs" "usable_choices q"
  shows "map_option (\<lambda>e. e = []) (survey_element_validation q data True) = Some (conforms q data)"
  using answer_checked validated_questions [OF assms(1)] assms(2,3) by (simp add: list_all_iff)

subsection \<open>The variables that a launch takes\<close>

lemma dict_pop_get [dict_simps]: "dict_get (dict_pop k d) j = (if j = k then None else dict_get d j)"
  by (induction d) (auto simp: dict_pop_def)

lemma dict_update_get [dict_simps]:
  "distinct (dict_keys e) \<Longrightarrow> dict_get (dict_update d e) k = (case dict_get e k of None \<Rightarrow> dict_get d k | Some v \<Rightarrow> Some v)"
proof (induction e arbitrary: d)
  case (Cons kv e)
  then have "dict_get e (fst kv) = None" by (simp add: map_of_eq_None_iff)
  with Cons show ?case by (cases kv) (auto simp: dict_update_def dict_simps split: option.split)
qed (simp add: dict_update_def)

lemma dict_filter_get:
  "distinct (dict_keys d) \<Longrightarrow> dict_get (filter (\<lambda>kv. P (fst kv) (snd kv)) d) k =
     (case dict_get d k of None \<Rightarrow> None | Some v \<Rightarrow> if P k v then Some v else None)"
proof (induction d)
  case (Cons kv d)
  then have "dict_get d (fst kv) = None" by (simp add: map_of_eq_None_iff)
  with Cons show ?case by (cases kv) (auto split: option.split)
qed simp

lemma fold_opt_snoc: "fold_opt f (xs @ [x]) s = (case fold_opt f xs s of None \<Rightarrow> None | Some t \<Rightarrow> f x t)"
  by (induction xs arbitrary: s) (simp_all split: option.splits)

text \<open>The variables of a validated specification are distinct.\<close>

lemma check_item_variable:
  assumes "check_item enc old i seen item = Inr q'"
  shows "question_var q' \<notin> set seen"
proof -
  from assms obtain q where item: "item = JDict q" by (cases item) (auto simp: check_item_def)
  with assms obtain q1 ty where "question_var q \<notin> set seen" "check_choices i ty q = Inr q1"
    "check_encryption enc old i ty q1 = Inr q'"
    by (auto simp: check_item_def Let_def then_ok_Inr refuse_if_Inr question_var_def split: option.splits)
  moreover have "same_but_default q q'" using same_but_default_trans check_choices_same check_encryption_same calculation(2,3) by blast
  then have "question_var q' = question_var q"
    by (simp add: same_but_default_def question_var_def get_def dict_get_default_def)
  ultimately show ?thesis by simp
qed

lemma check_items_distinct:
  "check_items enc old i seen items = Inr qs \<Longrightarrow> distinct (map question_var qs) \<and> set (map question_var qs) \<inter> set seen = {}"
proof (induction items arbitrary: i seen qs)
  case (Cons item items)
  from Cons.prems obtain q rest where r: "check_item enc old i seen item = Inr q"
    "check_items enc old (i + 1) (seen @ [question_var q]) items = Inr rest" "qs = q # rest"
    by (auto simp: then_ok_Inr question_var_def)
  from Cons.IH [OF r(2)] check_item_variable [OF r(1)] r(3) show ?case by auto
qed simp

lemma validated_distinct: "validate_spec_data enc new old = Inr qs \<Longrightarrow> distinct (map question_var qs)"
  by (auto simp: validate_spec_data_def dest: check_items_distinct split: option.splits)


definition no_vars :: "py_dict \<Rightarrow> sorted_vars" where
  "no_vars data = \<lparr>left_over = data, rejected = [], accepted = [], answer_errors = []\<rparr>"

lemma place_answer_get:
  "dict_get (left_over (place_answer k errs s)) j = (if j = k then None else dict_get (left_over s) j)"
  "dict_get (accepted (place_answer k errs s)) j =
     (if j = k \<and> errs = [] \<and> dict_get (left_over s) k \<noteq> None then dict_get (left_over s) k else dict_get (accepted s) j)"
  "dict_get (rejected (place_answer k errs s)) j =
     (if j = k \<and> errs \<noteq> [] \<and> dict_get (left_over s) k \<noteq> None then dict_get (left_over s) k else dict_get (rejected s) j)"
  "answer_errors (place_answer k errs s) = answer_errors s @ errs"
  by (auto simp: place_answer_def dict_simps split: option.splits)

lemma place_answer_distinct:
  "distinct (dict_keys (left_over s)) \<Longrightarrow> distinct (dict_keys (left_over (place_answer k errs s)))"
  by (auto simp: place_answer_def dict_pop_def distinct_map intro: inj_on_subset split: option.splits)

text \<open>After some of the questions, with distinct variables.\<close>

lemma sort_questions:
  assumes "list_all question_ok qs" "list_all usable_choices qs" "distinct (map question_var qs)" "distinct (dict_keys data)"
  shows "\<exists>s. fold_opt (sort_question dec [] True data) qs (no_vars data) = Some s \<and>
    (\<forall>j. dict_get (left_over s) j = (if j \<in> question_var ` set qs then None else dict_get data j)) \<and>
    (\<forall>j. dict_get (accepted s) j = (if \<exists>q \<in> set qs. question_var q = j \<and> conforms q data then dict_get data j else None)) \<and>
    (\<forall>j. dict_get (rejected s) j = (if \<exists>q \<in> set qs. question_var q = j \<and> \<not> conforms q data then dict_get data j else None)) \<and>
    distinct (dict_keys (left_over s)) \<and> (answer_errors s = [] \<longleftrightarrow> (\<forall>q \<in> set qs. conforms q data))"
  using assms
proof (induction qs rule: rev_induct)
  case Nil
  then show ?case by (simp add: no_vars_def)
next
  case (snoc q qs)
  then obtain s where s: "fold_opt (sort_question dec [] True data) qs (no_vars data) = Some s"
    "\<And>j. dict_get (left_over s) j = (if j \<in> question_var ` set qs then None else dict_get data j)"
    "\<And>j. dict_get (accepted s) j = (if \<exists>q \<in> set qs. question_var q = j \<and> conforms q data then dict_get data j else None)"
    "\<And>j. dict_get (rejected s) j = (if \<exists>q \<in> set qs. question_var q = j \<and> \<not> conforms q data then dict_get data j else None)"
    "distinct (dict_keys (left_over s))" "answer_errors s = [] \<longleftrightarrow> (\<forall>q \<in> set qs. conforms q data)" by auto
  from snoc.prems answer_checked [of q data] obtain errs where
    e: "survey_element_validation q data True = Some errs" "errs = [] \<longleftrightarrow> conforms q data" by auto
  have new: "question_var q \<notin> question_var ` set qs" using snoc.prems(3) by simp
  let ?t = "place_answer (question_var q) errs s"
  have "fold_opt (sort_question dec [] True data) (qs @ [q]) (no_vars data) = Some ?t"
    using s(1) e(1) by (simp add: fold_opt_snoc sort_question_def Let_def)
  moreover have "dict_get (left_over ?t) j = (if j \<in> question_var ` set (qs @ [q]) then None else dict_get data j)" for j
    by (simp add: place_answer_get s(2))
  moreover have "dict_get (accepted ?t) j =
      (if \<exists>r \<in> set (qs @ [q]). question_var r = j \<and> conforms r data then dict_get data j else None)" for j
    using new e(2) by (auto simp: place_answer_get(2) s(2,3))
  moreover have "dict_get (rejected ?t) j =
      (if \<exists>r \<in> set (qs @ [q]). question_var r = j \<and> \<not> conforms r data then dict_get data j else None)" for j
    using new e(2) by (auto simp: place_answer_get(3) s(2,4))
  moreover have "answer_errors ?t = [] \<longleftrightarrow> (\<forall>r \<in> set (qs @ [q]). conforms r data)"
    using e(2) s(6) by (auto simp: place_answer_get(4))
  ultimately show ?case using place_answer_distinct [OF s(5)] by blast
qed


definition answered :: "py_dict list \<Rightarrow> py_dict \<Rightarrow> string \<Rightarrow> bool" where
  "answered qs data k \<longleftrightarrow> list_ex (\<lambda>q. question_var q = k \<and> conforms q data) qs"

definition like_template :: "py_dict \<Rightarrow> string \<Rightarrow> json \<Rightarrow> bool" where
  "like_template tv k v \<longleftrightarrow> (case dict_get tv k of None \<Rightarrow> False | Some t \<Rightarrow> py_eq t v)"

lemma unanswered:
  "distinct (map question_var qs) \<Longrightarrow> k \<in> question_var ` set qs \<Longrightarrow>
     (\<exists>q \<in> set qs. question_var q = k \<and> \<not> conforms q data) \<longleftrightarrow> \<not> answered qs data k"
  by (auto simp: answered_def list_ex_iff distinct_map inj_on_def)

text \<open>
  C27: A launch with a survey that was validated and whose static choices are texts or lists, without
  stored passwords and with no kind of error excluded, never raises and sorts its variables without
  rest: an answer that conforms to its question is accepted with its value and one that does not is
  rejected; a variable the survey does not ask for is accepted if the template prompts for
  variables, and otherwise rejected unless it only repeats the template's value. It reports a
  survey error iff some question's answer does not conform, and names as not allowed exactly the
  rejected variables that the survey does not ask for.
\<close>

theorem launch_sorts_variables:
  assumes "validate_spec_data enc new old = Inr qs" "list_all usable_choices qs" "distinct (dict_keys data)"
  shows "\<exists>acc rej errs. accept_or_ignore dec (Some qs) ask tv [] False False data = Some (acc, rej, errs) \<and>
    (\<forall>k. dict_get acc k = (if answered qs data k \<or> ask \<and> k \<notin> question_var ` set qs then dict_get data k else None)) \<and>
    (\<forall>k. dict_get rej k =
       (if k \<in> question_var ` set qs then (if answered qs data k then None else dict_get data k)
        else case dict_get data k of None \<Rightarrow> None | Some v \<Rightarrow> if ask \<or> like_template tv k v then None else Some v)) \<and>
    (survey_errors errs = [] \<longleftrightarrow> list_all (\<lambda>q. conforms q data) qs) \<and>
    set (disallowed errs) = {k. k \<notin> question_var ` set qs \<and> dict_get rej k \<noteq> None}"
proof -
  note valid = validated_questions [OF assms(1)] validated_distinct [OF assms(1)]
  from sort_questions [OF valid(1) assms(2) valid(2) assms(3)] obtain s where
    s: "fold_opt (sort_question dec [] True data) qs (no_vars data) = Some s"
    "\<And>j. dict_get (left_over s) j = (if j \<in> question_var ` set qs then None else dict_get data j)"
    "\<And>j. dict_get (accepted s) j = (if \<exists>q \<in> set qs. question_var q = j \<and> conforms q data then dict_get data j else None)"
    "\<And>j. dict_get (rejected s) j = (if \<exists>q \<in> set qs. question_var q = j \<and> \<not> conforms q data then dict_get data j else None)"
    "distinct (dict_keys (left_over s))" "answer_errors s = [] \<longleftrightarrow> (\<forall>q \<in> set qs. conforms q data)" by blast
  define extra where "extra = filter (\<lambda>kv. \<not> like_template tv (fst kv) (snd kv)) (if ask then [] else left_over s)"
  define acc where "acc = (if ask then dict_update (accepted s) (left_over s) else accepted s)"
  have extra: "distinct (dict_keys extra)"
    using s(5) by (auto simp: extra_def distinct_map intro: inj_on_subset)
  have extra_get: "dict_get extra k = (if ask \<or> k \<in> question_var ` set qs then None else
      case dict_get data k of None \<Rightarrow> None | Some v \<Rightarrow> if like_template tv k v then None else Some v)" for k
    using dict_filter_get [OF s(5), of "\<lambda>k v. \<not> like_template tv k v"] by (auto simp: extra_def s(2) split: option.split)
  have run: "accept_or_ignore dec (Some qs) ask tv [] False False data =
      Some (acc, dict_update (rejected s) extra, \<lparr>survey_errors = answer_errors s, disallowed = dict_keys extra\<rparr>)"
    using s(1) by (simp add: accept_or_ignore_def no_vars_def acc_def extra_def like_template_def Let_def)
  have "dict_get acc k = (if answered qs data k \<or> ask \<and> k \<notin> question_var ` set qs then dict_get data k else None)" for k
    by (auto simp: acc_def dict_simps s(5) s(2,3) answered_def list_ex_iff split: option.split)
  moreover have "dict_get (dict_update (rejected s) extra) k =
      (if k \<in> question_var ` set qs then (if answered qs data k then None else dict_get data k)
       else case dict_get data k of None \<Rightarrow> None | Some v \<Rightarrow> if ask \<or> like_template tv k v then None else Some v)" for k
    using unanswered [OF valid(2), of k data]
    by (auto simp: dict_simps extra extra_get s(4) split: option.split)
  moreover have "set (dict_keys extra) = {k. k \<notin> question_var ` set qs \<and> dict_get (dict_update (rejected s) extra) k \<noteq> None}"
  proof -
    have keys: "k \<in> set (dict_keys extra) \<longleftrightarrow> dict_get extra k \<noteq> None" for k by (simp add: map_of_eq_None_iff)
    have "dict_get extra k \<noteq> None \<longleftrightarrow> k \<notin> question_var ` set qs \<and> dict_get (dict_update (rejected s) extra) k \<noteq> None" for k
    proof (cases "k \<in> question_var ` set qs")
      case True
      then show ?thesis by (simp add: extra_get)
    next
      case False
      then have "dict_get (rejected s) k = None" by (auto simp: s(4))
      then show ?thesis using False by (simp add: dict_update_get [OF extra] split: option.split)
    qed
    then show ?thesis unfolding keys [symmetric] by blast
  qed
  ultimately show ?thesis using run s(6) by (auto simp: list_all_iff)
qed

definition sample_survey :: py_dict where
  "sample_survey = [(''name'', JStr ''n''), (''description'', JStr []), (''spec'', JList
     [JDict [(''type'', JStr ''integer''), (''question_name'', JStr ''Count?''), (''variable'', JStr ''n''),
             (''required'', JBool True), (''min'', JInt 1), (''max'', JInt 3)],
      JDict [(''type'', JStr ''multiplechoice''), (''question_name'', JStr ''Where?''), (''variable'', JStr ''site''),
             (''required'', JBool False), (''choices'', JList [JStr ''a'', JStr ''b''])]])]"

definition sample_questions :: "py_dict list" where
  "sample_questions = dicts_of (case get sample_survey ''spec'' of JList xs \<Rightarrow> xs | _ \<Rightarrow> [])"

lemma sample_survey_valid: "validate_spec_data id sample_survey [] = Inr sample_questions"
  by code_simp

lemma validated_surveys_decide_witness:
  "map_option (\<lambda>e. e = []) (survey_element_validation (hd sample_questions) [(''n'', JInt 5)] True) = Some False"
proof -
  have "conforms (hd sample_questions) [(''n'', JInt 5)] = False" by code_simp
  moreover have "usable_choices (hd sample_questions)" by code_simp
  moreover have "hd sample_questions \<in> set sample_questions" by code_simp
  ultimately show ?thesis
    using validated_surveys_decide [OF sample_survey_valid, of "hd sample_questions" "[(''n'', JInt 5)]"] by simp
qed

lemma launch_sorts_variables_witness:
  "\<exists>acc rej errs. accept_or_ignore Some (Some sample_questions) False [] [] False False
       [(''n'', JInt 2), (''site'', JStr ''c''), (''x'', JInt 1)] = Some (acc, rej, errs) \<and>
     dict_get acc ''n'' = Some (JInt 2) \<and> dict_get rej ''site'' = Some (JStr ''c'') \<and> dict_get rej ''x'' = Some (JInt 1)"
proof -
  let ?data = "[(''n'', JInt 2), (''site'', JStr ''c''), (''x'', JInt 1)]"
  have "list_all usable_choices sample_questions" by code_simp
  moreover have "distinct (dict_keys ?data)" by code_simp
  moreover have "answered sample_questions ?data ''n''" "\<not> answered sample_questions ?data ''site''"
    "''x'' \<notin> question_var ` set sample_questions" "''site'' \<in> question_var ` set sample_questions" by code_simp+
  moreover have "\<not> like_template [] ''x'' (JInt 1)" by (simp add: like_template_def)
  ultimately show ?thesis
    using launch_sorts_variables [OF sample_survey_valid, of ?data Some False "[]"] by fastforce
qed

end
