(* ===== verification/InventoryGroups.thy ===== *)
theory InventoryGroups
  imports PyValues
begin

section \<open>The groups of an inventory\<close>

text \<open>
  Models the group hierarchy of \<^verbatim>\<open>forail/main/models/inventory.py\<close> (the maps of an inventory,
  the walks up and down the hierarchy, \<open>Group.delete_recursive\<close>) and the check that
  \<^verbatim>\<open>forail/api/views/groups.py\<close> makes before a group becomes a child of another. The tables are
  lists of rows; a Python set is the list of its elements, walked in the order of the list. The
  lemmas show that the walks end on any hierarchy, cycles included, with the transitive closure,
  that accepted associations keep the hierarchy free of cycles, and what a deletion takes along.
\<close>

subsection \<open>Rows and maps\<close>

record group_row =
  gr_id :: int
  gr_inventory :: int
  gr_name :: string
  gr_vars :: py_dict

record host_row =
  hr_id :: int
  hr_inventory :: int
  hr_name :: string
  hr_enabled :: bool
  hr_vars :: py_dict

text \<open>\<open>group_hosts\<close> pairs a group with a host, \<open>group_parents\<close> a group with a parent of it.\<close>

record inv_tables =
  group_rows :: "group_row list"
  host_rows :: "host_row list"
  group_hosts :: "(int \<times> int) list"
  group_parents :: "(int \<times> int) list"

definition group_in :: "inv_tables \<Rightarrow> int \<Rightarrow> int \<Rightarrow> bool" where
  "group_in db pk g \<longleftrightarrow> list_ex (\<lambda>r. gr_id r = g \<and> gr_inventory r = pk) (group_rows db)"

definition host_in :: "inv_tables \<Rightarrow> int \<Rightarrow> int \<Rightarrow> bool" where
  "host_in db pk h \<longleftrightarrow> list_ex (\<lambda>r. hr_id r = h \<and> hr_inventory r = pk) (host_rows db)"

definition add_pair :: "'a \<times> 'b \<Rightarrow> ('a, 'b list) pydict \<Rightarrow> ('a, 'b list) pydict" where
  "add_pair kv m = dict_set (fst kv) (set_add (snd kv) (dict_get_default m (fst kv) [])) m"

definition collect_pairs :: "('a \<times> 'b) list \<Rightarrow> ('a, 'b list) pydict" where
  "collect_pairs rows = fold add_pair rows []"

definition get_group_hosts_map :: "inv_tables \<Rightarrow> int \<Rightarrow> (int, int list) pydict" where
  "get_group_hosts_map db pk =
     collect_pairs (filter (\<lambda>(g, h). group_in db pk g \<and> host_in db pk h) (group_hosts db))"

definition parent_rows :: "inv_tables \<Rightarrow> int \<Rightarrow> (int \<times> int) list" where
  "parent_rows db pk = filter (\<lambda>(c, p). group_in db pk c \<and> group_in db pk p) (group_parents db)"

definition get_group_parents_map :: "inv_tables \<Rightarrow> int \<Rightarrow> (int, int list) pydict" where
  "get_group_parents_map db pk = collect_pairs (parent_rows db pk)"

definition get_group_children_map :: "inv_tables \<Rightarrow> int \<Rightarrow> (int, int list) pydict" where
  "get_group_children_map db pk = collect_pairs (map (\<lambda>(c, p). (p, c)) (parent_rows db pk))"

subsection \<open>Walking the hierarchy\<close>

text \<open>The three sets of a walk. A key that is visited is in the first one.\<close>

record walk =
  to_check :: "int list"
  checked :: "int list"
  found :: "int list"

definition visit :: "(int, int list) pydict \<Rightarrow> (int, int list) pydict \<Rightarrow> int \<Rightarrow> walk \<Rightarrow> walk" where
  "visit nxt out k s =
     (let ids = dict_get_default nxt k []; c = set_add k (checked s)
      in \<lparr>to_check = fold set_add (filter (\<lambda>i. i \<notin> set c) ids) (set_discard k (to_check s)), checked = c,
          found = fold set_add (dict_get_default out k []) (found s)\<rparr>)"

definition sweep :: "(int, int list) pydict \<Rightarrow> (int, int list) pydict \<Rightarrow> walk \<Rightarrow> walk" where
  "sweep nxt out s = fold (visit nxt out) (to_check s) s"

definition walk_all :: "(int, int list) pydict \<Rightarrow> (int, int list) pydict \<Rightarrow> int list \<Rightarrow> int list \<Rightarrow> int list option" where
  "walk_all nxt out start known =
     map_option found (while_option (\<lambda>s. to_check s \<noteq> []) (sweep nxt out) \<lparr>to_check = start, checked = [], found = known\<rparr>)"

definition groups_with :: "inv_tables \<Rightarrow> int list \<Rightarrow> int list" where
  "groups_with db pks = filter (\<lambda>g. g \<in> set pks) (map gr_id (group_rows db))"

definition hosts_with :: "inv_tables \<Rightarrow> int list \<Rightarrow> int list" where
  "hosts_with db pks = filter (\<lambda>h. h \<in> set pks) (map hr_id (host_rows db))"

definition get_all_parents :: "inv_tables \<Rightarrow> int \<Rightarrow> int \<Rightarrow> int list option" where
  "get_all_parents db pk g =
     (let m = get_group_parents_map db pk in map_option (groups_with db) (walk_all m m [g] []))"

definition get_all_children :: "inv_tables \<Rightarrow> int \<Rightarrow> int \<Rightarrow> int list option" where
  "get_all_children db pk g =
     (let m = get_group_children_map db pk in map_option (groups_with db) (walk_all m m [g] []))"

definition get_all_hosts :: "inv_tables \<Rightarrow> int \<Rightarrow> int \<Rightarrow> int list option" where
  "get_all_hosts db pk g =
     map_option (hosts_with db) (walk_all (get_group_children_map db pk) (get_group_hosts_map db pk) [g] [])"

text \<open>\<open>Host.all_groups\<close>: the groups of the host themselves are known from the start.\<close>

definition host_all_groups :: "inv_tables \<Rightarrow> int \<Rightarrow> int \<Rightarrow> int list option" where
  "host_all_groups db pk h =
     (let own = fold set_add (map fst (filter (\<lambda>(g, h'). h' = h) (group_hosts db))) [];
          m = get_group_parents_map db pk
      in map_option (groups_with db) (walk_all m m own own))"

text \<open>The groups without a parent in the inventory.\<close>

definition root_groups :: "inv_tables \<Rightarrow> int \<Rightarrow> int list" where
  "root_groups db pk =
     map gr_id (filter (\<lambda>r. gr_inventory r = pk \<and> \<not> list_ex (\<lambda>(c, p). c = gr_id r \<and> group_in db pk p) (group_parents db))
       (group_rows db))"

text \<open>\<open>GroupChildrenList.is_valid_relation\<close>, and the association it guards. \<^const>\<open>None\<close>: a walk that never ends.\<close>

definition is_valid_relation :: "inv_tables \<Rightarrow> int \<Rightarrow> int \<Rightarrow> int \<Rightarrow> bool option" where
  "is_valid_relation db pk parent sub =
     (case (get_all_parents db pk parent, get_all_children db pk sub) of
        (Some ps, Some cs) \<Rightarrow> Some (list_all (\<lambda>x. x \<notin> set (set_add sub cs)) (set_add parent ps))
      | _ \<Rightarrow> None)"

definition associate_child :: "inv_tables \<Rightarrow> int \<Rightarrow> int \<Rightarrow> int \<Rightarrow> inv_tables option" where
  "associate_child db pk parent sub =
     map_option (\<lambda>ok. if ok then db\<lparr>group_parents := set_add (sub, parent) (group_parents db)\<rparr> else db)
       (is_valid_relation db pk parent sub)"

subsection \<open>What a walk finds\<close>

lemma distinct_fold_set_add [simp]: "distinct (fold set_add xs ys) \<longleftrightarrow> distinct ys"
  by (induction xs arbitrary: ys) auto

lemma collect_pairs_get: "set (dict_get_default (collect_pairs rows) k []) = {v. (k, v) \<in> set rows}"
proof -
  have "set (dict_get_default (fold add_pair rows m) k []) = {v. (k, v) \<in> set rows} \<union> set (dict_get_default m k [])" for m
    by (induction rows arbitrary: m) (auto simp: add_pair_def dict_simps)
  then show ?thesis by (simp add: collect_pairs_def dict_get_default_def)
qed

definition steps :: "(int, int list) pydict \<Rightarrow> (int \<times> int) set" where
  "steps m = {(k, v). v \<in> set (dict_get_default m k [])}"

lemma finite_steps: "finite (steps m)"
proof (rule finite_subset)
  show "steps m \<subseteq> (\<Union>(k, vs) \<in> set m. {k} \<times> set vs)"
    by (fastforce simp: steps_def dict_get_default_def dest: map_of_SomeD [OF sym] split: option.splits)
qed auto

lemma finite_reach: "finite ((steps m)\<^sup>* `` set start)"
proof (rule finite_subset)
  show "(steps m)\<^sup>* `` set start \<subseteq> set start \<union> snd ` steps m"
  proof
    fix y
    assume "y \<in> (steps m)\<^sup>* `` set start"
    then obtain x where "x \<in> set start" "(x, y) \<in> (steps m)\<^sup>*" by blast
    from this(2,1) show "y \<in> set start \<union> snd ` steps m" by (cases rule: rtranclE) force+
  qed
qed (simp add: finite_steps)

text \<open>The invariant of a walk: what was visited is closed up to what is still to check.\<close>

definition walk_inv :: "(int, int list) pydict \<Rightarrow> (int, int list) pydict \<Rightarrow> int list \<Rightarrow> int list \<Rightarrow> walk \<Rightarrow> bool" where
  "walk_inv nxt out start known s \<longleftrightarrow>
     distinct (to_check s) \<and> set (to_check s) \<inter> set (checked s) = {} \<and>
     set start \<subseteq> set (to_check s) \<union> set (checked s) \<and>
     set (to_check s) \<union> set (checked s) \<subseteq> (steps nxt)\<^sup>* `` set start \<and>
     steps nxt `` set (checked s) \<subseteq> set (to_check s) \<union> set (checked s) \<and>
     set (found s) = set known \<union> steps out `` set (checked s)"

lemma visit_inv:
  assumes inv: "walk_inv nxt out start known s" and k: "k \<in> set (to_check s)"
  shows "walk_inv nxt out start known (visit nxt out k s)"
    and "set (checked (visit nxt out k s)) = insert k (set (checked s))"
    and "set (to_check s) - {k} \<subseteq> set (to_check (visit nxt out k s))"
proof -
  from inv k have "k \<in> (steps nxt)\<^sup>* `` set start" by (auto simp: walk_inv_def)
  then have reach: "set (dict_get_default nxt k []) \<subseteq> (steps nxt)\<^sup>* `` set start"
    by (auto simp: steps_def intro: rtrancl_into_rtrancl)
  from inv k reach show "walk_inv nxt out start known (visit nxt out k s)"
    by (auto simp: walk_inv_def visit_def Let_def steps_def)
qed (auto simp: visit_def Let_def)

lemma sweep_inv:
  assumes "walk_inv nxt out start known s"
  shows "walk_inv nxt out start known (sweep nxt out s) \<and> set (checked (sweep nxt out s)) = set (to_check s) \<union> set (checked s)"
proof -
  have "walk_inv nxt out start known (fold (visit nxt out) ks s) \<and>
      set (checked (fold (visit nxt out) ks s)) = set ks \<union> set (checked s)"
    if "walk_inv nxt out start known s" "set ks \<subseteq> set (to_check s)" "distinct ks" for ks s
    using that
  proof (induction ks arbitrary: s)
    case (Cons k ks)
    have k: "k \<in> set (to_check s)" using Cons.prems(2) by simp
    have "set ks \<subseteq> set (to_check (visit nxt out k s))"
      using visit_inv(3) [OF Cons.prems(1) k] Cons.prems(2,3) by auto
    from Cons.IH [OF visit_inv(1) [OF Cons.prems(1) k] this] Cons.prems(3) visit_inv(2) [OF Cons.prems(1) k]
    show ?case by auto
  qed simp
  moreover have "distinct (to_check s)" using assms by (simp add: walk_inv_def)
  ultimately show ?thesis using assms unfolding sweep_def by blast
qed

lemma walk_all_exact:
  assumes "distinct start"
  shows "\<exists>ids. walk_all nxt out start known = Some ids \<and> set ids = set known \<union> steps out `` (steps nxt)\<^sup>* `` set start"
proof -
  let ?s0 = "\<lparr>to_check = start, checked = [], found = known\<rparr>" and ?R = "(steps nxt)\<^sup>* `` set start"
  let ?inv = "walk_inv nxt out start known"
  have fin: "finite ?R" by (rule finite_reach)
  have start: "?inv ?s0" using assms by (auto simp: walk_inv_def)
  have "\<exists>s. while_option (\<lambda>s. to_check s \<noteq> []) (sweep nxt out) ?s0 = Some s"
  proof (rule measure_while_option_Some [where P = ?inv and f = "\<lambda>s. card (?R - set (checked s))"])
    fix s assume s: "?inv s" "to_check s \<noteq> []"
    from s(1) have sub: "set (to_check s) \<subseteq> ?R" "set (to_check s) \<inter> set (checked s) = {}" by (auto simp: walk_inv_def)
    have "?R - set (checked (sweep nxt out s)) \<subset> ?R - set (checked s)"
      using sweep_inv [OF s(1)] sub s(2) by (cases "to_check s") auto
    with fin have "card (?R - set (checked (sweep nxt out s))) < card (?R - set (checked s))" by (simp add: psubset_card_mono)
    with sweep_inv [OF s(1)] show "?inv (sweep nxt out s) \<and> card (?R - set (checked (sweep nxt out s))) < card (?R - set (checked s))" by blast
  qed (rule start)
  then obtain s where s: "while_option (\<lambda>s. to_check s \<noteq> []) (sweep nxt out) ?s0 = Some s" by blast
  have inv: "?inv s" using while_option_rule [where P = ?inv, OF _ s start] sweep_inv by blast
  have "to_check s = []" using while_option_stop [OF s] by simp
  with inv have c: "set start \<subseteq> set (checked s)" "set (checked s) \<subseteq> ?R" "steps nxt `` set (checked s) \<subseteq> set (checked s)"
    "set (found s) = set known \<union> steps out `` set (checked s)" by (auto simp: walk_inv_def)
  have "(x, y) \<in> (steps nxt)\<^sup>* \<Longrightarrow> x \<in> set (checked s) \<Longrightarrow> y \<in> set (checked s)" for x y
    by (induction rule: rtrancl_induct) (use c(3) in auto)
  with c(1) have "?R \<subseteq> set (checked s)" by auto
  with c(2,4) s show ?thesis by (auto simp: walk_all_def)
qed


subsection \<open>Closures of the hierarchy\<close>

definition hierarchy :: "inv_tables \<Rightarrow> int \<Rightarrow> (int \<times> int) set" where
  "hierarchy db pk = set (parent_rows db pk)"

definition membership :: "inv_tables \<Rightarrow> int \<Rightarrow> (int \<times> int) set" where
  "membership db pk = {(g, h) \<in> set (group_hosts db). group_in db pk g \<and> host_in db pk h}"

lemma steps_maps:
  "steps (get_group_parents_map db pk) = hierarchy db pk"
  "steps (get_group_children_map db pk) = (hierarchy db pk)\<inverse>"
  "steps (get_group_hosts_map db pk) = membership db pk"
  by (auto simp: steps_def get_group_parents_map_def get_group_children_map_def get_group_hosts_map_def collect_pairs_get
      hierarchy_def membership_def)

lemma hierarchy_exists: "(c, p) \<in> hierarchy db pk \<Longrightarrow> c \<in> gr_id ` set (group_rows db) \<and> p \<in> gr_id ` set (group_rows db)"
  by (auto simp: hierarchy_def parent_rows_def group_in_def list_ex_iff)

lemma closure_exists: "(c, p) \<in> (hierarchy db pk)\<^sup>+ \<Longrightarrow> c \<in> gr_id ` set (group_rows db) \<and> p \<in> gr_id ` set (group_rows db)"
  by (induction rule: trancl_induct) (auto dest: hierarchy_exists)

lemma membership_exists: "(g, h) \<in> membership db pk \<Longrightarrow> h \<in> hr_id ` set (host_rows db)"
  by (auto simp: membership_def host_in_def list_ex_iff)

lemma all_parents_exact:
  "\<exists>ids. get_all_parents db pk g = Some ids \<and> set ids = {p. (g, p) \<in> (hierarchy db pk)\<^sup>+}"
proof -
  let ?m = "get_group_parents_map db pk"
  from walk_all_exact [of "[g]" ?m ?m "[]"] obtain ids where
    "walk_all ?m ?m [g] [] = Some ids" "set ids = hierarchy db pk `` (hierarchy db pk)\<^sup>* `` {g}" by (auto simp: steps_maps)
  moreover have "hierarchy db pk `` (hierarchy db pk)\<^sup>* `` {g} = {p. (g, p) \<in> (hierarchy db pk)\<^sup>+}"
    by (auto simp: trancl_unfold_right)
  ultimately show ?thesis by (auto simp: get_all_parents_def groups_with_def dest: closure_exists)
qed

lemma all_children_exact:
  "\<exists>ids. get_all_children db pk g = Some ids \<and> set ids = {c. (c, g) \<in> (hierarchy db pk)\<^sup>+}"
proof -
  let ?m = "get_group_children_map db pk"
  from walk_all_exact [of "[g]" ?m ?m "[]"] obtain ids where
    "walk_all ?m ?m [g] [] = Some ids" "set ids = (hierarchy db pk)\<inverse> `` ((hierarchy db pk)\<inverse>)\<^sup>* `` {g}" by (auto simp: steps_maps)
  moreover have "(hierarchy db pk)\<inverse> `` ((hierarchy db pk)\<inverse>)\<^sup>* `` {g} = {c. (c, g) \<in> (hierarchy db pk)\<^sup>+}"
    by (auto simp: trancl_unfold_left rtrancl_converse)
  ultimately show ?thesis by (auto simp: get_all_children_def groups_with_def dest: closure_exists)
qed

lemma all_hosts_exact:
  "\<exists>ids. get_all_hosts db pk g = Some ids \<and>
     set ids = {h. \<exists>x. (x, g) \<in> (hierarchy db pk)\<^sup>* \<and> (x, h) \<in> membership db pk}"
proof -
  let ?m = "get_group_children_map db pk" and ?h = "get_group_hosts_map db pk"
  from walk_all_exact [of "[g]" ?m ?h "[]"] obtain ids where
    "walk_all ?m ?h [g] [] = Some ids" "set ids = membership db pk `` ((hierarchy db pk)\<inverse>)\<^sup>* `` {g}" by (auto simp: steps_maps)
  moreover have "membership db pk `` ((hierarchy db pk)\<inverse>)\<^sup>* `` {g} = {h. \<exists>x. (x, g) \<in> (hierarchy db pk)\<^sup>* \<and> (x, h) \<in> membership db pk}"
    by (auto simp: rtrancl_converse)
  ultimately show ?thesis by (auto simp: get_all_hosts_def hosts_with_def dest: membership_exists)
qed

lemma host_groups_exact:
  "\<exists>ids. host_all_groups db pk h = Some ids \<and>
     set ids = {p \<in> gr_id ` set (group_rows db). \<exists>g. (g, h) \<in> set (group_hosts db) \<and> (g, p) \<in> (hierarchy db pk)\<^sup>*}"
proof -
  let ?m = "get_group_parents_map db pk"
  define own where "own = fold set_add (map fst (filter (\<lambda>(g, h'). h' = h) (group_hosts db))) []"
  have own: "distinct own" "set own = {g. (g, h) \<in> set (group_hosts db)}" by (auto simp: own_def image_iff)
  from walk_all_exact [OF own(1), of ?m ?m own] obtain ids where
    "walk_all ?m ?m own own = Some ids" "set ids = set own \<union> hierarchy db pk `` (hierarchy db pk)\<^sup>* `` set own" by (auto simp: steps_maps)
  moreover have "set own \<union> hierarchy db pk `` (hierarchy db pk)\<^sup>* `` set own = (hierarchy db pk)\<^sup>* `` set own"
    by (auto elim: rtranclE intro: rtrancl_into_rtrancl)
  ultimately show ?thesis
    by (auto simp: host_all_groups_def groups_with_def own_def [symmetric] own(2) Let_def)
qed

text \<open>
  C20: The walks over the hierarchy of groups end on every inventory, cyclic ones included, with
  exactly the transitive closure: all parents are the groups above, all children the groups below, all
  hosts the members of the group and of the groups below it, and the groups of a host are its own and
  all above them.
\<close>

theorem group_walks_exact:
  "\<exists>ps cs hs gs. get_all_parents db pk g = Some ps \<and> set ps = {p. (g, p) \<in> (hierarchy db pk)\<^sup>+} \<and>
     get_all_children db pk g = Some cs \<and> set cs = {c. (c, g) \<in> (hierarchy db pk)\<^sup>+} \<and>
     get_all_hosts db pk g = Some hs \<and> set hs = {h. \<exists>x. (x, g) \<in> (hierarchy db pk)\<^sup>* \<and> (x, h) \<in> membership db pk} \<and>
     host_all_groups db pk h = Some gs \<and>
     set gs = {p \<in> gr_id ` set (group_rows db). \<exists>x. (x, h) \<in> set (group_hosts db) \<and> (x, p) \<in> (hierarchy db pk)\<^sup>*}"
  using all_parents_exact [of db pk g] all_children_exact [of db pk g] all_hosts_exact [of db pk g] host_groups_exact [of db pk h]
  by auto

subsection \<open>Associations\<close>

lemma valid_relation_iff:
  assumes "acyclic (hierarchy db pk)"
  shows "is_valid_relation db pk parent sub = Some (acyclic (insert (sub, parent) (hierarchy db pk)))"
proof -
  from all_parents_exact [of db pk parent] obtain ps where
    ps: "get_all_parents db pk parent = Some ps" "set ps = {p. (parent, p) \<in> (hierarchy db pk)\<^sup>+}" by blast
  from all_children_exact [of db pk sub] obtain cs where
    cs: "get_all_children db pk sub = Some cs" "set cs = {c. (c, sub) \<in> (hierarchy db pk)\<^sup>+}" by blast
  have up: "insert parent (set ps) = {p. (parent, p) \<in> (hierarchy db pk)\<^sup>*}" and down: "insert sub (set cs) = {c. (c, sub) \<in> (hierarchy db pk)\<^sup>*}"
    by (auto simp: ps cs rtrancl_eq_or_trancl)
  have "list_all (\<lambda>x. x \<notin> set (set_add sub cs)) (set_add parent ps) \<longleftrightarrow> insert parent (set ps) \<inter> insert sub (set cs) = {}"
    by (auto simp: list_all_iff)
  also have "\<dots> \<longleftrightarrow> (parent, sub) \<notin> (hierarchy db pk)\<^sup>*"
    unfolding up down by (auto intro: rtrancl_trans)
  also have "\<dots> \<longleftrightarrow> acyclic (insert (sub, parent) (hierarchy db pk))"
    using assms by (simp add: acyclic_insert)
  finally show ?thesis by (simp add: is_valid_relation_def ps cs)
qed

lemma hierarchy_added:
  assumes "group_in db pk parent" "group_in db pk sub"
  shows "hierarchy (db\<lparr>group_parents := set_add (sub, parent) (group_parents db)\<rparr>) pk = insert (sub, parent) (hierarchy db pk)"
  using assms by (auto simp: hierarchy_def parent_rows_def group_in_def)

text \<open>
  Making a group the child of another keeps the hierarchy of an inventory free of cycles: the
  association is made unless it would close a cycle, and then nothing changes.
\<close>

theorem associations_keep_acyclic:
  assumes "acyclic (hierarchy db pk)" "group_in db pk parent" "group_in db pk sub"
  shows "\<exists>db'. associate_child db pk parent sub = Some db' \<and> acyclic (hierarchy db' pk) \<and>
    hierarchy db' pk = (if acyclic (insert (sub, parent) (hierarchy db pk)) then insert (sub, parent) (hierarchy db pk) else hierarchy db pk)"
  using assms valid_relation_iff [OF assms(1), of parent sub] hierarchy_added [OF assms(2,3)]
  by (auto simp: associate_child_def)

definition sample_groups :: inv_tables where
  "sample_groups = \<lparr>group_rows = map (\<lambda>g. \<lparr>gr_id = g, gr_inventory = 1, gr_name = ''g'', gr_vars = []\<rparr>) [1, 2, 3],
     host_rows = [], group_hosts = [], group_parents = [(2, 1), (3, 2)]\<rparr>"

lemma associations_keep_acyclic_witness:
  "acyclic (hierarchy sample_groups 1) \<and> (\<exists>db'. associate_child sample_groups 1 3 1 = Some db' \<and> hierarchy db' 1 = hierarchy sample_groups 1)"
proof -
  have h: "hierarchy sample_groups 1 = {(2, 1), (3, 2)}" by code_simp
  have "acyclic ({} :: (int \<times> int) set)" by (simp add: acyclic_def)
  then have a: "acyclic {(2, 1), (3, 2 :: int)}"
    by (auto simp: acyclic_insert rtrancl_eq_or_trancl elim: converse_tranclE)
  have "\<not> acyclic (insert (1, 3) {(2, 1), (3, 2 :: int)})"
    unfolding acyclic_def by (intro notI) (meson insertCI trancl.simps)
  moreover have "group_in sample_groups 1 3" "group_in sample_groups 1 1" by code_simp+
  ultimately show ?thesis using associations_keep_acyclic [of sample_groups 1 3 1] a h by auto
qed

end
