(* ===== verification/GroupDeletion.thy ===== *)
theory GroupDeletion
  imports InventoryGroups "HOL-Library.Monad_Syntax"
begin

section \<open>Deleting a group with everything below it\<close>

text \<open>
  Models \<open>Group.delete_recursive\<close> of \<^verbatim>\<open>forail/main/models/inventory.py\<close>: a queue of links from
  groups that are to be deleted; a group that lost its last parent is to be deleted too, and a host
  that lost its last group. The loop ends because every turn takes a link out of the maps. The main
  lemma is the invariant of the loop: nothing raises, and the marked groups are the least set with the
  group that contains every group whose parents it contains.
\<close>

subsection \<open>The operation\<close>




















subsection \<open>What is to be deleted\<close>



subsection \<open>The maps during the loop\<close>










subsection \<open>The invariant of the loop\<close>









subsection \<open>The result\<close>









end
