(* ===== verification/InventorySlices.thy ===== *)
theory InventorySlices
  imports InventoryGroups "HOL-Library.Multiset" "HOL-Library.List_Lexorder" "HOL-Library.Char_ord"
begin

section \<open>The inventory a job sees, and its slices\<close>

text \<open>
  Models \<open>parse_slice_params\<close>, \<open>get_sliced_hosts\<close> and \<open>get_script_data\<close> of
  \<^verbatim>\<open>forail/main/models/inventory.py\<close>, the slicing of a job template in
  \<^verbatim>\<open>forail/main/models/jobs.py\<close> and the part of \<^verbatim>\<open>forail/main/models/workflow.py\<close> that
  hands a slice to its job. The lemmas show that the slices of a launch partition the hosts, and that
  the data for Ansible name exactly the hosts of the slice. Rows with equal names keep the order of the table.
\<close>

subsection \<open>Slices\<close>

datatype slice_error = Not_A_Slice | Number_Above_Count | Number_Below_One

text \<open>The pattern is matched at the start of the text only; what follows the second number is ignored.\<close>

definition parse_slice_params :: "string \<Rightarrow> slice_error + int \<times> int" where
  "parse_slice_params s =
     (let t = drop 5 s; ds = takeWhile is_decimal t; u = dropWhile is_decimal t; es = takeWhile is_decimal (drop 2 u)
      in if \<not> starts_with s ''slice'' \<or> ds = [] \<or> \<not> starts_with u ''of'' \<or> es = [] then Inl Not_A_Slice
         else (let number = int (dec_value ds); step = int (dec_value es)
           in if number > step then Inl Number_Above_Count else if number < 1 then Inl Number_Below_One else Inr (number, step)))"

text \<open>\<open>xs[offset::step]\<close> of Python for a positive step.\<close>

fun every :: "nat \<Rightarrow> 'a list \<Rightarrow> 'a list" where
  "every step [] = []"
| "every step (x # xs) = x # every step (drop (step - 1) xs)"

definition get_sliced_hosts :: "'a list \<Rightarrow> int \<Rightarrow> int \<Rightarrow> 'a list" where
  "get_sliced_hosts hosts slice_number slice_count =
     (if slice_count > 1 \<and> slice_number > 0 then every (nat slice_count) (drop (nat (slice_number - 1)) hosts) else hosts)"

subsection \<open>The data for Ansible\<close>

text \<open>\<open>iv_filter\<close> is the filter of a smart inventory, with the restriction to its organization.\<close>

record inventory =
  iv_id :: int
  iv_kind :: string
  iv_vars :: py_dict
  iv_filter :: "(host_row \<Rightarrow> bool) option"

fun distinct_names :: "host_row list \<Rightarrow> host_row list" where
  "distinct_names [] = []"
| "distinct_names (h # hs) = h # distinct_names (filter (\<lambda>g. hr_name g \<noteq> hr_name h) hs)"

definition inventory_hosts :: "inv_tables \<Rightarrow> inventory \<Rightarrow> bool \<Rightarrow> host_row list" where
  "inventory_hosts db i show_all =
     (let wanted = filter (\<lambda>h. show_all \<or> hr_enabled h) (host_rows db)
      in case (if iv_kind i = ''smart'' then iv_filter i else None) of
           Some f \<Rightarrow> sort_key hr_name (distinct_names (filter f wanted))
         | None \<Rightarrow> sort_key hr_name (filter (\<lambda>h. hr_inventory h = iv_id i) wanted))"

definition names :: "string list \<Rightarrow> json" where
  "names xs = JList (map JStr xs)"

definition add_name :: "int \<times> string \<Rightarrow> (int, string list) pydict \<Rightarrow> (int, string list) pydict" where
  "add_name kv m = dict_set (fst kv) (dict_get_default m (fst kv) [] @ [snd kv]) m"

definition group_name_of :: "inv_tables \<Rightarrow> int \<Rightarrow> string" where
  "group_name_of db g = (case find (\<lambda>r. gr_id r = g) (group_rows db) of None \<Rightarrow> [] | Some r \<Rightarrow> gr_name r)"

definition host_name_of :: "inv_tables \<Rightarrow> int \<Rightarrow> string" where
  "host_name_of db h = (case find (\<lambda>r. hr_id r = h) (host_rows db) of None \<Rightarrow> [] | Some r \<Rightarrow> hr_name r)"

text \<open>The host names of the groups, for the hosts at hand.\<close>

definition grouped_names :: "inv_tables \<Rightarrow> int \<Rightarrow> string list \<Rightarrow> (int \<times> string) list" where
  "grouped_names db pk all_hostnames =
     filter (\<lambda>(g, n). n \<in> set all_hostnames)
       (map (\<lambda>(g, h). (g, host_name_of db h)) (filter (\<lambda>(g, h). group_in db pk g \<and> host_in db pk h) (group_hosts db)))"

definition group_info :: "(int, string list) pydict \<Rightarrow> (int, string list) pydict \<Rightarrow> group_row \<Rightarrow> py_dict" where
  "group_info hosts children r =
     (case dict_get hosts (gr_id r) of None \<Rightarrow> [] | Some ns \<Rightarrow> [(''hosts'', names ns)]) @
     (case dict_get children (gr_id r) of None \<Rightarrow> [] | Some ns \<Rightarrow> [(''children'', names ns)]) @
     (if gr_vars r = [] then [] else [(''vars'', JDict (gr_vars r))])"

definition host_meta :: "bool \<Rightarrow> host_row \<Rightarrow> json" where
  "host_meta towervars h =
     JDict (if towervars then
       fold (\<lambda>p d. dict_set (''remote_'' @ p @ ''_id'') (JInt (hr_id h))
                     (dict_set (''remote_'' @ p @ ''_enabled'') (JStr (if hr_enabled h then ''true'' else ''false'')) d))
         [''host'', ''tower''] (hr_vars h)
       else hr_vars h)"

definition my_groups :: "inv_tables \<Rightarrow> inventory \<Rightarrow> group_row list" where
  "my_groups db i = sort_key gr_name (filter (\<lambda>r. gr_inventory r = iv_id i) (group_rows db))"

text \<open>The entry \<open>all\<close>, and the entries of the groups that have something to say.\<close>

definition all_group :: "inv_tables \<Rightarrow> inventory \<Rightarrow> host_row list \<Rightarrow> py_dict" where
  "all_group db i hosts =
     (if iv_vars i = [] then [] else [(''vars'', JDict (iv_vars i))]) @
     (if iv_kind i = ''smart'' then [(''hosts'', names (map hr_name hosts))]
      else (let grouped = map snd (grouped_names db (iv_id i) (map hr_name hosts)); gs = map gr_name (my_groups db i)
        in [(''hosts'', names (filter (\<lambda>n. n \<notin> set grouped) (map hr_name hosts)))] @
           (if gs = [] then [] else [(''children'', names gs)])))"

definition group_entries :: "inv_tables \<Rightarrow> inventory \<Rightarrow> host_row list \<Rightarrow> (string \<times> json) list" where
  "group_entries db i hosts =
     (if iv_kind i = ''smart'' then []
      else (let hm = fold add_name (grouped_names db (iv_id i) (map hr_name hosts)) [];
                cm = fold add_name (map (\<lambda>(c, p). (p, group_name_of db c)) (parent_rows db (iv_id i))) []
        in map (\<lambda>r. (gr_name r, JDict (group_info hm cm r))) (filter (\<lambda>r. group_info hm cm r \<noteq> []) (my_groups db i))))"

definition get_script_data :: "inv_tables \<Rightarrow> inventory \<Rightarrow> bool \<Rightarrow> bool \<Rightarrow> bool \<Rightarrow> int \<Rightarrow> int \<Rightarrow> py_dict" where
  "get_script_data db i hostvars towervars show_all slice_number slice_count =
     (let hosts = get_sliced_hosts (inventory_hosts db i show_all) slice_number slice_count;
          data = fold (\<lambda>kv. dict_set (fst kv) (snd kv)) (group_entries db i hosts) [(''all'', JDict (all_group db i hosts))]
      in if \<not> hostvars then data
         else (let meta = as_dict (dict_get_default data ''_meta'' (JDict []));
                   old = as_dict (dict_get_default meta ''hostvars'' (JDict []));
                   vars = fold (\<lambda>h. dict_set (hr_name h) (host_meta towervars h)) hosts old
               in dict_set ''_meta'' (JDict (dict_set ''hostvars'' (JDict vars) meta)) data))"

text \<open>\<open>write_inventory_file\<close>: from the names of the hosts to their keys, for the events of the job.\<close>

definition host_map :: "py_dict \<Rightarrow> py_dict" where
  "host_map script_data =
     map (\<lambda>(n, hv). (n, dict_get_default (as_dict hv) ''remote_tower_id'' (JStr [])))
       (as_dict (dict_get_default (as_dict (dict_get_default script_data ''_meta'' (JDict []))) ''hostvars'' (JDict [])))"

subsection \<open>The slices of a launch\<close>

text \<open>
  The template and what it is launched with. An inventory is given by its key; \<open>n_hosts\<close> is the number of
  its hosts. \<open>None\<close> of \<open>kw_inventory\<close> and \<open>kw_slices\<close>: the keyword is absent.
\<close>

record slice_template =
  t_inventory :: "int option"
  job_slice_count :: int
  ask_inventory :: bool
  ask_slices :: bool

record slice_kwargs =
  kw_inventory :: "int option option"
  kw_slices :: "int option"
  eager_fields :: "py_dict option"
  prevent_slicing :: bool

definition get_effective_slice_ct :: "(int \<Rightarrow> int) \<Rightarrow> slice_template \<Rightarrow> slice_kwargs \<Rightarrow> int" where
  "get_effective_slice_ct n_hosts t kw =
     (let actual_inventory = (if ask_inventory t then case kw_inventory kw of None \<Rightarrow> t_inventory t | Some i \<Rightarrow> i else t_inventory t);
          actual_slice_count = (if ask_slices t then case kw_slices kw of None \<Rightarrow> job_slice_count t | Some n \<Rightarrow> n else job_slice_count t)
      in case actual_inventory of Some i \<Rightarrow> min actual_slice_count (n_hosts i) | None \<Rightarrow> actual_slice_count)"

text \<open>\<open>create_unified_job\<close>: the eager fields of the job that is created, and the slices of its nodes.\<close>

definition create_slices :: "(int \<Rightarrow> int) \<Rightarrow> slice_template \<Rightarrow> slice_kwargs \<Rightarrow> py_dict option \<times> int list" where
  "create_slices n_hosts t kw =
     (let slice_ct = get_effective_slice_ct n_hosts t kw; slice_event = (slice_ct > 1 \<and> \<not> prevent_slicing kw);
          eager = (case eager_fields kw of None \<Rightarrow> [] | Some d \<Rightarrow> d)
      in (if slice_event then Some (dict_set ''is_sliced_job'' (JBool True) eager)
          else if job_slice_count t > 1 \<and> \<not> prevent_slicing kw then Some (dict_set ''job_slice_count'' (JInt 1) eager)
          else if prevent_slicing kw then
            Some (if ''job_slice_count'' \<in> set (dict_keys eager) then eager else dict_set ''job_slice_count'' (JInt 1) eager)
          else eager_fields kw,
          if slice_event then map (\<lambda>idx. idx + 1) [0..slice_ct - 1] else []))"

text \<open>
  The two fields of a created job: eager fields win; the number is otherwise 0, the count that of the
  keywords or of the template.
\<close>

definition job_slice :: "slice_template \<Rightarrow> slice_kwargs \<Rightarrow> py_dict option \<Rightarrow> int \<times> int" where
  "job_slice t kw eager =
     (let e = (case eager of None \<Rightarrow> [] | Some d \<Rightarrow> d);
          field = (\<lambda>k d. case dict_get e k of Some (JInt n) \<Rightarrow> n | _ \<Rightarrow> d)
      in (field ''job_slice_number'' 0,
          field ''job_slice_count'' (case kw_slices kw of None \<Rightarrow> job_slice_count t | Some n \<Rightarrow> n)))"

text \<open>\<open>WorkflowJobNode.get_job_kwargs\<close> of a root node with a slice among its artifacts, as far as slices go.\<close>

definition node_kwargs :: "int \<Rightarrow> int \<Rightarrow> slice_kwargs" where
  "node_kwargs slice nodes =
     \<lparr>kw_inventory = None, kw_slices = None,
      eager_fields = Some [(''launch_type'', JStr ''workflow''), (''allow_simultaneous'', JBool True),
        (''job_slice_number'', JInt slice), (''job_slice_count'', JInt nodes)], prevent_slicing = True\<rparr>"

definition launched_slices :: "(int \<Rightarrow> int) \<Rightarrow> slice_template \<Rightarrow> slice_kwargs \<Rightarrow> (int \<times> int) list" where
  "launched_slices n_hosts t kw =
     (let (eager, nodes) = create_slices n_hosts t kw
      in if nodes = [] then [job_slice t kw eager]
         else map (\<lambda>k. let nk = node_kwargs k (int (length nodes)) in job_slice t nk (fst (create_slices n_hosts t nk))) nodes)"

text \<open>\<open>Job._get_task_impact\<close>; \<open>total_hosts\<close> is absent without an inventory.\<close>

definition task_impact :: "string \<Rightarrow> int option \<Rightarrow> int \<Rightarrow> int \<Rightarrow> int \<Rightarrow> int" where
  "task_impact launch_type total_hosts slice_number slice_count forks =
     (let limit = (if forks = 0 then 5 else forks);
          count_hosts = (if launch_type = ''callback'' then 2
            else case total_hosts of
              Some n \<Rightarrow> if slice_count > 1 then (n + slice_count - slice_number) div slice_count else n
            | None \<Rightarrow> limit)
      in min count_hosts limit + 1)"

text \<open>\<open>get_hosts_for_fact_cache\<close> for an inventory that is not constructed: disabled hosts are among them.\<close>

definition hosts_for_fact_cache :: "inv_tables \<Rightarrow> inventory \<Rightarrow> int \<Rightarrow> int \<Rightarrow> host_row list" where
  "hosts_for_fact_cache db i slice_number slice_count =
     get_sliced_hosts (inventory_hosts db i True) slice_number slice_count"


subsection \<open>Slices partition a list\<close>

definition residue :: "nat \<Rightarrow> nat \<Rightarrow> nat set" where
  "residue n k = {i. i mod n = k}"

lemma every_nths: "k < n \<Longrightarrow> every n (drop k xs) = nths xs (residue n k)"
proof (induction xs arbitrary: k)
  case (Cons x xs)
  show ?case
  proof (cases k)
    case 0
    have "{j. Suc j \<in> residue n 0} = residue n (n - 1)"
      using Cons.prems by (auto simp: residue_def mod_Suc)
    with Cons.IH [of "n - 1"] Cons.prems 0 show ?thesis by (simp add: nths_Cons residue_def)
  next
    case (Suc l)
    with Cons.prems have "{j. Suc j \<in> residue n k} = residue n l"
      by (auto simp: residue_def mod_Suc)
    with Cons.IH [of l] Cons.prems Suc show ?thesis by (simp add: nths_Cons residue_def)
  qed
qed simp

lemma nths_snoc: "nths (xs @ [x]) (residue n k) = nths xs (residue n k) @ (if length xs mod n = k then [x] else [])"
  by (simp add: nths_append residue_def)

lemma mset_concat: "mset (concat (map f ks)) = (\<Sum>k\<leftarrow>ks. mset (f k))"
  by (induction ks) simp_all

lemma residues_partition:
  assumes "0 < n"
  shows "mset (concat (map (\<lambda>k. nths xs (residue n k)) [0..<n])) = mset xs"
proof (induction xs rule: rev_induct)
  case (snoc x xs)
  have one: "(\<Sum>k\<leftarrow>[0..<n]. mset (if length xs mod n = k then [x] else [])) = {#x#}"
  proof -
    have "(\<Sum>k\<leftarrow>[0..<n]. mset (if length xs mod n = k then [x] else [])) = (\<Sum>k = 0..<n. if k = length xs mod n then {#x#} else {#})"
      by (simp add: sum_list_distinct_conv_sum_set if_distrib cong: if_cong)
    also have "\<dots> = {#x#}" using assms by (simp add: sum.delta)
    finally show ?thesis .
  qed
  have "(\<Sum>k\<leftarrow>[0..<n]. mset (nths (xs @ [x]) (residue n k))) =
      (\<Sum>k\<leftarrow>[0..<n]. mset (nths xs (residue n k)) + mset (if length xs mod n = k then [x] else []))"
    unfolding nths_snoc mset_append ..
  also have "\<dots> = mset xs + {#x#}" using snoc one by (simp add: sum_list_addf mset_concat)
  finally show ?case by (simp add: mset_concat)
qed (simp add: mset_concat)

lemma wraps_to_zero:
  fixes r n k :: nat
  assumes "r < n" "k < n"
  shows "(r + (n - k)) mod n = 0 \<longleftrightarrow> r = k"
proof (cases "r < k")
  case True
  with assms have "r + (n - k) < n" "0 < r + (n - k)" by simp_all
  with True show ?thesis by auto
next
  case False
  with assms have "r + (n - k) = (r - k) + n" "r - k < n" by simp_all
  then have "(r + (n - k)) mod n = r - k" by simp
  with False show ?thesis by auto
qed

lemma residue_length:
  assumes "k < n"
  shows "length (nths xs (residue n k)) = (length xs + n - 1 - k) div n"
proof (induction xs rule: rev_induct)
  case Nil
  show ?case using assms by simp
next
  case (snoc x xs)
  let ?a = "length xs + n - 1 - k"
  have a: "length (xs @ [x]) + n - 1 - k = Suc ?a" using assms by simp
  have "Suc ?a mod n = 0 \<longleftrightarrow> length xs mod n = k"
  proof -
    have "Suc ?a = length xs + (n - k)" using assms by simp
    then have "Suc ?a mod n = 0 \<longleftrightarrow> (length xs mod n + (n - k)) mod n = 0" by (simp add: mod_add_left_eq)
    also have "\<dots> \<longleftrightarrow> length xs mod n = k" using assms by (intro wraps_to_zero) simp_all
    finally show ?thesis .
  qed
  with snoc show ?case unfolding nths_snoc a by (simp add: div_Suc)
qed


lemma upto_nat: "[0..int m - 1] = map int [0..<m]"
proof (induction m)
  case (Suc m)
  have "[0..int (Suc m) - 1] = [0..int m - 1] @ [int m]" using upto_rec2 [of 0 "int m"] by simp
  with Suc show ?case by simp
qed simp

lemma sliced_nths:
  assumes "1 < n" "k < n"
  shows "get_sliced_hosts xs (int k + 1) (int n) = nths xs (residue n k)"
  using assms every_nths [of k n xs] by (simp add: get_sliced_hosts_def)

lemma slices_partition:
  assumes "1 < n"
  shows "mset (concat (map (\<lambda>k. get_sliced_hosts xs k (int n)) (map (\<lambda>idx. idx + 1) [0..int n - 1]))) = mset xs"
proof -
  have "map (\<lambda>k. get_sliced_hosts xs k (int n)) (map (\<lambda>idx. idx + 1) [0..int n - 1]) =
      map (\<lambda>k. nths xs (residue n k)) [0..<n]"
    by (auto simp: upto_nat sliced_nths [OF assms])
  with residues_partition [of n xs] assms show ?thesis by simp
qed

subsection \<open>A launch covers the inventory\<close>

text \<open>
  The caller does not choose a slice itself: its eager fields (launch type, creator and the like)
  set no slice number, as only the relaunch of a slice and the node of a sliced job do.
\<close>

definition free_launch :: "slice_kwargs \<Rightarrow> bool" where
  "free_launch kw \<longleftrightarrow> \<not> prevent_slicing kw \<and>
     (case eager_fields kw of None \<Rightarrow> True | Some d \<Rightarrow> dict_get d ''job_slice_number'' = None)"

lemma node_slice: "job_slice t (node_kwargs k n) (fst (create_slices n_hosts t (node_kwargs k n))) = (k, n)"
  by (simp add: job_slice_def create_slices_def node_kwargs_def)

lemma launched_slices_cases:
  assumes "free_launch kw"
  obtains (whole) n where "launched_slices n_hosts t kw = [(0, n)]"
  | (sliced) n where "1 < n" "int n = get_effective_slice_ct n_hosts t kw"
      "launched_slices n_hosts t kw = map (\<lambda>k. (k, int n)) (map (\<lambda>idx. idx + 1) [0..int n - 1])"
proof (cases "get_effective_slice_ct n_hosts t kw > 1")
  case True
  define n where "n = nat (get_effective_slice_ct n_hosts t kw)"
  with True have n: "1 < n" "int n = get_effective_slice_ct n_hosts t kw" by simp_all
  have nodes: "snd (create_slices n_hosts t kw) = map (\<lambda>idx. idx + 1) [0..int n - 1]"
    using assms True n by (simp add: free_launch_def create_slices_def Let_def)
  have "launched_slices n_hosts t kw = map (\<lambda>k. (k, int n)) (map (\<lambda>idx. idx + 1) [0..int n - 1])"
    using n(1) nodes node_slice by (simp add: launched_slices_def case_prod_beta Let_def upto_nat)
  with n show ?thesis by (rule sliced)
next
  case False
  then have "snd (create_slices n_hosts t kw) = []" by (simp add: create_slices_def Let_def)
  then have "launched_slices n_hosts t kw = [job_slice t kw (fst (create_slices n_hosts t kw))]"
    by (simp add: launched_slices_def case_prod_beta)
  moreover have "fst (job_slice t kw (fst (create_slices n_hosts t kw))) = 0"
    using assms False by (auto simp: free_launch_def job_slice_def create_slices_def Let_def dict_simps split: option.splits)
  ultimately show ?thesis using whole by (metis prod.collapse)
qed

lemma slices_cover:
  assumes "free_launch kw"
  shows "mset (concat (map (\<lambda>(k, n). get_sliced_hosts hosts k n) (launched_slices n_hosts t kw))) = mset hosts \<and>
    (\<forall>(k, n) \<in> set (launched_slices n_hosts t kw). \<forall>(k', n') \<in> set (launched_slices n_hosts t kw).
      length (get_sliced_hosts hosts k n) \<le> length (get_sliced_hosts hosts k' n') + 1)"
  using assms
proof (cases rule: launched_slices_cases [of kw n_hosts t])
  case (whole n)
  then show ?thesis by (simp add: get_sliced_hosts_def)
next
  case (sliced n)
  have size: "length hosts div n \<le> length (get_sliced_hosts hosts k (int n)) \<and> length (get_sliced_hosts hosts k (int n)) \<le> length hosts div n + 1"
    if "k \<in> set (map (\<lambda>idx. idx + 1) [0..int n - 1])" for k
  proof -
    from that obtain j where j: "j < n" "k = int j + 1" by (auto simp: upto_nat)
    have "length (get_sliced_hosts hosts k (int n)) = (length hosts + n - 1 - j) div n"
      using sliced(1) j by (simp add: sliced_nths residue_length)
    moreover have "length hosts div n \<le> (length hosts + n - 1 - j) div n" using j(1) by (intro div_le_mono) simp
    moreover have "(length hosts + n - 1 - j) div n \<le> (length hosts + n) div n" by (intro div_le_mono) simp
    ultimately show ?thesis using sliced(1) by simp
  qed
  have "mset (concat (map (\<lambda>(k, n). get_sliced_hosts hosts k n) (launched_slices n_hosts t kw))) = mset hosts"
    using slices_partition [OF sliced(1), of hosts] by (simp add: sliced(3) comp_def)
  moreover have "length (get_sliced_hosts hosts k m) \<le> length (get_sliced_hosts hosts k' m') + 1"
    if "(k, m) \<in> set (launched_slices n_hosts t kw)" "(k', m') \<in> set (launched_slices n_hosts t kw)" for k m k' m'
  proof -
    from that have m: "m = int n" "m' = int n" "k \<in> set (map (\<lambda>idx. idx + 1) [0..int n - 1])" "k' \<in> set (map (\<lambda>idx. idx + 1) [0..int n - 1])"
      by (auto simp: sliced(3))
    from size [OF m(3)] size [OF m(4)] show ?thesis unfolding m(1,2) by linarith
  qed
  ultimately show ?thesis by blast
qed

lemma inventory_hosts_mset:
  "iv_kind i \<noteq> ''smart'' \<Longrightarrow>
   mset (inventory_hosts db i show_all) = mset (filter (\<lambda>h. hr_inventory h = iv_id i \<and> (show_all \<or> hr_enabled h)) (host_rows db))"
  by (simp add: inventory_hosts_def Let_def conj_commute)

text \<open>
  C19: However a job template is sliced, by its own setting, by the prompt, or not at all because there are
  too few hosts: if the caller sets no slice number itself (see \<open>free_launch\<close>) and the hosts stay as
  they are while the jobs start, the jobs of the launch run on every enabled host of the inventory
  exactly once: the hosts of their slices are a partition of those the inventory gives to a run, and
  the sizes of two slices differ by at most one. In an inventory that is not smart these are its
  enabled rows.
\<close>

theorem launch_covers_hosts:
  assumes "free_launch kw"
  shows "mset (concat (map (\<lambda>(k, n). get_sliced_hosts (inventory_hosts db i False) k n) (launched_slices n_hosts t kw))) =
      mset (inventory_hosts db i False) \<and>
    (iv_kind i \<noteq> ''smart'' \<longrightarrow>
      mset (inventory_hosts db i False) = mset (filter (\<lambda>h. hr_inventory h = iv_id i \<and> hr_enabled h) (host_rows db))) \<and>
    (\<forall>(k, n) \<in> set (launched_slices n_hosts t kw). \<forall>(k', n') \<in> set (launched_slices n_hosts t kw).
      length (get_sliced_hosts (inventory_hosts db i False) k n) \<le> length (get_sliced_hosts (inventory_hosts db i False) k' n') + 1)"
  using slices_cover [OF assms, of "inventory_hosts db i False" n_hosts t] inventory_hosts_mset [of i db False] by simp

text \<open>The task manager reckons with the size of the slice, of an inventory without disabled hosts.\<close>

lemma impact_is_slice_size:
  assumes "1 < n" "1 \<le> k" "k \<le> n" "launch_type \<noteq> ''callback''"
  shows "task_impact launch_type (Some (int (length hosts))) k n forks =
    min (int (length (get_sliced_hosts hosts k n))) (if forks = 0 then 5 else forks) + 1"
proof -
  define m j where "m = nat n" and "j = nat (k - 1)"
  with assms have mj: "n = int m" "k = int j + 1" "1 < m" "j < m" by auto
  have "int (length hosts) + int m - (int j + 1) = int (length hosts + m - 1 - j)" using mj by simp
  then have "(int (length hosts) + int m - (int j + 1)) div int m = int ((length hosts + m - 1 - j) div m)" by (simp only: zdiv_int)
  then show ?thesis
    using assms(4) mj by (simp add: task_impact_def sliced_nths residue_length Let_def)
qed


subsection \<open>What Ansible is told\<close>

definition entry_hosts :: "py_dict \<Rightarrow> string \<Rightarrow> json list" where
  "entry_hosts data k =
     (case dict_get_default (as_dict (dict_get_default data k (JDict []))) ''hosts'' (JList []) of JList xs \<Rightarrow> xs | _ \<Rightarrow> [])"

lemma add_name_get: "dict_get_default (fold add_name rows m) k [] = dict_get_default m k [] @ map snd (filter (\<lambda>kv. fst kv = k) rows)"
  by (induction rows arbitrary: m) (auto simp: add_name_def dict_simps)

lemma info_hosts:
  "entry_hosts [(k, JDict (group_info hm cm r))] k = map JStr (dict_get_default hm (gr_id r) [])"
  by (auto simp: entry_hosts_def group_info_def names_def dict_get_default_def as_dict_def split: option.splits)

lemma entry_hosts_cong: "dict_get d k = dict_get e k \<Longrightarrow> entry_hosts d k = entry_hosts e k"
  by (simp add: entry_hosts_def dict_get_default_def)

lemma script_lookup:
  assumes "k \<noteq> ''_meta''"
  shows "dict_get (get_script_data db i hostvars towervars show_all a b) k =
    (let hosts = get_sliced_hosts (inventory_hosts db i show_all) a b
     in dict_get (fold (\<lambda>(k, v). dict_set k v) (group_entries db i hosts) [(''all'', JDict (all_group db i hosts))]) k)"
  using assms by (simp add: get_script_data_def Let_def dict_simps case_prod_beta')

lemma group_entry_hosts:
  assumes r: "r \<in> set (my_groups db i)" and names: "distinct (map gr_name (my_groups db i))" and kind: "iv_kind i \<noteq> ''smart''"
    and reserved: "gr_name r \<noteq> ''all''" and d: "d = fold (\<lambda>(k, v). dict_set k v) (group_entries db i hosts) [(''all'', a)]"
  shows "entry_hosts d (gr_name r) = map JStr (map snd (filter (\<lambda>kv. fst kv = gr_id r) (grouped_names db (iv_id i) (map hr_name hosts))))"
proof -
  let ?rows = "grouped_names db (iv_id i) (map hr_name hosts)"
  define hm cm where "hm = fold add_name ?rows []" and "cm = fold add_name (map (\<lambda>(c, p). (p, group_name_of db c)) (parent_rows db (iv_id i))) []"
  define entries where "entries = map (\<lambda>r. (gr_name r, JDict (group_info hm cm r))) (filter (\<lambda>r. group_info hm cm r \<noteq> []) (my_groups db i))"
  have e: "group_entries db i hosts = entries" using kind by (simp add: group_entries_def entries_def hm_def cm_def Let_def)
  have keys: "distinct (map fst entries)" using names by (simp add: entries_def comp_def distinct_map inj_on_def)
  have hm: "dict_get_default hm (gr_id r) [] = map snd (filter (\<lambda>kv. fst kv = gr_id r) ?rows)"
    unfolding hm_def add_name_get by (simp add: dict_get_default_def)
  show ?thesis
  proof (cases "group_info hm cm r = []")
    case False
    with r have "(gr_name r, JDict (group_info hm cm r)) \<in> set entries" by (auto simp: entries_def)
    from alist_store.lookup_fold_store [OF keys this] have "dict_get d (gr_name r) = Some (JDict (group_info hm cm r))" by (simp add: d e)
    then have "entry_hosts d (gr_name r) = entry_hosts [(gr_name r, JDict (group_info hm cm r))] (gr_name r)" by (intro entry_hosts_cong) simp
    with hm show ?thesis by (simp add: info_hosts)
  next
    case True
    then have "dict_get hm (gr_id r) = None" by (simp add: group_info_def split: option.splits)
    moreover have "gr_name r \<notin> fst ` set entries"
    proof
      assume "gr_name r \<in> fst ` set entries"
      then obtain r' where r': "r' \<in> set (my_groups db i)" "group_info hm cm r' \<noteq> []" "gr_name r' = gr_name r"
        unfolding entries_def by fastforce
      from names have "inj_on gr_name (set (my_groups db i))" by (simp add: distinct_map)
      from inj_onD [OF this r'(3) r'(1) r] r'(2) True show False by simp
    qed
    then have "dict_get d (gr_name r) = None"
      using alist_store.lookup_fold_store_other [of "gr_name r" entries] reserved by (simp add: d e)
    ultimately show ?thesis using hm by (simp add: entry_hosts_def dict_get_default_def as_dict_def)
  qed
qed

lemma all_entry_hosts:
  assumes kind: "iv_kind i \<noteq> ''smart''" and reserved: "''all'' \<notin> gr_name ` set (my_groups db i)"
    and d: "d = fold (\<lambda>(k, v). dict_set k v) (group_entries db i hosts) [(''all'', JDict (all_group db i hosts))]"
  shows "entry_hosts d ''all'' =
    map JStr (filter (\<lambda>n. n \<notin> snd ` set (grouped_names db (iv_id i) (map hr_name hosts))) (map hr_name hosts))"
proof -
  have "''all'' \<notin> fst ` set (group_entries db i hosts)" using reserved kind by (auto simp: group_entries_def Let_def)
  from alist_store.lookup_fold_store_other [OF this] have "dict_get d ''all'' = Some (JDict (all_group db i hosts))"
    by (simp add: d)
  then show ?thesis using kind by (auto simp: entry_hosts_def dict_get_default_def as_dict_def all_group_def names_def Let_def)
qed

lemma hostvars_keys:
  assumes "''_meta'' \<notin> gr_name ` set (my_groups db i)"
  shows "set (dict_keys (as_dict (dict_get_default (as_dict (dict_get_default (get_script_data db i True towervars show_all a b)
      ''_meta'' (JDict []))) ''hostvars'' (JDict [])))) = hr_name ` set (get_sliced_hosts (inventory_hosts db i show_all) a b)"
proof -
  let ?hosts = "get_sliced_hosts (inventory_hosts db i show_all) a b"
  have "''_meta'' \<notin> fst ` set (group_entries db i ?hosts)" using assms by (auto simp: group_entries_def Let_def)
  from alist_store.lookup_fold_store_other [OF this]
  have "dict_get (fold (\<lambda>(k, v). dict_set k v) (group_entries db i ?hosts) [(''all'', JDict (all_group db i ?hosts))]) ''_meta'' = None"
    by simp
  moreover have "set (dict_keys (fold (\<lambda>h. dict_set (hr_name h) (f h)) hs d)) = hr_name ` set hs \<union> set (dict_keys d)" for hs :: "host_row list" and f and d :: py_dict
    by (induction hs arbitrary: d) (auto simp: dict_keys_update [unfolded set_map])
  ultimately show ?thesis
    by (simp add: get_script_data_def Let_def dict_simps case_prod_beta' as_dict_def)
qed

text \<open>
  The data a job gives to Ansible name the hosts of its slice and no other host: a host stands under
  exactly the groups it is a member of, under \<open>all\<close> when it is in no group, and has an entry among the
  variables of the hosts; hosts that are disabled or in another slice are nowhere. (No group is called \<open>all\<close> or \<open>_meta\<close>, which the
  serializer refuses.)
\<close>

theorem script_data_exact:
  assumes "iv_kind i \<noteq> ''smart''" "distinct (map gr_name (my_groups db i))"
    "''all'' \<notin> gr_name ` set (my_groups db i)" "''_meta'' \<notin> gr_name ` set (my_groups db i)"
  shows "let hosts = get_sliced_hosts (inventory_hosts db i show_all) a b; data = get_script_data db i True towervars show_all a b;
             member = (\<lambda>g n. \<exists>h. (g, h) \<in> membership db (iv_id i) \<and> host_name_of db h = n)
    in set (entry_hosts data ''all'') = JStr ` {n \<in> hr_name ` set hosts. \<forall>g. \<not> member g n} \<and>
       (\<forall>r \<in> set (my_groups db i). set (entry_hosts data (gr_name r)) = JStr ` {n \<in> hr_name ` set hosts. member (gr_id r) n}) \<and>
       set (dict_keys (as_dict (dict_get_default (as_dict (dict_get_default data ''_meta'' (JDict []))) ''hostvars'' (JDict [])))) =
         hr_name ` set hosts"
proof -
  let ?hosts = "get_sliced_hosts (inventory_hosts db i show_all) a b" and ?data = "get_script_data db i True towervars show_all a b"
  let ?member = "\<lambda>g n. \<exists>h. (g, h) \<in> membership db (iv_id i) \<and> host_name_of db h = n"
  let ?d = "fold (\<lambda>(k, v). dict_set k v) (group_entries db i ?hosts) [(''all'', JDict (all_group db i ?hosts))]"
  have rows: "(g, n) \<in> set (grouped_names db (iv_id i) (map hr_name ?hosts)) \<longleftrightarrow> ?member g n \<and> n \<in> hr_name ` set ?hosts" for g n
    by (auto simp: grouped_names_def membership_def intro: rev_image_eqI)
  have "entry_hosts ?data ''all'' = entry_hosts ?d ''all''" by (rule entry_hosts_cong) (simp add: script_lookup Let_def)
  then have "set (entry_hosts ?data ''all'') = JStr ` {n \<in> hr_name ` set ?hosts. n \<notin> snd ` set (grouped_names db (iv_id i) (map hr_name ?hosts))}"
    using all_entry_hosts [OF assms(1,3) refl, of ?hosts] by simp
  moreover have "n \<in> snd ` set (grouped_names db (iv_id i) (map hr_name ?hosts)) \<longleftrightarrow> (\<exists>g. ?member g n) \<and> n \<in> hr_name ` set ?hosts" for n
    using rows by force
  ultimately have one: "set (entry_hosts ?data ''all'') = JStr ` {n \<in> hr_name ` set ?hosts. \<forall>g. \<not> ?member g n}" by auto
  have two: "set (entry_hosts ?data (gr_name r)) = JStr ` {n \<in> hr_name ` set ?hosts. ?member (gr_id r) n}" if r: "r \<in> set (my_groups db i)" for r
  proof -
    from imageI [OF r, of gr_name] assms(3,4) have n: "gr_name r \<noteq> ''all''" "gr_name r \<noteq> ''_meta''" by metis+
    have "entry_hosts ?data (gr_name r) = entry_hosts ?d (gr_name r)" by (rule entry_hosts_cong) (simp add: script_lookup n Let_def)
    also have "\<dots> = map JStr (map snd (filter (\<lambda>kv. fst kv = gr_id r) (grouped_names db (iv_id i) (map hr_name ?hosts))))"
      using group_entry_hosts [OF r assms(2,1) n(1) refl] .
    finally have "set (entry_hosts ?data (gr_name r)) = JStr ` {n. (gr_id r, n) \<in> set (grouped_names db (iv_id i) (map hr_name ?hosts))}" by force
    then show ?thesis unfolding rows by (simp add: conj_commute)
  qed
  from one two hostvars_keys [OF assms(4), of towervars show_all a b] show ?thesis by (simp add: Let_def)
qed


definition sample_host :: "int \<Rightarrow> string \<Rightarrow> bool \<Rightarrow> host_row" where
  "sample_host k n e = \<lparr>hr_id = k, hr_inventory = 1, hr_name = n, hr_enabled = e, hr_vars = []\<rparr>"

definition sample_tables :: inv_tables where
  "sample_tables = \<lparr>group_rows = [\<lparr>gr_id = 1, gr_inventory = 1, gr_name = ''web'', gr_vars = []\<rparr>],
     host_rows = [sample_host 1 ''a'' True, sample_host 2 ''b'' False, sample_host 3 ''c'' True],
     group_hosts = [(1, 1), (1, 2)], group_parents = []\<rparr>"

definition sample_inventory :: inventory where
  "sample_inventory = \<lparr>iv_id = 1, iv_kind = [], iv_vars = [], iv_filter = None\<rparr>"

definition sample_slicing :: slice_template where
  "sample_slicing = \<lparr>t_inventory = Some 1, job_slice_count = 3, ask_inventory = False, ask_slices = True\<rparr>"

text \<open>A schedule passes eager fields.\<close>

definition sample_prompt :: slice_kwargs where
  "sample_prompt = \<lparr>kw_inventory = None, kw_slices = Some 2,
     eager_fields = Some [(''launch_type'', JStr ''scheduled'')], prevent_slicing = False\<rparr>"

lemma launch_covers_hosts_witness:
  "map (\<lambda>(k, n). map hr_name (get_sliced_hosts (inventory_hosts sample_tables sample_inventory False) k n))
     (launched_slices (\<lambda>_. 3) sample_slicing sample_prompt) = [[''a''], [''c'']] \<and>
   mset (concat (map (\<lambda>(k, n). get_sliced_hosts (inventory_hosts sample_tables sample_inventory False) k n)
     (launched_slices (\<lambda>_. 3) sample_slicing sample_prompt))) = mset (inventory_hosts sample_tables sample_inventory False)"
proof
  show "map (\<lambda>(k, n). map hr_name (get_sliced_hosts (inventory_hosts sample_tables sample_inventory False) k n))
     (launched_slices (\<lambda>_. 3) sample_slicing sample_prompt) = [[''a''], [''c'']]" by code_simp
  have "free_launch sample_prompt" by (simp add: free_launch_def sample_prompt_def)
  then show "mset (concat (map (\<lambda>(k, n). get_sliced_hosts (inventory_hosts sample_tables sample_inventory False) k n)
     (launched_slices (\<lambda>_. 3) sample_slicing sample_prompt))) = mset (inventory_hosts sample_tables sample_inventory False)"
    using launch_covers_hosts by blast
qed

lemma script_data_exact_witness:
  "let data = get_script_data sample_tables sample_inventory True True False 1 1
   in set (entry_hosts data ''web'') = {JStr ''a''} \<and> set (entry_hosts data ''all'') = {JStr ''c''}"
proof -
  let ?i = sample_inventory and ?db = sample_tables
  have hyps: "iv_kind ?i \<noteq> ''smart''" "distinct (map gr_name (my_groups ?db ?i))" "''all'' \<notin> gr_name ` set (my_groups ?db ?i)"
    "''_meta'' \<notin> gr_name ` set (my_groups ?db ?i)" by code_simp+
  have "map hr_name (get_sliced_hosts (inventory_hosts ?db ?i False) 1 1) = [''a'', ''c'']" by code_simp
  then have hosts: "hr_name ` set (get_sliced_hosts (inventory_hosts ?db ?i False) 1 1) = {''a'', ''c''}" by (metis list.simps(15) set_empty set_map empty_set)
  have groups: "my_groups ?db ?i = [\<lparr>gr_id = 1, gr_inventory = 1, gr_name = ''web'', gr_vars = []\<rparr>]" by code_simp
  have members: "membership ?db (iv_id ?i) = {(1, 1), (1, 2)}"
    by (auto simp: membership_def sample_tables_def sample_inventory_def sample_host_def group_in_def host_in_def)
  have n: "host_name_of ?db 1 = ''a''" "host_name_of ?db 2 = ''b''" by code_simp+
  have pick: "\<not> P ''a'' \<Longrightarrow> P ''c'' \<Longrightarrow> {m \<in> {''a'', ''c''}. P m} = {''c''}"
    "P ''a'' \<Longrightarrow> \<not> P ''c'' \<Longrightarrow> {m \<in> {''a'', ''c''}. P m} = {''a''}" for P by auto
  have "\<exists>h. (1, h) \<in> {(1, 1), (1 :: int, 2)} \<and> host_name_of ?db h = ''a''" using n(1) by blast
  moreover have "\<not> (\<exists>h. (g, h) \<in> {(1, 1), (1 :: int, 2)} \<and> host_name_of ?db h = ''c'')" for g by (auto simp: n)
  ultimately have all: "{m \<in> {''a'', ''c''}. \<forall>g :: int. \<not> (\<exists>h. (g, h) \<in> {(1, 1), (1, 2)} \<and> host_name_of ?db h = m)} = {''c''}"
    and web: "{m \<in> {''a'', ''c''}. \<exists>h. (1, h) \<in> {(1, 1), (1 :: int, 2)} \<and> host_name_of ?db h = m} = {''a''}"
    by (intro pick; blast)+
  note exact = script_data_exact [OF hyps, of False 1 1 True, unfolded Let_def hosts groups members]
  have "set (entry_hosts (get_script_data ?db ?i True True False 1 1) ''all'') = JStr ` {''c''}"
    by (rule exact [THEN conjunct1, unfolded all])
  moreover have "set (entry_hosts (get_script_data ?db ?i True True False 1 1) ''web'') = JStr ` {''a''}"
    using exact [THEN conjunct2, THEN conjunct1] by (simp only: list.set ball_simps group_row.simps web)
  ultimately show ?thesis by (simp add: Let_def)
qed

text \<open>
  The facts of a slice are read for the hosts of another slice: a disabled host shifts the slices of
  the fact cache, which counts it, against those of the run, which does not.
\<close>

lemma fact_cache_slice_differs:
  "map hr_name (get_sliced_hosts (inventory_hosts sample_tables sample_inventory False) 2 2) = [''c''] \<and>
   map hr_name (hosts_for_fact_cache sample_tables sample_inventory 2 2) = [''b'']"
  by code_simp

text \<open>What is behind the pattern of a slice is ignored, and so is the missing end of a text.\<close>

lemma parse_slice_examples:
  "parse_slice_params ''slice1of2'' = Inr (1, 2)" "parse_slice_params ''slice1of2; drop'' = Inr (1, 2)"
  "parse_slice_params ''slice3of2'' = Inl Number_Above_Count" "parse_slice_params ''slice0of2'' = Inl Number_Below_One"
  by code_simp+

lemma parsed_slice_in_range: "parse_slice_params s = Inr (k, n) \<Longrightarrow> 1 \<le> k \<and> k \<le> n"
  by (auto simp: parse_slice_params_def Let_def split: if_splits)

end
