(* ===== verification/ClusterPolicies.thy ===== *)
theory ClusterPolicies
  imports DependencyGraph Complex_Main
begin

section \<open>Cluster membership policies\<close>

text \<open>
  Models \<open>apply_cluster_membership_policies\<close> of \<^verbatim>\<open>forail/main/tasks/system.py\<close>: which instances
  belong to which instance groups. A group names hosts of its own, then a minimum, then a
  percentage. The rows of the database are arguments; the mutable \<open>Group\<close> and \<open>Node\<close> tuples of
  the source are entries of two dictionaries, keyed by the primary key of their row. The lemmas
  show what every group ends up with, that the least loaded nodes are taken first, and that a
  second run changes nothing.
\<close>

subsection \<open>Rows and state\<close>

record policy_group =
  ig_id :: int
  ig_name :: string
  policy_instance_list :: "string list"
  policy_instance_minimum :: int
  policy_instance_percentage :: int
  ig_container :: bool
  ig_instances :: "int list"

record policy_node =
  node_id :: int
  node_hostname :: string
  node_plane :: node_type
  managed_by_policy :: bool

record policy_state =
  group_instances :: "(int, int list) pydict"
  node_groups :: "(int, int list) pydict"

definition instances_of :: "policy_state \<Rightarrow> int \<Rightarrow> int list" where
  "instances_of s g = dict_get_default (group_instances s) g []"

definition groups_of :: "policy_state \<Rightarrow> int \<Rightarrow> int list" where
  "groups_of s i = dict_get_default (node_groups s) i []"

definition place :: "int \<Rightarrow> int \<Rightarrow> policy_state \<Rightarrow> policy_state" where
  "place g i s = s\<lparr>group_instances := dict_set g (instances_of s g @ [i]) (group_instances s),
     node_groups := dict_set i (groups_of s i @ [g]) (node_groups s)\<rparr>"

subsection \<open>The policy list\<close>

definition all_instances :: "policy_node list \<Rightarrow> policy_node list" where
  "all_instances rows = sort_key node_id (filter (\<lambda>i. node_plane i \<noteq> Hop) rows)"

definition instance_hostnames_map :: "policy_node list \<Rightarrow> (string, policy_node) pydict" where
  "instance_hostnames_map insts = fold (\<lambda>i. dict_set (node_hostname i) i) insts []"

fun listed_ids :: "(string, policy_node) pydict \<Rightarrow> string list \<Rightarrow> int list" where
  "listed_ids hosts [] = []"
| "listed_ids hosts (h # hs) =
     (case dict_get hosts h of None \<Rightarrow> listed_ids hosts hs | Some i \<Rightarrow> node_id i # listed_ids hosts hs)"

definition listed_state :: "policy_node list \<Rightarrow> policy_group list \<Rightarrow> policy_state" where
  "listed_state insts groups =
     \<lparr>group_instances = map (\<lambda>g. (ig_id g, listed_ids (instance_hostnames_map insts) (policy_instance_list g))) groups,
      node_groups = []\<rparr>"

subsection \<open>Minimum and percentage\<close>

definition exclude_type :: "string \<Rightarrow> policy_group \<Rightarrow> node_type" where
  "exclude_type control_plane g = (if ig_name g = control_plane then Execution else Control)"

text \<open>
  One pass over the nodes for a group. \<open>enough\<close> is the condition of the \<open>break\<close>. The two loops of
  the source test it on either side of the membership test.
\<close>

fun minimum_loop :: "node_type \<Rightarrow> policy_group \<Rightarrow> policy_node list \<Rightarrow> policy_state \<Rightarrow> policy_state" where
  "minimum_loop ex g [] s = s"
| "minimum_loop ex g (i # is) s =
     (if node_plane i = ex then minimum_loop ex g is s
      else if int (length (instances_of s (ig_id g))) \<ge> policy_instance_minimum g then s
      else if node_id i \<in> set (instances_of s (ig_id g)) then minimum_loop ex g is s
      else minimum_loop ex g is (place (ig_id g) (node_id i) s))"

fun percentage_loop :: "node_type \<Rightarrow> int \<Rightarrow> policy_group \<Rightarrow> policy_node list \<Rightarrow> policy_state \<Rightarrow> policy_state" where
  "percentage_loop ex pool g [] s = s"
| "percentage_loop ex pool g (i # is) s =
     (if node_plane i = ex then percentage_loop ex pool g is s
      else if node_id i \<in> set (instances_of s (ig_id g)) then percentage_loop ex pool g is s
      else if 100 * int (length (instances_of s (ig_id g))) \<ge> policy_instance_percentage g * pool then s
      else percentage_loop ex pool g is (place (ig_id g) (node_id i) s))"

definition by_load :: "policy_state \<Rightarrow> policy_node list \<Rightarrow> policy_node list" where
  "by_load s nodes = sort_key (\<lambda>i. length (groups_of s (node_id i))) nodes"

definition minimum_group :: "string \<Rightarrow> policy_node list \<Rightarrow> policy_group \<Rightarrow> policy_state \<Rightarrow> policy_state" where
  "minimum_group cp nodes g s = minimum_loop (exclude_type cp g) g (by_load s nodes) s"

text \<open>
  The source compares floats: \<open>100 * float(n) / pool >= percentage\<close>. With a positive pool this is
  the comparison of the integers, as rounding a quotient is monotone and keeps integers.
\<close>

definition candidate_pool_ct :: "string \<Rightarrow> policy_node list \<Rightarrow> policy_group \<Rightarrow> int" where
  "candidate_pool_ct cp nodes g = int (length (filter (\<lambda>i. node_plane i \<noteq> exclude_type cp g) nodes))"

definition percentage_group :: "string \<Rightarrow> policy_node list \<Rightarrow> policy_group \<Rightarrow> policy_state \<Rightarrow> policy_state" where
  "percentage_group cp nodes g s =
     (let pool = candidate_pool_ct cp nodes g
      in if pool = 0 then s else percentage_loop (exclude_type cp g) pool g (by_load s nodes) s)"

definition by_size :: "policy_state \<Rightarrow> policy_group list \<Rightarrow> policy_group list" where
  "by_size s groups = sort_key (\<lambda>g. length (instances_of s (ig_id g))) groups"

definition computed_state :: "string \<Rightarrow> policy_node list \<Rightarrow> policy_group list \<Rightarrow> policy_state" where
  "computed_state cp rows groups =
     (let insts = all_instances rows;
          s0 = listed_state insts groups;
          nodes = filter managed_by_policy insts;
          s1 = fold (minimum_group cp nodes) (by_size s0 groups) s0
      in fold (percentage_group cp nodes) (by_size s1 groups) s1)"

subsection \<open>Writing the memberships\<close>

definition needs_change :: "policy_state \<Rightarrow> policy_group list \<Rightarrow> bool" where
  "needs_change s groups =
     list_ex (\<lambda>g. set (instances_of s (ig_id g)) \<noteq> set (ig_instances g)) groups"

definition apply_group :: "policy_state \<Rightarrow> policy_group \<Rightarrow> policy_group" where
  "apply_group s g =
     (if ig_container g then g
      else let wanted = instances_of s (ig_id g);
               to_add = filter (\<lambda>i. i \<notin> set (ig_instances g)) (remdups wanted);
               to_remove = filter (\<lambda>i. i \<notin> set wanted) (ig_instances g)
           in g\<lparr>ig_instances := filter (\<lambda>i. i \<notin> set to_remove) (ig_instances g @ to_add)\<rparr>)"

definition apply_cluster_membership_policies :: "string \<Rightarrow> policy_node list \<Rightarrow> policy_group list \<Rightarrow> policy_group list" where
  "apply_cluster_membership_policies cp rows groups =
     (let s = computed_state cp rows groups
      in if needs_change s groups then map (apply_group s) groups else groups)"


section \<open>What a pass over the nodes adds\<close>

lemma instances_of_place: "instances_of (place g i s) g' = (if g' = g then instances_of s g @ [i] else instances_of s g')"
  by (simp add: instances_of_def place_def dict_simps)

lemma groups_of_place: "groups_of (place g i s) i' = (if i' = i then groups_of s i @ [g] else groups_of s i')"
  by (simp add: groups_of_def place_def dict_simps)

lemma instances_of_places:
  "instances_of (fold (place g) is s) g' = (if g' = g then instances_of s g @ is else instances_of s g')"
  by (induction "is" arbitrary: s) (auto simp: instances_of_place)

text \<open>The nodes a pass may take, in the order of the pass, and the pass as a closed formula.\<close>

definition candidates :: "node_type \<Rightarrow> int \<Rightarrow> policy_node list \<Rightarrow> policy_state \<Rightarrow> policy_node list" where
  "candidates ex g nodes s = filter (\<lambda>i. node_plane i \<noteq> ex \<and> node_id i \<notin> set (instances_of s g)) nodes"

definition fill_up_to :: "int \<Rightarrow> node_type \<Rightarrow> int \<Rightarrow> policy_node list \<Rightarrow> policy_state \<Rightarrow> policy_state" where
  "fill_up_to need ex g nodes s =
     fold (place g) (map node_id (take (nat (need - int (length (instances_of s g)))) (candidates ex g nodes s))) s"

lemma fill_Nil: "fill_up_to need ex g [] s = s"
  by (simp add: fill_up_to_def candidates_def)

lemma fill_skip: "node_plane i = ex \<or> node_id i \<in> set (instances_of s g) \<Longrightarrow> fill_up_to need ex g (i # is) s = fill_up_to need ex g is s"
  by (auto simp: fill_up_to_def candidates_def)

lemma fill_full: "need \<le> int (length (instances_of s g)) \<Longrightarrow> fill_up_to need ex g is s = s"
  by (simp add: fill_up_to_def)

lemma fill_take:
  assumes "node_plane i \<noteq> ex" "node_id i \<notin> set (instances_of s g)" "int (length (instances_of s g)) < need"
    and fresh: "node_id i \<notin> node_id ` set is"
  shows "fill_up_to need ex g (i # is) s = fill_up_to need ex g is (place g (node_id i) s)"
proof -
  let ?n = "need - int (length (instances_of s g))"
  have same: "candidates ex g is (place g (node_id i) s) = candidates ex g is s"
    using fresh by (auto simp: candidates_def instances_of_place intro!: filter_cong) (metis imageI)
  have "nat ?n = Suc (nat (?n - 1))" using assms(3) by simp
  moreover have "candidates ex g (i # is) s = i # candidates ex g is s" using assms(1,2) by (simp add: candidates_def)
  moreover have "nat (need - int (length (instances_of (place g (node_id i) s) g))) = nat (?n - 1)" by (simp add: instances_of_place algebra_simps)
  ultimately show ?thesis by (simp add: fill_up_to_def same)
qed

lemma minimum_loop_fill:
  "distinct (map node_id is) \<Longrightarrow> minimum_loop ex g is s = fill_up_to (policy_instance_minimum g) ex (ig_id g) is s"
  by (induction ex g "is" s rule: minimum_loop.induct) (auto simp: fill_Nil fill_skip fill_full fill_take)

definition percentage_need :: "int \<Rightarrow> policy_group \<Rightarrow> int" where
  "percentage_need pool g = (policy_instance_percentage g * pool + 99) div 100"

lemma percentage_enough: "policy_instance_percentage g * pool \<le> 100 * n \<longleftrightarrow> percentage_need pool g \<le> n"
  unfolding percentage_need_def by linarith

lemma percentage_loop_fill:
  "distinct (map node_id is) \<Longrightarrow> percentage_loop ex pool g is s = fill_up_to (percentage_need pool g) ex (ig_id g) is s"
  by (induction ex pool g "is" s rule: percentage_loop.induct)
    (auto simp: fill_Nil fill_skip fill_full fill_take percentage_enough not_le)

lemma set_by_load [simp]: "set (by_load s nodes) = set nodes"
  by (simp add: by_load_def)

lemma distinct_by_load: "distinct (map node_id nodes) \<Longrightarrow> distinct (map node_id (by_load s nodes))"
  by (metis by_load_def distinct_map inj_on_subset distinct_sort set_sort order_refl)

text \<open>Both kinds of pass, for a group \<open>g\<close>, as one step with what the group needs.\<close>

definition fill_step :: "string \<Rightarrow> policy_node list \<Rightarrow> (policy_group \<Rightarrow> int) \<Rightarrow> policy_group \<Rightarrow> policy_state \<Rightarrow> policy_state" where
  "fill_step cp nodes need g s = fill_up_to (need g) (exclude_type cp g) (ig_id g) (by_load s nodes) s"

definition percentage_target :: "string \<Rightarrow> policy_node list \<Rightarrow> policy_group \<Rightarrow> int" where
  "percentage_target cp nodes g = percentage_need (candidate_pool_ct cp nodes g) g"

lemma minimum_group_step:
  "distinct (map node_id nodes) \<Longrightarrow> minimum_group cp nodes g s = fill_step cp nodes policy_instance_minimum g s"
  by (simp add: minimum_group_def fill_step_def minimum_loop_fill distinct_by_load)

lemma percentage_group_step:
  assumes d: "distinct (map node_id nodes)"
  shows "percentage_group cp nodes g s = fill_step cp nodes (percentage_target cp nodes) g s"
proof (cases "candidate_pool_ct cp nodes g = 0")
  case True
  then have "percentage_target cp nodes g = 0" by (simp add: percentage_target_def percentage_need_def)
  with True show ?thesis by (simp add: percentage_group_def fill_step_def fill_full)
next
  case False
  then show ?thesis
    by (simp add: percentage_group_def fill_step_def percentage_loop_fill [OF distinct_by_load [OF d]] percentage_target_def)
qed

text \<open>The least loaded nodes are taken: whoever is left out is in at least as many groups.\<close>

lemma least_loaded_first:
  assumes i: "node_id i \<in> set (instances_of (fill_step cp nodes need g s) (ig_id g))" "node_id i \<notin> set (instances_of s (ig_id g))"
    and j: "j \<in> set nodes" "node_plane j \<noteq> exclude_type cp g" "node_id j \<notin> set (instances_of (fill_step cp nodes need g s) (ig_id g))"
  shows "length (groups_of s (node_id i)) \<le> length (groups_of s (node_id j))"
proof -
  let ?load = "\<lambda>i. length (groups_of s (node_id i))" and ?cs = "candidates (exclude_type cp g) (ig_id g) (by_load s nodes) s"
  let ?k = "nat (need g - int (length (instances_of s (ig_id g))))"
  have inst: "instances_of (fill_step cp nodes need g s) (ig_id g) = instances_of s (ig_id g) @ map node_id (take ?k ?cs)"
    by (simp add: fill_step_def fill_up_to_def instances_of_places)
  then obtain i' where i': "i' \<in> set (take ?k ?cs)" "node_id i' = node_id i" using i by auto
  have "j \<in> set ?cs" using j(1,2,3) unfolding inst by (auto simp: candidates_def)
  then have "j \<in> set (take ?k ?cs) \<union> set (drop ?k ?cs)" by (metis append_take_drop_id set_append)
  then have j': "j \<in> set (drop ?k ?cs)" using j(3) unfolding inst by auto
  have "sorted (map ?load (by_load s nodes))" by (simp add: by_load_def)
  then have "sorted (map ?load ?cs)" unfolding candidates_def by (rule sorted_filter)
  then have "sorted (map ?load (take ?k ?cs @ drop ?k ?cs))" by simp
  then have "\<forall>x \<in> set (map ?load (take ?k ?cs)). \<forall>y \<in> set (map ?load (drop ?k ?cs)). x \<le> y"
    unfolding map_append sorted_append by blast
  then have "?load i' \<le> ?load j" using i'(1) j' by simp
  then show ?thesis using i'(2) by simp
qed


section \<open>What every group ends up with\<close>

text \<open>
  From the instances \<open>L\<close>, with the nodes \<open>E\<close> to take from, a group is filled to \<open>need\<close>: it keeps
  \<open>L\<close>, takes from \<open>E\<close> only, and stops at \<open>need\<close> unless it started above or \<open>E\<close> runs out.
\<close>

definition filled :: "int set \<Rightarrow> int set \<Rightarrow> int \<Rightarrow> int set \<Rightarrow> bool" where
  "filled L E need M \<longleftrightarrow> finite M \<and> L \<subseteq> M \<and> M \<subseteq> L \<union> E \<and>
     int (card M) = max (int (card L)) (min (int (card (L \<union> E))) need)"

lemma filled_trans:
  assumes "filled L E n1 M1" "filled M1 E n2 M2"
  shows "filled L E (max n1 n2) M2"
proof -
  have u: "M1 \<union> E = L \<union> E" using assms(1) by (auto simp: filled_def)
  have "L \<subseteq> M2" "M2 \<subseteq> L \<union> E" "finite M2" using assms by (auto simp: filled_def)
  moreover have "int (card M2) = max (max (int (card L)) (min (int (card (L \<union> E))) n1)) (min (int (card (L \<union> E))) n2)"
    using assms by (simp add: filled_def u)
  ultimately show ?thesis unfolding filled_def by linarith
qed

definition eligible_ids :: "string \<Rightarrow> policy_node list \<Rightarrow> policy_group \<Rightarrow> int set" where
  "eligible_ids cp nodes g = node_id ` {i \<in> set nodes. node_plane i \<noteq> exclude_type cp g}"

lemma finite_eligible: "finite (eligible_ids cp nodes g)"
  by (simp add: eligible_ids_def)

lemma fill_step_filled:
  assumes d: "distinct (map node_id nodes)" and dg: "distinct (instances_of s (ig_id g))"
  shows "distinct (instances_of (fill_step cp nodes need g s) (ig_id g))" (is ?D)
    and "filled (set (instances_of s (ig_id g))) (eligible_ids cp nodes g) (need g)
           (set (instances_of (fill_step cp nodes need g s) (ig_id g)))" (is ?F)
proof -
  let ?L = "instances_of s (ig_id g)" and ?E = "eligible_ids cp nodes g"
  let ?cs = "candidates (exclude_type cp g) (ig_id g) (by_load s nodes) s" and ?k = "nat (need g - int (length ?L))"
  have inst: "instances_of (fill_step cp nodes need g s) (ig_id g) = ?L @ map node_id (take ?k ?cs)"
    by (simp add: fill_step_def fill_up_to_def instances_of_places)
  have dc: "distinct (map node_id ?cs)"
    using distinct_by_load [OF d, of s] by (simp add: candidates_def distinct_map_filter)
  have sc: "set (map node_id ?cs) = ?E - set ?L" by (auto simp: candidates_def eligible_ids_def)
  have new: "set (map node_id (take ?k ?cs)) \<subseteq> ?E - set ?L" using set_take_subset [of ?k "map node_id ?cs"] by (simp add: take_map sc [symmetric])
  have dn: "distinct (map node_id (take ?k ?cs))" using distinct_take [OF dc, of ?k] by (simp add: take_map)
  show D: ?D using dg dn new by (auto simp: inst)
  have lc: "length ?cs = card (?E - set ?L)" using distinct_card [OF dc] sc by simp
  have cu: "card (set ?L \<union> ?E) = length ?L + length ?cs"
    using card_Un_disjoint [of "set ?L" "?E - set ?L"] distinct_card [OF dg] by (simp add: lc finite_eligible)
  have cm: "card (set ?L \<union> set (map node_id (take ?k ?cs))) = length ?L + min (length ?cs) ?k"
    using distinct_card [OF D] by (simp add: inst)
  have sub: "set ?L \<union> set (map node_id (take ?k ?cs)) \<subseteq> set ?L \<union> ?E" using new by blast
  have "int (length ?L + min (length ?cs) ?k) = max (int (length ?L)) (min (int (length ?L + length ?cs)) (need g))" by linarith
  then show ?F unfolding filled_def inst set_append cm cu distinct_card [OF dg] using sub by simp
qed

lemma fold_steps_other: "g \<notin> ig_id ` set gs \<Longrightarrow> instances_of (fold (fill_step cp nodes need) gs s) g = instances_of s g"
  by (induction gs arbitrary: s) (auto simp: fill_step_def fill_up_to_def instances_of_places)

lemma fold_steps_filled:
  assumes d: "distinct (map node_id nodes)"
  shows "distinct (map ig_id gs) \<Longrightarrow> g \<in> set gs \<Longrightarrow> distinct (instances_of s (ig_id g)) \<Longrightarrow>
     distinct (instances_of (fold (fill_step cp nodes need) gs s) (ig_id g)) \<and>
     filled (set (instances_of s (ig_id g))) (eligible_ids cp nodes g) (need g)
       (set (instances_of (fold (fill_step cp nodes need) gs s) (ig_id g)))"
proof (induction gs arbitrary: s)
  case Nil
  then show ?case by simp
next
  case (Cons h hs)
  let ?s = "fill_step cp nodes need h s"
  show ?case
  proof (cases "g = h")
    case True
    then have "instances_of (fold (fill_step cp nodes need) hs ?s) (ig_id g) = instances_of ?s (ig_id g)"
      using Cons.prems(1) by (intro fold_steps_other) auto
    with fill_step_filled [OF d Cons.prems(3), of cp need] True show ?thesis by simp
  next
    case False
    then have g: "g \<in> set hs" using Cons.prems(2) by simp
    with Cons.prems(1) have "ig_id g \<noteq> ig_id h" by simp (metis imageI)
    then have "instances_of ?s (ig_id g) = instances_of s (ig_id g)"
      using fold_steps_other [of "ig_id g" "[h]" cp nodes need s] by simp
    with Cons.IH [of ?s] Cons.prems g show ?thesis by simp
  qed
qed

lemma distinct_by_size: "distinct (map ig_id groups) \<Longrightarrow> distinct (map ig_id (by_size s groups))"
  by (metis by_size_def distinct_map inj_on_subset distinct_sort set_sort order_refl)

lemma set_by_size [simp]: "set (by_size s groups) = set groups"
  by (simp add: by_size_def)

lemma fold_same_step: "(\<And>g s. f g s = h g s) \<Longrightarrow> fold f gs s = fold h gs s"
  by (metis ext)

lemma filled_by_policies:
  assumes d: "distinct (map node_id nodes)" and dg: "distinct (map ig_id groups)" and g: "g \<in> set groups"
    and dl: "distinct (instances_of s (ig_id g))"
    and s1: "s1 = fold (minimum_group cp nodes) (by_size s groups) s"
    and s2: "s2 = fold (percentage_group cp nodes) (by_size s1 groups) s1"
  shows "filled (set (instances_of s (ig_id g))) (eligible_ids cp nodes g)
     (max (policy_instance_minimum g) (percentage_target cp nodes g)) (set (instances_of s2 (ig_id g)))"
proof -
  have 1: "distinct (instances_of s1 (ig_id g)) \<and> filled (set (instances_of s (ig_id g))) (eligible_ids cp nodes g)
      (policy_instance_minimum g) (set (instances_of s1 (ig_id g)))"
    unfolding s1 fold_same_step [OF minimum_group_step [OF d]]
    by (rule fold_steps_filled [OF d distinct_by_size [OF dg] _ dl]) (simp add: g)
  have "filled (set (instances_of s1 (ig_id g))) (eligible_ids cp nodes g) (percentage_target cp nodes g) (set (instances_of s2 (ig_id g)))"
    unfolding s2 fold_same_step [OF percentage_group_step [OF d]]
    by (rule fold_steps_filled [OF d distinct_by_size [OF dg] _ 1 [THEN conjunct1], THEN conjunct2]) (simp add: g)
  then show ?thesis by (rule filled_trans [OF 1 [THEN conjunct2]])
qed


subsection \<open>The listed hosts\<close>

lemma lookup_hostname:
  assumes d: "distinct (map node_hostname insts)"
  shows "dict_get (instance_hostnames_map insts) h = Some i \<longleftrightarrow> i \<in> set insts \<and> node_hostname i = h"
proof -
  let ?kvs = "map (\<lambda>i. (node_hostname i, i)) insts"
  have m: "instance_hostnames_map insts = fold (\<lambda>(k, v). dict_set k v) ?kvs []"
    by (simp add: instance_hostnames_map_def fold_map comp_def)
  have dk: "distinct (map fst ?kvs)" using d by (simp add: comp_def)
  show ?thesis
  proof
    assume s: "dict_get (instance_hostnames_map insts) h = Some i"
    then have "h \<in> fst ` set ?kvs"
      using alist_store.lookup_fold_store_other [of h ?kvs "[]"] by (auto simp: m)
    then obtain j where j: "j \<in> set insts" "h = node_hostname j" by auto
    then have "(h, j) \<in> set ?kvs" by auto
    from alist_store.lookup_fold_store [OF dk this, of "[]"] s j show "i \<in> set insts \<and> node_hostname i = h" by (simp add: m)
  next
    assume "i \<in> set insts \<and> node_hostname i = h"
    then have "(h, i) \<in> set ?kvs" by auto
    from alist_store.lookup_fold_store [OF dk this, of "[]"] show "dict_get (instance_hostnames_map insts) h = Some i" by (simp add: m)
  qed
qed

lemma set_listed_ids: "set (listed_ids hosts hs) = {node_id i | i h. h \<in> set hs \<and> dict_get hosts h = Some i}"
  by (induction hs) (auto split: option.splits)

lemma set_all_instances: "set (all_instances rows) = {i \<in> set rows. node_plane i \<noteq> Hop}"
  by (auto simp: all_instances_def)

lemma distinct_all_instances: "distinct (map f rows) \<Longrightarrow> distinct (map f (all_instances rows))"
proof -
  assume "distinct (map f rows)"
  then have "distinct (map f (filter (\<lambda>i. node_plane i \<noteq> Hop) rows))" by (rule distinct_map_filter)
  then show ?thesis unfolding all_instances_def distinct_map distinct_sort set_sort .
qed

lemma distinct_listed_ids:
  assumes d: "distinct (map node_hostname insts)" "distinct (map node_id insts)"
  shows "distinct hs \<Longrightarrow> distinct (listed_ids (instance_hostnames_map insts) hs)"
proof (induction hs)
  case Nil
  then show ?case by simp
next
  case (Cons h hs)
  then show ?case using d(2)
    by (auto simp: set_listed_ids lookup_hostname [OF d(1)] distinct_map inj_on_def split: option.splits)
qed

lemma instances_of_listed:
  "distinct (map ig_id groups) \<Longrightarrow> g \<in> set groups \<Longrightarrow>
     instances_of (listed_state insts groups) (ig_id g) = listed_ids (instance_hostnames_map insts) (policy_instance_list g)"
proof -
  assume d: "distinct (map ig_id groups)" and g: "g \<in> set groups"
  let ?l = "\<lambda>g. listed_ids (instance_hostnames_map insts) (policy_instance_list g)"
  have "map_of (map (\<lambda>g. (ig_id g, ?l g)) groups) (ig_id g) = Some (?l g)"
    using d g by (intro map_of_is_SomeI) (auto simp: comp_def)
  then show ?thesis by (simp add: instances_of_def listed_state_def dict_get_default_def)
qed

subsection \<open>What is written\<close>

lemma set_apply_group: "\<not> ig_container g \<Longrightarrow> set (ig_instances (apply_group s g)) = set (instances_of s (ig_id g))"
  by (auto simp: apply_group_def Let_def)

lemma apply_group_fields [simp]:
  "ig_id (apply_group s g) = ig_id g" "ig_name (apply_group s g) = ig_name g" "ig_container (apply_group s g) = ig_container g"
  "policy_instance_list (apply_group s g) = policy_instance_list g"
  "policy_instance_minimum (apply_group s g) = policy_instance_minimum g"
  "policy_instance_percentage (apply_group s g) = policy_instance_percentage g"
  by (simp_all add: apply_group_def Let_def)

lemma apply_group_settled: "set (ig_instances g) = set (instances_of s (ig_id g)) \<Longrightarrow> apply_group s g = g"
  by (auto simp: apply_group_def Let_def)

lemma applied_is_map:
  "apply_cluster_membership_policies cp rows groups = map (apply_group (computed_state cp rows groups)) groups"
proof -
  let ?s = "computed_state cp rows groups"
  have "map (apply_group ?s) groups = groups" if n: "\<not> needs_change ?s groups"
  proof -
    have "apply_group ?s g = g" if "g \<in> set groups" for g
      using n that by (intro apply_group_settled) (auto simp: needs_change_def list_ex_iff)
    then show ?thesis by (simp add: map_idI)
  qed
  then show ?thesis by (simp add: apply_cluster_membership_policies_def Let_def)
qed


definition listed_by :: "policy_node list \<Rightarrow> policy_group \<Rightarrow> int set" where
  "listed_by rows g = {node_id i | i. i \<in> set rows \<and> node_plane i \<noteq> Hop \<and> node_hostname i \<in> set (policy_instance_list g)}"

definition takes :: "string \<Rightarrow> policy_group \<Rightarrow> policy_node \<Rightarrow> bool" where
  "takes cp g i \<longleftrightarrow> node_plane i \<noteq> Hop \<and> managed_by_policy i \<and> node_plane i \<noteq> exclude_type cp g"

definition takeable :: "string \<Rightarrow> policy_node list \<Rightarrow> policy_group \<Rightarrow> int set" where
  "takeable cp rows g = node_id ` {i \<in> set rows. takes cp g i}"

lemma candidate_pool_card:
  assumes d: "distinct (map node_id rows)"
  shows "candidate_pool_ct cp (filter managed_by_policy (all_instances rows)) g = int (card (takeable cp rows g))"
    and "eligible_ids cp (filter managed_by_policy (all_instances rows)) g = takeable cp rows g"
proof -
  let ?ns = "filter (\<lambda>i. node_plane i \<noteq> exclude_type cp g) (filter managed_by_policy (all_instances rows))"
  have "distinct (map node_id ?ns)" using d by (intro distinct_map_filter distinct_all_instances)
  moreover have "node_id ` set ?ns = takeable cp rows g"
    by (auto simp: takeable_def takes_def set_all_instances)
  ultimately show "candidate_pool_ct cp (filter managed_by_policy (all_instances rows)) g = int (card (takeable cp rows g))"
    unfolding candidate_pool_ct_def by (metis distinct_card length_map set_map)
  show "eligible_ids cp (filter managed_by_policy (all_instances rows)) g = takeable cp rows g"
    by (auto simp: eligible_ids_def takeable_def takes_def set_all_instances)
qed

text \<open>
  C31: After a run every instance group that is not a container group holds all hosts of its policy
  list (unless unknown or hop nodes), otherwise only nodes under policy of its own plane, and
  exactly as many as its minimum and its percentage of these nodes ask for, whichever is more:
  fewer only if there are no more such nodes, more only if its list is longer.
\<close>

theorem policies_met:
  assumes "distinct (map node_id rows)" "distinct (map node_hostname rows)" "distinct (map ig_id groups)"
    and "\<forall>g \<in> set groups. distinct (policy_instance_list g)"
    and "g \<in> set (apply_cluster_membership_policies cp rows groups)" "\<not> ig_container g"
  shows "listed_by rows g \<subseteq> set (ig_instances g) \<and> set (ig_instances g) \<subseteq> listed_by rows g \<union> takeable cp rows g \<and>
    int (card (set (ig_instances g))) =
      max (int (card (listed_by rows g)))
        (min (int (card (listed_by rows g \<union> takeable cp rows g)))
          (max (policy_instance_minimum g)
            \<lceil>rat_of_int (policy_instance_percentage g * int (card (takeable cp rows g))) / 100\<rceil>))"
proof -
  let ?insts = "all_instances rows" and ?s = "computed_state cp rows groups"
  let ?nodes = "filter managed_by_policy ?insts" and ?init = "listed_state (all_instances rows) groups"
  obtain g0 where g0: "g0 \<in> set groups" "g = apply_group ?s g0"
    using assms(5) unfolding applied_is_map by auto
  have dn: "distinct (map node_id ?insts)" and dh: "distinct (map node_hostname ?insts)"
    by (rule distinct_all_instances [OF assms(1)], rule distinct_all_instances [OF assms(2)])
  have start: "instances_of ?init (ig_id g0) = listed_ids (instance_hostnames_map ?insts) (policy_instance_list g0)"
    by (rule instances_of_listed [OF assms(3) g0(1)])
  have dl: "distinct (instances_of ?init (ig_id g0))"
    unfolding start using assms(4) g0(1) by (intro distinct_listed_ids [OF dh dn]) blast
  have listed: "set (instances_of ?init (ig_id g0)) = listed_by rows g"
    by (auto simp: start set_listed_ids lookup_hostname [OF dh] listed_by_def set_all_instances g0(2))
  have planes: "takeable cp rows g0 = takeable cp rows g"
    by (simp add: takeable_def takes_def exclude_type_def g0(2))
  have ceil: "percentage_need n h = \<lceil>rat_of_int (policy_instance_percentage h * n) / 100\<rceil>" for n h
  proof -
    have "\<lceil>rat_of_int (policy_instance_percentage h * n) / rat_of_int 100\<rceil> = - (- (policy_instance_percentage h * n) div 100)"
      by (rule ceiling_divide_eq_div)
    then show ?thesis unfolding percentage_need_def of_int_numeral by linarith
  qed
  have "set (instances_of ?s (ig_id g0)) = set (ig_instances g)"
    using assms(6) set_apply_group [of g0 ?s] g0(2) by simp
  moreover have "filled (set (instances_of ?init (ig_id g0))) (eligible_ids cp ?nodes g0)
     (max (policy_instance_minimum g0) (percentage_target cp ?nodes g0)) (set (instances_of ?s (ig_id g0)))"
    by (rule filled_by_policies [OF distinct_map_filter [OF dn] assms(3) g0(1) dl refl]) (simp add: computed_state_def Let_def)
  ultimately have "filled (listed_by rows g) (takeable cp rows g)
      (max (policy_instance_minimum g) \<lceil>rat_of_int (policy_instance_percentage g * int (card (takeable cp rows g))) / 100\<rceil>)
      (set (ig_instances g))"
    unfolding percentage_target_def candidate_pool_card [OF assms(1)] listed planes ceil by (simp add: g0(2))
  then show ?thesis by (simp add: filled_def)
qed

section \<open>A second run\<close>

lemma sort_key_map: "sort_key f (map h xs) = map h (sort_key (\<lambda>x. f (h x)) xs)"
proof -
  have ins: "insort_key f (h x) (map h ys) = map h (insort_key (\<lambda>x. f (h x)) x ys)" for x ys by (induction ys) auto
  show ?thesis unfolding sort_key_def by (induction xs) (simp_all add: ins)
qed

lemma passes_of_applied:
  "minimum_loop ex (apply_group s g) is t = minimum_loop ex g is t"
  "percentage_loop ex pool (apply_group s g) is t = percentage_loop ex pool g is t"
  by (induction "is" arbitrary: t) simp_all

lemma groups_of_applied:
  "minimum_group cp nodes (apply_group s g) = minimum_group cp nodes g"
  "percentage_group cp nodes (apply_group s g) = percentage_group cp nodes g"
  by (rule ext, simp add: minimum_group_def percentage_group_def exclude_type_def candidate_pool_ct_def passes_of_applied)+

lemma by_size_applied: "by_size t (map (apply_group s) groups) = map (apply_group s) (by_size t groups)"
  by (simp add: by_size_def sort_key_map)

lemma computed_state_applied: "computed_state cp rows (map (apply_group s) groups) = computed_state cp rows groups"
  by (simp add: computed_state_def Let_def listed_state_def by_size_applied fold_map comp_def groups_of_applied)

text \<open>
  A run settles the memberships: whatever they were, a second run over its result computes the
  same policy, finds no group that is not a container group in need of a change, and changes nothing.
\<close>

theorem policy_run_settles:
  "apply_cluster_membership_policies cp rows (apply_cluster_membership_policies cp rows groups) =
     apply_cluster_membership_policies cp rows groups \<and>
   \<not> needs_change (computed_state cp rows (apply_cluster_membership_policies cp rows groups))
       (filter (\<lambda>g. \<not> ig_container g) (apply_cluster_membership_policies cp rows groups))"
proof -
  let ?s = "computed_state cp rows groups"
  have "apply_group ?s (apply_group ?s g) = apply_group ?s g" for g
    by (cases "ig_container g") (simp add: apply_group_def, simp add: apply_group_settled set_apply_group)
  then have "map (apply_group ?s) (map (apply_group ?s) groups) = map (apply_group ?s) groups" by simp
  moreover have "\<not> needs_change ?s (filter (\<lambda>g. \<not> ig_container g) (map (apply_group ?s) groups))"
    by (auto simp: needs_change_def list_ex_iff set_apply_group)
  ultimately show ?thesis unfolding applied_is_map computed_state_applied by (rule conjI)
qed


definition sample_rows :: "policy_node list" where
  "sample_rows = [\<lparr>node_id = 3, node_hostname = ''c'', node_plane = Execution, managed_by_policy = True\<rparr>,
     \<lparr>node_id = 1, node_hostname = ''a'', node_plane = Control, managed_by_policy = True\<rparr>,
     \<lparr>node_id = 2, node_hostname = ''b'', node_plane = Hybrid, managed_by_policy = True\<rparr>,
     \<lparr>node_id = 4, node_hostname = ''d'', node_plane = Execution, managed_by_policy = False\<rparr>]"

definition sample_group :: "int \<Rightarrow> string \<Rightarrow> string list \<Rightarrow> int \<Rightarrow> int \<Rightarrow> int list \<Rightarrow> policy_group" where
  "sample_group k n hs mn pct ins = \<lparr>ig_id = k, ig_name = n, policy_instance_list = hs, policy_instance_minimum = mn,
     policy_instance_percentage = pct, ig_container = False, ig_instances = ins\<rparr>"

definition sample_groups :: "policy_group list" where
  "sample_groups = [sample_group 1 ''controlplane'' [] 0 100 [], sample_group 2 ''default'' [''d''] 0 60 [1],
     sample_group 3 ''gpu'' [] 1 0 []]"

lemma sample_state:
  "computed_state ''controlplane'' sample_rows sample_groups =
     \<lparr>group_instances = [(1, [1, 2]), (2, [4, 3]), (3, [2])], node_groups = [(2, [3, 1]), (1, [1]), (3, [2])]\<rparr>"
  by code_simp

lemma policy_sample_run:
  "apply_cluster_membership_policies ''controlplane'' sample_rows sample_groups =
     [sample_group 1 ''controlplane'' [] 0 100 [1, 2], sample_group 2 ''default'' [''d''] 0 60 [4, 3],
      sample_group 3 ''gpu'' [] 1 0 [2]]"
  unfolding applied_is_map sample_state by code_simp

lemma policies_met_witness:
  "let g = sample_group 2 ''default'' [''d''] 0 60 [4, 3]
   in g \<in> set (apply_cluster_membership_policies ''controlplane'' sample_rows sample_groups) \<and>
      listed_by sample_rows g \<subseteq> {4, 3} \<and> {4, 3} \<subseteq> listed_by sample_rows g \<union> takeable ''controlplane'' sample_rows g"
proof -
  let ?g = "sample_group 2 ''default'' [''d''] 0 60 [4, 3]"
  have g: "?g \<in> set (apply_cluster_membership_policies ''controlplane'' sample_rows sample_groups)"
    unfolding policy_sample_run by simp
  have "distinct (map node_id sample_rows)" "distinct (map node_hostname sample_rows)" "distinct (map ig_id sample_groups)"
    "\<forall>g \<in> set sample_groups. distinct (policy_instance_list g)" "\<not> ig_container ?g" by code_simp+
  from policies_met [OF this(1-4) g this(5)] g show ?thesis by (simp add: sample_group_def Let_def)
qed

end
