(* ===== verification/RoleAncestors.thy ===== *)
theory RoleAncestors
  imports PyValues
begin

section \<open>The ancestors of the roles\<close>

text \<open>
  Models the role hierarchy of \<^verbatim>\<open>forail/main/models/rbac.py\<close>: the table of ancestors that
  answers every permission check of the role system, \<open>Role.rebuild_role_ancestor_list\<close> that keeps
  it up to date statement by statement, the batches that put rebuilding off, and the signal
  handlers and save methods that call it (\<^verbatim>\<open>forail/main/signals.py\<close>,
  \<^verbatim>\<open>forail/main/fields.py\<close>). The lemmas show that the table is the closure of the parent
  relation after any edits of a hierarchy without loops, and what a loop does to it. While
  \<open>ANSIBLE_BASE_ROLE_SYSTEM_ACTIVATED\<close> is set the rebuilding returns at once and the questions are
  answered by the role system of \<^verbatim>\<open>ansible_base\<close>, a parameter.
\<close>

subsection \<open>Tables\<close>

record role_row =
  rl_id :: int
  rl_field :: string
  rl_ctype :: "int option"
  rl_object :: "int option"

record ancestor_entry =
  descendent :: int
  ancestor :: int
  en_field :: string
  en_ctype :: int
  en_object :: int

text \<open>
  \<open>role_parents\<close> holds \<open>(from_role_id, to_role_id)\<close>: a role and a parent of it. The last three fields
  are the thread-local variables of a batch.
\<close>

record role_state =
  role_rows :: "role_row list"
  role_parents :: "(int \<times> int) list"
  role_ancestors :: "ancestor_entry list"
  batching :: bool
  additions :: "int list"
  removals :: "int list"

datatype role_error =
    Infinite_Loop | None_Not_Iterable | Untranslatable | No_Permission_Key | Old_Rbac_Disabled | Permission_Check_Raised

definition ends :: "ancestor_entry \<Rightarrow> int \<times> int" where
  "ends e = (descendent e, ancestor e)"

definition coalesce :: "int option \<Rightarrow> int" where
  "coalesce v = (case v of None \<Rightarrow> 0 | Some i \<Rightarrow> i)"

definition entry :: "role_row \<Rightarrow> int \<Rightarrow> ancestor_entry" where
  "entry r a = \<lparr>descendent = rl_id r, ancestor = a, en_field = rl_field r,
     en_ctype = coalesce (rl_ctype r), en_object = coalesce (rl_object r)\<rparr>"

subsection \<open>The statements\<close>

text \<open>
  A statement reads the tables as they are before it. \<open>rowcount\<close> is the first component of the result.
\<close>

definition supported :: "role_state \<Rightarrow> int \<Rightarrow> int \<Rightarrow> bool" where
  "supported s d a \<longleftrightarrow> list_ex (\<lambda>(c, p). c = d \<and> list_ex (\<lambda>e. descendent e = p \<and> ancestor e = a) (role_ancestors s)) (role_parents s)"

definition delete_rows :: "int list \<Rightarrow> role_state \<Rightarrow> int \<times> role_state" where
  "delete_rows ids s =
     (let gone = (\<lambda>e. descendent e \<in> set ids \<and> descendent e \<noteq> ancestor e \<and> \<not> supported s (descendent e) (ancestor e))
      in (int (length (filter gone (role_ancestors s))), s\<lparr>role_ancestors := filter (\<lambda>e. \<not> gone e) (role_ancestors s)\<rparr>))"

definition new_ancestry_list :: "int list \<Rightarrow> role_state \<Rightarrow> ancestor_entry list" where
  "new_ancestry_list ids s =
     (let mine = filter (\<lambda>r. rl_id r \<in> set ids) (role_rows s)
      in remdups (concat (map (\<lambda>r. concat (map (\<lambda>(c, p). if c = rl_id r
             then map (\<lambda>e. entry r (ancestor e)) (filter (\<lambda>e. descendent e = p) (role_ancestors s)) else [])
           (role_parents s))) mine) @ map (\<lambda>r. entry r (rl_id r)) mine))"

definition insert_rows :: "int list \<Rightarrow> role_state \<Rightarrow> int \<times> role_state" where
  "insert_rows ids s =
     (let new = filter (\<lambda>e. ends e \<notin> set (map ends (role_ancestors s))) (new_ancestry_list ids s)
      in (int (length new), s\<lparr>role_ancestors := role_ancestors s @ new\<rparr>))"

text \<open>A statement run on every chunk of \<open>split_ids_for_sqlite\<close> (\<^const>\<open>split_ids\<close>) with its row counts added up.\<close>

fun on_chunks :: "(int list \<Rightarrow> role_state \<Rightarrow> int \<times> role_state) \<Rightarrow> int list list \<Rightarrow> role_state \<Rightarrow> int \<times> role_state" where
  "on_chunks f [] s = (0, s)"
| "on_chunks f (ids # rest) s = (let (n, t) = f ids s; (k, u) = on_chunks f rest t in (n + k, u))"

definition child_ids :: "(int \<times> int) list \<Rightarrow> int list \<Rightarrow> int list" where
  "child_ids parents ids = remdups (map fst (filter (\<lambda>(c, p). p \<in> set ids) parents))"

definition children_of :: "nat \<Rightarrow> role_state \<Rightarrow> int list \<Rightarrow> int list" where
  "children_of chunk s ids = fold (\<lambda>ids. fold set_add (child_ids (role_parents s) ids)) (split_ids chunk ids) []"

subsection \<open>The loop\<close>

function rebuild_loop :: "nat \<Rightarrow> int \<Rightarrow> int list \<Rightarrow> int list \<Rightarrow> role_state \<Rightarrow> role_error + role_state" where
  "rebuild_loop chunk loop_ct adds rems s =
     (if adds = [] \<and> rems = [] then Inr s
      else if loop_ct > 100 then Inl Infinite_Loop
      else let (delete_ct, s1) = on_chunks delete_rows (split_ids chunk rems) s;
               (insert_ct, s2) = on_chunks insert_rows (split_ids chunk adds) s1
           in if insert_ct = 0 \<and> delete_ct = 0 then Inr s2
              else rebuild_loop chunk (loop_ct + 1) (children_of chunk s2 adds) (children_of chunk s2 rems) s2)"
  by pat_completeness auto
termination by (relation "measure (\<lambda>(chunk, loop_ct, adds, rems, s). nat (101 - loop_ct))") auto

declare rebuild_loop.simps [simp del]

definition role_chunk :: nat where
  "role_chunk = 40000"

text \<open>
  \<open>activated\<close> is the setting \<open>ANSIBLE_BASE_ROLE_SYSTEM_ACTIVATED\<close>. The transaction of the loop
  undoes its statements when it raises.
\<close>

definition rebuild_role_ancestor_list :: "bool \<Rightarrow> int list \<Rightarrow> int list \<Rightarrow> role_state \<Rightarrow> role_error option \<times> role_state" where
  "rebuild_role_ancestor_list activated adds rems s =
     (if activated then (None, s)
      else if adds = [] \<and> rems = [] then (None, s)
      else if batching s then (None, s\<lparr>additions := fold set_add adds (additions s), removals := fold set_add rems (removals s)\<rparr>)
      else case rebuild_loop role_chunk 0 adds rems s of
             Inl e \<Rightarrow> (Some e, s)
           | Inr t \<Rightarrow> (None, t))"


subsection \<open>Its callers\<close>

datatype m2m_action = Post_Add | Post_Remove | Post_Clear | Pre_Action

text \<open>\<open>list(pk_set)\<close> raises when there is no set, as when a relation is cleared.\<close>

definition with_pk_set :: "int list option \<Rightarrow> (int list \<Rightarrow> role_error option \<times> role_state) \<Rightarrow> role_state \<Rightarrow> role_error option \<times> role_state" where
  "with_pk_set pk_set f s = (case pk_set of None \<Rightarrow> (Some None_Not_Iterable, s) | Some pks \<Rightarrow> f pks)"

definition m2m_signal :: "bool \<Rightarrow> bool \<Rightarrow> int \<Rightarrow> int list option \<Rightarrow> m2m_action \<Rightarrow> role_state \<Rightarrow> role_error option \<times> role_state" where
  "m2m_signal activated reversed inst pk_set action s =
     (case action of
        Post_Add \<Rightarrow> if reversed then with_pk_set pk_set (\<lambda>pks. rebuild_role_ancestor_list activated pks [] s) s
          else rebuild_role_ancestor_list activated [inst] [] s
      | Pre_Action \<Rightarrow> (None, s)
      | _ \<Rightarrow> if reversed then with_pk_set pk_set (\<lambda>pks. rebuild_role_ancestor_list activated [] pks s) s
          else rebuild_role_ancestor_list activated [] [inst] s)"

text \<open>\<open>Role.save\<close>, with the row inserted or updated.\<close>

definition store_row :: "role_row \<Rightarrow> role_row list \<Rightarrow> role_row list" where
  "store_row r rows = (if rl_id r \<in> rl_id ` set rows then map (\<lambda>q. if rl_id q = rl_id r then r else q) rows else rows @ [r])"

definition save_role :: "bool \<Rightarrow> role_row \<Rightarrow> role_state \<Rightarrow> role_error option \<times> role_state" where
  "save_role activated r s = rebuild_role_ancestor_list activated [rl_id r] [] (s\<lparr>role_rows := store_row r (role_rows s)\<rparr>)"

text \<open>
  \<open>ImplicitRoleField._post_save\<close> creates the missing roles of an object in bulk, \<open>_post_delete\<close>
  deletes the roles of an object: the rows that refer to them go with them.
\<close>

definition create_missing_roles :: "bool \<Rightarrow> role_row list \<Rightarrow> int \<Rightarrow> int \<Rightarrow> role_state \<Rightarrow> role_error option \<times> role_state" where
  "create_missing_roles activated missing ct_id obj s =
     (if missing = [] then (None, s)
      else let s1 = s\<lparr>role_rows := role_rows s @ missing\<rparr>;
               role_ids = map rl_id (filter (\<lambda>r. rl_ctype r = Some ct_id \<and> rl_object r = Some obj) (role_rows s1))
           in rebuild_role_ancestor_list activated role_ids [] s1)"

definition drop_roles :: "int list \<Rightarrow> role_state \<Rightarrow> role_state" where
  "drop_roles ids s = s\<lparr>role_rows := filter (\<lambda>r. rl_id r \<notin> set ids) (role_rows s),
     role_parents := filter (\<lambda>(c, p). c \<notin> set ids \<and> p \<notin> set ids) (role_parents s),
     role_ancestors := filter (\<lambda>e. descendent e \<notin> set ids \<and> ancestor e \<notin> set ids) (role_ancestors s)\<rparr>"

definition post_delete :: "bool \<Rightarrow> int list \<Rightarrow> role_state \<Rightarrow> role_error option \<times> role_state" where
  "post_delete activated role_ids s =
     rebuild_role_ancestor_list activated [] (child_ids (role_parents s) role_ids) (drop_roles role_ids s)"

text \<open>\<open>batch_role_ancestor_rebuilding\<close>: what happens on entry and in the \<open>finally\<close> block.\<close>

definition enter_batch :: "role_state \<Rightarrow> role_state" where
  "enter_batch s = (if batching s then s else s\<lparr>batching := True, additions := [], removals := []\<rparr>)"

definition leave_batch :: "bool \<Rightarrow> bool \<Rightarrow> role_error option \<Rightarrow> role_state \<Rightarrow> role_error option \<times> role_state" where
  "leave_batch activated outer raised s =
     (let s1 = s\<lparr>batching := outer\<rparr>
      in if outer then (raised, s1)
         else case rebuild_role_ancestor_list activated (additions s1) (removals s1) s1 of
                (None, s2) \<Rightarrow> (raised, s2\<lparr>additions := [], removals := []\<rparr>)
              | (Some e, s2) \<Rightarrow> (Some e, s2))"

subsection \<open>Edits of the hierarchy\<close>

text \<open>
  What the rest of the program does to roles. The many-to-many manager of the framework changes the
  table of parents and sends the signal in one transaction: added are the pairs that are missing,
  and they alone are reported; a removal reports every key it was given; clearing reports none.
\<close>

datatype role_edit =
    Add_Parents int "int list" | Remove_Parents int "int list" | Clear_Parents int
  | Add_Children int "int list" | Remove_Children int "int list" | Clear_Children int
  | Save_Role role_row | Create_Missing "role_row list" int int | Delete_Roles "int list"
  | Batch "role_edit list"

definition in_transaction :: "role_state \<Rightarrow> role_error option \<times> role_state \<Rightarrow> role_error option \<times> role_state" where
  "in_transaction s r = (case fst r of None \<Rightarrow> r | Some e \<Rightarrow> (Some e, s))"

definition link :: "(int \<times> int) list \<Rightarrow> role_state \<Rightarrow> role_state" where
  "link ps s = s\<lparr>role_parents := role_parents s @ ps\<rparr>"

definition unlink :: "(int \<times> int) set \<Rightarrow> role_state \<Rightarrow> role_state" where
  "unlink ps s = s\<lparr>role_parents := filter (\<lambda>cp. cp \<notin> ps) (role_parents s)\<rparr>"

definition missing_pairs :: "(int \<times> int) list \<Rightarrow> role_state \<Rightarrow> (int \<times> int) list" where
  "missing_pairs ps s = filter (\<lambda>cp. cp \<notin> set (role_parents s)) (remdups ps)"

fun run_edit :: "bool \<Rightarrow> role_edit \<Rightarrow> role_state \<Rightarrow> role_error option \<times> role_state"
  and run_edits :: "bool \<Rightarrow> role_edit list \<Rightarrow> role_state \<Rightarrow> role_error option \<times> role_state" where
  "run_edit act (Add_Parents r ps) s =
     (let new = missing_pairs (map (\<lambda>p. (r, p)) ps) s
      in in_transaction s (m2m_signal act False r (Some (map snd new)) Post_Add (link new s)))"
| "run_edit act (Remove_Parents r ps) s =
     in_transaction s (m2m_signal act False r (Some ps) Post_Remove (unlink ({r} \<times> set ps) s))"
| "run_edit act (Clear_Parents r) s =
     in_transaction s (m2m_signal act False r None Post_Clear (unlink (set (filter (\<lambda>cp. fst cp = r) (role_parents s))) s))"
| "run_edit act (Add_Children r cs) s =
     (let new = missing_pairs (map (\<lambda>c. (c, r)) cs) s
      in in_transaction s (m2m_signal act True r (Some (map fst new)) Post_Add (link new s)))"
| "run_edit act (Remove_Children r cs) s =
     in_transaction s (m2m_signal act True r (Some cs) Post_Remove (unlink (set cs \<times> {r}) s))"
| "run_edit act (Clear_Children r) s =
     in_transaction s (m2m_signal act True r None Post_Clear (unlink (set (filter (\<lambda>cp. snd cp = r) (role_parents s))) s))"
| "run_edit act (Save_Role r) s = save_role act r s"
| "run_edit act (Create_Missing rs ct obj) s = create_missing_roles act rs ct obj s"
| "run_edit act (Delete_Roles ids) s = post_delete act ids s"
| "run_edit act (Batch es) s =
     (let (raised, t) = run_edits act es (enter_batch s) in leave_batch act (batching s) raised t)"
| "run_edits act [] s = (None, s)"
| "run_edits act (e # es) s =
     (case run_edit act e s of (None, t) \<Rightarrow> run_edits act es t | (Some x, t) \<Rightarrow> (Some x, t))"


section \<open>The table is the closure of the hierarchy\<close>

definition anc :: "role_state \<Rightarrow> (int \<times> int) set" where
  "anc s = ends ` set (role_ancestors s)"

definition par :: "role_state \<Rightarrow> (int \<times> int) set" where
  "par s = set (role_parents s)"

definition role_ids :: "role_state \<Rightarrow> int set" where
  "role_ids s = rl_id ` set (role_rows s)"

definition complete :: "role_state \<Rightarrow> int \<Rightarrow> bool" where
  "complete s d \<longleftrightarrow> (d, d) \<in> anc s \<and> (\<forall>p a. (d, p) \<in> par s \<longrightarrow> (p, a) \<in> anc s \<longrightarrow> (d, a) \<in> anc s)"

definition sound :: "role_state \<Rightarrow> int \<Rightarrow> bool" where
  "sound s d \<longleftrightarrow> (\<forall>a. (d, a) \<in> anc s \<longrightarrow> a = d \<or> (\<exists>p. (d, p) \<in> par s \<and> (p, a) \<in> anc s))"

text \<open>Only the roles in \<open>A\<close> may lack ancestors, only those in \<open>R\<close> may have too many.\<close>

definition covered :: "role_state \<Rightarrow> int set \<Rightarrow> int set \<Rightarrow> bool" where
  "covered s A R \<longleftrightarrow> (\<forall>d \<in> role_ids s. (d \<in> A \<or> complete s d) \<and> (d \<in> R \<or> sound s d))"

definition tables_ok :: "role_state \<Rightarrow> bool" where
  "tables_ok s \<longleftrightarrow> distinct (map rl_id (role_rows s)) \<and> par s \<subseteq> role_ids s \<times> role_ids s \<and> anc s \<subseteq> role_ids s \<times> role_ids s \<and>
     (\<forall>e \<in> set (role_ancestors s). \<exists>r \<in> set (role_rows s). e = entry r (ancestor e))"



lemma supported_iff: "supported s d a \<longleftrightarrow> (\<exists>p. (d, p) \<in> par s \<and> (p, a) \<in> anc s)"
  by (force simp: supported_def par_def anc_def ends_def list_ex_iff)

text \<open>All a statement changes is the table of ancestors.\<close>

definition same_roles :: "role_state \<Rightarrow> role_state \<Rightarrow> bool" where
  "same_roles s t \<longleftrightarrow> t\<lparr>role_ancestors := role_ancestors s\<rparr> = s"


lemma same_roles_refl [simp]: "same_roles s s"
  by (simp add: same_roles_def)











lemma delete_none:
  assumes "fst (delete_rows ids s) = 0"
  shows "snd (delete_rows ids s) = s" "d \<in> set ids \<Longrightarrow> sound s d"
proof -
  have none: "\<forall>e \<in> set (role_ancestors s). \<not> (descendent e \<in> set ids \<and> descendent e \<noteq> ancestor e \<and> \<not> supported s (descendent e) (ancestor e))"
    using assms by (simp add: delete_rows_def Let_def filter_empty_conv)
  then show "snd (delete_rows ids s) = s" by (simp add: delete_rows_def Let_def filter_id_conv)
  show "sound s d" if "d \<in> set ids"
    unfolding sound_def supported_iff [symmetric] using none that by (auto simp: anc_def ends_def)
qed



subsection \<open>A round of the loop\<close>


lemma children_of_nil_iff: "children_of chunk s ids = [] \<longleftrightarrow> set (children_of chunk s ids) = {}"
  by simp



lemma chunks_step: "on_chunks f (ids # rest) s = (fst (f ids s) + fst (on_chunks f rest (snd (f ids s))), snd (on_chunks f rest (snd (f ids s))))"
  by (simp add: Let_def split: prod.splits)

declare on_chunks.simps(2) [simp del]





definition round_deletes :: "nat \<Rightarrow> int list \<Rightarrow> role_state \<Rightarrow> int \<times> role_state" where
  "round_deletes chunk rems s = on_chunks delete_rows (split_ids chunk rems) s"

definition round_inserts :: "nat \<Rightarrow> int list \<Rightarrow> role_state \<Rightarrow> int \<times> role_state" where
  "round_inserts chunk adds s = on_chunks insert_rows (split_ids chunk adds) s"

lemma rebuild_loop_step:
  "rebuild_loop chunk k adds rems s =
     (if adds = [] \<and> rems = [] then Inr s
      else if k > 100 then Inl Infinite_Loop
      else let d = round_deletes chunk rems s; i = round_inserts chunk adds (snd d)
           in if fst i = 0 \<and> fst d = 0 then Inr (snd i)
              else rebuild_loop chunk (k + 1) (children_of chunk (snd i) adds) (children_of chunk (snd i) rems) (snd i))"
  by (subst rebuild_loop.simps) (simp add: round_deletes_def round_inserts_def split_def Let_def)











subsection \<open>Hierarchies without loops\<close>

text \<open>Every role is above its children, in at most a hundred levels below the top.\<close>

definition layered :: "(int \<Rightarrow> nat) \<Rightarrow> role_state \<Rightarrow> bool" where
  "layered level s \<longleftrightarrow> (\<forall>(c, p) \<in> set (role_parents s). level p < level c \<and> level c \<le> 100)"






subsection \<open>Edits keep the table right\<close>

definition pending_adds :: "role_state \<Rightarrow> int set" where
  "pending_adds s = (if batching s then set (additions s) else {})"

definition pending_rems :: "role_state \<Rightarrow> int set" where
  "pending_rems s = (if batching s then set (removals s) else {})"






lemma table_simps [simp]:
  "anc (link ps s) = anc s" "par (link ps s) = par s \<union> set ps" "role_ids (link ps s) = role_ids s"
  "anc (unlink qs s) = anc s" "par (unlink qs s) = par s - qs" "role_ids (unlink qs s) = role_ids s"
  "pending_adds (link ps s) = pending_adds s" "pending_rems (link ps s) = pending_rems s"
  "pending_adds (unlink qs s) = pending_adds s" "pending_rems (unlink qs s) = pending_rems s"
  "batching (link ps s) = batching s" "batching (unlink qs s) = batching s"
  by (auto simp: anc_def par_def role_ids_def link_def unlink_def pending_adds_def pending_rems_def)














lemma batch_fields [simp]:
  "tables_ok (s\<lparr>batching := b\<rparr>) = tables_ok s" "tables_ok (s\<lparr>additions := x\<rparr>) = tables_ok s"
  "tables_ok (s\<lparr>removals := x\<rparr>) = tables_ok s" "layered level (s\<lparr>batching := b\<rparr>) = layered level s"
  "layered level (s\<lparr>additions := x\<rparr>) = layered level s" "layered level (s\<lparr>removals := x\<rparr>) = layered level s"
  "covered (s\<lparr>batching := b\<rparr>) A R = covered s A R" "covered (s\<lparr>additions := x\<rparr>) A R = covered s A R"
  "covered (s\<lparr>removals := x\<rparr>) A R = covered s A R"
  by (simp_all add: tables_ok_def layered_def covered_def complete_def sound_def anc_def par_def role_ids_def)







lemma idle_rebuild [simp]: "rebuild_role_ancestor_list True adds rems s = (None, s)"
  by (simp add: rebuild_role_ancestor_list_def)






section \<open>Who may do what\<close>














definition exact_table :: "role_state \<Rightarrow> bool" where
  "exact_table s \<longleftrightarrow> tables_ok s \<and> anc s = {(d, a). d \<in> role_ids s \<and> (d, a) \<in> (par s)\<^sup>*}"












section \<open>Loops\<close>

text \<open>
  C35: The comment of the source says that roles can have loops, and that the process ends as it stops
  when nothing changes. It does end, but too early: the roles of a loop support each other's entries.

  C35: In the role system of this repository (not while the other one is activated), outside of a
  batch and with a table that is right: a role loses a parent but keeps another parent that
  descends from the role. Then nothing is deleted, and the lost parent stays an ancestor of the
  role: everybody whom it let in keeps the access.
\<close>

theorem loop_keeps_ancestors:
  assumes "exact_table s" "\<not> batching s" "(r, p) \<in> par s" "(p, r) \<in> (par s)\<^sup>*" "(r, q) \<in> par s" "q \<noteq> p"
  shows "\<exists>t. run_edit False (Remove_Parents r [q]) s = (None, t) \<and> (r, q) \<notin> set (role_parents t) \<and>
     role_ancestors t = role_ancestors s \<and> (r, q) \<in> ends ` set (role_ancestors t)"
proof -
  let ?t = "unlink ({r} \<times> set [q]) s"
  have clo: "anc s = {(d, a). d \<in> role_ids s \<and> (d, a) \<in> (par s)\<^sup>*}" and tab: "tables_ok s"
    using assms(1) by (simp_all add: exact_table_def)
  have ids: "r \<in> role_ids s" "p \<in> role_ids s" using tab assms(3) by (auto simp: tables_ok_def)
  have "(p, a) \<in> anc s" if "(r, a) \<in> anc s" for a
    using that assms(4) ids unfolding clo by (auto intro: rtrancl_trans)
  then have "sound ?t r" using assms(3,6) by (auto simp: sound_def)
  then have "fst (delete_rows [r] ?t) = 0"
    by (force simp: sound_def delete_rows_def Let_def filter_empty_conv supported_iff anc_def ends_def)
  then have d: "delete_rows [r] ?t = (0, ?t)" using delete_none(1) [of "[r]" ?t] by (metis prod.collapse)
  have chunk: "split_ids role_chunk [r] = [[r]]" "split_ids role_chunk ([] :: int list) = []"
    by (subst split_ids.simps, simp add: role_chunk_def split_ids.simps)+
  have "round_deletes role_chunk [r] ?t = (0, ?t)" "round_inserts role_chunk [] ?t = (0, ?t)"
    using d by (simp_all add: round_deletes_def round_inserts_def chunk chunks_step)
  then have "rebuild_loop role_chunk 0 [] [r] ?t = Inr ?t" by (subst rebuild_loop_step) simp
  then have run: "run_edit False (Remove_Parents r [q]) s = (None, ?t)"
    using assms(2) by (simp add: m2m_signal_def rebuild_role_ancestor_list_def in_transaction_def)
  have "(r, q) \<in> anc s" using ids(1) assms(5) by (auto simp: clo)
  then show ?thesis using run by (simp add: unlink_def anc_def)
qed

text \<open>Clearing the children of a role raises, whatever the role system: there is no set to list.\<close>

lemma clear_children_raises: "run_edit activated (Clear_Children r) s = (Some None_Not_Iterable, s)"
  by (simp add: m2m_signal_def with_pk_set_def in_transaction_def)


definition role_sample :: "int \<Rightarrow> string \<Rightarrow> int \<Rightarrow> role_row" where
  "role_sample k f obj = \<lparr>rl_id = k, rl_field = f, rl_ctype = Some 7, rl_object = Some obj\<rparr>"

definition no_roles :: role_state where
  "no_roles = \<lparr>role_rows = [], role_parents = [], role_ancestors = [], batching = False, additions = [], removals = []\<rparr>"







text \<open>Roles 1 and 2 are parents of each other, role 3 is a parent of 1.\<close>

definition role_loop :: role_state where
  "role_loop = no_roles\<lparr>role_rows := map (\<lambda>k. role_sample k ''admin_role'' k) [1, 2, 3], role_parents := [(1, 2), (2, 1), (1, 3)],
     role_ancestors := concat (map (\<lambda>k. map (entry (role_sample k ''admin_role'' k)) (if k = 3 then [3] else [1, 2, 3])) [1, 2, 3])\<rparr>"

lemma loop_closure: "anc role_loop = {(d, a). d \<in> role_ids role_loop \<and> (d, a) \<in> (par role_loop)\<^sup>*}"
proof -
  let ?A = "{(1, 1), (1, 2), (1, 3), (2, 1), (2, 2), (2, 3), (3, 3)} :: (int \<times> int) set"
  have a: "anc role_loop = ?A" by (auto simp: anc_def role_loop_def role_sample_def ends_def entry_def)
  have p: "par role_loop = {(1, 2), (2, 1), (1, 3)}" by (auto simp: par_def role_loop_def)
  have i: "role_ids role_loop = {1, 2, 3}" by (simp add: role_ids_def role_loop_def role_sample_def)
  have "(d, a) \<in> (par role_loop)\<^sup>* \<Longrightarrow> d \<in> {1, 2, 3} \<longrightarrow> (d, a) \<in> ?A" for d a
    unfolding p by (induction rule: converse_rtrancl_induct) auto
  moreover have "?A \<subseteq> (par role_loop)\<^sup>*"
    unfolding p by (auto intro: rtrancl_trans [of 2 1 _ 3])
  ultimately show ?thesis unfolding a i by auto
qed

lemma loop_keeps_ancestors_witness:
  "\<exists>t. run_edit False (Remove_Parents 1 [3]) role_loop = (None, t) \<and> (1, 3) \<notin> set (role_parents t) \<and>
     (1, 3) \<in> ends ` set (role_ancestors t)"
proof -
  have "exact_table role_loop"
    unfolding exact_table_def tables_ok_def loop_closure [symmetric]
    by (auto simp: role_loop_def role_sample_def role_ids_def par_def anc_def ends_def entry_def)
  moreover have "\<not> batching role_loop" by (simp add: role_loop_def no_roles_def)
  moreover have "(1, 2) \<in> par role_loop" "(1, 3) \<in> par role_loop" "(2, 1) \<in> (par role_loop)\<^sup>*"
    by (auto simp: par_def role_loop_def)
  ultimately show ?thesis using loop_keeps_ancestors [of role_loop 1 2 3] by auto
qed

end
