(* ===== verification/MemInventory.thy ===== *)
theory MemInventory
  imports PyValues
begin

section \<open>Inventories in memory\<close>

text \<open>
  Models \<^verbatim>\<open>forail/main/utils/mem_inventory.py\<close>: the groups and hosts that the import of an
  inventory builds from the output of \<open>ansible-inventory\<close>, and the way back to such output. Groups
  and hosts are objects there, of which every name has one: they are entries of dictionaries here,
  and a reference to one is its name, \<open>all\<close> for the group above all others, which is in no
  dictionary. The regular expressions that the import always passes are given as the predicates they decide. The
  lemmas show which groups, hosts and relations a reading creates, that references stay
  intact, and that writing and reading are inverse.
\<close>

subsection \<open>Objects\<close>

record mem_group =
  children :: "string list"
  hosts :: "string list"
  parents :: "string list"
  variables :: py_dict

record mem_host =
  host_vars :: py_dict
  instance_id :: "string option"

record mem_inventory =
  all_group :: mem_group
  all_groups :: "(string, mem_group) pydict"
  all_hosts :: "(string, mem_host) pydict"

record mem_filters =
  group_filter :: "string \<Rightarrow> bool"
  host_filter :: "string \<Rightarrow> bool"

datatype mem_error = Assertion_Error | Type_Error | Key_Error | Attribute_Error

definition empty_group :: mem_group where
  "empty_group = \<lparr>children = [], hosts = [], parents = [], variables = []\<rparr>"

definition empty_inventory :: mem_inventory where
  "empty_inventory = \<lparr>all_group = empty_group, all_groups = [], all_hosts = []\<rparr>"

definition group_named :: "mem_inventory \<Rightarrow> string \<Rightarrow> mem_group" where
  "group_named iv g = (if g = ''all'' then all_group iv else dict_get_default (all_groups iv) g empty_group)"

definition update_group :: "string \<Rightarrow> (mem_group \<Rightarrow> mem_group) \<Rightarrow> mem_inventory \<Rightarrow> mem_inventory" where
  "update_group g f iv =
     (if g = ''all'' then iv\<lparr>all_group := f (all_group iv)\<rparr>
      else iv\<lparr>all_groups := dict_set g (f (group_named iv g)) (all_groups iv)\<rparr>)"

definition update_host :: "string \<Rightarrow> (mem_host \<Rightarrow> mem_host) \<Rightarrow> mem_inventory \<Rightarrow> mem_inventory" where
  "update_host h f iv =
     (case dict_get (all_hosts iv) h of None \<Rightarrow> iv | Some m \<Rightarrow> iv\<lparr>all_hosts := dict_set h (f m) (all_hosts iv)\<rparr>)"

text \<open>\<open>d.update(e)\<close>\<close>

definition dict_merge :: "('k, 'v) pydict \<Rightarrow> ('k, 'v) pydict \<Rightarrow> ('k, 'v) pydict" where
  "dict_merge d e = fold (\<lambda>(k, v). dict_set k v) e d"

definition add_child_group :: "string \<Rightarrow> string \<Rightarrow> mem_inventory \<Rightarrow> mem_error + mem_inventory" where
  "add_child_group p c iv =
     (if c = ''all'' then Inl Assertion_Error
      else Inr (update_group c (\<lambda>g. g\<lparr>parents := set_add p (parents g)\<rparr>)
                 (update_group p (\<lambda>g. g\<lparr>children := set_add c (children g)\<rparr>) iv)))"

definition add_host :: "string \<Rightarrow> string \<Rightarrow> mem_inventory \<Rightarrow> mem_inventory" where
  "add_host g h iv = update_group g (\<lambda>m. m\<lparr>hosts := set_add h (hosts m)\<rparr>) iv"

subsection \<open>Names\<close>

text \<open>
  What \<open>ipv6_port_re\<close> matches: an address in brackets, a colon, digits, possibly a newline at the end.
\<close>

definition hex_or_colon :: "char \<Rightarrow> bool" where
  "hex_or_colon c \<longleftrightarrow> is_decimal c \<or> c \<in> set ''abcdefABCDEF:''"

definition ipv6_port :: "string \<Rightarrow> (string \<times> string) option" where
  "ipv6_port s =
     (case s of [] \<Rightarrow> None
      | b # rest \<Rightarrow>
          let h = takeWhile hex_or_colon rest; t = dropWhile hex_or_colon rest; d = drop 2 t;
              ds = (if d \<noteq> [] \<and> last d = newline then butlast d else d)
          in if b = CHR ''['' \<and> length h \<ge> 3 \<and> starts_with t '']:'' \<and> ds \<noteq> [] \<and> list_all is_decimal ds
             then Some (h, ds) else None)"

definition host_and_port :: "string \<Rightarrow> string \<times> int option" where
  "host_and_port s =
     (case ipv6_port s of
        Some (h, p) \<Rightarrow> (h, read_int p)
      | None \<Rightarrow>
          if length (filter (\<lambda>c. c = CHR '':'') s) = 1
          then (fst (split_once CHR '':'' s), read_int (snd (split_once CHR '':'' s)))
          else (s, None))"

definition create_host :: "string \<Rightarrow> int option \<Rightarrow> mem_inventory \<Rightarrow> mem_error + mem_inventory" where
  "create_host name port iv =
     (if name = [] then Inl Assertion_Error
      else Inr (iv\<lparr>all_hosts := dict_set name
        \<lparr>host_vars = (case port of None \<Rightarrow> [] | Some p \<Rightarrow> if p = 0 then [] else [(''ansible_port'', JInt p)]), instance_id = None\<rparr>
        (all_hosts iv)\<rparr>))"

text \<open>\<open>None\<close> as the first component: the name is filtered out.\<close>

definition get_host :: "mem_filters \<Rightarrow> json \<Rightarrow> mem_inventory \<Rightarrow> mem_error + (string option \<times> mem_inventory)" where
  "get_host fl v iv =
     (case v of
        JStr s \<Rightarrow>
          let (name, port) = host_and_port s
          in if \<not> host_filter fl name then Inr (None, iv)
             else if name \<in> set (dict_keys (all_hosts iv)) then Inr (Some name, iv)
             else then_ok (create_host name port iv) (\<lambda>iv1. Inr (Some name, iv1))
      | _ \<Rightarrow> Inl Type_Error)"

definition create_group :: "string \<Rightarrow> mem_inventory \<Rightarrow> mem_error + mem_inventory" where
  "create_group name iv =
     (if name = [] then Inl Assertion_Error else Inr (iv\<lparr>all_groups := dict_set name empty_group (all_groups iv)\<rparr>))"

definition get_group :: "mem_filters \<Rightarrow> bool \<Rightarrow> json \<Rightarrow> mem_inventory \<Rightarrow> mem_error + (string option \<times> mem_inventory)" where
  "get_group fl child v iv =
     (case v of
        JStr name \<Rightarrow>
          if name \<in> set [''all'', ''ungrouped''] then Inr (Some ''all'', iv)
          else if \<not> group_filter fl name then Inr (None, iv)
          else if name \<in> set (dict_keys (all_groups iv)) then Inr (Some name, iv)
          else then_ok (create_group name iv) (\<lambda>iv1.
            then_ok (if child then Inr iv1 else add_child_group ''all'' name iv1) (\<lambda>iv2. Inr (Some name, iv2)))
      | _ \<Rightarrow> Inl Type_Error)"

subsection \<open>Reading\<close>

definition load_host_of :: "mem_filters \<Rightarrow> string \<Rightarrow> json \<Rightarrow> mem_inventory \<Rightarrow> mem_error + mem_inventory" where
  "load_host_of fl g v iv =
     then_ok (get_host fl v iv) (\<lambda>(h, iv1). case h of None \<Rightarrow> Inr iv1 | Some n \<Rightarrow> Inr (add_host g n iv1))"

definition load_host_vars :: "mem_filters \<Rightarrow> string \<Rightarrow> string \<times> json \<Rightarrow> mem_inventory \<Rightarrow> mem_error + mem_inventory" where
  "load_host_vars fl g kv iv =
     then_ok (get_host fl (JStr (fst kv)) iv) (\<lambda>(h, iv1). case h of None \<Rightarrow> Inr iv1
       | Some n \<Rightarrow> Inr (add_host g n (if is_dict (snd kv)
           then update_host n (\<lambda>m. m\<lparr>host_vars := dict_merge (host_vars m) (as_dict (snd kv))\<rparr>) iv1 else iv1)))"

definition load_hosts :: "mem_filters \<Rightarrow> string \<Rightarrow> json \<Rightarrow> mem_inventory \<Rightarrow> mem_error + mem_inventory" where
  "load_hosts fl g v iv =
     (case v of
        JDict d \<Rightarrow> fold_ok (load_host_vars fl g) d iv
      | JList hs \<Rightarrow> fold_ok (load_host_of fl g) hs iv
      | _ \<Rightarrow> Inr iv)"

definition load_child :: "mem_filters \<Rightarrow> string \<Rightarrow> json \<Rightarrow> mem_inventory \<Rightarrow> mem_error + mem_inventory" where
  "load_child fl g v iv =
     then_ok (get_group fl True v iv) (\<lambda>(c, iv1). case c of None \<Rightarrow> Inr iv1
       | Some n \<Rightarrow> if v = JStr ''ungrouped'' then Inr iv1 else add_child_group g n iv1)"

definition load_children :: "mem_filters \<Rightarrow> string \<Rightarrow> json \<Rightarrow> mem_inventory \<Rightarrow> mem_error + mem_inventory" where
  "load_children fl g v iv = (case v of JList cs \<Rightarrow> fold_ok (load_child fl g) cs iv | _ \<Rightarrow> Inr iv)"

definition load_vars :: "string \<Rightarrow> json \<Rightarrow> mem_inventory \<Rightarrow> mem_inventory" where
  "load_vars g v iv =
     (case v of JDict d \<Rightarrow> update_group g (\<lambda>m. m\<lparr>variables := dict_merge (variables m) d\<rparr>) iv | _ \<Rightarrow> iv)"

definition load_group :: "mem_filters \<Rightarrow> string \<times> json \<Rightarrow> mem_inventory \<Rightarrow> mem_error + mem_inventory" where
  "load_group fl kv iv =
     then_ok (get_group fl False (JStr (fst kv)) iv) (\<lambda>(g, iv1). case g of None \<Rightarrow> Inr iv1
       | Some n \<Rightarrow>
           then_ok (case snd kv of
               JDict d \<Rightarrow> then_ok (load_hosts fl n (dict_get_default d ''hosts'' (JDict [])) iv1) (\<lambda>iv2.
                 load_children fl n (dict_get_default d ''children'' (JList []))
                   (load_vars n (dict_get_default d ''vars'' (JDict [])) iv2))
             | JList hs \<Rightarrow> fold_ok (load_host_of fl n) hs iv1
             | _ \<Rightarrow> Inr iv1) (\<lambda>iv3.
           if fst kv \<in> set [''all'', ''ungrouped''] then Inr iv3 else add_child_group ''all'' n iv3))"

text \<open>The variables under \<open>_meta\<close> are merged into those of the hosts at the end.\<close>

definition merge_meta :: "py_dict \<Rightarrow> string \<Rightarrow> mem_host \<Rightarrow> mem_host" where
  "merge_meta hostvars h m =
     (case dict_get_default hostvars h (JDict []) of JDict d \<Rightarrow> m\<lparr>host_vars := dict_merge (host_vars m) d\<rparr> | _ \<Rightarrow> m)"

definition load_meta :: "json \<Rightarrow> mem_inventory \<Rightarrow> mem_error + mem_inventory" where
  "load_meta meta iv =
     (if \<not> py_true meta \<or> all_hosts iv = [] then Inr iv
      else case meta of
        JDict d \<Rightarrow> (case dict_get d ''hostvars'' of
            None \<Rightarrow> Inl Key_Error
          | Some (JDict hv) \<Rightarrow> Inr (iv\<lparr>all_hosts := map (\<lambda>(h, m). (h, merge_meta hv h m)) (all_hosts iv)\<rparr>)
          | Some _ \<Rightarrow> Inl Attribute_Error)
      | _ \<Rightarrow> Inl Type_Error)"

definition dict_to_mem_data :: "mem_filters \<Rightarrow> py_dict \<Rightarrow> mem_inventory \<Rightarrow> mem_error + mem_inventory" where
  "dict_to_mem_data fl data iv =
     then_ok (fold_ok (load_group fl) (filter (\<lambda>kv. fst kv \<noteq> ''_meta'') data) iv)
       (load_meta (dict_get_default data ''_meta'' (JDict [])))"


subsection \<open>Empty groups and writing\<close>

definition drop_child :: "string \<Rightarrow> string \<Rightarrow> mem_inventory \<Rightarrow> mem_inventory" where
  "drop_child c p iv =
     (if c \<in> set (children (group_named iv p)) then update_group p (\<lambda>g. g\<lparr>children := remove1 c (children g)\<rparr>) iv else iv)"

definition delete_if_empty :: "string \<Rightarrow> mem_inventory \<Rightarrow> mem_inventory" where
  "delete_if_empty name iv =
     (let g = group_named iv name
      in if children g = [] \<and> hosts g = [] \<and> variables g = []
         then (let iv1 = fold (drop_child name) (parents g) iv in iv1\<lparr>all_groups := AList.delete name (all_groups iv1)\<rparr>)
         else iv)"

definition delete_empty_groups :: "mem_inventory \<Rightarrow> mem_inventory" where
  "delete_empty_groups iv = fold delete_if_empty (dict_keys (all_groups iv)) iv"

definition strings :: "string list \<Rightarrow> json" where
  "strings xs = JList (map JStr xs)"

definition group_data :: "mem_group \<Rightarrow> py_dict" where
  "group_data g = (if hosts g = [] then [] else [(''hosts'', strings (hosts g))]) @
     (if children g = [] then [] else [(''children'', strings (children g))]) @
     (if variables g = [] then [] else [(''vars'', JDict (variables g))])"

text \<open>The set of the ungrouped hosts is listed in the order of the hosts.\<close>

definition mem_data_to_dict :: "mem_inventory \<Rightarrow> py_dict" where
  "mem_data_to_dict iv =
     (let hostvars = map (\<lambda>(h, m). (h, JDict (host_vars m))) (all_hosts iv);
          top = (if variables (all_group iv) = [] then [] else [(''vars'', JDict (variables (all_group iv)))]) @
            [(''children'', strings (children (all_group iv) @ [''ungrouped'']))];
          data = fold (\<lambda>(n, g). dict_set n (JDict (group_data g))) (all_groups iv)
            [(''_meta'', JDict [(''hostvars'', JDict hostvars)]), (''all'', JDict top)];
          grouped = concat (map (\<lambda>(n, g). hosts g) (all_groups iv));
          ungrouped = filter (\<lambda>h. h \<notin> set grouped) (dict_keys (all_hosts iv))
      in dict_set ''ungrouped'' (JDict (if ungrouped = [] then [] else [(''hosts'', strings ungrouped)])) data)"

section \<open>What a reading creates\<close>

definition gset :: "mem_inventory \<Rightarrow> string set" where
  "gset iv = set (dict_keys (all_groups iv))"

definition hset :: "mem_inventory \<Rightarrow> string set" where
  "hset iv = set (dict_keys (all_hosts iv))"

definition child_rel :: "mem_inventory \<Rightarrow> (string \<times> string) set" where
  "child_rel iv = {(p, c). c \<in> set (children (group_named iv p))}"

definition parent_rel :: "mem_inventory \<Rightarrow> (string \<times> string) set" where
  "parent_rel iv = {(p, c). p \<in> set (parents (group_named iv c))}"

definition host_rel :: "mem_inventory \<Rightarrow> (string \<times> string) set" where
  "host_rel iv = {(g, h). h \<in> set (hosts (group_named iv g))}"

text \<open>References are intact: names in lists are names of objects, and parents mirror children.\<close>

definition mem_ok :: "mem_inventory \<Rightarrow> bool" where
  "mem_ok iv \<longleftrightarrow> distinct (dict_keys (all_groups iv)) \<and> distinct (dict_keys (all_hosts iv)) \<and>
     ''all'' \<notin> gset iv \<and> ''ungrouped'' \<notin> gset iv \<and> [] \<notin> gset iv \<and> [] \<notin> hset iv \<and>
     child_rel iv \<subseteq> insert ''all'' (gset iv) \<times> gset iv \<and> host_rel iv \<subseteq> insert ''all'' (gset iv) \<times> hset iv \<and>
     parent_rel iv = child_rel iv"

lemma group_named_update: "group_named (update_group g f iv) k = (if k = g then f (group_named iv g) else group_named iv k)"
  by (auto simp: group_named_def update_group_def dict_simps)

lemma all_hosts_update [simp]: "all_hosts (update_group g f iv) = all_hosts iv" "hset (update_group g f iv) = hset iv"
  by (simp_all add: update_group_def hset_def)

lemma gset_update [simp]: "gset (update_group g f iv) = (if g = ''all'' then gset iv else insert g (gset iv))"
  using dict_keys_update [of g "f (group_named iv g)" "all_groups iv"] by (simp add: gset_def update_group_def)

lemma distinct_update_group:
  "distinct (dict_keys (all_groups iv)) \<Longrightarrow> distinct (dict_keys (all_groups (update_group g f iv)))"
  by (simp add: update_group_def distinct_update)

lemma unknown_group: "g \<notin> gset iv \<Longrightarrow> g \<noteq> ''all'' \<Longrightarrow> group_named iv g = empty_group"
  by (simp add: group_named_def gset_def dict_get_default_def map_of_eq_None_iff [THEN iffD2])

lemma empty_group_fields [simp]: "children empty_group = []" "hosts empty_group = []" "parents empty_group = []" "variables empty_group = []"
  by (simp_all add: empty_group_def)

text \<open>An operation that only adds: these groups, hosts, children and memberships.\<close>

definition grows :: "mem_inventory \<Rightarrow> mem_inventory \<Rightarrow> string set \<Rightarrow> string set \<Rightarrow> (string \<times> string) set \<Rightarrow> (string \<times> string) set \<Rightarrow> bool" where
  "grows s t G H R M \<longleftrightarrow> gset t = gset s \<union> G \<and> hset t = hset s \<union> H \<and> child_rel t = child_rel s \<union> R \<and> host_rel t = host_rel s \<union> M \<and>
     (mem_ok s \<longrightarrow> mem_ok t)"

lemma grows_refl: "grows s s {} {} {} {}"
  by (simp add: grows_def)

lemma grows_trans: "grows s t G H R M \<Longrightarrow> grows t u G' H' R' M' \<Longrightarrow> grows s u (G \<union> G') (H \<union> H') (R \<union> R') (M \<union> M')"
  by (auto simp: grows_def)

lemma child_added:
  assumes "p = ''all'' \<or> p \<in> gset s" "c \<in> gset s" "mem_ok s"
  shows "\<exists>t. add_child_group p c s = Inr t \<and> grows s t {} {} {(p, c)} {}"
proof -
  let ?t = "update_group c (\<lambda>g. g\<lparr>parents := set_add p (parents g)\<rparr>) (update_group p (\<lambda>g. g\<lparr>children := set_add c (children g)\<rparr>) s)"
  have c: "c \<noteq> ''all''" using assms(2,3) by (auto simp: mem_ok_def)
  have sets: "gset ?t = gset s" "hset ?t = hset s" using assms(1,2) by auto
  have rels: "child_rel ?t = insert (p, c) (child_rel s)" "parent_rel ?t = insert (p, c) (parent_rel s)" "host_rel ?t = host_rel s"
    by (auto simp: child_rel_def parent_rel_def host_rel_def group_named_update split: if_splits)
  have "mem_ok ?t" using assms unfolding mem_ok_def sets rels all_hosts_update by (auto intro!: distinct_update_group)
  then show ?thesis using c sets rels by (simp add: add_child_group_def grows_def)
qed

lemma host_added:
  assumes "g = ''all'' \<or> g \<in> gset s" "h \<in> hset s"
  shows "grows s (add_host g h s) {} {} {} {(g, h)}"
proof -
  let ?t = "add_host g h s"
  have sets: "gset ?t = gset s" "hset ?t = hset s" using assms(1) by (auto simp: add_host_def)
  have rels: "child_rel ?t = child_rel s" "parent_rel ?t = parent_rel s" "host_rel ?t = insert (g, h) (host_rel s)"
    by (auto simp: child_rel_def parent_rel_def host_rel_def add_host_def group_named_update split: if_splits)
  have "mem_ok s \<Longrightarrow> mem_ok ?t" using assms unfolding mem_ok_def sets rels by (auto simp: add_host_def intro!: distinct_update_group)
  then show ?thesis by (simp add: grows_def sets rels)
qed


subsection \<open>Contributions\<close>

definition host_name :: "string \<Rightarrow> string" where
  "host_name s = fst (host_and_port s)"

definition host_ok :: "mem_filters \<Rightarrow> json \<Rightarrow> bool" where
  "host_ok fl v \<longleftrightarrow> (case v of JStr s \<Rightarrow> host_name s \<noteq> [] \<or> \<not> host_filter fl [] | _ \<Rightarrow> False)"

definition group_ok :: "mem_filters \<Rightarrow> json \<Rightarrow> bool" where
  "group_ok fl v \<longleftrightarrow> (case v of JStr s \<Rightarrow> s \<noteq> [] \<or> \<not> group_filter fl [] | _ \<Rightarrow> False)"

definition group_ref :: "mem_filters \<Rightarrow> string \<Rightarrow> string option" where
  "group_ref fl n = (if n \<in> {''all'', ''ungrouped''} then Some ''all'' else if group_filter fl n then Some n else None)"

definition kept_group :: "mem_filters \<Rightarrow> string \<Rightarrow> bool" where
  "kept_group fl n \<longleftrightarrow> n \<notin> {''all'', ''ungrouped''} \<and> group_filter fl n"

definition at_group :: "string \<Rightarrow> mem_inventory \<Rightarrow> bool" where
  "at_group g s \<longleftrightarrow> mem_ok s \<and> (g = ''all'' \<or> g \<in> gset s)"

lemma at_group_grows: "at_group g s \<Longrightarrow> grows s t G H R M \<Longrightarrow> at_group g t"
  by (auto simp: at_group_def grows_def)

lemma fold_grows:
  assumes "\<And>x s. x \<in> set xs \<Longrightarrow> at_group g s \<Longrightarrow> \<exists>t. f x s = Inr t \<and> grows s t (G x) (H x) (R x) (M x)"
  shows "at_group g s \<Longrightarrow> \<exists>t. fold_ok f xs s = Inr t \<and>
    grows s t (\<Union>x \<in> set xs. G x) (\<Union>x \<in> set xs. H x) (\<Union>x \<in> set xs. R x) (\<Union>x \<in> set xs. M x)"
  using assms
proof (induction xs arbitrary: s)
  case Nil
  then show ?case by (simp add: grows_refl)
next
  case (Cons x xs)
  obtain t where t: "f x s = Inr t" "grows s t (G x) (H x) (R x) (M x)" using Cons.prems(1,2) by (metis list.set_intros(1))
  obtain u where u: "fold_ok f xs t = Inr u"
    "grows t u (\<Union>x \<in> set xs. G x) (\<Union>x \<in> set xs. H x) (\<Union>x \<in> set xs. R x) (\<Union>x \<in> set xs. M x)"
    using Cons.IH [OF at_group_grows [OF Cons.prems(1) t(2)]] Cons.prems(2) by (meson list.set_intros(2))
  from grows_trans [OF t(2) u(2)] u(1) t(1) show ?case by auto
qed

lemma grows_hosts:
  assumes "fst ` set hs' = fst ` set (all_hosts s) \<union> H" "mem_ok s \<longrightarrow> distinct (dict_keys hs') \<and> [] \<notin> H"
  shows "grows s (s\<lparr>all_hosts := hs'\<rparr>) {} H {} {}"
proof -
  let ?t = "s\<lparr>all_hosts := hs'\<rparr>"
  have sets: "gset ?t = gset s" "hset ?t = hset s \<union> H" using assms(1) by (simp_all add: gset_def hset_def)
  have "group_named ?t = group_named s" by (rule ext) (simp add: group_named_def)
  then have rels: "child_rel ?t = child_rel s" "parent_rel ?t = parent_rel s" "host_rel ?t = host_rel s"
    by (simp_all add: child_rel_def parent_rel_def host_rel_def)
  have "mem_ok s \<Longrightarrow> mem_ok ?t" using assms(2) unfolding mem_ok_def sets rels by auto
  then show ?thesis by (simp add: grows_def sets rels)
qed

lemma host_found:
  assumes "mem_ok s" "host_ok fl (JStr h)"
  shows "\<exists>t. get_host fl (JStr h) s = Inr (if host_filter fl (host_name h) then Some (host_name h) else None, t) \<and>
     grows s t {} {n. n = host_name h \<and> host_filter fl n} {} {}"
proof -
  obtain n p where np: "host_and_port h = (n, p)" by (cases "host_and_port h")
  consider "\<not> host_filter fl n" | "host_filter fl n" "n \<in> hset s" | "host_filter fl n" "n \<notin> hset s" by blast
  then show ?thesis
  proof cases
    case 1
    then show ?thesis by (simp add: get_host_def np host_name_def Collect_conv_if grows_refl)
  next
    case 2
    then have "grows s s {} {n} {} {}" by (auto simp: grows_def)
    with 2 show ?thesis by (simp add: get_host_def np host_name_def hset_def Collect_conv_if)
  next
    case 3
    then have n: "n \<noteq> []" using assms(2) by (auto simp: host_ok_def host_name_def np)
    let ?m = "\<lparr>host_vars = (case p of None \<Rightarrow> [] | Some p \<Rightarrow> if p = 0 then [] else [(''ansible_port'', JInt p)]), instance_id = None\<rparr>"
    have "grows s (s\<lparr>all_hosts := dict_set n ?m (all_hosts s)\<rparr>) {} {n} {} {}"
      using n dict_keys_update [of n ?m "all_hosts s"] by (intro grows_hosts) (auto simp: mem_ok_def intro!: distinct_update)
    then show ?thesis using 3 n by (simp add: get_host_def np host_name_def create_host_def hset_def Collect_conv_if)
  qed
qed

lemma group_created:
  assumes "n \<notin> gset s" "n \<noteq> []" "kept_group fl n"
  shows "grows s (s\<lparr>all_groups := dict_set n empty_group (all_groups s)\<rparr>) {n} {} {} {}"
proof -
  let ?t = "s\<lparr>all_groups := dict_set n empty_group (all_groups s)\<rparr>"
  have n: "n \<noteq> ''all''" "n \<noteq> ''ungrouped''" using assms(3) by (auto simp: kept_group_def)
  have sets: "gset ?t = insert n (gset s)" "hset ?t = hset s"
    using dict_keys_update [of n empty_group "all_groups s"] by (simp_all add: gset_def hset_def)
  have "group_named ?t k = group_named s k" for k
    using assms(1) n(1) unknown_group [of n s] by (auto simp: group_named_def dict_simps)
  then have rels: "child_rel ?t = child_rel s" "parent_rel ?t = parent_rel s" "host_rel ?t = host_rel s"
    by (simp_all add: child_rel_def parent_rel_def host_rel_def)
  have "mem_ok s \<Longrightarrow> mem_ok ?t"
    using assms(1,2) n unfolding mem_ok_def sets rels by (auto intro!: distinct_update)
  then show ?thesis by (simp add: grows_def sets rels)
qed

lemma group_found:
  assumes ok: "mem_ok s" and n: "group_ok fl (JStr n)"
  shows "\<exists>t R. get_group fl child (JStr n) s = Inr (group_ref fl n, t) \<and> R \<subseteq> {(''all'', n)} \<and> (child \<or> \<not> kept_group fl n \<longrightarrow> R = {}) \<and>
     grows s t {m. m = n \<and> kept_group fl m} {} R {}"
proof (cases "kept_group fl n")
  case False
  then have "get_group fl child (JStr n) s = Inr (group_ref fl n, s)" by (auto simp: get_group_def group_ref_def kept_group_def)
  then show ?thesis using False grows_refl [of s] by (intro exI [of _ s] exI [of _ "{}"]) (auto simp: Collect_conv_if)
next
  case k: True
  have kept: "{m. m = n \<and> kept_group fl m} = {n}" using k by auto
  show ?thesis
  proof (cases "n \<in> gset s")
    case True
    then have "grows s s {n} {} {} {}" by (auto simp: grows_def)
    moreover have "get_group fl child (JStr n) s = Inr (group_ref fl n, s)"
      using k True by (auto simp: get_group_def group_ref_def kept_group_def gset_def)
    ultimately show ?thesis unfolding kept by (intro exI [of _ s] exI [of _ "{}"]) simp
  next
    case False
    have nn: "n \<noteq> []" using n k by (auto simp: group_ok_def kept_group_def)
    let ?s1 = "s\<lparr>all_groups := dict_set n empty_group (all_groups s)\<rparr>"
    note g = group_created [OF False nn k]
    have ok1: "mem_ok ?s1" "n \<in> gset ?s1" using g ok by (simp_all add: grows_def)
    obtain t where t: "add_child_group ''all'' n ?s1 = Inr t" "grows ?s1 t {} {} {(''all'', n)} {}"
      using child_added [of "''all''" ?s1 n] ok1 by auto
    have get: "get_group fl child (JStr n) s = (if child then Inr (group_ref fl n, ?s1) else Inr (group_ref fl n, t))"
      using k False nn t(1) by (auto simp: get_group_def group_ref_def kept_group_def gset_def create_group_def)
    show ?thesis
    proof (cases child)
      case True
      then show ?thesis using get g kept by (intro exI [of _ ?s1] exI [of _ "{}"]) simp
    next
      case False
      then show ?thesis using get kept k grows_trans [OF g t(2)] by (intro exI [of _ t] exI [of _ "{(''all'', n)}"]) simp
    qed
  qed
qed


text \<open>The names a value of a group lists as hosts and as children.\<close>

definition host_items :: "json \<Rightarrow> json list" where
  "host_items v = (let w = (case v of JDict d \<Rightarrow> dict_get_default d ''hosts'' (JDict []) | _ \<Rightarrow> v)
     in case w of JDict d \<Rightarrow> map (\<lambda>(h, _). JStr h) d | JList hs \<Rightarrow> hs | _ \<Rightarrow> [])"

definition child_items :: "json \<Rightarrow> json list" where
  "child_items v = (case v of JDict d \<Rightarrow> (case dict_get_default d ''children'' (JList []) of JList cs \<Rightarrow> cs | _ \<Rightarrow> []) | _ \<Rightarrow> [])"

definition value_ok :: "mem_filters \<Rightarrow> json \<Rightarrow> bool" where
  "value_ok fl v \<longleftrightarrow> list_all (host_ok fl) (host_items v) \<and> list_all (\<lambda>c. group_ok fl c \<and> c \<noteq> JStr ''all'') (child_items v)"

definition kept_hosts :: "mem_filters \<Rightarrow> json list \<Rightarrow> string set" where
  "kept_hosts fl xs = {host_name s | s. JStr s \<in> set xs \<and> host_filter fl (host_name s)}"

definition kept_children :: "mem_filters \<Rightarrow> json list \<Rightarrow> string set" where
  "kept_children fl xs = {s. JStr s \<in> set xs \<and> kept_group fl s}"

lemma update_host_grows: "grows s (update_host h f s) {} {} {} {}"
proof (cases "dict_get (all_hosts s) h")
  case None
  then show ?thesis by (simp add: update_host_def grows_refl)
next
  case (Some m)
  then have "h \<in> set (dict_keys (all_hosts s))" by (metis map_of_eq_None_iff option.distinct(1) set_map)
  then have "grows s (s\<lparr>all_hosts := dict_set h (f m) (all_hosts s)\<rparr>) {} {} {} {}"
    using dict_keys_update [of h "f m" "all_hosts s"] by (intro grows_hosts) (auto simp: mem_ok_def intro!: distinct_update)
  with Some show ?thesis by (simp add: update_host_def)
qed

lemma update_vars_grows:
  assumes "at_group g s"
  shows "grows s (update_group g (\<lambda>m. m\<lparr>variables := f m\<rparr>) s) {} {} {} {}"
proof -
  let ?t = "update_group g (\<lambda>m. m\<lparr>variables := f m\<rparr>) s"
  have sets: "gset ?t = gset s" "hset ?t = hset s" using assms by (auto simp: at_group_def)
  have rels: "child_rel ?t = child_rel s" "parent_rel ?t = parent_rel s" "host_rel ?t = host_rel s"
    by (auto simp: child_rel_def parent_rel_def host_rel_def group_named_update split: if_splits)
  have "mem_ok ?t" using assms unfolding mem_ok_def at_group_def sets rels by (auto intro!: distinct_update_group)
  then show ?thesis unfolding grows_def sets rels by simp
qed

lemma load_vars_grows: "at_group g s \<Longrightarrow> grows s (load_vars g v s) {} {} {} {}"
  by (cases v) (auto simp: load_vars_def grows_refl intro: update_vars_grows)

lemma host_joins:
  assumes "at_group g s" "host_ok fl (JStr h)"
  shows "\<exists>t. load_host_of fl g (JStr h) s = Inr t \<and>
      grows s t {} (kept_hosts fl [JStr h]) {} ({g} \<times> kept_hosts fl [JStr h])"
    and "\<exists>t. load_host_vars fl g (h, w) s = Inr t \<and>
      grows s t {} (kept_hosts fl [JStr h]) {} ({g} \<times> kept_hosts fl [JStr h])"
proof -
  let ?n = "host_name h"
  have kh: "kept_hosts fl [JStr h] = {n. n = ?n \<and> host_filter fl n}" by (auto simp: kept_hosts_def)
  obtain u where u: "get_host fl (JStr h) s = Inr (if host_filter fl ?n then Some ?n else None, u)"
    "grows s u {} {n. n = ?n \<and> host_filter fl n} {} {}"
    using host_found [of s fl h] assms by (auto simp: at_group_def)
  have au: "at_group g u" by (rule at_group_grows [OF assms(1) u(2)])
  let ?w = "if is_dict w then update_host ?n (\<lambda>m. m\<lparr>host_vars := dict_merge (host_vars m) (as_dict w)\<rparr>) u else u"
  have w: "grows u ?w {} {} {} {}" by (simp add: grows_refl update_host_grows)
  have joins: "grows s (add_host g ?n v) {} (kept_hosts fl [JStr h]) {} ({g} \<times> kept_hosts fl [JStr h])"
    if k: "host_filter fl ?n" and v: "grows u v {} {} {} {}" for v
  proof -
    have sv: "grows s v {} {n. n = ?n \<and> host_filter fl n} {} {}" using grows_trans [OF u(2) v] by simp
    have "?n \<in> hset v" using sv k by (auto simp: grows_def)
    moreover have "g = ''all'' \<or> g \<in> gset v" using at_group_grows [OF au v] by (simp add: at_group_def)
    ultimately have "grows v (add_host g ?n v) {} {} {} {(g, ?n)}" by (intro host_added)
    from grows_trans [OF sv this] k show ?thesis unfolding kh by (simp add: Collect_conv_if)
  qed
  have none: "kept_hosts fl [JStr h] = {}" if "\<not> host_filter fl ?n" unfolding kh using that by auto
  show "\<exists>t. load_host_of fl g (JStr h) s = Inr t \<and> grows s t {} (kept_hosts fl [JStr h]) {} ({g} \<times> kept_hosts fl [JStr h])"
    using u joins [OF _ grows_refl] none by (cases "host_filter fl ?n") (auto simp: load_host_of_def Collect_conv_if)
  show "\<exists>t. load_host_vars fl g (h, w) s = Inr t \<and> grows s t {} (kept_hosts fl [JStr h]) {} ({g} \<times> kept_hosts fl [JStr h])"
    using u joins [OF _ w] none by (cases "host_filter fl ?n") (auto simp: load_host_vars_def Collect_conv_if)
qed

lemma kept_hosts_Union: "(\<Union>x \<in> set xs. kept_hosts fl [x]) = kept_hosts fl xs"
  by (auto simp: kept_hosts_def)

lemma kept_children_Union: "(\<Union>x \<in> set xs. kept_children fl [x]) = kept_children fl xs"
  by (auto simp: kept_children_def)

lemma is_JStr: "host_ok fl v \<Longrightarrow> \<exists>h. v = JStr h" "group_ok fl v \<Longrightarrow> \<exists>h. v = JStr h"
  by (auto simp: host_ok_def group_ok_def split: json.splits)

lemma hosts_join:
  assumes "at_group g s" "list_all (host_ok fl) hs"
  shows "\<exists>t. fold_ok (load_host_of fl g) hs s = Inr t \<and> grows s t {} (kept_hosts fl hs) {} ({g} \<times> kept_hosts fl hs)"
proof -
  have "\<exists>t. fold_ok (load_host_of fl g) hs s = Inr t \<and> grows s t (\<Union>x \<in> set hs. {}) (\<Union>x \<in> set hs. kept_hosts fl [x])
      (\<Union>x \<in> set hs. {}) (\<Union>x \<in> set hs. {g} \<times> kept_hosts fl [x])"
  proof (rule fold_grows [OF _ assms(1)])
    fix x s assume "x \<in> set hs" "at_group g s"
    then show "\<exists>t. load_host_of fl g x s = Inr t \<and> grows s t {} (kept_hosts fl [x]) {} ({g} \<times> kept_hosts fl [x])"
      using assms(2) host_joins(1) is_JStr(1) by (metis list_all_iff)
  qed
  moreover have "(\<Union>x \<in> set hs. {g} \<times> kept_hosts fl [x]) = {g} \<times> kept_hosts fl hs" using kept_hosts_Union [of fl hs] by auto
  ultimately show ?thesis by (simp add: kept_hosts_Union)
qed

lemma hosts_join_vars:
  assumes "at_group g s" "list_all (host_ok fl) (map (\<lambda>(h, _). JStr h) d)"
  shows "\<exists>t. fold_ok (load_host_vars fl g) d s = Inr t \<and>
     grows s t {} (kept_hosts fl (map (\<lambda>(h, _). JStr h) d)) {} ({g} \<times> kept_hosts fl (map (\<lambda>(h, _). JStr h) d))"
proof -
  let ?k = "\<lambda>x. kept_hosts fl [JStr (fst x)]"
  have "\<exists>t. fold_ok (load_host_vars fl g) d s = Inr t \<and> grows s t (\<Union>x \<in> set d. {}) (\<Union>x \<in> set d. ?k x)
      (\<Union>x \<in> set d. {}) (\<Union>x \<in> set d. {g} \<times> ?k x)"
  proof (rule fold_grows [OF _ assms(1)])
    fix x s assume x: "x \<in> set d" "at_group g s"
    obtain h w where hw: "x = (h, w)" by (rule prod.exhaust)
    then have "host_ok fl (JStr h)" using assms(2) x(1) by (auto simp: list_all_iff)
    from host_joins(2) [OF x(2) this] show "\<exists>t. load_host_vars fl g x s = Inr t \<and> grows s t {} (?k x) {} ({g} \<times> ?k x)"
      by (simp add: hw)
  qed
  moreover have "(\<Union>x \<in> set d. ?k x) = kept_hosts fl (map (\<lambda>(h, _). JStr h) d)" by (force simp: kept_hosts_def)
  moreover have "(\<Union>x \<in> set d. {g} \<times> ?k x) = {g} \<times> (\<Union>x \<in> set d. ?k x)" by auto
  ultimately show ?thesis by simp
qed


lemma child_joins:
  assumes "at_group g s" "group_ok fl v" "v \<noteq> JStr ''all''"
  shows "\<exists>t. load_child fl g v s = Inr t \<and> grows s t (kept_children fl [v]) {} ({g} \<times> kept_children fl [v]) {}"
proof -
  obtain n where n: "v = JStr n" using is_JStr(2) [OF assms(2)] by blast
  have kc: "kept_children fl [v] = {m. m = n \<and> kept_group fl m}" by (auto simp: kept_children_def n)
  obtain u where u: "get_group fl True v s = Inr (group_ref fl n, u)" "grows s u {m. m = n \<and> kept_group fl m} {} {} {}"
    using group_found [of s fl n True] assms(1,2) by (auto simp: n at_group_def)
  show ?thesis
  proof (cases "kept_group fl n")
    case True
    have "mem_ok u" "g = ''all'' \<or> g \<in> gset u" using at_group_grows [OF assms(1) u(2)] by (simp_all add: at_group_def)
    moreover have "n \<in> gset u" using u(2) True by (simp add: grows_def)
    ultimately obtain t where t: "add_child_group g n u = Inr t" "grows u t {} {} {(g, n)} {}"
      using child_added [of g u n] by blast
    have "group_ref fl n = Some n" "n \<noteq> ''ungrouped''" using True by (auto simp: kept_group_def group_ref_def)
    then have "load_child fl g v s = Inr t" using u(1) t(1) by (simp add: load_child_def n)
    with grows_trans [OF u(2) t(2)] True show ?thesis unfolding kc by (simp add: Collect_conv_if)
  next
    case False
    then have "group_ref fl n = None \<or> n = ''ungrouped''" using assms(3) by (auto simp: kept_group_def group_ref_def n)
    then have "load_child fl g v s = Inr u" using u(1) by (auto simp: load_child_def n group_ref_def)
    with u(2) False show ?thesis unfolding kc by (simp add: Collect_conv_if)
  qed
qed

lemma children_join:
  assumes "at_group g s" "list_all (\<lambda>c. group_ok fl c \<and> c \<noteq> JStr ''all'') cs"
  shows "\<exists>t. fold_ok (load_child fl g) cs s = Inr t \<and> grows s t (kept_children fl cs) {} ({g} \<times> kept_children fl cs) {}"
proof -
  have "\<exists>t. fold_ok (load_child fl g) cs s = Inr t \<and> grows s t (\<Union>x \<in> set cs. kept_children fl [x]) (\<Union>x \<in> set cs. {})
      (\<Union>x \<in> set cs. {g} \<times> kept_children fl [x]) (\<Union>x \<in> set cs. {})"
    by (rule fold_grows [OF _ assms(1)]) (use assms(2) child_joins in \<open>auto simp: list_all_iff\<close>)
  moreover have "(\<Union>x \<in> set cs. {g} \<times> kept_children fl [x]) = {g} \<times> kept_children fl cs" using kept_children_Union [of fl cs] by auto
  ultimately show ?thesis by (simp add: kept_children_Union)
qed

text \<open>A value under the key of a group: its hosts, its children.\<close>

lemma value_loaded:
  assumes at: "at_group g s" and v: "value_ok fl v"
  shows "\<exists>t. (case v of
               JDict d \<Rightarrow> then_ok (load_hosts fl g (dict_get_default d ''hosts'' (JDict [])) s) (\<lambda>iv2.
                 load_children fl g (dict_get_default d ''children'' (JList []))
                   (load_vars g (dict_get_default d ''vars'' (JDict [])) iv2))
             | JList hs \<Rightarrow> fold_ok (load_host_of fl g) hs s
             | _ \<Rightarrow> Inr s) = Inr t \<and>
     grows s t (kept_children fl (child_items v)) (kept_hosts fl (host_items v))
       ({g} \<times> kept_children fl (child_items v)) ({g} \<times> kept_hosts fl (host_items v))"
proof -
  have no: "kept_children fl [] = {}" "kept_hosts fl [] = {}" by (auto simp: kept_children_def kept_hosts_def)
  show ?thesis
  proof (cases v)
    case (JList hs)
    then show ?thesis using hosts_join [OF at, of fl hs] v by (simp add: host_items_def child_items_def value_ok_def no)
  next
    case (JDict d)
    let ?h = "dict_get_default d ''hosts'' (JDict [])" and ?c = "dict_get_default d ''children'' (JList [])"
    have "\<exists>t. load_hosts fl g ?h s = Inr t \<and> grows s t {} (kept_hosts fl (host_items v)) {} ({g} \<times> kept_hosts fl (host_items v))"
      using hosts_join [OF at] hosts_join_vars [OF at] v
      by (cases ?h) (auto simp: load_hosts_def host_items_def JDict value_ok_def no grows_refl)
    then obtain t where t: "load_hosts fl g ?h s = Inr t" "grows s t {} (kept_hosts fl (host_items v)) {} ({g} \<times> kept_hosts fl (host_items v))" by blast
    have at1: "at_group g t" by (rule at_group_grows [OF at t(2)])
    let ?t = "load_vars g (dict_get_default d ''vars'' (JDict [])) t"
    note lv = load_vars_grows [OF at1, of "dict_get_default d ''vars'' (JDict [])"]
    have "\<exists>u. load_children fl g ?c ?t = Inr u \<and> grows ?t u (kept_children fl (child_items v)) {} ({g} \<times> kept_children fl (child_items v)) {}"
      using children_join [OF at_group_grows [OF at1 lv]] v
      by (cases ?c) (auto simp: load_children_def child_items_def JDict value_ok_def no grows_refl)
    then obtain u where u: "load_children fl g ?c ?t = Inr u"
      "grows ?t u (kept_children fl (child_items v)) {} ({g} \<times> kept_children fl (child_items v)) {}" by blast
    from grows_trans [OF grows_trans [OF t(2) lv] u(2)] show ?thesis by (simp add: JDict t(1) u(1))
  qed (simp_all add: host_items_def child_items_def no grows_refl)
qed

definition seen_group :: "mem_filters \<Rightarrow> string \<Rightarrow> bool" where
  "seen_group fl k \<longleftrightarrow> group_ref fl k \<noteq> None"

definition ref_name :: "string \<Rightarrow> string" where
  "ref_name k = (if k = ''ungrouped'' then ''all'' else k)"

lemma group_loaded:
  assumes at: "at_group ''all'' s" and k: "group_ok fl (JStr k)" and v: "value_ok fl v"
  shows "\<exists>t. load_group fl (k, v) s = Inr t \<and>
     grows s t {m. (m = k \<or> seen_group fl k \<and> m \<in> kept_children fl (child_items v)) \<and> kept_group fl m}
       {h. seen_group fl k \<and> h \<in> kept_hosts fl (host_items v)}
       {(p, c). seen_group fl k \<and> (p = ''all'' \<and> c = k \<and> kept_group fl k \<or> p = ref_name k \<and> c \<in> kept_children fl (child_items v))}
       {(g, h). seen_group fl k \<and> g = ref_name k \<and> h \<in> kept_hosts fl (host_items v)}"
proof -
  obtain u R where u: "get_group fl False (JStr k) s = Inr (group_ref fl k, u)" "R \<subseteq> {(''all'', k)}" "\<not> kept_group fl k \<longrightarrow> R = {}"
    "grows s u {m. m = k \<and> kept_group fl m} {} R {}" using group_found [of s fl k False] at k by (auto simp: at_group_def)
  show ?thesis
  proof (cases "group_ref fl k")
    case None
    then have n: "\<not> kept_group fl k" by (auto simp: group_ref_def kept_group_def split: if_splits)
    then have "get_group fl False (JStr k) s = Inr (None, s)" using None by (auto simp: get_group_def group_ref_def split: if_splits)
    then have "load_group fl (k, v) s = Inr s" by (simp add: load_group_def)
    then show ?thesis using n None grows_refl [of s] by (auto simp: seen_group_def Collect_conv_if cong: conj_cong)
  next
    case (Some g)
    have g: "g = ref_name k" using Some by (auto simp: group_ref_def ref_name_def split: if_splits)
    have kg: "kept_group fl k \<longleftrightarrow> k \<notin> {''all'', ''ungrouped''}" using Some by (auto simp: group_ref_def kept_group_def split: if_splits)
    have "at_group ''all'' u" by (rule at_group_grows [OF at u(4)])
    moreover have "g = ''all'' \<or> g \<in> gset u" using u(4) kg g by (auto simp: grows_def ref_name_def)
    ultimately have ag: "at_group g u" by (simp add: at_group_def)
    let ?cs = "kept_children fl (child_items v)" and ?hs = "kept_hosts fl (host_items v)"
    note vl = value_loaded [OF ag v]
    then obtain w where w: "(case v of
               JDict d \<Rightarrow> then_ok (load_hosts fl g (dict_get_default d ''hosts'' (JDict [])) u) (\<lambda>iv2.
                 load_children fl g (dict_get_default d ''children'' (JList []))
                   (load_vars g (dict_get_default d ''vars'' (JDict [])) iv2))
             | JList hs \<Rightarrow> fold_ok (load_host_of fl g) hs u
             | _ \<Rightarrow> Inr u) = Inr w" "grows u w ?cs ?hs ({g} \<times> ?cs) ({g} \<times> ?hs)" by blast
    have all: "grows s w ({m. m = k \<and> kept_group fl m} \<union> ?cs) ?hs (R \<union> {g} \<times> ?cs) ({g} \<times> ?hs)"
      using grows_trans [OF u(4) w(2)] by simp
    have seen: "seen_group fl k" by (simp add: seen_group_def Some)
    have shape: "{m. (m = k \<or> seen_group fl k \<and> m \<in> ?cs) \<and> kept_group fl m} = {m. m = k \<and> kept_group fl m} \<union> ?cs"
      "{h. seen_group fl k \<and> h \<in> ?hs} = ?hs" "{(g, h). seen_group fl k \<and> g = ref_name k \<and> h \<in> ?hs} = {g} \<times> ?hs"
      using seen g by (auto simp: kept_children_def)
    show ?thesis
    proof (cases "kept_group fl k")
      case True
      have "k \<in> gset w" "mem_ok w" using all True at by (auto simp: grows_def at_group_def)
      then obtain t where t: "add_child_group ''all'' k w = Inr t" "grows w t {} {} {(''all'', k)} {}"
        using child_added [of "''all''" w k] by blast
      have gk: "g = k" "k \<noteq> ''all''" "k \<noteq> ''ungrouped''" using g kg True by (auto simp: ref_name_def)
      have "load_group fl (k, v) s = Inr t"
        using u(1) Some w(1) t(1) gk by (auto simp: load_group_def)
      moreover have "{(p, c). seen_group fl k \<and> (p = ''all'' \<and> c = k \<and> kept_group fl k \<or> p = ref_name k \<and> c \<in> ?cs)} =
          (R \<union> {g} \<times> ?cs) \<union> {(''all'', k)}"
        using u(2) seen True g by auto
      ultimately show ?thesis using grows_trans [OF all t(2)] unfolding shape by auto
    next
      case False
      then have k: "k = ''all'' \<or> k = ''ungrouped''" and R: "R = {}" using kg u(3) by auto
      have "load_group fl (k, v) s = Inr w" using u(1) Some w(1) k by (auto simp: load_group_def)
      moreover have "{(p, c). seen_group fl k \<and> (p = ''all'' \<and> c = k \<and> kept_group fl k \<or> p = ref_name k \<and> c \<in> ?cs)} = R \<union> {g} \<times> ?cs"
        using R seen False g by auto
      ultimately show ?thesis using all unfolding shape by auto
    qed
  qed
qed


lemma meta_grows:
  assumes "load_meta meta s = Inr t"
  shows "grows s t {} {} {} {}"
proof -
  have "grows s (s\<lparr>all_hosts := map (\<lambda>(h, m). (h, f h m)) (all_hosts s)\<rparr>) {} {} {} {}" for f
    by (rule grows_hosts) (force, auto simp: mem_ok_def comp_def split_def)
  then show ?thesis using assms by (auto simp: load_meta_def grows_refl split: if_splits json.splits option.splits)
qed

definition meta_ok :: "json \<Rightarrow> bool" where
  "meta_ok meta \<longleftrightarrow> \<not> py_true meta \<or>
     (case meta of JDict d \<Rightarrow> (case dict_get d ''hostvars'' of Some (JDict hv) \<Rightarrow> True | _ \<Rightarrow> False) | _ \<Rightarrow> False)"

lemma meta_loaded: "meta_ok meta \<Longrightarrow> \<exists>t. load_meta meta s = Inr t"
  by (auto simp: meta_ok_def load_meta_def split: json.splits option.splits)

text \<open>Output that can be read: names are texts that are not empty, nothing has \<open>all\<close> as a child.\<close>

definition data_ok :: "mem_filters \<Rightarrow> py_dict \<Rightarrow> bool" where
  "data_ok fl data \<longleftrightarrow> meta_ok (dict_get_default data ''_meta'' (JDict [])) \<and>
     list_all (\<lambda>(k, v). k = ''_meta'' \<or> group_ok fl (JStr k) \<and> value_ok fl v) data"

definition sections :: "mem_filters \<Rightarrow> py_dict \<Rightarrow> (string \<times> json) set" where
  "sections fl data = {(k, v) \<in> set data. k \<noteq> ''_meta'' \<and> seen_group fl k}"

lemma mem_ok_empty: "mem_ok empty_inventory"
  by (simp add: mem_ok_def empty_inventory_def gset_def hset_def child_rel_def parent_rel_def host_rel_def group_named_def
      dict_get_default_def empty_group_def)

lemma empty_sets: "gset empty_inventory = {}" "hset empty_inventory = {}" "child_rel empty_inventory = {}" "host_rel empty_inventory = {}"
  by (simp_all add: empty_inventory_def gset_def hset_def child_rel_def host_rel_def group_named_def dict_get_default_def empty_group_def)

lemma read_sets:
  assumes "data_ok fl data"
  shows "\<exists>iv. dict_to_mem_data fl data empty_inventory = Inr iv \<and> mem_ok iv \<and>
     gset iv = {m. kept_group fl m \<and> (\<exists>(k, v) \<in> sections fl data. m = k \<or> JStr m \<in> set (child_items v))} \<and>
     hset iv = {h. host_filter fl h \<and> (\<exists>(k, v) \<in> sections fl data. \<exists>s. JStr s \<in> set (host_items v) \<and> h = host_name s)} \<and>
     child_rel iv = {(p, c). kept_group fl c \<and>
       (\<exists>(k, v) \<in> sections fl data. p = ''all'' \<and> c = k \<or> p = ref_name k \<and> JStr c \<in> set (child_items v))} \<and>
     host_rel iv = {(g, h). host_filter fl h \<and>
       (\<exists>(k, v) \<in> sections fl data. g = ref_name k \<and> (\<exists>s. JStr s \<in> set (host_items v) \<and> h = host_name s))}"
proof -
  let ?kvs = "filter (\<lambda>kv. fst kv \<noteq> ''_meta'') data"
  let ?G = "\<lambda>kv. {m. (m = fst kv \<or> seen_group fl (fst kv) \<and> m \<in> kept_children fl (child_items (snd kv))) \<and> kept_group fl m}"
  let ?H = "\<lambda>kv. {h. seen_group fl (fst kv) \<and> h \<in> kept_hosts fl (host_items (snd kv))}"
  let ?R = "\<lambda>kv. {(p, c). seen_group fl (fst kv) \<and> (p = ''all'' \<and> c = fst kv \<and> kept_group fl (fst kv) \<or>
     p = ref_name (fst kv) \<and> c \<in> kept_children fl (child_items (snd kv)))}"
  let ?M = "\<lambda>kv. {(g, h). seen_group fl (fst kv) \<and> g = ref_name (fst kv) \<and> h \<in> kept_hosts fl (host_items (snd kv))}"
  have at: "at_group ''all'' empty_inventory" by (simp add: at_group_def mem_ok_empty)
  have "\<exists>t. fold_ok (load_group fl) ?kvs empty_inventory = Inr t \<and>
     grows empty_inventory t (\<Union>kv \<in> set ?kvs. ?G kv) (\<Union>kv \<in> set ?kvs. ?H kv) (\<Union>kv \<in> set ?kvs. ?R kv) (\<Union>kv \<in> set ?kvs. ?M kv)"
  proof (rule fold_grows [OF _ at])
    fix kv s assume kv: "kv \<in> set ?kvs" and s: "at_group ''all'' s"
    obtain k v where e: "kv = (k, v)" by (rule prod.exhaust)
    have "group_ok fl (JStr k)" "value_ok fl v" using kv assms by (auto simp: e data_ok_def list_all_iff)
    from group_loaded [OF s this] show "\<exists>t. load_group fl kv s = Inr t \<and> grows s t (?G kv) (?H kv) (?R kv) (?M kv)" by (simp add: e)
  qed
  then obtain t where t: "fold_ok (load_group fl) ?kvs empty_inventory = Inr t"
    "grows empty_inventory t (\<Union>kv \<in> set ?kvs. ?G kv) (\<Union>kv \<in> set ?kvs. ?H kv) (\<Union>kv \<in> set ?kvs. ?R kv) (\<Union>kv \<in> set ?kvs. ?M kv)" by blast
  obtain u where u: "load_meta (dict_get_default data ''_meta'' (JDict [])) t = Inr u" using meta_loaded assms by (auto simp: data_ok_def)
  have run: "dict_to_mem_data fl data empty_inventory = Inr u" by (simp add: dict_to_mem_data_def t(1) u)
  have seen: "kept_group fl m \<Longrightarrow> seen_group fl m" for m by (simp add: kept_group_def seen_group_def group_ref_def)
  note g = grows_trans [OF t(2) meta_grows [OF u], unfolded grows_def empty_sets Un_empty_left Un_empty_right]
  note gs = g [THEN conjunct1] g [THEN conjunct2, THEN conjunct1] g [THEN conjunct2, THEN conjunct2, THEN conjunct1]
    g [THEN conjunct2, THEN conjunct2, THEN conjunct2, THEN conjunct1]
  have sec: "(\<exists>kv \<in> set ?kvs. seen_group fl (fst kv) \<and> P (fst kv) (snd kv)) \<longleftrightarrow> (\<exists>(k, v) \<in> sections fl data. P k v)" for P
    by (force simp: sections_def)
  have "m \<in> gset u \<longleftrightarrow> kept_group fl m \<and> (\<exists>(k, v) \<in> sections fl data. m = k \<or> JStr m \<in> set (child_items v))" for m
    unfolding sec [of "\<lambda>k v. m = k \<or> JStr m \<in> set (child_items v)", symmetric] gs kept_children_def UN_iff mem_Collect_eq
    by (auto dest: seen)
  moreover have "h \<in> hset u \<longleftrightarrow> host_filter fl h \<and> (\<exists>(k, v) \<in> sections fl data. \<exists>s. JStr s \<in> set (host_items v) \<and> h = host_name s)" for h
    unfolding sec [of "\<lambda>k v. \<exists>s. JStr s \<in> set (host_items v) \<and> h = host_name s", symmetric] gs kept_hosts_def UN_iff mem_Collect_eq
    by auto
  moreover have "(p, c) \<in> child_rel u \<longleftrightarrow> kept_group fl c \<and>
       (\<exists>(k, v) \<in> sections fl data. p = ''all'' \<and> c = k \<or> p = ref_name k \<and> JStr c \<in> set (child_items v))" for p c
    unfolding sec [of "\<lambda>k v. p = ''all'' \<and> c = k \<or> p = ref_name k \<and> JStr c \<in> set (child_items v)", symmetric]
      gs kept_children_def UN_iff mem_Collect_eq prod.case by auto
  moreover have "(g, h) \<in> host_rel u \<longleftrightarrow> host_filter fl h \<and>
       (\<exists>(k, v) \<in> sections fl data. g = ref_name k \<and> (\<exists>s. JStr s \<in> set (host_items v) \<and> h = host_name s))" for g h
    unfolding sec [of "\<lambda>k v. g = ref_name k \<and> (\<exists>s. JStr s \<in> set (host_items v) \<and> h = host_name s)", symmetric]
      gs kept_hosts_def UN_iff mem_Collect_eq prod.case by auto
  moreover have "mem_ok u" using g mem_ok_empty by simp
  ultimately show ?thesis using run by (intro exI [of _ u] conjI) (simp_all only: set_eq_iff split_paired_All mem_Collect_eq prod.case simp_thms)
qed

text \<open>
  C16: Reading the output of \<open>ansible-inventory\<close> succeeds whenever it is well formed, and creates exactly
  the groups that are a key or a listed child and pass the filter, the hosts that are listed and
  pass theirs (with the port split off their names), every group with a section as a child of \<open>all\<close>, and
  the listed children and members of every section; references between the objects are intact.
\<close>

theorem reading_exact:
  assumes "data_ok fl data"
  shows "\<exists>iv. dict_to_mem_data fl data empty_inventory = Inr iv \<and> mem_ok iv \<and>
     gset iv = {m. kept_group fl m \<and> (\<exists>(k, v) \<in> sections fl data. m = k \<or> JStr m \<in> set (child_items v))} \<and>
     hset iv = {h. host_filter fl h \<and> (\<exists>(k, v) \<in> sections fl data. \<exists>s. JStr s \<in> set (host_items v) \<and> h = host_name s)} \<and>
     child_rel iv = {(p, c). kept_group fl c \<and>
       (\<exists>(k, v) \<in> sections fl data. p = ''all'' \<and> c = k \<or> p = ref_name k \<and> JStr c \<in> set (child_items v))} \<and>
     host_rel iv = {(g, h). host_filter fl h \<and>
       (\<exists>(k, v) \<in> sections fl data. g = ref_name k \<and> (\<exists>s. JStr s \<in> set (host_items v) \<and> h = host_name s))}"
  by (rule read_sets [OF assms])


section \<open>Writing and reading\<close>

text \<open>What happens to variables: a step is quiet if it leaves them alone and gives new hosts none.\<close>

definition group_vars :: "mem_inventory \<Rightarrow> string \<Rightarrow> py_dict" where
  "group_vars iv g = variables (group_named iv g)"

definition vars_of_host :: "mem_inventory \<Rightarrow> string \<Rightarrow> py_dict option" where
  "vars_of_host iv h = map_option host_vars (dict_get (all_hosts iv) h)"

definition quiet :: "mem_inventory \<Rightarrow> mem_inventory \<Rightarrow> bool" where
  "quiet s t \<longleftrightarrow> group_vars t = group_vars s \<and>
     (\<forall>h. vars_of_host t h = vars_of_host s h \<or> vars_of_host s h = None \<and> vars_of_host t h = Some [])"

lemma quiet_refl: "quiet s s"
  by (simp add: quiet_def)

lemma quiet_trans: "quiet s t \<Longrightarrow> quiet t u \<Longrightarrow> quiet s u"
  unfolding quiet_def by metis

lemma fold_quiet: "fold_ok f xs s = Inr t \<Longrightarrow> (\<And>x s t. x \<in> set xs \<Longrightarrow> f x s = Inr t \<Longrightarrow> quiet s t) \<Longrightarrow> quiet s t"
proof (induction xs arbitrary: s)
  case Nil
  then show ?case by (simp add: quiet_refl)
next
  case (Cons x xs)
  then obtain u where u: "f x s = Inr u" "fold_ok f xs u = Inr t" by (auto simp: then_ok_Inr)
  have "quiet s u" by (rule Cons.prems(2) [OF _ u(1)]) simp
  moreover have "quiet u t" by (rule Cons.IH [OF u(2)], rule Cons.prems(2)) simp_all
  ultimately show ?case by (rule quiet_trans)
qed

lemma group_vars_update: "group_vars (update_group g f s) k = (if k = g then variables (f (group_named s g)) else group_vars s k)"
  by (simp add: group_vars_def group_named_update)

lemma update_quiet: "(\<And>m. variables (f m) = variables m) \<Longrightarrow> quiet s (update_group g f s)"
  by (auto simp: quiet_def group_vars_update vars_of_host_def fun_eq_iff) (simp add: group_vars_def)

lemma add_child_quiet: "add_child_group p c s = Inr t \<Longrightarrow> quiet s t"
  by (auto simp: add_child_group_def split: if_splits intro!: quiet_trans [OF update_quiet update_quiet])

lemma add_host_quiet: "quiet s (add_host g h s)"
  by (simp add: add_host_def update_quiet)

lemma get_host_quiet:
  assumes "get_host fl (JStr h) s = Inr (r, t)" "snd (host_and_port h) = None"
  shows "quiet s t"
proof -
  obtain n where n: "host_and_port h = (n, None)" using assms(2) by (cases "host_and_port h") simp
  have "t = s \<or> (n \<notin> set (dict_keys (all_hosts s)) \<and> t = s\<lparr>all_hosts := dict_set n \<lparr>host_vars = [], instance_id = None\<rparr> (all_hosts s)\<rparr>)"
    using assms(1) by (auto simp: get_host_def n then_ok_Inr create_host_def split: if_splits)
  then show ?thesis
  proof
    assume "n \<notin> set (dict_keys (all_hosts s)) \<and> t = s\<lparr>all_hosts := dict_set n \<lparr>host_vars = [], instance_id = None\<rparr> (all_hosts s)\<rparr>"
    then show ?thesis
      by (auto simp: quiet_def group_vars_def vars_of_host_def group_named_def dict_simps map_of_eq_None_iff fun_eq_iff)
  qed (simp add: quiet_refl)
qed

lemma get_group_quiet: "get_group fl child (JStr n) s = Inr (r, t) \<Longrightarrow> quiet s t"
proof -
  assume get: "get_group fl child (JStr n) s = Inr (r, t)"
  let ?s1 = "s\<lparr>all_groups := dict_set n empty_group (all_groups s)\<rparr>"
  have new: "quiet s ?s1" if "n \<notin> gset s" "n \<noteq> ''all''"
    using that unknown_group [of n s] by (auto simp: quiet_def group_vars_def vars_of_host_def group_named_def dict_simps fun_eq_iff)
  show ?thesis
  proof (cases "n \<in> {''all'', ''ungrouped''} \<or> \<not> group_filter fl n \<or> n \<in> gset s")
    case True
    then have "t = s" using get by (auto simp: get_group_def gset_def split: if_splits)
    then show ?thesis by (simp add: quiet_refl)
  next
    case False
    have keys: "n \<notin> set (dict_keys (all_groups s))" using False by (simp add: gset_def)
    have q: "quiet s ?s1" using new False by simp
    have "t = ?s1 \<or> add_child_group ''all'' n ?s1 = Inr t"
      using get False keys unfolding get_group_def create_group_def by (simp add: then_ok_Inr split: if_splits)
    then show ?thesis using q quiet_trans [OF q add_child_quiet] by blast
  qed
qed

lemma load_host_quiet:
  assumes "load_host_of fl g (JStr h) s = Inr t" "snd (host_and_port h) = None"
  shows "quiet s t"
proof -
  obtain r u where u: "get_host fl (JStr h) s = Inr (r, u)" "t = (case r of None \<Rightarrow> u | Some n \<Rightarrow> add_host g n u)"
    using assms(1) by (auto simp: load_host_of_def then_ok_Inr split: option.splits)
  then show ?thesis using get_host_quiet [OF u(1) assms(2)] quiet_trans [OF _ add_host_quiet] by (cases r) auto
qed

lemma load_child_quiet:
  assumes "load_child fl g (JStr c) s = Inr t"
  shows "quiet s t"
proof -
  obtain r u where u: "get_group fl True (JStr c) s = Inr (r, u)"
    "t = u \<or> (\<exists>n. add_child_group g n u = Inr t)"
    using assms by (auto simp: load_child_def then_ok_Inr split: option.splits if_splits)
  then show ?thesis using get_group_quiet [OF u(1)] quiet_trans [OF _ add_child_quiet] by blast
qed

text \<open>A section with lists of hosts and children changes the variables of its group only.\<close>

definition plain_section :: "py_dict \<Rightarrow> bool" where
  "plain_section d \<longleftrightarrow> (\<exists>hs. dict_get_default d ''hosts'' (JDict []) \<in> {strings hs, JDict []} \<and> (\<forall>h \<in> set hs. snd (host_and_port h) = None)) \<and>
     (\<exists>cs. dict_get_default d ''children'' (JList []) = strings cs)"

definition merge_vars :: "string \<Rightarrow> json \<Rightarrow> (string \<Rightarrow> py_dict) \<Rightarrow> string \<Rightarrow> py_dict" where
  "merge_vars g v vs = (case v of JDict d \<Rightarrow> vs(g := dict_merge (vs g) d) | _ \<Rightarrow> vs)"

lemma load_vars_effect:
  "group_vars (load_vars g v s) = merge_vars g v (group_vars s)" "vars_of_host (load_vars g v s) = vars_of_host s"
  by (cases v; auto simp: load_vars_def merge_vars_def group_vars_update vars_of_host_def group_vars_def [of s g] fun_eq_iff)+

lemma load_group_vars:
  assumes run: "load_group fl (k, JDict d) s = Inr t" and seen: "seen_group fl k" and d: "plain_section d"
  shows "group_vars t = merge_vars (ref_name k) (dict_get_default d ''vars'' (JDict [])) (group_vars s) \<and>
     (\<forall>h. vars_of_host t h = vars_of_host s h \<or> vars_of_host s h = None \<and> vars_of_host t h = Some [])"
proof -
  let ?h = "dict_get_default d ''hosts'' (JDict [])" and ?c = "dict_get_default d ''children'' (JList [])" and ?v = "dict_get_default d ''vars'' (JDict [])"
  obtain r u where u: "get_group fl False (JStr k) s = Inr (r, u)" using run by (auto simp: load_group_def then_ok_Inr)
  have r: "r = Some (ref_name k)"
    using u seen by (auto simp: get_group_def seen_group_def group_ref_def ref_name_def then_ok_Inr split: if_splits)
  obtain v w where v: "load_hosts fl (ref_name k) ?h u = Inr v" and w: "load_children fl (ref_name k) ?c (load_vars (ref_name k) ?v v) = Inr w"
    and t: "t = w \<or> add_child_group ''all'' (ref_name k) w = Inr t"
    using run u by (auto simp: load_group_def then_ok_Inr r split: if_splits)
  have "quiet u v"
  proof -
    obtain hs where hs: "?h = strings hs \<or> ?h = JDict []" "\<forall>h \<in> set hs. snd (host_and_port h) = None" using d by (auto simp: plain_section_def)
    show ?thesis using hs(1)
    proof
      assume "?h = strings hs"
      then have "fold_ok (load_host_of fl (ref_name k)) (map JStr hs) u = Inr v" using v by (simp add: load_hosts_def strings_def)
      then show ?thesis using hs(2) load_host_quiet by (elim fold_quiet) auto
    qed (use v in \<open>simp add: load_hosts_def quiet_refl\<close>)
  qed
  then have qv: "quiet s v" by (rule quiet_trans [OF get_group_quiet [OF u]])
  obtain cs where "?c = strings cs" using d by (auto simp: plain_section_def)
  then have "fold_ok (load_child fl (ref_name k)) (map JStr cs) (load_vars (ref_name k) ?v v) = Inr w" using w by (simp add: load_children_def strings_def)
  then have "quiet (load_vars (ref_name k) ?v v) w"
    using load_child_quiet by (elim fold_quiet) auto
  then have "quiet (load_vars (ref_name k) ?v v) t" using t quiet_trans [OF _ add_child_quiet] by blast
  then show ?thesis using qv unfolding quiet_def load_vars_effect by metis
qed


lemma update_fresh: "k \<notin> set (dict_keys d) \<Longrightarrow> dict_set k v d = d @ [(k, v)]"
  by (induction d) auto

lemma fold_fresh:
  "distinct (dict_keys kvs) \<Longrightarrow> set (dict_keys kvs) \<inter> set (dict_keys d) = {} \<Longrightarrow> fold (\<lambda>(k, v). dict_set k v) kvs d = d @ kvs"
proof (induction kvs arbitrary: d)
  case Nil
  then show ?case by simp
next
  case (Cons kv kvs)
  obtain k v where kv: "kv = (k, v)" by (rule prod.exhaust)
  have "dict_set k v d = d @ [(k, v)]" using Cons.prems(2) by (intro update_fresh) (auto simp: kv)
  then show ?case using Cons by (auto simp: kv)
qed

lemma dict_merge_empty: "distinct (dict_keys d) \<Longrightarrow> dict_merge [] d = d"
  using fold_fresh [of d "[]"] by (simp add: dict_merge_def)

text \<open>What can be written and read back: names that are only names, and that the filters accept.\<close>

definition writable :: "mem_filters \<Rightarrow> mem_inventory \<Rightarrow> bool" where
  "writable fl iv \<longleftrightarrow> mem_ok iv \<and> ''_meta'' \<notin> gset iv \<and> (\<forall>g \<in> gset iv. group_filter fl g) \<and>
     (\<forall>h \<in> hset iv. host_and_port h = (h, None) \<and> host_filter fl h) \<and>
     (\<forall>g \<in> insert ''all'' (gset iv). distinct (dict_keys (group_vars iv g))) \<and>
     (\<forall>(h, m) \<in> set (all_hosts iv). distinct (dict_keys (host_vars m)))"

definition top_data :: "mem_group \<Rightarrow> py_dict" where
  "top_data g = (if variables g = [] then [] else [(''vars'', JDict (variables g))]) @ [(''children'', strings (children g @ [''ungrouped'']))]"

definition ungrouped_hosts :: "mem_inventory \<Rightarrow> string list" where
  "ungrouped_hosts iv = filter (\<lambda>h. h \<notin> set (concat (map (\<lambda>(n, g). hosts g) (all_groups iv)))) (dict_keys (all_hosts iv))"

definition hosts_data :: "string list \<Rightarrow> py_dict" where
  "hosts_data hs = (if hs = [] then [] else [(''hosts'', strings hs)])"

definition written_sections :: "mem_inventory \<Rightarrow> (string \<times> py_dict) list" where
  "written_sections iv = (''all'', top_data (all_group iv)) # map (\<lambda>(n, g). (n, group_data g)) (all_groups iv) @
     [(''ungrouped'', hosts_data (ungrouped_hosts iv))]"

definition written_meta :: "mem_inventory \<Rightarrow> py_dict" where
  "written_meta iv = map (\<lambda>(h, m). (h, JDict (host_vars m))) (all_hosts iv)"

lemma written:
  assumes "writable fl iv"
  shows "mem_data_to_dict iv = (''_meta'', JDict [(''hostvars'', JDict (written_meta iv))]) #
     map (\<lambda>(n, d). (n, JDict d)) (written_sections iv)"
proof -
  let ?d = "[(''_meta'', JDict [(''hostvars'', JDict (written_meta iv))]), (''all'', JDict (top_data (all_group iv)))]"
  let ?gs = "map (\<lambda>(n, g). (n, JDict (group_data g))) (all_groups iv)"
  have keys: "dict_keys ?gs = dict_keys (all_groups iv)" by (simp add: split_def comp_def)
  have g: "distinct (dict_keys (all_groups iv))" "''_meta'' \<notin> gset iv" "''all'' \<notin> gset iv" "''ungrouped'' \<notin> gset iv"
    using assms by (auto simp: writable_def mem_ok_def)
  have "fold (\<lambda>(n, g). dict_set n (JDict (group_data g))) (all_groups iv) ?d = fold (\<lambda>(k, v). dict_set k v) ?gs ?d"
    by (simp add: fold_map split_def comp_def)
  also have "\<dots> = ?d @ ?gs"
    by (rule fold_fresh) (unfold keys, use g in \<open>auto simp: gset_def\<close>)
  finally have f: "fold (\<lambda>(n, g). dict_set n (JDict (group_data g))) (all_groups iv) ?d = ?d @ ?gs" .
  have "dict_set ''ungrouped'' (JDict (hosts_data (ungrouped_hosts iv))) (?d @ ?gs) = (?d @ ?gs) @ [(''ungrouped'', JDict (hosts_data (ungrouped_hosts iv)))]"
  proof (rule update_fresh)
    show "''ungrouped'' \<notin> set (dict_keys (?d @ ?gs))" using g(4) keys unfolding map_append set_append by (auto simp: gset_def)
  qed
  moreover have "mem_data_to_dict iv =
      dict_set ''ungrouped'' (JDict (hosts_data (ungrouped_hosts iv))) (fold (\<lambda>(n, g). dict_set n (JDict (group_data g))) (all_groups iv) ?d)"
    unfolding mem_data_to_dict_def Let_def ungrouped_hosts_def hosts_data_def written_meta_def top_data_def by (rule refl)
  ultimately show ?thesis unfolding f by (simp add: written_sections_def split_def comp_def)
qed

lemma plain_items:
  "host_items (JDict (group_data g)) = map JStr (hosts g)" "child_items (JDict (group_data g)) = map JStr (children g)"
  "host_items (JDict (top_data g)) = []" "child_items (JDict (top_data g)) = map JStr (children g @ [''ungrouped''])"
  "host_items (JDict (hosts_data hs)) = map JStr hs" "child_items (JDict (hosts_data hs)) = []"
  "dict_get_default (group_data g) ''vars'' (JDict []) = JDict (variables g)"
  "dict_get_default (top_data g) ''vars'' (JDict []) = JDict (variables g)"
  "dict_get_default (hosts_data hs) ''vars'' (JDict []) = JDict []"
  by (auto simp: host_items_def child_items_def group_data_def top_data_def hosts_data_def strings_def dict_get_default_def)

lemma plain_sections:
  "(\<And>h. h \<in> set (hosts g) \<Longrightarrow> snd (host_and_port h) = None) \<Longrightarrow> plain_section (group_data g)"
  "plain_section (top_data g)"
  "(\<And>h. h \<in> set hs \<Longrightarrow> snd (host_and_port h) = None) \<Longrightarrow> plain_section (hosts_data hs)"
proof -
  have e: "strings [] = JList []" by (simp add: strings_def)
  show "plain_section (top_data g)"
    unfolding plain_section_def top_data_def by (intro conjI exI [of _ "[]"] exI [of _ "children g @ [''ungrouped'']"]) (simp_all add: dict_get_default_def)
  show "plain_section (hosts_data hs)" if "\<And>h. h \<in> set hs \<Longrightarrow> snd (host_and_port h) = None"
    unfolding plain_section_def hosts_data_def using that
    by (intro conjI exI [of _ hs] exI [of _ "[]"]) (auto simp: dict_get_default_def e)
  show "plain_section (group_data g)" if "\<And>h. h \<in> set (hosts g) \<Longrightarrow> snd (host_and_port h) = None"
    unfolding plain_section_def group_data_def using that
    by (intro conjI exI [of _ "hosts g"] exI [of _ "children g"]) (auto simp: dict_get_default_def e)
qed


text \<open>Reading plain sections merges the variables of each into its group.\<close>

definition merge_all :: "(string \<times> py_dict) list \<Rightarrow> (string \<Rightarrow> py_dict) \<Rightarrow> string \<Rightarrow> py_dict" where
  "merge_all kvs = fold (\<lambda>(k, d). merge_vars (ref_name k) (dict_get_default d ''vars'' (JDict []))) kvs"

lemma sections_vars:
  "fold_ok (load_group fl) (map (\<lambda>(k, d). (k, JDict d)) kvs) s = Inr t \<Longrightarrow>
     \<forall>(k, d) \<in> set kvs. seen_group fl k \<and> plain_section d \<Longrightarrow>
     group_vars t = merge_all kvs (group_vars s) \<and>
     (\<forall>h. vars_of_host t h = vars_of_host s h \<or> vars_of_host s h = None \<and> vars_of_host t h = Some [])"
proof (induction kvs arbitrary: s)
  case Nil
  then show ?case by (simp add: merge_all_def)
next
  case (Cons kv kvs)
  obtain k d where kv: "kv = (k, d)" by (rule prod.exhaust)
  obtain u where u: "load_group fl (k, JDict d) s = Inr u" "fold_ok (load_group fl) (map (\<lambda>(k, d). (k, JDict d)) kvs) u = Inr t"
    using Cons.prems(1) by (auto simp: kv then_ok_Inr)
  have "seen_group fl k" "plain_section d" using Cons.prems(2) by (simp_all add: kv)
  note step = load_group_vars [OF u(1) this]
  have rest: "group_vars t = merge_all kvs (group_vars u) \<and>
     (\<forall>h. vars_of_host t h = vars_of_host u h \<or> vars_of_host u h = None \<and> vars_of_host t h = Some [])"
    using Cons.IH [OF u(2)] Cons.prems(2) by simp
  have "merge_all (kv # kvs) (group_vars s) = merge_all kvs (group_vars u)" using step by (simp add: merge_all_def kv)
  then show ?case using step rest by metis
qed

lemma merge_all_other: "g \<notin> ref_name ` fst ` set kvs \<Longrightarrow> merge_all kvs vs g = vs g"
  by (induction kvs arbitrary: vs) (auto simp: merge_all_def merge_vars_def split: json.splits)

lemma merge_all_append: "merge_all (xs @ ys) vs = merge_all ys (merge_all xs vs)"
  by (simp add: merge_all_def)

lemma groups_merged:
  assumes "distinct (map fst gs)" "''ungrouped'' \<notin> fst ` set gs" "(n, g) \<in> set gs"
  shows "merge_all (map (\<lambda>(n, g). (n, group_data g)) gs) vs n = dict_merge (vs n) (variables g)"
proof -
  obtain as bs where gs: "gs = as @ (n, g) # bs" using assms(3) by (meson split_list)
  let ?m = "map (\<lambda>(n, g). (n, group_data g))"
  have r: "ref_name k = k" if "k \<in> fst ` set gs" for k
  proof -
    have "k \<noteq> ''ungrouped''" using that assms(2) by metis
    then show ?thesis by (simp add: ref_name_def)
  qed
  have names: "ref_name ` fst ` set (?m xs) = fst ` set xs" if "set xs \<subseteq> set gs" for xs
  proof -
    have "fst ` set (?m xs) = fst ` set xs" by force
    moreover have "ref_name ` fst ` set xs = id ` fst ` set xs" using r that by (intro image_cong) auto
    ultimately show ?thesis by simp
  qed
  have "n \<notin> fst ` set as" "n \<notin> fst ` set bs" using assms(1) by (simp_all add: gs)
  then have "n \<notin> ref_name ` fst ` set (?m as)" "n \<notin> ref_name ` fst ` set (?m bs)"
    by (subst names; force simp: gs)+
  then have "merge_all (?m as) vs n = vs n" "merge_all (?m bs) ws n = ws n" for ws by (simp_all add: merge_all_other)
  moreover have "ref_name n = n" using r by (auto simp: gs)
  ultimately show ?thesis by (simp add: gs merge_all_append) (simp add: merge_all_def merge_vars_def plain_items)
qed

lemma written_vars:
  assumes w: "writable fl iv"
  shows "merge_all (written_sections iv) (\<lambda>_. []) ''all'' = group_vars iv ''all''"
    and "n \<in> gset iv \<Longrightarrow> merge_all (written_sections iv) (\<lambda>_. []) n = group_vars iv n"
proof -
  let ?gs = "map (\<lambda>(n, g). (n, group_data g)) (all_groups iv)"
  have d: "distinct (dict_keys (all_groups iv))" "''all'' \<notin> gset iv" "''ungrouped'' \<notin> gset iv"
    and dv: "\<forall>g \<in> insert ''all'' (gset iv). distinct (dict_keys (group_vars iv g))"
    using w by (auto simp: writable_def mem_ok_def)
  have r: "ref_name k = k" if "k \<in> gset iv" for k using that d(3) by (auto simp: ref_name_def)
  have gs: "ref_name ` fst ` set ?gs = gset iv" using r by (force simp: gset_def image_iff)
  let ?v1 = "merge_vars ''all'' (JDict (variables (all_group iv))) (\<lambda>_. [])"
  have split: "merge_all (written_sections iv) (\<lambda>_. []) = merge_all [(''ungrouped'', hosts_data (ungrouped_hosts iv))] (merge_all ?gs ?v1)"
    by (simp add: written_sections_def merge_all_append) (simp add: merge_all_def plain_items ref_name_def)
  have last: "merge_all [(''ungrouped'', hosts_data hs)] vs n = vs n" for hs vs n
    by (simp add: merge_all_def plain_items merge_vars_def dict_merge_def ref_name_def)
  have "merge_all ?gs ?v1 ''all'' = ?v1 ''all''" using d(2) gs by (intro merge_all_other) simp
  moreover have "dict_merge [] (variables (all_group iv)) = variables (all_group iv)"
    using dv by (intro dict_merge_empty) (simp add: group_vars_def group_named_def)
  ultimately show "merge_all (written_sections iv) (\<lambda>_. []) ''all'' = group_vars iv ''all''"
    by (simp add: split last merge_vars_def group_vars_def group_named_def)
  show "merge_all (written_sections iv) (\<lambda>_. []) n = group_vars iv n" if n: "n \<in> gset iv"
  proof -
    obtain g where g: "(n, g) \<in> set (all_groups iv)" using n by (auto simp: gset_def)
    have "n \<noteq> ''all''" using n d(2) by auto
    then have "group_named iv n = g" using g d(1) by (simp add: group_named_def dict_get_default_def)
    then have gv: "group_vars iv n = variables g" by (simp add: group_vars_def)
    have "merge_all ?gs ?v1 n = dict_merge (?v1 n) (variables g)" using d g by (intro groups_merged) (auto simp: gset_def)
    also have "\<dots> = variables g" using dv n \<open>n \<noteq> ''all''\<close> by (simp add: merge_vars_def dict_merge_empty gv [symmetric])
    finally show ?thesis by (simp add: split last gv)
  qed
qed

lemma meta_read:
  assumes w: "writable fl iv" and h: "(h, m) \<in> set (all_hosts iv)" and s: "vars_of_host s h = Some []"
    and run: "load_meta (JDict [(''hostvars'', JDict (written_meta iv))]) s = Inr t"
  shows "vars_of_host t h = Some (host_vars m)"
proof -
  obtain k where k: "dict_get (all_hosts s) h = Some k" "host_vars k = []" using s by (auto simp: vars_of_host_def)
  then have "all_hosts s \<noteq> []" by auto
  then have t: "t = s\<lparr>all_hosts := map (\<lambda>(h, m). (h, merge_meta (written_meta iv) h m)) (all_hosts s)\<rparr>"
    using run by (auto simp: load_meta_def)
  have "distinct (dict_keys (all_hosts iv))" using w by (simp add: writable_def mem_ok_def)
  then have "map_of (written_meta iv) h = Some (JDict (host_vars m))"
    using h by (intro map_of_is_SomeI) (auto simp: written_meta_def comp_def split_def image_iff intro!: bexI [of _ "(h, m)"])
  then have "merge_meta (written_meta iv) h k = k\<lparr>host_vars := dict_merge [] (host_vars m)\<rparr>"
    using k(2) by (simp add: merge_meta_def dict_get_default_def)
  moreover have "dict_merge [] (host_vars m) = host_vars m" using w h by (intro dict_merge_empty) (auto simp: writable_def)
  moreover have "map_of (map (\<lambda>(h, m). (h, f h m)) d) h = map_option (f h) (map_of d h)" for f :: "string \<Rightarrow> mem_host \<Rightarrow> mem_host" and d
    by (induction d) auto
  ultimately show ?thesis using k(1) by (simp add: t vars_of_host_def)
qed


lemma named_entries:
  assumes "mem_ok iv"
  shows "(n, g) \<in> set (all_groups iv) \<longleftrightarrow> n \<in> gset iv \<and> g = group_named iv n"
proof
  assume e: "(n, g) \<in> set (all_groups iv)"
  then have "n \<in> gset iv" by (force simp: gset_def)
  moreover from this have "n \<noteq> ''all''" using assms by (auto simp: mem_ok_def)
  ultimately show "n \<in> gset iv \<and> g = group_named iv n"
    using e assms by (simp add: group_named_def dict_get_default_def mem_ok_def)
next
  assume n: "n \<in> gset iv \<and> g = group_named iv n"
  then obtain h where h: "(n, h) \<in> set (all_groups iv)" by (auto simp: gset_def)
  have "n \<noteq> ''all''" using n assms by (auto simp: mem_ok_def)
  then have "group_named iv n = h" using h assms by (simp add: group_named_def dict_get_default_def mem_ok_def)
  then show "(n, g) \<in> set (all_groups iv)" using h n by simp
qed

lemma set_ungrouped:
  assumes "mem_ok iv"
  shows "set (ungrouped_hosts iv) = {h \<in> hset iv. \<forall>g \<in> gset iv. (g, h) \<notin> host_rel iv}"
proof -
  have "h \<in> set (concat (map (\<lambda>(n, g). hosts g) (all_groups iv))) \<longleftrightarrow> (\<exists>n g. (n, g) \<in> set (all_groups iv) \<and> h \<in> set (hosts g))" for h
    by force
  then have "h \<in> set (concat (map (\<lambda>(n, g). hosts g) (all_groups iv))) \<longleftrightarrow> (\<exists>g \<in> gset iv. (g, h) \<in> host_rel iv)" for h
    unfolding named_entries [OF assms] by (auto simp: host_rel_def)
  then show ?thesis unfolding ungrouped_hosts_def hset_def set_filter by blast
qed

lemma written_ok:
  assumes w: "writable fl iv"
  shows "data_ok fl (mem_data_to_dict iv)"
    and "(\<exists>(k, v) \<in> sections fl (mem_data_to_dict iv). P k v) \<longleftrightarrow>
      P ''all'' (JDict (top_data (all_group iv))) \<or> (\<exists>n \<in> gset iv. P n (JDict (group_data (group_named iv n)))) \<or>
      P ''ungrouped'' (JDict (hosts_data (ungrouped_hosts iv)))"
    and "\<forall>(k, d) \<in> set (written_sections iv). k \<noteq> ''_meta'' \<and> seen_group fl k \<and> plain_section d"
proof -
  have ok: "mem_ok iv" using w by (simp add: writable_def)
  have names: "g \<noteq> ''all'' \<and> g \<noteq> ''ungrouped'' \<and> g \<noteq> [] \<and> g \<noteq> ''_meta'' \<and> group_filter fl g" if "g \<in> gset iv" for g
    using w that by (auto simp: writable_def mem_ok_def)
  have hnames: "host_and_port h = (h, None) \<and> h \<noteq> []" if "h \<in> hset iv" for h
    using w that by (auto simp: writable_def mem_ok_def)
  have members: "h \<in> hset iv" if "h \<in> set (hosts (group_named iv n))" for n h
    using ok that by (auto simp: mem_ok_def host_rel_def)
  have kids: "c \<in> gset iv" if "c \<in> set (children (group_named iv n))" for n c
    using ok that by (auto simp: mem_ok_def child_rel_def)
  have secs: "set (written_sections iv) = {(''all'', top_data (all_group iv)), (''ungrouped'', hosts_data (ungrouped_hosts iv))} \<union>
      (\<lambda>n. (n, group_data (group_named iv n))) ` gset iv"
    unfolding written_sections_def using named_entries [OF ok] by (auto simp: image_iff)
  have ho: "list_all (host_ok fl) (map JStr hs)" if "set hs \<subseteq> hset iv" for hs
    using that hnames by (auto simp: list_all_iff host_ok_def host_name_def)
  have co: "list_all (\<lambda>c. group_ok fl c \<and> c \<noteq> JStr ''all'') (map JStr cs)" if "set cs \<subseteq> insert ''ungrouped'' (gset iv)" for cs
    using that names by (auto simp: list_all_iff group_ok_def)
  have go: "group_ok fl (JStr c)" if "c \<in> gset iv \<or> c = ''all'' \<or> c = ''ungrouped''" for c
    using that names by (auto simp: group_ok_def)
  have "value_ok fl (JDict (top_data (all_group iv)))"
    unfolding value_ok_def plain_items using kids [of _ "''all''"] by (intro conjI co) (auto simp: group_named_def)
  moreover have "value_ok fl (JDict (hosts_data (ungrouped_hosts iv)))"
    unfolding value_ok_def plain_items by (intro conjI ho) (auto simp: set_ungrouped [OF ok])
  moreover have "value_ok fl (JDict (group_data (group_named iv n)))" for n
    unfolding value_ok_def plain_items using kids members by (intro conjI ho co) auto
  ultimately have "value_ok fl (JDict d) \<and> group_ok fl (JStr k)" if "(k, d) \<in> set (written_sections iv)" for k d
    using that go unfolding secs by auto
  then show "data_ok fl (mem_data_to_dict iv)"
    unfolding written [OF w] data_ok_def by (auto simp: meta_ok_def dict_get_default_def list_all_iff)
  have "plain_section d \<and> k \<noteq> ''_meta'' \<and> seen_group fl k" if "(k, d) \<in> set (written_sections iv)" for k d
    using that names set_ungrouped [OF ok] hnames members unfolding secs
    by (auto simp: seen_group_def group_ref_def intro!: plain_sections)
  then show sec: "\<forall>(k, d) \<in> set (written_sections iv). k \<noteq> ''_meta'' \<and> seen_group fl k \<and> plain_section d" by blast
  have "sections fl (mem_data_to_dict iv) = (\<lambda>(k, d). (k, JDict d)) ` set (written_sections iv)"
    unfolding sections_def written [OF w] using sec by (auto simp: image_iff)
  then show "(\<exists>(k, v) \<in> sections fl (mem_data_to_dict iv). P k v) \<longleftrightarrow>
      P ''all'' (JDict (top_data (all_group iv))) \<or> (\<exists>n \<in> gset iv. P n (JDict (group_data (group_named iv n)))) \<or>
      P ''ungrouped'' (JDict (hosts_data (ungrouped_hosts iv)))"
    unfolding secs by auto
qed


lemma written_read_vars:
  assumes w: "writable fl iv" and run: "dict_to_mem_data fl (mem_data_to_dict iv) empty_inventory = Inr t"
  shows "\<forall>g \<in> insert ''all'' (gset iv). group_vars t g = group_vars iv g"
    and "hset t = hset iv \<Longrightarrow> \<forall>(h, m) \<in> set (all_hosts iv). vars_of_host t h = Some (host_vars m)"
proof -
  let ?meta = "JDict [(''hostvars'', JDict (written_meta iv))]" and ?secs = "map (\<lambda>(k, d). (k, JDict d)) (written_sections iv)"
  have nometa: "filter (\<lambda>kv. fst kv \<noteq> ''_meta'') ?secs = ?secs"
    using written_ok(3) [OF w] by (auto simp: filter_id_conv)
  have "filter (\<lambda>kv. fst kv \<noteq> ''_meta'') (mem_data_to_dict iv) = ?secs" "dict_get_default (mem_data_to_dict iv) ''_meta'' (JDict []) = ?meta"
    unfolding written [OF w] using nometa by (simp_all add: dict_get_default_def)
  then obtain s where s: "fold_ok (load_group fl) ?secs empty_inventory = Inr s" "load_meta ?meta s = Inr t"
    using run by (auto simp: dict_to_mem_data_def then_ok_Inr)
  have sv: "group_vars s = merge_all (written_sections iv) (group_vars empty_inventory)"
    "\<forall>h. vars_of_host s h = vars_of_host empty_inventory h \<or> vars_of_host empty_inventory h = None \<and> vars_of_host s h = Some []"
    using sections_vars [OF s(1)] written_ok(3) [OF w] by (auto simp: split_def)
  have e: "group_vars empty_inventory = (\<lambda>_. [])" "vars_of_host empty_inventory h = None" for h
    by (auto simp: group_vars_def group_named_def empty_inventory_def vars_of_host_def dict_get_default_def)
  have "group_vars t = group_vars s"
    using s(2) by (auto simp: load_meta_def group_vars_def group_named_def fun_eq_iff split: if_splits)
  then show "\<forall>g \<in> insert ''all'' (gset iv). group_vars t g = group_vars iv g"
    using sv(1) written_vars [OF w] by (auto simp: e)
  assume H: "hset t = hset iv"
  have hs: "hset s = hset t" using meta_grows [OF s(2)] by (simp add: grows_def)
  show "\<forall>(h, m) \<in> set (all_hosts iv). vars_of_host t h = Some (host_vars m)"
  proof clarify
    fix h m assume h: "(h, m) \<in> set (all_hosts iv)"
    then have "h \<in> hset s" unfolding hs H by (force simp: hset_def)
    then have "vars_of_host s h \<noteq> None" by (auto simp: vars_of_host_def hset_def map_of_eq_None_iff)
    then have "vars_of_host s h = Some []" using sv(2) e(2) by metis
    then show "vars_of_host t h = Some (host_vars m)" by (rule meta_read [OF w h _ s(2)])
  qed
qed

text \<open>
  The four sets that reading builds, for the sections that writing produces.
\<close>

lemma writable_facts:
  assumes w: "writable fl iv"
  shows "g \<in> gset iv \<Longrightarrow> g \<noteq> ''all'' \<and> kept_group fl g \<and> ref_name g = g"
    and "h \<in> hset iv \<Longrightarrow> host_name h = h \<and> host_filter fl h"
    and "child_rel iv \<subseteq> insert ''all'' (gset iv) \<times> gset iv" and "host_rel iv \<subseteq> insert ''all'' (gset iv) \<times> hset iv"
  using w by (auto simp: writable_def mem_ok_def kept_group_def ref_name_def host_name_def)

lemma group_edges:
  "c \<in> set (children (group_named iv p)) \<longleftrightarrow> (p, c) \<in> child_rel iv"
  "h \<in> set (hosts (group_named iv p)) \<longleftrightarrow> (p, h) \<in> host_rel iv"
  "all_group iv = group_named iv ''all''"
  by (simp_all add: child_rel_def host_rel_def group_named_def)

lemma builtin_not_kept: "\<not> kept_group fl ''all''" "\<not> kept_group fl ''ungrouped''"
  by (simp_all add: kept_group_def)

lemma JStr_image: "JStr x \<in> JStr ` X \<longleftrightarrow> x \<in> X"
  by auto

lemma written_hosts_known:
  assumes w: "writable fl iv"
  shows "set (hosts (group_named iv n)) \<subseteq> hset iv" and "set (ungrouped_hosts iv) \<subseteq> hset iv"
    and "X \<subseteq> hset iv \<Longrightarrow> (\<exists>s. s \<in> X \<and> h = host_name s) \<longleftrightarrow> h \<in> X"
proof -
  have ok: "mem_ok iv" using w by (simp add: writable_def)
  show "set (hosts (group_named iv n)) \<subseteq> hset iv" "set (ungrouped_hosts iv) \<subseteq> hset iv"
    using writable_facts(4) [OF w] group_edges(2) set_ungrouped [OF ok] by auto
  show "X \<subseteq> hset iv \<Longrightarrow> (\<exists>s. s \<in> X \<and> h = host_name s) \<longleftrightarrow> h \<in> X"
    using writable_facts(2) [OF w] by (metis subsetD)
qed

lemma written_groups:
  assumes w: "writable fl iv"
  shows "{m. kept_group fl m \<and> (\<exists>(k, v) \<in> sections fl (mem_data_to_dict iv). m = k \<or> JStr m \<in> set (child_items v))} = gset iv"
    (is "?G = _")
proof (rule set_eqI)
  fix m
  have "m \<in> ?G \<longleftrightarrow> kept_group fl m \<and> (m = ''all'' \<or> m \<in> insert ''ungrouped'' (set (children (all_group iv))) \<or>
      (\<exists>n \<in> gset iv. m = n \<or> m \<in> set (children (group_named iv n))) \<or> m = ''ungrouped'')"
    unfolding mem_Collect_eq written_ok(2) [OF w] plain_items set_map JStr_image by auto
  then show "m \<in> ?G \<longleftrightarrow> m \<in> gset iv"
    using builtin_not_kept [of fl] writable_facts(1,3) [OF w] by (auto simp: group_edges)
qed

lemma written_hosts:
  assumes w: "writable fl iv"
  shows "{h. host_filter fl h \<and> (\<exists>(k, v) \<in> sections fl (mem_data_to_dict iv). \<exists>s. JStr s \<in> set (host_items v) \<and> h = host_name s)} = hset iv"
    (is "?H = _")
proof (rule set_eqI)
  fix h
  have ok: "mem_ok iv" using w by (simp add: writable_def)
  note known = written_hosts_known [OF w]
  have "h \<in> ?H \<longleftrightarrow> host_filter fl h \<and> ((\<exists>n \<in> gset iv. h \<in> set (hosts (group_named iv n))) \<or> h \<in> set (ungrouped_hosts iv))"
    unfolding mem_Collect_eq written_ok(2) [OF w] plain_items set_map JStr_image known(3) [OF known(1)] known(3) [OF known(2)] by simp
  then show "h \<in> ?H \<longleftrightarrow> h \<in> hset iv"
    unfolding set_ungrouped [OF ok] group_edges using writable_facts(2,4) [OF w] by auto
qed

lemma written_children:
  assumes w: "writable fl iv"
  shows "{(p, c). kept_group fl c \<and> (\<exists>(k, v) \<in> sections fl (mem_data_to_dict iv).
      p = ''all'' \<and> c = k \<or> p = ref_name k \<and> JStr c \<in> set (child_items v))} = child_rel iv \<union> {''all''} \<times> gset iv"
    (is "?C = _")
proof (rule set_eqI, clarify)
  fix p c
  have "(p, c) \<in> ?C \<longleftrightarrow> kept_group fl c \<and> (p = ''all'' \<and> c = ''all'' \<or> p = ''all'' \<and> c \<in> insert ''ungrouped'' (set (children (all_group iv))) \<or>
      (\<exists>n \<in> gset iv. p = ''all'' \<and> c = n \<or> p = n \<and> c \<in> set (children (group_named iv n))) \<or> p = ''all'' \<and> c = ''ungrouped'')"
    unfolding mem_Collect_eq prod.case written_ok(2) [OF w] plain_items set_map JStr_image
    using writable_facts(1) [OF w] by (auto simp: ref_name_def)
  also have "\<dots> \<longleftrightarrow> (p, c) \<in> child_rel iv \<union> {''all''} \<times> gset iv"
    using builtin_not_kept [of fl] writable_facts(1) [OF w, of c] writable_facts(3) [OF w] by (auto simp: group_edges)
  finally show "(p, c) \<in> ?C \<longleftrightarrow> (p, c) \<in> child_rel iv \<union> {''all''} \<times> gset iv" .
qed

lemma written_members:
  assumes w: "writable fl iv"
  shows "{(g, h). host_filter fl h \<and> (\<exists>(k, v) \<in> sections fl (mem_data_to_dict iv).
      g = ref_name k \<and> (\<exists>s. JStr s \<in> set (host_items v) \<and> h = host_name s))} =
    {(g, h) \<in> host_rel iv. g \<noteq> ''all''} \<union> {''all''} \<times> {h \<in> hset iv. \<forall>g \<in> gset iv. (g, h) \<notin> host_rel iv}"
    (is "?M = ?N")
proof (rule set_eqI, clarify)
  fix g h
  have ok: "mem_ok iv" using w by (simp add: writable_def)
  note known = written_hosts_known [OF w]
  have "(g, h) \<in> ?M \<longleftrightarrow> host_filter fl h \<and> ((\<exists>n \<in> gset iv. g = n \<and> h \<in> set (hosts (group_named iv n))) \<or>
      g = ''all'' \<and> h \<in> set (ungrouped_hosts iv))"
    unfolding mem_Collect_eq prod.case written_ok(2) [OF w] plain_items set_map JStr_image known(3) [OF known(1)] known(3) [OF known(2)]
    using writable_facts(1) [OF w] by (auto simp: ref_name_def)
  also have "\<dots> \<longleftrightarrow> (g, h) \<in> ?N"
    unfolding set_ungrouped [OF ok] group_edges using writable_facts(1) [OF w, of g] writable_facts(2) [OF w, of h] writable_facts(4) [OF w] by auto
  finally show "(g, h) \<in> ?M \<longleftrightarrow> (g, h) \<in> ?N" .
qed

text \<open>
  C18: An inventory (that \<open>writable\<close> admits) written as output of \<open>ansible-inventory\<close> and read back:
  reading succeeds and gives the same groups and hosts with the same variables. The relations are
  normalised: the children are the same, and in addition every group is a child of \<open>all\<close>; the
  groups other than \<open>all\<close> have the same members; the members of \<open>all\<close> become exactly the hosts that are in no group.
\<close>

theorem written_inventory_read_back:
  assumes w: "writable fl iv"
  shows "\<exists>t. dict_to_mem_data fl (mem_data_to_dict iv) empty_inventory = Inr t \<and> mem_ok t \<and> gset t = gset iv \<and> hset t = hset iv \<and>
     child_rel t = child_rel iv \<union> {''all''} \<times> gset iv \<and>
     host_rel t = {(g, h) \<in> host_rel iv. g \<noteq> ''all''} \<union> {''all''} \<times> {h \<in> hset iv. \<forall>g \<in> gset iv. (g, h) \<notin> host_rel iv} \<and>
     (\<forall>g \<in> insert ''all'' (gset iv). group_vars t g = group_vars iv g) \<and>
     (\<forall>(h, m) \<in> set (all_hosts iv). vars_of_host t h = Some (host_vars m))"
proof -
  obtain t where t: "dict_to_mem_data fl (mem_data_to_dict iv) empty_inventory = Inr t" "mem_ok t"
    and sets: "gset t = gset iv" "hset t = hset iv" "child_rel t = child_rel iv \<union> {''all''} \<times> gset iv"
      "host_rel t = {(g, h) \<in> host_rel iv. g \<noteq> ''all''} \<union> {''all''} \<times> {h \<in> hset iv. \<forall>g \<in> gset iv. (g, h) \<notin> host_rel iv}"
    using read_sets [OF written_ok(1) [OF w]]
    unfolding written_groups [OF w] written_hosts [OF w] written_children [OF w] written_members [OF w] by (elim exE conjE)
  show ?thesis using t sets written_read_vars [OF w t(1)] by blast
qed


section \<open>Samples\<close>

definition accept_all :: mem_filters where
  "accept_all = \<lparr>group_filter = \<lambda>_. True, host_filter = \<lambda>_. True\<rparr>"

definition sample_output :: py_dict where
  "sample_output =
     [(''_meta'', JDict [(''hostvars'', JDict [(''group_host'', JDict []), (''my_host'', JDict [(''foo'', JStr ''bar'')])])]),
      (''all'', JDict [(''children'', strings [''my_group'', ''ungrouped''])]),
      (''my_group'', JDict [(''hosts'', strings [''group_host'']), (''vars'', JDict [(''foobar'', JStr ''barfoo'')])]),
      (''ungrouped'', JDict [(''hosts'', strings [''my_host:2222''])])]"

lemma reading_exact_witness:
  "\<exists>iv. dict_to_mem_data accept_all sample_output empty_inventory = Inr iv \<and> mem_ok iv"
proof -
  have "data_ok accept_all sample_output" by code_simp
  from reading_exact [OF this] show ?thesis by (elim exE conjE) blast
qed

lemma sample_read:
  "case dict_to_mem_data accept_all sample_output empty_inventory of
     Inl _ \<Rightarrow> False
   | Inr iv \<Rightarrow> dict_keys (all_groups iv) = [''my_group''] \<and> hosts (group_named iv ''my_group'') = [''group_host''] \<and>
       hosts (all_group iv) = [''my_host''] \<and>
       vars_of_host iv ''my_host'' = Some [(''ansible_port'', JInt 2222), (''foo'', JStr ''bar'')]"
  by code_simp

definition sample_inv :: mem_inventory where
  "sample_inv = \<lparr>all_group = \<lparr>children = [''web''], hosts = [], parents = [], variables = []\<rparr>,
     all_groups = [(''web'', \<lparr>children = [], hosts = [''a''], parents = [''all''], variables = [(''x'', JInt 1)]\<rparr>)],
     all_hosts = [(''a'', \<lparr>host_vars = [], instance_id = None\<rparr>), (''b'', \<lparr>host_vars = [(''y'', JInt 2)], instance_id = None\<rparr>)]\<rparr>"

lemma sample_inv_named:
  "group_named sample_inv g = (if g = ''all'' then \<lparr>children = [''web''], hosts = [], parents = [], variables = []\<rparr>
     else if g = ''web'' then \<lparr>children = [], hosts = [''a''], parents = [''all''], variables = [(''x'', JInt 1)]\<rparr> else empty_group)"
  by (simp add: group_named_def sample_inv_def dict_get_default_def)

lemma sample_inv_ok:
  "gset sample_inv = {''web''}" "hset sample_inv = {''a'', ''b''}" "child_rel sample_inv = {(''all'', ''web'')}"
  "host_rel sample_inv = {(''web'', ''a'')}" "mem_ok sample_inv"
proof -
  show sets: "gset sample_inv = {''web''}" "hset sample_inv = {''a'', ''b''}" by (simp_all add: gset_def hset_def sample_inv_def)
  show rels: "child_rel sample_inv = {(''all'', ''web'')}" "host_rel sample_inv = {(''web'', ''a'')}"
    by (auto simp: child_rel_def host_rel_def sample_inv_named split: if_splits)
  have "parent_rel sample_inv = {(''all'', ''web'')}" by (auto simp: parent_rel_def sample_inv_named split: if_splits)
  then show "mem_ok sample_inv" unfolding mem_ok_def sets rels by (simp add: sample_inv_def)
qed

lemma written_inventory_read_back_witness:
  "\<exists>t. dict_to_mem_data accept_all (mem_data_to_dict sample_inv) empty_inventory = Inr t \<and> gset t = {''web''} \<and>
     vars_of_host t ''b'' = Some [(''y'', JInt 2)]"
proof -
  note sets = sample_inv_ok(1,2)
  have "mem_ok sample_inv" by (rule sample_inv_ok)
  moreover have "host_and_port ''a'' = (''a'', None)" "host_and_port ''b'' = (''b'', None)" by code_simp+
  ultimately have "writable accept_all sample_inv"
    unfolding writable_def sets by (simp add: accept_all_def group_vars_def sample_inv_named) (simp add: sample_inv_def)
  from written_inventory_read_back [OF this] show ?thesis
    unfolding sets by (elim exE conjE) (auto simp: sample_inv_def)
qed

text \<open>
  Groups are checked in the order in which they were read: a group whose children are all empty, and
  read after it, is not yet empty when its turn comes, and stays.
\<close>

lemma empty_parent_stays:
  "case dict_to_mem_data accept_all [(''a'', JDict [(''children'', strings [''b''])]), (''b'', JDict [])] empty_inventory of
     Inl _ \<Rightarrow> False
   | Inr iv \<Rightarrow> dict_keys (all_groups (delete_empty_groups iv)) = [''a''] \<and> children (group_named (delete_empty_groups iv) ''a'') = []"
  "case dict_to_mem_data accept_all [(''b'', JDict []), (''a'', JDict [(''children'', strings [''b''])])] empty_inventory of
     Inl _ \<Rightarrow> False
   | Inr iv \<Rightarrow> dict_keys (all_groups (delete_empty_groups iv)) = []"
  by code_simp+

end
