(* ===== verification/InventoryImport.thy ===== *)
theory InventoryImport
  imports MemInventory PyJson
begin

section \<open>Storing an imported inventory\<close>

text \<open>
  Models \<open>load_into_database\<close> and \<open>perform_update\<close> of
  \<^verbatim>\<open>forail/main/management/commands/inventory_import.py\<close>: how the inventory that
  \<open>dict_to_mem_data\<close> has read is merged into the rows of one inventory, or replaces what its source
  had stored before. The rows keep their variables as text; YAML is an argument, since its parser is
  a library. The activity stream, the computed fields and the log are left out. The lemmas
  show that an import ends with the tables that a description in terms of names and sets says, and that a failed
  check of the license or of the limits changes nothing.
\<close>

subsection \<open>Rows\<close>

record import_host =
  ih_id :: int
  ih_name :: string
  ih_vars :: string
  ih_enabled :: bool
  ih_instance_id :: string
  ih_description :: string

record import_group =
  ig_id :: int
  ig_name :: string
  ig_vars :: string
  ig_description :: string

text \<open>
  The rows of one inventory. \<open>i_members\<close> pairs a group with a host, \<open>i_children\<close> a group with a child;
  \<open>src_hosts\<close> and \<open>src_groups\<close> are those that the source has stored. \<open>batch\<close> is the cache of
  \<open>_batch_add_m2m\<close> for the relation that is being added to; the others are empty.
\<close>

record import_db =
  inv_vars :: string
  i_hosts :: "import_host list"
  i_groups :: "import_group list"
  i_members :: "(int \<times> int) list"
  i_children :: "(int \<times> int) list"
  src_hosts :: "int list"
  src_groups :: "int list"
  batch :: "int list"
  next_host :: int
  next_group :: int

record import_options =
  overwrite :: bool
  overwrite_vars :: bool
  enabled_var :: "string option"
  enabled_value :: "string option"
  instance_id_var :: "string option"
  is_constructed :: bool
  source_overwrite_vars :: bool
  batch_size :: nat
  yaml_load :: "string \<Rightarrow> json option"

datatype import_error = Integrity_Error | Value_Error | Missing_Key | Reading mem_error | Permission_Denied

definition hosts_where :: "(import_host \<Rightarrow> bool) \<Rightarrow> import_db \<Rightarrow> import_host list" where
  "hosts_where P db = sort_key ih_name (filter P (i_hosts db))"

definition groups_where :: "(import_group \<Rightarrow> bool) \<Rightarrow> import_db \<Rightarrow> import_group list" where
  "groups_where P db = sort_key ig_name (filter P (i_groups db))"

text \<open>\<open>_batch_add_m2m\<close>, for the relation that \<open>add\<close> adds to.\<close>

definition batch_add :: "nat \<Rightarrow> (int list \<Rightarrow> import_db \<Rightarrow> import_db) \<Rightarrow> int list \<Rightarrow> bool \<Rightarrow> import_db \<Rightarrow> import_db" where
  "batch_add bs add pks flush db =
     (let cached = batch db @ pks
      in if bs < length cached \<or> flush then (add cached db)\<lparr>batch := []\<rparr> else db\<lparr>batch := cached\<rparr>)"

definition add_src_hosts :: "int list \<Rightarrow> import_db \<Rightarrow> import_db" where
  "add_src_hosts pks db = db\<lparr>src_hosts := fold set_add pks (src_hosts db)\<rparr>"

definition add_src_groups :: "int list \<Rightarrow> import_db \<Rightarrow> import_db" where
  "add_src_groups pks db = db\<lparr>src_groups := fold set_add pks (src_groups db)\<rparr>"

definition add_children :: "int \<Rightarrow> int list \<Rightarrow> import_db \<Rightarrow> import_db" where
  "add_children g pks db = db\<lparr>i_children := fold set_add (map (Pair g) pks) (i_children db)\<rparr>"

definition add_members :: "int \<Rightarrow> int list \<Rightarrow> import_db \<Rightarrow> import_db" where
  "add_members g pks db = db\<lparr>i_members := fold set_add (map (Pair g) pks) (i_members db)\<rparr>"

subsection \<open>Variables\<close>

text \<open>\<open>parse_yaml_or_json\<close>: JSON, else YAML, else nothing; only dictionaries count.\<close>

definition parse_yaml_or_json :: "(string \<Rightarrow> json option) \<Rightarrow> string \<Rightarrow> py_dict" where
  "parse_yaml_or_json yaml s =
     (case json_loads s of Some (JDict d) \<Rightarrow> d
      | _ \<Rightarrow> (case yaml s of Some (JDict d) \<Rightarrow> d | _ \<Rightarrow> []))"

definition variables_dict :: "import_options \<Rightarrow> string \<Rightarrow> py_dict" where
  "variables_dict opts s = parse_yaml_or_json (yaml_load opts) s"

text \<open>The text after an update: it is written anew when the dictionary has changed.\<close>

definition rewritten :: "py_dict \<Rightarrow> py_dict \<Rightarrow> string \<Rightarrow> string" where
  "rewritten new old s = (if py_eq (JDict new) (JDict old) then s else json_dumps (JDict new))"

definition updated_vars :: "import_options \<Rightarrow> string \<Rightarrow> py_dict \<Rightarrow> string" where
  "updated_vars opts s new =
     (let old = variables_dict opts s
      in rewritten (if overwrite_vars opts then new else dict_merge old new) old s)"

text \<open>The value at a path of keys; \<^const>\<open>None\<close> when a key is missing or a value has no keys.\<close>

fun lookup_path :: "string list \<Rightarrow> json \<Rightarrow> json option" where
  "lookup_path [] v = Some v"
| "lookup_path (k # ks) v =
     (case v of JDict d \<Rightarrow> (case dict_get d k of None \<Rightarrow> None | Some w \<Rightarrow> lookup_path ks w) | _ \<Rightarrow> None)"

fun first_instance_id :: "string list \<Rightarrow> py_dict \<Rightarrow> json \<Rightarrow> json" where
  "first_instance_id [] d v = v"
| "first_instance_id (p # ps) d v =
     (let w = (case lookup_path (split CHR ''.'' p) (JDict d) of None \<Rightarrow> JStr [] | Some w \<Rightarrow> w)
      in if py_true w then w else first_instance_id ps d w)"

definition instance_id_parts :: "import_options \<Rightarrow> string list" where
  "instance_id_parts opts =
     (case instance_id_var opts of None \<Rightarrow> [] | Some s \<Rightarrow> if s = [] then [] else split CHR '','' s)"

definition get_instance_id :: "import_options \<Rightarrow> py_dict \<Rightarrow> string" where
  "get_instance_id opts d = py_str (first_instance_id (instance_id_parts opts) d (JStr []))"

definition get_enabled :: "import_options \<Rightarrow> py_dict \<Rightarrow> bool option" where
  "get_enabled opts d =
     (case enabled_var opts of
        None \<Rightarrow> None
      | Some var \<Rightarrow>
          if var = [] then None
          else map_option (\<lambda>v. case enabled_value opts of
              Some e \<Rightarrow> lower e = lower (py_str v)
            | None \<Rightarrow> py_true v) (lookup_path (split CHR ''.'' var) (JDict d)))"

definition remote_vars :: "string list" where
  "remote_vars = [''remote_host_enabled'', ''remote_host_id'', ''remote_tower_enabled'', ''remote_tower_id'']"

definition without_remote :: "import_options \<Rightarrow> py_dict \<Rightarrow> py_dict" where
  "without_remote opts d = (if is_constructed opts then fold AList.delete remote_vars d else d)"

text \<open>\<open>sanitize_jinja\<close> raises on a name that looks like it contains a Jinja expression or statement.\<close>

definition jinja_at :: "string \<Rightarrow> char \<Rightarrow> string \<Rightarrow> string \<Rightarrow> bool" where
  "jinja_at opening stop closing s \<longleftrightarrow> starts_with s opening \<and> takeWhile (\<lambda>c. c \<noteq> stop) (drop 2 s) \<noteq> [] \<and>
     starts_with (dropWhile (\<lambda>c. c \<noteq> stop) (drop 2 s)) closing"

definition has_jinja :: "string \<Rightarrow> bool" where
  "has_jinja s \<longleftrightarrow> list_ex (\<lambda>t. jinja_at ''{{'' CHR ''}'' ''}}'' t \<or> jinja_at ''{%'' CHR ''%'' ''%}'' t) (suffixes s)"

subsection \<open>Matching hosts\<close>

text \<open>
  \<open>_build_db_instance_id_map\<close>: the queries are narrowed from one part of the variable to the next.
\<close>

fun db_id_parts :: "import_options \<Rightarrow> import_db \<Rightarrow> string list \<Rightarrow> string list \<Rightarrow> (string, int) pydict \<Rightarrow> (string, int) pydict" where
  "db_id_parts opts db [] needed m = m"
| "db_id_parts opts db (p # ps) needed m =
     (let needed' = needed @ [hd (split CHR ''.'' p)];
          rows = hosts_where (\<lambda>r. ih_id r \<in> set (src_hosts db) \<and> ih_instance_id r = [] \<and>
            list_all (contains (ih_vars r)) needed') db
      in db_id_parts opts db ps needed'
           (fold (\<lambda>r m. let i = get_instance_id opts (variables_dict opts (ih_vars r))
                        in if i = [] then m else dict_set i (ih_id r) m) rows m))"

definition build_db_instance_id_map :: "import_options \<Rightarrow> import_db \<Rightarrow> (string, int) pydict" where
  "build_db_instance_id_map opts db = db_id_parts opts db (rev (instance_id_parts opts)) [] []"

definition set_instance_id :: "import_options \<Rightarrow> mem_host \<Rightarrow> mem_host" where
  "set_instance_id opts m =
     (let i = get_instance_id opts (host_vars m) in if i = [] then m else m\<lparr>instance_id := Some i\<rparr>)"

definition build_mem_instance_id_map :: "import_options \<Rightarrow> mem_inventory \<Rightarrow> mem_inventory" where
  "build_mem_instance_id_map opts iv =
     iv\<lparr>all_hosts := map (\<lambda>(h, m). (h, if instance_id_parts opts = [] then m else set_instance_id opts m)) (all_hosts iv)\<rparr>"

text \<open>
  One pass of \<open>_build_pk_mem_host_map\<close>: hosts that a query in batches finds, and that no earlier
  pass has matched, are matched to the imported host of the given name. The state has the map
  from names to keys and the keys that are matched.
\<close>

definition match_rows :: "(import_host \<Rightarrow> string) \<Rightarrow> import_host list \<Rightarrow> (string, int) pydict \<times> int list \<Rightarrow> (string, int) pydict \<times> int list" where
  "match_rows name rows = fold (\<lambda>r (m, seen).
     if ih_id r \<in> set seen then (m, seen) else (dict_set (name r) (ih_id r) m, set_add (ih_id r) seen)) rows"

definition match_pass :: "nat \<Rightarrow> (import_host \<Rightarrow> 'k) \<Rightarrow> (import_host \<Rightarrow> string) \<Rightarrow> import_db \<Rightarrow> 'k list \<Rightarrow>
    (string, int) pydict \<times> int list \<Rightarrow> (string, int) pydict \<times> int list" where
  "match_pass bs key name db ks = fold (\<lambda>ks. match_rows name (hosts_where (\<lambda>r. key r \<in> set ks) db)) (split_ids bs ks)"

definition build_pk_mem_host_map :: "import_options \<Rightarrow> (string, int) pydict \<Rightarrow> mem_inventory \<Rightarrow> import_db \<Rightarrow> (int, string) pydict" where
  "build_pk_mem_host_map opts db_ids iv db =
     (let ids = map (\<lambda>(h, m). (get_instance_id opts (host_vars m), h)) (all_hosts iv);
          known = (\<lambda>i. i \<in> set (dict_keys db_ids));
          by_pk = fold (\<lambda>(i, h). dict_set (the (dict_get db_ids i)) h) (filter (\<lambda>(i, h). known i) ids) [];
          by_id = fold (\<lambda>(i, h). dict_set i h) (filter (\<lambda>(i, h). \<not> known i \<and> i \<noteq> []) ids) [];
          s1 = match_pass (batch_size opts) ih_id (\<lambda>r. dict_get_default by_pk (ih_id r) []) db (sort (dict_keys by_pk)) ([], []);
          s2 = match_pass (batch_size opts) ih_instance_id (\<lambda>r. dict_get_default by_id (ih_instance_id r) []) db (sort (dict_keys by_id)) s1;
          s3 = match_pass (batch_size opts) ih_name ih_name db (sort (dict_keys (all_hosts iv))) s2
      in fold (\<lambda>(h, pk). dict_set pk h) (fst s3) [])"

subsection \<open>Deleting what was not imported\<close>

text \<open>A row that is deleted takes along the rows that refer to it.\<close>

definition delete_host :: "int \<Rightarrow> import_db \<Rightarrow> import_db" where
  "delete_host h db = db\<lparr>i_hosts := filter (\<lambda>r. ih_id r \<noteq> h) (i_hosts db),
     i_members := filter (\<lambda>(g, x). x \<noteq> h) (i_members db), src_hosts := set_discard h (src_hosts db)\<rparr>"

definition delete_hosts :: "import_options \<Rightarrow> (int, string) pydict \<Rightarrow> import_db \<Rightarrow> import_db" where
  "delete_hosts opts pk_map db =
     fold (\<lambda>pks db. fold (\<lambda>r. delete_host (ih_id r)) (hosts_where (\<lambda>r. ih_id r \<in> set pks \<and> ih_id r \<in> set (src_hosts db)) db) db)
       (split_ids (batch_size opts) (sort (filter (\<lambda>h. h \<notin> set (dict_keys pk_map)) (src_hosts db)))) db"

text \<open>
  Signal handlers of \<^verbatim>\<open>forail/main/signals.py\<close> remember the parents, hosts and children of a group that is deleted, and
  afterwards give every parent the hosts and the children.
\<close>

definition migrate :: "int list \<Rightarrow> int list \<Rightarrow> int \<Rightarrow> import_db \<Rightarrow> import_db" where
  "migrate hs cs p db = add_children p cs (add_members p hs db)"

definition delete_group :: "int \<Rightarrow> import_db \<Rightarrow> import_db" where
  "delete_group g db =
     (let ps = map fst (filter (\<lambda>(p, c). c = g) (i_children db));
          hs = map snd (filter (\<lambda>(x, h). x = g) (i_members db));
          cs = map snd (filter (\<lambda>(p, c). p = g) (i_children db));
          db1 = db\<lparr>i_groups := filter (\<lambda>r. ig_id r \<noteq> g) (i_groups db),
            i_members := filter (\<lambda>(x, h). x \<noteq> g) (i_members db),
            i_children := filter (\<lambda>(p, c). p \<noteq> g \<and> c \<noteq> g) (i_children db), src_groups := set_discard g (src_groups db)\<rparr>
      in fold (migrate hs cs) (map ig_id (groups_where (\<lambda>r. ig_id r \<in> set ps) db1)) db1)"

definition delete_groups :: "import_options \<Rightarrow> mem_inventory \<Rightarrow> import_db \<Rightarrow> import_db" where
  "delete_groups opts iv db =
     (let kept = map ig_id (groups_where (\<lambda>r. ig_id r \<in> set (src_groups db) \<and> ig_name r \<in> set (dict_keys (all_groups iv))) db)
      in fold (\<lambda>pks db. fold (\<lambda>r. delete_group (ig_id r)) (groups_where (\<lambda>r. ig_id r \<in> set pks \<and> ig_id r \<in> set (src_groups db)) db) db)
           (split_ids (batch_size opts) (sort (filter (\<lambda>g. g \<notin> set kept) (src_groups db)))) db)"

text \<open>The relations of one group that its source gave it before and that were not imported.\<close>

definition mem_id :: "mem_inventory \<Rightarrow> string \<Rightarrow> string option" where
  "mem_id iv h = (case dict_get (all_hosts iv) h of None \<Rightarrow> None | Some m \<Rightarrow> instance_id m)"

definition own_names :: "mem_inventory \<Rightarrow> mem_group \<Rightarrow> string list" where
  "own_names iv mg = filter (\<lambda>h. mem_id iv h = None) (hosts mg)"

definition own_ids :: "mem_inventory \<Rightarrow> mem_group \<Rightarrow> string list" where
  "own_ids iv mg = map (\<lambda>h. the (mem_id iv h)) (filter (\<lambda>h. mem_id iv h \<noteq> None) (hosts mg))"

definition stale_children :: "mem_inventory \<Rightarrow> mem_group \<Rightarrow> int \<Rightarrow> import_db \<Rightarrow> int list" where
  "stale_children iv mg g db = map ig_id (groups_where (\<lambda>c. (g, ig_id c) \<in> set (i_children db) \<and>
     ig_name c \<notin> set (children mg) \<and> ig_name c \<in> set (dict_keys (all_groups iv))) db)"

definition stale_hosts :: "(string, int) pydict \<Rightarrow> int list \<Rightarrow> mem_inventory \<Rightarrow> mem_group \<Rightarrow> int \<Rightarrow> import_db \<Rightarrow> int list" where
  "stale_hosts db_ids sources iv mg g db =
     (let kept = map snd (filter (\<lambda>(i, pk). i \<in> set (own_ids iv mg)) db_ids)
      in map ih_id (hosts_where (\<lambda>r. (g, ih_id r) \<in> set (i_members db) \<and> ih_id r \<in> set sources \<and>
           ih_name r \<notin> set (own_names iv mg) \<and> ih_instance_id r \<notin> set (own_ids iv mg) \<and> ih_id r \<notin> set kept) db))"

definition clear_group :: "(string, int) pydict \<Rightarrow> int list \<Rightarrow> mem_inventory \<Rightarrow> import_group \<Rightarrow> import_db \<Rightarrow> import_error + import_db" where
  "clear_group db_ids sources iv r db =
     (case dict_get (all_groups iv) (ig_name r) of
        None \<Rightarrow> Inl Missing_Key
      | Some mg \<Rightarrow>
          let g = ig_id r; cs = stale_children iv mg g db; hs = stale_hosts db_ids sources iv mg g db
          in Inr (db\<lparr>i_children := filter (\<lambda>(p, c). \<not> (p = g \<and> c \<in> set cs)) (i_children db),
                     i_members := filter (\<lambda>(x, h). \<not> (x = g \<and> h \<in> set hs)) (i_members db)\<rparr>))"

definition delete_group_children_and_hosts :: "(string, int) pydict \<Rightarrow> mem_inventory \<Rightarrow> import_db \<Rightarrow> import_error + import_db" where
  "delete_group_children_and_hosts db_ids iv db =
     fold_ok (clear_group db_ids (src_hosts db) iv) (groups_where (\<lambda>r. ig_id r \<in> set (src_groups db)) db) db"


subsection \<open>Creating and updating\<close>

definition update_inventory :: "import_options \<Rightarrow> mem_inventory \<Rightarrow> import_db \<Rightarrow> import_db" where
  "update_inventory opts iv db =
     (let old = variables_dict opts (inv_vars db); imported = variables (all_group iv);
          new = (if is_constructed opts \<and> source_overwrite_vars opts then imported else dict_merge old imported)
      in db\<lparr>inv_vars := rewritten new old (inv_vars db)\<rparr>)"

definition put_group :: "import_group \<Rightarrow> import_db \<Rightarrow> import_db" where
  "put_group r db = db\<lparr>i_groups := map (\<lambda>x. if ig_id x = ig_id r then r else x) (i_groups db)\<rparr>"

definition put_host :: "import_host \<Rightarrow> import_db \<Rightarrow> import_db" where
  "put_host r db = db\<lparr>i_hosts := map (\<lambda>x. if ih_id x = ih_id r then r else x) (i_hosts db)\<rparr>"

definition update_db_group :: "import_options \<Rightarrow> mem_inventory \<Rightarrow> import_group \<Rightarrow> import_db \<Rightarrow> import_db" where
  "update_db_group opts iv r db =
     batch_add (batch_size opts) add_src_groups [ig_id r] False
       (put_group (r\<lparr>ig_vars := updated_vars opts (ig_vars r) (variables (dict_get_default (all_groups iv) (ig_name r) empty_group))\<rparr>) db)"

text \<open>The description of a new row; a column that must not be null refuses \<^const>\<open>JNull\<close>.\<close>

definition description_of :: "py_dict \<Rightarrow> import_error + string" where
  "description_of d =
     (let v = dict_get_default d ''_awx_description'' (JStr ''imported'')
      in if v = JNull then Inl Integrity_Error else Inr (py_str v))"

definition create_db_group :: "import_options \<Rightarrow> mem_inventory \<Rightarrow> string \<Rightarrow> import_db \<Rightarrow> import_error + import_db" where
  "create_db_group opts iv name db =
     (let d = variables (dict_get_default (all_groups iv) name empty_group);
          text = json_dumps (JDict (AList.delete ''_awx_description'' d))
      in then_ok (description_of d) (\<lambda>desc.
         Inr (case find (\<lambda>r. ig_name r = name) (i_groups db) of
             Some r \<Rightarrow> batch_add (batch_size opts) add_src_groups [ig_id r] False (put_group (r\<lparr>ig_vars := text, ig_description := desc\<rparr>) db)
           | None \<Rightarrow> batch_add (batch_size opts) add_src_groups [next_group db] False
               (db\<lparr>i_groups := i_groups db @ [\<lparr>ig_id = next_group db, ig_name = name, ig_vars = text, ig_description = desc\<rparr>],
                   next_group := next_group db + 1\<rparr>))))"

definition create_update_groups :: "import_options \<Rightarrow> mem_inventory \<Rightarrow> import_db \<Rightarrow> import_error + import_db" where
  "create_update_groups opts iv db =
     (let names = sort (dict_keys (all_groups iv));
          existing = map ig_name (groups_where (\<lambda>r. ig_name r \<in> set names) db);
          db1 = fold (\<lambda>ns db. fold (update_db_group opts iv) (groups_where (\<lambda>r. ig_name r \<in> set ns) db) db)
            (split_ids (batch_size opts) names) db
      in then_ok (fold_ok (create_db_group opts iv) (filter (\<lambda>n. n \<notin> set existing) names) db1)
           (\<lambda>db2. Inr (batch_add (batch_size opts) add_src_groups [] True db2)))"

text \<open>A host that is matched. Names are unique: a name that another row has is refused.\<close>

definition update_db_host :: "import_options \<Rightarrow> string \<Rightarrow> mem_host \<Rightarrow> import_host \<Rightarrow> import_db \<Rightarrow> import_error + import_db" where
  "update_db_host opts name m r db =
     (let vars = without_remote opts (host_vars m);
          r' = r\<lparr>ih_instance_id := get_instance_id opts (host_vars m), ih_vars := updated_vars opts (ih_vars r) vars,
            ih_enabled := (case get_enabled opts vars of None \<Rightarrow> ih_enabled r | Some b \<Rightarrow> b), ih_name := name\<rparr>
      in if list_ex (\<lambda>x. ih_name x = name \<and> ih_id x \<noteq> ih_id r) (i_hosts db) then Inl Integrity_Error
         else Inr (batch_add (batch_size opts) add_src_hosts [ih_id r] False (put_host r' db)))"

definition update_matched :: "import_options \<Rightarrow> mem_inventory \<Rightarrow> (int, string) pydict \<Rightarrow> import_host \<Rightarrow> import_db \<Rightarrow> import_error + import_db" where
  "update_matched opts iv pk_map r db =
     (let name = dict_get_default pk_map (ih_id r) []
      in case dict_get (all_hosts iv) name of
           None \<Rightarrow> Inl Missing_Key
         | Some m \<Rightarrow> update_db_host opts name m r db)"

definition create_db_host :: "import_options \<Rightarrow> mem_inventory \<Rightarrow> string \<Rightarrow> import_db \<Rightarrow> import_error + import_db" where
  "create_db_host opts iv name db =
     (let d = (case dict_get (all_hosts iv) name of None \<Rightarrow> [] | Some m \<Rightarrow> host_vars m);
          vars = AList.delete ''_awx_description'' d;
          set_enabled = (\<lambda>b. case get_enabled opts vars of None \<Rightarrow> b | Some e \<Rightarrow> e);
          set_id = (\<lambda>i. if instance_id_parts opts = [] then i else get_instance_id opts vars);
          text = json_dumps (JDict (without_remote opts vars))
      in if has_jinja name then Inl Value_Error
         else then_ok (description_of d) (\<lambda>desc.
           Inr (case find (\<lambda>r. ih_name r = name) (i_hosts db) of
               Some r \<Rightarrow> batch_add (batch_size opts) add_src_hosts [ih_id r] False
                 (put_host (r\<lparr>ih_description := desc, ih_enabled := set_enabled (ih_enabled r),
                   ih_instance_id := set_id (ih_instance_id r), ih_vars := text\<rparr>) db)
             | None \<Rightarrow> batch_add (batch_size opts) add_src_hosts [next_host db] False
                 (db\<lparr>i_hosts := i_hosts db @ [\<lparr>ih_id = next_host db, ih_name = name, ih_vars = text, ih_enabled = set_enabled True,
                     ih_instance_id = set_id [], ih_description = desc\<rparr>], next_host := next_host db + 1\<rparr>))))"

definition create_update_hosts :: "import_options \<Rightarrow> mem_inventory \<Rightarrow> (int, string) pydict \<Rightarrow> import_db \<Rightarrow> import_error + import_db" where
  "create_update_hosts opts iv pk_map db =
     (let updated = map snd (filter (\<lambda>(pk, n). pk \<in> set (map ih_id (i_hosts db))) pk_map)
      in then_ok (fold_ok (\<lambda>pks db. fold_ok (update_matched opts iv pk_map) (hosts_where (\<lambda>r. ih_id r \<in> set pks) db) db)
             (split_ids (batch_size opts) (sort (dict_keys pk_map))) db)
           (\<lambda>db1. then_ok (fold_ok (create_db_host opts iv) (sort (filter (\<lambda>h. h \<notin> set updated) (dict_keys (all_hosts iv)))) db1)
             (\<lambda>db2. Inr (batch_add (batch_size opts) add_src_hosts [] True db2))))"

text \<open>
  The relations. The query that is to leave out the children a group already has asks for the rows that have the
  group as \<^emph>\<open>their\<close> child.
\<close>

definition link_children :: "import_options \<Rightarrow> mem_inventory \<Rightarrow> import_group \<Rightarrow> import_db \<Rightarrow> import_db" where
  "link_children opts iv r db =
     (let g = ig_id r; bs = batch_size opts; names = sort (children (dict_get_default (all_groups iv) (ig_name r) empty_group));
          link = (\<lambda>ns db. fold (\<lambda>c. batch_add bs (add_children g) [ig_id c] False)
            (groups_where (\<lambda>c. ig_name c \<in> set ns \<and> (ig_id c, g) \<notin> set (i_children db)) db) db)
      in batch_add bs (add_children g) [] True (fold link (split_ids bs names) db))"

definition create_update_group_children :: "import_options \<Rightarrow> mem_inventory \<Rightarrow> import_db \<Rightarrow> import_db" where
  "create_update_group_children opts iv db =
     fold (\<lambda>ns db. fold (link_children opts iv) (groups_where (\<lambda>r. ig_name r \<in> set ns) db) db)
       (split_ids (batch_size opts) (sort (map fst (filter (\<lambda>(n, g). children g \<noteq> []) (all_groups iv))))) db"

definition link_hosts :: "import_options \<Rightarrow> mem_inventory \<Rightarrow> import_group \<Rightarrow> import_db \<Rightarrow> import_db" where
  "link_hosts opts iv r db =
     (let g = ig_id r; bs = batch_size opts; mg = dict_get_default (all_groups iv) (ig_name r) empty_group;
          link = (\<lambda>key ks db. fold (\<lambda>h. batch_add bs (add_members g) [ih_id h] False)
            (hosts_where (\<lambda>h. key h \<in> set ks \<and> (g, ih_id h) \<notin> set (i_members db)) db) db);
          db1 = fold (link ih_name) (split_ids bs (sort (own_names iv mg))) db
      in batch_add bs (add_members g) [] True (fold (link ih_instance_id) (split_ids bs (sort (own_ids iv mg))) db1))"

definition create_update_group_hosts :: "import_options \<Rightarrow> mem_inventory \<Rightarrow> import_db \<Rightarrow> import_db" where
  "create_update_group_hosts opts iv db =
     fold (\<lambda>ns db. fold (link_hosts opts iv) (groups_where (\<lambda>r. ig_name r \<in> set ns) db) db)
       (split_ids (batch_size opts) (sort (map fst (filter (\<lambda>(n, g). hosts g \<noteq> []) (all_groups iv))))) db"

definition load_into_database :: "import_options \<Rightarrow> mem_inventory \<Rightarrow> import_db \<Rightarrow> import_error + import_db" where
  "load_into_database opts iv0 db =
     (let db_ids = build_db_instance_id_map opts db; iv = build_mem_instance_id_map opts iv0;
          pk_map = build_pk_mem_host_map opts db_ids iv db
      in then_ok (if overwrite opts
                  then delete_group_children_and_hosts db_ids iv (delete_groups opts iv (delete_hosts opts pk_map db))
                  else Inr db) (\<lambda>db1.
         then_ok (create_update_groups opts iv (update_inventory opts iv db1)) (\<lambda>db2.
         then_ok (create_update_hosts opts iv pk_map db2) (\<lambda>db3.
         Inr (create_update_group_hosts opts iv (create_update_group_children opts iv db3))))))"

subsection \<open>The transaction\<close>

text \<open>What \<open>get_licenser().validate()\<close> says, and the limit of the organization, \<^const>\<open>None\<close> without one.\<close>

record license_info =
  license_type :: string
  instance_count :: int
  free_instances :: int
  time_remaining :: int
  trial :: bool

definition check_license :: "license_info \<Rightarrow> bool" where
  "check_license l \<longleftrightarrow>
     (if license_type l = ''UNLICENSED'' then False
      else if license_type l = ''open'' then True
      else let hard = trial l \<or> instance_count l = 10
           in \<not> (hard \<and> (time_remaining l \<le> 0 \<or> free_instances l < 0)))"

definition check_org_host_limit :: "license_info \<Rightarrow> int option \<Rightarrow> int \<Rightarrow> bool" where
  "check_org_host_limit l max_hosts active \<longleftrightarrow>
     license_type l = ''open'' \<or> (case max_hosts of None \<Rightarrow> True | Some n \<Rightarrow> n = 0 \<or> active \<le> n)"

text \<open>
  The flags that a refused import sets on the update, and the tables. The license and the number of active
  hosts depend on the tables.
\<close>

record import_state =
  tables :: import_db
  update_status :: string
  license_error :: bool
  org_host_limit_error :: bool

record import_env =
  license_of :: "import_db \<Rightarrow> license_info"
  max_hosts :: "int option"
  active_count :: "import_db \<Rightarrow> int"
  filters :: mem_filters
  exclude_empty_groups :: bool

definition perform_update :: "import_env \<Rightarrow> import_options \<Rightarrow> py_dict \<Rightarrow> import_state \<Rightarrow> import_error option \<times> import_state" where
  "perform_update env opts data s =
     (let licensed = (\<lambda>db. check_license (license_of env db));
          within_limit = (\<lambda>db. check_org_host_limit (license_of env db) (max_hosts env) (active_count env db))
      in if \<not> licensed (tables s) then (Some Permission_Denied, s\<lparr>license_error := True\<rparr>)
         else if \<not> within_limit (tables s) then (Some Permission_Denied, s\<lparr>org_host_limit_error := True\<rparr>)
         else let s1 = s\<lparr>update_status := ''running''\<rparr>
              in case dict_to_mem_data (filters env) data empty_inventory of
                   Inl e \<Rightarrow> (Some (Reading e), s1)
                 | Inr iv \<Rightarrow>
                   (case load_into_database opts (if exclude_empty_groups env then delete_empty_groups iv else iv) (tables s1) of
                      Inl e \<Rightarrow> (Some e, s1)
                    | Inr t \<Rightarrow>
                        if \<not> licensed t then (Some Permission_Denied, s1\<lparr>license_error := True\<rparr>)
                        else if \<not> within_limit t then (Some Permission_Denied, s1\<lparr>org_host_limit_error := True\<rparr>)
                        else (None, s1\<lparr>tables := t\<rparr>)))"

end
