(* ===== verification/ImportRefinement.thy ===== *)
theory ImportRefinement
  imports InventoryImport
begin

section \<open>What an import does to names\<close>

text \<open>
  An abstract description of \<open>load_into_database\<close> (\<^verbatim>\<open>inventory_import.py\<close>) when no variable holds
  instance ids: sets of names instead of rows, one equation per stage. The stages of the code
  are shown to implement it, in every order of the queries and with batches of any size.
\<close>

record inv_view =
  v_hosts :: "string set"
  v_groups :: "string set"
  v_members :: "(string \<times> string) set"
  v_children :: "(string \<times> string) set"
  v_src_hosts :: "string set"
  v_src_groups :: "string set"

text \<open>A pair of \<open>R\<close>, or one that is reached through links of \<open>C\<close> to elements of \<open>D\<close>.\<close>

inductive through :: "'a set \<Rightarrow> ('a \<times> 'a) set \<Rightarrow> ('a \<times> 'b) set \<Rightarrow> 'a \<Rightarrow> 'b \<Rightarrow> bool" for D C R where
  direct: "(x, y) \<in> R \<Longrightarrow> through D C R x y"
| via: "(x, d) \<in> C \<Longrightarrow> d \<in> D \<Longrightarrow> through D C R d y \<Longrightarrow> through D C R x y"

definition named_members :: "mem_inventory \<Rightarrow> (string \<times> string) set" where
  "named_members iv = {(g, h) \<in> host_rel iv. g \<noteq> ''all''}"

definition named_children :: "mem_inventory \<Rightarrow> (string \<times> string) set" where
  "named_children iv = {(p, c) \<in> child_rel iv. p \<noteq> ''all''}"

text \<open>Overwriting: what the source had stored and was not imported goes; groups that go pass on what they held.\<close>

definition view_without_hosts :: "mem_inventory \<Rightarrow> inv_view \<Rightarrow> inv_view" where
  "view_without_hosts iv v =
     (let gone = v_src_hosts v - hset iv
      in v\<lparr>v_hosts := v_hosts v - gone, v_members := {(g, h) \<in> v_members v. h \<notin> gone}, v_src_hosts := v_src_hosts v - gone\<rparr>)"

definition view_without_groups :: "mem_inventory \<Rightarrow> inv_view \<Rightarrow> inv_view" where
  "view_without_groups iv v =
     (let gone = v_src_groups v - gset iv
      in v\<lparr>v_groups := v_groups v - gone,
           v_members := {(g, h). g \<notin> gone \<and> through gone (v_children v) (v_members v) g h},
           v_children := {(p, c). p \<notin> gone \<and> c \<notin> gone \<and> through gone (v_children v) (v_children v) p c},
           v_src_groups := v_src_groups v - gone\<rparr>)"

definition view_cleared :: "mem_inventory \<Rightarrow> inv_view \<Rightarrow> inv_view" where
  "view_cleared iv v =
     v\<lparr>v_members := v_members v - (v_src_groups v \<times> v_src_hosts v - host_rel iv),
       v_children := v_children v - (v_src_groups v \<times> gset iv - child_rel iv)\<rparr>"

definition view_merged :: "mem_inventory \<Rightarrow> inv_view \<Rightarrow> inv_view" where
  "view_merged iv v =
     \<lparr>v_hosts = v_hosts v \<union> hset iv, v_groups = v_groups v \<union> gset iv, v_members = v_members v \<union> named_members iv,
      v_children = v_children v \<union> named_children iv, v_src_hosts = v_src_hosts v \<union> hset iv, v_src_groups = v_src_groups v \<union> gset iv\<rparr>"

definition import_view :: "bool \<Rightarrow> mem_inventory \<Rightarrow> inv_view \<Rightarrow> inv_view" where
  "import_view ov iv v =
     view_merged iv (if ov then view_cleared iv (view_without_groups iv (view_without_hosts iv v)) else v)"

subsection \<open>The view of the tables\<close>

definition hosts_rel :: "import_db \<Rightarrow> (int \<times> string) set" where
  "hosts_rel db = (\<lambda>r. (ih_id r, ih_name r)) ` set (i_hosts db)"

definition groups_rel :: "import_db \<Rightarrow> (int \<times> string) set" where
  "groups_rel db = (\<lambda>r. (ig_id r, ig_name r)) ` set (i_groups db)"

definition view :: "import_db \<Rightarrow> inv_view" where
  "view db =
     \<lparr>v_hosts = snd ` hosts_rel db, v_groups = snd ` groups_rel db,
      v_members = {(a, b). \<exists>g h. (g, a) \<in> groups_rel db \<and> (h, b) \<in> hosts_rel db \<and> (g, h) \<in> set (i_members db)},
      v_children = {(a, b). \<exists>p c. (p, a) \<in> groups_rel db \<and> (c, b) \<in> groups_rel db \<and> (p, c) \<in> set (i_children db)},
      v_src_hosts = {n. \<exists>h \<in> set (src_hosts db). (h, n) \<in> hosts_rel db},
      v_src_groups = {n. \<exists>g \<in> set (src_groups db). (g, n) \<in> groups_rel db}\<rparr>"

definition hosts_ok :: "import_db \<Rightarrow> bool" where
  "hosts_ok db \<longleftrightarrow> distinct (map ih_id (i_hosts db)) \<and> distinct (map ih_name (i_hosts db)) \<and>
     set (src_hosts db) \<subseteq> set (map ih_id (i_hosts db)) \<and> distinct (src_hosts db) \<and> (\<forall>r \<in> set (i_hosts db). ih_id r < next_host db)"

definition groups_ok :: "import_db \<Rightarrow> bool" where
  "groups_ok db \<longleftrightarrow> distinct (map ig_id (i_groups db)) \<and> distinct (map ig_name (i_groups db)) \<and>
     set (src_groups db) \<subseteq> set (map ig_id (i_groups db)) \<and> distinct (src_groups db) \<and> (\<forall>r \<in> set (i_groups db). ig_id r < next_group db) \<and>
     set (i_children db) \<subseteq> set (map ig_id (i_groups db)) \<times> set (map ig_id (i_groups db))"

definition db_ok :: "import_db \<Rightarrow> bool" where
  "db_ok db \<longleftrightarrow> hosts_ok db \<and> groups_ok db \<and>
     set (i_members db) \<subseteq> set (map ig_id (i_groups db)) \<times> set (map ih_id (i_hosts db)) \<and> batch db = []"

lemma set_where [simp]:
  "set (hosts_where P db) = {r \<in> set (i_hosts db). P r}" "set (groups_where Q db) = {r \<in> set (i_groups db). Q r}"
  by (auto simp: hosts_where_def groups_where_def)

lemma distinct_where:
  "distinct (map ih_id (i_hosts db)) \<Longrightarrow> distinct (map ih_id (hosts_where P db))"
  "distinct (map ig_id (i_groups db)) \<Longrightarrow> distinct (map ig_id (groups_where Q db))"
  by (simp_all add: hosts_where_def groups_where_def distinct_map) (auto simp: inj_on_def)

lemma rel_domain: "fst ` hosts_rel db = ih_id ` set (i_hosts db)" "fst ` groups_rel db = ig_id ` set (i_groups db)"
  by (simp_all add: hosts_rel_def groups_rel_def image_image)

lemma rel_unique:
  assumes "distinct (map ih_id (i_hosts db))" "distinct (map ih_name (i_hosts db))"
  shows "(i, n) \<in> hosts_rel db \<Longrightarrow> (i, m) \<in> hosts_rel db \<Longrightarrow> n = m" "(i, n) \<in> hosts_rel db \<Longrightarrow> (j, n) \<in> hosts_rel db \<Longrightarrow> i = j"
  using assms by (auto simp: hosts_rel_def distinct_map dest: inj_onD)

lemma grel_unique:
  assumes "distinct (map ig_id (i_groups db))" "distinct (map ig_name (i_groups db))"
  shows "(i, n) \<in> groups_rel db \<Longrightarrow> (i, m) \<in> groups_rel db \<Longrightarrow> n = m" "(i, n) \<in> groups_rel db \<Longrightarrow> (j, n) \<in> groups_rel db \<Longrightarrow> i = j"
  using assms by (auto simp: groups_rel_def distinct_map dest: inj_onD)

subsection \<open>Deleting in batches\<close>

text \<open>
  Rows that a query of each batch finds are deleted one by one. The contract says what such a query
  finds and what a deletion removes; then the batches delete each of the given keys once.
\<close>

locale batched_deletion =
  fixes ids :: "'s \<Rightarrow> int set" and query :: "int list \<Rightarrow> 's \<Rightarrow> int list" and del :: "int \<Rightarrow> 's \<Rightarrow> 's" and ok :: "'s \<Rightarrow> bool"
  assumes query_set: "ok s \<Longrightarrow> set (query ks s) = set ks \<inter> ids s"
    and query_distinct: "ok s \<Longrightarrow> distinct (query ks s)"
    and del_ids: "ok s \<Longrightarrow> k \<in> ids s \<Longrightarrow> ids (del k s) = ids s - {k}"
    and del_ok: "ok s \<Longrightarrow> k \<in> ids s \<Longrightarrow> ok (del k s)"
begin

lemma fold_del: "ok s \<Longrightarrow> distinct ks \<Longrightarrow> set ks \<subseteq> ids s \<Longrightarrow> ok (fold del ks s) \<and> ids (fold del ks s) = ids s - set ks"
proof (induction ks arbitrary: s)
  case (Cons k ks)
  then have "ok (del k s)" "ids (del k s) = ids s - {k}" using del_ok del_ids by simp_all
  moreover have "set ks \<subseteq> ids s - {k}" using Cons.prems by auto
  ultimately show ?case using Cons.IH [of "del k s"] Cons.prems by auto
qed simp

lemma batches:
  "ok s \<Longrightarrow> \<exists>L. distinct L \<and> set L = (\<Union>ks \<in> set kss. set ks) \<inter> ids s \<and> fold (\<lambda>ks s. fold del (query ks s) s) kss s = fold del L s"
proof (induction kss arbitrary: s)
  case (Cons ks kss)
  let ?L = "query ks s" and ?t = "fold del (query ks s) s"
  have q: "set ?L = set ks \<inter> ids s" "distinct ?L" using query_set query_distinct Cons.prems by blast+
  have t: "ok ?t" "ids ?t = ids s - set ?L" using fold_del [OF Cons.prems q(2)] q(1) by auto
  from Cons.IH [OF t(1)] obtain L where
    L: "distinct L" "set L = (\<Union>ks \<in> set kss. set ks) \<inter> ids ?t" "fold (\<lambda>ks s. fold del (query ks s) s) kss ?t = fold del L ?t" by blast
  have "distinct (?L @ L)" using q L(1,2) t(2) by auto
  moreover have "set (?L @ L) = (\<Union>ks \<in> set (ks # kss). set ks) \<inter> ids s" using q(1) L(2) t(2) by auto
  ultimately show ?case using L(3) by (intro exI [of _ "?L @ L"]) simp
qed simp

end

subsection \<open>Deleting hosts\<close>

definition src_host_query :: "int list \<Rightarrow> import_db \<Rightarrow> int list" where
  "src_host_query ks db = map ih_id (hosts_where (\<lambda>r. ih_id r \<in> set ks \<and> ih_id r \<in> set (src_hosts db)) db)"

definition some_hosts_ok :: "import_db \<Rightarrow> bool" where
  "some_hosts_ok db \<longleftrightarrow> distinct (map ih_id (i_hosts db)) \<and> set (src_hosts db) \<subseteq> set (map ih_id (i_hosts db))"

lemma delete_host_simps [simp]:
  "i_hosts (delete_host h db) = filter (\<lambda>r. ih_id r \<noteq> h) (i_hosts db)"
  "src_hosts (delete_host h db) = set_discard h (src_hosts db)"
  "i_members (delete_host h db) = filter (\<lambda>(g, x). x \<noteq> h) (i_members db)"
  by (simp_all add: delete_host_def)

lemma distinct_map_filter_id: "distinct (map f xs) \<Longrightarrow> distinct (map f (filter P xs))"
  by (auto simp: distinct_map inj_on_def)

interpretation host_deletion: batched_deletion "\<lambda>db. set (src_hosts db)" src_host_query delete_host some_hosts_ok
  by unfold_locales
    (auto simp: some_hosts_ok_def src_host_query_def distinct_where distinct_map_filter_id)

lemma delete_hosts_fold:
  "delete_hosts opts m db = fold (\<lambda>ks db. fold delete_host (src_host_query ks db) db)
     (split_ids (batch_size opts) (sort (filter (\<lambda>h. h \<notin> set (dict_keys m)) (src_hosts db)))) db"
  by (simp add: delete_hosts_def src_host_query_def fold_map comp_def)

lemma fold_delete_host:
  "fold delete_host L db = db\<lparr>i_hosts := filter (\<lambda>r. ih_id r \<notin> set L) (i_hosts db),
     i_members := filter (\<lambda>(g, x). x \<notin> set L) (i_members db), src_hosts := filter (\<lambda>h. h \<notin> set L) (src_hosts db)\<rparr>"
proof (induction L arbitrary: db)
  case (Cons h L)
  have f: "filter P (filter Q xs) = filter (\<lambda>x. Q x \<and> P x) xs" for P Q and xs :: "'a list" by simp
  show ?case
    by (simp only: fold.simps comp_def Cons.IH)
      (simp add: delete_host_def set_discard_def conj_commute case_prod_unfold)
qed simp

lemma delete_hosts_effect:
  assumes "hosts_ok db" "batch_size opts \<noteq> 0"
  shows "\<exists>L. set L = set (src_hosts db) - set (dict_keys m) \<and>
    delete_hosts opts m db = db\<lparr>i_hosts := filter (\<lambda>r. ih_id r \<notin> set L) (i_hosts db),
     i_members := filter (\<lambda>(g, x). x \<notin> set L) (i_members db), src_hosts := filter (\<lambda>h. h \<notin> set L) (src_hosts db)\<rparr>"
proof -
  have "some_hosts_ok db" using assms(1) by (simp add: hosts_ok_def some_hosts_ok_def)
  from host_deletion.batches [OF this, of "split_ids (batch_size opts) (sort (filter (\<lambda>h. h \<notin> set (dict_keys m)) (src_hosts db)))"]
  obtain L where "set L = (set (src_hosts db) - set (dict_keys m)) \<inter> set (src_hosts db)"
    "delete_hosts opts m db = fold delete_host L db"
    unfolding delete_hosts_fold set_split_ids [OF assms(2)] by (auto simp: set_diff_eq)
  then show ?thesis unfolding fold_delete_host by blast
qed

subsection \<open>Deleting groups\<close>

lemma through_mono: "through D C R x y \<Longrightarrow> D \<subseteq> D' \<Longrightarrow> C \<subseteq> C' \<Longrightarrow> R \<subseteq> R' \<Longrightarrow> through D' C' R' x y"
  by (induction rule: through.induct) (auto intro: through.intros)

lemma through_empty: "through {} C R x y \<longleftrightarrow> (x, y) \<in> R"
  by (auto elim: through.cases intro: through.intros)

lemma through_trans: "through D C C x d \<Longrightarrow> d \<in> D \<Longrightarrow> through D C R d y \<Longrightarrow> through D C R x y"
  by (induction rule: through.induct) (auto intro: through.intros)

text \<open>Taking out one element, and passing on what it linked.\<close>

definition bypass :: "'a \<Rightarrow> ('a \<times> 'a) set \<Rightarrow> ('a \<times> 'b) set \<Rightarrow> ('a \<times> 'b) set" where
  "bypass g C R = {(x, y). x \<noteq> g \<and> ((x, y) \<in> R \<or> (x, g) \<in> C \<and> (g, y) \<in> R)}"

definition inner_bypass :: "'a \<Rightarrow> ('a \<times> 'a) set \<Rightarrow> ('a \<times> 'a) set" where
  "inner_bypass g C = {(x, y) \<in> bypass g C C. y \<noteq> g}"

lemma through_bypass:
  assumes "(g, g) \<notin> C" "x \<noteq> g" "g \<notin> D"
  shows "through D (inner_bypass g C) (bypass g C R) x y \<longleftrightarrow> through (insert g D) C R x y"
proof
  show "through (insert g D) C R x y" if "through D (inner_bypass g C) (bypass g C R) x y" using that
  proof (induction rule: through.induct)
    case (direct x y)
    then show ?case by (auto simp: bypass_def intro: through.intros)
  next
    case (via x d y)
    from via(1) have "(x, d) \<in> C \<or> (x, g) \<in> C \<and> (g, d) \<in> C" by (auto simp: inner_bypass_def bypass_def)
    then show ?case using via(2,4) by (auto intro: through.intros)
  qed
next
  have "through (insert g D) C R x y \<Longrightarrow>
    (x \<noteq> g \<longrightarrow> through D (inner_bypass g C) (bypass g C R) x y) \<and>
    (x = g \<longrightarrow> (\<forall>w. (w, g) \<in> C \<longrightarrow> through D (inner_bypass g C) (bypass g C R) w y))" for x
  proof (induction rule: through.induct)
    case (direct x y)
    then show ?case using assms(1) by (auto simp: bypass_def intro!: through.direct)
  next
    case (via x d y)
    show ?case
    proof (cases "d = g")
      case True
      then show ?thesis using via assms(1) by auto
    next
      case False
      with via have step: "through D (inner_bypass g C) (bypass g C R) d y" "d \<in> D" by auto
      have "(x, d) \<in> inner_bypass g C" if "x \<noteq> g" using that via(1) False by (auto simp: inner_bypass_def bypass_def)
      moreover have "(w, d) \<in> inner_bypass g C" if "x = g" "(w, g) \<in> C" for w
        using that via(1) False assms(1) by (auto simp: inner_bypass_def bypass_def)
      ultimately show ?thesis using step by (auto intro: through.via)
    qed
  qed
  then show "through (insert g D) C R x y \<Longrightarrow> through D (inner_bypass g C) (bypass g C R) x y" using assms(2) by blast
qed

lemma acyclic_inner_bypass: "acyclic C \<Longrightarrow> acyclic (inner_bypass g C)"
proof -
  assume C: "acyclic C"
  have "inner_bypass g C \<subseteq> C\<^sup>+" by (auto simp: inner_bypass_def bypass_def)
  then have "(inner_bypass g C)\<^sup>+ \<subseteq> C\<^sup>+" by (metis trancl_mono_subset trancl_id trans_trancl)
  with C show ?thesis by (auto simp: acyclic_def)
qed

definition src_group_query :: "int list \<Rightarrow> import_db \<Rightarrow> int list" where
  "src_group_query ks db = map ig_id (groups_where (\<lambda>r. ig_id r \<in> set ks \<and> ig_id r \<in> set (src_groups db)) db)"

definition some_groups_ok :: "import_db \<Rightarrow> bool" where
  "some_groups_ok db \<longleftrightarrow> distinct (map ig_id (i_groups db)) \<and> set (src_groups db) \<subseteq> ig_id ` set (i_groups db) \<and>
     set (i_children db) \<subseteq> ig_id ` set (i_groups db) \<times> ig_id ` set (i_groups db) \<and> acyclic (set (i_children db))"

lemma fold_migrate:
  "i_groups (fold (migrate hs cs) ps db) = i_groups db" "src_groups (fold (migrate hs cs) ps db) = src_groups db"
  "i_hosts (fold (migrate hs cs) ps db) = i_hosts db" "src_hosts (fold (migrate hs cs) ps db) = src_hosts db"
  "batch (fold (migrate hs cs) ps db) = batch db" "next_host (fold (migrate hs cs) ps db) = next_host db"
  "next_group (fold (migrate hs cs) ps db) = next_group db"
  "set (i_members (fold (migrate hs cs) ps db)) = set (i_members db) \<union> set ps \<times> set hs"
  "set (i_children (fold (migrate hs cs) ps db)) = set (i_children db) \<union> set ps \<times> set cs"
  by (induction ps arbitrary: db) (auto simp: migrate_def add_members_def add_children_def)

lemma delete_group_effect:
  assumes "some_groups_ok db"
  shows "i_groups (delete_group g db) = filter (\<lambda>r. ig_id r \<noteq> g) (i_groups db)"
    "src_groups (delete_group g db) = set_discard g (src_groups db)"
    "i_hosts (delete_group g db) = i_hosts db" "src_hosts (delete_group g db) = src_hosts db" "batch (delete_group g db) = batch db"
    "next_host (delete_group g db) = next_host db" "next_group (delete_group g db) = next_group db"
    "set (i_members (delete_group g db)) = bypass g (set (i_children db)) (set (i_members db))"
    "set (i_children (delete_group g db)) = inner_bypass g (set (i_children db))"
proof -
  have C: "(g, g) \<notin> set (i_children db)" "set (i_children db) \<subseteq> ig_id ` set (i_groups db) \<times> ig_id ` set (i_groups db)"
    using assms by (auto simp: some_groups_ok_def acyclic_def)
  let ?db = "db\<lparr>i_groups := filter (\<lambda>r. ig_id r \<noteq> g) (i_groups db), i_members := filter (\<lambda>(x, h). x \<noteq> g) (i_members db),
    i_children := filter (\<lambda>(p, c). p \<noteq> g \<and> c \<noteq> g) (i_children db), src_groups := set_discard g (src_groups db)\<rparr>"
  let ?hs = "map snd (filter (\<lambda>(x, h). x = g) (i_members db))" and ?cs = "map snd (filter (\<lambda>(p, c). p = g) (i_children db))"
  let ?ps = "map ig_id (groups_where (\<lambda>r. ig_id r \<in> set (map fst (filter (\<lambda>(p, c). c = g) (i_children db)))) ?db)"
  have def': "delete_group g db = fold (migrate ?hs ?cs) ?ps ?db" by (simp only: delete_group_def Let_def)
  have "ig_id ` {r \<in> set (i_groups db). ig_id r \<noteq> g \<and> (ig_id r, g) \<in> set (i_children db)} = {x. (x, g) \<in> set (i_children db)}"
  proof (rule set_eqI, unfold mem_Collect_eq)
    fix x
    have "(x, g) \<in> set (i_children db) \<Longrightarrow> x \<noteq> g \<and> (\<exists>r \<in> set (i_groups db). ig_id r = x)" using C by auto
    then show "x \<in> ig_id ` {r \<in> set (i_groups db). ig_id r \<noteq> g \<and> (ig_id r, g) \<in> set (i_children db)} \<longleftrightarrow> (x, g) \<in> set (i_children db)"
      by blast
  qed
  moreover have "set ?ps = ig_id ` {r \<in> set (i_groups db). ig_id r \<noteq> g \<and> (ig_id r, g) \<in> set (i_children db)}" by force
  ultimately have ps: "set ?ps = {x. (x, g) \<in> set (i_children db)}" by (simp only:)
  have hs: "set ?hs = {h. (g, h) \<in> set (i_members db)}" "set ?cs = {c. (g, c) \<in> set (i_children db)}" by force+
  show "set (i_members (delete_group g db)) = bypass g (set (i_children db)) (set (i_members db))"
    unfolding def' fold_migrate ps hs using C(1) by (auto simp: bypass_def)
  show "set (i_children (delete_group g db)) = inner_bypass g (set (i_children db))"
    unfolding def' fold_migrate ps hs using C(1) by (auto simp: bypass_def inner_bypass_def)
qed (simp_all add: delete_group_def Let_def fold_migrate)

lemma delete_group_keeps_ok:
  assumes "some_groups_ok db"
  shows "some_groups_ok (delete_group g db)"
proof -
  note eff = delete_group_effect [OF assms, of g]
  have "acyclic (inner_bypass g (set (i_children db)))" using assms by (auto simp: some_groups_ok_def intro: acyclic_inner_bypass)
  moreover have "inner_bypass g (set (i_children db)) \<subseteq> (ig_id ` set (i_groups db) - {g}) \<times> (ig_id ` set (i_groups db) - {g})"
    using assms by (auto simp: some_groups_ok_def inner_bypass_def bypass_def)
  moreover have "ig_id ` {r \<in> set (i_groups db). ig_id r \<noteq> g} = ig_id ` set (i_groups db) - {g}" by auto
  ultimately show ?thesis using assms unfolding some_groups_ok_def eff
    by (auto simp: distinct_map_filter_id)
qed

interpretation group_deletion: batched_deletion "\<lambda>db. set (src_groups db)" src_group_query delete_group some_groups_ok
proof unfold_locales
  fix s ks
  assume s: "some_groups_ok s"
  show "set (src_group_query ks s) = set ks \<inter> set (src_groups s)"
    using s by (auto simp: some_groups_ok_def src_group_query_def)
  show "distinct (src_group_query ks s)" using s by (simp add: some_groups_ok_def src_group_query_def distinct_where)
qed (simp_all add: delete_group_effect delete_group_keeps_ok)

lemma fold_delete_group:
  assumes "some_groups_ok db" "distinct L"
  shows "i_groups (fold delete_group L db) = filter (\<lambda>r. ig_id r \<notin> set L) (i_groups db) \<and>
    src_groups (fold delete_group L db) = filter (\<lambda>g. g \<notin> set L) (src_groups db) \<and>
    i_hosts (fold delete_group L db) = i_hosts db \<and> src_hosts (fold delete_group L db) = src_hosts db \<and> batch (fold delete_group L db) = batch db \<and>
    next_host (fold delete_group L db) = next_host db \<and> next_group (fold delete_group L db) = next_group db \<and>
    set (i_members (fold delete_group L db)) = {(x, y). x \<notin> set L \<and> through (set L) (set (i_children db)) (set (i_members db)) x y} \<and>
    set (i_children (fold delete_group L db)) =
      {(x, y). x \<notin> set L \<and> y \<notin> set L \<and> through (set L) (set (i_children db)) (set (i_children db)) x y}"
  using assms
proof (induction L arbitrary: db)
  case (Cons g L)
  let ?t = "delete_group g db" and ?C = "set (i_children db)"
  note eff = delete_group_effect [OF Cons.prems(1), of g]
  have g: "(g, g) \<notin> ?C" "g \<notin> set L" using Cons.prems by (auto simp: some_groups_ok_def acyclic_def)
  have inner: "through (set L) (inner_bypass g ?C) (inner_bypass g ?C) x y \<longleftrightarrow> through (insert g (set L)) ?C ?C x y" if "x \<noteq> g" "y \<noteq> g" for x y
  proof -
    have to: "through (set L) (inner_bypass g ?C) (bypass g ?C ?C) x y \<Longrightarrow> y \<noteq> g \<Longrightarrow> through (set L) (inner_bypass g ?C) (inner_bypass g ?C) x y" for x y
    proof (induction rule: through.induct)
      case (direct x y)
      then show ?case by (intro through.direct) (simp add: inner_bypass_def)
    next
      case (via x d y)
      show ?case by (rule through.via [OF via(1,2) via(4) [OF via(5)]])
    qed
    have fro: "through (set L) (inner_bypass g ?C) (inner_bypass g ?C) x y \<Longrightarrow> through (set L) (inner_bypass g ?C) (bypass g ?C ?C) x y" for x y
      by (erule through_mono) (auto simp: inner_bypass_def)
    have "through (set L) (inner_bypass g ?C) (inner_bypass g ?C) x y \<longleftrightarrow> through (set L) (inner_bypass g ?C) (bypass g ?C ?C) x y"
      using to [of x y, OF _ that(2)] fro [of x y] by (rule iffI [rotated])
    also have "\<dots> \<longleftrightarrow> through (insert g (set L)) ?C ?C x y" by (rule through_bypass [OF g(1) that(1) g(2)])
    finally show ?thesis .
  qed
  have outer: "through (set L) (inner_bypass g ?C) (bypass g ?C (set (i_members db))) x y \<longleftrightarrow>
      through (insert g (set L)) ?C (set (i_members db)) x y" if "x \<noteq> g" for x y
    using through_bypass [OF g(1) that g(2)] .
  have m: "{(x, y). x \<notin> set L \<and> through (set L) (inner_bypass g ?C) (bypass g ?C (set (i_members db))) x y} =
      {(x, y). x \<notin> set (g # L) \<and> through (set (g # L)) ?C (set (i_members db)) x y}"
  proof -
    have "\<not> through (set L) (inner_bypass g ?C) (bypass g ?C (set (i_members db))) g y" for y
      by (auto elim!: through.cases simp: inner_bypass_def bypass_def)
    then have "x \<notin> set L \<and> through (set L) (inner_bypass g ?C) (bypass g ?C (set (i_members db))) x y \<longleftrightarrow>
        x \<notin> set (g # L) \<and> through (set (g # L)) ?C (set (i_members db)) x y" for x y
      using outer [of x y] by (cases "x = g") simp_all
    then show ?thesis by presburger
  qed
  have c: "{(x, y). x \<notin> set L \<and> y \<notin> set L \<and> through (set L) (inner_bypass g ?C) (inner_bypass g ?C) x y} =
      {(x, y). x \<notin> set (g # L) \<and> y \<notin> set (g # L) \<and> through (set (g # L)) ?C ?C x y}"
  proof -
    have "\<not> through (set L) (inner_bypass g ?C) (inner_bypass g ?C) g y" for y
      by (auto elim!: through.cases simp: inner_bypass_def bypass_def)
    moreover have "through (set L) (inner_bypass g ?C) (inner_bypass g ?C) x y \<Longrightarrow> y \<noteq> g" for x y
      by (induction rule: through.induct) (auto simp: inner_bypass_def)
    ultimately have "x \<notin> set L \<and> y \<notin> set L \<and> through (set L) (inner_bypass g ?C) (inner_bypass g ?C) x y \<longleftrightarrow>
        x \<notin> set (g # L) \<and> y \<notin> set (g # L) \<and> through (set (g # L)) ?C ?C x y" for x y
      using inner [of x y] by (cases "x = g \<or> y = g") auto
    then show ?thesis by presburger
  qed
  have rest: "filter (\<lambda>r. ig_id r \<notin> set L) (filter (\<lambda>r. ig_id r \<noteq> g) (i_groups db)) = filter (\<lambda>r. ig_id r \<notin> set (g # L)) (i_groups db)"
    "filter (\<lambda>x. x \<notin> set L) (set_discard g (src_groups db)) = filter (\<lambda>x. x \<notin> set (g # L)) (src_groups db)"
    by (simp_all add: set_discard_def conj_commute)
  have "distinct L" using Cons.prems(2) by simp
  note ih = Cons.IH [OF delete_group_keeps_ok [OF Cons.prems(1)] this, of g, unfolded eff m c rest]
  then show ?case by simp
qed (simp_all add: through_empty)

lemma delete_groups_effect:
  assumes "some_groups_ok db" "distinct (map ig_name (i_groups db))" "batch_size opts \<noteq> 0"
  shows "\<exists>L. distinct L \<and> set L = {g \<in> set (src_groups db). \<forall>n \<in> gset iv. (g, n) \<notin> groups_rel db} \<and> delete_groups opts iv db = fold delete_group L db"
proof -
  let ?kept = "map ig_id (groups_where (\<lambda>r. ig_id r \<in> set (src_groups db) \<and> ig_name r \<in> set (dict_keys (all_groups iv))) db)"
  let ?gone = "sort (filter (\<lambda>g. g \<notin> set ?kept) (src_groups db))"
  have fld: "delete_groups opts iv db = fold (\<lambda>ks db. fold delete_group (src_group_query ks db) db) (split_ids (batch_size opts) ?gone) db"
    by (simp add: delete_groups_def Let_def src_group_query_def fold_map comp_def)
  have "set ?gone = {g \<in> set (src_groups db). \<forall>n \<in> gset iv. (g, n) \<notin> groups_rel db}"
  proof -
    have "g \<in> ig_id ` {r \<in> set (i_groups db). ig_id r \<in> set (src_groups db) \<and> ig_name r \<in> gset iv} \<longleftrightarrow> (\<exists>n \<in> gset iv. (g, n) \<in> groups_rel db)"
      if "g \<in> set (src_groups db)" for g using that unfolding groups_rel_def by blast
    then show ?thesis unfolding gset_def by auto
  qed
  with group_deletion.batches [OF assms(1), of "split_ids (batch_size opts) ?gone"] show ?thesis
    unfolding fld set_split_ids [OF assms(3)] by (metis (no_types, lifting) Int_absorb2 mem_Collect_eq subsetI)
qed

subsection \<open>Clearing relations\<close>

text \<open>An inventory that was just read, without instance ids.\<close>

definition plain_import :: "import_options \<Rightarrow> mem_inventory \<Rightarrow> bool" where
  "plain_import opts iv \<longleftrightarrow> instance_id_parts opts = [] \<and> batch_size opts \<noteq> 0 \<and> mem_ok iv \<and> (\<forall>(h, m) \<in> set (all_hosts iv). instance_id m = None)"

lemma plain_ids:
  assumes "plain_import opts iv"
  shows "build_db_instance_id_map opts db = []" "build_mem_instance_id_map opts iv = iv" "get_instance_id opts d = []"
    "mem_id iv h = None" "own_names iv mg = hosts mg" "own_ids iv mg = []"
proof -
  show "build_db_instance_id_map opts db = []" "get_instance_id opts d = []"
    using assms by (simp_all add: plain_import_def build_db_instance_id_map_def get_instance_id_def py_str_def)
  show "build_mem_instance_id_map opts iv = iv" using assms by (simp add: plain_import_def build_mem_instance_id_map_def)
  show id: "mem_id iv h = None" for h
    using assms by (auto simp: plain_import_def mem_id_def split: option.splits dest!: map_of_SomeD)
  show "own_names iv mg = hosts mg" "own_ids iv mg = []" by (simp_all add: own_names_def own_ids_def id)
qed

definition stale_child_links :: "mem_inventory \<Rightarrow> import_group \<Rightarrow> import_db \<Rightarrow> (int \<times> int) set" where
  "stale_child_links iv r db = {(g, c). g = ig_id r \<and> (\<exists>n \<in> gset iv. (c, n) \<in> groups_rel db \<and> (ig_name r, n) \<notin> child_rel iv)}"

definition stale_member_links :: "int list \<Rightarrow> mem_inventory \<Rightarrow> import_group \<Rightarrow> import_db \<Rightarrow> (int \<times> int) set" where
  "stale_member_links sources iv r db =
     {(g, h). g = ig_id r \<and> h \<in> set sources \<and> (\<exists>n. (h, n) \<in> hosts_rel db \<and> (ig_name r, n) \<notin> host_rel iv)}"

lemma clear_group_effect:
  assumes "plain_import opts iv" "ig_name r \<in> gset iv"
  shows "\<exists>cs ms. clear_group [] sources iv r db = Inr (db\<lparr>i_children := cs, i_members := ms\<rparr>) \<and>
     set cs = set (i_children db) - stale_child_links iv r db \<and> set ms = set (i_members db) - stale_member_links sources iv r db"
proof -
  obtain mg where mg: "dict_get (all_groups iv) (ig_name r) = Some mg"
    using assms(2) map_of_eq_None_iff [of "all_groups iv" "ig_name r"] by (cases "dict_get (all_groups iv) (ig_name r)") (auto simp: gset_def)
  have "ig_name r \<noteq> ''all''" using assms by (auto simp: plain_import_def mem_ok_def)
  then have named: "group_named iv (ig_name r) = mg" using mg by (simp add: group_named_def dict_get_default_def)
  have keys: "set (dict_keys (all_groups iv)) = gset iv" by (simp add: gset_def)
  have cs: "set (stale_children iv mg (ig_id r) db) =
      {c. (ig_id r, c) \<in> set (i_children db) \<and> (\<exists>n \<in> gset iv. (c, n) \<in> groups_rel db \<and> (ig_name r, n) \<notin> child_rel iv)}"
    unfolding stale_children_def keys by (auto simp: groups_rel_def child_rel_def named)
  have hs: "set (stale_hosts [] sources iv mg (ig_id r) db) =
      {h. (ig_id r, h) \<in> set (i_members db) \<and> h \<in> set sources \<and> (\<exists>n. (h, n) \<in> hosts_rel db \<and> (ig_name r, n) \<notin> host_rel iv)}"
    unfolding stale_hosts_def plain_ids(5,6) [OF assms(1)] by (auto simp: hosts_rel_def host_rel_def named)
  show ?thesis
    unfolding clear_group_def mg option.case Let_def cs hs
    by (intro exI conjI, rule refl) (auto simp: stale_child_links_def stale_member_links_def)
qed

lemma clear_groups_effect:
  assumes "plain_import opts iv" "\<forall>r \<in> set R. ig_name r \<in> gset iv"
  shows "\<exists>cs ms. fold_ok (clear_group [] sources iv) R db = Inr (db\<lparr>i_children := cs, i_members := ms\<rparr>) \<and>
     set cs = set (i_children db) - (\<Union>r \<in> set R. stale_child_links iv r db) \<and>
     set ms = set (i_members db) - (\<Union>r \<in> set R. stale_member_links sources iv r db)"
  using assms(2)
proof (induction R arbitrary: db)
  case Nil
  show ?case by (intro exI [of _ "i_children db"] exI [of _ "i_members db"]) simp
next
  case (Cons r R)
  then obtain cs ms where step: "clear_group [] sources iv r db = Inr (db\<lparr>i_children := cs, i_members := ms\<rparr>)"
    "set cs = set (i_children db) - stale_child_links iv r db" "set ms = set (i_members db) - stale_member_links sources iv r db"
    using clear_group_effect [OF assms(1), of r sources db] by auto
  let ?t = "db\<lparr>i_children := cs, i_members := ms\<rparr>"
  have same: "stale_child_links iv x ?t = stale_child_links iv x db" "stale_member_links sources iv x ?t = stale_member_links sources iv x db" for x
    by (simp_all add: stale_child_links_def stale_member_links_def groups_rel_def hosts_rel_def)
  from Cons.IH [of ?t] Cons.prems obtain cs' ms' where
    "fold_ok (clear_group [] sources iv) R ?t = Inr (?t\<lparr>i_children := cs', i_members := ms'\<rparr>)"
    "set cs' = set cs - (\<Union>r \<in> set R. stale_child_links iv r db)" "set ms' = set ms - (\<Union>r \<in> set R. stale_member_links sources iv r db)"
    unfolding same by auto
  with step show ?case by (intro exI [of _ cs'] exI [of _ ms']) auto
qed

subsection \<open>Writing rows in batches\<close>

text \<open>
  The contract of a table whose rows have a key and a unique name: its keys are below the next one, and
  \<open>eff\<close> are the keys that the source has or that wait in the batch. An extension by names keeps the
  rows, has new ones only for these names and under new keys, and gives them to the source.
\<close>

locale row_store =
  fixes rel :: "'s \<Rightarrow> (int \<times> string) set" and eff :: "'s \<Rightarrow> int set" and nxt :: "'s \<Rightarrow> int" and frame :: "'s \<Rightarrow> 'f" and ok :: "'s \<Rightarrow> bool"
  assumes ok_names: "ok s \<Longrightarrow> (i, n) \<in> rel s \<Longrightarrow> (j, n) \<in> rel s \<Longrightarrow> i = j"
begin

definition ext :: "string set \<Rightarrow> 's \<Rightarrow> 's \<Rightarrow> bool" where
  "ext A s t \<longleftrightarrow> ok t \<and> frame t = frame s \<and> rel s \<subseteq> rel t \<and> snd ` rel t = snd ` rel s \<union> A \<and> nxt s \<le> nxt t \<and>
     (\<forall>i n. (i, n) \<in> rel t \<longrightarrow> i < nxt s \<longrightarrow> (i, n) \<in> rel s) \<and> eff t = eff s \<union> {i. \<exists>n \<in> A. (i, n) \<in> rel t}"

lemma ext_refl: "ok s \<Longrightarrow> ext {} s s"
  by (simp add: ext_def)

lemma ext_ok: "ext A s t \<Longrightarrow> ok t"
  by (simp add: ext_def)

lemma ext_trans:
  assumes st: "ext A s t" and tu: "ext B t u"
  shows "ext (A \<union> B) s u"
proof -
  have ok: "ok u" using tu by (simp add: ext_def)
  have "(i, n) \<in> rel t" if "n \<in> A" "(i, n) \<in> rel u" for i n
  proof -
    have "n \<in> snd ` rel t" using st that(1) by (auto simp: ext_def)
    then obtain j where j: "(j, n) \<in> rel t" by auto
    then have "(j, n) \<in> rel u" using tu by (auto simp: ext_def)
    then have "i = j" using ok_names [OF ok that(2)] by simp
    with j show ?thesis by simp
  qed
  then have "{i. \<exists>n \<in> A. (i, n) \<in> rel t} = {i. \<exists>n \<in> A. (i, n) \<in> rel u}" using tu by (auto simp: ext_def)
  then show ?thesis using st tu by (auto simp: ext_def)
qed

lemma ext_same: "ext A s t \<Longrightarrow> A \<subseteq> snd ` rel s \<Longrightarrow> rel t = rel s"
proof -
  assume e: "ext A s t" "A \<subseteq> snd ` rel s"
  have "(i, n) \<in> rel s" if "(i, n) \<in> rel t" for i n
  proof -
    have "snd ` rel t = snd ` rel s" using e by (auto simp: ext_def)
    with that have "n \<in> snd ` rel s" by (metis image_eqI snd_conv)
    then obtain j where j: "(j, n) \<in> rel s" by auto
    then have "(j, n) \<in> rel t" using e(1) by (auto simp: ext_def)
    then show ?thesis using ok_names [of t i n j] that e(1) j by (simp add: ext_def)
  qed
  then show ?thesis using e(1) by (auto simp: ext_def)
qed

lemma fold_rows:
  assumes step: "\<And>x s. ok s \<Longrightarrow> k x \<in> rel s \<Longrightarrow> Q (k x) \<Longrightarrow> \<exists>t. f x s = Inr t \<and> ext {snd (k x)} s t"
    and s: "ok s" "k ` set xs \<subseteq> rel s \<inter> Collect Q"
  shows "\<exists>t. fold_ok f xs s = Inr t \<and> ext (snd ` k ` set xs) s t"
  using s
proof (induction xs arbitrary: s)
  case (Cons x xs)
  from step [of s x] Cons.prems obtain t where t: "f x s = Inr t" "ext {snd (k x)} s t" by auto
  then have "rel s \<subseteq> rel t" by (simp add: ext_def)
  then have "k ` set xs \<subseteq> rel t \<inter> Collect Q" using Cons.prems(2) by auto
  from Cons.IH [OF ext_ok [OF t(2)] this] obtain u where "fold_ok f xs t = Inr u" "ext (snd ` k ` set xs) t u" by blast
  with t ext_trans [OF t(2), of "snd ` k ` set xs" u] show ?case by simp
qed (simp add: ext_refl)

lemma fold_names:
  assumes step: "\<And>n s. ok s \<Longrightarrow> n \<in> N \<Longrightarrow> \<exists>t. f n s = Inr t \<and> ext {n} s t"
    and s: "ok s" "set ns \<subseteq> N"
  shows "\<exists>t. fold_ok f ns s = Inr t \<and> ext (set ns) s t"
  using s
proof (induction ns arbitrary: s)
  case (Cons n ns)
  from step [of s n] Cons.prems obtain t where t: "f n s = Inr t" "ext {n} s t" by auto
  from Cons.IH [OF ext_ok [OF t(2)]] Cons.prems obtain u where "fold_ok f ns t = Inr u" "ext (set ns) t u" by auto
  with t ext_trans [OF t(2), of "set ns" u] show ?case by simp
qed (simp add: ext_refl)

lemma batches:
  assumes step: "\<And>x s. ok s \<Longrightarrow> k x \<in> rel s \<Longrightarrow> Q (k x) \<Longrightarrow> \<exists>t. f x s = Inr t \<and> ext {snd (k x)} s t"
    and query: "\<And>ks s. k ` set (query ks s) = {p \<in> rel s. P ks p}"
    and s: "ok s" "\<And>ks p. ks \<in> set kss \<Longrightarrow> p \<in> rel s \<Longrightarrow> P ks p \<Longrightarrow> Q p"
  shows "\<exists>t. fold_ok (\<lambda>ks s. fold_ok f (query ks s) s) kss s = Inr t \<and> ext (snd ` {p \<in> rel s. \<exists>ks \<in> set kss. P ks p}) s t"
  using s
proof (induction kss arbitrary: s)
  case (Cons ks kss)
  have "k ` set (query ks s) \<subseteq> rel s \<inter> Collect Q" unfolding query using Cons.prems(2) [of ks] by auto
  from fold_rows [OF step Cons.prems(1) this] obtain t where
    t: "fold_ok f (query ks s) s = Inr t" "ext (snd ` {p \<in> rel s. P ks p}) s t" unfolding query by blast
  have same: "rel t = rel s" using t(2) by (rule ext_same) auto
  from Cons.IH [OF ext_ok [OF t(2)]] Cons.prems obtain u where
    u: "fold_ok (\<lambda>ks s. fold_ok f (query ks s) s) kss t = Inr u" "ext (snd ` {p \<in> rel s. \<exists>ks \<in> set kss. P ks p}) t u"
    unfolding same by auto
  have "snd ` {p \<in> rel s. P ks p} \<union> snd ` {p \<in> rel s. \<exists>ks \<in> set kss. P ks p} = snd ` {p \<in> rel s. \<exists>ks \<in> set (ks # kss). P ks p}" by auto
  with t u ext_trans [OF t(2) u(2)] show ?case by simp
qed (simp add: ext_refl)

end

lemma fold_ok_Inr: "fold_ok (\<lambda>x s. Inr (f x s)) xs s = Inr (fold f xs s)"
  by (induction xs arbitrary: s) simp_all

subsection \<open>Groups are written\<close>

definition group_eff :: "import_db \<Rightarrow> int set" where
  "group_eff db = set (src_groups db) \<union> set (batch db)"

definition writing_groups :: "import_db \<Rightarrow> bool" where
  "writing_groups db \<longleftrightarrow> distinct (map ig_id (i_groups db)) \<and> distinct (map ig_name (i_groups db)) \<and>
     (\<forall>i \<in> ig_id ` set (i_groups db). i < next_group db) \<and> group_eff db \<subseteq> ig_id ` set (i_groups db) \<and> distinct (src_groups db)"

definition beside_groups :: "import_db \<Rightarrow> import_host list \<times> int list \<times> int \<times> (int \<times> int) list \<times> (int \<times> int) list" where
  "beside_groups db = (i_hosts db, src_hosts db, next_host db, i_members db, i_children db)"

interpretation group_rows: row_store groups_rel group_eff next_group beside_groups writing_groups
  by unfold_locales (auto simp: writing_groups_def dest: grel_unique)

lemma distinct_fold_set_add_keeps: "distinct ys \<Longrightarrow> distinct (fold set_add xs ys)"
  by (induction xs arbitrary: ys) auto

lemma batch_add_groups:
  "i_groups (batch_add bs add_src_groups pks fl db) = i_groups db" "next_group (batch_add bs add_src_groups pks fl db) = next_group db"
  "beside_groups (batch_add bs add_src_groups pks fl db) = beside_groups db" "groups_rel (batch_add bs add_src_groups pks fl db) = groups_rel db"
  "group_eff (batch_add bs add_src_groups pks fl db) = group_eff db \<union> set pks"
  "distinct (src_groups db) \<Longrightarrow> distinct (src_groups (batch_add bs add_src_groups pks fl db))"
  "batch (batch_add bs add_src_groups pks True db) = []"
  by (auto simp: batch_add_def Let_def add_src_groups_def beside_groups_def groups_rel_def group_eff_def distinct_fold_set_add_keeps)

lemma batch_add_writing:
  "writing_groups db \<Longrightarrow> set pks \<subseteq> ig_id ` set (i_groups db) \<Longrightarrow> writing_groups (batch_add bs add_src_groups pks fl db)"
  unfolding writing_groups_def batch_add_groups(1,2,5) using batch_add_groups(6) by blast

lemma put_group_simps:
  assumes "(ig_id r, ig_name r) \<in> groups_rel db" "writing_groups db"
  shows "map ig_id (i_groups (put_group r db)) = map ig_id (i_groups db)" "map ig_name (i_groups (put_group r db)) = map ig_name (i_groups db)"
    "groups_rel (put_group r db) = groups_rel db" "beside_groups (put_group r db) = beside_groups db"
    "group_eff (put_group r db) = group_eff db" "next_group (put_group r db) = next_group db" "src_groups (put_group r db) = src_groups db"
proof -
  have n: "ig_name x = ig_name r" if "x \<in> set (i_groups db)" "ig_id x = ig_id r" for x
  proof -
    have "(ig_id x, ig_name x) \<in> groups_rel db" using that(1) by (simp add: groups_rel_def)
    then have "(ig_id r, ig_name x) \<in> groups_rel db" using that(2) by simp
    with assms show ?thesis using grel_unique(1) [of db "ig_id r" "ig_name x" "ig_name r"] by (simp add: writing_groups_def)
  qed
  show 1: "map ig_id (i_groups (put_group r db)) = map ig_id (i_groups db)" by (simp add: put_group_def)
  show 2: "map ig_name (i_groups (put_group r db)) = map ig_name (i_groups db)" using n by (auto simp: put_group_def)
  have "map (\<lambda>x. (ig_id x, ig_name x)) (i_groups (put_group r db)) = map (\<lambda>x. (ig_id x, ig_name x)) (i_groups db)"
    using n by (auto simp: put_group_def)
  then show "groups_rel (put_group r db) = groups_rel db" unfolding groups_rel_def by (metis set_map)
qed (simp_all add: put_group_def beside_groups_def group_eff_def)

lemma put_group_ext:
  assumes "(ig_id r, ig_name r) \<in> groups_rel db" "writing_groups db"
  shows "group_rows.ext {ig_name r} db (batch_add bs add_src_groups [ig_id r] False (put_group r db))"
proof -
  note put = put_group_simps [OF assms]
  have only: "{i. (i, ig_name r) \<in> groups_rel db} = {ig_id r}"
    using assms group_rows.ok_names [OF assms(2)] by auto
  have ids: "ig_id ` set (i_groups (put_group r db)) = ig_id ` set (i_groups db)" using put(1) by (metis set_map)
  have "\<forall>i \<in> ig_id ` set (i_groups (put_group r db)). i < next_group db"
    unfolding ids using assms(2) by (auto simp: writing_groups_def)
  then have w: "writing_groups (put_group r db)" using assms(2) unfolding writing_groups_def put ids by blast
  have "ig_id r \<in> ig_id ` set (i_groups db)" "ig_name r \<in> snd ` groups_rel db"
    using assms(1) by (auto simp: groups_rel_def image_image)
  then show ?thesis using batch_add_writing [OF w, of "[ig_id r]"] put ids only
    unfolding group_rows.ext_def batch_add_groups by auto
qed

lemma update_group_step:
  assumes "writing_groups db" "(ig_id r, ig_name r) \<in> groups_rel db"
  shows "group_rows.ext {ig_name r} db (update_db_group opts iv r db)"
  using put_group_ext [of "r\<lparr>ig_vars := updated_vars opts (ig_vars r) (variables (dict_get_default (all_groups iv) (ig_name r) empty_group))\<rparr>" db] assms
  by (simp add: update_db_group_def)

text \<open>A description that can be stored.\<close>

definition describable :: "py_dict \<Rightarrow> bool" where
  "describable d \<longleftrightarrow> dict_get d ''_awx_description'' \<noteq> Some JNull"

lemma describable_ok: "describable d \<Longrightarrow> \<exists>x. description_of d = Inr x"
  by (auto simp: describable_def description_of_def dict_get_default_def Let_def split: option.splits)

lemma create_group_step:
  assumes "writing_groups db" "describable (variables (dict_get_default (all_groups iv) n empty_group))"
  shows "\<exists>t. create_db_group opts iv n db = Inr t \<and> group_rows.ext {n} db t"
proof -
  from describable_ok [OF assms(2)] obtain desc where desc: "description_of (variables (dict_get_default (all_groups iv) n empty_group)) = Inr desc" ..
  show ?thesis
  proof (cases "find (\<lambda>r. ig_name r = n) (i_groups db)")
    case (Some r)
    then have "r \<in> set (i_groups db)" "ig_name r = n" by (auto dest: find_SomeD)
    then have "(ig_id r, ig_name r) \<in> groups_rel db" by (auto simp: groups_rel_def)
    with Some desc put_group_ext [of "r\<lparr>ig_vars := _, ig_description := desc\<rparr>" db] assms(1) \<open>ig_name r = n\<close> show ?thesis
      by (simp add: create_db_group_def)
  next
    case None
    let ?row = "\<lparr>ig_id = next_group db, ig_name = n,
      ig_vars = json_dumps (JDict (AList.delete ''_awx_description'' (variables (dict_get_default (all_groups iv) n empty_group)))), ig_description = desc\<rparr>"
    let ?t = "db\<lparr>i_groups := i_groups db @ [?row], next_group := next_group db + 1\<rparr>"
    have n: "n \<notin> ig_name ` set (i_groups db)" using None by (auto simp: find_None_iff)
    have fresh: "next_group db \<notin> ig_id ` set (i_groups db)" using assms(1) by (auto simp: writing_groups_def)
    have rel: "groups_rel ?t = insert (next_group db, n) (groups_rel db)" by (auto simp: groups_rel_def)
    have only: "{i. (i, n) \<in> groups_rel ?t} = {next_group db}" unfolding rel using n by (auto simp: groups_rel_def)
    have below: "i < next_group db" if "(i, m) \<in> groups_rel db" for i m using assms(1) that by (auto simp: writing_groups_def groups_rel_def)
    have "writing_groups ?t"
      using assms(1) n fresh by (auto simp: writing_groups_def group_eff_def simp del: json_dumps.simps)
    then have "writing_groups (batch_add (batch_size opts) add_src_groups [next_group db] False ?t)"
      by (rule batch_add_writing) simp
    then have "group_rows.ext {n} db (batch_add (batch_size opts) add_src_groups [next_group db] False ?t)"
      unfolding group_rows.ext_def batch_add_groups
      using only below n by (auto simp: rel group_eff_def beside_groups_def simp del: json_dumps.simps)
    with None desc show ?thesis by (simp add: create_db_group_def)
  qed
qed

lemma group_rows_images: "(\<lambda>r. (ig_id r, ig_name r)) ` set (groups_where P db) = (\<lambda>r. (ig_id r, ig_name r)) ` {r \<in> set (i_groups db). P r}"
  by simp

lemma create_update_groups_effect:
  assumes "writing_groups db" "batch_size opts \<noteq> 0" "\<forall>n \<in> gset iv. describable (variables (dict_get_default (all_groups iv) n empty_group))"
  shows "\<exists>t. create_update_groups opts iv db = Inr t \<and> group_rows.ext (gset iv) db t \<and> batch t = []"
proof -
  let ?names = "sort (dict_keys (all_groups iv))"
  let ?key = "\<lambda>r. (ig_id r, ig_name r)"
  let ?upd = "\<lambda>ns db. fold (update_db_group opts iv) (groups_where (\<lambda>r. ig_name r \<in> set ns) db) db"
  have G: "set ?names = gset iv" by (simp add: gset_def)
  have "\<exists>t. fold_ok (\<lambda>ns s. fold_ok (\<lambda>r s. Inr (update_db_group opts iv r s)) (groups_where (\<lambda>r. ig_name r \<in> set ns) s) s)
      (split_ids (batch_size opts) ?names) db = Inr t \<and>
    group_rows.ext (snd ` {p \<in> groups_rel db. \<exists>ns \<in> set (split_ids (batch_size opts) ?names). snd p \<in> set ns}) db t"
  proof (rule group_rows.batches [where k = ?key and Q = "\<lambda>_. True"])
    show "\<exists>t. Inr (update_db_group opts iv x s) = Inr t \<and> group_rows.ext {snd (?key x)} s t"
      if "writing_groups s" "?key x \<in> groups_rel s" for x s using update_group_step that by simp
    show "?key ` set (groups_where (\<lambda>r. ig_name r \<in> set ns) s) = {p \<in> groups_rel s. snd p \<in> set ns}" for ns s by (auto simp: groups_rel_def)
  qed (use assms in simp_all)
  moreover have "(\<exists>ns \<in> set (split_ids (batch_size opts) ?names). n \<in> set ns) \<longleftrightarrow> n \<in> gset iv" for n
    using set_split_ids [OF assms(2), of ?names] G by auto
  ultimately have e1: "group_rows.ext (snd ` {p \<in> groups_rel db. snd p \<in> gset iv}) db (fold ?upd (split_ids (batch_size opts) ?names) db)"
    by (simp add: fold_ok_Inr)
  let ?db1 = "fold ?upd (split_ids (batch_size opts) ?names) db"
  let ?new = "filter (\<lambda>n. n \<notin> set (map ig_name (groups_where (\<lambda>r. ig_name r \<in> set ?names) db))) ?names"
  have "set ?new \<subseteq> gset iv" using G by auto
  from group_rows.fold_names [where f = "create_db_group opts iv" and N = "gset iv", OF _ group_rows.ext_ok [OF e1] this] create_group_step assms(3)
  obtain db2 where db2: "fold_ok (create_db_group opts iv) ?new ?db1 = Inr db2" "group_rows.ext (set ?new) ?db1 db2" by blast
  let ?t = "batch_add (batch_size opts) add_src_groups [] True db2"
  have "snd ` {p \<in> groups_rel db. snd p \<in> gset iv} \<union> set ?new = gset iv"
    unfolding set_filter G set_map set_where by (force simp: groups_rel_def)
  with group_rows.ext_trans [OF e1 db2(2)] have "group_rows.ext (gset iv) db db2" by simp
  then have "group_rows.ext (gset iv) db ?t"
    using batch_add_writing [of db2 "[]"] unfolding group_rows.ext_def batch_add_groups by simp
  moreover have "create_update_groups opts iv db = Inr ?t"
    using db2(1) unfolding create_update_groups_def Let_def by simp
  ultimately show ?thesis using batch_add_groups(7) by blast
qed

subsection \<open>Hosts are matched by name\<close>

definition matched :: "import_db \<Rightarrow> (int \<times> string) set \<Rightarrow> (string, int) pydict \<times> int list \<Rightarrow> bool" where
  "matched db X s \<longleftrightarrow> distinct (dict_keys (fst s)) \<and> set (map prod.swap (fst s)) = X \<and> set (snd s) = fst ` X \<and> X \<subseteq> hosts_rel db"

lemma update_swap:
  assumes "distinct (dict_keys m)" "n \<notin> set (dict_keys m)"
  shows "distinct (dict_keys (dict_set n i m))" "set (map prod.swap (dict_set n i m)) = insert (i, n) (set (map prod.swap m))"
proof -
  show "distinct (dict_keys (dict_set n i m))" using assms(1) by (rule distinct_update)
  have "dict_set n i m = m @ [(n, i)]" using assms(2) by (induction m) auto
  then show "set (map prod.swap (dict_set n i m)) = insert (i, n) (set (map prod.swap m))" by simp
qed

lemma match_rows_names:
  assumes "hosts_ok db" "set rows \<subseteq> set (i_hosts db)" "matched db X s"
  shows "matched db (X \<union> (\<lambda>r. (ih_id r, ih_name r)) ` set rows) (match_rows ih_name rows s)"
  using assms(2,3)
proof (induction rows arbitrary: X s)
  case Nil
  then show ?case by (simp add: match_rows_def)
next
  case (Cons r rows)
  obtain m seen where s: "s = (m, seen)" by (cases s)
  let ?p = "(ih_id r, ih_name r)"
  let ?s = "if ih_id r \<in> set seen then (m, seen) else (dict_set (ih_name r) (ih_id r) m, set_add (ih_id r) seen)"
  have r: "?p \<in> hosts_rel db" using Cons.prems(1) by (auto simp: hosts_rel_def)
  have u: "distinct (map ih_id (i_hosts db))" "distinct (map ih_name (i_hosts db))" using assms(1) by (simp_all add: hosts_ok_def)
  have m: "distinct (dict_keys m)" "set (map prod.swap m) = X" "set seen = fst ` X" "X \<subseteq> hosts_rel db"
    using Cons.prems(2) by (simp_all add: matched_def s)
  have "matched db (insert ?p X) ?s"
  proof (cases "ih_id r \<in> set seen")
    case True
    then obtain n where "(ih_id r, n) \<in> X" using m(3) by auto
    then have "?p \<in> X" using rel_unique(1) [OF u r, of n] m(4) by auto
    with m True show ?thesis by (simp add: matched_def insert_absorb)
  next
    case False
    have "ih_name r \<notin> set (dict_keys m)"
    proof
      assume "ih_name r \<in> set (dict_keys m)"
      then obtain i where "(i, ih_name r) \<in> X" using m(2) by force
      then have "i = ih_id r" using rel_unique(2) [OF u _ r, of i] m(4) by auto
      with False \<open>(i, ih_name r) \<in> X\<close> m(3) show False by force
    qed
    from update_swap [OF m(1) this] m False r show ?thesis by (simp add: matched_def)
  qed
  from Cons.IH [OF _ this] Cons.prems(1) show ?case by (simp add: match_rows_def s)
qed

lemma pk_map_by_name:
  assumes "hosts_ok db" "plain_import opts iv"
  shows "dict_get (build_pk_mem_host_map opts [] iv db) i = Some n \<longleftrightarrow> (i, n) \<in> hosts_rel db \<and> n \<in> hset iv"
    and "set (dict_keys (build_pk_mem_host_map opts [] iv db)) = {i. \<exists>n \<in> hset iv. (i, n) \<in> hosts_rel db}"
    and "distinct (dict_keys (build_pk_mem_host_map opts [] iv db))"
proof -
  let ?names = "sort (dict_keys (all_hosts iv))" and ?pass = "\<lambda>ks. match_rows ih_name (hosts_where (\<lambda>r. ih_name r \<in> set ks) db)"
  have bs: "batch_size opts \<noteq> 0" using assms(2) by (simp add: plain_import_def)
  have none: "filter (\<lambda>(i, h). i \<in> set (dict_keys ([] :: (string, int) pydict))) xs = []"
    "filter (\<lambda>(i, h). i \<notin> set (dict_keys ([] :: (string, int) pydict)) \<and> i \<noteq> []) (map (\<lambda>(h, m). (get_instance_id opts (host_vars m), h)) (all_hosts iv)) = []" for xs :: "(string \<times> string) list"
    using plain_ids(3) [OF assms(2)] by (auto simp: filter_empty_conv)
  have empty: "split_ids k ([] :: 'b list) = []" for k by (subst split_ids.simps) simp
  have walk: "matched db (X \<union> {p \<in> hosts_rel db. \<exists>ks \<in> set kss. snd p \<in> set ks}) (fold ?pass kss s)" if "matched db X s" for kss X s
    using that
  proof (induction kss arbitrary: X s)
    case (Cons ks kss)
    have rows: "(\<lambda>r. (ih_id r, ih_name r)) ` set (hosts_where (\<lambda>r. ih_name r \<in> set ks) db) = {p \<in> hosts_rel db. snd p \<in> set ks}"
      by (auto simp: hosts_rel_def)
    from match_rows_names [OF assms(1) _ Cons.prems, of "hosts_where (\<lambda>r. ih_name r \<in> set ks) db"]
    have "matched db (X \<union> {p \<in> hosts_rel db. snd p \<in> set ks}) (?pass ks s)" unfolding rows by auto
    from Cons.IH [OF this] have "matched db (X \<union> {p \<in> hosts_rel db. snd p \<in> set ks} \<union> {p \<in> hosts_rel db. \<exists>ks \<in> set kss. snd p \<in> set ks}) (fold ?pass (ks # kss) s)" by simp
    moreover have "X \<union> {p \<in> hosts_rel db. snd p \<in> set ks} \<union> {p \<in> hosts_rel db. \<exists>ks \<in> set kss. snd p \<in> set ks} =
        X \<union> {p \<in> hosts_rel db. \<exists>ks \<in> set (ks # kss). snd p \<in> set ks}" by auto
    ultimately show ?case by (simp only:)
  qed simp
  define s3 where "s3 = fold ?pass (split_ids (batch_size opts) ?names) ([], [])"
  have "matched db {} ([], [])" by (simp add: matched_def)
  from walk [OF this] have "matched db {p \<in> hosts_rel db. \<exists>ks \<in> set (split_ids (batch_size opts) ?names). snd p \<in> set ks} s3" by (simp add: s3_def)
  moreover have "(\<exists>ks \<in> set (split_ids (batch_size opts) ?names). n \<in> set ks) \<longleftrightarrow> n \<in> hset iv" for n
    using set_split_ids [OF bs, of ?names] by (auto simp: hset_def)
  ultimately have s: "matched db {p \<in> hosts_rel db. snd p \<in> hset iv} s3" by simp
  have pk: "build_pk_mem_host_map opts [] iv db = fold (\<lambda>(k, v). dict_set k v) (map prod.swap (fst s3)) []"
    unfolding build_pk_mem_host_map_def Let_def none by (simp add: empty match_pass_def fold_map comp_def case_prod_unfold s3_def)
  have X: "set (map prod.swap (fst s3)) = {p \<in> hosts_rel db. snd p \<in> hset iv}" using s by (simp only: matched_def)
  have u: "distinct (map ih_id (i_hosts db))" "distinct (map ih_name (i_hosts db))" using assms(1) by (simp_all add: hosts_ok_def)
  have "inj_on fst (set (map prod.swap (fst s3)))" unfolding X using rel_unique(1) [OF u] by (auto simp: inj_on_def)
  moreover have "distinct (map prod.swap (fst s3))" using s by (auto simp: matched_def distinct_map inj_on_def)
  ultimately have d: "distinct (map fst (map prod.swap (fst s3)))" by (simp only: distinct_map)
  show get: "dict_get (build_pk_mem_host_map opts [] iv db) i = Some n \<longleftrightarrow> (i, n) \<in> hosts_rel db \<and> n \<in> hset iv" for i n
  proof
    assume "(i, n) \<in> hosts_rel db \<and> n \<in> hset iv"
    then have "(i, n) \<in> set (map prod.swap (fst s3))" unfolding X by simp
    then show "dict_get (build_pk_mem_host_map opts [] iv db) i = Some n" unfolding pk by (rule alist_store.lookup_fold_store [OF d])
  next
    assume g: "dict_get (build_pk_mem_host_map opts [] iv db) i = Some n"
    then have "i \<in> fst ` set (map prod.swap (fst s3))" using alist_store.lookup_fold_store_other [of i "map prod.swap (fst s3)" "[]"] unfolding pk by fastforce
    then obtain n' where n': "(i, n') \<in> set (map prod.swap (fst s3))" by force
    with alist_store.lookup_fold_store [OF d n', of "[]"] g have "n' = n" unfolding pk by simp
    with n' show "(i, n) \<in> hosts_rel db \<and> n \<in> hset iv" unfolding X by simp
  qed
  show "set (dict_keys (build_pk_mem_host_map opts [] iv db)) = {i. \<exists>n \<in> hset iv. (i, n) \<in> hosts_rel db}"
    using get by (auto simp: dom_map_of_conv_image_fst [symmetric] dom_def)
  have "distinct (dict_keys d) \<Longrightarrow> distinct (dict_keys (fold (\<lambda>(k, v). dict_set k v) kvs d))" for d :: "(int, string) pydict" and kvs
    by (induction kvs arbitrary: d) (auto intro: distinct_update)
  then show "distinct (dict_keys (build_pk_mem_host_map opts [] iv db))" unfolding pk by simp
qed

subsection \<open>Hosts are written\<close>

definition host_eff :: "import_db \<Rightarrow> int set" where
  "host_eff db = set (src_hosts db) \<union> set (batch db)"

definition writing_hosts :: "import_db \<Rightarrow> bool" where
  "writing_hosts db \<longleftrightarrow> distinct (map ih_id (i_hosts db)) \<and> distinct (map ih_name (i_hosts db)) \<and>
     (\<forall>i \<in> ih_id ` set (i_hosts db). i < next_host db) \<and> host_eff db \<subseteq> ih_id ` set (i_hosts db) \<and> distinct (src_hosts db)"

definition beside_hosts :: "import_db \<Rightarrow> import_group list \<times> int list \<times> int \<times> (int \<times> int) list \<times> (int \<times> int) list" where
  "beside_hosts db = (i_groups db, src_groups db, next_group db, i_members db, i_children db)"

interpretation host_rows: row_store hosts_rel host_eff next_host beside_hosts writing_hosts
  by unfold_locales (auto simp: writing_hosts_def dest: rel_unique)

lemma batch_add_hosts:
  "i_hosts (batch_add bs add_src_hosts pks fl db) = i_hosts db" "next_host (batch_add bs add_src_hosts pks fl db) = next_host db"
  "beside_hosts (batch_add bs add_src_hosts pks fl db) = beside_hosts db" "hosts_rel (batch_add bs add_src_hosts pks fl db) = hosts_rel db"
  "host_eff (batch_add bs add_src_hosts pks fl db) = host_eff db \<union> set pks"
  "distinct (src_hosts db) \<Longrightarrow> distinct (src_hosts (batch_add bs add_src_hosts pks fl db))"
  "batch (batch_add bs add_src_hosts pks True db) = []"
  by (auto simp: batch_add_def Let_def add_src_hosts_def beside_hosts_def hosts_rel_def host_eff_def distinct_fold_set_add_keeps)

lemma batch_add_writing_hosts:
  "writing_hosts db \<Longrightarrow> set pks \<subseteq> ih_id ` set (i_hosts db) \<Longrightarrow> writing_hosts (batch_add bs add_src_hosts pks fl db)"
  unfolding writing_hosts_def batch_add_hosts(1,2,5) using batch_add_hosts(6) by blast

lemma put_host_simps:
  assumes "(ih_id r, ih_name r) \<in> hosts_rel db" "writing_hosts db"
  shows "map ih_id (i_hosts (put_host r db)) = map ih_id (i_hosts db)" "map ih_name (i_hosts (put_host r db)) = map ih_name (i_hosts db)"
    "hosts_rel (put_host r db) = hosts_rel db" "beside_hosts (put_host r db) = beside_hosts db"
    "host_eff (put_host r db) = host_eff db" "next_host (put_host r db) = next_host db" "src_hosts (put_host r db) = src_hosts db"
proof -
  have n: "ih_name x = ih_name r" if "x \<in> set (i_hosts db)" "ih_id x = ih_id r" for x
  proof -
    have "(ih_id x, ih_name x) \<in> hosts_rel db" using that(1) by (simp add: hosts_rel_def)
    then have "(ih_id r, ih_name x) \<in> hosts_rel db" using that(2) by simp
    with assms show ?thesis using rel_unique(1) [of db "ih_id r" "ih_name x" "ih_name r"] by (simp add: writing_hosts_def)
  qed
  show "map ih_id (i_hosts (put_host r db)) = map ih_id (i_hosts db)" by (simp add: put_host_def)
  show "map ih_name (i_hosts (put_host r db)) = map ih_name (i_hosts db)" using n by (auto simp: put_host_def)
  have "map (\<lambda>x. (ih_id x, ih_name x)) (i_hosts (put_host r db)) = map (\<lambda>x. (ih_id x, ih_name x)) (i_hosts db)"
    using n by (auto simp: put_host_def)
  then show "hosts_rel (put_host r db) = hosts_rel db" unfolding hosts_rel_def by (metis set_map)
qed (simp_all add: put_host_def beside_hosts_def host_eff_def)

lemma put_host_ext:
  assumes "(ih_id r, ih_name r) \<in> hosts_rel db" "writing_hosts db"
  shows "host_rows.ext {ih_name r} db (batch_add bs add_src_hosts [ih_id r] False (put_host r db))"
proof -
  note put = put_host_simps [OF assms]
  have only: "{i. (i, ih_name r) \<in> hosts_rel db} = {ih_id r}"
    using assms host_rows.ok_names [OF assms(2)] by auto
  have ids: "ih_id ` set (i_hosts (put_host r db)) = ih_id ` set (i_hosts db)" using put(1) by (metis set_map)
  have "\<forall>i \<in> ih_id ` set (i_hosts (put_host r db)). i < next_host db"
    unfolding ids using assms(2) by (auto simp: writing_hosts_def)
  then have w: "writing_hosts (put_host r db)" using assms(2) unfolding writing_hosts_def put ids by blast
  have "ih_id r \<in> ih_id ` set (i_hosts db)" "ih_name r \<in> snd ` hosts_rel db"
    using assms(1) by (auto simp: hosts_rel_def image_image)
  then show ?thesis using batch_add_writing_hosts [OF w, of "[ih_id r]"] put ids only
    unfolding host_rows.ext_def batch_add_hosts by auto
qed

lemma update_host_step:
  assumes "writing_hosts db" "(ih_id r, ih_name r) \<in> hosts_rel db" "ih_name r \<in> hset iv" "dict_get m (ih_id r) = Some (ih_name r)"
  shows "\<exists>t. update_matched opts iv m r db = Inr t \<and> host_rows.ext {ih_name r} db t"
proof -
  obtain h where h: "dict_get (all_hosts iv) (ih_name r) = Some h"
    using assms(3) map_of_eq_None_iff [of "all_hosts iv" "ih_name r"] by (cases "dict_get (all_hosts iv) (ih_name r)") (auto simp: hset_def)
  have "\<not> list_ex (\<lambda>x. ih_name x = ih_name r \<and> ih_id x \<noteq> ih_id r) (i_hosts db)"
  proof
    assume "list_ex (\<lambda>x. ih_name x = ih_name r \<and> ih_id x \<noteq> ih_id r) (i_hosts db)"
    then obtain x where x: "x \<in> set (i_hosts db)" "ih_name x = ih_name r" "ih_id x \<noteq> ih_id r" by (auto simp: list_ex_iff)
    have "(ih_id x, ih_name x) \<in> hosts_rel db" using x(1) by (simp add: hosts_rel_def)
    then have "(ih_id x, ih_name r) \<in> hosts_rel db" using x(2) by simp
    with host_rows.ok_names [OF assms(1) _ assms(2)] x(3) show False by blast
  qed
  then show ?thesis
    using h assms(4) put_host_ext [of "r\<lparr>ih_instance_id := _, ih_vars := _, ih_enabled := _, ih_name := ih_name r\<rparr>" db] assms(1,2)
    by (simp add: update_matched_def update_db_host_def Let_def dict_get_default_def del: list_ex_iff)
qed

definition creatable :: "mem_inventory \<Rightarrow> string \<Rightarrow> bool" where
  "creatable iv n \<longleftrightarrow> \<not> has_jinja n \<and> describable (case dict_get (all_hosts iv) n of None \<Rightarrow> [] | Some m \<Rightarrow> host_vars m)"

lemma create_host_step:
  assumes "writing_hosts db" "creatable iv n"
  shows "\<exists>t. create_db_host opts iv n db = Inr t \<and> host_rows.ext {n} db t"
proof -
  let ?d = "case dict_get (all_hosts iv) n of None \<Rightarrow> [] | Some m \<Rightarrow> host_vars m"
  have "describable ?d" and j: "\<not> has_jinja n" using assms(2) by (simp_all add: creatable_def)
  from describable_ok [OF this(1)] obtain desc where desc: "description_of ?d = Inr desc" ..
  show ?thesis
  proof (cases "find (\<lambda>r. ih_name r = n) (i_hosts db)")
    case (Some r)
    then have r: "r \<in> set (i_hosts db)" "ih_name r = n" by (auto dest: find_SomeD)
    then have "(ih_id r, ih_name r) \<in> hosts_rel db" by (auto simp: hosts_rel_def)
    with Some desc j put_host_ext [of "r\<lparr>ih_description := desc, ih_enabled := _, ih_instance_id := _, ih_vars := _\<rparr>" db] assms(1) r(2) show ?thesis
      by (simp add: create_db_host_def Let_def del: json_dumps.simps)
  next
    case None
    define row where "row = \<lparr>ih_id = next_host db, ih_name = n, ih_vars = json_dumps (JDict (without_remote opts (AList.delete ''_awx_description'' ?d))),
      ih_enabled = (case get_enabled opts (AList.delete ''_awx_description'' ?d) of None \<Rightarrow> True | Some e \<Rightarrow> e),
      ih_instance_id = (if instance_id_parts opts = [] then [] else get_instance_id opts (AList.delete ''_awx_description'' ?d)), ih_description = desc\<rparr>"
    let ?t = "db\<lparr>i_hosts := i_hosts db @ [row], next_host := next_host db + 1\<rparr>"
    have row: "ih_id row = next_host db" "ih_name row = n" by (simp_all add: row_def)
    have n: "n \<notin> ih_name ` set (i_hosts db)" using None by (auto simp: find_None_iff)
    have fresh: "next_host db \<notin> ih_id ` set (i_hosts db)" using assms(1) by (auto simp: writing_hosts_def)
    have rel: "hosts_rel ?t = insert (next_host db, n) (hosts_rel db)" by (auto simp: hosts_rel_def row)
    have only: "{i. (i, n) \<in> hosts_rel ?t} = {next_host db}" unfolding rel using n by (auto simp: hosts_rel_def)
    have below: "i < next_host db" if "(i, m) \<in> hosts_rel db" for i m using assms(1) that by (auto simp: writing_hosts_def hosts_rel_def)
    have "writing_hosts ?t"
      using assms(1) n fresh by (auto simp: writing_hosts_def host_eff_def row)
    then have "writing_hosts (batch_add (batch_size opts) add_src_hosts [next_host db] False ?t)"
      by (rule batch_add_writing_hosts) (simp add: row)
    then have "host_rows.ext {n} db (batch_add (batch_size opts) add_src_hosts [next_host db] False ?t)"
      unfolding host_rows.ext_def batch_add_hosts
      using only below n by (auto simp: rel host_eff_def beside_hosts_def)
    moreover have "create_db_host opts iv n db = Inr (batch_add (batch_size opts) add_src_hosts [next_host db] False ?t)"
      unfolding create_db_host_def Let_def using None desc j by (simp add: row_def)
    ultimately show ?thesis by blast
  qed
qed

lemma create_update_hosts_effect:
  assumes "writing_hosts db" "batch_size opts \<noteq> 0" "\<forall>n \<in> hset iv. creatable iv n"
    and m: "\<And>i n. dict_get m i = Some n \<longleftrightarrow> (i, n) \<in> hosts_rel db \<and> n \<in> hset iv"
    and keys: "set (dict_keys m) = {i. \<exists>n \<in> hset iv. (i, n) \<in> hosts_rel db}" "distinct (dict_keys m)"
  shows "\<exists>t. create_update_hosts opts iv m db = Inr t \<and> host_rows.ext (hset iv) db t \<and> batch t = []"
proof -
  let ?pks = "sort (dict_keys m)" and ?key = "\<lambda>r. (ih_id r, ih_name r)"
  have "\<exists>t. fold_ok (\<lambda>pks s. fold_ok (update_matched opts iv m) (hosts_where (\<lambda>r. ih_id r \<in> set pks) s) s) (split_ids (batch_size opts) ?pks) db = Inr t \<and>
    host_rows.ext (snd ` {p \<in> hosts_rel db. \<exists>pks \<in> set (split_ids (batch_size opts) ?pks). fst p \<in> set pks}) db t"
  proof (rule host_rows.batches [where k = ?key and Q = "\<lambda>p. p \<in> hosts_rel db \<and> snd p \<in> hset iv"])
    show "\<exists>t. update_matched opts iv m x s = Inr t \<and> host_rows.ext {snd (?key x)} s t"
      if "writing_hosts s" "?key x \<in> hosts_rel s" "?key x \<in> hosts_rel db \<and> snd (?key x) \<in> hset iv" for x s
      using update_host_step [of s x iv m opts] that m by simp
    show "?key ` set (hosts_where (\<lambda>r. ih_id r \<in> set pks) s) = {p \<in> hosts_rel s. fst p \<in> set pks}" for pks s by (auto simp: hosts_rel_def)
    fix pks p
    assume p: "pks \<in> set (split_ids (batch_size opts) ?pks)" "p \<in> hosts_rel db" "fst p \<in> set pks"
    then have "fst p \<in> set (dict_keys m)" using set_split_ids [OF assms(2), of ?pks] by auto
    then obtain n where "n \<in> hset iv" "(fst p, n) \<in> hosts_rel db" unfolding keys(1) by blast
    with p(2) rel_unique(1) [of db "fst p" n "snd p"] assms(1) show "p \<in> hosts_rel db \<and> snd p \<in> hset iv" by (auto simp: writing_hosts_def)
  qed (use assms(1) in simp)
  moreover have "(\<exists>pks \<in> set (split_ids (batch_size opts) ?pks). i \<in> set pks) \<longleftrightarrow> (\<exists>n \<in> hset iv. (i, n) \<in> hosts_rel db)" for i
    using set_split_ids [OF assms(2), of ?pks] keys(1) by auto
  ultimately obtain db1 where
    db1: "fold_ok (\<lambda>pks s. fold_ok (update_matched opts iv m) (hosts_where (\<lambda>r. ih_id r \<in> set pks) s) s) (split_ids (batch_size opts) ?pks) db = Inr db1"
      "host_rows.ext (snd ` {p \<in> hosts_rel db. \<exists>n \<in> hset iv. (fst p, n) \<in> hosts_rel db}) db db1" by auto
  have old: "snd ` {p \<in> hosts_rel db. \<exists>n \<in> hset iv. (fst p, n) \<in> hosts_rel db} = snd ` hosts_rel db \<inter> hset iv"
  proof (intro subset_antisym subsetI)
    fix n
    assume "n \<in> snd ` {p \<in> hosts_rel db. \<exists>n \<in> hset iv. (fst p, n) \<in> hosts_rel db}"
    then obtain i n' where "(i, n) \<in> hosts_rel db" "(i, n') \<in> hosts_rel db" "n' \<in> hset iv" by auto
    moreover from this rel_unique(1) [of db i n n'] assms(1) have "n' = n" by (simp add: writing_hosts_def)
    ultimately show "n \<in> snd ` hosts_rel db \<inter> hset iv" by (metis IntI image_eqI snd_conv)
  next
    fix n
    assume "n \<in> snd ` hosts_rel db \<inter> hset iv"
    then obtain i where "(i, n) \<in> hosts_rel db" "n \<in> hset iv" by auto
    then show "n \<in> snd ` {p \<in> hosts_rel db. \<exists>n \<in> hset iv. (fst p, n) \<in> hosts_rel db}" by (intro image_eqI [of _ _ "(i, n)"]) auto
  qed
  let ?updated = "map snd (filter (\<lambda>(pk, n). pk \<in> set (map ih_id (i_hosts db))) m)"
  let ?new = "sort (filter (\<lambda>h. h \<notin> set ?updated) (dict_keys (all_hosts iv)))"
  have new: "set ?new \<subseteq> hset iv" by (auto simp: hset_def)
  from host_rows.fold_names [where f = "create_db_host opts iv" and N = "hset iv", OF _ host_rows.ext_ok [OF db1(2)] new] create_host_step assms(3)
  obtain db2 where db2: "fold_ok (create_db_host opts iv) ?new db1 = Inr db2" "host_rows.ext (set ?new) db1 db2" by blast
  have "n \<in> set ?updated \<longleftrightarrow> n \<in> snd ` hosts_rel db" if "n \<in> hset iv" for n
  proof
    assume "n \<in> set ?updated"
    then obtain i where "(i, n) \<in> set m" by auto
    then have "dict_get m i = Some n" using keys(2) by (rule map_of_is_SomeI [rotated])
    then show "n \<in> snd ` hosts_rel db" using m by force
  next
    assume "n \<in> snd ` hosts_rel db"
    then obtain i where i: "(i, n) \<in> hosts_rel db" by auto
    then have "(i, n) \<in> set m" using m [of i n] that by (auto dest: map_of_SomeD)
    moreover have "i \<in> set (map ih_id (i_hosts db))" using i by (auto simp: hosts_rel_def)
    ultimately show "n \<in> set ?updated" by force
  qed
  then have "snd ` hosts_rel db \<inter> hset iv \<union> set ?new = hset iv" by (auto simp: hset_def)
  with host_rows.ext_trans [OF db1(2) db2(2)] have e: "host_rows.ext (hset iv) db db2" unfolding old by simp
  let ?t = "batch_add (batch_size opts) add_src_hosts [] True db2"
  have "host_rows.ext (hset iv) db ?t"
    using e batch_add_writing_hosts [of db2 "[]"] unfolding host_rows.ext_def batch_add_hosts by simp
  moreover have "create_update_hosts opts iv m db = Inr ?t"
    unfolding create_update_hosts_def Let_def db1(1) then_ok_simps db2(1) ..
  ultimately show ?thesis using batch_add_hosts(7) by blast
qed

subsection \<open>Links are written in batches\<close>

text \<open>
  The contract of a table of links that \<open>batch_add\<close> writes: \<open>keep\<close> is what it leaves alone. Links that
  wait in the batch count for the row that is being linked.
\<close>

locale link_table =
  fixes links :: "import_db \<Rightarrow> (int \<times> int) list" and add :: "int \<Rightarrow> int list \<Rightarrow> import_db \<Rightarrow> import_db" and keep :: "import_db \<Rightarrow> 'k"
  assumes links_add: "set (links (add g pks db)) = set (links db) \<union> {g} \<times> set pks"
    and keep_add: "keep (add g pks db) = keep db" "batch (add g pks db) = batch db"
    and of_batch: "links (db\<lparr>batch := b\<rparr>) = links db" "keep (db\<lparr>batch := b\<rparr>) = keep db"
begin

definition eff :: "int \<Rightarrow> import_db \<Rightarrow> (int \<times> int) set" where
  "eff g db = set (links db) \<union> {g} \<times> set (batch db)"

lemma step:
  "eff g (batch_add bs (add g) pks fl db) = eff g db \<union> {g} \<times> set pks"
  "keep (batch_add bs (add g) pks fl db) = keep db"
  "batch (batch_add bs (add g) pks True db) = []"
  by (auto simp: batch_add_def Let_def eff_def links_add keep_add of_batch)

lemma fold_step:
  "eff g (fold (\<lambda>x. batch_add bs (add g) [k x] False) xs db) = eff g db \<union> {g} \<times> k ` set xs"
  "keep (fold (\<lambda>x. batch_add bs (add g) [k x] False) xs db) = keep db"
  by (induction xs arbitrary: db) (auto simp: step)

lemma pass:
  assumes query: "\<And>ks s. ks \<in> set kss \<Longrightarrow> keep s = keep db \<Longrightarrow> set (links s) \<subseteq> L \<Longrightarrow>
      k ` set (query ks s) \<subseteq> sel ks \<and> sel ks \<subseteq> k ` set (query ks s) \<union> {c. (g, c) \<in> eff g s}"
    and bound: "\<And>ks. ks \<in> set kss \<Longrightarrow> {g} \<times> sel ks \<subseteq> L"
    and s: "keep s = keep db" "eff g s \<subseteq> L"
  shows "eff g (fold (\<lambda>ks s. fold (\<lambda>x. batch_add bs (add g) [k x] False) (query ks s) s) kss s) = eff g s \<union> {g} \<times> (\<Union>ks \<in> set kss. sel ks) \<and>
    keep (fold (\<lambda>ks s. fold (\<lambda>x. batch_add bs (add g) [k x] False) (query ks s) s) kss s) = keep db"
  using query bound s
proof (induction kss arbitrary: s)
  case (Cons ks kss)
  let ?t = "fold (\<lambda>x. batch_add bs (add g) [k x] False) (query ks s) s"
  have "set (links s) \<subseteq> L" using Cons.prems(4) by (auto simp: eff_def)
  then have q: "k ` set (query ks s) \<subseteq> sel ks \<and> sel ks \<subseteq> k ` set (query ks s) \<union> {c. (g, c) \<in> eff g s}"
    using Cons.prems(1) [of ks s] Cons.prems(3) by simp
  then have t: "eff g ?t = eff g s \<union> {g} \<times> sel ks" "keep ?t = keep db" using Cons.prems(3) by (auto simp: fold_step)
  have L: "eff g ?t \<subseteq> L" using Cons.prems(2) [of ks] Cons.prems(4) unfolding t by simp
  have "\<And>ks' s'. ks' \<in> set kss \<Longrightarrow> keep s' = keep db \<Longrightarrow> set (links s') \<subseteq> L \<Longrightarrow>
      k ` set (query ks' s') \<subseteq> sel ks' \<and> sel ks' \<subseteq> k ` set (query ks' s') \<union> {c. (g, c) \<in> eff g s'}"
    using Cons.prems(1) by simp
  from Cons.IH [OF this Cons.prems(2) t(2) L] show ?case unfolding t by auto
qed simp

lemma rounds:
  assumes step: "\<And>r s. r \<in> R \<Longrightarrow> keep s = keep db \<Longrightarrow> batch s = [] \<Longrightarrow> set (links s) \<subseteq> L \<Longrightarrow>
      set (links (link r s)) = set (links s) \<union> T r \<and> keep (link r s) = keep db \<and> batch (link r s) = []"
    and bound: "\<And>r. r \<in> R \<Longrightarrow> T r \<subseteq> L"
    and query: "\<And>ks s. keep s = keep db \<Longrightarrow> set (query ks s) = sel ks" "\<And>ks. ks \<in> set kss \<Longrightarrow> sel ks \<subseteq> R"
    and s: "keep s = keep db" "batch s = []" "set (links s) \<subseteq> L"
  shows "set (links (fold (\<lambda>ks s. fold link (query ks s) s) kss s)) = set (links s) \<union> (\<Union>ks \<in> set kss. \<Union>r \<in> sel ks. T r) \<and>
    keep (fold (\<lambda>ks s. fold link (query ks s) s) kss s) = keep db \<and> batch (fold (\<lambda>ks s. fold link (query ks s) s) kss s) = []"
proof -
  have rows: "set (links (fold link rs s)) = set (links s) \<union> (\<Union>r \<in> set rs. T r) \<and> keep (fold link rs s) = keep db \<and> batch (fold link rs s) = []"
    if "set rs \<subseteq> R" "keep s = keep db" "batch s = []" "set (links s) \<subseteq> L" for rs s
    using that
  proof (induction rs arbitrary: s)
    case (Cons r rs)
    have r: "set (links (link r s)) = set (links s) \<union> T r \<and> keep (link r s) = keep db \<and> batch (link r s) = []"
      using step [of r s] Cons.prems by simp
    then have "set (links (link r s)) \<subseteq> L" using bound [of r] Cons.prems by simp
    with Cons.IH [of "link r s"] Cons.prems r show ?case by auto
  qed simp
  show ?thesis using query(2) s
  proof (induction kss arbitrary: s)
    case (Cons ks kss)
    let ?t = "fold link (query ks s) s"
    have q: "set (query ks s) = sel ks" "sel ks \<subseteq> R" using query(1) Cons.prems by simp_all
    from rows [of "query ks s" s] q Cons.prems have t: "set (links ?t) = set (links s) \<union> (\<Union>r \<in> sel ks. T r)" "keep ?t = keep db" "batch ?t = []" by simp_all
    have "set (links ?t) \<subseteq> L" using t(1) q(2) bound Cons.prems(4) by blast
    with Cons.IH [of ?t] Cons.prems(1) t show ?case by (simp add: Un_assoc)
  qed simp
qed

end

definition beside_children :: "import_db \<Rightarrow> import_host list \<times> import_group list \<times> int list \<times> int list \<times> int \<times> int \<times> (int \<times> int) list" where
  "beside_children db = (i_hosts db, i_groups db, src_hosts db, src_groups db, next_host db, next_group db, i_members db)"

definition beside_members :: "import_db \<Rightarrow> import_host list \<times> import_group list \<times> int list \<times> int list \<times> int \<times> int \<times> (int \<times> int) list" where
  "beside_members db = (i_hosts db, i_groups db, src_hosts db, src_groups db, next_host db, next_group db, i_children db)"

interpretation child_links: link_table i_children add_children beside_children
  by unfold_locales (auto simp: add_children_def beside_children_def)

interpretation member_links: link_table i_members add_members beside_members
  by unfold_locales (auto simp: add_members_def beside_members_def)

definition new_children :: "mem_inventory \<Rightarrow> import_db \<Rightarrow> string \<Rightarrow> int set" where
  "new_children iv db n = {c. \<exists>m. (c, m) \<in> groups_rel db \<and> (n, m) \<in> child_rel iv}"

definition new_members :: "mem_inventory \<Rightarrow> import_db \<Rightarrow> string \<Rightarrow> int set" where
  "new_members iv db n = {h. \<exists>m. (h, m) \<in> hosts_rel db \<and> (n, m) \<in> host_rel iv}"

lemma group_entry:
  assumes "n \<noteq> ''all''"
  shows "dict_get_default (all_groups iv) n empty_group = group_named iv n"
  using assms by (simp add: group_named_def)

lemma link_children_effect:
  assumes "ig_name r \<noteq> ''all''" "batch_size opts \<noteq> 0" "batch db = []"
    and L: "set (i_children db) \<subseteq> L" "{ig_id r} \<times> new_children iv db (ig_name r) \<subseteq> L" "\<And>c. (ig_id r, c) \<in> L \<Longrightarrow> (c, ig_id r) \<notin> L"
  shows "set (i_children (link_children opts iv r db)) = set (i_children db) \<union> {ig_id r} \<times> new_children iv db (ig_name r) \<and>
    beside_children (link_children opts iv r db) = beside_children db \<and> batch (link_children opts iv r db) = []"
proof -
  let ?g = "ig_id r" and ?names = "sort (children (group_named iv (ig_name r)))" and ?bs = "batch_size opts"
  let ?query = "\<lambda>ns s. groups_where (\<lambda>c. ig_name c \<in> set ns \<and> (ig_id c, ?g) \<notin> set (i_children s)) s"
  let ?sel = "\<lambda>ns. {c. \<exists>m \<in> set ns. (c, m) \<in> groups_rel db}"
  let ?t = "fold (\<lambda>ns s. fold (\<lambda>c. batch_add ?bs (add_children ?g) [ig_id c] False) (?query ns s) s) (split_ids ?bs ?names) db"
  have all: "(\<Union>ns \<in> set (split_ids ?bs ?names). ?sel ns) = new_children iv db (ig_name r)"
    using set_split_ids [OF assms(2), of ?names] by (auto simp: new_children_def child_rel_def)
  have "child_links.eff ?g ?t = child_links.eff ?g db \<union> {?g} \<times> (\<Union>ns \<in> set (split_ids ?bs ?names). ?sel ns) \<and> beside_children ?t = beside_children db"
  proof (rule child_links.pass)
    show "{?g} \<times> ?sel ns \<subseteq> L" if "ns \<in> set (split_ids ?bs ?names)" for ns using that L(2) unfolding all [symmetric] by blast
    fix ns s
    assume ns: "ns \<in> set (split_ids ?bs ?names)" and s: "beside_children s = beside_children db" "set (i_children s) \<subseteq> L"
    have rel: "groups_rel s = groups_rel db" using s(1) by (simp add: beside_children_def groups_rel_def)
    have "ig_id ` set (?query ns s) = {c. \<exists>m \<in> set ns. (c, m) \<in> groups_rel s \<and> (c, ?g) \<notin> set (i_children s)}"
      by (auto simp: groups_rel_def)
    moreover have "(c, ?g) \<notin> set (i_children s)" if "m \<in> set ns" "(c, m) \<in> groups_rel db" for c m
      using that ns L(2,3) [unfolded all [symmetric]] s(2) by blast
    ultimately have "ig_id ` set (?query ns s) = ?sel ns" unfolding rel by blast
    then show "ig_id ` set (?query ns s) \<subseteq> ?sel ns \<and> ?sel ns \<subseteq> ig_id ` set (?query ns s) \<union> {c. (?g, c) \<in> child_links.eff ?g s}" by blast
  qed (use L(1) assms(3) in \<open>simp_all add: child_links.eff_def\<close>)
  then have t: "child_links.eff ?g ?t = set (i_children db) \<union> {?g} \<times> new_children iv db (ig_name r)" "beside_children ?t = beside_children db"
    unfolding all by (simp_all add: child_links.eff_def [of _ db] assms(3))
  have link: "link_children opts iv r db = batch_add ?bs (add_children ?g) [] True ?t"
    using assms(1) by (simp add: link_children_def Let_def group_entry)
  have "child_links.eff ?g (link_children opts iv r db) = set (i_children db) \<union> {?g} \<times> new_children iv db (ig_name r)"
    unfolding link child_links.step(1) t(1) by simp
  then show ?thesis unfolding link child_links.eff_def child_links.step(2,3) using t(2) by simp
qed

lemma link_hosts_effect:
  assumes "ig_name r \<noteq> ''all''" "batch_size opts \<noteq> 0" "batch db = []" "plain_import opts iv"
  shows "set (i_members (link_hosts opts iv r db)) = set (i_members db) \<union> {ig_id r} \<times> new_members iv db (ig_name r) \<and>
    beside_members (link_hosts opts iv r db) = beside_members db \<and> batch (link_hosts opts iv r db) = []"
proof -
  let ?g = "ig_id r" and ?names = "sort (hosts (group_named iv (ig_name r)))" and ?bs = "batch_size opts"
  let ?query = "\<lambda>ns s. hosts_where (\<lambda>h. ih_name h \<in> set ns \<and> (?g, ih_id h) \<notin> set (i_members s)) s"
  let ?sel = "\<lambda>ns. {h. \<exists>m \<in> set ns. (h, m) \<in> hosts_rel db}"
  let ?t = "fold (\<lambda>ns s. fold (\<lambda>h. batch_add ?bs (add_members ?g) [ih_id h] False) (?query ns s) s) (split_ids ?bs ?names) db"
  have all: "(\<Union>ns \<in> set (split_ids ?bs ?names). ?sel ns) = new_members iv db (ig_name r)"
    using set_split_ids [OF assms(2), of ?names] by (auto simp: new_members_def host_rel_def)
  have "member_links.eff ?g ?t = member_links.eff ?g db \<union> {?g} \<times> (\<Union>ns \<in> set (split_ids ?bs ?names). ?sel ns) \<and> beside_members ?t = beside_members db"
  proof (rule member_links.pass [where L = UNIV])
    fix ns s
    assume s: "beside_members s = beside_members db"
    have rel: "hosts_rel s = hosts_rel db" using s by (simp add: beside_members_def hosts_rel_def)
    have "ih_id ` set (?query ns s) = {h. \<exists>m \<in> set ns. (h, m) \<in> hosts_rel s \<and> (?g, h) \<notin> set (i_members s)}"
      by (auto simp: hosts_rel_def)
    then show "ih_id ` set (?query ns s) \<subseteq> ?sel ns \<and> ?sel ns \<subseteq> ih_id ` set (?query ns s) \<union> {c. (?g, c) \<in> member_links.eff ?g s}"
      unfolding rel by (auto simp: member_links.eff_def)
  qed simp_all
  then have t: "member_links.eff ?g ?t = set (i_members db) \<union> {?g} \<times> new_members iv db (ig_name r)" "beside_members ?t = beside_members db"
    unfolding all by (simp_all add: member_links.eff_def [of _ db] assms(3))
  have "split_ids ?bs [] = ([] :: string list list)" by (subst split_ids.simps) simp
  then have link: "link_hosts opts iv r db = batch_add ?bs (add_members ?g) [] True ?t"
    using assms(1) plain_ids(5,6) [OF assms(4)] by (simp add: link_hosts_def Let_def group_entry)
  have "member_links.eff ?g (link_hosts opts iv r db) = set (i_members db) \<union> {?g} \<times> new_members iv db (ig_name r)"
    unfolding link member_links.step(1) t(1) by simp
  then show ?thesis unfolding link member_links.eff_def member_links.step(2,3) using t(2) by simp
qed

text \<open>All links: pairs of keys whose names the import relates.\<close>

definition child_pairs :: "mem_inventory \<Rightarrow> import_db \<Rightarrow> (int \<times> int) set" where
  "child_pairs iv db = {(p, c). \<exists>a b. (p, a) \<in> groups_rel db \<and> (c, b) \<in> groups_rel db \<and> (a, b) \<in> named_children iv}"

definition member_pairs :: "mem_inventory \<Rightarrow> import_db \<Rightarrow> (int \<times> int) set" where
  "member_pairs iv db = {(g, h). \<exists>a b. (g, a) \<in> groups_rel db \<and> (h, b) \<in> hosts_rel db \<and> (a, b) \<in> named_members iv}"

lemma parents_listed:
  assumes "mem_ok iv"
  shows "(a, b) \<in> named_children iv \<Longrightarrow> a \<in> set (map fst (filter (\<lambda>(n, g). children g \<noteq> []) (all_groups iv)))"
    "(a, h) \<in> named_members iv \<Longrightarrow> a \<in> set (map fst (filter (\<lambda>(n, g). hosts g \<noteq> []) (all_groups iv)))"
    "a \<in> set (map fst (filter P (all_groups iv))) \<Longrightarrow> a \<noteq> ''all''"
proof -
  have get: "group_named iv a = (case dict_get (all_groups iv) a of None \<Rightarrow> empty_group | Some g \<Rightarrow> g)" if "a \<noteq> ''all''" for a
    using that by (simp add: group_named_def dict_get_default_def)
  show "(a, b) \<in> named_children iv \<Longrightarrow> a \<in> set (map fst (filter (\<lambda>(n, g). children g \<noteq> []) (all_groups iv)))"
    using get [of a] by (force simp: named_children_def child_rel_def empty_group_def dest: map_of_SomeD split: option.splits)
  show "(a, h) \<in> named_members iv \<Longrightarrow> a \<in> set (map fst (filter (\<lambda>(n, g). hosts g \<noteq> []) (all_groups iv)))"
    using get [of a] by (force simp: named_members_def host_rel_def empty_group_def dest: map_of_SomeD split: option.splits)
  show "a \<in> set (map fst (filter P (all_groups iv))) \<Longrightarrow> a \<noteq> ''all''" using assms by (force simp: mem_ok_def gset_def)
qed

lemma union_rows:
  assumes "bs \<noteq> 0"
  shows "(\<Union>ns \<in> set (split_ids bs names). \<Union>r \<in> {r \<in> set (i_groups db). ig_name r \<in> set ns}. {ig_id r} \<times> T (ig_name r)) =
    {(p, y). \<exists>a \<in> set names. (p, a) \<in> groups_rel db \<and> y \<in> T a}"
proof -
  have "(\<Union>ns \<in> set (split_ids bs names). \<Union>r \<in> {r \<in> set (i_groups db). ig_name r \<in> set ns}. {ig_id r} \<times> T (ig_name r)) =
    (\<Union>r \<in> {r \<in> set (i_groups db). ig_name r \<in> (\<Union>ns \<in> set (split_ids bs names). set ns)}. {ig_id r} \<times> T (ig_name r))" by auto
  then show ?thesis unfolding set_split_ids [OF assms] by (auto simp: groups_rel_def)
qed

lemma link_pairs:
  assumes "mem_ok iv"
  shows "{(p, y). \<exists>a \<in> set (sort (map fst (filter (\<lambda>(n, g). children g \<noteq> []) (all_groups iv)))). (p, a) \<in> groups_rel db \<and> y \<in> new_children iv db a} = child_pairs iv db"
    "{(p, y). \<exists>a \<in> set (sort (map fst (filter (\<lambda>(n, g). hosts g \<noteq> []) (all_groups iv)))). (p, a) \<in> groups_rel db \<and> y \<in> new_members iv db a} = member_pairs iv db"
proof -
  have "a \<in> set (sort (map fst (filter (\<lambda>(n, g). children g \<noteq> []) (all_groups iv)))) \<and> (a, b) \<in> child_rel iv \<longleftrightarrow> (a, b) \<in> named_children iv" for a b
    unfolding set_sort using parents_listed(1,3) [OF assms] by (auto simp only: named_children_def mem_Collect_eq prod.case)
  then show "{(p, y). \<exists>a \<in> set (sort (map fst (filter (\<lambda>(n, g). children g \<noteq> []) (all_groups iv)))). (p, a) \<in> groups_rel db \<and> y \<in> new_children iv db a} = child_pairs iv db"
    unfolding new_children_def child_pairs_def by blast
  have "a \<in> set (sort (map fst (filter (\<lambda>(n, g). hosts g \<noteq> []) (all_groups iv)))) \<and> (a, b) \<in> host_rel iv \<longleftrightarrow> (a, b) \<in> named_members iv" for a b
    unfolding set_sort using parents_listed(2,3) [OF assms] by (auto simp only: named_members_def mem_Collect_eq prod.case)
  then show "{(p, y). \<exists>a \<in> set (sort (map fst (filter (\<lambda>(n, g). hosts g \<noteq> []) (all_groups iv)))). (p, a) \<in> groups_rel db \<and> y \<in> new_members iv db a} = member_pairs iv db"
    unfolding new_members_def member_pairs_def by blast
qed

lemma create_children_effect:
  assumes "batch_size opts \<noteq> 0" "batch db = []" "mem_ok iv" "acyclic (set (i_children db) \<union> child_pairs iv db)"
  shows "set (i_children (create_update_group_children opts iv db)) = set (i_children db) \<union> child_pairs iv db \<and>
    beside_children (create_update_group_children opts iv db) = beside_children db \<and> batch (create_update_group_children opts iv db) = []"
proof -
  let ?names = "sort (map fst (filter (\<lambda>(n, g). children g \<noteq> []) (all_groups iv)))" and ?bs = "batch_size opts"
  let ?sel = "\<lambda>ns. {r \<in> set (i_groups db). ig_name r \<in> set ns}" and ?T = "\<lambda>r. {ig_id r} \<times> new_children iv db (ig_name r)"
  let ?L = "set (i_children db) \<union> child_pairs iv db"
  have anti: "(c, p) \<notin> ?L" if "(p, c) \<in> ?L" for p c using assms(4) that unfolding acyclic_def by (meson r_into_trancl trancl_trans)
  have T: "?T r \<subseteq> ?L" if "r \<in> set (i_groups db)" "ig_name r \<noteq> ''all''" for r
    using that by (auto simp: new_children_def child_pairs_def groups_rel_def named_children_def)
  have "set (i_children (create_update_group_children opts iv db)) = set (i_children db) \<union> (\<Union>ns \<in> set (split_ids ?bs ?names). \<Union>r \<in> ?sel ns. ?T r) \<and>
    beside_children (create_update_group_children opts iv db) = beside_children db \<and> batch (create_update_group_children opts iv db) = []"
    unfolding create_update_group_children_def
  proof (rule child_links.rounds [where R = "{r \<in> set (i_groups db). ig_name r \<in> set ?names}" and L = ?L])
    fix r s
    assume r: "r \<in> {r \<in> set (i_groups db). ig_name r \<in> set ?names}" and s: "beside_children s = beside_children db" "batch s = []" "set (i_children s) \<subseteq> ?L"
    have n: "ig_name r \<noteq> ''all''" using r parents_listed(3) [OF assms(3), of "ig_name r"] by auto
    have same: "new_children iv s (ig_name r) = new_children iv db (ig_name r)" using s(1) by (simp add: new_children_def beside_children_def groups_rel_def)
    show "set (i_children (link_children opts iv r s)) = set (i_children s) \<union> ?T r \<and>
        beside_children (link_children opts iv r s) = beside_children db \<and> batch (link_children opts iv r s) = []"
    proof -
      have "?T r \<subseteq> ?L" using T [of r] n r by simp
      from link_children_effect [OF n assms(1) s(2,3), of iv, unfolded same, OF this anti] s(1) show ?thesis by simp
    qed
  next
    fix r
    assume "r \<in> {r \<in> set (i_groups db). ig_name r \<in> set ?names}"
    then show "?T r \<subseteq> ?L" using T [of r] parents_listed(3) [OF assms(3), of "ig_name r"] by auto
  next
    show "set (groups_where (\<lambda>r. ig_name r \<in> set ns) s) = ?sel ns" if "beside_children s = beside_children db" for ns s
      using that by (simp add: beside_children_def)
    show "?sel ns \<subseteq> {r \<in> set (i_groups db). ig_name r \<in> set ?names}" if "ns \<in> set (split_ids ?bs ?names)" for ns
      using that set_split_ids [OF assms(1), of ?names] by blast
  qed (use assms(2) in auto)
  then show ?thesis unfolding union_rows [OF assms(1)] link_pairs(1) [OF assms(3)] .
qed

lemma create_members_effect:
  assumes "batch db = []" "plain_import opts iv"
  shows "set (i_members (create_update_group_hosts opts iv db)) = set (i_members db) \<union> member_pairs iv db \<and>
    beside_members (create_update_group_hosts opts iv db) = beside_members db \<and> batch (create_update_group_hosts opts iv db) = []"
proof -
  let ?names = "sort (map fst (filter (\<lambda>(n, g). hosts g \<noteq> []) (all_groups iv)))" and ?bs = "batch_size opts"
  let ?sel = "\<lambda>ns. {r \<in> set (i_groups db). ig_name r \<in> set ns}" and ?T = "\<lambda>r. {ig_id r} \<times> new_members iv db (ig_name r)"
  have bs: "?bs \<noteq> 0" and ok: "mem_ok iv" using assms(2) by (simp_all add: plain_import_def)
  have "set (i_members (create_update_group_hosts opts iv db)) = set (i_members db) \<union> (\<Union>ns \<in> set (split_ids ?bs ?names). \<Union>r \<in> ?sel ns. ?T r) \<and>
    beside_members (create_update_group_hosts opts iv db) = beside_members db \<and> batch (create_update_group_hosts opts iv db) = []"
    unfolding create_update_group_hosts_def
  proof (rule member_links.rounds [where R = "{r \<in> set (i_groups db). ig_name r \<in> set ?names}" and L = UNIV])
    fix r s
    assume r: "r \<in> {r \<in> set (i_groups db). ig_name r \<in> set ?names}" and s: "beside_members s = beside_members db" "batch s = []"
    have n: "ig_name r \<noteq> ''all''" using r parents_listed(3) [OF ok, of "ig_name r"] by auto
    have same: "new_members iv s (ig_name r) = new_members iv db (ig_name r)" using s(1) by (simp add: new_members_def beside_members_def hosts_rel_def)
    show "set (i_members (link_hosts opts iv r s)) = set (i_members s) \<union> ?T r \<and>
        beside_members (link_hosts opts iv r s) = beside_members db \<and> batch (link_hosts opts iv r s) = []"
      using link_hosts_effect [OF n bs s(2) assms(2)] s(1) unfolding same by simp
  next
    show "set (groups_where (\<lambda>r. ig_name r \<in> set ns) s) = ?sel ns" if "beside_members s = beside_members db" for ns s
      using that by (simp add: beside_members_def)
    show "?sel ns \<subseteq> {r \<in> set (i_groups db). ig_name r \<in> set ?names}" if "ns \<in> set (split_ids ?bs ?names)" for ns
      using that set_split_ids [OF bs, of ?names] by blast
  qed (use assms(1) in auto)
  then show ?thesis unfolding union_rows [OF bs] link_pairs(2) [OF ok] .
qed

section \<open>The stages on names\<close>

lemma views [simp]:
  "v_hosts (view db) = snd ` hosts_rel db" "v_groups (view db) = snd ` groups_rel db"
  "v_members (view db) = {(a, b). \<exists>g h. (g, a) \<in> groups_rel db \<and> (h, b) \<in> hosts_rel db \<and> (g, h) \<in> set (i_members db)}"
  "v_children (view db) = {(a, b). \<exists>p c. (p, a) \<in> groups_rel db \<and> (c, b) \<in> groups_rel db \<and> (p, c) \<in> set (i_children db)}"
  "v_src_hosts (view db) = {n. \<exists>h \<in> set (src_hosts db). (h, n) \<in> hosts_rel db}"
  "v_src_groups (view db) = {n. \<exists>g \<in> set (src_groups db). (g, n) \<in> groups_rel db}"
  by (simp_all add: view_def)

lemma hosts_ok_unique:
  assumes "hosts_ok db"
  shows "(i, n) \<in> hosts_rel db \<Longrightarrow> (i, m) \<in> hosts_rel db \<Longrightarrow> n = m" "(i, n) \<in> hosts_rel db \<Longrightarrow> (j, n) \<in> hosts_rel db \<Longrightarrow> i = j"
  using assms rel_unique by (auto simp: hosts_ok_def)

lemma groups_ok_unique:
  assumes "groups_ok db"
  shows "(i, n) \<in> groups_rel db \<Longrightarrow> (i, m) \<in> groups_rel db \<Longrightarrow> n = m" "(i, n) \<in> groups_rel db \<Longrightarrow> (j, n) \<in> groups_rel db \<Longrightarrow> i = j"
  using assms grel_unique by (auto simp: groups_ok_def)

lemma in_rel: "i \<in> set (map ih_id (i_hosts db)) \<longleftrightarrow> (\<exists>n. (i, n) \<in> hosts_rel db)" "i \<in> set (map ig_id (i_groups db)) \<longleftrightarrow> (\<exists>n. (i, n) \<in> groups_rel db)"
  by (auto simp: hosts_rel_def groups_rel_def)

lemma without_hosts_view:
  assumes ok: "db_ok db" and plain: "plain_import opts iv"
    and m: "set (dict_keys m) = {i. \<exists>n \<in> hset iv. (i, n) \<in> hosts_rel db}"
  shows "view (delete_hosts opts m db) = view_without_hosts iv (view db) \<and> db_ok (delete_hosts opts m db) \<and>
    (\<forall>n \<in> hset iv. \<forall>i. (i, n) \<in> hosts_rel (delete_hosts opts m db) \<longleftrightarrow> (i, n) \<in> hosts_rel db) \<and>
    i_children (delete_hosts opts m db) = i_children db"
proof -
  have h: "hosts_ok db" and bs: "batch_size opts \<noteq> 0" using ok plain by (simp_all add: db_ok_def plain_import_def)
  obtain L where L: "set L = set (src_hosts db) - set (dict_keys m)" and t: "delete_hosts opts m db = db\<lparr>i_hosts := filter (\<lambda>r. ih_id r \<notin> set L) (i_hosts db),
     i_members := filter (\<lambda>(g, x). x \<notin> set L) (i_members db), src_hosts := filter (\<lambda>h. h \<notin> set L) (src_hosts db)\<rparr>" (is "_ = ?t")
    using delete_hosts_effect [OF h bs] by blast
  let ?gone = "v_src_hosts (view db) - hset iv"
  have gone: "i \<in> set L \<longleftrightarrow> n \<in> ?gone" if "(i, n) \<in> hosts_rel db" for i n
  proof -
    have "i \<in> set (src_hosts db) \<longleftrightarrow> n \<in> v_src_hosts (view db)" unfolding views mem_Collect_eq using that hosts_ok_unique(2) [OF h that] by blast
    moreover have "i \<in> set (dict_keys m) \<longleftrightarrow> n \<in> hset iv" unfolding m using that hosts_ok_unique(1) [OF h that] by blast
    ultimately show ?thesis unfolding L by blast
  qed
  have H: "hosts_rel ?t = {(i, n) \<in> hosts_rel db. n \<notin> ?gone}"
  proof -
    have "hosts_rel ?t = {(i, n) \<in> hosts_rel db. i \<notin> set L}" by (auto simp: hosts_rel_def)
    also have "\<dots> = {(i, n) \<in> hosts_rel db. n \<notin> ?gone}" using gone by blast
    finally show ?thesis .
  qed
  have G: "groups_rel ?t = groups_rel db" by (simp add: groups_rel_def)
  have M: "set (i_members ?t) = {(g, x) \<in> set (i_members db). x \<notin> set L}" by auto
  have S: "set (src_hosts ?t) = set (src_hosts db) - set L" by auto
  have "view ?t = view_without_hosts iv (view db)"
    unfolding view_def [of ?t] view_without_hosts_def Let_def H G M S using gone
    by (auto simp: view_def) (force+)?
  moreover have "db_ok ?t" using ok by (auto simp: db_ok_def hosts_ok_def groups_ok_def distinct_map_filter_id)
  moreover have "\<forall>n \<in> hset iv. \<forall>i. (i, n) \<in> hosts_rel ?t \<longleftrightarrow> (i, n) \<in> hosts_rel db" unfolding H by auto
  ultimately show ?thesis unfolding t by simp
qed

lemma through_named:
  assumes G: "\<And>i n m. (i, n) \<in> G \<Longrightarrow> (i, m) \<in> G \<Longrightarrow> n = m" "\<And>i j n. (i, n) \<in> G \<Longrightarrow> (j, n) \<in> G \<Longrightarrow> i = j"
    and Y: "\<And>i j n. (i, n) \<in> Y \<Longrightarrow> (j, n) \<in> Y \<Longrightarrow> i = j"
    and D: "\<And>i n. (i, n) \<in> G \<Longrightarrow> i \<in> D \<longleftrightarrow> n \<in> E" and C: "C \<subseteq> fst ` G \<times> fst ` G"
    and x: "(x, a) \<in> G" and y: "(y, b) \<in> Y"
  shows "through D C R x y \<longleftrightarrow> through E {(a, b). \<exists>p c. (p, a) \<in> G \<and> (c, b) \<in> G \<and> (p, c) \<in> C} {(a, b). \<exists>g h. (g, a) \<in> G \<and> (h, b) \<in> Y \<and> (g, h) \<in> R} a b"
    (is "_ \<longleftrightarrow> through E ?C ?R a b")
proof
  assume "through D C R x y"
  then show "through E ?C ?R a b" using x y
  proof (induction arbitrary: a rule: through.induct)
    case (direct x y)
    then show ?case by (intro through.direct) blast
  next
    case (via x d y)
    then obtain e where "(d, e) \<in> G" using C by auto
    with via D show ?case by (intro through.via [of a e]) blast+
  qed
next
  assume "through E ?C ?R a b"
  then show "through D C R x y" using x y
  proof (induction arbitrary: x rule: through.induct)
    case (direct a b)
    then obtain g h where gh: "(g, a) \<in> G" "(h, b) \<in> Y" "(g, h) \<in> R" by blast
    then have "g = x" "h = y" using G(2) Y direct(2,3) by blast+
    with gh(3) show ?case by (simp add: through.direct)
  next
    case (via a e b)
    then obtain p c where pc: "(p, a) \<in> G" "(c, e) \<in> G" "(p, c) \<in> C" by blast
    then have "p = x" using G(2) via(5) by blast
    then show ?case using via(2) via(4) [OF pc(2) via(6)] pc D by (intro through.via [of x c]) auto
  qed
qed

lemma through_ends: "through D C R x y \<Longrightarrow> C \<subseteq> A \<times> B \<Longrightarrow> R \<subseteq> A \<times> F \<Longrightarrow> x \<in> A \<and> y \<in> F"
  by (induction rule: through.induct) auto

lemma acyclic_named:
  assumes "C \<subseteq> fst ` G \<times> fst ` G" "acyclic {(a, b). \<exists>p c. (p, a) \<in> G \<and> (c, b) \<in> G \<and> (p, c) \<in> C}"
  shows "acyclic C"
proof -
  define f where "f i = (SOME n. (i, n) \<in> G)" for i
  have f: "(i, f i) \<in> G" if "i \<in> fst ` G" for i using that someI_ex [of "\<lambda>n. (i, n) \<in> G"] by (force simp: f_def)
  have "(f x, f y) \<in> {(a, b). \<exists>p c. (p, a) \<in> G \<and> (c, b) \<in> G \<and> (p, c) \<in> C}\<^sup>+" if "(x, y) \<in> C\<^sup>+" for x y
    using that
  proof (induction rule: trancl_induct)
    case (base y)
    then show ?case using assms(1) f by blast
  next
    case (step y z)
    then have "(f y, f z) \<in> {(a, b). \<exists>p c. (p, a) \<in> G \<and> (c, b) \<in> G \<and> (p, c) \<in> C}" using assms(1) f by blast
    with step(3) show ?case by (rule trancl_into_trancl)
  qed
  with assms(2) show ?thesis unfolding acyclic_def by blast
qed

lemma without_groups_view:
  assumes ok: "db_ok db" and bs: "batch_size opts \<noteq> 0" and ac: "acyclic (set (i_children db))"
  shows "view (delete_groups opts iv db) = view_without_groups iv (view db) \<and> db_ok (delete_groups opts iv db) \<and>
    i_hosts (delete_groups opts iv db) = i_hosts db \<and> v_src_groups (view (delete_groups opts iv db)) \<subseteq> gset iv"
proof -
  have g: "groups_ok db" and h: "hosts_ok db" using ok by (simp_all add: db_ok_def)
  have some: "some_groups_ok db" using g ac by (simp add: groups_ok_def some_groups_ok_def)
  have names: "distinct (map ig_name (i_groups db))" using g by (simp add: groups_ok_def)
  obtain L where L: "distinct L" "set L = {g \<in> set (src_groups db). \<forall>n \<in> gset iv. (g, n) \<notin> groups_rel db}"
    and t: "delete_groups opts iv db = fold delete_group L db" using delete_groups_effect [OF some names bs] by blast
  let ?t = "fold delete_group L db" and ?gone = "v_src_groups (view db) - gset iv" and ?G = "groups_rel db" and ?H = "hosts_rel db"
  let ?C = "set (i_children db)" and ?M = "set (i_members db)"
  note eff = fold_delete_group [OF some L(1)]
  have gone: "i \<in> set L \<longleftrightarrow> n \<in> ?gone" if "(i, n) \<in> ?G" for i n
  proof -
    have "i \<in> set (src_groups db) \<longleftrightarrow> n \<in> v_src_groups (view db)" unfolding views mem_Collect_eq using that groups_ok_unique(2) [OF g that] by blast
    moreover have "(\<exists>n \<in> gset iv. (i, n) \<in> ?G) \<longleftrightarrow> n \<in> gset iv" using that groups_ok_unique(1) [OF g that] by blast
    ultimately show ?thesis unfolding L by blast
  qed
  have GC: "?C \<subseteq> fst ` ?G \<times> fst ` ?G" and GM: "?M \<subseteq> fst ` ?G \<times> fst ` ?H"
    using ok by (auto simp: db_ok_def groups_ok_def rel_domain image_image groups_rel_def hosts_rel_def)
  have G: "groups_rel ?t = {(i, n) \<in> ?G. n \<notin> ?gone}"
  proof -
    have "groups_rel ?t = {(i, n) \<in> ?G. i \<notin> set L}" using eff by (auto simp: groups_rel_def)
    also have "\<dots> = {(i, n) \<in> ?G. n \<notin> ?gone}" using gone by blast
    finally show ?thesis .
  qed
  have H: "hosts_rel ?t = ?H" using eff by (simp add: hosts_rel_def)
  let ?vC = "v_children (view db)" and ?vM = "v_members (view db)"
  have thruM: "through (set L) ?C ?M x y \<longleftrightarrow> through ?gone ?vC ?vM a b" if "(x, a) \<in> ?G" "(y, b) \<in> ?H" for x y a b
    unfolding views(3,4)
    by (rule through_named [OF groups_ok_unique(1) [OF g] groups_ok_unique(2) [OF g] hosts_ok_unique(2) [OF h] gone GC that])
  have thruC: "through (set L) ?C ?C x y \<longleftrightarrow> through ?gone ?vC ?vC a b" if "(x, a) \<in> ?G" "(y, b) \<in> ?G" for x y a b
    unfolding views(3,4)
    by (rule through_named [OF groups_ok_unique(1) [OF g] groups_ok_unique(2) [OF g] groups_ok_unique(2) [OF g] gone GC that])
  have endsM: "\<exists>x y. (x, a) \<in> ?G \<and> (y, b) \<in> ?H" if "through ?gone ?vC ?vM a b" for a b
    using through_ends [OF that, of "snd ` ?G" "snd ` ?G" "snd ` ?H"] by force
  have endsC: "\<exists>x y. (x, a) \<in> ?G \<and> (y, b) \<in> ?G" if "through ?gone ?vC ?vC a b" for a b
    using through_ends [OF that, of "snd ` ?G" "snd ` ?G" "snd ` ?G"] by force
  have M: "v_members (view ?t) = {(a, b). a \<notin> ?gone \<and> through ?gone ?vC ?vM a b}"
  proof -
    have "(a, b) \<in> v_members (view ?t) \<longleftrightarrow> (\<exists>x y. (x, a) \<in> ?G \<and> a \<notin> ?gone \<and> (y, b) \<in> ?H \<and> x \<notin> set L \<and> through (set L) ?C ?M x y)" for a b
      unfolding views(3) [of ?t] G H using eff by auto
    also have "\<dots> a b \<longleftrightarrow> a \<notin> ?gone \<and> through ?gone ?vC ?vM a b" for a b using gone thruM endsM by blast
    finally show ?thesis by (intro set_eqI) (simp only: split_paired_all mem_Collect_eq prod.case)
  qed
  have K: "v_children (view ?t) = {(a, b). a \<notin> ?gone \<and> b \<notin> ?gone \<and> through ?gone ?vC ?vC a b}"
  proof -
    have "(a, b) \<in> v_children (view ?t) \<longleftrightarrow> (\<exists>x y. (x, a) \<in> ?G \<and> a \<notin> ?gone \<and> (y, b) \<in> ?G \<and> b \<notin> ?gone \<and> x \<notin> set L \<and> y \<notin> set L \<and> through (set L) ?C ?C x y)" for a b
      unfolding views(4) [of ?t] G using eff by auto
    also have "\<dots> a b \<longleftrightarrow> a \<notin> ?gone \<and> b \<notin> ?gone \<and> through ?gone ?vC ?vC a b" for a b using gone thruC endsC by blast
    finally show ?thesis by (intro set_eqI) (simp only: split_paired_all mem_Collect_eq prod.case)
  qed
  have S: "v_src_groups (view ?t) = v_src_groups (view db) - ?gone"
    unfolding views(6) G using eff gone by fastforce
  have "view ?t = view_without_groups iv (view db)"
  proof (rule inv_view.equality)
    show "v_hosts (view ?t) = v_hosts (view_without_groups iv (view db))" by (simp add: view_without_groups_def Let_def H)
    show "v_src_hosts (view ?t) = v_src_hosts (view_without_groups iv (view db))" using eff by (simp add: view_without_groups_def Let_def H)
    show "v_groups (view ?t) = v_groups (view_without_groups iv (view db))" unfolding views(2) G by (force simp: view_without_groups_def Let_def)
  qed (use M K S in \<open>simp_all add: view_without_groups_def Let_def\<close>)
  moreover have "db_ok ?t"
  proof -
    have ids: "ig_id ` set (i_groups ?t) = ig_id ` set (i_groups db) - set L" using eff by auto
    have C': "set (i_children ?t) \<subseteq> ig_id ` set (i_groups ?t) \<times> ig_id ` set (i_groups ?t)"
      unfolding ids using eff through_ends [of "set L" ?C ?C _ _ "fst ` ?G" "fst ` ?G" "fst ` ?G"] GC by (auto simp: rel_domain)
    have M': "set (i_members ?t) \<subseteq> ig_id ` set (i_groups ?t) \<times> ih_id ` set (i_hosts db)"
      unfolding ids using eff through_ends [of "set L" ?C ?M _ _ "fst ` ?G" "fst ` ?G" "fst ` ?H"] GC GM by (auto simp: rel_domain)
    have "set (src_groups ?t) \<subseteq> ig_id ` set (i_groups ?t)" unfolding ids using eff g by (auto simp: groups_ok_def)
    moreover have "distinct (src_groups ?t)" "\<forall>r \<in> set (i_groups ?t). ig_id r < next_group ?t" "distinct (map ig_id (i_groups ?t))" "distinct (map ig_name (i_groups ?t))"
      using eff g by (auto simp: groups_ok_def distinct_map_filter_id)
    ultimately show ?thesis using ok eff C' M' by (simp add: db_ok_def hosts_ok_def groups_ok_def)
  qed
  ultimately show ?thesis unfolding t using eff S by (simp add: Diff_Diff_Int)
qed

lemma cleared_view:
  assumes ok: "db_ok db" and plain: "plain_import opts iv" and src: "v_src_groups (view db) \<subseteq> gset iv"
  shows "\<exists>t. delete_group_children_and_hosts [] iv db = Inr t \<and> view t = view_cleared iv (view db) \<and> db_ok t \<and> i_hosts t = i_hosts db"
proof -
  let ?R = "groups_where (\<lambda>r. ig_id r \<in> set (src_groups db)) db" and ?G = "groups_rel db" and ?H = "hosts_rel db"
  have g: "groups_ok db" and h: "hosts_ok db" using ok by (simp_all add: db_ok_def)
  have R: "\<forall>r \<in> set ?R. ig_name r \<in> gset iv"
  proof
    fix r
    assume "r \<in> set ?R"
    then have "ig_name r \<in> v_src_groups (view db)" by (auto simp: groups_rel_def)
    with src show "ig_name r \<in> gset iv" by blast
  qed
  obtain cs ms where t: "fold_ok (clear_group [] (src_hosts db) iv) ?R db = Inr (db\<lparr>i_children := cs, i_members := ms\<rparr>)"
    and cs: "set cs = set (i_children db) - (\<Union>r \<in> set ?R. stale_child_links iv r db)"
    and ms: "set ms = set (i_members db) - (\<Union>r \<in> set ?R. stale_member_links (src_hosts db) iv r db)"
    using clear_groups_effect [OF plain R, of "src_hosts db" db] by blast
  let ?t = "db\<lparr>i_children := cs, i_members := ms\<rparr>"
  have same: "groups_rel ?t = ?G" "hosts_rel ?t = ?H" by (simp_all add: groups_rel_def hosts_rel_def)
  have rows: "(\<exists>r \<in> set ?R. ig_id r = i \<and> P (ig_name r)) \<longleftrightarrow> i \<in> set (src_groups db) \<and> P n" if "(i, n) \<in> ?G" for i n P
  proof -
    have "ig_name r = n" if "r \<in> set (i_groups db)" "ig_id r = i" for r
      using that groups_ok_unique(1) [OF g \<open>(i, n) \<in> ?G\<close>, of "ig_name r"] by (auto simp: groups_rel_def)
    moreover obtain r where "r \<in> set (i_groups db)" "ig_id r = i" "ig_name r = n" using \<open>(i, n) \<in> ?G\<close> unfolding groups_rel_def by blast
    ultimately show ?thesis by auto
  qed
  have srcg: "i \<in> set (src_groups db) \<longleftrightarrow> n \<in> v_src_groups (view db)" if "(i, n) \<in> ?G" for i n
    unfolding views mem_Collect_eq using that groups_ok_unique(2) [OF g that] by blast
  have srch: "i \<in> set (src_hosts db) \<longleftrightarrow> n \<in> v_src_hosts (view db)" if "(i, n) \<in> ?H" for i n
    unfolding views mem_Collect_eq using that hosts_ok_unique(2) [OF h that] by blast
  have C: "(p, c) \<in> (\<Union>r \<in> set ?R. stale_child_links iv r db) \<longleftrightarrow> (a, b) \<in> v_src_groups (view db) \<times> gset iv - child_rel iv"
    if "(p, a) \<in> ?G" "(c, b) \<in> ?G" for p c a b
  proof -
    have "(p, c) \<in> (\<Union>r \<in> set ?R. stale_child_links iv r db) \<longleftrightarrow>
        (\<exists>r \<in> set ?R. ig_id r = p \<and> (\<exists>n \<in> gset iv. (c, n) \<in> ?G \<and> (ig_name r, n) \<notin> child_rel iv))"
      by (auto simp: stale_child_links_def)
    also have "\<dots> \<longleftrightarrow> p \<in> set (src_groups db) \<and> (\<exists>n \<in> gset iv. (c, n) \<in> ?G \<and> (a, n) \<notin> child_rel iv)" by (rule rows [OF that(1)])
    also have "\<dots> \<longleftrightarrow> (a, b) \<in> v_src_groups (view db) \<times> gset iv - child_rel iv"
      unfolding srcg [OF that(1)] using that(2) groups_ok_unique(1) [OF g that(2)] by blast
    finally show ?thesis .
  qed
  have M: "(x, y) \<in> (\<Union>r \<in> set ?R. stale_member_links (src_hosts db) iv r db) \<longleftrightarrow> (a, b) \<in> v_src_groups (view db) \<times> v_src_hosts (view db) - host_rel iv"
    if "(x, a) \<in> ?G" "(y, b) \<in> ?H" for x y a b
  proof -
    have "(x, y) \<in> (\<Union>r \<in> set ?R. stale_member_links (src_hosts db) iv r db) \<longleftrightarrow>
        (\<exists>r \<in> set ?R. ig_id r = x \<and> y \<in> set (src_hosts db) \<and> (\<exists>n. (y, n) \<in> ?H \<and> (ig_name r, n) \<notin> host_rel iv))"
      by (auto simp: stale_member_links_def)
    also have "\<dots> \<longleftrightarrow> x \<in> set (src_groups db) \<and> y \<in> set (src_hosts db) \<and> (\<exists>n. (y, n) \<in> ?H \<and> (a, n) \<notin> host_rel iv)" by (rule rows [OF that(1)])
    also have "\<dots> \<longleftrightarrow> (a, b) \<in> v_src_groups (view db) \<times> v_src_hosts (view db) - host_rel iv"
      unfolding srcg [OF that(1)] srch [OF that(2)] using that(2) hosts_ok_unique(1) [OF h that(2)] by blast
    finally show ?thesis .
  qed
  have "view ?t = view_cleared iv (view db)"
  proof (rule inv_view.equality)
    have "(a, b) \<in> v_children (view ?t) \<longleftrightarrow> (a, b) \<in> v_children (view db) - (v_src_groups (view db) \<times> gset iv - child_rel iv)" for a b
    proof -
      have "(a, b) \<in> v_children (view ?t) \<longleftrightarrow> (\<exists>p c. (p, a) \<in> ?G \<and> (c, b) \<in> ?G \<and> (p, c) \<in> set (i_children db) \<and>
          (p, c) \<notin> (\<Union>r \<in> set ?R. stale_child_links iv r db))" unfolding views(4) same using cs by simp
      also have "\<dots> \<longleftrightarrow> (\<exists>p c. (p, a) \<in> ?G \<and> (c, b) \<in> ?G \<and> (p, c) \<in> set (i_children db)) \<and> (a, b) \<notin> v_src_groups (view db) \<times> gset iv - child_rel iv"
        using C by blast
      finally show ?thesis by simp
    qed
    then show "v_children (view ?t) = v_children (view_cleared iv (view db))" by (auto simp: view_cleared_def simp del: views)
    have "(a, b) \<in> v_members (view ?t) \<longleftrightarrow> (a, b) \<in> v_members (view db) - (v_src_groups (view db) \<times> v_src_hosts (view db) - host_rel iv)" for a b
    proof -
      have "(a, b) \<in> v_members (view ?t) \<longleftrightarrow> (\<exists>x y. (x, a) \<in> ?G \<and> (y, b) \<in> ?H \<and> (x, y) \<in> set (i_members db) \<and>
          (x, y) \<notin> (\<Union>r \<in> set ?R. stale_member_links (src_hosts db) iv r db))" unfolding views(3) same using ms by simp
      also have "\<dots> \<longleftrightarrow> (\<exists>x y. (x, a) \<in> ?G \<and> (y, b) \<in> ?H \<and> (x, y) \<in> set (i_members db)) \<and> (a, b) \<notin> v_src_groups (view db) \<times> v_src_hosts (view db) - host_rel iv"
        using M by blast
      finally show ?thesis by simp
    qed
    then show "v_members (view ?t) = v_members (view_cleared iv (view db))" by (auto simp: view_cleared_def simp del: views)
  qed (simp_all add: view_cleared_def same)
  moreover have "db_ok ?t" using ok cs ms by (auto simp: db_ok_def hosts_ok_def groups_ok_def)
  ultimately show ?thesis using t by (intro exI [of _ ?t]) (simp add: delete_group_children_and_hosts_def)
qed

lemma ext_old_groups:
  assumes "group_rows.ext A s t" "groups_ok s" "i \<in> fst ` groups_rel s"
  shows "(i, n) \<in> groups_rel t \<longleftrightarrow> (i, n) \<in> groups_rel s"
proof -
  have "i < next_group s" using assms(2,3) by (auto simp: groups_ok_def groups_rel_def)
  then show ?thesis using assms(1) by (auto simp: group_rows.ext_def)
qed

lemma ext_old_hosts:
  assumes "host_rows.ext A s t" "hosts_ok s" "i \<in> fst ` hosts_rel s"
  shows "(i, n) \<in> hosts_rel t \<longleftrightarrow> (i, n) \<in> hosts_rel s"
proof -
  have "i < next_host s" using assms(2,3) by (auto simp: hosts_ok_def hosts_rel_def)
  then show ?thesis using assms(1) by (auto simp: host_rows.ext_def)
qed

lemma source_names:
  assumes "S' = S \<union> {i. \<exists>n \<in> A. (i, n) \<in> R'}" "A \<subseteq> snd ` R'" "S \<subseteq> fst ` R" "\<And>i n. i \<in> fst ` R \<Longrightarrow> (i, n) \<in> R' \<longleftrightarrow> (i, n) \<in> R"
    and "\<And>i n m. (i, n) \<in> R' \<Longrightarrow> (i, m) \<in> R' \<Longrightarrow> n = m"
  shows "{n. \<exists>i \<in> S'. (i, n) \<in> R'} = {n. \<exists>i \<in> S. (i, n) \<in> R} \<union> A"
proof (intro subset_antisym subsetI)
  fix n
  assume "n \<in> {n. \<exists>i \<in> S'. (i, n) \<in> R'}"
  then obtain i where i: "i \<in> S'" "(i, n) \<in> R'" by blast
  show "n \<in> {n. \<exists>i \<in> S. (i, n) \<in> R} \<union> A"
  proof (cases "i \<in> S")
    case True
    then show ?thesis using i(2) assms(3,4) by blast
  next
    case False
    then obtain m where "m \<in> A" "(i, m) \<in> R'" using i(1) assms(1) by blast
    with assms(5) [OF i(2)] show ?thesis by blast
  qed
next
  fix n
  assume "n \<in> {n. \<exists>i \<in> S. (i, n) \<in> R} \<union> A"
  then show "n \<in> {n. \<exists>i \<in> S'. (i, n) \<in> R'}"
  proof
    assume "n \<in> {n. \<exists>i \<in> S. (i, n) \<in> R}"
    then show ?thesis using assms(1,3,4) by blast
  next
    assume n: "n \<in> A"
    with assms(2) obtain i where "(i, n) \<in> R'" by auto
    with n assms(1) show ?thesis by blast
  qed
qed

definition importable :: "mem_inventory \<Rightarrow> bool" where
  "importable iv \<longleftrightarrow> (\<forall>n \<in> gset iv. describable (variables (dict_get_default (all_groups iv) n empty_group))) \<and> (\<forall>n \<in> hset iv. creatable iv n)"

text \<open>Groups and hosts are written: the names of the import are added, links are not yet.\<close>

lemma rows_written_view:
  assumes ok: "db_ok db" and plain: "plain_import opts iv" and imp: "importable iv"
    and m: "\<And>i n. dict_get m i = Some n \<longleftrightarrow> (i, n) \<in> hosts_rel db \<and> n \<in> hset iv"
      "set (dict_keys m) = {i. \<exists>n \<in> hset iv. (i, n) \<in> hosts_rel db}" "distinct (dict_keys m)"
  shows "\<exists>t u. create_update_groups opts iv db = Inr t \<and> create_update_hosts opts iv m t = Inr u \<and> db_ok u \<and>
    view u = (view db)\<lparr>v_hosts := v_hosts (view db) \<union> hset iv, v_groups := v_groups (view db) \<union> gset iv,
      v_src_hosts := v_src_hosts (view db) \<union> hset iv, v_src_groups := v_src_groups (view db) \<union> gset iv\<rparr>"
proof -
  have g: "groups_ok db" and h: "hosts_ok db" and b: "batch db = []" and bs: "batch_size opts \<noteq> 0"
    using ok plain by (simp_all add: db_ok_def plain_import_def)
  have "writing_groups db" using g b by (simp add: writing_groups_def groups_ok_def group_eff_def)
  then obtain t where t: "create_update_groups opts iv db = Inr t" "group_rows.ext (gset iv) db t" "batch t = []"
    using create_update_groups_effect [OF _ bs, of db iv] imp unfolding importable_def by blast
  have side: "i_hosts t = i_hosts db" "src_hosts t = src_hosts db" "next_host t = next_host db" "i_members t = i_members db" "i_children t = i_children db"
    using t(2) by (simp_all add: group_rows.ext_def beside_groups_def)
  have Ht: "hosts_rel t = hosts_rel db" by (simp add: hosts_rel_def side)
  have "writing_hosts t" using h t(3) side by (simp add: writing_hosts_def hosts_ok_def host_eff_def)
  then obtain u where u: "create_update_hosts opts iv m t = Inr u" "host_rows.ext (hset iv) t u" "batch u = []"
    using create_update_hosts_effect [OF _ bs, of t iv m] m imp unfolding Ht importable_def by blast
  have side': "i_groups u = i_groups t" "src_groups u = src_groups t" "next_group u = next_group t" "i_members u = i_members db" "i_children u = i_children db"
    using u(2) side by (simp_all add: host_rows.ext_def beside_hosts_def)
  have Gu: "groups_rel u = groups_rel t" by (simp add: groups_rel_def side')
  have ht: "hosts_ok t" using h side by (simp add: hosts_ok_def)
  have wg: "writing_groups t" and wh: "writing_hosts u" using t(2) u(2) by (simp_all add: group_rows.ext_def host_rows.ext_def)
  have oldg: "(i, n) \<in> groups_rel t \<longleftrightarrow> (i, n) \<in> groups_rel db" if "i \<in> fst ` groups_rel db" for i n by (rule ext_old_groups [OF t(2) g that])
  have oldh: "(i, n) \<in> hosts_rel u \<longleftrightarrow> (i, n) \<in> hosts_rel db" if "i \<in> fst ` hosts_rel db" for i n
    using ext_old_hosts [OF u(2) ht] that unfolding Ht by blast
  have subset: "groups_rel db \<subseteq> groups_rel t" "hosts_rel db \<subseteq> hosts_rel u" using t(2) u(2) Ht by (simp_all add: group_rows.ext_def host_rows.ext_def)
  have C: "set (i_children db) \<subseteq> fst ` groups_rel db \<times> fst ` groups_rel db" and M: "set (i_members db) \<subseteq> fst ` groups_rel db \<times> fst ` hosts_rel db"
    using ok by (simp_all add: db_ok_def groups_ok_def rel_domain)
  have ug: "(i, n) \<in> groups_rel t \<Longrightarrow> (i, k) \<in> groups_rel t \<Longrightarrow> n = k" for i n k using grel_unique(1) [of t i n k] wg by (simp add: writing_groups_def)
  have uh: "(i, n) \<in> hosts_rel u \<Longrightarrow> (i, k) \<in> hosts_rel u \<Longrightarrow> n = k" for i n k using rel_unique(1) [of u i n k] wh by (simp add: writing_hosts_def)
  have names: "snd ` groups_rel t = snd ` groups_rel db \<union> gset iv" "snd ` hosts_rel u = snd ` hosts_rel db \<union> hset iv"
    using t(2) u(2) Ht by (simp_all add: group_rows.ext_def host_rows.ext_def)
  have srcg: "set (src_groups t) = set (src_groups db) \<union> {i. \<exists>n \<in> gset iv. (i, n) \<in> groups_rel t}"
    using t(2,3) b by (simp add: group_rows.ext_def group_eff_def)
  have srch: "set (src_hosts u) = set (src_hosts db) \<union> {i. \<exists>n \<in> hset iv. (i, n) \<in> hosts_rel u}"
    using u(2,3) t(3) side by (simp add: host_rows.ext_def host_eff_def)
  have view: "view u = (view db)\<lparr>v_hosts := v_hosts (view db) \<union> hset iv, v_groups := v_groups (view db) \<union> gset iv,
      v_src_hosts := v_src_hosts (view db) \<union> hset iv, v_src_groups := v_src_groups (view db) \<union> gset iv\<rparr>"
  proof (rule inv_view.equality)
    have "{n. \<exists>i \<in> set (src_groups t). (i, n) \<in> groups_rel t} = {n. \<exists>i \<in> set (src_groups db). (i, n) \<in> groups_rel db} \<union> gset iv"
      using names(1) g ug oldg by (intro source_names [OF srcg]) (auto simp: groups_ok_def rel_domain)
    moreover have "{n. \<exists>i \<in> set (src_hosts u). (i, n) \<in> hosts_rel u} = {n. \<exists>i \<in> set (src_hosts db). (i, n) \<in> hosts_rel db} \<union> hset iv"
      using names(2) h uh oldh by (intro source_names [OF srch]) (auto simp: hosts_ok_def rel_domain)
    ultimately show "v_src_groups (view u) = v_src_groups ((view db)\<lparr>v_hosts := v_hosts (view db) \<union> hset iv, v_groups := v_groups (view db) \<union> gset iv,
      v_src_hosts := v_src_hosts (view db) \<union> hset iv, v_src_groups := v_src_groups (view db) \<union> gset iv\<rparr>)"
      "v_src_hosts (view u) = v_src_hosts ((view db)\<lparr>v_hosts := v_hosts (view db) \<union> hset iv, v_groups := v_groups (view db) \<union> gset iv,
      v_src_hosts := v_src_hosts (view db) \<union> hset iv, v_src_groups := v_src_groups (view db) \<union> gset iv\<rparr>)"
      by (simp_all add: Gu side')
    have "(\<exists>p c. (p, a) \<in> groups_rel t \<and> (c, b) \<in> groups_rel t \<and> (p, c) \<in> set (i_children db)) \<longleftrightarrow>
        (\<exists>p c. (p, a) \<in> groups_rel db \<and> (c, b) \<in> groups_rel db \<and> (p, c) \<in> set (i_children db))" for a b
      using C oldg by blast
    moreover have "(\<exists>p c. (p, a) \<in> groups_rel t \<and> (c, b) \<in> hosts_rel u \<and> (p, c) \<in> set (i_members db)) \<longleftrightarrow>
        (\<exists>p c. (p, a) \<in> groups_rel db \<and> (c, b) \<in> hosts_rel db \<and> (p, c) \<in> set (i_members db))" for a b
      using M oldg oldh by blast
    ultimately show "v_children (view u) = v_children ((view db)\<lparr>v_hosts := v_hosts (view db) \<union> hset iv, v_groups := v_groups (view db) \<union> gset iv,
      v_src_hosts := v_src_hosts (view db) \<union> hset iv, v_src_groups := v_src_groups (view db) \<union> gset iv\<rparr>)"
      "v_members (view u) = v_members ((view db)\<lparr>v_hosts := v_hosts (view db) \<union> hset iv, v_groups := v_groups (view db) \<union> gset iv,
      v_src_hosts := v_src_hosts (view db) \<union> hset iv, v_src_groups := v_src_groups (view db) \<union> gset iv\<rparr>)"
      by (simp_all add: Gu side')
  qed (simp_all add: Gu names)
  have "db_ok u"
  proof -
    have "set (i_children u) \<subseteq> ig_id ` set (i_groups u) \<times> ig_id ` set (i_groups u)"
      unfolding side' rel_domain [symmetric] by (rule subset_trans [OF C]) (intro Sigma_mono image_mono subset)
    then have "groups_ok u" using wg t(3) by (simp add: groups_ok_def writing_groups_def group_eff_def side')
    moreover have "hosts_ok u" using wh u(3) by (simp add: hosts_ok_def writing_hosts_def host_eff_def)
    moreover have "set (i_members u) \<subseteq> fst ` groups_rel u \<times> fst ` hosts_rel u" unfolding side' Gu by (rule subset_trans [OF M]) (intro Sigma_mono image_mono subset)
    ultimately show ?thesis using u(3) by (simp add: db_ok_def rel_domain)
  qed
  with t(1) u(1) view show ?thesis by blast
qed

lemma written_view:
  assumes ok: "db_ok db" and plain: "plain_import opts iv" and imp: "importable iv" and acyclic: "acyclic (v_children (view_merged iv (view db)))"
    and m: "\<And>i n. dict_get m i = Some n \<longleftrightarrow> (i, n) \<in> hosts_rel db \<and> n \<in> hset iv"
      "set (dict_keys m) = {i. \<exists>n \<in> hset iv. (i, n) \<in> hosts_rel db}" "distinct (dict_keys m)"
  shows "\<exists>t u. create_update_groups opts iv db = Inr t \<and> create_update_hosts opts iv m t = Inr u \<and>
    view (create_update_group_hosts opts iv (create_update_group_children opts iv u)) = view_merged iv (view db) \<and>
    db_ok (create_update_group_hosts opts iv (create_update_group_children opts iv u))"
proof -
  obtain t u where tu: "create_update_groups opts iv db = Inr t" "create_update_hosts opts iv m t = Inr u" and u: "db_ok u"
    and v: "view u = (view db)\<lparr>v_hosts := v_hosts (view db) \<union> hset iv, v_groups := v_groups (view db) \<union> gset iv,
      v_src_hosts := v_src_hosts (view db) \<union> hset iv, v_src_groups := v_src_groups (view db) \<union> gset iv\<rparr>"
    using rows_written_view [OF ok plain imp m] by blast
  have bs: "batch_size opts \<noteq> 0" and mem: "mem_ok iv" using plain by (simp_all add: plain_import_def)
  let ?w = "create_update_group_children opts iv u" and ?x = "create_update_group_hosts opts iv (create_update_group_children opts iv u)"
  have names: "gset iv \<subseteq> snd ` groups_rel u" "hset iv \<subseteq> snd ` hosts_rel u"
    using arg_cong [OF v, of v_groups] arg_cong [OF v, of v_hosts] by auto
  have N: "named_children iv \<subseteq> gset iv \<times> gset iv" "named_members iv \<subseteq> gset iv \<times> hset iv"
    using mem by (auto simp: mem_ok_def named_children_def named_members_def)
  have unique: "(i, n) \<in> groups_rel u \<Longrightarrow> (i, k) \<in> groups_rel u \<Longrightarrow> n = k" "(j, n) \<in> hosts_rel u \<Longrightarrow> (j, k) \<in> hosts_rel u \<Longrightarrow> n = k" for i j n k
    using u groups_ok_unique(1) hosts_ok_unique(1) by (auto simp: db_ok_def)
  have C: "{(a, b). \<exists>p c. (p, a) \<in> groups_rel u \<and> (c, b) \<in> groups_rel u \<and> (p, c) \<in> set (i_children u) \<union> child_pairs iv u} = v_children (view u) \<union> named_children iv"
  proof -
    have "(\<exists>p c. (p, a) \<in> groups_rel u \<and> (c, b) \<in> groups_rel u \<and> (p, c) \<in> child_pairs iv u) \<longleftrightarrow> (a, b) \<in> named_children iv" for a b
    proof
      assume "\<exists>p c. (p, a) \<in> groups_rel u \<and> (c, b) \<in> groups_rel u \<and> (p, c) \<in> child_pairs iv u"
      then show "(a, b) \<in> named_children iv" unfolding child_pairs_def using unique(1) by blast
    next
      assume ab: "(a, b) \<in> named_children iv"
      then have "a \<in> snd ` groups_rel u" "b \<in> snd ` groups_rel u" using N(1) names(1) by blast+
      with ab show "\<exists>p c. (p, a) \<in> groups_rel u \<and> (c, b) \<in> groups_rel u \<and> (p, c) \<in> child_pairs iv u" unfolding child_pairs_def by fastforce
    qed
    then show ?thesis unfolding views(4) by blast
  qed
  have M: "{(a, b). \<exists>g h. (g, a) \<in> groups_rel u \<and> (h, b) \<in> hosts_rel u \<and> (g, h) \<in> set (i_members u) \<union> member_pairs iv u} = v_members (view u) \<union> named_members iv"
  proof -
    have "(\<exists>g h. (g, a) \<in> groups_rel u \<and> (h, b) \<in> hosts_rel u \<and> (g, h) \<in> member_pairs iv u) \<longleftrightarrow> (a, b) \<in> named_members iv" for a b
    proof
      assume "\<exists>g h. (g, a) \<in> groups_rel u \<and> (h, b) \<in> hosts_rel u \<and> (g, h) \<in> member_pairs iv u"
      then show "(a, b) \<in> named_members iv" unfolding member_pairs_def using unique by blast
    next
      assume ab: "(a, b) \<in> named_members iv"
      then have "a \<in> snd ` groups_rel u" "b \<in> snd ` hosts_rel u" using N(2) names by blast+
      with ab show "\<exists>g h. (g, a) \<in> groups_rel u \<and> (h, b) \<in> hosts_rel u \<and> (g, h) \<in> member_pairs iv u" unfolding member_pairs_def by fastforce
    qed
    then show ?thesis unfolding views(3) by blast
  qed
  have ids: "set (i_children u) \<union> child_pairs iv u \<subseteq> fst ` groups_rel u \<times> fst ` groups_rel u"
    "set (i_members u) \<union> member_pairs iv u \<subseteq> fst ` groups_rel u \<times> fst ` hosts_rel u"
  proof -
    have "set (i_children u) \<subseteq> fst ` groups_rel u \<times> fst ` groups_rel u" "set (i_members u) \<subseteq> fst ` groups_rel u \<times> fst ` hosts_rel u"
      using u by (simp_all add: db_ok_def groups_ok_def rel_domain)
    moreover have "child_pairs iv u \<subseteq> fst ` groups_rel u \<times> fst ` groups_rel u" "member_pairs iv u \<subseteq> fst ` groups_rel u \<times> fst ` hosts_rel u"
      by (force simp: child_pairs_def) (force simp: member_pairs_def)
    ultimately show "set (i_children u) \<union> child_pairs iv u \<subseteq> fst ` groups_rel u \<times> fst ` groups_rel u"
      "set (i_members u) \<union> member_pairs iv u \<subseteq> fst ` groups_rel u \<times> fst ` hosts_rel u" by blast+
  qed
  have "v_children (view u) \<union> named_children iv = v_children (view_merged iv (view db))" unfolding v by (simp add: view_merged_def del: views)
  then have "acyclic (set (i_children u) \<union> child_pairs iv u)" using acyclic_named [OF ids(1)] acyclic unfolding C by simp
  then have w: "set (i_children ?w) = set (i_children u) \<union> child_pairs iv u" "beside_children ?w = beside_children u" "batch ?w = []"
    using create_children_effect [OF bs _ mem] u by (simp_all add: db_ok_def)
  have wu: "member_pairs iv ?w = member_pairs iv u" "i_members ?w = i_members u"
    using w(2) by (simp_all add: member_pairs_def groups_rel_def hosts_rel_def beside_children_def)
  have x: "set (i_members ?x) = set (i_members u) \<union> member_pairs iv u" "beside_members ?x = beside_members ?w" "batch ?x = []"
    using create_members_effect [OF w(3) plain] unfolding wu by simp_all
  have same: "i_hosts ?x = i_hosts u" "i_groups ?x = i_groups u" "src_hosts ?x = src_hosts u" "src_groups ?x = src_groups u"
    "next_host ?x = next_host u" "next_group ?x = next_group u" "set (i_children ?x) = set (i_children u) \<union> child_pairs iv u"
    using x(2) w(1,2) by (simp_all add: beside_members_def beside_children_def)
  have rels: "groups_rel ?x = groups_rel u" "hosts_rel ?x = hosts_rel u" by (simp_all add: groups_rel_def hosts_rel_def same)
  have "view ?x = (view u)\<lparr>v_members := v_members (view u) \<union> named_members iv, v_children := v_children (view u) \<union> named_children iv\<rparr>"
    unfolding view_def [of ?x] rels same x(1) C M by (simp add: view_def [of u])
  also have "\<dots> = view_merged iv (view db)" unfolding v by (simp add: view_merged_def del: views)
  finally have "view ?x = view_merged iv (view db)" .
  moreover have "db_ok ?x"
    using u ids x(3) same x(1) by (simp add: db_ok_def hosts_ok_def groups_ok_def rel_domain)
  ultimately show ?thesis using tu by blast
qed

lemma load_view:
  assumes ok: "db_ok db" and plain: "plain_import opts iv" and imp: "importable iv"
    and before: "acyclic (v_children (view db))" and after: "acyclic (v_children (import_view (overwrite opts) iv (view db)))"
  shows "\<exists>t. load_into_database opts iv db = Inr t \<and> view t = import_view (overwrite opts) iv (view db) \<and> db_ok t"
proof -
  let ?m = "build_pk_mem_host_map opts [] iv db"
  have h: "hosts_ok db" and bs: "batch_size opts \<noteq> 0" using ok plain by (simp_all add: db_ok_def plain_import_def)
  note m = pk_map_by_name [OF h plain]
  let ?first = "if overwrite opts then delete_group_children_and_hosts [] iv (delete_groups opts iv (delete_hosts opts ?m db)) else Inr db"
  let ?v = "if overwrite opts then view_cleared iv (view_without_groups iv (view_without_hosts iv (view db))) else view db"
  have "\<exists>d. ?first = Inr d \<and> view d = ?v \<and> db_ok d \<and> (\<forall>n \<in> hset iv. \<forall>i. (i, n) \<in> hosts_rel d \<longleftrightarrow> (i, n) \<in> hosts_rel db)"
  proof (cases "overwrite opts")
    case True
    let ?a = "delete_hosts opts ?m db"
    note a = without_hosts_view [OF ok plain m(2)]
    have "set (i_children db) \<subseteq> fst ` groups_rel db \<times> fst ` groups_rel db" using ok by (simp add: db_ok_def groups_ok_def rel_domain)
    then have "acyclic (set (i_children ?a))" using acyclic_named [of "set (i_children db)" "groups_rel db"] before a by simp
    note b = without_groups_view [OF conjunct1 [OF conjunct2 [OF a]] bs this, of iv]
    let ?b = "delete_groups opts iv ?a"
    obtain d where d: "delete_group_children_and_hosts [] iv ?b = Inr d" "view d = view_cleared iv (view ?b)" "db_ok d" "i_hosts d = i_hosts ?b"
      using cleared_view [of ?b opts iv] b plain by blast
    have "hosts_rel d = hosts_rel ?a" using d(4) b by (simp add: hosts_rel_def)
    then show ?thesis using True a b d by (intro exI [of _ d]) simp
  qed (use ok in auto)
  then obtain d where d: "?first = Inr d" "view d = ?v" "db_ok d" and H: "\<And>n i. n \<in> hset iv \<Longrightarrow> (i, n) \<in> hosts_rel d \<longleftrightarrow> (i, n) \<in> hosts_rel db" by blast
  let ?e = "update_inventory opts iv d"
  have e: "view ?e = view d" "db_ok ?e" "hosts_rel ?e = hosts_rel d"
    using d(3) by (simp_all add: update_inventory_def Let_def view_def hosts_rel_def groups_rel_def db_ok_def hosts_ok_def groups_ok_def)
  have acy: "acyclic (v_children (view_merged iv (view ?e)))" using after unfolding e(1) d(2) import_view_def .
  have me: "dict_get ?m i = Some n \<longleftrightarrow> (i, n) \<in> hosts_rel ?e \<and> n \<in> hset iv" for i n unfolding m(1) e(3) using H by blast
  have ke: "set (dict_keys ?m) = {i. \<exists>n \<in> hset iv. (i, n) \<in> hosts_rel ?e}" unfolding m(2) e(3) using H by blast
  from written_view [OF e(2) plain imp acy me ke m(3)] obtain t u where
    "create_update_groups opts iv ?e = Inr t" "create_update_hosts opts iv ?m t = Inr u"
    "view (create_update_group_hosts opts iv (create_update_group_children opts iv u)) = view_merged iv (view ?e)"
    "db_ok (create_update_group_hosts opts iv (create_update_group_children opts iv u))" by blast
  moreover from this have "load_into_database opts iv db = Inr (create_update_group_hosts opts iv (create_update_group_children opts iv u))"
    unfolding load_into_database_def Let_def plain_ids(1,2) [OF plain] d(1) by simp
  ultimately show ?thesis unfolding e(1) d(2) import_view_def by blast
qed

end
