(* ===== verification/ImportRun.thy ===== *)
theory ImportRun
  imports ImportRefinement
begin

section \<open>A run of the import\<close>

text \<open>
  From the output of \<open>ansible-inventory\<close> to the tables: \<open>perform_update\<close> of \<^verbatim>\<open>inventory_import.py\<close> reads the
  output, stores the inventory in a transaction, and checks the license and the limit of the
  organization before and after. Samples show the behaviours that the description by names
  leaves out: instance ids, loops and descriptions.
\<close>

subsection \<open>Storing what was read\<close>

text \<open>
  C7: Without instance ids, storing an imported inventory implements its description by sets of
  names, when every host and group of it can be created (no host name is a Jinja expression, no
  description is null) and the groups form no loop, before or after. It does not fail then:
  everything that was imported is there and belongs to the source; what the source had stored
  before and was not imported is gone when it overwrites, relations between what it stores included;
  everything else is as it was, groups that went having passed on their hosts and children.
  (In a loop a link can be lost: see \<open>reverse_link_dropped\<close>.)
\<close>

theorem import_implements_view:
  assumes ok: "db_ok db" and plain: "plain_import opts iv" and imp: "importable iv"
    and before: "acyclic (v_children (view db))" and after: "acyclic (v_children (import_view (overwrite opts) iv (view db)))"
  shows "\<exists>t. load_into_database opts iv db = Inr t \<and> view t = import_view (overwrite opts) iv (view db) \<and> db_ok t"
  by (rule load_view [OF assms])

subsection \<open>What was read has no instance ids\<close>

definition no_ids :: "mem_inventory \<Rightarrow> bool" where
  "no_ids iv \<longleftrightarrow> (\<forall>(h, m) \<in> set (all_hosts iv). instance_id m = None)"

lemma set_dict_set: "set (dict_set k v d) \<subseteq> insert (k, v) (set d)"
  by (induction d) auto

lemma no_ids_groups: "no_ids s \<Longrightarrow> all_hosts t = all_hosts s \<Longrightarrow> no_ids t"
  by (simp add: no_ids_def)

lemma no_ids_update_host:
  assumes "no_ids s" "\<And>m. instance_id (f m) = instance_id m"
  shows "no_ids (update_host h f s)"
proof (cases "dict_get (all_hosts s) h")
  case (Some m)
  then have "instance_id m = None" using assms(1) by (auto simp: no_ids_def dest: map_of_SomeD)
  then show ?thesis using assms Some set_dict_set [of h "f m" "all_hosts s"] by (fastforce simp: no_ids_def update_host_def)
qed (use assms in \<open>simp add: update_host_def\<close>)

lemma no_ids_get_host: "get_host fl v s = Inr (h, t) \<Longrightarrow> no_ids s \<Longrightarrow> no_ids t"
  using set_dict_set
  by (fastforce simp: get_host_def create_host_def no_ids_def Let_def then_ok_def split: json.splits prod.splits if_splits sum.splits)

lemma no_ids_add_child: "add_child_group p c s = Inr t \<Longrightarrow> no_ids s \<Longrightarrow> no_ids t"
  by (auto simp: add_child_group_def no_ids_def split: if_splits)

lemma no_ids_get_group: "get_group fl child v s = Inr (g, t) \<Longrightarrow> no_ids s \<Longrightarrow> no_ids t"
  by (auto simp: get_group_def create_group_def then_ok_Inr no_ids_def dest!: no_ids_add_child [unfolded no_ids_def] split: json.splits if_splits)

lemma no_ids_add_host [simp]: "no_ids (add_host g h s) = no_ids s"
  by (simp add: add_host_def no_ids_def)

lemma no_ids_load_host: "load_host_of fl g v s = Inr t \<Longrightarrow> no_ids s \<Longrightarrow> no_ids t"
  by (auto simp: load_host_of_def then_ok_Inr dest!: no_ids_get_host split: option.splits)

lemma no_ids_load_vars: "load_host_vars fl g kv s = Inr t \<Longrightarrow> no_ids s \<Longrightarrow> no_ids t"
proof -
  assume run: "load_host_vars fl g kv s = Inr t" and s: "no_ids s"
  obtain h u where u: "get_host fl (JStr (fst kv)) s = Inr (h, u)" using run by (auto simp: load_host_vars_def then_ok_Inr)
  have "no_ids u" by (rule no_ids_get_host [OF u s])
  moreover have "no_ids (update_host n (\<lambda>m. m\<lparr>host_vars := dict_merge (host_vars m) d\<rparr>) u)" for n d
    by (rule no_ids_update_host [OF \<open>no_ids u\<close>]) simp
  ultimately show "no_ids t" using run u by (cases h) (auto simp: load_host_vars_def)
qed

lemma no_ids_load_hosts: "load_hosts fl g v s = Inr t \<Longrightarrow> no_ids s \<Longrightarrow> no_ids t"
  by (auto simp: load_hosts_def intro: fold_ok_invariant [where I = no_ids] no_ids_load_host no_ids_load_vars split: json.splits)

lemma no_ids_load_children: "load_children fl g v s = Inr t \<Longrightarrow> no_ids s \<Longrightarrow> no_ids t"
proof -
  have "load_child fl g v s = Inr t \<Longrightarrow> no_ids s \<Longrightarrow> no_ids t" for v s t
    by (auto simp: load_child_def then_ok_Inr dest!: no_ids_get_group dest: no_ids_add_child split: option.splits if_splits)
  then show "load_children fl g v s = Inr t \<Longrightarrow> no_ids s \<Longrightarrow> no_ids t"
    by (auto simp: load_children_def intro: fold_ok_invariant [where I = no_ids] split: json.splits)
qed

lemma no_ids_load_group: "load_group fl kv s = Inr t \<Longrightarrow> no_ids s \<Longrightarrow> no_ids t"
proof -
  assume run: "load_group fl kv s = Inr t" and s: "no_ids s"
  obtain g u where u: "get_group fl False (JStr (fst kv)) s = Inr (g, u)" using run by (auto simp: load_group_def then_ok_Inr)
  have nu: "no_ids u" by (rule no_ids_get_group [OF u s])
  show "no_ids t"
  proof (cases g)
    case None
    then show ?thesis using run u nu by (simp add: load_group_def)
  next
    case (Some n)
    have vars: "no_ids w \<Longrightarrow> no_ids (load_vars n x w)" for x w by (auto simp: load_vars_def intro: no_ids_groups split: json.splits)
    obtain w where w: "(case snd kv of
        JDict d \<Rightarrow> then_ok (load_hosts fl n (dict_get_default d ''hosts'' (JDict [])) u) (\<lambda>iv2.
          load_children fl n (dict_get_default d ''children'' (JList [])) (load_vars n (dict_get_default d ''vars'' (JDict [])) iv2))
      | JList hs \<Rightarrow> fold_ok (load_host_of fl n) hs u
      | _ \<Rightarrow> Inr u) = Inr w" and t: "t = w \<or> add_child_group ''all'' n w = Inr t"
      using run u Some by (fastforce simp: load_group_def then_ok_Inr split: if_splits)
    have "no_ids w" using w nu
      by (auto simp: then_ok_Inr intro: fold_ok_invariant [where I = no_ids] no_ids_load_host dest!: no_ids_load_hosts no_ids_load_children intro: vars split: json.splits)
    with t show ?thesis using no_ids_add_child by blast
  qed
qed

lemma no_ids_read:
  assumes "dict_to_mem_data fl data empty_inventory = Inr iv"
  shows "no_ids iv"
proof -
  obtain s where s: "fold_ok (load_group fl) (filter (\<lambda>kv. fst kv \<noteq> ''_meta'') data) empty_inventory = Inr s"
    "load_meta (dict_get_default data ''_meta'' (JDict [])) s = Inr iv" using assms by (auto simp: dict_to_mem_data_def then_ok_Inr)
  have "no_ids empty_inventory" by (simp add: no_ids_def empty_inventory_def)
  from fold_ok_invariant [where I = no_ids, OF s(1) this] no_ids_load_group have "no_ids s" by blast
  moreover have "instance_id (merge_meta hv h m) = instance_id m" for hv h m by (simp add: merge_meta_def split: json.splits)
  ultimately have "no_ids (s\<lparr>all_hosts := map (\<lambda>(h, m). (h, merge_meta hv h m)) (all_hosts s)\<rparr>)" for hv by (fastforce simp: no_ids_def)
  with \<open>no_ids s\<close> show ?thesis using s(2)
    by (auto simp: load_meta_def split: if_splits json.splits option.splits)
qed

subsection \<open>From the output to the tables\<close>

definition import_allowed :: "import_env \<Rightarrow> import_db \<Rightarrow> bool" where
  "import_allowed env db \<longleftrightarrow> check_license (license_of env db) \<and> check_org_host_limit (license_of env db) (max_hosts env) (active_count env db)"

text \<open>
  The imports that the description covers: output of the right shape, no instance ids, no option
  that drops groups, rows that can be created, and groups without loops before and after.
\<close>

definition regular_import :: "import_env \<Rightarrow> import_options \<Rightarrow> py_dict \<Rightarrow> import_db \<Rightarrow> mem_inventory \<Rightarrow> bool" where
  "regular_import env opts data db iv \<longleftrightarrow>
     data_ok (filters env) data \<and> dict_to_mem_data (filters env) data empty_inventory = Inr iv \<and>
     \<not> exclude_empty_groups env \<and> instance_id_parts opts = [] \<and> batch_size opts \<noteq> 0 \<and> importable iv \<and>
     db_ok db \<and> acyclic (v_children (view db)) \<and> acyclic (v_children (import_view (overwrite opts) iv (view db)))"

lemma regular_loads:
  assumes "regular_import env opts data db iv"
  shows "\<exists>t. load_into_database opts iv db = Inr t \<and> view t = import_view (overwrite opts) iv (view db) \<and> db_ok t"
proof -
  have reg: "data_ok (filters env) data" "dict_to_mem_data (filters env) data empty_inventory = Inr iv" "importable iv"
    "instance_id_parts opts = []" "batch_size opts \<noteq> 0" "db_ok db" "acyclic (v_children (view db))"
    "acyclic (v_children (import_view (overwrite opts) iv (view db)))"
    using assms by (simp_all add: regular_import_def)
  obtain jv where "dict_to_mem_data (filters env) data empty_inventory = Inr jv" "mem_ok jv"
    using read_sets [OF reg(1)] by (elim exE conjE)
  then have "plain_import opts iv" using reg(2,4,5) no_ids_read [OF reg(2)] by (simp add: plain_import_def no_ids_def)
  from load_view [OF reg(6) this reg(3,7,8)] show ?thesis .
qed

text \<open>
  C17: Whatever the output and the options: an import that raises changes no row, and one that ends
  respects the license and the limit of the organization before and after. If the import is
  regular (see \<open>regular_import\<close>), it raises only when the license or the limit refuse it, which
  sets a flag, and it ends with exactly the tables of the description by names.
\<close>

theorem import_all_or_nothing:
  "case perform_update env opts data s of
     (None, t) \<Rightarrow> import_allowed env (tables s) \<and> import_allowed env (tables t) \<and>
       (\<forall>iv. regular_import env opts data (tables s) iv \<longrightarrow>
          view (tables t) = import_view (overwrite opts) iv (view (tables s)) \<and> db_ok (tables t))
   | (Some e, t) \<Rightarrow> tables t = tables s \<and>
       (\<forall>iv. regular_import env opts data (tables s) iv \<longrightarrow> e = Permission_Denied \<and> (license_error t \<or> org_host_limit_error t))"
proof -
  have "case perform_update env opts data s of
      (None, t) \<Rightarrow> import_allowed env (tables s) \<and> import_allowed env (tables t) | (Some e, t) \<Rightarrow> tables t = tables s"
    by (simp add: perform_update_def Let_def import_allowed_def split: sum.split)
  moreover have "case perform_update env opts data s of
      (None, t) \<Rightarrow> view (tables t) = import_view (overwrite opts) iv (view (tables s)) \<and> db_ok (tables t)
    | (Some e, t) \<Rightarrow> e = Permission_Denied \<and> (license_error t \<or> org_host_limit_error t)"
    if reg: "regular_import env opts data (tables s) iv" for iv
  proof -
    from regular_loads [OF reg] obtain t where "load_into_database opts iv (tables s) = Inr t"
      "view t = import_view (overwrite opts) iv (view (tables s))" "db_ok t" by blast
    moreover have "\<not> exclude_empty_groups env" "dict_to_mem_data (filters env) data empty_inventory = Inr iv"
      using reg by (simp_all add: regular_import_def)
    ultimately show ?thesis by (simp add: perform_update_def Let_def del: views)
  qed
  ultimately show ?thesis by (fastforce split: prod.split option.split)
qed

subsection \<open>Samples\<close>

definition sample_options :: import_options where
  "sample_options = \<lparr>overwrite = True, overwrite_vars = False, enabled_var = None, enabled_value = None, instance_id_var = None,
     is_constructed = False, source_overwrite_vars = False, batch_size = 2, yaml_load = (\<lambda>_. None)\<rparr>"

definition host_of :: "int \<Rightarrow> string \<Rightarrow> string \<Rightarrow> import_host" where
  "host_of i n v = \<lparr>ih_id = i, ih_name = n, ih_vars = v, ih_enabled = True, ih_instance_id = [], ih_description = []\<rparr>"

definition group_of :: "int \<Rightarrow> string \<Rightarrow> import_group" where
  "group_of i n = \<lparr>ig_id = i, ig_name = n, ig_vars = ''{}'', ig_description = []\<rparr>"

text \<open>A source has stored a host and a group; the group has a parent and a host that users made.\<close>

definition sample_tables :: import_db where
  "sample_tables = \<lparr>inv_vars = [], i_hosts = [host_of 1 ''old'' ''{}'', host_of 2 ''own'' ''{}''], i_groups = [group_of 1 ''gone'', group_of 2 ''top''],
     i_members = [(1, 2)], i_children = [(2, 1)], src_hosts = [1], src_groups = [1], batch = [], next_host = 3, next_group = 3\<rparr>"

definition empty_tables :: import_db where
  "empty_tables = \<lparr>inv_vars = [], i_hosts = [], i_groups = [], i_members = [], i_children = [], src_hosts = [], src_groups = [], batch = [],
     next_host = 1, next_group = 1\<rparr>"

definition load_sample :: "import_options \<Rightarrow> py_dict \<Rightarrow> import_db \<Rightarrow> import_error + import_db" where
  "load_sample opts data db =
     (case dict_to_mem_data accept_all data empty_inventory of Inl e \<Rightarrow> Inl (Reading e) | Inr iv \<Rightarrow> load_into_database opts iv db)"

text \<open>The host of the group that went is now in its parent.\<close>

lemma sample_loaded:
  "case load_sample sample_options sample_output sample_tables of Inl _ \<Rightarrow> False
   | Inr t \<Rightarrow> map ih_name (i_hosts t) = [''own'', ''group_host'', ''my_host''] \<and> map ig_name (i_groups t) = [''top'', ''my_group''] \<and>
       i_members t = [(2, 2), (3, 3)] \<and> i_children t = [] \<and> src_hosts t = [3, 4] \<and> src_groups t = [3]"
  by code_simp

lemma acyclic_none [simp]: "acyclic {}"
  by (simp add: acyclic_def)

lemma sample_tables_ok: "db_ok sample_tables" "acyclic (v_children (view sample_tables))"
proof -
  have g: "groups_rel sample_tables = {(1, ''gone''), (2, ''top'')}" by (auto simp: groups_rel_def sample_tables_def group_of_def)
  have "v_children (view sample_tables) = {(''top'', ''gone'')}" unfolding views(4) g by (auto simp: sample_tables_def)
  moreover have "acyclic {(''top'', ''gone'')}" by (simp add: acyclic_insert)
  ultimately show "acyclic (v_children (view sample_tables))" by simp
  show "db_ok sample_tables" by (simp add: db_ok_def hosts_ok_def groups_ok_def sample_tables_def host_of_def group_of_def)
qed

lemma sample_plain: "plain_import sample_options sample_inv" "importable sample_inv"
proof -
  show "plain_import sample_options sample_inv"
    using sample_inv_ok(5) by (simp add: plain_import_def instance_id_parts_def sample_options_def) (simp add: sample_inv_def)
  have "\<not> has_jinja ''a''" "\<not> has_jinja ''b''" by code_simp+
  then show "importable sample_inv"
    unfolding importable_def sample_inv_ok(1,2) by (simp add: creatable_def describable_def sample_inv_def dict_get_default_def)
qed

lemma import_implements_view_witness:
  "\<exists>t. load_into_database sample_options sample_inv sample_tables = Inr t \<and> v_hosts (view t) = {''own'', ''a'', ''b''} \<and>
     v_groups (view t) = {''top'', ''web''} \<and> v_src_hosts (view t) = {''a'', ''b''}"
proof -
  let ?v = "import_view (overwrite sample_options) sample_inv (view sample_tables)"
  have g: "groups_rel sample_tables = {(1, ''gone''), (2, ''top'')}" and h: "hosts_rel sample_tables = {(1, ''old''), (2, ''own'')}"
    by (auto simp: groups_rel_def hosts_rel_def sample_tables_def group_of_def host_of_def)
  have src: "src_hosts sample_tables = [1]" "src_groups sample_tables = [1]" by (simp_all add: sample_tables_def)
  have own: "named_children sample_inv = {}" by (auto simp: named_children_def sample_inv_ok)
  have ov: "overwrite sample_options" by (simp add: sample_options_def)
  have old: "v_children (view sample_tables) = {(''top'', ''gone'')}" unfolding views(4) g by (auto simp: sample_tables_def)
  have gone: "v_src_groups (view sample_tables) - gset sample_inv = {''gone''}" unfolding views(6) g src sample_inv_ok by auto
  have "v_children ?v \<subseteq> {(p, c). c \<noteq> ''gone'' \<and> through {''gone''} {(''top'', ''gone'')} {(''top'', ''gone'')} p c}"
    using own ov gone old by (auto simp: import_view_def view_merged_def view_cleared_def view_without_groups_def view_without_hosts_def Let_def simp del: views)
  also have "\<dots> = {}"
    using through_ends [of "{''gone''}" "{(''top'', ''gone'')}" "{(''top'', ''gone'')}" _ _ UNIV UNIV "{''gone''}"] by auto
  finally have "acyclic (v_children ?v)" by simp
  from import_implements_view [OF sample_tables_ok(1) sample_plain sample_tables_ok(2) this] obtain t where
    t: "load_into_database sample_options sample_inv sample_tables = Inr t" "view t = ?v" by blast
  have "v_hosts ?v = {''own'', ''a'', ''b''}" "v_groups ?v = {''top'', ''web''}" "v_src_hosts ?v = {''a'', ''b''}"
    using ov gone sample_inv_ok(1,2) g h src
    by (auto simp: import_view_def view_merged_def view_cleared_def view_without_groups_def view_without_hosts_def Let_def)
  then show ?thesis using t by metis
qed

definition sample_env :: import_env where
  "sample_env = \<lparr>license_of = \<lambda>_. \<lparr>license_type = ''open'', instance_count = 0, free_instances = 0, time_remaining = 0, trial = False\<rparr>,
     max_hosts = Some 1, active_count = \<lambda>db. int (length (i_hosts db)), filters = accept_all, exclude_empty_groups = False\<rparr>"

definition sample_state :: import_state where
  "sample_state = \<lparr>tables = empty_tables, update_status = ''pending'', license_error = False, org_host_limit_error = False\<rparr>"

lemma sample_regular: "\<exists>iv. regular_import sample_env sample_options sample_output empty_tables iv"
proof -
  have data: "data_ok (filters sample_env) sample_output" by code_simp
  have env: "\<not> exclude_empty_groups sample_env" "instance_id_parts sample_options = []" "batch_size sample_options \<noteq> 0"
    by (simp_all add: sample_env_def sample_options_def instance_id_parts_def)
  have db: "db_ok empty_tables" "view empty_tables = \<lparr>v_hosts = {}, v_groups = {}, v_members = {}, v_children = {}, v_src_hosts = {}, v_src_groups = {}\<rparr>"
    by (simp_all add: empty_tables_def db_ok_def hosts_ok_def groups_ok_def view_def hosts_rel_def groups_rel_def)
  then have start: "v_children (view empty_tables) = {}" "acyclic (v_children (view empty_tables))" by (simp_all del: views)
  obtain iv where iv: "dict_to_mem_data (filters sample_env) sample_output empty_inventory = Inr iv"
    using read_sets [OF data] by (elim exE conjE)
  have "case dict_to_mem_data (filters sample_env) sample_output empty_inventory of Inl _ \<Rightarrow> False
    | Inr iv \<Rightarrow> importable iv \<and> map fst (all_groups iv) = [''my_group''] \<and> list_all (\<lambda>(n, g). children g = []) (all_groups iv)" by code_simp
  then have i: "importable iv" "list_all (\<lambda>(n, g). children g = []) (all_groups iv)" unfolding iv by simp_all
  have "children (group_named iv p) = []" if "p \<noteq> ''all''" for p
    using i(2) that by (cases "dict_get (all_groups iv) p") (auto simp: group_named_def dict_get_default_def list_all_iff dest!: map_of_SomeD)
  then have "(p, c) \<notin> named_children iv" for p c by (cases "p = ''all''") (simp_all add: named_children_def child_rel_def)
  then have "named_children iv = {}" by auto
  moreover have "\<not> through D {} {} p c" for D :: "string set" and p c :: string by (auto elim: through.cases)
  ultimately have "v_children (import_view (overwrite sample_options) iv (view empty_tables)) = {}"
    by (auto simp: import_view_def view_merged_def view_cleared_def view_without_groups_def view_without_hosts_def Let_def start simp del: views)
  then show ?thesis using data iv env i(1) db(1) start(2) by (intro exI [of _ iv]) (simp add: regular_import_def)
qed

lemma import_all_or_nothing_witness:
  "\<exists>t iv. perform_update sample_env sample_options sample_output sample_state = (None, t) \<and> db_ok (tables t) \<and>
     view (tables t) = import_view True iv (view empty_tables)"
proof -
  obtain iv where iv: "regular_import sample_env sample_options sample_output empty_tables iv" using sample_regular ..
  have s: "tables sample_state = empty_tables" "overwrite sample_options" by (simp_all add: sample_state_def sample_options_def)
  have "fst (perform_update sample_env sample_options sample_output sample_state) = None" by code_simp
  then show ?thesis
    using import_all_or_nothing [where env = sample_env and opts = sample_options and data = sample_output and s = sample_state] iv
    by (cases "perform_update sample_env sample_options sample_output sample_state") (auto simp: s simp del: views)
qed

subsection \<open>Where the code and its intention part\<close>

text \<open>
  Two groups that are children of each other: the second link is left out, as the query takes the
  group for a parent of its new child.
\<close>

lemma reverse_link_dropped:
  "case load_sample sample_options [(''a'', JDict [(''children'', strings [''b''])]), (''b'', JDict [(''children'', strings [''a''])])] empty_tables of
     Inl _ \<Rightarrow> False
   | Inr t \<Rightarrow> map ig_name (i_groups t) = [''a'', ''b''] \<and> i_children t = [(1, 2)]"
  by code_simp

text \<open>A variable that is null is an instance id: the text of \<open>None\<close>, the same for every such host.\<close>

definition id_options :: import_options where
  "id_options = sample_options\<lparr>instance_id_var := Some ''id''\<rparr>"

lemma null_instance_id: "get_instance_id id_options [(''id'', JNull)] = ''None''" "get_instance_id id_options [] = []"
  by code_simp+

text \<open>Two hosts that are matched by their ids and have swapped their names cannot be stored.\<close>

definition with_id :: "string \<Rightarrow> import_host \<Rightarrow> import_host" where
  "with_id i r = r\<lparr>ih_instance_id := i\<rparr>"

definition hosts_data_of :: "(string \<times> py_dict) list \<Rightarrow> py_dict" where
  "hosts_data_of hs = [(''_meta'', JDict [(''hostvars'', JDict (map (\<lambda>(h, d). (h, JDict d)) hs))]), (''ungrouped'', JDict [(''hosts'', strings (map fst hs))])]"

lemma swapped_names_refused:
  "load_sample id_options (hosts_data_of [(''a'', [(''id'', JStr ''2'')]), (''b'', [(''id'', JStr ''1'')])])
     (empty_tables\<lparr>i_hosts := [with_id ''1'' (host_of 1 ''a'' ''{}''), with_id ''2'' (host_of 2 ''b'' ''{}'')], src_hosts := [1, 2], next_host := 3\<rparr>)
   = Inl Integrity_Error"
  by code_simp

text \<open>A host that only has another name keeps its row.\<close>

lemma renamed_host_keeps_row:
  "case load_sample id_options (hosts_data_of [(''new'', [(''id'', JStr ''1'')])])
     (empty_tables\<lparr>i_hosts := [with_id ''1'' (host_of 1 ''old'' ''{}'')], src_hosts := [1], next_host := 2\<rparr>) of
     Inl _ \<Rightarrow> False | Inr t \<Rightarrow> map (\<lambda>r. (ih_id r, ih_name r)) (i_hosts t) = [(1, ''new'')]"
  by code_simp

text \<open>
  The description of a host is taken out of its variables when its row is created, but not when it is
  updated: the same import twice leaves the variable behind.
\<close>

lemma description_becomes_variable:
  "case load_sample sample_options (hosts_data_of [(''a'', [(''_awx_description'', JStr ''x'')])]) empty_tables of
     Inl _ \<Rightarrow> False
   | Inr t \<Rightarrow> map ih_vars (i_hosts t) = [json_dumps (JDict [])] \<and>
       (case load_sample sample_options (hosts_data_of [(''a'', [(''_awx_description'', JStr ''x'')])]) t of
          Inl _ \<Rightarrow> False
        | Inr u \<Rightarrow> map ih_vars (i_hosts u) = [json_dumps (JDict [(''_awx_description'', JStr ''x'')])])"
  by code_simp

text \<open>
  With several variables for the id, hosts without a stored id are searched for texts that contain all of the last
  ones: one that has only the first variable is not found, and a host with its id and a new name gets a row of its own.
\<close>

definition two_ids :: import_options where
  "two_ids = sample_options\<lparr>instance_id_var := Some ''id,uuid'', overwrite := False\<rparr>"

lemma first_id_not_searched:
  "build_db_instance_id_map two_ids (empty_tables\<lparr>i_hosts := [host_of 1 ''a'' (json_dumps (JDict [(''id'', JStr ''7'')]))], src_hosts := [1], next_host := 2\<rparr>) = []"
  "build_db_instance_id_map two_ids (empty_tables\<lparr>i_hosts := [host_of 1 ''a'' (json_dumps (JDict [(''uuid'', JStr ''7'')]))], src_hosts := [1], next_host := 2\<rparr>) = [(''7'', 1)]"
  by code_simp+

text \<open>
  In a constructed inventory the variable that enables a host is dropped before it is read when the
  row exists, and after it when the row is new.
\<close>

definition constructed_options :: import_options where
  "constructed_options = sample_options\<lparr>is_constructed := True, enabled_var := Some ''remote_tower_enabled'', enabled_value := Some ''true''\<rparr>"

lemma enabled_kept_on_update:
  "case load_sample constructed_options (hosts_data_of [(''a'', [(''remote_tower_enabled'', JStr ''false'')])]) empty_tables of
     Inl _ \<Rightarrow> False | Inr t \<Rightarrow> map ih_enabled (i_hosts t) = [False]"
  "case load_sample constructed_options (hosts_data_of [(''a'', [(''remote_tower_enabled'', JStr ''false'')])])
     (empty_tables\<lparr>i_hosts := [host_of 1 ''a'' ''{}''], src_hosts := [1], next_host := 2\<rparr>) of
     Inl _ \<Rightarrow> False | Inr t \<Rightarrow> map ih_enabled (i_hosts t) = [True]"
  by code_simp+

end
