(* ===== verification/NodeHealth.thy ===== *)
theory NodeHealth
  imports PyValues DependencyGraph
begin

section \<open>The capacity and the health of one node\<close>

text \<open>
  \<^verbatim>\<open>forail/main/utils/common.py\<close> (the capacity formulas) and the methods of \<open>Instance\<close> in
  \<^verbatim>\<open>forail/main/models/ha.py\<close>. An exception is the left value of a sum and carries its class.
  Floating point is binary64: a rational, rounded after every operation.
\<close>

subsection \<open>Binary floating point\<close>

definition round_half_even :: "rat \<Rightarrow> int" where
  "round_half_even q =
     (let f = \<lfloor>q\<rfloor>; d = q - of_int f
      in if d < 1 / 2 then f else if d > 1 / 2 then f + 1 else if even f then f else f + 1)"

function bits :: "int \<Rightarrow> int" where
  "bits n = (if n \<le> 0 then 0 else 1 + bits (n div 2))"
  by pat_completeness auto
termination by (relation "measure nat") auto

declare bits.simps [simp del]

definition two_to :: "int \<Rightarrow> rat" where
  "two_to k = (if k \<ge> 0 then 2 ^ nat k else 1 / 2 ^ nat (- k))"

text \<open>The exponent of the leading binary digit of a positive number.\<close>

definition leading_bit :: "rat \<Rightarrow> int" where
  "leading_bit q =
     (let (a, b) = quotient_of q; k = bits a - bits b
      in if two_to k \<le> q then k else k - 1)"

datatype pyfloat = Finite rat | PosInf | NegInf | NaN

definition float_of :: "rat \<Rightarrow> pyfloat" where
  "float_of q =
     (if q = 0 then Finite 0
      else let ulp = two_to (max (leading_bit \<bar>q\<bar> - 52) (- 1074));
               r = of_int (round_half_even (q / ulp)) * ulp
           in if \<bar>r\<bar> < two_to 1024 then Finite r else if r > 0 then PosInf else NegInf)"

text \<open>\<open>int(x)\<close> of a finite number.\<close>

definition trunc :: "rat \<Rightarrow> int" where
  "trunc q = (if q \<ge> 0 then \<lfloor>q\<rfloor> else \<lceil>q\<rceil>)"

text \<open>
  \<open>float(s)\<close>: an optional sign, then a decimal number with an optional exponent, or a name of
  an infinity or of not-a-number. \<^const>\<open>None\<close> is \<open>ValueError\<close>. Digits may have single
  underscores between them.
\<close>

definition read_digit_run :: "string \<Rightarrow> (int \<times> nat) option" where
  "read_digit_run s = (if s = [] then Some (0, 0)
     else map_option (\<lambda>n. (n, length (filter is_decimal s))) (read_nat s))"

definition read_mantissa :: "string \<Rightarrow> rat option" where
  "read_mantissa s =
     (let whole = takeWhile (\<lambda>c. c \<noteq> CHR ''.'') s; fraction = drop 1 (dropWhile (\<lambda>c. c \<noteq> CHR ''.'') s)
      in case (read_digit_run whole, read_digit_run fraction) of
           (Some (w, m), Some (f, n)) \<Rightarrow> if m + n = 0 then None else Some (of_int w + of_int f / 10 ^ n)
         | _ \<Rightarrow> None)"

definition read_exponent :: "string \<Rightarrow> int option" where
  "read_exponent s = (case s of [] \<Rightarrow> None
     | c # cs \<Rightarrow> if c = CHR ''-'' then map_option uminus (read_nat cs)
                 else if c = CHR ''+'' then read_nat cs else read_nat s)"

definition ten_to :: "int \<Rightarrow> rat" where
  "ten_to k = (if k \<ge> 0 then 10 ^ nat k else 1 / 10 ^ nat (- k))"

definition read_unsigned :: "string \<Rightarrow> rat option" where
  "read_unsigned s =
     (let is_e = (\<lambda>c. c \<in> set ''eE'')
      in if list_ex is_e s
         then (case (read_mantissa (takeWhile (\<lambda>c. \<not> is_e c) s), read_exponent (drop 1 (dropWhile (\<lambda>c. \<not> is_e c) s))) of
                 (Some x, Some k) \<Rightarrow> Some (x * ten_to k) | _ \<Rightarrow> None)
         else read_mantissa s)"

definition read_float :: "string \<Rightarrow> pyfloat option" where
  "read_float s =
     (let t = strip s; neg = (t \<noteq> [] \<and> hd t = CHR ''-'');
          u = (if t \<noteq> [] \<and> hd t \<in> set ''+-'' then drop 1 t else t)
      in if lower u \<in> set [''inf'', ''infinity''] then Some (if neg then NegInf else PosInf)
         else if lower u = ''nan'' then Some NaN
         else map_option (\<lambda>q. float_of (if neg then - q else q)) (read_unsigned u))"

subsection \<open>Processors\<close>

fun float_divide :: "pyfloat \<Rightarrow> rat \<Rightarrow> pyfloat" where
  "float_divide (Finite q) d = float_of (q / d)"
| "float_divide x d = x"

text \<open>\<open>round(x, 1)\<close>\<close>

fun round_1 :: "pyfloat \<Rightarrow> pyfloat" where
  "round_1 (Finite q) = float_of (of_int (round_half_even (q * 10)) / 10)"
| "round_1 x = x"

definition tenth :: rat where
  "tenth = (case float_of (1 / 10) of Finite t \<Rightarrow> t | _ \<Rightarrow> 0)"

text \<open>\<open>max(0.1, x)\<close>: the first argument unless the second is greater, which not-a-number never is.\<close>

definition at_least_tenth :: "pyfloat \<Rightarrow> pyfloat" where
  "at_least_tenth x = (case x of
      Finite q \<Rightarrow> Finite (if q > tenth then q else tenth) | PosInf \<Rightarrow> PosInf | _ \<Rightarrow> Finite tenth)"

definition convert_cpu_str_to_decimal_cpu :: "string \<Rightarrow> string + pyfloat" where
  "convert_cpu_str_to_decimal_cpu cpu_str =
     (if cpu_str = [] then Inl ''IndexError''
      else let millicores = (last cpu_str = CHR ''m'');
               body = (if millicores then butlast cpu_str else cpu_str);
               cpu = (case read_float body of
                        None \<Rightarrow> Finite 1
                      | Some x \<Rightarrow> if millicores then float_divide x 1000 else x)
           in Inr (at_least_tenth (round_1 cpu)))"


text \<open>
  A number of processors: a Python integer, a float, or the \<open>Decimal\<close> that the database returns.
\<close>

datatype cpu_number = CInt int | CFloat pyfloat | CDec rat

text \<open>
  The settings, with the environment variables of the same names. Those for the total are
  strings; those per fork are passed to \<open>int\<close> and can be any value (\<^const>\<open>JNull\<close> is an absent
  setting).
\<close>

record capacity_settings =
  env_abscpu :: "string option"
  settings_abscpu :: "string option"
  env_forkcpu :: "string option"
  settings_forkcpu :: json
  env_absmem :: "string option"
  settings_absmem :: "string option"
  env_mem_mb_per_fork :: "string option"
  settings_mem_mb_per_fork :: json
  is_k8s :: bool

definition get_corrected_cpu :: "capacity_settings \<Rightarrow> cpu_number \<Rightarrow> string + cpu_number" where
  "get_corrected_cpu cfg cpu_count =
     (case env_abscpu cfg of
        Some s \<Rightarrow> map_sum id CFloat (convert_cpu_str_to_decimal_cpu s)
      | None \<Rightarrow> (case settings_abscpu cfg of
          Some s \<Rightarrow> map_sum id CFloat (convert_cpu_str_to_decimal_cpu s)
        | None \<Rightarrow> Inr cpu_count))"

text \<open>\<open>int\<close> of the variable, else of the setting, else the default.\<close>

definition per_fork :: "string option \<Rightarrow> json \<Rightarrow> int \<Rightarrow> string + int" where
  "per_fork env setting fallback =
     (let read = (\<lambda>v. case py_int v of None \<Rightarrow> Inl ''ValueError'' | Some n \<Rightarrow> Inr n)
      in case env of
           Some (c # cs) \<Rightarrow> read (JStr (c # cs))
         | _ \<Rightarrow> if py_true setting then read setting else Inr fallback)"

text \<open>\<open>int(cpu_count * forkcpu)\<close>; an infinite number of processors has no integer value.\<close>

fun int_times :: "cpu_number \<Rightarrow> int \<Rightarrow> string + int" where
  "int_times (CInt n) f = Inr (n * f)"
| "int_times (CDec q) f = Inr (trunc (q * of_int f))"
| "int_times (CFloat NaN) f = Inl ''ValueError''"
| "int_times (CFloat (Finite q)) f =
     (case float_of (of_int f) of
        Finite g \<Rightarrow> (case float_of (q * g) of Finite r \<Rightarrow> Inr (trunc r) | _ \<Rightarrow> Inl ''OverflowError'')
      | _ \<Rightarrow> Inl ''OverflowError'')"
| "int_times (CFloat _) f = (if f = 0 then Inl ''ValueError'' else Inl ''OverflowError'')"

definition get_cpu_effective_capacity :: "capacity_settings \<Rightarrow> cpu_number \<Rightarrow> bool \<Rightarrow> string + int" where
  "get_cpu_effective_capacity cfg cpu_count is_control_node =
     then_ok (if is_control_node then get_corrected_cpu cfg cpu_count else Inr cpu_count)
       (\<lambda>cpu. then_ok (per_fork (env_forkcpu cfg) (settings_forkcpu cfg) 4)
         (\<lambda>forkcpu. then_ok (int_times cpu forkcpu) (\<lambda>n. Inr (max 1 n))))"

subsection \<open>Memory\<close>

definition conversions :: "(string, int) pydict" where
  "conversions = [(''Ei'', 2 ^ 60), (''E'', 10 ^ 18), (''Pi'', 2 ^ 50), (''P'', 10 ^ 15), (''Ti'', 2 ^ 40),
     (''T'', 10 ^ 12), (''Gi'', 2 ^ 30), (''G'', 10 ^ 9), (''Mi'', 2 ^ 20), (''M'', 10 ^ 6),
     (''Ki'', 2 ^ 10), (''K'', 10 ^ 3)]"

definition digit_like :: "char \<Rightarrow> bool" where
  "digit_like c \<longleftrightarrow> isdigit [c]"

definition convert_mem_str_to_bytes :: "string \<Rightarrow> string + int" where
  "convert_mem_str_to_bytes mem_str =
     (let int_of = (\<lambda>s. case read_int s of None \<Rightarrow> Inl ''ValueError'' | Some n \<Rightarrow> Inr n)
      in if isdigit mem_str then int_of mem_str
         else (case dropWhile digit_like mem_str of
                 [] \<Rightarrow> Inr 1
               | mem_unit \<Rightarrow> then_ok (int_of (takeWhile digit_like mem_str))
                   (\<lambda>mem. case dict_get conversions mem_unit of
                      None \<Rightarrow> Inr 1 | Some factor \<Rightarrow> Inr (max 1 (mem * factor)))))"

definition get_corrected_memory :: "capacity_settings \<Rightarrow> int \<Rightarrow> string + int" where
  "get_corrected_memory cfg memory =
     (case env_absmem cfg of
        Some s \<Rightarrow> convert_mem_str_to_bytes s
      | None \<Rightarrow> (case settings_absmem cfg of Some s \<Rightarrow> convert_mem_str_to_bytes s | None \<Rightarrow> Inr memory))"

definition get_mem_effective_capacity :: "capacity_settings \<Rightarrow> int \<Rightarrow> bool \<Rightarrow> string + int" where
  "get_mem_effective_capacity cfg mem_bytes is_control_node =
     then_ok (if is_control_node then get_corrected_memory cfg mem_bytes else Inr mem_bytes)
       (\<lambda>bytes. then_ok (per_fork (env_mem_mb_per_fork cfg) (settings_mem_mb_per_fork cfg) 100)
         (\<lambda>mb. let penalty = (if is_k8s cfg then 0 else 2147483648); mem_mb = (bytes - penalty) div 2 ^ 20
               in if mb = 0 then Inl ''ZeroDivisionError'' else Inr (max 1 (mem_mb div mb))))"

subsection \<open>The row of a node\<close>

datatype node_state = Provisioning | ProvisionFail | Installed | Ready | Unavailable | Deprovisioning
  | DeprovisionFail

record node =
  node_pk :: int
  node_uuid :: string
  hostname :: string
  ip_address :: string
  node_version :: string
  node_cpu :: cpu_number
  node_memory :: int
  node_errors :: string
  last_seen :: "int option"
  health_check_started :: "int option"
  last_health_check :: "int option"
  node_capacity :: rat
  capacity_adjustment :: rat
  node_enabled :: bool
  managed_by_policy :: bool
  cpu_capacity :: int
  mem_capacity :: int
  kind_of_node :: node_type
  node_state :: node_state
  node_managed :: bool

datatype node_field = FUuid | FHostname | FIp | FVersion | FCpu | FMemory | FErrors | FLastSeen
  | FCheckStarted | FLastCheck | FCapacity | FAdjustment | FEnabled | FByPolicy | FCpuCapacity
  | FMemCapacity | FType | FState | FManaged

text \<open>
  What the column of a value holds: the capacity is an integer column, the processors have one
  decimal place.
\<close>

definition cpu_value :: "cpu_number \<Rightarrow> rat option" where
  "cpu_value c = (case c of CInt n \<Rightarrow> Some (of_int n) | CDec q \<Rightarrow> Some q | CFloat (Finite q) \<Rightarrow> Some q | _ \<Rightarrow> None)"

definition cpu_column :: "cpu_number \<Rightarrow> rat option" where
  "cpu_column c = (case cpu_value c of
      None \<Rightarrow> None
    | Some q \<Rightarrow> (let t = round_half_even (q * 10) in if \<bar>t\<bar> < 10000 then Some (of_int t / 10) else None))"

text \<open>\<open>save(update_fields=...)\<close>: the named fields of the object \<open>x\<close> are written to the row \<open>r\<close>.\<close>

fun write_field :: "node \<Rightarrow> node_field \<Rightarrow> node \<Rightarrow> node" where
  "write_field x FUuid r = r\<lparr>node_uuid := node_uuid x\<rparr>"
| "write_field x FHostname r = r\<lparr>hostname := hostname x\<rparr>"
| "write_field x FIp r = r\<lparr>ip_address := ip_address x\<rparr>"
| "write_field x FVersion r = r\<lparr>node_version := node_version x\<rparr>"
| "write_field x FCpu r = r\<lparr>node_cpu := (case cpu_column (node_cpu x) of None \<Rightarrow> node_cpu r | Some q \<Rightarrow> CDec q)\<rparr>"
| "write_field x FMemory r = r\<lparr>node_memory := node_memory x\<rparr>"
| "write_field x FErrors r = r\<lparr>node_errors := node_errors x\<rparr>"
| "write_field x FLastSeen r = r\<lparr>last_seen := last_seen x\<rparr>"
| "write_field x FCheckStarted r = r\<lparr>health_check_started := health_check_started x\<rparr>"
| "write_field x FLastCheck r = r\<lparr>last_health_check := last_health_check x\<rparr>"
| "write_field x FCapacity r = r\<lparr>node_capacity := of_int (trunc (node_capacity x))\<rparr>"
| "write_field x FAdjustment r = r\<lparr>capacity_adjustment := capacity_adjustment x\<rparr>"
| "write_field x FEnabled r = r\<lparr>node_enabled := node_enabled x\<rparr>"
| "write_field x FByPolicy r = r\<lparr>managed_by_policy := managed_by_policy x\<rparr>"
| "write_field x FCpuCapacity r = r\<lparr>cpu_capacity := cpu_capacity x\<rparr>"
| "write_field x FMemCapacity r = r\<lparr>mem_capacity := mem_capacity x\<rparr>"
| "write_field x FType r = r\<lparr>kind_of_node := kind_of_node x\<rparr>"
| "write_field x FState r = r\<lparr>node_state := node_state x\<rparr>"
| "write_field x FManaged r = r\<lparr>node_managed := node_managed x\<rparr>"

definition write_fields :: "node_field list \<Rightarrow> node \<Rightarrow> node \<Rightarrow> node" where
  "write_fields fs x r = fold (write_field x) fs r"

definition all_fields :: "node_field list" where
  "all_fields = [FUuid, FHostname, FIp, FVersion, FCpu, FMemory, FErrors, FLastSeen, FCheckStarted, FLastCheck,
     FCapacity, FAdjustment, FEnabled, FByPolicy, FCpuCapacity, FMemCapacity, FType, FState, FManaged]"


subsection \<open>The methods of a node\<close>

text \<open>The three settings that decide when a node is lost, in seconds.\<close>

record liveness_settings =
  heartbeat_period :: int
  missed_heartbeat_tolerance :: int
  advertisement_period :: int

definition lost_after :: "liveness_settings \<Rightarrow> node_type \<Rightarrow> int" where
  "lost_after s k = heartbeat_period s * missed_heartbeat_tolerance s +
     (if k \<in> set [Execution, Hop] then advertisement_period s else 0)"

definition is_lost :: "liveness_settings \<Rightarrow> int \<Rightarrow> node \<Rightarrow> bool" where
  "is_lost s ref_time x \<longleftrightarrow>
     (case last_seen x of None \<Rightarrow> True | Some t \<Rightarrow> t < ref_time - lost_after s (kind_of_node x))"

text \<open>\<open>mark_offline\<close> returns the changed object and the fields to save.\<close>

definition mark_offline :: "int \<Rightarrow> bool \<Rightarrow> string \<Rightarrow> node \<Rightarrow> node \<times> node_field list" where
  "mark_offline now update_last_seen errors x =
     (if node_state x \<notin> set [Ready, Unavailable, Installed] then (x, [])
      else if node_state x = Unavailable \<and> node_errors x = errors \<and> \<not> update_last_seen then (x, [])
      else (let x1 = x\<lparr>node_state := Unavailable, cpu_capacity := 0, mem_capacity := 0, node_capacity := 0,
                       node_errors := errors\<rparr>;
                x2 = (if update_last_seen then x1\<lparr>last_seen := Some now\<rparr> else x1)
            in (x2, [FState, FCapacity, FCpuCapacity, FMemCapacity, FErrors] @
                    (if update_last_seen then [FLastSeen] else []))))"

text \<open>The rule between the two limits, and \<open>set_capacity_value\<close>, which tells whether the value changed.\<close>

definition adjusted_capacity :: "node \<Rightarrow> rat" where
  "adjusted_capacity x =
     (let lower_cap = min (mem_capacity x) (cpu_capacity x); higher_cap = max (mem_capacity x) (cpu_capacity x)
      in of_int lower_cap + of_int (higher_cap - lower_cap) * capacity_adjustment x)"

definition set_capacity_value :: "node \<Rightarrow> bool \<times> node" where
  "set_capacity_value x =
     (let x1 = x\<lparr>node_capacity := (if node_enabled x \<and> kind_of_node x \<noteq> Hop then adjusted_capacity x else 0)\<rparr>
      in (trunc (node_capacity x1) \<noteq> trunc (node_capacity x), x1))"

definition refresh_capacity_fields :: "capacity_settings \<Rightarrow> node \<Rightarrow> string + node" where
  "refresh_capacity_fields cfg x =
     (if kind_of_node x = Hop
      then Inr (snd (set_capacity_value (x\<lparr>cpu_capacity := 0, mem_capacity := 0\<rparr>)))
      else (let control = (kind_of_node x \<in> set [Control, Hybrid])
            in then_ok (get_cpu_effective_capacity cfg (node_cpu x) control)
                 (\<lambda>c. then_ok (get_mem_effective_capacity cfg (node_memory x) control)
                   (\<lambda>m. Inr (snd (set_capacity_value (x\<lparr>cpu_capacity := c, mem_capacity := m\<rparr>)))))))"

text \<open>
  \<open>save_health_data\<close>, up to the save: the object and the fields to write. The column of the
  processors holds numbers below 1000; the save fails on any other.
\<close>

record health_report =
  report_version :: "string option"
  report_cpu :: cpu_number
  report_memory :: int
  report_uuid :: "string option"
  report_errors :: string

definition health_header :: "int \<Rightarrow> bool \<Rightarrow> health_report \<Rightarrow> node \<Rightarrow> node \<times> node_field list" where
  "health_header now update_last_seen d x =
     (let (x1, f1) = (if kind_of_node x \<noteq> Hop then (x\<lparr>last_health_check := Some now\<rparr>, [FErrors, FLastCheck]) else (x, [FErrors]));
          (x2, f2) = (if update_last_seen then (x1\<lparr>last_seen := last_health_check x1\<rparr>, f1 @ [FLastSeen]) else (x1, f1));
          (x3, f3) = (case report_uuid d of
              Some u \<Rightarrow> if node_uuid x2 \<noteq> u then (x2\<lparr>node_uuid := u\<rparr>, f2 @ [FUuid]) else (x2, f2) | None \<Rightarrow> (x2, f2))
      in case report_version d of
           Some v \<Rightarrow> if node_version x3 \<noteq> v then (x3\<lparr>node_version := v\<rparr>, f3 @ [FVersion]) else (x3, f3)
         | None \<Rightarrow> (x3, f3))"

definition health_sizes ::
  "capacity_settings \<Rightarrow> health_report \<Rightarrow> node \<times> node_field list \<Rightarrow> string + node \<times> node_field list" where
  "health_sizes cfg d = (\<lambda>(x, fs).
     then_ok (if kind_of_node x = Execution then Inr (report_cpu d) else get_corrected_cpu cfg (report_cpu d))
       (\<lambda>new_cpu. then_ok (if kind_of_node x = Execution then Inr (report_memory d) else get_corrected_memory cfg (report_memory d))
         (\<lambda>new_memory.
            let (x1, f1) = (if cpu_value new_cpu \<noteq> cpu_value (node_cpu x) \<or> cpu_value new_cpu = None
                            then (x\<lparr>node_cpu := new_cpu\<rparr>, fs @ [FCpu]) else (x, fs));
                (x2, f2) = (if new_memory \<noteq> node_memory x1 then (x1\<lparr>node_memory := new_memory\<rparr>, f1 @ [FMemory]) else (x1, f1))
            in Inr (x2, f2))))"

definition health_verdict ::
  "int \<Rightarrow> capacity_settings \<Rightarrow> health_report \<Rightarrow> node \<times> node_field list \<Rightarrow> string + node \<times> node_field list" where
  "health_verdict now cfg d = (\<lambda>(x, fs).
     if report_errors d = []
     then then_ok (refresh_capacity_fields cfg x)
       (\<lambda>x1. let x2 = x1\<lparr>node_errors := []\<rparr>
             in Inr (if node_state x2 \<in> set [Unavailable, Installed] then (x2\<lparr>node_state := Ready\<rparr>, fs @ [FState]) else (x2, fs)))
     else (let (x1, offline) = mark_offline now False (report_errors d) x in Inr (x1, fs @ offline)))"

definition save_health_data ::
  "int \<Rightarrow> capacity_settings \<Rightarrow> bool \<Rightarrow> health_report \<Rightarrow> node \<Rightarrow> string + node \<times> node_field list" where
  "save_health_data now cfg update_last_seen d x =
     then_ok (health_sizes cfg d (health_header now update_last_seen d x))
       (\<lambda>xf. then_ok (health_verdict now cfg d xf)
         (\<lambda>(x1, fs). if FCpu \<in> set fs \<and> cpu_column (node_cpu x1) = None then Inl ''DataError''
                      else Inr (x1, fs @ [FCpuCapacity, FMemCapacity, FCapacity])))"

text \<open>\<open>local_health_check\<close>: what this host reports of itself.\<close>

definition local_report :: "string \<Rightarrow> bool \<Rightarrow> int \<Rightarrow> int \<Rightarrow> health_report" where
  "local_report awx_version redis_up cpus memory =
     \<lparr>report_version = Some awx_version, report_cpu = CInt cpus, report_memory = memory, report_uuid = None,
      report_errors = (if redis_up then [] else ''Failed to connect to Redis'')\<rparr>"

definition health_check_pending :: "node \<Rightarrow> bool" where
  "health_check_pending x =
     (case health_check_started x of None \<Rightarrow> False
      | Some s \<Rightarrow> (case last_health_check x of None \<Rightarrow> True | Some l \<Rightarrow> s > l))"


subsection \<open>Saving\<close>

text \<open>A row after a save, field by field, for the fields the properties speak of.\<close>

lemma write_fields_read:
  assumes "\<And>f r. read (write_field x f r) = (if f = k then v else read r)"
  shows "read (write_fields fs x r) = (if k \<in> set fs then v else read r)"
  unfolding write_fields_def by (induction fs arbitrary: r) (auto simp: assms)

lemma write_fields_pk [simp]: "node_pk (write_fields fs x r) = node_pk r"
proof -
  have "node_pk (write_field x f r) = node_pk r" for f r by (cases f) simp_all
  then show ?thesis unfolding write_fields_def by (induction fs arbitrary: r) simp_all
qed

lemma write_fields_simps [simp]:
  "hostname (write_fields fs x r) = (if FHostname \<in> set fs then hostname x else hostname r)"
  "ip_address (write_fields fs x r) = (if FIp \<in> set fs then ip_address x else ip_address r)"
  "node_errors (write_fields fs x r) = (if FErrors \<in> set fs then node_errors x else node_errors r)"
  "last_seen (write_fields fs x r) = (if FLastSeen \<in> set fs then last_seen x else last_seen r)"
  "node_state (write_fields fs x r) = (if FState \<in> set fs then node_state x else node_state r)"
  "kind_of_node (write_fields fs x r) = (if FType \<in> set fs then kind_of_node x else kind_of_node r)"
  "node_enabled (write_fields fs x r) = (if FEnabled \<in> set fs then node_enabled x else node_enabled r)"
  "capacity_adjustment (write_fields fs x r) = (if FAdjustment \<in> set fs then capacity_adjustment x else capacity_adjustment r)"
  "cpu_capacity (write_fields fs x r) = (if FCpuCapacity \<in> set fs then cpu_capacity x else cpu_capacity r)"
  "mem_capacity (write_fields fs x r) = (if FMemCapacity \<in> set fs then mem_capacity x else mem_capacity r)"
  "node_capacity (write_fields fs x r) =
     (if FCapacity \<in> set fs then of_int (trunc (node_capacity x)) else node_capacity r)"
  by (rule write_fields_read, (case_tac f; simp))+


subsection \<open>What a health check makes of a node\<close>

text \<open>
  The invariant of a row: its capacity is a whole number, a node that is unavailable has none, and
  the capacity of a node in use is 0 or what the adjustment rule gives for its limits, rounded down.
\<close>

definition node_ok :: "node \<Rightarrow> bool" where
  "node_ok x \<longleftrightarrow>
     node_capacity x = of_int (trunc (node_capacity x)) \<and>
     0 \<le> capacity_adjustment x \<and> 0 \<le> cpu_capacity x \<and> 0 \<le> mem_capacity x \<and>
     (node_state x = Unavailable \<longrightarrow> cpu_capacity x = 0 \<and> mem_capacity x = 0) \<and>
     (node_state x \<in> {Ready, Unavailable} \<longrightarrow>
        node_capacity x = 0 \<or> node_capacity x = of_int (trunc (adjusted_capacity x)))"

lemma trunc_0 [simp]: "trunc 0 = 0"
  by (simp add: trunc_def)

lemma trunc_of_int [simp]: "trunc (of_int n) = n"
  by (simp add: trunc_def)

lemma adjusted_capacity_cong:
  "cpu_capacity x = cpu_capacity y \<Longrightarrow> mem_capacity x = mem_capacity y \<Longrightarrow>
   capacity_adjustment x = capacity_adjustment y \<Longrightarrow> adjusted_capacity x = adjusted_capacity y"
  by (simp add: adjusted_capacity_def)

lemma adjusted_capacity_update [simp]:
  "adjusted_capacity (x\<lparr>node_capacity := q\<rparr>) = adjusted_capacity x"
  "adjusted_capacity (x\<lparr>last_seen := s\<rparr>) = adjusted_capacity x"
  by (simp_all add: adjusted_capacity_def)

lemma adjusted_capacity_none [simp]:
  "cpu_capacity x = 0 \<Longrightarrow> mem_capacity x = 0 \<Longrightarrow> adjusted_capacity x = 0"
  by (simp add: adjusted_capacity_def)

lemma node_ok_unavailable: "node_ok x \<Longrightarrow> node_state x = Unavailable \<Longrightarrow> node_capacity x = 0"
  unfolding node_ok_def by auto

text \<open>\<open>set_capacity_value\<close> changes the capacity only.\<close>

lemma set_capacity_fields [simp]:
  "node_pk (snd (set_capacity_value x)) = node_pk x"
  "hostname (snd (set_capacity_value x)) = hostname x"
  "ip_address (snd (set_capacity_value x)) = ip_address x"
  "node_state (snd (set_capacity_value x)) = node_state x"
  "kind_of_node (snd (set_capacity_value x)) = kind_of_node x"
  "node_enabled (snd (set_capacity_value x)) = node_enabled x"
  "last_seen (snd (set_capacity_value x)) = last_seen x"
  "capacity_adjustment (snd (set_capacity_value x)) = capacity_adjustment x"
  "cpu_capacity (snd (set_capacity_value x)) = cpu_capacity x"
  "mem_capacity (snd (set_capacity_value x)) = mem_capacity x"
  "node_capacity (snd (set_capacity_value x)) =
     (if node_enabled x \<and> kind_of_node x \<noteq> Hop then adjusted_capacity x else 0)"
  by (simp_all add: set_capacity_value_def)

lemma cpu_capacity_positive: "get_cpu_effective_capacity cfg c k = Inr n \<Longrightarrow> 1 \<le> n"
  unfolding get_cpu_effective_capacity_def by (auto simp: then_ok_Inr)

lemma mem_capacity_positive: "get_mem_effective_capacity cfg c k = Inr n \<Longrightarrow> 1 \<le> n"
  unfolding get_mem_effective_capacity_def by (auto simp: then_ok_Inr Let_def split: if_splits)

lemma refresh_capacity:
  assumes "refresh_capacity_fields cfg x = Inr y"
  obtains c m where "y = snd (set_capacity_value (x\<lparr>cpu_capacity := c, mem_capacity := m\<rparr>))"
    and "if kind_of_node x = Hop then c = 0 \<and> m = 0 else 1 \<le> c \<and> 1 \<le> m"
  using assms unfolding refresh_capacity_fields_def
  by (auto simp: then_ok_Inr Let_def dest!: cpu_capacity_positive mem_capacity_positive split: if_splits)


text \<open>What the first two parts of a health check leave alone.\<close>

definition core :: "node \<Rightarrow> (int \<times> string \<times> string \<times> node_type \<times> bool \<times> rat) \<times> node_state \<times> string \<times> int \<times> int \<times> rat" where
  "core x = ((node_pk x, hostname x, ip_address x, kind_of_node x, node_enabled x, capacity_adjustment x),
     node_state x, node_errors x, cpu_capacity x, mem_capacity x, node_capacity x)"

lemma header_core:
  "core (fst (health_header now upd d x)) = core x"
  "set (snd (health_header now upd d x)) \<subseteq> {FErrors, FLastCheck, FLastSeen, FUuid, FVersion}"
  "FErrors \<in> set (snd (health_header now upd d x))"
  "FLastSeen \<in> set (snd (health_header now upd d x)) \<longleftrightarrow> upd"
  "last_seen (fst (health_header now upd d x)) =
     (if upd then if kind_of_node x = Hop then last_health_check x else Some now else last_seen x)"
  by (auto simp: health_header_def core_def Let_def split: option.splits)

lemma sizes_core:
  assumes "health_sizes cfg d (x, fs) = Inr (y, gs)"
  shows "core y = core x" and "last_seen y = last_seen x" and "set fs \<subseteq> set gs"
    and "set gs \<subseteq> set fs \<union> {FCpu, FMemory}"
  using assms by (auto simp: health_sizes_def core_def then_ok_Inr Let_def split: if_splits)

text \<open>The verdict: a clean report makes the node ready and sets its capacity, any error takes it offline.\<close>

lemma verdict_clean:
  assumes "health_verdict now cfg d (x, fs) = Inr (y, gs)" and "report_errors d = []"
  obtains c m where "if kind_of_node x = Hop then c = 0 \<and> m = 0 else 1 \<le> c \<and> 1 \<le> m"
    and "cpu_capacity y = c" "mem_capacity y = m"
    and "node_capacity y = (if node_enabled x \<and> kind_of_node x \<noteq> Hop then adjusted_capacity y else 0)"
    and "node_state y = (if node_state x \<in> {Unavailable, Installed} then Ready else node_state x)"
    and "(node_pk y, hostname y, ip_address y, kind_of_node y, node_enabled y, capacity_adjustment y) = fst (core x)"
    and "node_errors y = []" "last_seen y = last_seen x"
    and "gs = (if node_state x \<in> {Unavailable, Installed} then fs @ [FState] else fs)"
proof -
  obtain z where z: "refresh_capacity_fields cfg x = Inr z"
    and yg: "(if node_state z \<in> {Unavailable, Installed} then (z\<lparr>node_errors := [], node_state := Ready\<rparr>, fs @ [FState])
        else (z\<lparr>node_errors := []\<rparr>, fs)) = (y, gs)"
    using assms by (auto simp: health_verdict_def then_ok_Inr Let_def split: if_splits)
  obtain c m where zz: "z = snd (set_capacity_value (x\<lparr>cpu_capacity := c, mem_capacity := m\<rparr>))"
    and cm: "if kind_of_node x = Hop then c = 0 \<and> m = 0 else 1 \<le> c \<and> 1 \<le> m"
    by (rule refresh_capacity [OF z])
  show ?thesis
    by (rule that [OF cm]) (use yg zz in \<open>auto simp: core_def intro!: adjusted_capacity_cong split: if_splits\<close>)
qed

lemma mark_offline_cases:
  assumes "mark_offline now upd e x = (y, fs)"
  obtains (kept) "y = x" "fs = []" "node_state x \<notin> {Ready, Unavailable, Installed} \<or> node_state x = Unavailable \<and> node_errors x = e \<and> \<not> upd"
  | (offline) "node_state x \<in> {Ready, Unavailable, Installed}"
      "y = x\<lparr>node_state := Unavailable, cpu_capacity := 0, mem_capacity := 0, node_capacity := 0, node_errors := e,
             last_seen := (if upd then Some now else last_seen x)\<rparr>"
      "set fs = {FState, FCapacity, FCpuCapacity, FMemCapacity, FErrors} \<union> (if upd then {FLastSeen} else {})"
proof (cases "node_state x \<notin> {Ready, Unavailable, Installed} \<or> node_state x = Unavailable \<and> node_errors x = e \<and> \<not> upd")
  case True
  show ?thesis by (rule kept) (use assms True in \<open>auto simp: mark_offline_def\<close>)
next
  case False
  then have states: "node_state x \<in> set [Ready, Unavailable, Installed]"
      "\<not> (node_state x = Unavailable \<and> node_errors x = e \<and> \<not> upd)" by auto
  show ?thesis
    by (rule offline) (use assms states in \<open>cases upd; simp add: mark_offline_def Let_def; auto\<close>)+
qed


text \<open>The row after a health check.\<close>

lemma health_parts:
  assumes "save_health_data now cfg upd d x = Inr (y, fs)"
  obtains z hs gs where "core z = core x"
    and "last_seen z = (if upd then if kind_of_node x = Hop then last_health_check x else Some now else last_seen x)"
    and "set hs \<subseteq> {FErrors, FLastCheck, FLastSeen, FUuid, FVersion, FCpu, FMemory}" "FErrors \<in> set hs"
    and "FLastSeen \<in> set hs \<longleftrightarrow> upd"
    and "health_verdict now cfg d (z, hs) = Inr (y, gs)" and "fs = gs @ [FCpuCapacity, FMemCapacity, FCapacity]"
proof -
  obtain h0 f0 where h: "health_header now upd d x = (h0, f0)" by (cases "health_header now upd d x")
  obtain z hs gs where s: "health_sizes cfg d (h0, f0) = Inr (z, hs)"
    and v: "health_verdict now cfg d (z, hs) = Inr (y, gs)" and fs: "fs = gs @ [FCpuCapacity, FMemCapacity, FCapacity]"
    using assms unfolding save_health_data_def h by (auto simp: then_ok_Inr split: if_splits)
  show ?thesis
    by (rule that [OF _ _ _ _ _ v fs])
      (use header_core [of now upd d x] sizes_core [OF s] h in auto)
qed

text \<open>The row \<open>r\<close> holds the object \<open>x\<close>, as far as the properties look.\<close>

definition row_of :: "node \<Rightarrow> node \<Rightarrow> bool" where
  "row_of x r \<longleftrightarrow> core r = core (x\<lparr>node_capacity := of_int (trunc (node_capacity x))\<rparr>) \<and> last_seen r = last_seen x"

lemma row_of_fields:
  assumes "row_of x r"
  shows "node_pk r = node_pk x" "hostname r = hostname x" "ip_address r = ip_address x" "kind_of_node r = kind_of_node x"
    "node_enabled r = node_enabled x" "capacity_adjustment r = capacity_adjustment x" "node_state r = node_state x"
    "node_errors r = node_errors x" "cpu_capacity r = cpu_capacity x" "mem_capacity r = mem_capacity x"
    "node_capacity r = of_int (trunc (node_capacity x))" "last_seen r = last_seen x"
  using assms by (simp_all add: row_of_def core_def)

lemma row_of_refl: "node_ok x \<Longrightarrow> row_of x x"
  unfolding row_of_def node_ok_def core_def by simp

lemma node_ok_core:
  assumes "core a = core b"
  shows "node_ok a \<longleftrightarrow> node_ok b"
proof -
  have eq: "cpu_capacity a = cpu_capacity b" "mem_capacity a = mem_capacity b"
      "capacity_adjustment a = capacity_adjustment b" "node_capacity a = node_capacity b" "node_state a = node_state b"
    using assms by (simp_all add: core_def)
  show ?thesis unfolding node_ok_def adjusted_capacity_cong [OF eq(1-3)] eq ..
qed

lemma row_of_ok: "row_of x r \<Longrightarrow> node_ok r \<longleftrightarrow> node_ok (x\<lparr>node_capacity := of_int (trunc (node_capacity x))\<rparr>)"
  by (rule node_ok_core) (simp add: row_of_def)

text \<open>The verdict on an object, error or not, with what is written of it.\<close>

lemma verdict_object:
  assumes "health_verdict now cfg d (z, hs) = Inr (y, gs)"
  shows "fst (core y) = fst (core z) \<and> last_seen y = last_seen z \<and>
      node_state y = (if report_errors d = [] then if node_state z \<in> {Unavailable, Installed} then Ready else node_state z
        else if node_state z \<in> {Ready, Unavailable, Installed} then Unavailable else node_state z) \<and>
      set hs \<subseteq> set gs \<and> set gs \<subseteq> set hs \<union> {FState, FCapacity, FCpuCapacity, FMemCapacity, FErrors} \<and>
      (FState \<in> set gs \<or> node_state y = node_state z)"
proof (cases "report_errors d = []")
  case True
  show ?thesis
    by (rule verdict_clean [OF assms True]) (auto simp: core_def True)
next
  case False
  obtain fo where off: "mark_offline now False (report_errors d) z = (y, fo)" and gs: "gs = hs @ fo"
    using assms False by (auto simp: health_verdict_def split: prod.splits)
  show ?thesis
    using off by (cases rule: mark_offline_cases) (auto simp: gs core_def False)
qed

lemma verdict_ok:
  assumes "health_verdict now cfg d (z, hs) = Inr (y, gs)" and "node_ok (z\<lparr>node_capacity := of_int (trunc (node_capacity z))\<rparr>)"
  shows "node_ok (y\<lparr>node_capacity := of_int (trunc (node_capacity y))\<rparr>)"
proof (cases "report_errors d = []")
  case True
  obtain c m where cm: "if kind_of_node z = Hop then c = 0 \<and> m = 0 else 1 \<le> c \<and> 1 \<le> m"
    and y: "cpu_capacity y = c" "mem_capacity y = m"
      "node_capacity y = (if node_enabled z \<and> kind_of_node z \<noteq> Hop then adjusted_capacity y else 0)"
      "node_state y = (if node_state z \<in> {Unavailable, Installed} then Ready else node_state z)"
      "(node_pk y, hostname y, ip_address y, kind_of_node y, node_enabled y, capacity_adjustment y) = fst (core z)"
    by (rule verdict_clean [OF assms(1) True])
  have "0 \<le> c" "0 \<le> m" using cm by (auto split: if_splits)
  moreover have "capacity_adjustment y = capacity_adjustment z" using y(5) by (simp add: core_def)
  ultimately show ?thesis using assms(2) y(1-4) by (simp add: node_ok_def)
next
  case False
  obtain fo where off: "mark_offline now False (report_errors d) z = (y, fo)"
    using assms(1) False by (auto simp: health_verdict_def split: prod.splits)
  show ?thesis
    using off assms(2) by (cases rule: mark_offline_cases) (auto simp add: node_ok_def)
qed

text \<open>A health check on the object \<open>x\<close> that was read from the row \<open>r\<close>.\<close>

lemma health_object:
  assumes "save_health_data now cfg upd d x = Inr (y, fs)"
  shows health_identity: "fst (core y) = fst (core x)"
    and health_seen: "last_seen y = (if upd then if kind_of_node x = Hop then last_health_check x else Some now else last_seen x)"
    and health_state: "node_state y = (if report_errors d = [] then if node_state x \<in> {Unavailable, Installed} then Ready else node_state x
        else if node_state x \<in> {Ready, Unavailable, Installed} then Unavailable else node_state x)"
    and health_row: "row_of x r \<Longrightarrow> row_of y (write_fields fs y r)"
    and health_ok: "row_of x r \<Longrightarrow> node_ok r \<Longrightarrow> node_ok (write_fields fs y r)"
proof -
  obtain z hs gs where z: "core z = core x"
    and seen: "last_seen z = (if upd then if kind_of_node x = Hop then last_health_check x else Some now else last_seen x)"
    and hs: "set hs \<subseteq> {FErrors, FLastCheck, FLastSeen, FUuid, FVersion, FCpu, FMemory}" "FErrors \<in> set hs"
      "FLastSeen \<in> set hs \<longleftrightarrow> upd"
    and v: "health_verdict now cfg d (z, hs) = Inr (y, gs)" and fs: "fs = gs @ [FCpuCapacity, FMemCapacity, FCapacity]"
    by (rule health_parts [OF assms])
  have zs: "fst (core z) = fst (core x)" "node_state z = node_state x" "node_capacity z = node_capacity x"
    using z by (simp_all add: core_def)
  note y = verdict_object [OF v]
  show "fst (core y) = fst (core x)"
    and "last_seen y = (if upd then if kind_of_node x = Hop then last_health_check x else Some now else last_seen x)"
    and "node_state y = (if report_errors d = [] then if node_state x \<in> {Unavailable, Installed} then Ready else node_state x
        else if node_state x \<in> {Ready, Unavailable, Installed} then Unavailable else node_state x)"
    using y zs seen by simp_all
  have there: "FErrors \<in> set fs" "FCpuCapacity \<in> set fs" "FMemCapacity \<in> set fs" "FCapacity \<in> set fs"
    using hs(2) y fs by auto
  have absent: "FHostname \<notin> set fs" "FIp \<notin> set fs" "FType \<notin> set fs" "FEnabled \<notin> set fs" "FAdjustment \<notin> set fs"
    using hs(1) y fs by auto
  have seen_written: "FLastSeen \<in> set fs \<longleftrightarrow> upd" using hs(3) y fs by auto
  have "FState \<in> set gs \<or> node_state y = node_state z" using y by blast
  then have state_written: "FState \<in> set fs \<or> node_state y = node_state x" using fs zs by simp
  have ids: "node_pk y = node_pk x" "hostname y = hostname x" "ip_address y = ip_address x" "kind_of_node y = kind_of_node x"
      "node_enabled y = node_enabled x" "capacity_adjustment y = capacity_adjustment x"
    using y zs(1) by (simp_all add: core_def)
  have last: "\<not> upd \<Longrightarrow> last_seen x = last_seen y" using y seen by simp
  have state: "FState \<notin> set fs \<Longrightarrow> node_state x = node_state y" using state_written by auto
  show row: "row_of y (write_fields fs y r)" if r: "row_of x r"
    by (simp add: row_of_def core_def row_of_fields [OF r] there absent seen_written ids last state)
  show "node_ok (write_fields fs y r)" if r: "row_of x r" and ok: "node_ok r"
  proof -
    have "node_ok (x\<lparr>node_capacity := of_int (trunc (node_capacity x))\<rparr>)" using ok row_of_ok [OF r] by simp
    moreover have "core (z\<lparr>node_capacity := of_int (trunc (node_capacity z))\<rparr>) =
        core (x\<lparr>node_capacity := of_int (trunc (node_capacity x))\<rparr>)"
      using z by (simp add: core_def)
    ultimately have "node_ok (z\<lparr>node_capacity := of_int (trunc (node_capacity z))\<rparr>)"
      using node_ok_core by blast
    then have "node_ok (y\<lparr>node_capacity := of_int (trunc (node_capacity y))\<rparr>)" by (rule verdict_ok [OF v])
    then show ?thesis using row_of_ok [OF row [OF r]] by simp
  qed
qed

text \<open>The capacity of a node in use is at most its larger limit, times the adjustment where it exceeds 1.\<close>

lemma adjusted_capacity_range:
  assumes "0 \<le> cpu_capacity x" "0 \<le> mem_capacity x" "0 \<le> capacity_adjustment x"
  shows "0 \<le> adjusted_capacity x"
    and "adjusted_capacity x \<le> max 1 (capacity_adjustment x) * of_int (max (cpu_capacity x) (mem_capacity x))"
proof -
  define l h :: rat where "l = of_int (min (mem_capacity x) (cpu_capacity x))" and "h = of_int (max (cpu_capacity x) (mem_capacity x))"
  have lh: "0 \<le> l" "l \<le> h" using assms(1,2) by (simp_all add: l_def h_def)
  have adj: "adjusted_capacity x = l + (h - l) * capacity_adjustment x"
    by (simp add: adjusted_capacity_def l_def h_def Let_def max.commute)
  show "0 \<le> adjusted_capacity x" using lh assms(3) by (simp add: adj)
  have "l \<le> max 1 (capacity_adjustment x) * l" "(h - l) * capacity_adjustment x \<le> max 1 (capacity_adjustment x) * (h - l)"
    using lh mult_right_mono [of 1 "max 1 (capacity_adjustment x)" l] mult_left_mono [of "capacity_adjustment x" "max 1 (capacity_adjustment x)" "h - l"]
    by (simp_all add: mult.commute)
  then have "l + (h - l) * capacity_adjustment x \<le> max 1 (capacity_adjustment x) * l + max 1 (capacity_adjustment x) * (h - l)"
    by (rule add_mono)
  also have "\<dots> = max 1 (capacity_adjustment x) * h" by (simp add: algebra_simps)
  finally show "adjusted_capacity x \<le> max 1 (capacity_adjustment x) * of_int (max (cpu_capacity x) (mem_capacity x))"
    by (simp add: adj h_def)
qed

lemma node_ok_bounds:
  assumes "node_ok x" and "node_state x \<in> {Ready, Unavailable}"
  shows "0 \<le> node_capacity x"
    and "node_capacity x \<le> max 1 (capacity_adjustment x) * of_int (max (cpu_capacity x) (mem_capacity x))"
proof -
  have limits: "0 \<le> cpu_capacity x" "0 \<le> mem_capacity x" "0 \<le> capacity_adjustment x"
    and cap: "node_capacity x = 0 \<or> node_capacity x = of_int (trunc (adjusted_capacity x))"
    using assms by (auto simp: node_ok_def)
  note range = adjusted_capacity_range [OF limits]
  have "0 \<le> trunc (adjusted_capacity x) \<and> of_int (trunc (adjusted_capacity x)) \<le> adjusted_capacity x"
    using range(1) by (simp add: trunc_def)
  then have "0 \<le> node_capacity x \<and> node_capacity x \<le> adjusted_capacity x" using cap range(1) by auto
  then show "0 \<le> node_capacity x"
    and "node_capacity x \<le> max 1 (capacity_adjustment x) * of_int (max (cpu_capacity x) (mem_capacity x))"
    using range(2) by simp_all
qed

end
