(* ===== verification/ClusterHealth.thy ===== *)
theory ClusterHealth
  imports NodeHealth Reaper
begin

section \<open>The nodes of the cluster and their heartbeat\<close>

text \<open>
  The tasks of \<^verbatim>\<open>forail/main/tasks/system.py\<close> that keep the table of nodes up to date, the
  registration in \<^verbatim>\<open>forail/main/managers.py\<close> and the signal handlers of
  \<^verbatim>\<open>forail/main/models/ha.py\<close>. A task reads the rows it works on, and saves the fields it
  names; here each task runs without another in between, unless a copy of a row is passed
  explicitly. Tasks that are put on a queue are collected in the outbox.
\<close>

subsection \<open>The tables\<close>

record receptor_address =
  addr_pk :: int
  address :: string
  addr_port :: int
  websocket_path :: string
  protocol :: string
  is_internal :: bool
  canonical :: bool
  peers_from_control_nodes :: bool
  addr_instance :: int

datatype link_state = Adding | Established | Removing

record instance_link =
  link_source :: int
  link_target :: int
  link_state :: link_state

datatype message =
  HealthCheck string
| PolicyTask
| WriteReceptorConfig bool
| RemoveDeprovisioned string
| ServicesStopped

record cluster =
  nodes :: "node list"
  addresses :: "receptor_address list"
  links :: "instance_link list"
  jobs :: job_table
  outbox :: "message list"

record cluster_settings =
  cluster_host_id :: string
  liveness :: liveness_settings
  capacities :: capacity_settings
  remediation_checks :: int
  auto_deprovision :: bool
  debug_mode :: bool
  awx_version :: string
  system_uuid :: string
  job_waiting_grace_period :: int
  task_manager_timeout :: int

definition post :: "message \<Rightarrow> cluster \<Rightarrow> cluster" where
  "post m c = c\<lparr>outbox := outbox c @ [m]\<rparr>"

subsection \<open>Signals and saves\<close>

text \<open>\<open>peers.add\<close>: a link is added unless it is there.\<close>

definition add_link :: "int \<Rightarrow> int \<Rightarrow> cluster \<Rightarrow> cluster" where
  "add_link s t c =
     (if list_ex (\<lambda>l. link_source l = s \<and> link_target l = t) (links c) then c
      else c\<lparr>links := links c @ [\<lparr>link_source = s, link_target = t, link_state = Adding\<rparr>]\<rparr>)"

definition has_policy_changes :: "node \<Rightarrow> node \<Rightarrow> bool" where
  "has_policy_changes old x \<longleftrightarrow> managed_by_policy old \<noteq> managed_by_policy x \<or> hostname old \<noteq> hostname x \<or>
     capacity_adjustment old \<noteq> capacity_adjustment x"

definition on_instance_saved :: "cluster_settings \<Rightarrow> node option \<Rightarrow> node \<Rightarrow> cluster \<Rightarrow> cluster" where
  "on_instance_saved st old x c =
     (let k8s = is_k8s (capacities st);
          peers = filter peers_from_control_nodes (addresses c);
          c1 = (if old = None \<and> k8s \<and> kind_of_node x \<in> set [Control, Hybrid] \<and> peers \<noteq> []
                then post (WriteReceptorConfig False) (fold (add_link (node_pk x)) (map addr_pk peers) c) else c);
          c2 = (if k8s \<and> kind_of_node x \<in> set [Hop, Execution] \<and> node_state x = Deprovisioning
                then post (RemoveDeprovisioned (hostname x)) c1 else c1)
      in if (case old of None \<Rightarrow> True | Some o1 \<Rightarrow> has_policy_changes o1 x) then post PolicyTask c2 else c2)"

text \<open>
  \<open>save\<close> of the object \<open>x\<close> that was read as \<open>old\<close>: the named fields go to its row. The row that
  a task has read is still there when it saves.
\<close>

definition save_node :: "cluster_settings \<Rightarrow> node_field list \<Rightarrow> node \<Rightarrow> node \<Rightarrow> cluster \<Rightarrow> cluster" where
  "save_node st fs old x c =
     on_instance_saved st (Some old) x
       (c\<lparr>nodes := map (\<lambda>r. if node_pk r = node_pk x then write_fields fs x r else r) (nodes c)\<rparr>)"

definition create_node :: "cluster_settings \<Rightarrow> node \<Rightarrow> cluster \<Rightarrow> cluster" where
  "create_node st x c = on_instance_saved st None x (c\<lparr>nodes := nodes c @ [x]\<rparr>)"

text \<open>Deleting a node takes its addresses and its links in both directions with it.\<close>

definition delete_node :: "int \<Rightarrow> cluster \<Rightarrow> cluster" where
  "delete_node pk c =
     (let own = filter (\<lambda>a. addr_instance a = pk) (addresses c);
          c1 = c\<lparr>nodes := filter (\<lambda>x. node_pk x \<noteq> pk) (nodes c),
                 addresses := filter (\<lambda>a. addr_instance a \<noteq> pk) (addresses c),
                 links := filter (\<lambda>l. link_source l \<noteq> pk \<and> link_target l \<notin> set (map addr_pk own)) (links c)\<rparr>
      in post PolicyTask (fold (\<lambda>a. if peers_from_control_nodes a then post (WriteReceptorConfig True) else id) own c1))"

subsection \<open>Registration\<close>

definition UUID_DEFAULT :: string where
  "UUID_DEFAULT = ''00000000-0000-0000-0000-000000000000''"

definition RECEPTOR_PENDING :: string where
  "RECEPTOR_PENDING = ''ansible-runner-???''"

definition clear_ip :: "cluster_settings \<Rightarrow> string \<Rightarrow> string \<Rightarrow> cluster \<Rightarrow> cluster" where
  "clear_ip st ip h c =
     (if auto_deprovision st \<and> ip \<noteq> []
      then fold (\<lambda>x. save_node st [FIp] x (x\<lparr>ip_address := []\<rparr>))
             (filter (\<lambda>x. ip_address x = ip \<and> hostname x \<noteq> h) (nodes c)) c
      else c)"

text \<open>The row of the uuid, else of the host name; of several rows, the first by host name.\<close>

definition registered_node :: "string option \<Rightarrow> string \<Rightarrow> cluster \<Rightarrow> node option" where
  "registered_node uuid h c =
     (let first = (\<lambda>P. case sort_key hostname (filter P (nodes c)) of [] \<Rightarrow> None | x # _ \<Rightarrow> Some x)
      in case uuid of
           Some u \<Rightarrow> if u \<noteq> UUID_DEFAULT \<and> list_ex (\<lambda>x. node_uuid x = u) (nodes c)
                     then first (\<lambda>x. node_uuid x = u) else first (\<lambda>x. hostname x = h)
         | None \<Rightarrow> first (\<lambda>x. hostname x = h))"

definition fresh_node :: "int \<Rightarrow> string \<Rightarrow> string \<Rightarrow> string \<Rightarrow> node_type \<Rightarrow> node" where
  "fresh_node pk uuid h ip kind = \<lparr>node_pk = pk, node_uuid = uuid, hostname = h, ip_address = ip,
     node_version = (if kind = Execution then RECEPTOR_PENDING else []), node_cpu = CDec 0, node_memory = 0,
     node_errors = [], last_seen = None, health_check_started = None, last_health_check = None,
     node_capacity = 0, capacity_adjustment = 1, node_enabled = True, managed_by_policy = True,
     cpu_capacity = 0, mem_capacity = 0, kind_of_node = kind, node_state = Installed, node_managed = True\<rparr>"

definition reregistered :: "string \<Rightarrow> string \<Rightarrow> node_type \<Rightarrow> node \<Rightarrow> node \<times> node_field list" where
  "reregistered h ip kind x =
     (x\<lparr>node_state := Installed, hostname := h, ip_address := ip, kind_of_node := kind\<rparr>,
      [FState] @ (if hostname x \<noteq> h then [FHostname] else []) @
      (if ip_address x \<noteq> ip then [FIp] else []) @ (if kind_of_node x \<noteq> kind then [FType] else []))"

text \<open>
  \<open>register\<close>: host names are unique, and so are addresses that are not empty; the database
  refuses a row that breaks this. \<open>pk\<close> and \<open>uuid4\<close> are what it would create a new row with.
\<close>

definition register ::
  "cluster_settings \<Rightarrow> int \<Rightarrow> string \<Rightarrow> string option \<Rightarrow> string \<Rightarrow> string \<Rightarrow> node_type \<Rightarrow> cluster \<Rightarrow> (string + bool \<times> node) \<times> cluster" where
  "register st pk uuid4 uuid host ip kind c =
     (let h = (if host = [] then cluster_host_id st else host);
          c1 = clear_ip st ip h c
      in case registered_node uuid h c1 of
           Some x \<Rightarrow>
             (let (y, fs) = reregistered h ip kind x
              in if list_ex (\<lambda>r. node_pk r \<noteq> node_pk x \<and> (hostname r = h \<or> ip \<noteq> [] \<and> ip_address r = ip)) (nodes c1)
                 then (Inl ''IntegrityError'', c1)
                 else (Inr (True, y), save_node st fs x y c1))
         | None \<Rightarrow>
             (let y = fresh_node pk (case uuid of Some u \<Rightarrow> u | None \<Rightarrow> uuid4) h ip kind
              in if list_ex (\<lambda>r. ip \<noteq> [] \<and> ip_address r = ip) (nodes c1)
                 then (Inl ''IntegrityError'', c1)
                 else (Inr (True, y), create_node st y c1)))"


subsection \<open>Health checks\<close>

text \<open>
  What a host reads of itself, and the time at which it does. \<open>checked\<close> runs the health check
  and saves; an exception leaves the tables as they were.
\<close>

record readings =
  redis_up :: bool
  cpu_count :: int
  mem_in_bytes :: int
  check_time :: int

definition checked ::
  "cluster_settings \<Rightarrow> int \<Rightarrow> bool \<Rightarrow> health_report \<Rightarrow> node \<Rightarrow> cluster \<Rightarrow> (string + node) \<times> cluster" where
  "checked st now upd d x c =
     (case save_health_data now (capacities st) upd d x of
        Inl e \<Rightarrow> (Inl e, c)
      | Inr (y, fs) \<Rightarrow> (Inr y, save_node st fs x y c))"

definition local_health_check :: "cluster_settings \<Rightarrow> readings \<Rightarrow> node \<Rightarrow> cluster \<Rightarrow> (string + node) \<times> cluster" where
  "local_health_check st r x c =
     checked st (check_time r) True (local_report (awx_version st) (redis_up r) (cpu_count r) (mem_in_bytes r)) x c"

text \<open>
  The task of the health check endpoint. \<open>me\<close> raises \<open>RuntimeError\<close> when the row is missing,
  which the handler for \<open>DoesNotExist\<close> does not catch.
\<close>

definition cluster_node_health_check :: "cluster_settings \<Rightarrow> readings \<Rightarrow> string \<Rightarrow> cluster \<Rightarrow> string option \<times> cluster" where
  "cluster_node_health_check st r host c =
     (if host = [] \<or> host \<noteq> cluster_host_id st then (None, c)
      else (case find (\<lambda>x. hostname x = cluster_host_id st) (nodes c) of
              None \<Rightarrow> (Some ''RuntimeError'', c)
            | Some x \<Rightarrow> (case local_health_check st r x c of (Inl e, c1) \<Rightarrow> (Some e, c1) | (Inr _, c1) \<Rightarrow> (None, c1))))"

text \<open>What \<open>worker_info\<close> returns of a remote node.\<close>

record worker_data =
  runner_version :: "string option"
  worker_cpus :: int
  worker_memory :: int
  worker_uuid :: "string option"
  worker_errors :: "string list"

definition worker_report :: "worker_data \<Rightarrow> health_report" where
  "worker_report w =
     \<lparr>report_version = Some (''ansible-runner-'' @ (case runner_version w of Some v \<Rightarrow> v | None \<Rightarrow> ''???'')),
      report_cpu = CInt (worker_cpus w), report_memory = worker_memory w, report_uuid = worker_uuid w,
      report_errors = join [CHR 0x0A] (worker_errors w)\<rparr>"

definition execution_node_health_check ::
  "cluster_settings \<Rightarrow> int \<Rightarrow> worker_data \<Rightarrow> string \<Rightarrow> cluster \<Rightarrow> string option \<times> cluster" where
  "execution_node_health_check st now w host c =
     (if host = [] then (None, c)
      else (case find (\<lambda>x. hostname x = host) (nodes c) of
              None \<Rightarrow> (None, c)
            | Some x \<Rightarrow>
                if kind_of_node x \<noteq> Execution then (None, c)
                else if node_state x \<notin> set [Ready, Unavailable, Installed] then (None, c)
                else (case checked st now False (worker_report w) x c of (Inl e, c1) \<Rightarrow> (Some e, c1) | (Inr _, c1) \<Rightarrow> (None, c1))))"

text \<open>The request for a health check: only execution nodes are found at all.\<close>

definition request_health_check :: "cluster_settings \<Rightarrow> int \<Rightarrow> int \<Rightarrow> cluster \<Rightarrow> nat \<times> cluster" where
  "request_health_check st now pk c =
     (case find (\<lambda>x. node_pk x = pk \<and> kind_of_node x = Execution) (nodes c) of
        None \<Rightarrow> (404, c)
      | Some x \<Rightarrow> if health_check_pending x then (200, c)
                  else (200, post (HealthCheck (hostname x))
                               (save_node st [FCheckStarted] x (x\<lparr>health_check_started := Some now\<rparr>) c)))"

text \<open>
  \<open>inform_cluster_of_shutdown\<close>: the node goes offline and the jobs that wait on it are failed.
\<close>

definition inform_cluster_of_shutdown :: "cluster_settings \<Rightarrow> int \<Rightarrow> int \<Rightarrow> cluster \<Rightarrow> cluster" where
  "inform_cluster_of_shutdown st now reap_time c =
     (case find (\<lambda>x. hostname x = cluster_host_id st) (nodes c) of
        None \<Rightarrow> c
      | Some x \<Rightarrow>
          (let (y, fs) = mark_offline now True ''Instance received normal shutdown signal'' x;
               c1 = (if fs = [] then c else save_node st fs x y c)
           in c1\<lparr>jobs := reap_waiting (job_waiting_grace_period st) (task_manager_timeout st) (hostname x) Failed None
                     (Some 0) [] reap_time (jobs c1)\<rparr>))"

text \<open>\<open>disable_instance\<close> saves the whole row.\<close>

definition disable_instance :: "cluster_settings \<Rightarrow> (node \<Rightarrow> bool) \<Rightarrow> cluster \<Rightarrow> string option \<times> cluster" where
  "disable_instance st selected c =
     (case find selected (nodes c) of
        None \<Rightarrow> (Some ''CommandError'', c)
      | Some x \<Rightarrow> (None, if node_enabled x then save_node st all_fields x (x\<lparr>node_enabled := False\<rparr>) c else c))"

subsection \<open>The mesh\<close>

text \<open>
  The status of the mesh: whom each node is connected to, and the advertisements with their times.
\<close>

record mesh_status =
  known_connection_costs :: "(string, string list) pydict"
  advertisements :: "(string \<times> int) list"

definition linked_hosts :: "cluster \<Rightarrow> instance_link \<Rightarrow> (string \<times> string) option" where
  "linked_hosts c l =
     (case (find (\<lambda>x. node_pk x = link_source l) (nodes c), find (\<lambda>a. addr_pk a = link_target l) (addresses c)) of
        (Some x, Some a) \<Rightarrow>
          map_option (\<lambda>y. (hostname x, hostname y)) (find (\<lambda>y. node_pk y = addr_instance a) (nodes c))
      | _ \<Rightarrow> None)"

definition connected :: "mesh_status \<Rightarrow> cluster \<Rightarrow> instance_link \<Rightarrow> bool" where
  "connected mesh c l = (case linked_hosts c l of
      Some (s, t) \<Rightarrow> t \<in> set (dict_get_default (known_connection_costs mesh) s []) | None \<Rightarrow> False)"

definition inspect_established_receptor_connections :: "mesh_status \<Rightarrow> cluster \<Rightarrow> cluster" where
  "inspect_established_receptor_connections mesh c =
     c\<lparr>links := map (\<lambda>l. if link_state l = Adding \<and> connected mesh c l then l\<lparr>link_state := Established\<rparr> else l)
          (links c)\<rparr>"

definition put_node :: "node \<Rightarrow> node list \<Rightarrow> node list" where
  "put_node x xs = map (\<lambda>r. if node_pk r = node_pk x then x else r) xs"

definition hop_report :: health_report where
  "hop_report = \<lparr>report_version = None, report_cpu = CInt 0, report_memory = 0, report_uuid = None, report_errors = []\<rparr>"

text \<open>
  One advertisement. The objects of the heartbeat are changed with the rows; the last component
  is an exception that ends the task.
\<close>

type_synonym beat = "node list \<times> cluster \<times> string option"

definition needs_remediation :: "cluster_settings \<Rightarrow> int \<Rightarrow> node \<Rightarrow> bool" where
  "needs_remediation st now x \<longleftrightarrow> node_capacity x = 0 \<and> node_enabled x \<and>
     (case last_health_check x of None \<Rightarrow> True | Some l \<Rightarrow> now - l \<ge> remediation_checks st)"

definition inspect_ad :: "cluster_settings \<Rightarrow> int \<Rightarrow> string \<times> int \<Rightarrow> beat \<Rightarrow> beat" where
  "inspect_ad st now = (\<lambda>(host, seen) (mem, c, failure).
     if failure \<noteq> None then (mem, c, failure)
     else (case find (\<lambda>x. hostname x = host) mem of
       None \<Rightarrow> (mem, c, None)
     | Some x \<Rightarrow>
         if kind_of_node x \<in> set [Control, Hybrid] then (mem, c, None)
         else if (case last_seen x of None \<Rightarrow> False | Some t \<Rightarrow> t \<ge> seen) then (mem, c, None)
         else (let y = x\<lparr>last_seen := Some seen\<rparr>; mem1 = put_node y mem; c1 = save_node st [FLastSeen] x y c
               in if kind_of_node y = Hop
                  then (if node_state y \<in> set [Unavailable, Installed]
                        then (case checked st now False hop_report y c1 of
                                (Inl e, c2) \<Rightarrow> (mem1, c2, Some e)
                              | (Inr z, c2) \<Rightarrow> (put_node z mem1, c2, None))
                        else (mem1, c1, None))
                  else if node_state y \<in> set [Unavailable, Installed] \<or> needs_remediation st now y
                  then (mem1, post (HealthCheck host) c1, None)
                  else (mem1, c1, None))))"

definition inspect_execution_and_hop_nodes :: "cluster_settings \<Rightarrow> int \<Rightarrow> mesh_status \<Rightarrow> node list \<Rightarrow> cluster \<Rightarrow> beat" where
  "inspect_execution_and_hop_nodes st now mesh mem c =
     fold (inspect_ad st now) (advertisements mesh) (mem, inspect_established_receptor_connections mesh c, None)"


subsection \<open>The heartbeat\<close>

text \<open>
  The outside of a heartbeat: the clocks it reads, the status of the mesh (\<^const>\<open>None\<close> when
  receptor does not answer), the local readings, the address of the pod, the new key and uuid
  for a registration, and what the dispatcher tells of its workers: for each one the uuids of
  its tasks, with the time of the dispatch. \<open>newer v w\<close> is \<open>Version(v) > Version(w)\<close>;
  \<^const>\<open>None\<close> when one of them is no version.
\<close>

record surroundings =
  beat_time :: int
  inspect_time :: int
  mesh :: "mesh_status option"
  local_readings :: readings
  pod_ip :: string
  new_pk :: int
  reap_time :: "string \<Rightarrow> int"
  worker_tasks :: "string list list option"
  dispatch_time :: int

datatype outcome = Completed | Rejoined | Raised string

definition in_service :: "node \<Rightarrow> bool" where
  "in_service x \<longleftrightarrow> node_state x \<in> set [Ready, Unavailable, Installed]"

text \<open>Whether a control node of a newer version is among the nodes that are left.\<close>

fun check_versions :: "(string \<Rightarrow> string \<Rightarrow> bool option) \<Rightarrow> cluster_settings \<Rightarrow> node list \<Rightarrow> string option" where
  "check_versions newer st [] = None"
| "check_versions newer st (x # xs) =
     (if kind_of_node x \<in> set [Execution, Hop] then check_versions newer st xs
      else if node_version x = [] \<or> starts_with (node_version x) ''ansible-runner'' then check_versions newer st xs
      else (case newer (fst (split_once (CHR ''-'') (node_version x))) (fst (split_once (CHR ''-'') (awx_version st))) of
              None \<Rightarrow> Some ''InvalidVersion''
            | Some b \<Rightarrow> if b \<and> \<not> debug_mode st then Some ''Shutting down.'' else check_versions newer st xs))"

definition shutdown_explanation :: string where
  "shutdown_explanation = ''Job reaped due to instance shutdown''"

definition fail_jobs_of :: "cluster_settings \<Rightarrow> (string \<Rightarrow> int) \<Rightarrow> string \<Rightarrow> job_table \<Rightarrow> job_table" where
  "fail_jobs_of st clock h t =
     reap_waiting (job_waiting_grace_period st) (task_manager_timeout st) h Failed (Some shutdown_explanation) (Some 0) [] (clock h)
       (reap h Failed (Some shutdown_explanation) [] None t)"

definition retire :: "cluster_settings \<Rightarrow> int \<Rightarrow> node \<Rightarrow> cluster \<Rightarrow> cluster" where
  "retire st now x c =
     (if auto_deprovision st \<and> kind_of_node x = Control then delete_node (node_pk x) c
      else if node_state x = Ready
      then (let (y, fs) = mark_offline now False ''Another cluster node has determined this instance to be unresponsive'' x
            in if fs = [] then c else save_node st fs x y c)
      else c)"

definition handle_lost :: "cluster_settings \<Rightarrow> surroundings \<Rightarrow> node \<Rightarrow> cluster \<Rightarrow> cluster" where
  "handle_lost st w x c = retire st (beat_time w) x (c\<lparr>jobs := fail_jobs_of st (reap_time w) (hostname x) (jobs c)\<rparr>)"

text \<open>The local reaper: \<open>max\<close> of no worker at all is an exception.\<close>

definition local_reaper :: "cluster_settings \<Rightarrow> surroundings \<Rightarrow> string \<Rightarrow> job_table \<Rightarrow> outcome \<times> job_table" where
  "local_reaper st w h t =
     (case worker_tasks w of
        None \<Rightarrow> (Completed, t)
      | Some tasks \<Rightarrow>
          (let active = concat tasks; t1 = reap h Failed None active (Some (dispatch_time w)) t
           in if tasks = [] then (Raised ''ValueError'', t1)
              else if list_all (\<lambda>ts. length ts \<le> 1) tasks
              then (Completed, reap_waiting (job_waiting_grace_period st) (task_manager_timeout st) h Failed None None active
                      (dispatch_time w) t1)
              else (Completed, t1)))"

text \<open>After the health check of this node.\<close>

definition beat_rest ::
  "(string \<Rightarrow> string \<Rightarrow> bool option) \<Rightarrow> cluster_settings \<Rightarrow> surroundings \<Rightarrow> node \<Rightarrow> node list \<Rightarrow> node list \<Rightarrow> cluster \<Rightarrow> outcome \<times> cluster" where
  "beat_rest newer st w this present lost c =
     (case check_versions newer st present of
        Some e \<Rightarrow> (Raised e, if e = ''Shutting down.'' then post ServicesStopped c else c)
      | None \<Rightarrow>
          (let c1 = fold (handle_lost st w) lost c; (r, t) = local_reaper st w (hostname this) (jobs c1)
           in (r, c1\<lparr>jobs := t\<rparr>)))"

definition cluster_node_heartbeat ::
  "(string \<Rightarrow> string \<Rightarrow> bool option) \<Rightarrow> cluster_settings \<Rightarrow> surroundings \<Rightarrow> cluster \<Rightarrow> outcome \<times> cluster" where
  "cluster_node_heartbeat newer st w c =
     (let listed = filter in_service (nodes c); here = find (\<lambda>x. hostname x = cluster_host_id st) listed
      in case mesh w of
           None \<Rightarrow> (Raised ''receptor'', c)
         | Some status \<Rightarrow>
             (case inspect_execution_and_hop_nodes st (inspect_time w) status listed c of
                (mem, c1, Some e) \<Rightarrow> (Raised e, c1)
              | (mem, c1, None) \<Rightarrow>
                  (let gone = (\<lambda>x. map_option node_pk here \<noteq> Some (node_pk x) \<and> is_lost (liveness st) (beat_time w) x);
                       lost = filter gone mem; present = filter (\<lambda>x. \<not> gone x) mem
                   in case here of
                        Some h \<Rightarrow>
                          (let this = (case find (\<lambda>x. node_pk x = node_pk h) mem of Some x \<Rightarrow> x | None \<Rightarrow> h);
                               startup = is_lost (liveness st) (beat_time w) this
                           in case local_health_check st (local_readings w) this c1 of
                                (Inl e, c2) \<Rightarrow> (Raised e, c2)
                              | (Inr y, c2) \<Rightarrow> if startup \<and> node_capacity y \<noteq> 0 then (Rejoined, c2)
                                               else beat_rest newer st w y (put_node y present) lost c2)
                      | None \<Rightarrow>
                          if auto_deprovision st
                          then (case register st (new_pk w) [] (Some (system_uuid st)) [] (pod_ip w) Control c1 of
                                  (Inl e, c2) \<Rightarrow> (Raised e, c2)
                                | (Inr (_, x), c2) \<Rightarrow>
                                    (case local_health_check st (local_readings w) x c2 of
                                       (Inl e, c3) \<Rightarrow> (Raised e, c3)
                                     | (Inr y, c3) \<Rightarrow> beat_rest newer st w y present lost c3))
                          else (Raised ''Cluster Host Not Found'', c1))))"


subsection \<open>What the signals leave alone\<close>

lemma post_frame [simp]:
  "nodes (post m c) = nodes c" "jobs (post m c) = jobs c" "links (post m c) = links c" "addresses (post m c) = addresses c"
  by (simp_all add: post_def)

lemma add_link_frame [simp]:
  "nodes (add_link s t c) = nodes c" "jobs (add_link s t c) = jobs c" "addresses (add_link s t c) = addresses c"
  by (simp_all add: add_link_def)

lemma fold_add_link_frame [simp]:
  "nodes (fold (add_link s) ts c) = nodes c" "jobs (fold (add_link s) ts c) = jobs c"
  "addresses (fold (add_link s) ts c) = addresses c"
  by (induction ts arbitrary: c) simp_all

lemma on_instance_saved_frame [simp]:
  "nodes (on_instance_saved st old x c) = nodes c" "jobs (on_instance_saved st old x c) = jobs c"
  "addresses (on_instance_saved st old x c) = addresses c"
  by (simp_all add: on_instance_saved_def Let_def split: option.split)

lemma save_node_rows [simp]:
  "nodes (save_node st fs old x c) = map (\<lambda>r. if node_pk r = node_pk x then write_fields fs x r else r) (nodes c)"
  "jobs (save_node st fs old x c) = jobs c"
  by (simp_all add: save_node_def)

lemma create_node_rows [simp]:
  "nodes (create_node st x c) = nodes c @ [x]" "jobs (create_node st x c) = jobs c"
  by (simp_all add: create_node_def)

lemma delete_node_rows [simp]:
  "nodes (delete_node pk c) = filter (\<lambda>x. node_pk x \<noteq> pk) (nodes c)" "jobs (delete_node pk c) = jobs c"
proof -
  have frame: "nodes (fold (\<lambda>a. if P a then post m else id) as d) = nodes d \<and>
      jobs (fold (\<lambda>a. if P a then post m else id) as d) = jobs d"
    for P m and as :: "receptor_address list" and d
    by (induction as arbitrary: d) simp_all
  show "nodes (delete_node pk c) = filter (\<lambda>x. node_pk x \<noteq> pk) (nodes c)" "jobs (delete_node pk c) = jobs c"
    by (simp_all add: delete_node_def Let_def frame)
qed

subsection \<open>The invariant of the table\<close>

definition cluster_ok :: "cluster \<Rightarrow> bool" where
  "cluster_ok c \<longleftrightarrow> distinct (map node_pk (nodes c)) \<and> distinct (map hostname (nodes c)) \<and>
     (\<forall>x \<in> set (nodes c). node_ok x)"

text \<open>The object \<open>x\<close> is what a row holds.\<close>

definition held :: "cluster \<Rightarrow> node \<Rightarrow> bool" where
  "held c x \<longleftrightarrow> (\<exists>r \<in> set (nodes c). row_of x r)"

lemma heldE:
  assumes "held c x"
  obtains r where "r \<in> set (nodes c)" "row_of x r" "node_pk r = node_pk x" "hostname r = hostname x"
  using assms row_of_fields(1,2) unfolding held_def by metis

lemma held_row: "cluster_ok c \<Longrightarrow> x \<in> set (nodes c) \<Longrightarrow> held c x"
  using row_of_refl unfolding held_def cluster_ok_def by blast

lemma pk_unique: "cluster_ok c \<Longrightarrow> r \<in> set (nodes c) \<Longrightarrow> s \<in> set (nodes c) \<Longrightarrow> node_pk r = node_pk s \<Longrightarrow> r = s"
  unfolding cluster_ok_def by (auto simp: distinct_map dest: inj_onD)

lemma hostname_unique: "cluster_ok c \<Longrightarrow> r \<in> set (nodes c) \<Longrightarrow> s \<in> set (nodes c) \<Longrightarrow> hostname r = hostname s \<Longrightarrow> r = s"
  unfolding cluster_ok_def by (auto simp: distinct_map dest: inj_onD)

text \<open>A save keeps the invariant if what it writes of its row does.\<close>

lemma save_rows_ok:
  assumes "cluster_ok c"
    and "FHostname \<in> set fs \<Longrightarrow> \<forall>r \<in> set (nodes c). node_pk r \<noteq> node_pk x \<longrightarrow> hostname r \<noteq> hostname x"
    and "\<And>r. r \<in> set (nodes c) \<Longrightarrow> node_pk r = node_pk x \<Longrightarrow> node_ok (write_fields fs x r)"
  shows "cluster_ok (save_node st fs old x c)"
proof -
  let ?w = "\<lambda>r. if node_pk r = node_pk x then write_fields fs x r else r"
  have pk_eq: "map node_pk (map ?w (nodes c)) = map node_pk (nodes c)" by simp
  have pks: "distinct (map node_pk (map ?w (nodes c)))" unfolding pk_eq using assms(1) by (simp add: cluster_ok_def)
  have "inj_on (\<lambda>r. hostname (?w r)) (set (nodes c))"
  proof (rule inj_onI)
    fix r s
    assume rs: "r \<in> set (nodes c)" "s \<in> set (nodes c)" "hostname (?w r) = hostname (?w s)"
    show "r = s"
    proof (cases "FHostname \<in> set fs")
      case True
      then have "node_pk r = node_pk x \<longleftrightarrow> node_pk s = node_pk x" using rs assms(2) by (auto split: if_splits)
      then show ?thesis
        using rs pk_unique [OF assms(1) rs(1,2)] hostname_unique [OF assms(1) rs(1,2)] by (auto split: if_splits)
    next
      case False
      then have "hostname (?w r) = hostname r" for r by simp
      then show ?thesis using rs by (intro hostname_unique [OF assms(1)]) metis+
    qed
  qed
  then have hosts: "distinct (map hostname (map ?w (nodes c)))"
    using assms(1) by (simp add: cluster_ok_def distinct_map comp_def)
  have "node_ok (?w r)" if "r \<in> set (nodes c)" for r
    using that assms(1,3) by (auto simp: cluster_ok_def)
  then have "\<forall>y \<in> set (map ?w (nodes c)). node_ok y" unfolding set_map by blast
  then show ?thesis unfolding cluster_ok_def save_node_rows by (intro conjI pks hosts)
qed

lemma save_ok:
  assumes "cluster_ok c" and "held c x0" and "node_pk x = node_pk x0"
    and "FHostname \<in> set fs \<Longrightarrow> \<forall>r \<in> set (nodes c). node_pk r \<noteq> node_pk x \<longrightarrow> hostname r \<noteq> hostname x"
    and "\<And>r. row_of x0 r \<Longrightarrow> node_ok r \<Longrightarrow> node_ok (write_fields fs x r)"
  shows "cluster_ok (save_node st fs old x c)"
proof (rule save_rows_ok [OF assms(1,4)])
  fix r
  assume r: "r \<in> set (nodes c)" "node_pk r = node_pk x"
  obtain r0 where r0: "r0 \<in> set (nodes c)" "row_of x0 r0" "node_pk r0 = node_pk x0" using heldE [OF assms(2)] by metis
  have "r = r0" by (rule pk_unique [OF assms(1) r(1) r0(1)]) (simp add: r(2) r0(3) assms(3))
  then show "node_ok (write_fields fs x r)" using assms(1,5) r0(2) r(1) by (simp add: cluster_ok_def)
qed

lemma save_held: "held c x0 \<Longrightarrow> node_pk x = node_pk x0 \<Longrightarrow> (\<And>r. row_of x0 r \<Longrightarrow> row_of y (write_fields fs x r)) \<Longrightarrow>
    held (save_node st fs old x c) y"
  unfolding held_def by (auto intro!: bexI dest: row_of_fields(1))

lemma save_held_other: "held c z \<Longrightarrow> node_pk z \<noteq> node_pk x \<Longrightarrow> held (save_node st fs old x c) z"
  unfolding held_def by (auto intro!: bexI dest: row_of_fields(1))


text \<open>A health check of an object that a row holds.\<close>

lemma health_fields: "save_health_data now cfg upd d x = Inr (y, fs) \<Longrightarrow> FHostname \<notin> set fs"
  by (erule health_parts) (drule verdict_object, auto)

lemma health_pk: "save_health_data now cfg upd d x = Inr (y, fs) \<Longrightarrow> node_pk y = node_pk x"
  by (drule health_identity) (simp add: core_def)

lemma checked_ok:
  assumes "checked st now upd d x c = (res, c')" and "cluster_ok c" and "held c x"
  shows "cluster_ok c'" and "jobs c' = jobs c"
    and "res = Inr y \<Longrightarrow> held c' y \<and> node_pk y = node_pk x"
    and "held c z \<Longrightarrow> node_pk z \<noteq> node_pk x \<Longrightarrow> held c' z"
proof -
  have "cluster_ok c' \<and> jobs c' = jobs c \<and> (res = Inr y \<longrightarrow> held c' y \<and> node_pk y = node_pk x) \<and>
    (held c z \<longrightarrow> node_pk z \<noteq> node_pk x \<longrightarrow> held c' z)" for y z
  proof (cases "save_health_data now (capacities st) upd d x")
    case (Inl e)
    then show ?thesis using assms(1,2) by (auto simp: checked_def)
  next
    case (Inr yfs)
    obtain y0 fs where h: "save_health_data now (capacities st) upd d x = Inr (y0, fs)" using Inr by (cases yfs) simp
    have c': "c' = save_node st fs x y0 c" and res: "res = Inr y0" using assms(1) h by (simp_all add: checked_def)
    have "cluster_ok c'" unfolding c'
      by (rule save_ok [OF assms(2,3) health_pk [OF h]])
        (use health_fields [OF h] health_ok [OF h] in blast)+
    moreover have "held c' y0" unfolding c'
      by (rule save_held [OF assms(3) health_pk [OF h]]) (rule health_row [OF h])
    moreover have "held c' z" if "held c z" "node_pk z \<noteq> node_pk x"
      unfolding c' by (rule save_held_other [OF that(1)]) (simp add: that(2) health_pk [OF h])
    moreover have "jobs c' = jobs c" by (simp add: c')
    ultimately show ?thesis using res health_pk [OF h] by (auto simp del: save_node_rows)
  qed
  then show "cluster_ok c'" and "jobs c' = jobs c"
    and "res = Inr y \<Longrightarrow> held c' y \<and> node_pk y = node_pk x"
    and "held c z \<Longrightarrow> node_pk z \<noteq> node_pk x \<Longrightarrow> held c' z"
    by blast+
qed

text \<open>The copies a heartbeat works on.\<close>

definition beat_ok :: "beat \<Rightarrow> bool" where
  "beat_ok = (\<lambda>(mem, c, failure). cluster_ok c \<and> distinct (map node_pk mem) \<and> (\<forall>x \<in> set mem. held c x))"

lemma put_node_pks [simp]: "map node_pk (put_node x xs) = map node_pk xs"
  by (simp add: put_node_def)

lemma put_nodeD: "y \<in> set (put_node x xs) \<Longrightarrow> y = x \<or> y \<in> set xs \<and> node_pk y \<noteq> node_pk x"
  by (auto simp: put_node_def split: if_splits)

lemma put_nodeI: "z \<in> set xs \<Longrightarrow> node_pk z = node_pk x \<Longrightarrow> x \<in> set (put_node x xs)"
  by (force simp: put_node_def)

lemma save_seen_ok:
  assumes "cluster_ok c" and "held c x"
  shows "cluster_ok (save_node st [FLastSeen] old (x\<lparr>last_seen := s\<rparr>) c)"
    and "held (save_node st [FLastSeen] old (x\<lparr>last_seen := s\<rparr>) c) (x\<lparr>last_seen := s\<rparr>)"
proof -
  have row: "row_of (x\<lparr>last_seen := s\<rparr>) (write_fields [FLastSeen] (x\<lparr>last_seen := s\<rparr>) r)" if "row_of x r" for r
    using row_of_fields [OF that] by (simp add: row_of_def core_def)
  have "node_ok (write_fields [FLastSeen] (x\<lparr>last_seen := s\<rparr>) r) \<longleftrightarrow> node_ok r" for r
    by (rule node_ok_core) (simp add: core_def)
  then show "cluster_ok (save_node st [FLastSeen] old (x\<lparr>last_seen := s\<rparr>) c)"
    by (intro save_ok [OF assms]) simp_all
  show "held (save_node st [FLastSeen] old (x\<lparr>last_seen := s\<rparr>) c) (x\<lparr>last_seen := s\<rparr>)"
    by (rule save_held [OF assms(2)]) (simp, rule row)
qed

lemma beat_ok_put:
  assumes "beat_ok (mem, c, f)" and "x \<in> set mem" and "node_pk y = node_pk x" and "cluster_ok c'" and "held c' y"
    and "\<And>z. held c z \<Longrightarrow> node_pk z \<noteq> node_pk x \<Longrightarrow> held c' z"
  shows "beat_ok (put_node y mem, c', f')"
  using assms by (auto simp: beat_ok_def dest!: put_nodeD)

lemma beat_ok_simps:
  "beat_ok (mem, c, Some e) = beat_ok (mem, c, None)" "beat_ok (mem, post m c, f) = beat_ok (mem, c, f)"
  by (simp_all add: beat_ok_def held_def cluster_ok_def)

lemma held_post [simp]: "held (post m c) x = held c x" by (simp add: held_def)

lemma cluster_ok_post [simp]: "cluster_ok (post m c) = cluster_ok c" by (simp add: cluster_ok_def)

text \<open>What an advertisement of a known node does.\<close>

lemma inspect_ad_known:
  assumes "find (\<lambda>x. hostname x = host) mem = Some x" and "kind_of_node x \<notin> {Control, Hybrid}"
    and "case last_seen x of None \<Rightarrow> True | Some t \<Rightarrow> t < seen"
  defines "y \<equiv> x\<lparr>last_seen := Some seen\<rparr>"
  obtains (rejoin) "kind_of_node x = Hop" "node_state x \<in> {Unavailable, Installed}"
      "inspect_ad st now (host, seen) (mem, c, None) =
        (case checked st now False hop_report y (save_node st [FLastSeen] x y c) of
           (Inl e, c2) \<Rightarrow> (put_node y mem, c2, Some e) | (Inr z, c2) \<Rightarrow> (put_node z (put_node y mem), c2, None))"
  | (request) "kind_of_node x \<noteq> Hop"
      "inspect_ad st now (host, seen) (mem, c, None) = (put_node y mem, post (HealthCheck host) (save_node st [FLastSeen] x y c), None)"
  | (noted) "inspect_ad st now (host, seen) (mem, c, None) = (put_node y mem, save_node st [FLastSeen] x y c, None)"
proof -
  have "\<not> (case last_seen x of None \<Rightarrow> False | Some t \<Rightarrow> t \<ge> seen)"
    using assms(3) by (auto split: option.splits)
  then have eq: "inspect_ad st now (host, seen) (mem, c, None) =
     (if kind_of_node y = Hop
      then (if node_state y \<in> set [Unavailable, Installed]
            then (case checked st now False hop_report y (save_node st [FLastSeen] x y c) of
                    (Inl e, c2) \<Rightarrow> (put_node y mem, c2, Some e) | (Inr z, c2) \<Rightarrow> (put_node z (put_node y mem), c2, None))
            else (put_node y mem, save_node st [FLastSeen] x y c, None))
      else if node_state y \<in> set [Unavailable, Installed] \<or> needs_remediation st now y
      then (put_node y mem, post (HealthCheck host) (save_node st [FLastSeen] x y c), None)
      else (put_node y mem, save_node st [FLastSeen] x y c, None))"
    using assms(1,2) unfolding inspect_ad_def y_def by (simp add: Let_def)
  have fields: "kind_of_node y = kind_of_node x" "node_state y = node_state x" by (simp_all add: y_def)
  show ?thesis
  proof (cases "kind_of_node x = Hop")
    case True
    show ?thesis
    proof (cases "node_state x \<in> {Unavailable, Installed}")
      case state: True
      show ?thesis by (rule rejoin [OF True state]) (unfold eq, use True state fields in simp)
    next
      case state: False
      show ?thesis by (rule noted) (unfold eq, use True state fields in simp)
    qed
  next
    case False
    show ?thesis
    proof (cases "node_state y \<in> set [Unavailable, Installed] \<or> needs_remediation st now y")
      case True
      show ?thesis by (rule request [OF False]) (unfold eq fields(1), use True False in simp)
    next
      case ok: False
      show ?thesis by (rule noted) (unfold eq fields(1), use ok False in simp)
    qed
  qed
qed

lemma inspect_ad_ok: "beat_ok b \<Longrightarrow> beat_ok (inspect_ad st now ad b)"
proof -
  assume ok: "beat_ok b"
  obtain mem c f where b: "b = (mem, c, f)" by (cases b)
  obtain host seen where ad: "ad = (host, seen)" by (cases ad)
  show ?thesis
  proof (cases "inspect_ad st now ad b = b")
    case True
    with ok show ?thesis by simp
  next
    case False
    then obtain x where x: "find (\<lambda>x. hostname x = host) mem = Some x" and f: "f = None"
      and k: "kind_of_node x \<notin> {Control, Hybrid}" and late: "case last_seen x of None \<Rightarrow> True | Some t \<Rightarrow> t < seen"
      by (auto simp: inspect_ad_def b ad split: option.splits if_splits)
    then have "x \<in> set mem" using find_SomeD by fastforce
    then have held: "held c x" and cok: "cluster_ok c" using ok by (simp_all add: beat_ok_def b)
    let ?y = "x\<lparr>last_seen := Some seen\<rparr>" and ?c = "save_node st [FLastSeen] x (x\<lparr>last_seen := Some seen\<rparr>) c"
    note seen = save_seen_ok [OF cok held]
    have after: "beat_ok (put_node ?y mem, ?c, None)"
      by (rule beat_ok_put [OF ok [unfolded b] \<open>x \<in> set mem\<close>]) (simp_all add: seen save_held_other del: save_node_rows)
    from x k late show ?thesis
    proof (cases rule: inspect_ad_known [where st = st and now = now and c = c])
      case rejoin
      obtain res c2 where chk: "checked st now False hop_report ?y ?c = (res, c2)"
        by (cases "checked st now False hop_report ?y ?c")
      show ?thesis
      proof (cases res)
        case (Inl e)
        then have "c2 = ?c" using chk by (auto simp: checked_def split: sum.splits)
        with after Inl show ?thesis unfolding b ad f rejoin(3) chk by (simp add: beat_ok_simps)
      next
        case (Inr z)
        note z = checked_ok [OF chk seen]
        have zy: "held c2 z" "node_pk z = node_pk ?y" using z(3) [OF Inr] by simp_all
        have "?y \<in> set (put_node ?y mem)" by (rule put_nodeI [OF \<open>x \<in> set mem\<close>]) simp
        then have "beat_ok (put_node z (put_node ?y mem), c2, None)"
          by (rule beat_ok_put [OF after _ zy(2) z(1) zy(1)]) (rule z(4))
        then show ?thesis using Inr unfolding b ad f rejoin(3) chk by simp
      qed
    next
      case request
      then show ?thesis using after unfolding b ad f by (simp add: beat_ok_simps)
    next
      case noted
      then show ?thesis using after unfolding b ad f by simp
    qed
  qed
qed


lemma cluster_ok_cong [simp]:
  "cluster_ok (c\<lparr>jobs := t\<rparr>) = cluster_ok c" "cluster_ok (c\<lparr>links := ls\<rparr>) = cluster_ok c"
  "held (c\<lparr>jobs := t\<rparr>) x = held c x" "held (c\<lparr>links := ls\<rparr>) x = held c x"
  by (simp_all add: cluster_ok_def held_def)

lemma inspected_start:
  assumes "cluster_ok c"
  shows "beat_ok (filter in_service (nodes c), inspect_established_receptor_connections status c, None)"
  using assms held_row [OF assms]
  by (auto simp: beat_ok_def inspect_established_receptor_connections_def cluster_ok_def distinct_map inj_on_def)

lemma inspect_ok:
  assumes "cluster_ok c"
  shows "beat_ok (inspect_execution_and_hop_nodes st now status (filter in_service (nodes c)) c)"
proof -
  have "beat_ok b \<Longrightarrow> beat_ok (fold (inspect_ad st now) ads b)" for ads b
    by (induction ads arbitrary: b) (simp_all add: inspect_ad_ok)
  then show ?thesis unfolding inspect_execution_and_hop_nodes_def using inspected_start [OF assms] by blast
qed

text \<open>Registration.\<close>

lemma node_ok_same_limits:
  "node_ok r \<Longrightarrow> capacity_adjustment s = capacity_adjustment r \<Longrightarrow> cpu_capacity s = cpu_capacity r \<Longrightarrow>
   mem_capacity s = mem_capacity r \<Longrightarrow> node_capacity s = node_capacity r \<Longrightarrow>
   node_state s = node_state r \<or> node_state s \<notin> {Ready, Unavailable} \<Longrightarrow> node_ok s"
  using adjusted_capacity_cong [of s r] by (auto simp: node_ok_def)

lemma clear_ip_ok:
  assumes "cluster_ok c"
  shows "cluster_ok (clear_ip st ip h c)" and "map node_pk (nodes (clear_ip st ip h c)) = map node_pk (nodes c)"
    and "map hostname (nodes (clear_ip st ip h c)) = map hostname (nodes c)" and "jobs (clear_ip st ip h c) = jobs c"
proof -
  let ?step = "\<lambda>x. save_node st [FIp] x (x\<lparr>ip_address := []\<rparr>)"
  have rows: "map node_pk (nodes (?step x d)) = map node_pk (nodes d)" "map hostname (nodes (?step x d)) = map hostname (nodes d)"
    for x d by (simp_all add: comp_def if_distrib cong: if_cong)
  have ok: "list_all node_ok (nodes (?step x d))" if "list_all node_ok (nodes d)" for x d
    using that by (auto simp: list_all_iff intro: node_ok_same_limits)
  have all: "list_all node_ok (nodes d) \<Longrightarrow> list_all node_ok (nodes (fold ?step xs d)) \<and>
      map node_pk (nodes (fold ?step xs d)) = map node_pk (nodes d) \<and>
      map hostname (nodes (fold ?step xs d)) = map hostname (nodes d) \<and> jobs (fold ?step xs d) = jobs d" for xs d
  proof (induction xs arbitrary: d)
    case (Cons x xs)
    show ?case using Cons.IH [OF ok [OF Cons.prems]] rows by (simp del: save_node_rows(1))
  qed simp
  have "list_all node_ok (nodes c)" using assms by (simp add: cluster_ok_def list_all_iff)
  from all [OF this]
  show "cluster_ok (clear_ip st ip h c)" and "map node_pk (nodes (clear_ip st ip h c)) = map node_pk (nodes c)"
    and "map hostname (nodes (clear_ip st ip h c)) = map hostname (nodes c)" and "jobs (clear_ip st ip h c) = jobs c"
    using assms unfolding clear_ip_def cluster_ok_def by (simp_all add: list_all_iff del: save_node_rows(1))
qed

lemma registered_node_row: "registered_node u h c = Some x \<Longrightarrow> x \<in> set (nodes c)"
proof -
  have "x \<in> set xs" if first: "(case sort_key hostname (filter P xs) of [] \<Rightarrow> None | x # _ \<Rightarrow> Some x) = Some x" for P xs
  proof -
    obtain t where t: "sort_key hostname (filter P xs) = x # t"
      using first by (cases "sort_key hostname (filter P xs)") auto
    have "x \<in> set (sort_key hostname (filter P xs))" unfolding t by simp
    then show ?thesis by simp
  qed
  then show "registered_node u h c = Some x \<Longrightarrow> x \<in> set (nodes c)"
    unfolding registered_node_def Let_def by (auto split: option.splits if_splits)
qed

lemma registered_node_None:
  assumes "registered_node u h c = None" and "x \<in> set (nodes c)"
  shows "hostname x \<noteq> h"
proof -
  have "filter P xs = []" if "(case sort_key hostname (filter P xs) of [] \<Rightarrow> None | x # _ \<Rightarrow> Some x) = None" for P and xs :: "node list"
  proof -
    have "sort_key hostname (filter P xs) = []" using that by (auto split: list.splits)
    then have "set (filter P xs) = {}" by (metis set_sort empty_set)
    then show ?thesis by simp
  qed
  moreover have "list_ex Q xs \<longleftrightarrow> filter Q xs \<noteq> []" for Q and xs :: "node list"
    by (auto simp: list_ex_iff filter_empty_conv)
  ultimately have "filter (\<lambda>x. hostname x = h) (nodes c) = []"
    using assms(1) unfolding registered_node_def Let_def by (auto split: option.splits if_splits)
  then show ?thesis using assms(2) by (auto simp: filter_empty_conv)
qed

lemma register_ok:
  assumes "register st pk u4 uuid host ip kind c = (res, c')" and "cluster_ok c" and "pk \<notin> node_pk ` set (nodes c)"
  shows "cluster_ok c'" and "jobs c' = jobs c" and "res = Inr (b, y) \<Longrightarrow> held c' y"
    and "res = Inr (b, y) \<Longrightarrow> node_state y = Installed \<and> kind_of_node y = kind"
proof -
  define h where "h = (if host = [] then cluster_host_id st else host)"
  define c1 where "c1 = clear_ip st ip h c"
  note c1 = clear_ip_ok [OF assms(2), of st ip h, folded c1_def]
  have "cluster_ok c' \<and> jobs c' = jobs c \<and>
    (res = Inr (b, y) \<longrightarrow> held c' y \<and> node_state y = Installed \<and> kind_of_node y = kind)"
  proof (cases "registered_node uuid h c1")
    case None
    define y0 where "y0 = fresh_node pk (case uuid of Some u \<Rightarrow> u | None \<Rightarrow> u4) h ip kind"
    have y0: "node_pk y0 = pk" "hostname y0 = h" "node_ok y0" "node_state y0 = Installed" "kind_of_node y0 = kind"
      by (simp_all add: y0_def fresh_node_def node_ok_def)
    have "pk \<notin> node_pk ` set (nodes c1)" using assms(3) c1(2) by (metis list.set_map)
    moreover have "h \<notin> hostname ` set (nodes c1)" using registered_node_None [OF None] by auto
    ultimately have "cluster_ok (create_node st y0 c1)" using c1(1) y0 by (simp add: cluster_ok_def)
    moreover have "held (create_node st y0 c1) y0" using row_of_refl [OF y0(3)] by (simp add: held_def)
    ultimately show ?thesis
      using assms(1) None c1 y0 unfolding register_def Let_def h_def [symmetric] c1_def [symmetric] y0_def [symmetric]
      by (auto simp del: create_node_rows(1) split: if_splits)
  next
    case (Some x)
    obtain y0 fs where re: "reregistered h ip kind x = (y0, fs)" by (cases "reregistered h ip kind x")
    then have y0_def: "y0 = x\<lparr>node_state := Installed, hostname := h, ip_address := ip, kind_of_node := kind\<rparr>"
      and fs_def: "fs = [FState] @ (if hostname x \<noteq> h then [FHostname] else []) @
        (if ip_address x \<noteq> ip then [FIp] else []) @ (if kind_of_node x \<noteq> kind then [FType] else [])"
      by (simp_all add: reregistered_def)
    have x: "x \<in> set (nodes c1)" by (rule registered_node_row [OF Some])
    have row: "row_of y0 (write_fields fs y0 r)" if "row_of x r" for r
      using row_of_fields [OF that] by (auto simp: row_of_def core_def y0_def fs_def)
    have ok: "node_ok (write_fields fs y0 r)" if "node_ok r" for r
      by (rule node_ok_same_limits [OF that]) (auto simp: y0_def fs_def)
    have pk: "node_pk y0 = node_pk x" by (simp add: y0_def)
    have "cluster_ok (save_node st fs x y0 c1)"
      if "\<not> list_ex (\<lambda>r. node_pk r \<noteq> node_pk x \<and> (hostname r = h \<or> ip \<noteq> [] \<and> ip_address r = ip)) (nodes c1)"
      by (rule save_ok [OF c1(1) held_row [OF c1(1) x] pk]) (use that ok in \<open>auto simp: list_ex_iff y0_def\<close>)
    moreover have "held (save_node st fs x y0 c1) y0"
      by (rule save_held [OF held_row [OF c1(1) x] pk row])
    moreover have "node_state y0 = Installed \<and> kind_of_node y0 = kind" by (simp add: y0_def)
    moreover have "(res, c') =
        (if list_ex (\<lambda>r. node_pk r \<noteq> node_pk x \<and> (hostname r = h \<or> ip \<noteq> [] \<and> ip_address r = ip)) (nodes c1)
         then (Inl ''IntegrityError'', c1) else (Inr (True, y0), save_node st fs x y0 c1))"
      using assms(1) Some re unfolding register_def Let_def h_def [symmetric] c1_def [symmetric] by simp
    ultimately show ?thesis
      using c1 by (auto simp del: save_node_rows(1) split: if_splits)
  qed
  then show "cluster_ok c'" and "jobs c' = jobs c" and "res = Inr (b, y) \<Longrightarrow> held c' y"
    and "res = Inr (b, y) \<Longrightarrow> node_state y = Installed \<and> kind_of_node y = kind"
    by simp_all
qed


text \<open>Taking a node offline.\<close>

lemma offline_saved:
  assumes "mark_offline now upd e x = (y, fs)" and "fs \<noteq> []" and "cluster_ok c"
  shows "cluster_ok (save_node st fs old y c)" and "held c x \<Longrightarrow> held (save_node st fs old y c) y"
    and "node_state y = Unavailable" and "node_pk y = node_pk x" and "hostname y = hostname x"
proof -
  have y: "node_state x \<in> {Ready, Unavailable, Installed}"
      "y = x\<lparr>node_state := Unavailable, cpu_capacity := 0, mem_capacity := 0, node_capacity := 0, node_errors := e,
             last_seen := (if upd then Some now else last_seen x)\<rparr>"
      "set fs = {FState, FCapacity, FCpuCapacity, FMemCapacity, FErrors} \<union> (if upd then {FLastSeen} else {})"
    using assms(1) by (cases rule: mark_offline_cases; use assms(2) in simp)+
  show pk: "node_pk y = node_pk x" and "node_state y = Unavailable" and "hostname y = hostname x" by (simp_all add: y(2))
  have row: "row_of y (write_fields fs y r)" if "row_of x r" for r
    using row_of_fields [OF that] by (simp add: row_of_def core_def y(2,3))
  have "node_ok (write_fields fs y r)" if "r \<in> set (nodes c)" for r
    using assms(3) that unfolding cluster_ok_def node_ok_def by (simp add: y(2,3))
  then show "cluster_ok (save_node st fs old y c)"
    by (intro save_rows_ok [OF assms(3)]) (simp_all add: y(3) split: if_splits)
  show "held (save_node st fs old y c) y" if "held c x" by (rule save_held [OF that pk row])
qed

lemma delete_held: "held c z \<Longrightarrow> node_pk z \<noteq> pk \<Longrightarrow> held (delete_node pk c) z"
  unfolding held_def using row_of_fields(1) by fastforce

lemma retire_ok:
  assumes "cluster_ok c"
  shows "cluster_ok (retire st now x c)" and "jobs (retire st now x c) = jobs c"
    and "held c z \<Longrightarrow> node_pk z \<noteq> node_pk x \<Longrightarrow> held (retire st now x c) z"
proof -
  obtain y fs where off: "mark_offline now False ''Another cluster node has determined this instance to be unresponsive'' x = (y, fs)"
    by (cases "mark_offline now False ''Another cluster node has determined this instance to be unresponsive'' x")
  have del: "cluster_ok (delete_node pk c)" for pk
    using assms by (auto simp: cluster_ok_def distinct_map inj_on_def)
  have "cluster_ok (retire st now x c) \<and> jobs (retire st now x c) = jobs c \<and>
      (held c z \<longrightarrow> node_pk z \<noteq> node_pk x \<longrightarrow> held (retire st now x c) z)" for z
  proof (cases "fs = []")
    case True
    then show ?thesis
      using assms del off delete_held [of c z "node_pk x"] by (simp add: retire_def)
  next
    case False
    note saved = offline_saved [OF off False assms]
    show ?thesis
      using assms del off False saved(1) save_held_other [of c z y st fs x] saved(4) delete_held [of c z "node_pk x"]
      by (simp add: retire_def del: save_node_rows(1))
  qed
  then show "cluster_ok (retire st now x c)" and "jobs (retire st now x c) = jobs c"
    and "held c z \<Longrightarrow> node_pk z \<noteq> node_pk x \<Longrightarrow> held (retire st now x c) z"
    by blast+
qed

lemma handle_lost_ok:
  assumes "cluster_ok c"
  shows "cluster_ok (fold (handle_lost st w) lost c)"
    and "held c z \<Longrightarrow> node_pk z \<notin> node_pk ` set lost \<Longrightarrow> held (fold (handle_lost st w) lost c) z"
    and "jobs (fold (handle_lost st w) lost c) = fold (\<lambda>x. fail_jobs_of st (reap_time w) (hostname x)) lost (jobs c)"
proof -
  have "cluster_ok (fold (handle_lost st w) lost c) \<and>
    (held c z \<longrightarrow> node_pk z \<notin> node_pk ` set lost \<longrightarrow> held (fold (handle_lost st w) lost c) z) \<and>
    jobs (fold (handle_lost st w) lost c) = fold (\<lambda>x. fail_jobs_of st (reap_time w) (hostname x)) lost (jobs c)" for z
    using assms
  proof (induction lost arbitrary: c)
    case (Cons x lost)
    let ?c = "handle_lost st w x c"
    have x: "cluster_ok (c\<lparr>jobs := t\<rparr>)" for t using Cons.prems by simp
    have one: "cluster_ok ?c" "jobs ?c = fail_jobs_of st (reap_time w) (hostname x) (jobs c)"
      unfolding handle_lost_def by (simp_all add: retire_ok(1,2) [OF x])
    have keep: "held ?c z" if "held c z" "node_pk z \<noteq> node_pk x" for z
      unfolding handle_lost_def by (rule retire_ok(3) [OF x]) (use that in simp_all)
    from Cons.IH [OF one(1)] show ?case using keep [of z] by (auto simp: one(2))
  qed simp
  then show "cluster_ok (fold (handle_lost st w) lost c)"
    and "held c z \<Longrightarrow> node_pk z \<notin> node_pk ` set lost \<Longrightarrow> held (fold (handle_lost st w) lost c) z"
    and "jobs (fold (handle_lost st w) lost c) = fold (\<lambda>x. fail_jobs_of st (reap_time w) (hostname x)) lost (jobs c)"
    by blast+
qed

lemma beat_rest_ok: "cluster_ok c \<Longrightarrow> cluster_ok (snd (beat_rest newer st w this present lost c))"
  using handle_lost_ok(1) [of c] by (simp add: beat_rest_def Let_def split: option.split prod.split)

text \<open>No key of a node changes while the mesh is inspected.\<close>

lemma inspect_pks:
  assumes "inspect_execution_and_hop_nodes st now status mem c = (mem', c', f)"
  shows "map node_pk (nodes c') = map node_pk (nodes c)" and "map node_pk mem' = map node_pk mem" and "jobs c' = jobs c"
proof -
  let ?keys = "\<lambda>(mem, c, f). (map node_pk mem, map node_pk (nodes c), jobs c)"
  have save: "map node_pk (nodes (save_node st fs old x e)) = map node_pk (nodes e)" for fs old x e by simp
  have chk: "map node_pk (nodes d) = map node_pk (nodes e) \<and> jobs d = jobs e"
    if "checked st now u r x e = (res, d)" for u r x e res d
    using that by (auto simp: checked_def save simp del: save_node_rows(1) split: sum.splits)
  have "?keys (inspect_ad st now ad b) = ?keys b" for ad and b :: beat
    by (auto simp: inspect_ad_def Let_def save simp del: save_node_rows(1) dest!: chk
        split: prod.splits option.splits sum.splits)
  then have "?keys (fold (inspect_ad st now) ads b) = ?keys b" for ads and b :: beat
    by (induction ads arbitrary: b) simp_all
  from this [of "advertisements status" "(mem, inspect_established_receptor_connections status c, None)"]
  show "map node_pk (nodes c') = map node_pk (nodes c)" and "map node_pk mem' = map node_pk mem" and "jobs c' = jobs c"
    using assms unfolding inspect_execution_and_hop_nodes_def
    by (simp_all add: inspect_established_receptor_connections_def)
qed


text \<open>Every way in which a heartbeat ends keeps the invariant.\<close>

lemma local_check_ok:
  assumes "local_health_check st r x c = (res, c')" and "cluster_ok c" and "held c x"
  shows "cluster_ok c'"
  using checked_ok(1) [OF assms(1) [unfolded local_health_check_def] assms(2,3)] .

lemma heartbeat_ok:
  assumes "cluster_ok c" and "new_pk w \<notin> node_pk ` set (nodes c)"
  shows "cluster_ok (snd (cluster_node_heartbeat newer st w c))"
proof (cases "mesh w")
  case None
  then show ?thesis using assms(1) by (simp add: cluster_node_heartbeat_def)
next
  case (Some status)
  define listed where "listed = filter in_service (nodes c)"
  define here where "here = find (\<lambda>x. hostname x = cluster_host_id st) listed"
  obtain mem c1 f where i: "inspect_execution_and_hop_nodes st (inspect_time w) status listed c = (mem, c1, f)"
    by (cases "inspect_execution_and_hop_nodes st (inspect_time w) status listed c")
  have ok: "cluster_ok c1" "\<And>x. x \<in> set mem \<Longrightarrow> held c1 x"
    using inspect_ok [OF assms(1), of st "inspect_time w" status] i by (simp_all add: listed_def beat_ok_def)
  note pks = inspect_pks [OF i]
  note unfold = cluster_node_heartbeat_def Let_def Some listed_def [symmetric] here_def [symmetric] i option.case prod.case
  show ?thesis
  proof (cases f)
    case (Some e)
    then show ?thesis unfolding unfold using ok(1) by simp
  next
    case f: None
    show ?thesis
    proof (cases here)
      case None
      show ?thesis
      proof (cases "auto_deprovision st")
        case True
        obtain res c2 where reg: "register st (new_pk w) [] (Some (system_uuid st)) [] (pod_ip w) Control c1 = (res, c2)"
          by (cases "register st (new_pk w) [] (Some (system_uuid st)) [] (pod_ip w) Control c1")
        have fresh: "new_pk w \<notin> node_pk ` set (nodes c1)" using assms(2) pks(1) by (metis list.set_map)
        note r = register_ok [OF reg ok(1) fresh]
        show ?thesis
        proof (cases res)
          case (Inl e)
          then show ?thesis unfolding unfold f None reg using True r(1) by simp
        next
          case (Inr bx)
          obtain b x where bx: "bx = (b, x)" by (cases bx)
          obtain res3 c3 where chk: "local_health_check st (local_readings w) x c2 = (res3, c3)"
            by (cases "local_health_check st (local_readings w) x c2")
          have "cluster_ok c3" using local_check_ok [OF chk r(1)] r(3) Inr bx by simp
          then show ?thesis unfolding unfold f None reg Inr bx
            using True beat_rest_ok by (simp add: chk split: sum.split)
        qed
      next
        case False
        then show ?thesis unfolding unfold f None using ok(1) by simp
      qed
    next
      case (Some h)
      define this where "this = (case find (\<lambda>x. node_pk x = node_pk h) mem of Some x \<Rightarrow> x | None \<Rightarrow> h)"
      have "h \<in> set listed" using Some find_SomeD unfolding here_def by fastforce
      then have "node_pk h \<in> node_pk ` set mem" using pks(2) by (metis imageI list.set_map)
      then have "find (\<lambda>x. node_pk x = node_pk h) mem \<noteq> None" by (auto simp: find_None_iff)
      then have "this \<in> set mem" unfolding this_def using find_SomeD by fastforce
      obtain res c2 where chk: "local_health_check st (local_readings w) this c1 = (res, c2)"
        by (cases "local_health_check st (local_readings w) this c1")
      have "cluster_ok c2" by (rule local_check_ok [OF chk ok(1) ok(2) [OF \<open>this \<in> set mem\<close>]])
      then show ?thesis unfolding unfold f Some this_def [symmetric] chk
        using beat_rest_ok by (simp split: sum.split)
    qed
  qed
qed

lemma health_tasks_ok:
  assumes "cluster_ok c"
  shows "cluster_ok (snd (cluster_node_health_check st r host c))"
    and "cluster_ok (snd (execution_node_health_check st now w host c))"
    and "cluster_ok (snd (request_health_check st now pk c))"
    and "cluster_ok (inform_cluster_of_shutdown st now t c)"
    and "cluster_ok (snd (disable_instance st sel c))"
proof -
  have found: "held c x" "x \<in> set (nodes c)" if "find P (nodes c) = Some x" for P x
    using held_row [OF assms] find_SomeD [OF that] by simp_all
  have chk: "cluster_ok d" if "checked st now' u rep x c = (res, d)" "find P (nodes c) = Some x" for now' u rep x res d P
    by (rule checked_ok(1) [OF that(1) assms found(1) [OF that(2)]])
  show "cluster_ok (snd (cluster_node_health_check st r host c))"
    using assms by (auto simp: cluster_node_health_check_def local_health_check_def dest: chk split: option.split prod.split sum.split)
  show "cluster_ok (snd (execution_node_health_check st now w host c))"
    using assms by (auto simp: execution_node_health_check_def dest: chk split: option.split prod.split sum.split)
  show "cluster_ok (snd (request_health_check st now pk c))"
  proof (cases "find (\<lambda>x. node_pk x = pk \<and> kind_of_node x = Execution) (nodes c)")
    case (Some x)
    have "node_ok (write_fields [FCheckStarted] (x\<lparr>health_check_started := Some now\<rparr>) r)" if "r \<in> set (nodes c)" for r
      using assms that by (auto simp: cluster_ok_def intro: node_ok_same_limits)
    then have "cluster_ok (save_node st [FCheckStarted] x (x\<lparr>health_check_started := Some now\<rparr>) c)"
      by (intro save_rows_ok [OF assms]) simp_all
    then show ?thesis using Some assms by (simp add: request_health_check_def del: save_node_rows)
  qed (simp add: request_health_check_def assms)
  show "cluster_ok (inform_cluster_of_shutdown st now t c)"
  proof (cases "find (\<lambda>x. hostname x = cluster_host_id st) (nodes c)")
    case (Some x)
    obtain y fs where off: "mark_offline now True ''Instance received normal shutdown signal'' x = (y, fs)"
      by (cases "mark_offline now True ''Instance received normal shutdown signal'' x")
    have "cluster_ok (if fs = [] then c else save_node st fs x y c)"
      using assms offline_saved(1) [OF off _ assms, of st x] by simp
    then show ?thesis using Some off
      by (simp add: inform_cluster_of_shutdown_def Let_def del: save_node_rows split: if_splits)
  qed (simp add: inform_cluster_of_shutdown_def assms)
  show "cluster_ok (snd (disable_instance st sel c))"
  proof (cases "find sel (nodes c)")
    case (Some x)
    have "node_ok (write_fields all_fields (x\<lparr>node_enabled := False\<rparr>) r)" if "node_pk r = node_pk x" for r
    proof (rule node_ok_same_limits [of x])
      show "node_ok x" using assms found(2) [OF Some] by (simp add: cluster_ok_def)
      then show "node_capacity (write_fields all_fields (x\<lparr>node_enabled := False\<rparr>) r) = node_capacity x"
        by (simp add: all_fields_def node_ok_def)
    qed (simp_all add: all_fields_def)
    moreover have "hostname r \<noteq> hostname x" if "r \<in> set (nodes c)" "node_pk r \<noteq> node_pk x" for r
      using hostname_unique [OF assms that(1) found(2) [OF Some]] that(2) by blast
    ultimately have "cluster_ok (save_node st all_fields x (x\<lparr>node_enabled := False\<rparr>) c)"
      by (intro save_rows_ok [OF assms]) (simp_all add: all_fields_def)
    then show ?thesis using Some assms by (simp add: disable_instance_def del: save_node_rows)
  qed (simp add: disable_instance_def assms)
qed


subsection \<open>Whom the cluster has heard of\<close>

text \<open>
  The last sign of life of a node at a heartbeat: control nodes report themselves, the others
  advertise on the mesh, and the latest time counts.
\<close>

definition hear :: "string \<Rightarrow> string \<times> int \<Rightarrow> int option \<Rightarrow> int option" where
  "hear h = (\<lambda>(host, t) s. if host = h then (case s of None \<Rightarrow> Some t | Some u \<Rightarrow> Some (max u t)) else s)"

definition heard :: "(string \<times> int) list \<Rightarrow> node \<Rightarrow> int option" where
  "heard ads x = (if kind_of_node x \<in> {Control, Hybrid} then last_seen x else fold (hear (hostname x)) ads (last_seen x))"

definition inspected :: "(string \<times> int) list \<Rightarrow> node \<Rightarrow> node \<Rightarrow> bool" where
  "inspected ads x y \<longleftrightarrow> fst (core y) = fst (core x) \<and> last_seen y = heard ads x \<and>
     (node_state y = node_state x \<or> kind_of_node x = Hop \<and> node_state y = Ready)"

lemma inspected_refl: "inspected [] x x"
  by (simp add: inspected_def heard_def)

lemma inspected_trans: "inspected [ad] x y \<Longrightarrow> inspected ads y z \<Longrightarrow> inspected (ad # ads) x z"
  by (auto simp: inspected_def heard_def core_def)

lemma inspected_other: "fst ad \<noteq> hostname x \<or> kind_of_node x \<in> {Control, Hybrid} \<Longrightarrow> inspected [ad] x x"
  by (cases ad) (auto simp: inspected_def heard_def hear_def)

lemma put_node_all2:
  assumes "\<And>x. x \<in> set mem \<Longrightarrow> node_pk x \<noteq> node_pk y \<Longrightarrow> R x x" and "\<And>x. x \<in> set mem \<Longrightarrow> node_pk x = node_pk y \<Longrightarrow> R x y"
  shows "list_all2 R mem (put_node y mem)"
  using assms by (auto simp: put_node_def list_all2_conv_all_nth)

lemma inspect_ad_mem:
  assumes "inspect_ad st now ad (mem, c, None) = (mem', c', None)" and "beat_ok (mem, c, None)"
  shows "list_all2 (inspected [ad]) mem mem'"
proof -
  obtain host seen where ad: "ad = (host, seen)" by (cases ad)
  have unique: "x = y" if xy: "x \<in> set mem" "y \<in> set mem" "hostname x = hostname y \<or> node_pk x = node_pk y" for x y
  proof -
    have ok: "cluster_ok c" using assms(2) by (simp add: beat_ok_def)
    have held: "held c x" "held c y" using xy(1,2) assms(2) by (simp_all add: beat_ok_def)
    obtain r where r: "r \<in> set (nodes c)" "node_pk r = node_pk x" "hostname r = hostname x" using heldE [OF held(1)] .
    obtain s where s: "s \<in> set (nodes c)" "node_pk s = node_pk y" "hostname s = hostname y" using heldE [OF held(2)] .
    have "r = s" using xy(3) pk_unique [OF ok r(1) s(1)] hostname_unique [OF ok r(1) s(1)] r s by auto
    then have "node_pk x = node_pk y" using r s by simp
    then show ?thesis using xy(1,2) assms(2) by (auto simp: beat_ok_def distinct_map dest: inj_onD)
  qed
  show ?thesis
  proof (cases "\<exists>x. find (\<lambda>x. hostname x = host) mem = Some x \<and> kind_of_node x \<notin> {Control, Hybrid} \<and>
      (case last_seen x of None \<Rightarrow> True | Some t \<Rightarrow> t < seen)")
    case True
    then obtain x where x: "find (\<lambda>x. hostname x = host) mem = Some x" and k: "kind_of_node x \<notin> {Control, Hybrid}"
      and late: "case last_seen x of None \<Rightarrow> True | Some t \<Rightarrow> t < seen" by blast
    have xm: "x \<in> set mem" "hostname x = host" using find_SomeD [OF x] by simp_all
    let ?y = "x\<lparr>last_seen := Some seen\<rparr>"
    have heard: "heard [ad] x = Some seen" using k late xm(2) by (auto simp: heard_def hear_def ad split: option.splits)
    have others: "inspected [ad] z z" if "z \<in> set mem" "node_pk z \<noteq> node_pk x" for z
    proof -
      have "hostname z \<noteq> hostname x" using unique [OF that(1) xm(1)] that(2) by blast
      then show ?thesis by (intro inspected_other) (simp add: ad xm(2))
    qed
    have put: "list_all2 (inspected [ad]) mem (put_node z mem)" if z: "inspected [ad] x z" for z
    proof (rule put_node_all2)
      have pk: "node_pk z = node_pk x" using z by (simp add: inspected_def core_def)
      show "inspected [ad] y y" if "y \<in> set mem" "node_pk y \<noteq> node_pk z" for y
        by (rule others [OF that(1)]) (use that(2) pk in simp)
      show "inspected [ad] y z" if "y \<in> set mem" "node_pk y = node_pk z" for y
        using unique [OF that(1) xm(1)] that(2) pk z by simp
    qed
    have y: "inspected [ad] x ?y" using heard by (simp add: inspected_def core_def)
    from x k late show ?thesis
    proof (cases rule: inspect_ad_known [where st = st and now = now and c = c])
      case rejoin
      obtain res c2 where chk: "checked st now False hop_report ?y (save_node st [FLastSeen] x ?y c) = (res, c2)"
        by (cases "checked st now False hop_report ?y (save_node st [FLastSeen] x ?y c)")
      have "(case res of Inl e \<Rightarrow> (put_node ?y mem, c2, Some e) | Inr z \<Rightarrow> (put_node z (put_node ?y mem), c2, None)) = (mem', c', None)"
        using assms(1) rejoin(3) chk by (simp add: ad)
      then obtain z where z: "res = Inr z" "mem' = put_node z (put_node ?y mem)" by (cases res) auto
      obtain fs where h: "save_health_data now (capacities st) False hop_report ?y = Inr (z, fs)"
        using chk z(1) by (auto simp: checked_def split: sum.splits)
      have zy: "fst (core z) = fst (core x)" "last_seen z = Some seen" "node_state z = Ready"
        using health_identity [OF h] health_seen [OF h] health_state [OF h] rejoin(2)
        by (auto simp: hop_report_def core_def)
      have "put_node z (put_node ?y mem) = put_node z mem" using zy(1) by (auto simp: put_node_def core_def)
      moreover have "inspected [ad] x z" using zy heard rejoin(1) by (simp add: inspected_def)
      ultimately show ?thesis using put z(2) by simp
    next
      case request
      then show ?thesis using put [OF y] assms(1) ad by simp
    next
      case noted
      then show ?thesis using put [OF y] assms(1) ad by simp
    qed
  next
    case False
    then have "mem' = mem" using assms(1)
      by (auto simp: inspect_ad_def ad not_le split: option.splits if_splits)
    moreover have "inspected [ad] x x" if "x \<in> set mem" for x
    proof (cases "hostname x = host \<and> kind_of_node x \<notin> {Control, Hybrid}")
      case True
      have "find (\<lambda>x. hostname x = host) mem = Some x"
      proof (cases "find (\<lambda>x. hostname x = host) mem")
        case None
        then show ?thesis using True that by (auto simp: find_None_iff)
      next
        case (Some y)
        then show ?thesis using unique [OF that, of y] find_SomeD [OF Some] True by simp
      qed
      then obtain t where "last_seen x = Some t" "seen \<le> t" using False True by (auto split: option.splits)
      then show ?thesis by (auto simp: inspected_def heard_def hear_def ad)
    next
      case other: False
      then show ?thesis by (intro inspected_other) (auto simp: ad)
    qed
    ultimately show ?thesis by (simp add: list_all2_same)
  qed
qed


lemma inspect_mem:
  assumes "cluster_ok c" and "inspect_execution_and_hop_nodes st now status (filter in_service (nodes c)) c = (mem', c', None)"
  shows "list_all2 (inspected (advertisements status)) (filter in_service (nodes c)) mem'"
proof -
  have failed: "fold (inspect_ad st now) ads (mem, d, Some e) = (mem, d, Some e)" for ads mem d e
  proof -
    have "inspect_ad st now ad (mem, d, Some e) = (mem, d, Some e)" for ad
      by (cases ad) (simp add: inspect_ad_def)
    then show ?thesis by (induction ads) simp_all
  qed
  have "beat_ok (mem, d, None) \<Longrightarrow> fold (inspect_ad st now) ads (mem, d, None) = (mem2, d2, None) \<Longrightarrow>
      list_all2 (inspected ads) mem mem2" for ads mem d mem2 d2
  proof (induction ads arbitrary: mem d)
    case Nil
    then show ?case by (simp add: inspected_refl list_all2_same)
  next
    case (Cons ad ads)
    obtain mem1 d1 f where one: "inspect_ad st now ad (mem, d, None) = (mem1, d1, f)"
      by (cases "inspect_ad st now ad (mem, d, None)")
    have f: "f = None" using Cons.prems(2) failed one by (cases f) auto
    have "beat_ok (mem1, d1, None)" using inspect_ad_ok [OF Cons.prems(1), of st now ad] one f by simp
    moreover have "fold (inspect_ad st now) ads (mem1, d1, None) = (mem2, d2, None)"
      using Cons.prems(2) one f by simp
    ultimately have "list_all2 (inspected ads) mem1 mem2" by (rule Cons.IH)
    with inspect_ad_mem [OF one [unfolded f] Cons.prems(1)] show ?case
      by (rule list_all2_trans [rotated]) (rule inspected_trans)
  qed
  moreover have "beat_ok (filter in_service (nodes c), inspect_established_receptor_connections status c, None)"
    by (rule inspected_start [OF assms(1)])
  ultimately show ?thesis using assms(2) unfolding inspect_execution_and_hop_nodes_def by blast
qed

subsection \<open>What becomes of lost nodes and their jobs\<close>

text \<open>Only active jobs on the hosts \<open>hs\<close> are changed, and they fail.\<close>

definition swept_row :: "string set \<Rightarrow> job_row \<Rightarrow> job_row \<Rightarrow> bool" where
  "swept_row hs r s \<longleftrightarrow> s = r \<or> job_status r \<in> {Running, Waiting} \<and>
     (job_execution r \<in> hs \<or> job_controller r \<in> hs) \<and> (\<exists>e. s = reaped_row Failed e r)"

definition swept :: "string set \<Rightarrow> job_table \<Rightarrow> job_table \<Rightarrow> bool" where
  "swept hs t t' \<longleftrightarrow> list_all2 (swept_row hs) (rows t) (rows t')"

lemma swept_refl: "swept hs t t"
  by (simp add: swept_def swept_row_def list_all2_same)

lemma swept_mono: "swept hs t t' \<Longrightarrow> hs \<subseteq> hs' \<Longrightarrow> swept hs' t t'"
  unfolding swept_def by (erule list_all2_mono) (auto simp: swept_row_def)

lemma swept_trans:
  assumes "swept hs t t1" and "swept hs t1 t2"
  shows "swept hs t t2"
proof -
  have row: "swept_row hs a b \<Longrightarrow> swept_row hs b c \<Longrightarrow> swept_row hs a c" for a b c by (auto simp: swept_row_def)
  from assms show ?thesis unfolding swept_def by (rule list_all2_trans [rotated]) (rule row)
qed

lemma swept_keeps:
  assumes "swept hs t t'" and "r \<in> set (rows t)" and "job_execution r \<notin> hs" and "job_controller r \<notin> hs"
  shows "r \<in> set (rows t')"
  using assms unfolding swept_def by (auto simp: swept_row_def list_all2_conv_all_nth in_set_conv_nth)

lemma swept_from:
  assumes "swept hs t t'" and "s \<in> set (rows t')"
  obtains r where "r \<in> set (rows t)" and "s = r \<or> job_status s = Failed"
proof -
  obtain i where i: "i < length (rows t')" "s = rows t' ! i" using assms(2) by (auto simp: in_set_conv_nth)
  have "length (rows t) = length (rows t')" using assms(1) by (simp add: swept_def list_all2_lengthD)
  then have "rows t ! i \<in> set (rows t)" using i(1) by simp
  moreover have "s = rows t ! i \<or> job_status s = Failed"
    using assms(1) i by (auto simp: swept_def swept_row_def list_all2_conv_all_nth)
  ultimately show ?thesis by (rule that)
qed

lemma swept_unique:
  assumes "swept hs t t'" and "unique_rows t"
  shows "unique_rows t'"
proof -
  have "list_all2 (\<lambda>r s. job_pk s = job_pk r) (rows t) (rows t')"
    using assms(1) unfolding swept_def by (rule list_all2_mono) (auto simp: swept_row_def)
  then have "map job_pk (rows t') = map job_pk (rows t)"
    by (intro nth_equalityI) (auto simp: list_all2_conv_all_nth)
  with assms(2) show ?thesis by (simp add: unique_rows_def)
qed

lemma reap_swept: "unique_rows t \<Longrightarrow> swept {h} t (reap h Failed e excluded at_time t)"
  by (simp add: swept_def reap_rows list_all2_map2 list_all2_same) (auto simp: swept_row_def running_selected_def)

lemma reap_waiting_swept: "unique_rows t \<Longrightarrow> swept {h} t (reap_waiting g m h Failed e grace excluded at_time t)"
  by (simp add: swept_def reap_waiting_def reap_all_rows list_all2_map2 list_all2_same Let_def) (auto simp: swept_row_def waiting_selected_def)

definition runs_on :: "string \<Rightarrow> job_row \<Rightarrow> bool" where
  "runs_on h r \<longleftrightarrow> job_status r = Running \<and> job_kind r \<noteq> WorkflowJob \<and> (job_execution r = h \<or> job_controller r = h)"

lemma fail_jobs_swept:
  assumes "unique_rows t"
  shows "swept {h} t (fail_jobs_of st clock h t)" and "s \<in> set (rows (fail_jobs_of st clock h t)) \<Longrightarrow> \<not> runs_on h s"
proof -
  let ?t = "reap h Failed (Some shutdown_explanation) [] None t"
  have one: "swept {h} t ?t" by (rule reap_swept [OF assms])
  have two: "swept {h} ?t (fail_jobs_of st clock h t)"
    unfolding fail_jobs_of_def by (rule reap_waiting_swept [OF swept_unique [OF one assms]])
  show "swept {h} t (fail_jobs_of st clock h t)" by (rule swept_trans [OF one two])
  assume s: "s \<in> set (rows (fail_jobs_of st clock h t))"
  obtain r where r: "r \<in> set (rows ?t)" "s = r \<or> job_status s = Failed" by (rule swept_from [OF two s])
  have "\<not> runs_on h r" using r(1) reap_rows [OF assms, of Failed h "Some shutdown_explanation" "[]" None]
    by (auto simp: runs_on_def running_selected_def)
  with r(2) show "\<not> runs_on h s" by (auto simp: runs_on_def)
qed

lemma fail_jobs_all:
  assumes "unique_rows t"
  shows "swept (hostname ` set lost) t (fold (\<lambda>x. fail_jobs_of st clock (hostname x)) lost t)"
    and "x \<in> set lost \<Longrightarrow> s \<in> set (rows (fold (\<lambda>x. fail_jobs_of st clock (hostname x)) lost t)) \<Longrightarrow> \<not> runs_on (hostname x) s"
proof -
  have "swept (hostname ` set lost) t (fold (\<lambda>x. fail_jobs_of st clock (hostname x)) lost t) \<and>
    (\<forall>x \<in> set lost. \<forall>s \<in> set (rows (fold (\<lambda>x. fail_jobs_of st clock (hostname x)) lost t)). \<not> runs_on (hostname x) s)"
    using assms
  proof (induction lost arbitrary: t)
    case Nil
    then show ?case by (simp add: swept_refl)
  next
    case (Cons x lost)
    let ?t = "fail_jobs_of st clock (hostname x) t"
    note one = fail_jobs_swept [OF Cons.prems, where h = "hostname x" and st = st and clock = clock]
    from Cons.IH [OF swept_unique [OF one(1) Cons.prems]]
    have rest: "swept (hostname ` set lost) ?t (fold (\<lambda>x. fail_jobs_of st clock (hostname x)) lost ?t)"
      and none: "\<forall>x \<in> set lost. \<forall>s \<in> set (rows (fold (\<lambda>x. fail_jobs_of st clock (hostname x)) lost ?t)). \<not> runs_on (hostname x) s"
      by blast+
    have "swept (hostname ` set (x # lost)) t (fold (\<lambda>x. fail_jobs_of st clock (hostname x)) lost ?t)"
      by (rule swept_trans [OF swept_mono [OF one(1)] swept_mono [OF rest]]) auto
    moreover have "\<not> runs_on (hostname x) s" if s: "s \<in> set (rows (fold (\<lambda>x. fail_jobs_of st clock (hostname x)) lost ?t))" for s
    proof -
      obtain r where "r \<in> set (rows ?t)" "s = r \<or> job_status s = Failed" by (rule swept_from [OF rest s])
      then show ?thesis using one(2) by (auto simp: runs_on_def)
    qed
    ultimately show ?case using none by simp
  qed
  then show "swept (hostname ` set lost) t (fold (\<lambda>x. fail_jobs_of st clock (hostname x)) lost t)"
    and "x \<in> set lost \<Longrightarrow> s \<in> set (rows (fold (\<lambda>x. fail_jobs_of st clock (hostname x)) lost t)) \<Longrightarrow> \<not> runs_on (hostname x) s"
    by blast+
qed


text \<open>A lost node, after all lost nodes have been handled.\<close>

definition gone_or_off :: "cluster_settings \<Rightarrow> node \<Rightarrow> cluster \<Rightarrow> bool" where
  "gone_or_off st x c \<longleftrightarrow>
     (if auto_deprovision st \<and> kind_of_node x = Control then node_pk x \<notin> node_pk ` set (nodes c)
      else \<exists>y. held c y \<and> node_pk y = node_pk x \<and> node_state y \<noteq> Ready)"

lemma retire_lost: "cluster_ok c \<Longrightarrow> held c x \<Longrightarrow> gone_or_off st x (retire st now x c)"
proof -
  assume ok: "cluster_ok c" and x: "held c x"
  obtain y fs where off: "mark_offline now False ''Another cluster node has determined this instance to be unresponsive'' x = (y, fs)"
    by (cases "mark_offline now False ''Another cluster node has determined this instance to be unresponsive'' x")
  have fs: "fs \<noteq> []" if "node_state x = Ready" using off that by (auto simp: mark_offline_def Let_def)
  show "gone_or_off st x (retire st now x c)"
  proof (cases "node_state x = Ready")
    case True
    note saved = offline_saved [OF off fs [OF True] ok]
    show ?thesis unfolding gone_or_off_def retire_def using True off fs saved x
      by (auto simp del: save_node_rows(1) intro!: exI [of _ y])
  next
    case False
    then show ?thesis unfolding gone_or_off_def retire_def using x by auto
  qed
qed

lemma handle_lost_pks: "node_pk ` set (nodes (fold (handle_lost st w) lost c)) \<subseteq> node_pk ` set (nodes c)"
proof (induction lost arbitrary: c)
  case (Cons x lost)
  have save: "node_pk ` set (nodes (save_node st fs old y e)) = node_pk ` set (nodes e)" for fs old y e
  proof -
    have "map node_pk (nodes (save_node st fs old y e)) = map node_pk (nodes e)" by simp
    then show ?thesis by (metis list.set_map)
  qed
  have "node_pk ` set (nodes (handle_lost st w x c)) \<subseteq> node_pk ` set (nodes c)"
    using save by (auto simp: handle_lost_def retire_def simp del: save_node_rows(1) split: prod.split)
  with Cons.IH [of "handle_lost st w x c"] show ?case by simp
qed simp

lemma handle_lost_each:
  assumes "cluster_ok c" and "\<forall>x \<in> set lost. held c x" and "distinct (map node_pk lost)" and "x \<in> set lost"
  shows "gone_or_off st x (fold (handle_lost st w) lost c)"
  using assms
proof (induction lost arbitrary: c)
  case (Cons y lost)
  have prem: "cluster_ok (c\<lparr>jobs := t\<rparr>)" "held (c\<lparr>jobs := t\<rparr>) y" for t using Cons.prems by simp_all
  let ?c = "handle_lost st w y c"
  have ok: "cluster_ok ?c" unfolding handle_lost_def by (rule retire_ok(1) [OF prem(1)])
  have keep: "held ?c z" if "held c z" "node_pk z \<noteq> node_pk y" for z
    unfolding handle_lost_def by (rule retire_ok(3) [OF prem(1)]) (use that in simp_all)
  show ?case
  proof (cases "x = y")
    case True
    have first: "gone_or_off st y ?c" unfolding handle_lost_def by (rule retire_lost [OF prem])
    have "node_pk y \<notin> node_pk ` set lost" using Cons.prems(3) by simp
    then have stays: "held (fold (handle_lost st w) lost ?c) z" if "held ?c z" "node_pk z = node_pk y" for z
      using handle_lost_ok(2) [OF ok that(1)] that(2) by simp
    have "gone_or_off st y (fold (handle_lost st w) lost ?c)"
    proof (cases "auto_deprovision st \<and> kind_of_node y = Control")
      case True
      then show ?thesis using first handle_lost_pks [of st w lost ?c] by (auto simp: gone_or_off_def)
    next
      case False
      then have "\<exists>z. held ?c z \<and> node_pk z = node_pk y \<and> node_state z \<noteq> Ready" using first unfolding gone_or_off_def by meson
      then show ?thesis using stays False unfolding gone_or_off_def by meson
    qed
    then show ?thesis using True by simp
  next
    case False
    have "\<forall>z \<in> set lost. held ?c z" using Cons.prems(2,3) keep by (auto simp: image_iff)
    from Cons.IH [OF ok this] Cons.prems(3,4) False show ?thesis by simp
  qed
qed simp

text \<open>The parts of a heartbeat that runs to its end.\<close>

lemma heartbeat_parts:
  assumes "cluster_node_heartbeat newer st w c = (Completed, c')" and "mesh w = Some status"
    and "cluster_ok c" and "h \<in> set (nodes c)" and "hostname h = cluster_host_id st" and "in_service h"
  obtains mem c1 me y c2 present lost where
    "inspect_execution_and_hop_nodes st (inspect_time w) status (filter in_service (nodes c)) c = (mem, c1, None)"
    and "me \<in> set mem" and "node_pk me = node_pk h"
    and "local_health_check st (local_readings w) me c1 = (Inr y, c2)"
    and "lost = filter (\<lambda>x. node_pk h \<noteq> node_pk x \<and> is_lost (liveness st) (beat_time w) x) mem"
    and "c' = (let d = fold (handle_lost st w) lost c2 in d\<lparr>jobs := snd (local_reaper st w (hostname y) (jobs d))\<rparr>)"
proof -
  define listed where "listed = filter in_service (nodes c)"
  have hl: "h \<in> set listed" using assms(4,6) by (simp add: listed_def)
  have only: "x = h" if "x \<in> set listed" "hostname x = cluster_host_id st" for x
    using that assms(4,5) hostname_unique [OF assms(3)] by (auto simp: listed_def)
  have here: "find (\<lambda>x. hostname x = cluster_host_id st) listed = Some h"
  proof (cases "find (\<lambda>x. hostname x = cluster_host_id st) listed")
    case None
    then show ?thesis using hl assms(5) by (auto simp: find_None_iff)
  next
    case (Some z)
    then show ?thesis using only find_SomeD [OF Some] by simp
  qed
  obtain mem c1 f where i: "inspect_execution_and_hop_nodes st (inspect_time w) status listed c = (mem, c1, f)"
    by (cases "inspect_execution_and_hop_nodes st (inspect_time w) status listed c")
  note pks = inspect_pks [OF i]
  note unfold = cluster_node_heartbeat_def Let_def assms(2) listed_def [symmetric] here i option.case prod.case
  have f: "f = None" using assms(1) unfolding unfold by (cases f) simp_all
  have "node_pk h \<in> node_pk ` set mem" using hl pks(2) by (metis imageI list.set_map)
  then obtain me where me: "find (\<lambda>x. node_pk x = node_pk h) mem = Some me"
    by (cases "find (\<lambda>x. node_pk x = node_pk h) mem") (auto simp: find_None_iff)
  obtain res c2 where chk: "local_health_check st (local_readings w) me c1 = (res, c2)"
    by (cases "local_health_check st (local_readings w) me c1")
  define lost where "lost = filter (\<lambda>x. node_pk h \<noteq> node_pk x \<and> is_lost (liveness st) (beat_time w) x) mem"
  have "\<exists>y present. res = Inr y \<and> beat_rest newer st w y present lost c2 = (Completed, c')"
    using assms(1) unfolding unfold f me chk lost_def
    by (cases res) (auto split: if_splits)
  then obtain y present where y: "res = Inr y" and rest: "beat_rest newer st w y present lost c2 = (Completed, c')"
    by blast
  have "c' = (let d = fold (handle_lost st w) lost c2 in d\<lparr>jobs := snd (local_reaper st w (hostname y) (jobs d))\<rparr>)"
    using rest by (auto simp: beat_rest_def Let_def split: option.splits prod.splits)
  then show ?thesis
    using that i f chk y find_SomeD [OF me] lost_def unfolding listed_def by blast
qed


text \<open>A node is lost for a heartbeat when its last sign of life, on the mesh or its own, is too old.\<close>

definition lost_for :: "cluster_settings \<Rightarrow> int \<Rightarrow> mesh_status \<Rightarrow> node \<Rightarrow> bool" where
  "lost_for st now status x \<longleftrightarrow>
     hostname x \<noteq> cluster_host_id st \<and> is_lost (liveness st) now (x\<lparr>last_seen := heard (advertisements status) x\<rparr>)"

lemma inspected_lost:
  "inspected (advertisements status) x y \<Longrightarrow>
   is_lost s now y = is_lost s now (x\<lparr>last_seen := heard (advertisements status) x\<rparr>)"
  by (simp add: inspected_def core_def is_lost_def cong: option.case_cong)

lemma local_reaper_swept: "unique_rows t \<Longrightarrow> swept {h} t (snd (local_reaper st w h t))"
proof -
  assume u: "unique_rows t"
  have one: "swept {h} t (reap h Failed None active s t)" for active s by (rule reap_swept [OF u])
  have two: "swept {h} t (reap_waiting g m h Failed None None active s' (reap h Failed None active s t))" for g m active s s'
    by (rule swept_trans [OF one reap_waiting_swept [OF swept_unique [OF one u]]])
  show ?thesis using one two swept_refl by (simp add: local_reaper_def Let_def split: option.split)
qed

lemma list_all2_left: "list_all2 R xs ys \<Longrightarrow> x \<in> set xs \<Longrightarrow> \<exists>y \<in> set ys. R x y"
  by (induction rule: list_all2_induct) auto

lemma list_all2_right: "list_all2 R xs ys \<Longrightarrow> y \<in> set ys \<Longrightarrow> \<exists>x \<in> set xs. R x y"
  by (induction rule: list_all2_induct) auto

text \<open>What a completed heartbeat has done for the copies \<open>mem\<close> of the rows it works on.\<close>

definition dropped :: "cluster_settings \<Rightarrow> int \<Rightarrow> node \<Rightarrow> node \<Rightarrow> bool" where
  "dropped st now h z \<longleftrightarrow> node_pk h \<noteq> node_pk z \<and> is_lost (liveness st) now z"

lemma heartbeat_copies:
  assumes beat: "cluster_node_heartbeat newer st w c = (Completed, c')" "mesh w = Some status"
    and ok: "cluster_ok c" "unique_rows (jobs c)"
    and me: "h \<in> set (nodes c)" "hostname h = cluster_host_id st" "in_service h" "kind_of_node h \<in> {Control, Hybrid}"
  obtains mem where "list_all2 (inspected (advertisements status)) (filter in_service (nodes c)) mem"
    and "\<forall>z \<in> set mem. dropped st (beat_time w) h z \<longrightarrow> gone_or_off st z c'"
    and "\<forall>z \<in> set mem. dropped st (beat_time w) h z \<longrightarrow> (\<forall>r \<in> set (rows (jobs c')). \<not> runs_on (hostname z) r)"
    and "\<forall>z \<in> set mem. \<not> dropped st (beat_time w) h z \<longrightarrow> node_pk z \<noteq> node_pk h \<longrightarrow> held c' z"
    and "\<exists>y. held c' y \<and> node_pk y = node_pk h \<and> last_seen y = Some (check_time (local_readings w)) \<and>
      node_state y = (if redis_up (local_readings w) then Ready else Unavailable)"
    and "swept (insert (cluster_host_id st) (hostname ` {z \<in> set mem. dropped st (beat_time w) h z})) (jobs c) (jobs c')"
proof -
  obtain mem c1 m y c2 present lost where
    i: "inspect_execution_and_hop_nodes st (inspect_time w) status (filter in_service (nodes c)) c = (mem, c1, None)"
    and m: "m \<in> set mem" "node_pk m = node_pk h"
    and chk: "local_health_check st (local_readings w) m c1 = (Inr y, c2)"
    and lost: "lost = filter (\<lambda>x. node_pk h \<noteq> node_pk x \<and> is_lost (liveness st) (beat_time w) x) mem"
    and c': "c' = (let d = fold (handle_lost st w) lost c2 in d\<lparr>jobs := snd (local_reaper st w (hostname y) (jobs d))\<rparr>)"
    by (rule heartbeat_parts [OF beat ok(1) me(1,2,3)])
  have lost_set: "set lost = {z \<in> set mem. dropped st (beat_time w) h z}" by (auto simp: lost dropped_def)
  have "beat_ok (mem, c1, None)" using inspect_ok [OF ok(1), of st "inspect_time w" status] i by simp
  then have c1: "cluster_ok c1" "distinct (map node_pk mem)" "\<And>x. x \<in> set mem \<Longrightarrow> held c1 x" by (simp_all add: beat_ok_def)
  note all2 = inspect_mem [OF ok(1) i]
  note c2 = checked_ok [OF chk [unfolded local_health_check_def] c1(1) c1(3) [OF m(1)]]
  let ?d = "fold (handle_lost st w) lost c2"
  have others: "held c2 z" if "z \<in> set mem" "node_pk z \<noteq> node_pk h" for z
    using c2(4) [OF c1(3) [OF that(1)]] that(2) m(2) by simp
  have lost_held: "\<forall>x \<in> set lost. held c2 x" using others by (simp add: lost)
  have lost_distinct: "distinct (map node_pk lost)" using c1(2) unfolding lost by (simp add: distinct_map_filter)
  have held_d: "held c' z" if "held c2 z" "node_pk z \<notin> node_pk ` set lost" for z
    using handle_lost_ok(2) [OF c2(1) that] by (simp add: c' Let_def)
  have "jobs ?d = fold (\<lambda>x. fail_jobs_of st (reap_time w) (hostname x)) lost (jobs c)"
    using handle_lost_ok(3) [OF c2(1)] c2(2) inspect_pks(3) [OF i] by simp
  note failed = fail_jobs_all [OF ok(2), where lost = lost and st = st and clock = "reap_time w", folded this]
  obtain h' where h': "h' \<in> set (filter in_service (nodes c))" "inspected (advertisements status) h' m"
    using list_all2_right [OF all2 m(1)] by blast
  have "h' = h" by (rule pk_unique [OF ok(1)]) (use h' m(2) me(1) in \<open>auto simp: inspected_def core_def\<close>)
  then have m_h: "fst (core m) = fst (core h)" "node_state m = node_state h" using h'(2) me(4) by (auto simp: inspected_def)
  obtain fs where health: "save_health_data (check_time (local_readings w)) (capacities st) True
      (local_report (awx_version st) (redis_up (local_readings w)) (cpu_count (local_readings w)) (mem_in_bytes (local_readings w))) m
      = Inr (y, fs)"
    using chk by (auto simp: local_health_check_def checked_def split: sum.splits)
  have y: "held c2 y" "node_pk y = node_pk h" "hostname y = cluster_host_id st"
    using c2(3) [OF refl] m(2) health_identity [OF health] m_h(1) me(2) by (simp_all add: core_def)
  have reaped: "swept {cluster_host_id st} (jobs ?d) (jobs c')"
    using local_reaper_swept [OF swept_unique [OF failed(1) ok(2)], of "cluster_host_id st" st w] y(3) by (simp add: c' Let_def)
  show ?thesis
  proof (rule that [OF all2])
    show "\<forall>z \<in> set mem. dropped st (beat_time w) h z \<longrightarrow> gone_or_off st z c'"
      using handle_lost_each [OF c2(1) lost_held lost_distinct, of _ st w] lost_set
      by (simp add: c' Let_def gone_or_off_def)
    show "\<forall>z \<in> set mem. dropped st (beat_time w) h z \<longrightarrow> (\<forall>r \<in> set (rows (jobs c')). \<not> runs_on (hostname z) r)"
    proof (intro ballI impI)
      fix z r
      assume z: "z \<in> set mem" "dropped st (beat_time w) h z" and r: "r \<in> set (rows (jobs c'))"
      obtain q where q: "q \<in> set (rows (jobs ?d))" "r = q \<or> job_status r = Failed" by (rule swept_from [OF reaped r])
      then show "\<not> runs_on (hostname z) r" using failed(2) [OF _ q(1), of z] z lost_set by (auto simp: runs_on_def)
    qed
    show "\<forall>z \<in> set mem. \<not> dropped st (beat_time w) h z \<longrightarrow> node_pk z \<noteq> node_pk h \<longrightarrow> held c' z"
    proof (intro ballI impI)
      fix z
      assume z: "z \<in> set mem" "\<not> dropped st (beat_time w) h z" "node_pk z \<noteq> node_pk h"
      have "node_pk z \<notin> node_pk ` set lost"
        using c1(2) z(1,2) lost_set by (auto simp: distinct_map dest: inj_onD)
      then show "held c' z" by (rule held_d [OF others [OF z(1,3)]])
    qed
  next
    have "held c' y" using held_d [OF y(1)] y(2) by (auto simp: lost)
    moreover have "last_seen y = Some (check_time (local_readings w))"
      using health_seen [OF health] m_h(1) me(4) by (auto simp: core_def)
    moreover have "node_state y = (if redis_up (local_readings w) then Ready else Unavailable)"
      using health_state [OF health] m_h(2) me(3) by (auto simp: local_report_def in_service_def)
    ultimately show "\<exists>y. held c' y \<and> node_pk y = node_pk h \<and> last_seen y = Some (check_time (local_readings w)) \<and>
        node_state y = (if redis_up (local_readings w) then Ready else Unavailable)"
      using y(2) by blast
    show "swept (insert (cluster_host_id st) (hostname ` {z \<in> set mem. dropped st (beat_time w) h z})) (jobs c) (jobs c')"
      unfolding lost_set [symmetric] by (intro swept_trans [OF swept_mono [OF failed(1)] swept_mono [OF reaped]]) auto
  qed
qed

text \<open>The same for the rows themselves.\<close>

lemma completed_heartbeat:
  assumes beat: "cluster_node_heartbeat newer st w c = (Completed, c')" "mesh w = Some status"
    and ok: "cluster_ok c" "unique_rows (jobs c)"
    and me: "h \<in> set (nodes c)" "hostname h = cluster_host_id st" "in_service h" "kind_of_node h \<in> {Control, Hybrid}"
  shows "x \<in> set (nodes c) \<Longrightarrow> in_service x \<Longrightarrow> lost_for st (beat_time w) status x \<Longrightarrow>
      gone_or_off st x c' \<and> (\<forall>r \<in> set (rows (jobs c')). \<not> runs_on (hostname x) r)"
    and "x \<in> set (nodes c) \<Longrightarrow> in_service x \<Longrightarrow> hostname x \<noteq> cluster_host_id st \<Longrightarrow>
      \<not> lost_for st (beat_time w) status x \<Longrightarrow> \<exists>y. held c' y \<and> inspected (advertisements status) x y"
    and "\<exists>y. held c' y \<and> node_pk y = node_pk h \<and> last_seen y = Some (check_time (local_readings w)) \<and>
      node_state y = (if redis_up (local_readings w) then Ready else Unavailable)"
    and "swept (insert (cluster_host_id st) (hostname ` {x \<in> set (nodes c). in_service x \<and> lost_for st (beat_time w) status x}))
      (jobs c) (jobs c')"
proof -
  obtain mem where all2: "list_all2 (inspected (advertisements status)) (filter in_service (nodes c)) mem"
    and off: "\<forall>z \<in> set mem. dropped st (beat_time w) h z \<longrightarrow> gone_or_off st z c'"
    and idle: "\<forall>z \<in> set mem. dropped st (beat_time w) h z \<longrightarrow> (\<forall>r \<in> set (rows (jobs c')). \<not> runs_on (hostname z) r)"
    and kept: "\<forall>z \<in> set mem. \<not> dropped st (beat_time w) h z \<longrightarrow> node_pk z \<noteq> node_pk h \<longrightarrow> held c' z"
    and own: "\<exists>y. held c' y \<and> node_pk y = node_pk h \<and> last_seen y = Some (check_time (local_readings w)) \<and>
      node_state y = (if redis_up (local_readings w) then Ready else Unavailable)"
    and sweep: "swept (insert (cluster_host_id st) (hostname ` {z \<in> set mem. dropped st (beat_time w) h z})) (jobs c) (jobs c')"
    by (rule heartbeat_copies [OF beat ok me])
  have same: "node_pk z = node_pk x" "hostname z = hostname x" "kind_of_node z = kind_of_node x"
    if "inspected (advertisements status) x z" for x z
    using that by (simp_all add: inspected_def core_def)
  have me_iff: "node_pk h = node_pk x \<longleftrightarrow> hostname x = cluster_host_id st" if "x \<in> set (nodes c)" for x
    using pk_unique [OF ok(1) me(1) that] hostname_unique [OF ok(1) me(1) that] me(2) by metis
  have drop: "dropped st (beat_time w) h z \<longleftrightarrow> lost_for st (beat_time w) status x"
    if "x \<in> set (nodes c)" "inspected (advertisements status) x z" for x z
    using me_iff [OF that(1)] inspected_lost [OF that(2)] same [OF that(2)] by (simp add: dropped_def lost_for_def)
  have pair: "\<exists>z \<in> set mem. inspected (advertisements status) x z" if "x \<in> set (nodes c)" "in_service x" for x
    using list_all2_left [OF all2, of x] that by simp
  show "gone_or_off st x c' \<and> (\<forall>r \<in> set (rows (jobs c')). \<not> runs_on (hostname x) r)"
    if x: "x \<in> set (nodes c)" "in_service x" "lost_for st (beat_time w) status x"
  proof -
    obtain z where z: "z \<in> set mem" "inspected (advertisements status) x z" using pair [OF x(1,2)] by blast
    have "gone_or_off st z c' = gone_or_off st x c'" unfolding gone_or_off_def same [OF z(2)] ..
    then show ?thesis using bspec [OF off z(1)] bspec [OF idle z(1)] drop [OF x(1) z(2)] x(3) same(2) [OF z(2)] by simp
  qed
  show "\<exists>y. held c' y \<and> inspected (advertisements status) x y"
    if x: "x \<in> set (nodes c)" "in_service x" "hostname x \<noteq> cluster_host_id st" "\<not> lost_for st (beat_time w) status x"
  proof -
    obtain z where z: "z \<in> set mem" "inspected (advertisements status) x z" using pair [OF x(1,2)] by blast
    have "node_pk z \<noteq> node_pk h" using me_iff [OF x(1)] x(3) same(1) [OF z(2)] by simp
    then show ?thesis using bspec [OF kept z(1)] drop [OF x(1) z(2)] x(4) z(2) by blast
  qed
  show "\<exists>y. held c' y \<and> node_pk y = node_pk h \<and> last_seen y = Some (check_time (local_readings w)) \<and>
      node_state y = (if redis_up (local_readings w) then Ready else Unavailable)" by (rule own)
  have "hostname ` {z \<in> set mem. dropped st (beat_time w) h z} \<subseteq>
      hostname ` {x \<in> set (nodes c). in_service x \<and> lost_for st (beat_time w) status x}"
  proof (rule image_subsetI)
    fix z
    assume "z \<in> {z \<in> set mem. dropped st (beat_time w) h z}"
    then have z: "z \<in> set mem" "dropped st (beat_time w) h z" by simp_all
    obtain x where x: "x \<in> set (nodes c)" "in_service x" "inspected (advertisements status) x z"
      using list_all2_right [OF all2 z(1)] by auto
    then have "lost_for st (beat_time w) status x" using drop z(2) by blast
    then show "hostname z \<in> hostname ` {x \<in> set (nodes c). in_service x \<and> lost_for st (beat_time w) status x}"
      using x same(2) [OF x(3)] by force
  qed
  then show "swept (insert (cluster_host_id st) (hostname ` {x \<in> set (nodes c). in_service x \<and> lost_for st (beat_time w) status x}))
      (jobs c) (jobs c')"
    by (intro swept_mono [OF sweep]) auto
qed

end
