(* ===== verification/NodeAdmin.thy ===== *)
theory NodeAdmin
  imports ClusterHealth
begin

section \<open>Administration of nodes and of their peers\<close>

text \<open>
  The commands and API handlers that create, change and delete nodes, receptor addresses and the
  links between them: \<^verbatim>\<open>forail/api/serializers/instances.py\<close>,
  \<^verbatim>\<open>forail/api/views/instances.py\<close>, the commands under
  \<^verbatim>\<open>forail/main/management/commands/\<close>, and the signals of \<^verbatim>\<open>forail/main/models/ha.py\<close>.
\<close>

subsection \<open>Addresses\<close>

definition control_nodes :: "cluster \<Rightarrow> int list" where
  "control_nodes c = map node_pk (filter (\<lambda>x. kind_of_node x \<in> set [Control, Hybrid]) (nodes c))"

definition peers_of_address :: "int \<Rightarrow> cluster \<Rightarrow> int list" where
  "peers_of_address a c = map link_source (filter (\<lambda>l. link_target l = a) (links c))"

definition receptor_address_saved :: "receptor_address \<Rightarrow> cluster \<Rightarrow> cluster" where
  "receptor_address_saved a c =
     (if peers_from_control_nodes a
      then (if set (control_nodes c) \<subseteq> set (peers_of_address (addr_pk a) c) then c
            else post (WriteReceptorConfig True) (fold (\<lambda>s. add_link s (addr_pk a)) (control_nodes c) c))
      else (if peers_of_address (addr_pk a) c = [] then c
            else post (WriteReceptorConfig True)
              (c\<lparr>links := filter (\<lambda>l. \<not> (link_target l = addr_pk a \<and> link_source l \<in> set (control_nodes c))) (links c)\<rparr>)))"

definition delete_addresses :: "(receptor_address \<Rightarrow> bool) \<Rightarrow> cluster \<Rightarrow> cluster" where
  "delete_addresses P c =
     (let doomed = filter P (addresses c)
      in fold (\<lambda>a. if peers_from_control_nodes a then post (WriteReceptorConfig True) else id) doomed
           (c\<lparr>addresses := filter (\<lambda>a. \<not> P a) (addresses c),
              links := filter (\<lambda>l. link_target l \<notin> set (map addr_pk doomed)) (links c)\<rparr>))"

text \<open>\<open>update_or_create\<close> of an address: \<open>change\<close> sets the defaults; a new row starts from the model's.\<close>

definition blank_address :: "int \<Rightarrow> string \<Rightarrow> int \<Rightarrow> receptor_address" where
  "blank_address pk name node = \<lparr>addr_pk = pk, address = name, addr_port = 27199, websocket_path = [],
     protocol = ''tcp'', is_internal = False, canonical = False, peers_from_control_nodes = False, addr_instance = node\<rparr>"

definition put_address ::
  "int \<Rightarrow> (receptor_address \<Rightarrow> receptor_address) \<Rightarrow> string \<Rightarrow> int \<Rightarrow> receptor_address option \<Rightarrow> cluster \<Rightarrow> cluster" where
  "put_address pk change name node found c =
     (case found of
        Some a \<Rightarrow> (let b = change a
                   in receptor_address_saved b (c\<lparr>addresses := map (\<lambda>r. if addr_pk r = addr_pk a then b else r) (addresses c)\<rparr>))
      | None \<Rightarrow> (let b = change (blank_address pk name node) in receptor_address_saved b (c\<lparr>addresses := addresses c @ [b]\<rparr>)))"

text \<open>
  \<open>add_receptor_address\<close>: options that are empty or zero are left out. The address itself is the
  key, so that an address of another node is moved to this one.
\<close>

record address_options =
  opt_instance :: string
  opt_address :: string
  opt_port :: "int option"
  opt_websocket_path :: string
  opt_is_internal :: bool
  opt_protocol :: string
  opt_canonical :: bool
  opt_peers_from_control :: bool

definition address_change :: "int \<Rightarrow> address_options \<Rightarrow> receptor_address \<Rightarrow> receptor_address" where
  "address_change node p a =
     a\<lparr>addr_instance := node,
       addr_port := (case opt_port p of Some n \<Rightarrow> if n \<noteq> 0 then n else addr_port a | None \<Rightarrow> addr_port a),
       websocket_path := (if opt_websocket_path p \<noteq> [] then opt_websocket_path p else websocket_path a),
       protocol := (if opt_protocol p \<noteq> [] then opt_protocol p else protocol a),
       is_internal := (opt_is_internal p \<or> is_internal a),
       canonical := (opt_canonical p \<or> canonical a),
       peers_from_control_nodes := (opt_peers_from_control p \<or> peers_from_control_nodes a)\<rparr>"

definition add_address :: "int \<Rightarrow> address_options \<Rightarrow> cluster \<Rightarrow> bool \<times> cluster" where
  "add_address pk p c =
     (case find (\<lambda>x. hostname x = opt_instance p) (nodes c) of
        None \<Rightarrow> (False, c)
      | Some x \<Rightarrow>
          if opt_canonical p \<and> list_ex (\<lambda>a. addr_instance a = node_pk x \<and> canonical a \<and> address a \<noteq> opt_address p) (addresses c)
          then (False, c)
          else (True, put_address pk (address_change (node_pk x) p) (opt_address p) (node_pk x)
                        (find (\<lambda>a. address a = opt_address p) (addresses c)) c))"

definition remove_receptor_address :: "string \<Rightarrow> cluster \<Rightarrow> cluster" where
  "remove_receptor_address name = delete_addresses (\<lambda>a. address a = name)"

subsection \<open>The peers of a node\<close>

text \<open>
  \<open>register_peers\<close>: an option that is absent is \<^const>\<open>None\<close>; only \<open>exact\<close> may be empty.
  \<open>establish\<close> is \<open>update_or_create\<close> with the state of the link.
\<close>

record peer_options =
  peer_source :: string
  peer_add :: "string list option"
  peer_disconnect :: "string list option"
  peer_exact :: "string list option"

definition listed :: "string list option \<Rightarrow> string list" where
  "listed opt = (case opt of None \<Rightarrow> [] | Some xs \<Rightarrow> xs)"

definition establish :: "int \<Rightarrow> int \<Rightarrow> cluster \<Rightarrow> cluster" where
  "establish s t c =
     (let d = add_link s t c
      in d\<lparr>links := map (\<lambda>l. if link_source l = s \<and> link_target l = t then l\<lparr>link_state := Established\<rparr> else l) (links d)\<rparr>)"

definition address_pk :: "cluster \<Rightarrow> string \<Rightarrow> int option" where
  "address_pk c name = map_option addr_pk (find (\<lambda>a. address a = name) (addresses c))"

definition host_of_pk :: "cluster \<Rightarrow> int \<Rightarrow> string option" where
  "host_of_pk c pk = map_option hostname (find (\<lambda>x. node_pk x = pk) (nodes c))"

text \<open>The host names of the nodes that peer to the address named like the source.\<close>

definition incoming :: "cluster \<Rightarrow> string \<Rightarrow> string list" where
  "incoming c source =
     (case address_pk c source of None \<Rightarrow> []
      | Some a \<Rightarrow> List.map_filter (\<lambda>l. if link_target l = a then host_of_pk c (link_source l) else None) (links c))"

definition check_peers :: "peer_options \<Rightarrow> cluster \<Rightarrow> string option" where
  "check_peers p c =
     (let known = map address (addresses c); hosts = map hostname (nodes c);
          add = listed (peer_add p); drop = listed (peer_disconnect p); exact = listed (peer_exact p)
      in if peer_source p \<notin> set hosts then Some ''not a registered instance''
         else if add = [] \<and> drop = [] \<and> peer_exact p = None then Some ''one of the options is required''
         else if peer_exact p \<noteq> None \<and> add \<noteq> [] then Some ''--peers may not be used with --exact''
         else if peer_exact p \<noteq> None \<and> drop \<noteq> [] then Some ''--disconnect may not be used with --exact''
         else if \<not> list_all (\<lambda>n. n \<in> set known) (add @ drop @ exact) then Some ''no receptor address''
         else if peer_source p \<in> set (add @ drop @ exact) then Some ''a node may not peer to itself''
         else if (add \<noteq> [] \<or> peer_exact p \<noteq> None) \<and>
           list_ex (\<lambda>n. n \<in> set (incoming c (peer_source p))) (if add \<noteq> [] then add else exact)
         then Some ''already peering''
         else if \<not> list_all (\<lambda>n. n \<in> set hosts) add then Some ''not registered as instances''
         else None)"

definition target_address :: "cluster \<Rightarrow> instance_link \<Rightarrow> string option" where
  "target_address c l = map_option address (find (\<lambda>a. addr_pk a = link_target l) (addresses c))"

definition target_host :: "cluster \<Rightarrow> instance_link \<Rightarrow> string option" where
  "target_host c l =
     (case find (\<lambda>a. addr_pk a = link_target l) (addresses c) of None \<Rightarrow> None | Some a \<Rightarrow> host_of_pk c (addr_instance a))"

definition establish_all :: "int \<Rightarrow> string list \<Rightarrow> cluster \<Rightarrow> cluster" where
  "establish_all s names c =
     fold (\<lambda>n d. case address_pk c n of None \<Rightarrow> d | Some a \<Rightarrow> establish s a d) names c"

definition disconnect_all :: "int \<Rightarrow> string list \<Rightarrow> cluster \<Rightarrow> cluster" where
  "disconnect_all s names c =
     c\<lparr>links := filter (\<lambda>l. \<not> (link_source l = s \<and> link_target l \<in> set (List.map_filter (address_pk c) names))) (links c)\<rparr>"

text \<open>
  With \<open>--exact\<close>, the addresses of the source's links are collected, but what is deleted are the
  links to the nodes that have one of the superfluous addresses as their host name.
\<close>

definition make_exact :: "int \<Rightarrow> string list \<Rightarrow> cluster \<Rightarrow> cluster" where
  "make_exact s names c =
     (let present = List.map_filter (target_address c) (filter (\<lambda>l. link_source l = s) (links c));
          extra = filter (\<lambda>n. n \<notin> set names) present;
          c1 = c\<lparr>links := filter (\<lambda>l. \<not> (link_source l = s \<and> target_host c l \<in> Some ` set extra)) (links c)\<rparr>
      in establish_all s (filter (\<lambda>n. n \<notin> set present) (remdups names)) c1)"

definition register_peers :: "peer_options \<Rightarrow> cluster \<Rightarrow> string option \<times> cluster" where
  "register_peers p c =
     (case check_peers p c of
        Some e \<Rightarrow> (Some e, c)
      | None \<Rightarrow>
          (case find (\<lambda>x. hostname x = peer_source p) (nodes c) of
             None \<Rightarrow> (None, c)
           | Some x \<Rightarrow>
               (let s = node_pk x;
                    c1 = establish_all s (listed (peer_add p)) c;
                    c2 = disconnect_all s (listed (peer_disconnect p)) c1
                in (None, case peer_exact p of None \<Rightarrow> c2 | Some names \<Rightarrow> make_exact s names c2))))"


subsection \<open>The API\<close>

text \<open>
  The attributes of a request; \<^const>\<open>None\<close> is an absent one. A port can be given as \<open>null\<close>. On
  a request that is not partial, an absent type or state gets its default.
\<close>

record node_attrs =
  at_hostname :: "string option"
  at_type :: "node_type option"
  at_state :: "node_state option"
  at_enabled :: "bool option"
  at_adjustment :: "rat option"
  at_by_policy :: "bool option"
  at_port :: "int option option"
  at_peers_from_control :: "bool option"
  at_peers :: "int list option"

definition with_defaults :: "bool \<Rightarrow> node_attrs \<Rightarrow> node_attrs" where
  "with_defaults partial d =
     (if partial then d
      else d\<lparr>at_type := Some (case at_type d of Some k \<Rightarrow> k | None \<Rightarrow> Execution),
             at_state := Some (case at_state d of Some s \<Rightarrow> s | None \<Rightarrow> Installed)\<rparr>)"

definition own_addresses :: "cluster \<Rightarrow> node \<Rightarrow> receptor_address list" where
  "own_addresses c x = filter (\<lambda>a. addr_instance a = node_pk x) (addresses c)"

text \<open>\<open>canonical_address_port\<close> and \<open>canonical_address\<close>\<close>

definition canonical_address :: "cluster \<Rightarrow> node \<Rightarrow> receptor_address option" where
  "canonical_address c x = find canonical (own_addresses c x)"

definition canonical_address_port :: "cluster \<Rightarrow> node \<Rightarrow> int option" where
  "canonical_address_port c x = map_option addr_port (canonical_address c x)"

definition peers_of :: "cluster \<Rightarrow> node \<Rightarrow> int list" where
  "peers_of c x = map link_target (filter (\<lambda>l. link_source l = node_pk x) (links c))"

definition validate_node_type :: "node option \<Rightarrow> node_type \<Rightarrow> bool" where
  "validate_node_type old v = (case old of None \<Rightarrow> v \<in> set [Hop, Execution] | Some x \<Rightarrow> kind_of_node x = v)"

definition validate_node_state :: "cluster_settings \<Rightarrow> node option \<Rightarrow> node_state \<Rightarrow> bool" where
  "validate_node_state st old v =
     (case old of None \<Rightarrow> v = Installed
      | Some x \<Rightarrow> v = node_state x \<or> is_k8s (capacities st) \<and> v = Deprovisioning \<and> \<not> node_managed x)"

definition validate_hostname :: "(string \<Rightarrow> bool) \<Rightarrow> cluster \<Rightarrow> node option \<Rightarrow> string \<Rightarrow> bool" where
  "validate_hostname proper c old v \<longleftrightarrow>
     proper v \<and> \<not> list_ex (\<lambda>x. hostname x = v \<and> (case old of None \<Rightarrow> True | Some y \<Rightarrow> node_pk y \<noteq> node_pk x)) (nodes c) \<and>
     (case old of None \<Rightarrow> True | Some y \<Rightarrow> hostname y = v)"

definition validate_listener_port :: "cluster \<Rightarrow> node option \<Rightarrow> int option \<Rightarrow> bool" where
  "validate_listener_port c old v =
     (case old of None \<Rightarrow> True
      | Some x \<Rightarrow> (let present = canonical_address_port c x; set_to = (\<lambda>p. case p of None \<Rightarrow> False | Some n \<Rightarrow> n \<noteq> 0)
                   in \<not> (set_to v \<and> set_to present \<and> present \<noteq> v) \<and> \<not> (node_managed x \<and> v \<noteq> present)))"

definition validate_peers :: "cluster_settings \<Rightarrow> cluster \<Rightarrow> node option \<Rightarrow> int list \<Rightarrow> bool" where
  "validate_peers st c old v =
     (let targets = List.map_filter (\<lambda>t. find (\<lambda>a. addr_pk a = t) (addresses c)) v
      in distinct (map addr_instance targets) \<and>
         (case old of None \<Rightarrow> True
          | Some x \<Rightarrow>
              (let own = map addr_pk (own_addresses c x); changed = (set (peers_of c x) \<noteq> set v)
               in \<not> (\<not> is_k8s (capacities st) \<and> changed) \<and> \<not> (node_managed x \<and> changed) \<and>
                  \<not> list_ex (\<lambda>t. t \<in> set own) v \<and>
                  \<not> list_ex (\<lambda>a. list_ex (\<lambda>l. link_source l = addr_instance a \<and> link_target l \<in> set own) (links c)) targets)))"

definition validate_peers_from_control_nodes :: "cluster \<Rightarrow> node option \<Rightarrow> bool \<Rightarrow> bool" where
  "validate_peers_from_control_nodes c old v =
     (case old of None \<Rightarrow> True
      | Some x \<Rightarrow> \<not> (node_managed x \<and>
          (case canonical_address c x of None \<Rightarrow> False | Some a \<Rightarrow> peers_from_control_nodes a) \<noteq> v))"

definition proper_adjustment :: "rat \<Rightarrow> bool" where
  "proper_adjustment q \<longleftrightarrow> 0 \<le> q \<and> q < 10 \<and> of_int \<lfloor>q * 100\<rfloor> = q * 100"

definition holds_if_given :: "('a \<Rightarrow> bool) \<Rightarrow> 'a option \<Rightarrow> bool" where
  "holds_if_given P v = (case v of None \<Rightarrow> True | Some x \<Rightarrow> P x)"

text \<open>All validators together: \<open>None\<close> for the old row is a creation, where the host name is required.\<close>

definition valid_request ::
  "cluster_settings \<Rightarrow> (string \<Rightarrow> bool) \<Rightarrow> cluster \<Rightarrow> node option \<Rightarrow> node_attrs \<Rightarrow> bool" where
  "valid_request st proper c old d \<longleftrightarrow>
     holds_if_given (validate_node_type old) (at_type d) \<and> holds_if_given (validate_node_state st old) (at_state d) \<and>
     holds_if_given (validate_hostname proper c old) (at_hostname d) \<and> holds_if_given (validate_listener_port c old) (at_port d) \<and>
     holds_if_given (validate_peers st c old) (at_peers d) \<and>
     holds_if_given (validate_peers_from_control_nodes c old) (at_peers_from_control d) \<and> holds_if_given proper_adjustment (at_adjustment d) \<and>
     (old = None \<longrightarrow> is_k8s (capacities st) \<and> at_hostname d \<noteq> None) \<and>
     (at_peers_from_control d = Some True \<longrightarrow>
        (case at_port d of Some p \<Rightarrow> p \<noteq> None
         | None \<Rightarrow> (case old of None \<Rightarrow> True | Some x \<Rightarrow> canonical_address c x \<noteq> None)))"

text \<open>\<open>peers.set(...)\<close>\<close>

definition set_peers :: "int \<Rightarrow> int list \<Rightarrow> cluster \<Rightarrow> cluster" where
  "set_peers s ts c = fold (add_link s) ts (c\<lparr>links := filter (\<lambda>l. link_source l \<noteq> s \<or> link_target l \<in> set ts) (links c)\<rparr>)"

text \<open>
  The canonical address that goes with a port: it is written when a port is given or is there
  already, and something about it is given.
\<close>

definition put_canonical :: "int \<Rightarrow> node_attrs \<Rightarrow> node \<Rightarrow> cluster \<Rightarrow> string + cluster" where
  "put_canonical pk d x c =
     (let given = (case at_port d of Some (Some n) \<Rightarrow> True | _ \<Rightarrow> False);
          present = (case canonical_address_port c x of Some n \<Rightarrow> n \<noteq> 0 | None \<Rightarrow> False);
          found = find (\<lambda>a. address a = hostname x) (own_addresses c x)
      in if \<not> (given \<or> present) \<or> at_port d = None \<and> at_peers_from_control d = None then Inr c
         else if at_port d = Some None \<or> found = None \<and> list_ex (\<lambda>a. address a = hostname x) (addresses c)
         then Inl ''IntegrityError''
         else Inr (put_address pk
                (\<lambda>a. a\<lparr>addr_port := (case at_port d of Some (Some n) \<Rightarrow> n | _ \<Rightarrow> addr_port a),
                        peers_from_control_nodes := (case at_peers_from_control d of Some b \<Rightarrow> b | None \<Rightarrow> peers_from_control_nodes a),
                        canonical := True\<rparr>)
                (hostname x) (node_pk x) found c))"

definition apply_attrs :: "node_attrs \<Rightarrow> node \<Rightarrow> node" where
  "apply_attrs d x =
     x\<lparr>node_state := (case at_state d of None \<Rightarrow> node_state x | Some s \<Rightarrow> s),
       node_enabled := (case at_enabled d of None \<Rightarrow> node_enabled x | Some b \<Rightarrow> b),
       capacity_adjustment := (case at_adjustment d of None \<Rightarrow> capacity_adjustment x | Some q \<Rightarrow> q),
       managed_by_policy := (case at_by_policy d of None \<Rightarrow> managed_by_policy x | Some b \<Rightarrow> b)\<rparr>"


text \<open>
  Creation, and the update of the detail view, which sets the capacity after the save. A request
  is one transaction: an exception leaves the tables as they were. The capacity of a new row is
  the default of its column.
\<close>

definition api_node :: "int \<Rightarrow> string \<Rightarrow> node_attrs \<Rightarrow> node" where
  "api_node pk h d =
     apply_attrs d ((fresh_node pk UUID_DEFAULT h [] (case at_type d of Some k \<Rightarrow> k | None \<Rightarrow> Execution))
       \<lparr>node_version := [], node_capacity := 100, node_managed := False\<rparr>)"

definition create_instance ::
  "cluster_settings \<Rightarrow> (string \<Rightarrow> bool) \<Rightarrow> int \<Rightarrow> int \<Rightarrow> node_attrs \<Rightarrow> cluster \<Rightarrow> nat \<times> cluster" where
  "create_instance st proper pk addr d0 c =
     (let d = with_defaults False d0
      in if \<not> valid_request st proper c None d then (400, c)
         else (case at_hostname d of
                 None \<Rightarrow> (400, c)
               | Some h \<Rightarrow>
                   (let x = api_node pk h d; c1 = create_node st x c;
                        c2 = (case at_peers d of None \<Rightarrow> c1 | Some ts \<Rightarrow> set_peers pk ts c1)
                    in case put_canonical addr d x c2 of Inl e \<Rightarrow> (500, c) | Inr c3 \<Rightarrow> (201, c3))))"

definition perform_update :: "cluster_settings \<Rightarrow> int \<Rightarrow> node_attrs \<Rightarrow> node \<Rightarrow> cluster \<Rightarrow> string + cluster" where
  "perform_update st addr d x c =
     (let c0 = (if at_port d = Some None
                then delete_addresses (\<lambda>a. addr_instance a = node_pk x \<and> address a = hostname x) c else c);
          y = apply_attrs d x;
          c1 = save_node st all_fields x y c0;
          c2 = (case at_peers d of None \<Rightarrow> c1 | Some ts \<Rightarrow> set_peers (node_pk x) ts c1)
      in then_ok (put_canonical addr d y c2)
           (\<lambda>c3. let (changed, z) = set_capacity_value y
                 in Inr (if changed then save_node st [FCapacity] y z c3 else c3)))"

definition update_instance ::
  "cluster_settings \<Rightarrow> (string \<Rightarrow> bool) \<Rightarrow> int \<Rightarrow> int \<Rightarrow> bool \<Rightarrow> node_attrs \<Rightarrow> cluster \<Rightarrow> nat \<times> cluster" where
  "update_instance st proper pk addr partial d0 c =
     (case find (\<lambda>x. node_pk x = pk) (nodes c) of
        None \<Rightarrow> (404, c)
      | Some x \<Rightarrow>
          (let d = with_defaults partial d0
           in if \<not> valid_request st proper c (Some x) d \<or> \<not> partial \<and> at_hostname d = None then (400, c)
              else (case perform_update st addr d x c of Inl e \<Rightarrow> (500, c) | Inr c1 \<Rightarrow> (200, c1))))"

subsection \<open>Provisioning\<close>

text \<open>\<open>provision_instance\<close> is one transaction; without a host name it registers this pod.\<close>

definition provision_instance ::
  "cluster_settings \<Rightarrow> int \<Rightarrow> string \<Rightarrow> string \<Rightarrow> string \<Rightarrow> node_type \<Rightarrow> string option \<Rightarrow> cluster \<Rightarrow> string option \<times> cluster" where
  "provision_instance st pk uuid4 ip host kind uuid c =
     (if host = [] \<and> \<not> auto_deprovision st then (Some ''CommandError'', c)
      else (case (if host = [] then register st pk uuid4 (Some (system_uuid st)) [] ip Control c
                  else register st pk uuid4 uuid host [] kind c) of
              (Inl e, _) \<Rightarrow> (Some e, c)
            | (Inr _, c1) \<Rightarrow> (None, c1)))"

definition deprovision_instance :: "string \<Rightarrow> cluster \<Rightarrow> string option \<times> cluster" where
  "deprovision_instance host c =
     (if host = [] then (Some ''CommandError'', c)
      else (None, case find (\<lambda>x. hostname x = host) (nodes c) of None \<Rightarrow> c | Some x \<Rightarrow> delete_node (node_pk x) c))"

text \<open>
  \<open>remove_deprovisioned_node\<close>: the links are marked, then the task looks for jobs, again and
  again, and deletes the node once there are none. \<open>remove_turn\<close> is one look.
\<close>

definition mark_links_removing :: "string \<Rightarrow> cluster \<Rightarrow> cluster" where
  "mark_links_removing host c =
     c\<lparr>links := map (\<lambda>l. if host_of_pk c (link_source l) = Some host \<or> target_host c l = Some host
                         then l\<lparr>link_state := Removing\<rparr> else l) (links c)\<rparr>"

definition remove_turn :: "string \<Rightarrow> cluster \<Rightarrow> cluster" where
  "remove_turn host c =
     (if list_ex (\<lambda>r. job_execution r = host \<and> job_status r \<in> set [Running, Waiting]) (rows (jobs c)) then c
      else (case find (\<lambda>x. hostname x = host) (nodes c) of None \<Rightarrow> c | Some x \<Rightarrow> delete_node (node_pk x) c))"


subsection \<open>The invariant of the table\<close>

lemma fold_nodes_frame:
  assumes "\<And>a c. nodes (f a c) = nodes c"
  shows "nodes (fold f as c) = nodes c"
  using assms by (induction as arbitrary: c) simp_all

lemma receptor_address_saved_nodes [simp]: "nodes (receptor_address_saved a c) = nodes c"
  by (simp add: receptor_address_saved_def fold_nodes_frame)

lemma delete_addresses_nodes [simp]: "nodes (delete_addresses P c) = nodes c"
  by (simp add: delete_addresses_def Let_def fold_nodes_frame)

lemma put_address_nodes [simp]: "nodes (put_address pk f name node found c) = nodes c"
  by (simp add: put_address_def Let_def split: option.split)

lemma add_address_nodes [simp]: "nodes (snd (add_address pk p c)) = nodes c"
  by (simp add: add_address_def split: option.split)

lemma establish_nodes [simp]: "nodes (establish s t c) = nodes c"
  by (simp add: establish_def Let_def)

lemma establish_all_nodes [simp]: "nodes (establish_all s names c) = nodes c"
  unfolding establish_all_def by (rule fold_nodes_frame) (simp split: option.split)

lemma register_peers_nodes [simp]: "nodes (snd (register_peers p c)) = nodes c"
  by (simp add: register_peers_def make_exact_def disconnect_all_def Let_def split: option.split)

lemma set_peers_nodes [simp]: "nodes (set_peers s ts c) = nodes c"
  by (simp add: set_peers_def)

lemma put_canonical_nodes: "put_canonical pk d x c = Inr c' \<Longrightarrow> nodes c' = nodes c"
  by (auto simp: put_canonical_def Let_def split: if_splits)

text \<open>The operations on addresses and links do not see the invariant at all.\<close>

lemma cluster_ok_nodes: "nodes d = nodes c \<Longrightarrow> cluster_ok d = cluster_ok c"
  by (simp add: cluster_ok_def)

lemmas peer_operations_ok = cluster_ok_nodes [OF delete_addresses_nodes] cluster_ok_nodes [OF add_address_nodes]
  cluster_ok_nodes [OF register_peers_nodes]

lemma delete_node_ok: "cluster_ok c \<Longrightarrow> cluster_ok (delete_node pk c)"
  by (auto simp: cluster_ok_def distinct_map inj_on_def)

lemma provisioning_ok:
  assumes "cluster_ok c"
  shows "pk \<notin> node_pk ` set (nodes c) \<Longrightarrow> cluster_ok (snd (provision_instance st pk u4 ip host kind uuid c))"
    and "cluster_ok (snd (deprovision_instance host c))"
    and "cluster_ok (mark_links_removing host c)"
    and "cluster_ok (remove_turn host c)"
proof -
  show "cluster_ok (snd (provision_instance st pk u4 ip host kind uuid c))" if "pk \<notin> node_pk ` set (nodes c)"
    using assms register_ok(1) [OF _ assms that]
    by (auto simp: provision_instance_def split: prod.split sum.split)
  show "cluster_ok (snd (deprovision_instance host c))"
    using assms by (simp add: deprovision_instance_def delete_node_ok split: option.split)
  show "cluster_ok (mark_links_removing host c)" using assms by (simp add: mark_links_removing_def)
  show "cluster_ok (remove_turn host c)" using assms by (simp add: remove_turn_def delete_node_ok split: option.split)
qed

text \<open>A change of one row that keeps its key and its host name.\<close>

lemma change_row_ok:
  assumes "cluster_ok c" and "nodes d = map (\<lambda>r. if node_pk r = pk then g r else r) (nodes c)"
    and "\<And>r. r \<in> set (nodes c) \<Longrightarrow> node_pk r = pk \<Longrightarrow> node_pk (g r) = pk \<and> hostname (g r) = hostname r \<and> node_ok (g r)"
  shows "cluster_ok d"
proof -
  have "map node_pk (nodes d) = map node_pk (nodes c)" "map hostname (nodes d) = map hostname (nodes c)"
    using assms(3) by (auto simp: assms(2))
  moreover have "\<forall>y \<in> set (nodes d). node_ok y" using assms(1,3) by (auto simp: assms(2) cluster_ok_def)
  ultimately show ?thesis using assms(1) unfolding cluster_ok_def by simp
qed

lemma create_instance_ok:
  assumes "cluster_ok c" and "pk \<notin> node_pk ` set (nodes c)"
  shows "cluster_ok (snd (create_instance st proper pk addr d c))"
proof (cases "snd (create_instance st proper pk addr d c) = c")
  case True
  with assms(1) show ?thesis by simp
next
  case False
  define e where "e = with_defaults False d"
  have v: "valid_request st proper c None e"
    using False by (auto simp: create_instance_def Let_def e_def split: if_splits)
  obtain h where h: "at_hostname e = Some h" using v by (auto simp: valid_request_def)
  let ?x = "api_node pk h e"
  define c2 where "c2 = (case at_peers e of None \<Rightarrow> create_node st ?x c | Some ts \<Rightarrow> set_peers pk ts (create_node st ?x c))"
  have two: "nodes c2 = nodes c @ [?x]" by (simp add: c2_def split: option.split)
  have result: "create_instance st proper pk addr d c = (case put_canonical addr e ?x c2 of Inl q \<Rightarrow> (500, c) | Inr c3 \<Rightarrow> (201, c3))"
    using v h by (simp add: create_instance_def Let_def e_def [symmetric] c2_def [symmetric])
  obtain c3 where c3: "put_canonical addr e ?x c2 = Inr c3" "snd (create_instance st proper pk addr d c) = c3"
    using False result by (cases "put_canonical addr e ?x c2") simp_all
  have "\<not> list_ex (\<lambda>x. hostname x = h) (nodes c)" using v h by (simp add: valid_request_def holds_if_given_def validate_hostname_def)
  moreover have "holds_if_given proper_adjustment (at_adjustment e)" using v unfolding valid_request_def by blast
  then have "node_ok ?x"
    using v by (auto simp: api_node_def apply_attrs_def fresh_node_def node_ok_def holds_if_given_def valid_request_def
        validate_node_state_def proper_adjustment_def trunc_def split: option.splits)
  ultimately have "cluster_ok c3" using assms put_canonical_nodes [OF c3(1)] two
    by (auto simp: cluster_ok_def list_ex_iff api_node_def apply_attrs_def fresh_node_def)
  then show ?thesis using c3(2) by simp
qed


text \<open>An update ends with a row whose capacity follows the rule for its new adjustment.\<close>

definition updated_row :: "node \<Rightarrow> node \<Rightarrow> node" where
  "updated_row y r =
     (let (changed, z) = set_capacity_value y
      in if changed then write_fields [FCapacity] z (write_fields all_fields y r) else write_fields all_fields y r)"

lemma updated_row_ok:
  assumes "node_ok x" and "0 \<le> capacity_adjustment y" and "node_state y \<in> {node_state x, Deprovisioning}"
    and "cpu_capacity y = cpu_capacity x" and "mem_capacity y = mem_capacity x"
  shows "node_ok (updated_row y r)"
proof -
  obtain b z where z: "set_capacity_value y = (b, z)" by (cases "set_capacity_value y")
  then have b: "b = (trunc (node_capacity z) \<noteq> trunc (node_capacity y))" by (auto simp: set_capacity_value_def Let_def)
  have zc: "node_capacity z = (if node_enabled y \<and> kind_of_node y \<noteq> Hop then adjusted_capacity y else 0)"
    using z by (auto simp: set_capacity_value_def Let_def)
  let ?r = "updated_row y r"
  have row: "capacity_adjustment ?r = capacity_adjustment y" "cpu_capacity ?r = cpu_capacity y" "mem_capacity ?r = mem_capacity y"
      "node_state ?r = node_state y" "node_capacity ?r = of_int (trunc (node_capacity z))"
    using b by (simp_all add: updated_row_def z all_fields_def)
  have "adjusted_capacity ?r = adjusted_capacity y" by (rule adjusted_capacity_cong) (simp_all add: row)
  then show ?thesis unfolding node_ok_def row using assms zc by (auto simp: node_ok_def)
qed

lemma perform_update_rows:
  assumes "perform_update st addr d x c = Inr c'"
  shows "nodes c' = map (\<lambda>r. if node_pk r = node_pk x then updated_row (apply_attrs d x) r else r) (nodes c)"
proof -
  define y where "y = apply_attrs d x"
  define c2 where "c2 = (let c1 = save_node st all_fields x y (if at_port d = Some None
        then delete_addresses (\<lambda>a. addr_instance a = node_pk x \<and> address a = hostname x) c else c)
      in case at_peers d of None \<Rightarrow> c1 | Some ts \<Rightarrow> set_peers (node_pk x) ts c1)"
  obtain b z where z: "set_capacity_value y = (b, z)" by (cases "set_capacity_value y")
  obtain c3 where c3: "put_canonical addr d y c2 = Inr c3" and c': "c' = (if b then save_node st [FCapacity] y z c3 else c3)"
    using assms unfolding perform_update_def y_def [symmetric] c2_def
    by (auto simp: then_ok_Inr Let_def z simp del: save_node_rows)
  have pk: "node_pk y = node_pk x" "node_pk z = node_pk x"
    using z by (auto simp: y_def apply_attrs_def set_capacity_value_def Let_def)
  have "nodes c2 = map (\<lambda>r. if node_pk r = node_pk x then write_fields all_fields y r else r) (nodes c)"
    using pk(1) by (simp add: c2_def Let_def split: option.split)
  then show ?thesis
    using put_canonical_nodes [OF c3] pk(2) unfolding c' y_def [symmetric] by (auto simp: updated_row_def z)
qed

lemma update_instance_ok:
  assumes "cluster_ok c"
  shows "cluster_ok (snd (update_instance st proper pk addr partial d c))"
proof (cases "snd (update_instance st proper pk addr partial d c) = c")
  case True
  with assms show ?thesis by simp
next
  case False
  define e where "e = with_defaults partial d"
  obtain x where x: "find (\<lambda>x. node_pk x = pk) (nodes c) = Some x"
    using False by (cases "find (\<lambda>x. node_pk x = pk) (nodes c)") (auto simp: update_instance_def)
  obtain c' where v: "valid_request st proper c (Some x) e" and c': "perform_update st addr e x c = Inr c'"
      and final: "snd (update_instance st proper pk addr partial d c) = c'"
    using False x by (auto simp: update_instance_def Let_def e_def split: if_splits sum.splits)
  have xs: "x \<in> set (nodes c)" "node_pk x = pk" using find_SomeD [OF x] by simp_all
  define y where "y = apply_attrs e x"
  have y: "hostname y = hostname x" "cpu_capacity y = cpu_capacity x" "mem_capacity y = mem_capacity x"
    by (simp_all add: y_def apply_attrs_def)
  have "node_ok x" using assms xs(1) by (simp add: cluster_ok_def)
  have "holds_if_given proper_adjustment (at_adjustment e)" "holds_if_given (validate_node_state st (Some x)) (at_state e)"
    using v unfolding valid_request_def by blast+
  then have "0 \<le> capacity_adjustment y" "node_state y \<in> {node_state x, Deprovisioning}"
    using \<open>node_ok x\<close> by (auto simp: y_def apply_attrs_def holds_if_given_def proper_adjustment_def validate_node_state_def
        node_ok_def split: option.splits)
  note good = updated_row_ok [OF \<open>node_ok x\<close> this y(2,3)]
  show ?thesis unfolding final
  proof (rule change_row_ok [OF assms perform_update_rows [OF c', folded y_def]])
    fix r
    assume r: "r \<in> set (nodes c)" "node_pk r = node_pk x"
    then have "r = x" using pk_unique [OF assms r(1) xs(1)] by simp
    then show "node_pk (updated_row y r) = node_pk x \<and> hostname (updated_row y r) = hostname r \<and> node_ok (updated_row y r)"
      using good r(2) y(1) by (simp add: updated_row_def all_fields_def split: prod.split)
  qed
qed


subsection \<open>Which links \<open>--exact\<close> leaves\<close>

definition link_pairs :: "cluster \<Rightarrow> (int \<times> int) set" where
  "link_pairs c = (\<lambda>l. (link_source l, link_target l)) ` set (links c)"

lemma link_pairsI: "l \<in> set (links c) \<Longrightarrow> (link_source l, link_target l) \<in> link_pairs c"
  by (auto simp: link_pairs_def)

lemma link_pairs_map: "link_pairs c = set (map (\<lambda>l. (link_source l, link_target l)) (links c))"
  by (simp add: link_pairs_def)

lemma add_link_pairs: "link_pairs (add_link s t c) = insert (s, t) (link_pairs c)"
  by (auto simp: link_pairs_def add_link_def list_ex_iff image_iff)

lemma establish_pairs: "link_pairs (establish s t c) = insert (s, t) (link_pairs c)"
proof -
  have "link_pairs (c\<lparr>links := map (\<lambda>l. if P l then l\<lparr>link_state := x\<rparr> else l) (links c)\<rparr>) = link_pairs c" for P x c
    unfolding link_pairs_map by (rule arg_cong [where f = set]) simp
  then show ?thesis by (simp add: establish_def Let_def add_link_pairs)
qed

lemma establish_addresses [simp]: "addresses (establish s t c) = addresses c"
  by (simp add: establish_def Let_def)

lemma address_pk_cong: "addresses d = addresses c \<Longrightarrow> address_pk d = address_pk c"
  by (simp add: address_pk_def fun_eq_iff)

lemma establish_all_links:
  "link_pairs (establish_all s names c) = link_pairs c \<union> {s} \<times> {a. \<exists>n \<in> set names. address_pk c n = Some a}"
  "addresses (establish_all s names c) = addresses c"
proof -
  let ?f = "\<lambda>n d. case address_pk c n of None \<Rightarrow> d | Some a \<Rightarrow> establish s a d"
  have "link_pairs (fold ?f names d) = link_pairs d \<union> {s} \<times> {a. \<exists>n \<in> set names. address_pk c n = Some a} \<and>
      addresses (fold ?f names d) = addresses d" for d
    by (induction names arbitrary: d) (auto simp: establish_pairs split: option.splits)
  then show "link_pairs (establish_all s names c) = link_pairs c \<union> {s} \<times> {a. \<exists>n \<in> set names. address_pk c n = Some a}"
    "addresses (establish_all s names c) = addresses c" by (simp_all add: establish_all_def)
qed

lemma find_the_row:
  assumes "distinct (map f xs)" and "x \<in> set xs"
  shows "find (\<lambda>y. f y = f x) xs = Some x"
  using assms by (induction xs) auto

text \<open>The names of the addresses a node links to.\<close>

definition linked_names :: "cluster \<Rightarrow> int \<Rightarrow> string set" where
  "linked_names c s = {n. \<exists>a \<in> set (addresses c). address a = n \<and> (s, addr_pk a) \<in> link_pairs c}"

lemma make_exact_links:
  assumes "distinct (map addr_pk (addresses c))" and "distinct (map address (addresses c))"
    and known: "set names \<subseteq> address ` set (addresses c)"
    and named: "\<forall>a \<in> set (addresses c). (s, addr_pk a) \<in> link_pairs c \<longrightarrow> host_of_pk c (addr_instance a) = Some (address a)"
  shows "linked_names (make_exact s names c) s = set names"
    and "s' \<noteq> s \<Longrightarrow> (s', t) \<in> link_pairs (make_exact s names c) \<longleftrightarrow> (s', t) \<in> link_pairs c"
proof -
  define present where "present = List.map_filter (target_address c) (filter (\<lambda>l. link_source l = s) (links c))"
  define extra where "extra = filter (\<lambda>n. n \<notin> set names) present"
  define c1 where "c1 = c\<lparr>links := filter (\<lambda>l. \<not> (link_source l = s \<and> target_host c l \<in> Some ` set extra)) (links c)\<rparr>"
  define new where "new = filter (\<lambda>n. n \<notin> set present) (remdups names)"
  have make: "make_exact s names c = establish_all s new c1"
    by (simp add: make_exact_def Let_def present_def extra_def c1_def new_def)
  have by_pk: "find (\<lambda>b. addr_pk b = addr_pk a) (addresses c) = Some a"
    and by_name: "address_pk c (address a) = Some (addr_pk a)" if "a \<in> set (addresses c)" for a
    using find_the_row [OF assms(1) that] find_the_row [OF assms(2) that] by (simp_all add: address_pk_def)
  have present: "address a \<in> set present \<longleftrightarrow> (s, addr_pk a) \<in> link_pairs c" if "a \<in> set (addresses c)" for a
  proof
    assume "address a \<in> set present"
    then obtain l where l: "l \<in> set (links c)" "link_source l = s" "target_address c l = Some (address a)"
      by (auto simp: present_def List.map_filter_def)
    then obtain b where b: "b \<in> set (addresses c)" "addr_pk b = link_target l" "address b = address a"
      by (auto simp: target_address_def dest: find_SomeD)
    then have "b = a" using assms(2) that by (auto simp: distinct_map dest: inj_onD)
    then show "(s, addr_pk a) \<in> link_pairs c" using link_pairsI [OF l(1)] l(2) b(2) by simp
  next
    assume "(s, addr_pk a) \<in> link_pairs c"
    then obtain l where "l \<in> set (links c)" "link_source l = s" "link_target l = addr_pk a" by (auto simp: link_pairs_def)
    then show "address a \<in> set present"
      using by_pk [OF that] by (force simp: present_def List.map_filter_def target_address_def)
  qed
  have kept: "(s, addr_pk a) \<in> link_pairs c1 \<longleftrightarrow> (s, addr_pk a) \<in> link_pairs c \<and> address a \<in> set names"
    if "a \<in> set (addresses c)" for a
  proof -
    have host: "target_host c l = host_of_pk c (addr_instance a)" if "link_target l = addr_pk a" for l
      using by_pk [OF \<open>a \<in> set (addresses c)\<close>] that by (simp add: target_host_def)
    show ?thesis
    proof (cases "(s, addr_pk a) \<in> link_pairs c")
      case True
      then have "address a \<in> set present" "host_of_pk c (addr_instance a) = Some (address a)"
        using present [OF that] named that by blast+
      then show ?thesis using True host by (auto simp: c1_def link_pairs_def extra_def)
    qed (auto simp: c1_def link_pairs_def)
  qed
  have "(s, addr_pk a) \<in> link_pairs (make_exact s names c) \<longleftrightarrow> address a \<in> set names" if "a \<in> set (addresses c)" for a
  proof -
    have "address_pk c1 = address_pk c" by (rule address_pk_cong) (simp add: c1_def)
    moreover have "(\<exists>n \<in> set new. address_pk c n = Some (addr_pk a)) \<longleftrightarrow> address a \<in> set new"
    proof
      assume "\<exists>n \<in> set new. address_pk c n = Some (addr_pk a)"
      then obtain n b where n: "n \<in> set new" "b \<in> set (addresses c)" "address b = n" "addr_pk b = addr_pk a"
        by (auto simp: address_pk_def dest: find_SomeD)
      then have "b = a" using assms(1) that by (auto simp: distinct_map dest: inj_onD)
      with n show "address a \<in> set new" by simp
    qed (use by_name [OF that] in blast)
    ultimately show ?thesis
      unfolding make establish_all_links(1) using kept [OF that] present [OF that] by (auto simp: new_def)
  qed
  moreover have "addresses (make_exact s names c) = addresses c" by (simp add: make establish_all_links(2) c1_def)
  ultimately show "linked_names (make_exact s names c) s = set names"
    using known by (auto simp: linked_names_def)
  show "(s', t) \<in> link_pairs (make_exact s names c) \<longleftrightarrow> (s', t) \<in> link_pairs c" if "s' \<noteq> s"
    using that unfolding make establish_all_links(1) by (auto simp: c1_def link_pairs_def)
qed

end
