(* ===== verification/ClusterSteps.thy ===== *)
theory ClusterSteps
  imports NodeAdmin
begin

section \<open>Runs of the cluster\<close>

text \<open>
  Any number of hosts with their own settings, the API and the commands work on the tables, one
  task after the other. What holds in every table they can produce is an invariant of the step
  relation; below are also the exact effects of a heartbeat and of a command on the mesh.
\<close>

subsection \<open>Steps\<close>

text \<open>
  The settings \<open>st\<close> belong to the host that takes the step. A new row has a key that is not in
  use. Jobs and deliveries of messages belong to other components and are arbitrary.
\<close>

inductive cluster_step :: "cluster \<Rightarrow> cluster \<Rightarrow> bool" where
  heartbeat: "new_pk w \<notin> node_pk ` set (nodes c) \<Longrightarrow> cluster_step c (snd (cluster_node_heartbeat newer st w c))"
| local_check: "cluster_step c (snd (cluster_node_health_check st r host c))"
| remote_check: "cluster_step c (snd (execution_node_health_check st now d host c))"
| request: "cluster_step c (snd (request_health_check st now pk c))"
| shutdown: "cluster_step c (inform_cluster_of_shutdown st now t c)"
| disable: "cluster_step c (snd (disable_instance st selected c))"
| provision: "pk \<notin> node_pk ` set (nodes c) \<Longrightarrow> cluster_step c (snd (provision_instance st pk uuid4 ip host kind uuid c))"
| deprovision: "cluster_step c (snd (deprovision_instance host c))"
| create: "pk \<notin> node_pk ` set (nodes c) \<Longrightarrow> cluster_step c (snd (create_instance st proper pk addr d c))"
| update: "cluster_step c (snd (update_instance st proper pk addr partial d c))"
| removing: "cluster_step c (mark_links_removing host c)"
| removed: "cluster_step c (remove_turn host c)"
| peers: "cluster_step c (snd (register_peers p c))"
| address: "cluster_step c (snd (add_address pk q c))"
| unaddress: "cluster_step c (remove_receptor_address name c)"
| work: "cluster_step c (c\<lparr>jobs := t, outbox := ms\<rparr>)"

inductive_cases from_step: "cluster_step c d"

definition empty_cluster :: cluster where
  "empty_cluster = \<lparr>nodes = [], addresses = [], links = [], jobs = \<lparr>rows = [], emitted = []\<rparr>, outbox = []\<rparr>"

inductive reachable :: "cluster \<Rightarrow> bool" where
  start: "reachable empty_cluster"
| step: "reachable c \<Longrightarrow> cluster_step c d \<Longrightarrow> reachable d"

lemma cluster_step_ok: "cluster_step c d \<Longrightarrow> cluster_ok c \<Longrightarrow> cluster_ok d"
proof (induction rule: cluster_step.induct)
  case (work c t ms)
  then show ?case by (simp add: cluster_ok_def)
qed (simp_all add: heartbeat_ok health_tasks_ok provisioning_ok create_instance_ok update_instance_ok
      peer_operations_ok remove_receptor_address_def)

lemma reachable_ok: "reachable c \<Longrightarrow> cluster_ok c"
proof (induction rule: reachable.induct)
  case start
  show ?case by (simp add: cluster_ok_def empty_cluster_def)
next
  case (step c d)
  then show ?case by (blast intro: cluster_step_ok)
qed

subsection \<open>Properties\<close>

text \<open>
  C9: Whatever the heartbeats, health checks, commands and requests do, one after the other: host
  names stay unique, a node that is unavailable offers no capacity, and a node in use offers a
  whole number of forks that is not negative and at most the larger of its limits by processors
  and by memory, times its capacity adjustment where this exceeds 1 (the API sets no upper bound
  on it).
\<close>

theorem reachable_capacity:
  assumes "reachable c" and "x \<in> set (nodes c)"
  shows "(\<forall>y \<in> set (nodes c). hostname y = hostname x \<longrightarrow> y = x) \<and>
    node_capacity x \<in> \<int> \<and>
    (node_state x = Unavailable \<longrightarrow> node_capacity x = 0 \<and> cpu_capacity x = 0 \<and> mem_capacity x = 0) \<and>
    (node_state x = Ready \<longrightarrow> 0 \<le> node_capacity x \<and>
       node_capacity x \<le> max 1 (capacity_adjustment x) * of_int (max (cpu_capacity x) (mem_capacity x)))"
proof -
  have ok: "cluster_ok c" by (rule reachable_ok [OF assms(1)])
  then have x: "node_ok x" using assms(2) by (simp add: cluster_ok_def)
  then have "node_capacity x = of_int (trunc (node_capacity x))" by (simp add: node_ok_def)
  then have "node_capacity x \<in> \<int>" by (metis Ints_of_int)
  moreover have "node_state x = Unavailable \<longrightarrow> node_capacity x = 0 \<and> cpu_capacity x = 0 \<and> mem_capacity x = 0"
    using node_ok_unavailable [OF x] x by (simp add: node_ok_def)
  moreover have "node_state x = Ready \<longrightarrow> 0 \<le> node_capacity x \<and>
       node_capacity x \<le> max 1 (capacity_adjustment x) * of_int (max (cpu_capacity x) (mem_capacity x))"
    using node_ok_bounds [OF x] by simp
  moreover have "\<forall>y \<in> set (nodes c). hostname y = hostname x \<longrightarrow> y = x"
    using hostname_unique [OF ok _ assms(2)] by blast
  ultimately show ?thesis by blast
qed

text \<open>What is said of the copies that a task holds, read off the rows of the table.\<close>

lemma held_fields:
  "held c z \<Longrightarrow> \<exists>y \<in> set (nodes c). node_pk y = node_pk z \<and> node_state y = node_state z \<and> last_seen y = last_seen z"
  using row_of_fields unfolding held_def by metis

lemma gone_or_off_row:
  assumes "gone_or_off st x c"
  shows "if auto_deprovision st \<and> kind_of_node x = Control then \<forall>y \<in> set (nodes c). node_pk y \<noteq> node_pk x
         else \<exists>y \<in> set (nodes c). node_pk y = node_pk x \<and> node_state y \<noteq> Ready"
proof (cases "auto_deprovision st \<and> kind_of_node x = Control")
  case True
  then have "node_pk x \<notin> node_pk ` set (nodes c)" using assms by (simp add: gone_or_off_def)
  then show ?thesis using True by (metis imageI)
next
  case False
  then obtain z where "held c z" "node_pk z = node_pk x" "node_state z \<noteq> Ready"
    using assms unfolding gone_or_off_def by meson
  then show ?thesis using held_fields [of c z] False by auto
qed

text \<open>
  C8: A heartbeat of a control node that runs to its end has decided for every node by its last
  sign of life. A lost node is deleted (a control node, when nodes are deprovisioned
  automatically) or not ready any more, and no job runs on it; any other node keeps its state,
  except a hop node that rejoins; this node is ready or, without Redis, unavailable, and has
  just been seen; and jobs that ran neither on a lost node nor on this one are untouched.
\<close>

theorem heartbeat_decides:
  assumes "reachable c" and "unique_rows (jobs c)"
    and "cluster_node_heartbeat newer st w c = (Completed, c')" and "mesh w = Some status"
    and "h \<in> set (nodes c)" and "hostname h = cluster_host_id st" and "in_service h" and "kind_of_node h \<in> {Control, Hybrid}"
  shows "(\<forall>x \<in> set (nodes c). in_service x \<and> lost_for st (beat_time w) status x \<longrightarrow>
      (if auto_deprovision st \<and> kind_of_node x = Control then \<forall>y \<in> set (nodes c'). node_pk y \<noteq> node_pk x
       else \<exists>y \<in> set (nodes c'). node_pk y = node_pk x \<and> node_state y \<noteq> Ready) \<and>
      (\<forall>r \<in> set (rows (jobs c')). \<not> runs_on (hostname x) r)) \<and>
    (\<forall>x \<in> set (nodes c). in_service x \<and> x \<noteq> h \<and> \<not> lost_for st (beat_time w) status x \<longrightarrow>
      (\<exists>y \<in> set (nodes c'). node_pk y = node_pk x \<and> last_seen y = heard (advertisements status) x \<and>
         (node_state y = node_state x \<or> kind_of_node x = Hop \<and> node_state y = Ready))) \<and>
    (\<exists>y \<in> set (nodes c'). node_pk y = node_pk h \<and> last_seen y = Some (check_time (local_readings w)) \<and>
       node_state y = (if redis_up (local_readings w) then Ready else Unavailable)) \<and>
    (\<forall>r \<in> set (rows (jobs c)). {job_execution r, job_controller r} \<inter>
       insert (hostname h) (hostname ` {x \<in> set (nodes c). in_service x \<and> lost_for st (beat_time w) status x}) = {} \<longrightarrow>
       r \<in> set (rows (jobs c')))"
proof -
  have ok: "cluster_ok c" by (rule reachable_ok [OF assms(1)])
  note beat = completed_heartbeat [OF assms(3,4) ok assms(2,5-8)]
  have lost: "(if auto_deprovision st \<and> kind_of_node x = Control then \<forall>y \<in> set (nodes c'). node_pk y \<noteq> node_pk x
       else \<exists>y \<in> set (nodes c'). node_pk y = node_pk x \<and> node_state y \<noteq> Ready) \<and>
      (\<forall>r \<in> set (rows (jobs c')). \<not> runs_on (hostname x) r)"
    if "x \<in> set (nodes c)" "in_service x \<and> lost_for st (beat_time w) status x" for x
    using beat(1) [of x] that gone_or_off_row [of st x c'] by blast
  have kept: "\<exists>y \<in> set (nodes c'). node_pk y = node_pk x \<and> last_seen y = heard (advertisements status) x \<and>
         (node_state y = node_state x \<or> kind_of_node x = Hop \<and> node_state y = Ready)"
    if x: "x \<in> set (nodes c)" "in_service x \<and> x \<noteq> h \<and> \<not> lost_for st (beat_time w) status x" for x
  proof -
    have "hostname x \<noteq> cluster_host_id st" using hostname_unique [OF ok x(1) assms(5)] assms(6) x(2) by auto
    then obtain z where "held c' z" "inspected (advertisements status) x z" using beat(2) x by blast
    then show ?thesis using held_fields [of c' z] by (fastforce simp: inspected_def core_def)
  qed
  have me: "\<exists>y \<in> set (nodes c'). node_pk y = node_pk h \<and> last_seen y = Some (check_time (local_readings w)) \<and>
       node_state y = (if redis_up (local_readings w) then Ready else Unavailable)"
    using beat(3) held_fields by metis
  have untouched: "r \<in> set (rows (jobs c'))" if "r \<in> set (rows (jobs c))" "{job_execution r, job_controller r} \<inter>
       insert (hostname h) (hostname ` {x \<in> set (nodes c). in_service x \<and> lost_for st (beat_time w) status x}) = {}" for r
    by (rule swept_keeps [OF beat(4) that(1)]) (use that(2) assms(6) in auto)
  show ?thesis
    by (intro conjI; (intro ballI impI)?;
        (rule lost, assumption+ | rule kept, assumption+ | rule untouched, assumption+ | rule me))
qed


text \<open>
  C32: When every receptor address of the node's peers is called like its node, \<open>--exact\<close> leaves
  links from the node to exactly the named addresses, and all links of other nodes. A refused
  command changes nothing.
\<close>

theorem exact_peers:
  assumes "distinct (map addr_pk (addresses c))" and "distinct (map address (addresses c))"
    and "peer_exact p = Some names" and "find (\<lambda>x. hostname x = peer_source p) (nodes c) = Some x"
    and "\<forall>a \<in> set (addresses c). (node_pk x, addr_pk a) \<in> link_pairs c \<longrightarrow> host_of_pk c (addr_instance a) = Some (address a)"
  shows "case register_peers p c of
      (Some e, c') \<Rightarrow> c' = c
    | (None, c') \<Rightarrow> linked_names c' (node_pk x) = set names \<and>
        (\<forall>s t. s \<noteq> node_pk x \<longrightarrow> (s, t) \<in> link_pairs c' \<longleftrightarrow> (s, t) \<in> link_pairs c)"
proof (cases "check_peers p c")
  case (Some e)
  then show ?thesis by (simp add: register_peers_def)
next
  case None
  have opts: "listed (peer_add p) = []" "listed (peer_disconnect p) = []"
    and known: "set names \<subseteq> address ` set (addresses c)"
    using None assms(3) by (auto simp: check_peers_def listed_def Let_def list_all_iff split: if_splits)
  have "register_peers p c = (None, make_exact (node_pk x) names c)"
    using None assms(3,4) opts by (simp add: register_peers_def establish_all_def disconnect_all_def List.map_filter_def)
  then show ?thesis using make_exact_links [OF assms(1,2) known assms(5)] by simp
qed

subsection \<open>A small cluster\<close>

text \<open>The settings of the hosts \<open>a\<close> and \<open>b\<close>; what \<open>a\<close> reads at time \<open>t\<close>.\<close>

definition sample_capacities :: capacity_settings where
  "sample_capacities = \<lparr>env_abscpu = None, settings_abscpu = None, env_forkcpu = None, settings_forkcpu = JNull,
     env_absmem = None, settings_absmem = None, env_mem_mb_per_fork = None, settings_mem_mb_per_fork = JNull, is_k8s = False\<rparr>"

definition sample_settings :: "string \<Rightarrow> cluster_settings" where
  "sample_settings h = \<lparr>cluster_host_id = h,
     liveness = \<lparr>heartbeat_period = 60, missed_heartbeat_tolerance = 2, advertisement_period = 60\<rparr>,
     capacities = sample_capacities, remediation_checks = 1800, auto_deprovision = False, debug_mode = False,
     awx_version = ''1.0'', system_uuid = ''u'' @ h, job_waiting_grace_period = 60, task_manager_timeout = 300\<rparr>"

definition sample_readings :: "int \<Rightarrow> readings" where
  "sample_readings t = \<lparr>redis_up = True, cpu_count = 4, mem_in_bytes = 4294967296, check_time = t\<rparr>"

definition same_version :: "string \<Rightarrow> string \<Rightarrow> bool option" where
  "same_version v u = Some False"

definition sample_beat :: "int \<Rightarrow> surroundings" where
  "sample_beat t = \<lparr>beat_time = t, inspect_time = t, mesh = Some \<lparr>known_connection_costs = [], advertisements = []\<rparr>,
     local_readings = sample_readings t, pod_ip = [], new_pk = 9, reap_time = (\<lambda>_. t), worker_tasks = None,
     dispatch_time = t\<rparr>"

text \<open>Two hybrid nodes are registered and checked; then \<open>b\<close> is silent and has a running job.\<close>

definition two_nodes :: cluster where
  "two_nodes =
     (let c1 = snd (provision_instance (sample_settings ''a'') 1 [] [] ''a'' Hybrid (Some ''ua'') empty_cluster);
          c2 = snd (provision_instance (sample_settings ''a'') 2 [] [] ''b'' Hybrid (Some ''ub'') c1);
          c3 = snd (cluster_node_health_check (sample_settings ''b'') (sample_readings 0) ''b'' c2);
          c4 = snd (cluster_node_health_check (sample_settings ''a'') (sample_readings 900) ''a'' c3)
      in c4\<lparr>jobs := \<lparr>rows = [lost_job 7 Running ''b'', lost_job 8 Running ''c''], emitted = []\<rparr>, outbox := []\<rparr>)"


subsection \<open>Witnesses\<close>

lemma two_nodes_reachable: "reachable two_nodes"
proof -
  have free: "pk \<notin> node_pk ` set (nodes c)" if "\<not> list_ex (\<lambda>x. node_pk x = pk) (nodes c)" for pk c
    using that by (auto simp: list_ex_iff)
  show ?thesis unfolding two_nodes_def Let_def
    by (rule reachable.step [OF reachable.step [OF reachable.step [OF reachable.step [OF reachable.step [OF
          reachable.start provision] provision] local_check] local_check] work])
      (rule free, code_simp)+
qed

definition quiet_node :: node where
  "quiet_node = hd (tl (nodes two_nodes))"

theorem reachable_capacity_witness:
  "reachable two_nodes \<and> map (\<lambda>x. (hostname x, node_capacity x)) (nodes two_nodes) = [(''a'', 20), (''b'', 20)] \<and>
   node_capacity quiet_node \<le> max 1 (capacity_adjustment quiet_node) * of_int (max (cpu_capacity quiet_node) (mem_capacity quiet_node))"
proof -
  have "quiet_node \<in> set (nodes two_nodes)" and "node_state quiet_node = Ready"
    and "map (\<lambda>x. (hostname x, node_capacity x)) (nodes two_nodes) = [(''a'', 20), (''b'', 20)]"
    by code_simp+
  then show ?thesis using reachable_capacity [OF two_nodes_reachable, of quiet_node] two_nodes_reachable by blast
qed

text \<open>The silent node is taken offline, its job fails, and the job of \<open>c\<close> goes on.\<close>

theorem heartbeat_decides_witness:
  "\<exists>c'. cluster_node_heartbeat same_version (sample_settings ''a'') (sample_beat 960) two_nodes = (Completed, c') \<and>
     (\<exists>y \<in> set (nodes c'). node_pk y = 2 \<and> node_state y \<noteq> Ready) \<and> lost_job 8 Running ''c'' \<in> set (rows (jobs c'))"
proof -
  let ?st = "sample_settings ''a''" and ?w = "sample_beat 960"
  let ?mesh = "\<lparr>known_connection_costs = [], advertisements = []\<rparr>" and ?h = "hd (nodes two_nodes)"
  obtain c' where c': "cluster_node_heartbeat same_version ?st ?w two_nodes = (Completed, c')"
  proof -
    have "fst (cluster_node_heartbeat same_version ?st ?w two_nodes) = Completed" by code_simp
    then show ?thesis using that by (cases "cluster_node_heartbeat same_version ?st ?w two_nodes") simp
  qed
  have "unique_rows (jobs two_nodes)" "mesh ?w = Some ?mesh" "?h \<in> set (nodes two_nodes)"
    "hostname ?h = cluster_host_id ?st" "in_service ?h" by code_simp+
  moreover have "kind_of_node ?h = Hybrid" by code_simp
  ultimately have all: "\<forall>x \<in> set (nodes two_nodes). in_service x \<and> lost_for ?st (beat_time ?w) ?mesh x \<longrightarrow>
      (if auto_deprovision ?st \<and> kind_of_node x = Control then \<forall>y \<in> set (nodes c'). node_pk y \<noteq> node_pk x
       else \<exists>y \<in> set (nodes c'). node_pk y = node_pk x \<and> node_state y \<noteq> Ready)"
    and jobs: "\<forall>r \<in> set (rows (jobs two_nodes)). {job_execution r, job_controller r} \<inter>
       insert (hostname ?h) (hostname ` {x \<in> set (nodes two_nodes). in_service x \<and> lost_for ?st (beat_time ?w) ?mesh x}) = {} \<longrightarrow>
       r \<in> set (rows (jobs c'))"
    using heartbeat_decides [OF two_nodes_reachable _ c', of ?mesh ?h] by blast+
  have q: "quiet_node \<in> set (nodes two_nodes)" "in_service quiet_node \<and> lost_for ?st (beat_time ?w) ?mesh quiet_node"
    "\<not> auto_deprovision ?st" "node_pk quiet_node = 2" by code_simp+
  have r: "lost_job 8 Running ''c'' \<in> set (rows (jobs two_nodes))"
    "list_all (\<lambda>x. hostname x \<noteq> ''c'') (nodes two_nodes)" by code_simp+
  have "lost_job 8 Running ''c'' \<in> set (rows (jobs c'))"
  proof (rule bspec [OF jobs r(1), THEN mp])
    have "hostname y \<noteq> ''c''" if "y \<in> set (nodes two_nodes)" for y using r(2) that by (simp add: list_all_iff)
    then show "{job_execution (lost_job 8 Running ''c''), job_controller (lost_job 8 Running ''c'')} \<inter>
       insert (hostname ?h) (hostname ` {x \<in> set (nodes two_nodes). in_service x \<and> lost_for ?st (beat_time ?w) ?mesh x}) = {}"
      using \<open>?h \<in> set (nodes two_nodes)\<close> unfolding lost_job_def by fastforce
  qed
  moreover have "\<exists>y \<in> set (nodes c'). node_pk y = 2 \<and> node_state y \<noteq> Ready"
    using bspec [OF all q(1), THEN mp, OF q(2)] q(3,4) by simp
  ultimately show ?thesis using c' by blast
qed

text \<open>Node \<open>a\<close> peers to \<open>b\<close>, and then to \<open>d\<close> instead.\<close>

definition mesh_sample :: cluster where
  "mesh_sample = empty_cluster\<lparr>
     nodes := [fresh_node 1 ''ua'' ''a'' [] Execution, fresh_node 2 ''ub'' ''b'' [] Hop, fresh_node 3 ''ud'' ''d'' [] Hop],
     addresses := [blank_address 10 ''b'' 2, blank_address 11 ''d'' 3],
     links := [\<lparr>link_source = 1, link_target = 10, link_state = Established\<rparr>]\<rparr>"

definition exact_options :: peer_options where
  "exact_options = \<lparr>peer_source = ''a'', peer_add = None, peer_disconnect = None, peer_exact = Some [''d'']\<rparr>"

theorem exact_peers_witness:
  "fst (register_peers exact_options mesh_sample) = None \<and>
   linked_names (snd (register_peers exact_options mesh_sample)) 1 = {''d''}"
proof -
  have "distinct (map addr_pk (addresses mesh_sample))" "distinct (map address (addresses mesh_sample))"
    "peer_exact exact_options = Some [''d'']"
    "find (\<lambda>x. hostname x = peer_source exact_options) (nodes mesh_sample) = Some (fresh_node 1 ''ua'' ''a'' [] Execution)"
    by code_simp+
  moreover have "list_all (\<lambda>a. host_of_pk mesh_sample (addr_instance a) = Some (address a)) (addresses mesh_sample)"
    and ok: "fst (register_peers exact_options mesh_sample) = None" by code_simp+
  ultimately show ?thesis
    using exact_peers [of mesh_sample exact_options "[''d'']" "fresh_node 1 ''ua'' ''a'' [] Execution"]
    by (cases "register_peers exact_options mesh_sample") (simp add: list_all_iff fresh_node_def)
qed


subsection \<open>What the source's comments and options do not say\<close>

text \<open>
  A heartbeat takes \<open>b\<close> offline while \<open>b\<close> is in its own health check, with a copy of its row in
  which it is ready: the check saves a capacity and no state, so that the node is unavailable
  with capacity. Tasks that run one after the other never leave such a row.
\<close>

definition after_loss :: cluster where
  "after_loss = snd (cluster_node_heartbeat same_version (sample_settings ''a'') (sample_beat 960) two_nodes)"

lemma late_check_revives_capacity:
  "map (\<lambda>x. (node_state x, node_capacity x))
     (nodes (snd (local_health_check (sample_settings ''b'') (sample_readings 970) quiet_node after_loss))) =
   [(Ready, 20), (Unavailable, 20)]"
  by code_simp

text \<open>The command that disables a node leaves its capacity, the API sets it to 0.\<close>

definition disabling :: node_attrs where
  "disabling = \<lparr>at_hostname = None, at_type = None, at_state = None, at_enabled = Some False, at_adjustment = None,
     at_by_policy = None, at_port = None, at_peers_from_control = None, at_peers = None\<rparr>"

lemma disabled_nodes_differ:
  "map node_capacity (nodes (snd (disable_instance (sample_settings ''a'') (\<lambda>x. hostname x = ''b'') two_nodes))) = [20, 20]"
  "map node_capacity (nodes (snd (update_instance (sample_settings ''a'') (\<lambda>_. True) 2 50 True disabling two_nodes))) = [20, 0]"
  by code_simp+

text \<open>A registration always reports a change, and a node that is registered again keeps its capacity.\<close>

lemma register_always_changes: "fst (register st pk u4 uuid host ip kind c) = Inr (b, x) \<Longrightarrow> b"
  by (auto simp: register_def Let_def split: option.splits prod.splits if_splits)

lemma registered_again:
  "map (\<lambda>x. (node_state x, node_capacity x))
     (nodes (snd (provision_instance (sample_settings ''a'') 3 [] [] ''a'' Hop None two_nodes))) =
   [(Installed, 20), (Ready, 20)]"
  by code_simp

text \<open>The row of the missing host is not caught by the handler for \<open>DoesNotExist\<close>.\<close>

lemma missing_host_raises:
  "fst (cluster_node_health_check (sample_settings ''a'') (sample_readings 0) ''a'' empty_cluster) = Some ''RuntimeError''"
  by code_simp

text \<open>
  Receptor does not answer: the heartbeat ends before the node has reported itself, so that the
  other nodes will take it for lost.
\<close>

lemma silent_receptor_stops_heartbeat:
  "cluster_node_heartbeat newer st (w\<lparr>mesh := None\<rparr>) c = (Raised ''receptor'', c)"
  by (simp add: cluster_node_heartbeat_def Let_def)

text \<open>
  A host that comes back under another name takes over its old row, which is in the list of lost
  nodes by then: the heartbeat deletes the row it has just registered.
\<close>

lemma renamed_host_deletes_itself:
  "map hostname (nodes (snd (cluster_node_heartbeat same_version
     ((sample_settings ''new'')\<lparr>auto_deprovision := True, system_uuid := ''ub''\<rparr>) (sample_beat 960)
     (two_nodes\<lparr>nodes := map (\<lambda>x. x\<lparr>kind_of_node := Control\<rparr>) (nodes two_nodes)\<rparr>)))) = [''a'']"
  by code_simp

text \<open>\<open>--exact\<close> keeps a link to an address that is not called like its node.\<close>

lemma exact_keeps_other_names:
  "linked_names (snd (register_peers exact_options (mesh_sample\<lparr>addresses :=
     [blank_address 10 ''b.example'' 2, blank_address 11 ''d'' 3]\<rparr>))) 1 = {''b.example'', ''d''}"
proof -
  let ?c = "snd (register_peers exact_options (mesh_sample\<lparr>addresses := [blank_address 10 ''b.example'' 2, blank_address 11 ''d'' 3]\<rparr>))"
  have facts: "addresses ?c = [blank_address 10 ''b.example'' 2, blank_address 11 ''d'' 3]"
    "map (\<lambda>l. (link_source l, link_target l)) (links ?c) = [(1, 10), (1, 11)]" by code_simp+
  show ?thesis unfolding linked_names_def link_pairs_map facts by (auto simp: blank_address_def)
qed

text \<open>A memory limit without a number is an exception, and one with a fraction is one byte.\<close>

lemma memory_limits_read:
  "convert_mem_str_to_bytes ''2Gi'' = Inr 2147483648" "convert_mem_str_to_bytes ''Gi'' = Inl ''ValueError''"
  "convert_mem_str_to_bytes ''1.5Gi'' = Inr 1" "convert_cpu_str_to_decimal_cpu [] = Inl ''IndexError''"
  by code_simp+

end
