(* ===== verification/Spec2Isabelle.thy ===== *)
theory Spec2Isabelle
  imports WorkflowDag DependencyManager PeriodicScheduler Reaper TaskManager WorkflowManager WorkerPool
    TenantGates LaunchGates Eda Drift Survey GroupDeletion InventorySlices ClusterPolicies RoleAncestors
    ImportRun ClusterSteps
begin

text \<open>
  \<^bold>\<open>Forail: a model of the backend's own decisions\<close>

  Forail is a Django service around Ansible. A request launches a job template: the answers to its
  survey are checked, the quota of the tenant, the policies and the scanners are asked, and a pending
  job is stored. Background processes do the rest: the dependency manager gives pending jobs the
  project and inventory updates they wait for, the workflow manager spawns the jobs of running
  workflows, the task manager starts what fits, a pool of workers executes messages, reapers fail
  what was lost. Events from outside start jobs through rules, and the facts that jobs gather are
  compared for drift. The theories model these decisions as functions on explicit states; what they
  read from outside (queries that are not decisions, hashes, ciphers, HTTP, the clock, random
  choices) are arguments or fields of a record of the environment.

  \<^bold>\<open>Shared theories\<close>
  \<^item> \<open>Prelude\<close>: Python's dictionaries as association lists in insertion order with a locale of their
    laws, sets kept as lists, decimal printing, the status values of \<^verbatim>\<open>forail/main/models/unified_jobs.py\<close>,
    folds that may fail, the collections of simplification rules.
  \<^item> \<open>PyValues\<close>: the values of a \<open>JSONField\<close> with Python's truth, equality, \<open>str\<close>, \<open>int\<close> and iteration.
    \<open>PyJson\<close>: \<open>json.loads\<close> and \<open>json.dumps\<close>, and that they are inverse (\<open>json_loads_dumps\<close>).
  \<^item> \<open>Cooldown\<close>: the contract of everything that is limited to one firing per period, a locale,
    interpreted on the throttle of event rules and on the cooldown of drift alerts.

  \<^bold>\<open>Workflows\<close> (\<^verbatim>\<open>forail/main/scheduler/dag_simple.py\<close>, \<^verbatim>\<open>dag_workflow.py\<close>)
  \<^item> \<open>SimpleDag\<close>: \<open>SimpleDAG\<close>, its node list, index dictionary, edge tables and root set. The lemmas show
    its invariant, what the cycle search decides, and that the topological sort is one.
  \<^item> \<open>WorkflowDag\<close>: \<open>WorkflowDAG\<close>, over the rows of workflow nodes. The marking of nodes that will not run
    is shown to be the solution of its rule, the breadth-first search to return exactly the
    ready nodes. Where the graph has no cycle and no node that waits for all its parents has a
    parent without template, in error or canceled (the convergence test does not cover those), a
    marking round leaves the workflow finished, with a node to run, or with a job still to finish.

  \<^bold>\<open>Scheduling\<close> (\<^verbatim>\<open>forail/main/scheduler/\<close>, \<^verbatim>\<open>forail/main/dispatch/\<close>)
  \<^item> \<open>DependencyGraph\<close>: which running task blocks a pending one, refined to "the first that occupies one of
    its resources"; a locale states what the task manager relies on.
  \<^item> \<open>TaskManagerModels\<close>: the ledger of instances and groups, and the choice of an instance.
  \<^item> \<open>TaskManager\<close>: a run over pending tasks; started tasks never conflict, capacities and limits hold.
  \<^item> \<open>WorkflowManager\<close>, \<open>DependencyManager\<close>: spawning for running workflows, whose rounds advance unless a
    job is unfinished; update-on-launch.
  \<^item> \<open>WorkerPool\<close>, \<open>PeriodicScheduler\<close>, \<open>Reaper\<close>: the dispatcher's pool, its periodic tasks, and the sweeps
    over lost jobs and expired approvals.

  \<^bold>\<open>Launching\<close>
  \<^item> \<open>Tenancy\<close>, \<open>TenantGates\<close> (\<^verbatim>\<open>forail/main/tenancy/\<close>): quota, provisioning, queue names; the isolation
    middleware and the token bucket of the rate limiter. The recalculation of a tenant's usage is two
    steps, as it reads without a lock and saves the row later: the daily quota is shown for
    launches that no recalculation overlaps, and a launch in between can be forgotten.
  \<^item> \<open>Policy\<close> (\<^verbatim>\<open>forail/main/policy/\<close>), \<open>Scanning\<close> (\<^verbatim>\<open>forail/main/scanning/\<close>): verdicts of policies and scanners.
  \<^item> \<open>LaunchGates\<close>: the gates in the order of the launch views.
  \<^item> \<open>DynamicSurvey\<close> (\<^verbatim>\<open>forail/main/services/dynamic_survey.py\<close>), \<open>Survey\<close> (\<^verbatim>\<open>forail/main/models/mixins.py\<close>,
    \<^verbatim>\<open>forail/api/views/job_templates.py\<close>): specification of a survey, answers, variables of a launch.

  \<^bold>\<open>Events and drift\<close>
  \<^item> \<open>Eda\<close> (\<^verbatim>\<open>forail/main/models/eda.py\<close>, \<^verbatim>\<open>tasks/eda.py\<close>, \<^verbatim>\<open>forail/api/views/eda.py\<close>): the webhook receiver, the
    evaluation of event rules, outbound webhooks.
  \<^item> \<open>Drift\<close> (\<^verbatim>\<open>forail/main/models/drift.py\<close>, \<^verbatim>\<open>tasks/drift.py\<close>): snapshots of facts, their comparison, alerts,
    the cleanup.

  \<^bold>\<open>Inventories\<close>
  \<^item> \<open>InventoryGroups\<close>, \<open>GroupDeletion\<close> (\<^verbatim>\<open>forail/main/models/inventory.py\<close>, \<^verbatim>\<open>forail/api/views/groups.py\<close>): the walks
    over the hierarchy of groups, which end on every graph, associations, which keep it acyclic, and the
    recursive deletion.
  \<^item> \<open>InventorySlices\<close> (\<^verbatim>\<open>models/inventory.py\<close>, \<^verbatim>\<open>models/jobs.py\<close>, \<^verbatim>\<open>models/workflow.py\<close>, \<^verbatim>\<open>managers.py\<close>): the script
    data of an inventory and its slices; the slices of a launch cover every enabled host once.
  \<^item> \<open>MemInventory\<close> (\<^verbatim>\<open>forail/main/utils/mem_inventory.py\<close>): what the import reads from the output of
    \<open>ansible-inventory\<close>, exactly, and that written inventories are read back, with normalised relations.
  \<^item> \<open>InventoryImport\<close> (\<^verbatim>\<open>forail/main/management/commands/inventory_import.py\<close>): storing what was read, over
    rows with keys, queries in batches, instance ids, and the transaction. \<open>ImportRefinement\<close> describes
    an import without instance ids by sets of names and shows, stage by stage, that the code implements the
    description; locales state what the stages share (deleting in batches, writing rows, writing links).
    \<open>ImportRun\<close> joins reading and storing, and holds samples of the behaviours outside the description.

  \<^bold>\<open>Cluster and access\<close>
  \<^item> \<open>ClusterPolicies\<close> (\<^verbatim>\<open>forail/main/tasks/system.py\<close>, \<^verbatim>\<open>models/ha.py\<close>): which instances the policies put into
    which groups.
  \<^item> \<open>NodeHealth\<close> (\<^verbatim>\<open>forail/main/models/ha.py\<close>, \<^verbatim>\<open>utils/common.py\<close>): the row of a node, its capacity by
    processors and memory with the settings that correct it, and the parts of a health check; the lemmas
    relate the object a task holds to the row it saves. \<open>ClusterHealth\<close> (\<^verbatim>\<open>tasks/system.py\<close>, \<^verbatim>\<open>managers.py\<close>):
    the tables of nodes, addresses and links with their signals, registration, health checks and the
    heartbeat, which fails jobs by the sweeps of \<open>Reaper\<close>. \<open>NodeAdmin\<close> (\<^verbatim>\<open>api/serializers/instances.py\<close>,
    \<^verbatim>\<open>management/commands/\<close>): the API and the commands on nodes and peers. \<open>ClusterSteps\<close> joins them in a
    step relation: what every reachable table satisfies, and what one heartbeat decides.
  \<^item> \<open>RoleAncestors\<close> (\<^verbatim>\<open>forail/main/models/rbac.py\<close>, \<^verbatim>\<open>signals.py\<close>, \<^verbatim>\<open>fields.py\<close>, \<^verbatim>\<open>models/mixins.py\<close>): the table of
    ancestors of the roles is maintained as the closure of the parents, and questions about access
    agree with the hierarchy; a loop of roles is the exception. Both settings of
    \<open>ANSIBLE_BASE_ROLE_SYSTEM_ACTIVATED\<close> are covered: when it is set, the rebuilding does nothing and
    the questions go to the role system of \<^verbatim>\<open>ansible_base\<close>, whose answers are arguments.

  \<^bold>\<open>Conventions\<close>
  \<^item> Integers of Python are \<^typ>\<open>int\<close>; times and floating point numbers are exact rationals, so rounding is
    not modelled, except in \<open>NodeHealth\<close>, where the numbers of processors are rounded as binary64.
    Strings hold characters below 256.
  \<^item> An exception is \<^const>\<open>None\<close> or an error value of a datatype; the log is not modelled.
  \<^item> A row read twice is read from a store that is passed on. Atomicity is that of the source: one run
    of a manager is one step, and interleavings are lists of steps where the source allows them.

  \<^bold>\<open>Bounds and fuel\<close>
  \<^item> The depth-first sort has the recursion limit of the interpreter as an argument: on an acyclic graph
    any limit above the number of nodes suffices, on a cyclic one none does.
  \<^item> The parser of JSON has as fuel twice the length of the text and one; \<open>json_loads_dumps\<close> shows that it is
    enough for every printed value.
  \<^item> The loop that rebuilds ancestors has the bound of the source, 101 rounds, after which it raises: a
    hierarchy without loops and with at most 100 levels below the changed roles does not reach it.
  \<^item> The size of the batches of an import is an argument that must not be 0; the results do not depend on it.
  \<^item> The run of the task manager has its own bound, the start limit of the settings.

  \<^bold>\<open>Not modelled\<close>
  \<^item> What is not a decision of this code: models, serializers, list and detail views that
    are declarations for Django and its REST framework; migrations; settings.
  \<^item> What drives other programs: runners of jobs, receptor, callback receiver, websockets, plugins
    for credentials, notification backends, single sign-on. The status of the mesh, the processors and
    memory of a host and the data of a remote worker are arguments of the tasks that read them.
  \<^item> Parts that could be modelled and are not yet: the checks of access, the credential
    types, the settings registry, analytics, licensing.
\<close>

end
